(* ===== verification/Prelude.thy ===== *)
theory Prelude
  imports Main "HOL-Library.Word" "HOL-Library.Sublist" "HOL-Library.AList" "HOL-Library.Multiset"
begin

section \<open>Prelude: machine integers, lists, and the two generic interfaces\<close>

text \<open>
  What every component theory shares: the machine integers of the code (\<open>u32\<close>, \<open>u64\<close>) with
  Rust's saturating subtraction, the list operations the code uses that HOL's \<open>List\<close> has under
  another name (indexed maps, the last position of an element), and two interfaces:
  \<^item> \<open>op_system\<close>: a component whose operations are total functions on its state and keep an
    invariant; what holds of one operation then holds of every sequence of them;
  \<^item> \<open>hash_map\<close>: the laws of \<open>std::collections::HashMap\<close> that the code relies on (lookup after
    insert and after remove), for any representation.
  The collections \<open>msg_simps\<close> and \<open>store_defs\<close> gather the facts the component proofs rewrite with.
\<close>

named_theorems msg_simps \<open>rewrite rules for message lists\<close>
named_theorems store_defs \<open>definitions of the operations of a component\<close>

subsection \<open>Machine integers\<close>

type_synonym u32 = "32 word"
type_synonym u64 = "64 word"

text \<open>\<open>saturating_sub\<close> of an unsigned integer.\<close>

definition sat_sub :: "'w::len word \<Rightarrow> 'w word \<Rightarrow> 'w word" where
  "sat_sub a b = (if b \<le> a then a - b else 0)"

lemma unat_sat_sub: "unat (sat_sub a b) = unat a - unat b"
  by (auto simp: sat_sub_def unat_sub word_le_nat_alt)

lemma sat_sub_le: "sat_sub a b \<le> a"
  by (simp add: word_le_nat_alt unat_sat_sub)

text \<open>A product that stays below the modulus is the product of the numbers.\<close>

lemma unat_mult_small:
  fixes a b :: "'w::len word"
  assumes "unat a * unat b < 2 ^ LENGTH('w)"
  shows "unat (a * b) = unat a * unat b"
  using assms by (simp add: unat_word_ariths take_bit_eq_mod)

lemma unat_add_small:
  fixes a b :: "'w::len word"
  assumes "unat a + unat b < 2 ^ LENGTH('w)"
  shows "unat (a + b) = unat a + unat b"
  using assms by (simp add: unat_word_ariths take_bit_eq_mod)

subsection \<open>Lists\<close>

text \<open>\<open>iter().enumerate().map(f)\<close>: the index is counted from \<open>n\<close>.\<close>

fun map_from :: "(nat \<Rightarrow> 'a \<Rightarrow> 'b) \<Rightarrow> nat \<Rightarrow> 'a list \<Rightarrow> 'b list" where
  "map_from f n [] = []"
| "map_from f n (x # xs) = f n x # map_from f (Suc n) xs"

abbreviation map_idx :: "(nat \<Rightarrow> 'a \<Rightarrow> 'b) \<Rightarrow> 'a list \<Rightarrow> 'b list" where
  "map_idx f xs \<equiv> map_from f 0 xs"

lemma length_map_from [simp]: "length (map_from f n xs) = length xs"
  by (induction xs arbitrary: n) auto

lemma nth_map_from [simp]: "i < length xs \<Longrightarrow> map_from f n xs ! i = f (n + i) (xs ! i)"
  by (induction xs arbitrary: n i) (auto simp: nth_Cons split: nat.splits)

lemma map_from_append:
  "map_from f n (xs @ ys) = map_from f n xs @ map_from f (n + length xs) ys"
  by (induction xs arbitrary: n) auto

lemma map_map_from: "map g (map_from f n xs) = map_from (\<lambda>i x. g (f i x)) n xs"
  by (induction xs arbitrary: n) auto

lemma map_from_map: "map_from f n (map g xs) = map_from (\<lambda>i x. f i (g x)) n xs"
  by (induction xs arbitrary: n) auto

lemma map_from_cong_const:
  "(\<And>i x. x \<in> set xs \<Longrightarrow> f i x = g x) \<Longrightarrow> map_from f n xs = map g xs"
  by (induction xs arbitrary: n) auto

lemma set_map_from: "y \<in> set (map_from f n xs) \<Longrightarrow> \<exists>i < length xs. y = f (n + i) (xs ! i)"
  by (auto simp: in_set_conv_nth)

text \<open>\<open>iter().position(p)\<close> and \<open>iter().rposition(p)\<close>.\<close>

fun position :: "('a \<Rightarrow> bool) \<Rightarrow> 'a list \<Rightarrow> nat option" where
  "position p [] = None"
| "position p (x # xs) = (if p x then Some 0 else map_option Suc (position p xs))"

fun rposition :: "('a \<Rightarrow> bool) \<Rightarrow> 'a list \<Rightarrow> nat option" where
  "rposition p [] = None"
| "rposition p (x # xs) =
     (case rposition p xs of Some i \<Rightarrow> Some (Suc i) | None \<Rightarrow> if p x then Some 0 else None)"

lemma position_None: "position p xs = None \<longleftrightarrow> (\<forall>x \<in> set xs. \<not> p x)"
  by (induction xs) auto

lemma position_Some:
  "position p xs = Some i \<Longrightarrow> i < length xs \<and> p (xs ! i) \<and> (\<forall>j < i. \<not> p (xs ! j))"
  by (induction xs arbitrary: i) (auto split: if_splits simp: nth_Cons split: nat.splits)

lemma rposition_None: "rposition p xs = None \<longleftrightarrow> (\<forall>x \<in> set xs. \<not> p x)"
  by (induction xs) (auto split: option.splits if_splits)

lemma rposition_Some:
  "rposition p xs = Some i \<Longrightarrow>
     i < length xs \<and> p (xs ! i) \<and> (\<forall>j < length xs. i < j \<longrightarrow> \<not> p (xs ! j))"
proof (induction xs arbitrary: i)
  case (Cons x xs)
  show ?case
  proof (cases "rposition p xs")
    case None
    with Cons.prems show ?thesis
      by (auto simp: rposition_None nth_Cons split: if_splits nat.splits)
  next
    case (Some k)
    with Cons.IH[of k] Cons.prems show ?thesis
      by (auto simp: nth_Cons split: nat.splits)
  qed
qed simp

lemma rposition_cong:
  "(\<And>x. x \<in> set xs \<Longrightarrow> p (f x) = p x) \<Longrightarrow> rposition p (map f xs) = rposition p xs"
  by (induction xs) (auto split: option.splits)

text \<open>\<open>iter_mut().rev().find(p)\<close> and an update in place: the last element that satisfies \<open>p\<close> is changed.\<close>

definition change_last :: "('a \<Rightarrow> bool) \<Rightarrow> ('a \<Rightarrow> 'a) \<Rightarrow> 'a list \<Rightarrow> 'a list" where
  "change_last p f xs = (case rposition p xs of None \<Rightarrow> xs | Some i \<Rightarrow> xs[i := f (xs ! i)])"

lemma map_change_last: "(\<And>x. g (f x) = g x) \<Longrightarrow> map g (change_last p f xs) = map g xs"
  by (auto simp: change_last_def intro!: nth_equalityI split: option.split)
    (metis nth_list_update_eq nth_list_update_neq)

lemma rposition_append:
  "rposition p (xs @ ys) =
     (case rposition p ys of Some i \<Rightarrow> Some (length xs + i) | None \<Rightarrow> rposition p xs)"
  by (induction xs) (auto split: option.splits)

lemma change_last_append:
  "change_last p f (xs @ ys) =
     (if list_ex p ys then xs @ change_last p f ys else change_last p f xs @ ys)"
proof (cases "rposition p ys")
  case None
  then have "\<not> list_ex p ys" by (auto simp: rposition_None list_ex_iff)
  with None show ?thesis
    by (auto simp: change_last_def rposition_append list_update_append nth_append split: option.splits
        dest: rposition_Some)
next
  case (Some i)
  then have "list_ex p ys" by (auto simp: list_ex_iff dest!: rposition_Some)
  with Some show ?thesis by (simp add: change_last_def rposition_append list_update_append nth_append)
qed

lemma change_last_Nil [simp]: "change_last p f [] = []"
  by (simp add: change_last_def)

lemma change_last_single [simp]: "change_last p f [x] = (if p x then [f x] else [x])"
  by (simp add: change_last_def)

lemma change_last_none: "\<not> list_ex p xs \<Longrightarrow> change_last p f xs = xs"
  by (cases "rposition p xs") (auto simp: change_last_def list_ex_iff dest!: rposition_Some)

lemma change_last_spec:
  assumes "list_ex p xs"
  obtains i where "i < length xs" "p (xs ! i)" "\<forall>j < length xs. i < j \<longrightarrow> \<not> p (xs ! j)"
    "change_last p f xs = xs[i := f (xs ! i)]"
proof -
  obtain i where i: "rposition p xs = Some i"
    using assms by (cases "rposition p xs") (auto simp: rposition_None list_ex_iff)
  from rposition_Some[OF i] show thesis by (intro that[of i]) (simp_all add: change_last_def i)
qed

text \<open>\<open>xs[i..j]\<close>, a half-open range within the list.\<close>

definition slice :: "nat \<Rightarrow> nat \<Rightarrow> 'a list \<Rightarrow> 'a list" where
  "slice i j xs = take (j - i) (drop i xs)"

lemma length_slice: "j \<le> length xs \<Longrightarrow> length (slice i j xs) = j - i"
  by (simp add: slice_def)

text \<open>
  \<open>xs.remove(i)\<close>, and the idiom of collecting indices in ascending order and removing them in
  descending order, which is a filter.
\<close>

definition remove_at :: "nat \<Rightarrow> 'a list \<Rightarrow> 'a list" where
  "remove_at i xs = take i xs @ drop (Suc i) xs"

fun indices_from :: "('a \<Rightarrow> bool) \<Rightarrow> nat \<Rightarrow> 'a list \<Rightarrow> nat list" where
  "indices_from p n [] = []"
| "indices_from p n (x # xs) = (if p x then n # indices_from p (Suc n) xs else indices_from p (Suc n) xs)"

abbreviation indices :: "('a \<Rightarrow> bool) \<Rightarrow> 'a list \<Rightarrow> nat list" where
  "indices p xs \<equiv> indices_from p 0 xs"

lemma indices_from_Suc: "indices_from p (Suc n) xs = map Suc (indices_from p n xs)"
  by (induction xs arbitrary: n) auto

lemma set_indices_from: "i \<in> set (indices_from p n xs) \<longleftrightarrow> n \<le> i \<and> i < n + length xs \<and> p (xs ! (i - n))"
proof (induction xs arbitrary: n)
  case (Cons x xs)
  show ?case
  proof (cases "i = n")
    case True
    with Cons[of "Suc n"] show ?thesis by simp
  next
    case False
    with Cons[of "Suc n"] show ?thesis by (auto simp: nth_Cons')
  qed
qed simp

lemma set_indices: "i \<in> set (indices p xs) \<longleftrightarrow> i < length xs \<and> p (xs ! i)"
  by (simp add: set_indices_from)

lemma sorted_indices_from: "sorted_wrt (<) (indices_from p n xs) \<and> (\<forall>i \<in> set (indices_from p n xs). n \<le> i)"
proof (induction xs arbitrary: n)
  case (Cons x xs)
  from Cons[of "Suc n"] show ?case by (auto simp: Suc_le_eq)
qed simp

lemma sorted_indices: "sorted (indices p xs)" "distinct (indices p xs)"
  using sorted_indices_from[of p 0 xs]
  by (auto simp: strict_sorted_iff)

lemma indices_cong: "(\<And>x. x \<in> set xs \<Longrightarrow> p x = q x) \<Longrightarrow> indices_from p n xs = indices_from q n xs"
  by (induction xs arbitrary: n) auto

lemma indices_map: "indices_from p n (map f xs) = indices_from (p \<circ> f) n xs"
  by (induction xs arbitrary: n) auto

lemma fold_remove_Suc: "fold remove_at (map Suc is) (x # xs) = x # fold remove_at is xs"
  by (induction "is" arbitrary: xs) (auto simp: remove_at_def)

lemma remove_at_0: "remove_at 0 (x # xs) = xs"
  by (simp add: remove_at_def)

lemma fold_remove_indices: "fold remove_at (rev (indices p xs)) xs = filter (\<lambda>x. \<not> p x) xs"
proof (induction xs)
  case (Cons x xs)
  have "fold remove_at (rev (map Suc (indices p xs))) (x # xs) = x # filter (\<lambda>x. \<not> p x) xs"
    using Cons by (simp add: rev_map fold_remove_Suc)
  then show ?case by (simp add: indices_from_Suc remove_at_0)
qed simp

text \<open>The first least element of a list under a key, as \<open>Iterator::min_by_key\<close>.\<close>

fun min_by :: "('a \<Rightarrow> 'b::linorder) \<Rightarrow> 'a list \<Rightarrow> 'a option" where
  "min_by k [] = None"
| "min_by k (x # xs) =
     (case min_by k xs of None \<Rightarrow> Some x | Some y \<Rightarrow> if k x \<le> k y then Some x else Some y)"

lemma min_by_None [simp]: "min_by k xs = None \<longleftrightarrow> xs = []"
  by (cases xs) (auto split: option.splits)

lemma min_by_Some: "min_by k xs = Some y \<Longrightarrow> y \<in> set xs \<and> (\<forall>x \<in> set xs. k y \<le> k x)"
proof (induction xs arbitrary: y)
  case (Cons x xs)
  show ?case
  proof (cases "min_by k xs")
    case None
    with Cons.prems show ?thesis by simp
  next
    case (Some z)
    with Cons.IH[OF Some] Cons.prems show ?thesis
      by (auto split: if_splits intro: order_trans)
  qed
qed simp

lemma filter_concat_map: "filter p (concat (map f xs)) = concat (map (filter p \<circ> f) xs)"
  by (induction xs) auto

lemma take_while_append_neq:
  "takeWhile p xs @ dropWhile p xs = xs"
  by simp

lemma subseq_filter_mono: "subseq xs ys \<Longrightarrow> subseq (filter p xs) (filter p ys)"
  by (induction rule: list_emb.induct) (auto intro: list_emb.intros)

text \<open>\<open>Option::or_else\<close>.\<close>

fun or_else :: "'a option \<Rightarrow> 'a option \<Rightarrow> 'a option" where
  "or_else (Some x) _ = Some x"
| "or_else None y = y"

lemma position_key:
  "distinct (map f xs) \<Longrightarrow> i < length xs \<Longrightarrow> position (\<lambda>x. f x = f (xs ! i)) xs = Some i"
proof (induction xs arbitrary: i)
  case (Cons a xs)
  show ?case
  proof (cases i)
    case (Suc k)
    then have "f a \<noteq> f (xs ! k)" using Cons.prems by auto
    with Suc Cons show ?thesis by simp
  qed simp
qed simp

subsection \<open>Sequences of operations\<close>

text \<open>
  A component with state is a function \<open>step\<close> that applies one operation. \<open>run_ops\<close> applies a
  sequence, in the order the callers issue them (each operation of the code holds the
  component's lock while it runs, so an interleaving of callers is a sequence of operations).
\<close>

definition run_ops :: "('op \<Rightarrow> 's \<Rightarrow> 's) \<Rightarrow> 'op list \<Rightarrow> 's \<Rightarrow> 's" where
  "run_ops step ops s = fold step ops s"

lemma run_ops_Nil [simp]: "run_ops step [] s = s"
  by (simp add: run_ops_def)

lemma run_ops_Cons [simp]: "run_ops step (e # es) s = run_ops step es (step e s)"
  by (simp add: run_ops_def)

lemma run_ops_append: "run_ops step (xs @ ys) s = run_ops step ys (run_ops step xs s)"
  by (simp add: run_ops_def)

text \<open>
  Operations with a precondition the code states (a \<open>debug_assert!\<close>, a contract in a comment):
  \<open>allowed\<close> holds of the calls that respect it.
\<close>

locale guarded_system =
  fixes step :: "'op \<Rightarrow> 's \<Rightarrow> 's"
    and inv :: "'s \<Rightarrow> bool"
    and init :: 's
    and allowed :: "'op \<Rightarrow> bool"
  assumes guarded_init: "inv init"
    and guarded_step: "inv s \<Longrightarrow> allowed e \<Longrightarrow> inv (step e s)"
begin

lemma guarded_run: "inv s \<Longrightarrow> list_all allowed es \<Longrightarrow> inv (run_ops step es s)"
  by (induction es arbitrary: s) (auto intro: guarded_step)

lemma guarded_reached: "list_all allowed es \<Longrightarrow> inv (run_ops step es init)"
  by (rule guarded_run[OF guarded_init])

end

locale op_system =
  fixes step :: "'op \<Rightarrow> 's \<Rightarrow> 's"
    and inv :: "'s \<Rightarrow> bool"
    and init :: 's
  assumes inv_init: "inv init"
    and inv_step: "inv s \<Longrightarrow> inv (step e s)"
begin

lemma inv_run: "inv s \<Longrightarrow> inv (run_ops step es s)"
  by (induction es arbitrary: s) (auto intro: inv_step)

lemma inv_reached: "inv (run_ops step es init)"
  by (rule inv_run[OF inv_init])

lemma inv_induct:
  assumes "P init" and "\<And>s e. inv s \<Longrightarrow> P s \<Longrightarrow> P (step e s)"
  shows "P (run_ops step es init)"
proof -
  have "inv (run_ops step es s) \<and> P (run_ops step es s)" if "inv s" "P s" for s
    using that by (induction es arbitrary: s) (auto intro: inv_step assms(2))
  then show ?thesis using inv_init assms(1) by blast
qed

end

sublocale op_system \<subseteq> guarded: guarded_system step inv init "\<lambda>_. True"
  by unfold_locales (auto intro: inv_init inv_step)

text \<open>A latch: a flag that, once it holds, stays while the operations are not resets.\<close>

locale latched_system = op_system step inv init
  for step :: "'op \<Rightarrow> 's \<Rightarrow> 's" and inv :: "'s \<Rightarrow> bool" and init :: 's +
  fixes flag :: "'s \<Rightarrow> bool"
    and resets :: "'op \<Rightarrow> bool"
  assumes flag_step: "inv s \<Longrightarrow> flag s \<Longrightarrow> \<not> resets e \<Longrightarrow> flag (step e s)"
begin

lemma flag_run:
  "inv s \<Longrightarrow> flag s \<Longrightarrow> \<forall>e \<in> set es. \<not> resets e \<Longrightarrow> flag (run_ops step es s)"
  by (induction es arbitrary: s) (auto intro: inv_step flag_step)

end

subsection \<open>The laws of a hash map\<close>

locale hash_map =
  fixes lookup :: "'m \<Rightarrow> 'k \<Rightarrow> 'v option"
    and insert :: "'k \<Rightarrow> 'v \<Rightarrow> 'm \<Rightarrow> 'm"
    and remove :: "'k \<Rightarrow> 'm \<Rightarrow> 'm"
    and empty :: 'm
  assumes lookup_empty: "lookup empty k = None"
    and lookup_insert: "lookup (insert k v m) k' = (if k' = k then Some v else lookup m k')"
    and lookup_remove: "lookup (remove k m) k' = (if k' = k then None else lookup m k')"
begin

lemmas map_laws = lookup_empty lookup_insert lookup_remove

text \<open>\<open>entry(k).or_insert(d)\<close> followed by an update in place.\<close>

definition upsert :: "'k \<Rightarrow> 'v \<Rightarrow> ('v \<Rightarrow> 'v) \<Rightarrow> 'm \<Rightarrow> 'm" where
  "upsert k d f m = insert k (f (case lookup m k of Some v \<Rightarrow> v | None \<Rightarrow> d)) m"

lemma lookup_upsert:
  "lookup (upsert k d f m) k' =
     (if k' = k then Some (f (case lookup m k of Some v \<Rightarrow> v | None \<Rightarrow> d)) else lookup m k')"
  by (simp add: upsert_def lookup_insert)

lemma insert_insert_lookup: "lookup (insert k v (insert k w m)) = lookup (insert k v m)"
  by (rule ext) (simp add: lookup_insert)

lemma insert_remove_lookup: "lookup (insert k v (remove k m)) = lookup (insert k v m)"
  by (rule ext) (simp add: lookup_insert lookup_remove)

end

text \<open>
  Two representations: a partial function, where only lookups matter, and an association list
  without repeated keys, where the code also iterates (in an order it does not know) or counts.
\<close>

interpretation fun_map: hash_map "\<lambda>m. m" "\<lambda>k v m. m(k \<mapsto> v)" "\<lambda>k m. m(k := None)" "\<lambda>_. None"
  by unfold_locales auto

interpretation list_map: hash_map map_of "AList.update" "AList.delete" "[]"
  by unfold_locales (auto simp: update_conv delete_conv)

lemma length_alist_update:
  "length (AList.update k v m) = (if k \<in> fst ` set m then length m else Suc (length m))"
  by (induction m) (auto simp: image_iff)

lemma alist_delete_absent: "k \<notin> fst ` set m \<Longrightarrow> AList.delete k m = m"
  by (induction m) auto

lemma alist_delete_shrinks:
  "distinct (map fst m) \<Longrightarrow> k \<in> fst ` set m \<Longrightarrow> Suc (length (AList.delete k m)) = length m"
  by (induction m) (auto simp: alist_delete_absent)

end
