(* ===== verification/Rust_Str.thy ===== *)
theory Rust_Str
  imports Prelude
begin

section \<open>Rust strings\<close>

text \<open>
  A Rust \<open>str\<close> is its UTF-8 bytes: a \<open>string\<close> here is the list of those bytes, so \<open>length\<close> is
  \<open>str::len\<close> and an index is a byte index. The operations of \<open>core::str\<close> the code uses are
  written out: character boundaries, \<open>lines\<close>, \<open>join\<close>, \<open>trim\<close>, searching and replacing, and the
  decimal rendering and parsing of unsigned integers. A search for a non-empty pattern that is
  valid UTF-8 matches at character boundaries only, so it is a search over bytes.
\<close>

subsection \<open>Character boundaries\<close>

definition is_cont_byte :: "char \<Rightarrow> bool" where
  "is_cont_byte c = (128 \<le> (of_char c :: nat) \<and> (of_char c :: nat) < 192)"

definition is_char_boundary :: "string \<Rightarrow> nat \<Rightarrow> bool" where
  "is_char_boundary s i =
     (i = 0 \<or> i = length s \<or> (i < length s \<and> \<not> is_cont_byte (s ! i)))"

text \<open>
  \<open>while end > 0 && !s.is_char_boundary(end) { end -= 1; }\<close>: the idiom the code repeats
  wherever it cuts a string at a byte limit.
\<close>

fun floor_boundary :: "string \<Rightarrow> nat \<Rightarrow> nat" where
  "floor_boundary s 0 = 0"
| "floor_boundary s (Suc n) =
     (if is_char_boundary s (Suc n) then Suc n else floor_boundary s n)"

lemma floor_boundary_le: "floor_boundary s n \<le> n"
  by (induction n) auto

lemma floor_boundary_is_boundary: "is_char_boundary s (floor_boundary s n)"
  by (induction n) (auto simp: is_char_boundary_def)

lemma floor_boundary_greatest:
  "i \<le> n \<Longrightarrow> is_char_boundary s i \<Longrightarrow> i \<le> floor_boundary s n"
  by (induction n) (auto simp: le_Suc_eq)

definition cut_bytes :: "nat \<Rightarrow> string \<Rightarrow> string" where
  "cut_bytes n s = take (floor_boundary s n) s"

lemma cut_bytes_props:
  "prefix (cut_bytes n s) s" "length (cut_bytes n s) \<le> n"
  using floor_boundary_le[of s n] by (auto simp: cut_bytes_def take_is_prefix)

text \<open>\<open>&s[..n]\<close> panics unless \<open>n\<close> is a character boundary of \<open>s\<close>.\<close>

definition str_upto :: "string \<Rightarrow> nat \<Rightarrow> string option" where
  "str_upto s n = (if is_char_boundary s n then Some (take n s) else None)"

text \<open>The number of characters: the bytes that start one.\<close>

definition char_count :: "string \<Rightarrow> nat" where
  "char_count s = length (filter (\<lambda>c. \<not> is_cont_byte c) s)"

text \<open>\<open>s.chars().take(n).collect()\<close>: the bytes before the character number \<open>n\<close>.\<close>

fun take_chars :: "nat \<Rightarrow> string \<Rightarrow> string" where
  "take_chars n [] = []"
| "take_chars n (c # cs) =
     (if is_cont_byte c then c # take_chars n cs
      else case n of 0 \<Rightarrow> [] | Suc m \<Rightarrow> c # take_chars m cs)"

lemma prefix_take_chars: "prefix (take_chars n s) s"
  by (induction n s rule: take_chars.induct) (auto split: nat.splits)

lemma char_count_take_chars: "char_count (take_chars n s) = min n (char_count s)"
  by (induction n s rule: take_chars.induct) (auto simp: char_count_def split: nat.splits)

subsection \<open>Lines and joining\<close>

abbreviation NL :: char where "NL \<equiv> CHR 0x0A"
abbreviation CR :: char where "CR \<equiv> CHR 0x0D"

text \<open>A line that a newline ended loses one carriage return before it.\<close>

definition strip_cr :: "string \<Rightarrow> string" where
  "strip_cr l = (if l \<noteq> [] \<and> last l = CR then butlast l else l)"

function rust_lines :: "string \<Rightarrow> string list" where
  "rust_lines s =
     (if s = [] then []
      else case dropWhile (\<lambda>c. c \<noteq> NL) s of
             [] \<Rightarrow> [s]
           | _ # rest \<Rightarrow> strip_cr (takeWhile (\<lambda>c. c \<noteq> NL) s) # rust_lines rest)"
  by pat_completeness auto
termination
proof (relation "measure length", goal_cases)
  case (2 s x rest)
  have "length (dropWhile (\<lambda>c. c \<noteq> NL) s) \<le> length s" by (rule length_dropWhile_le)
  with 2 show ?case by simp
qed simp

declare rust_lines.simps [simp del]

lemma rust_lines_Nil [simp]: "rust_lines [] = []"
  by (simp add: rust_lines.simps)

lemma drop_while_no_NL: "NL \<notin> set l \<Longrightarrow> dropWhile (\<lambda>c. c \<noteq> NL) l = []"
  by (induction l) auto

lemma rust_lines_single: "NL \<notin> set l \<Longrightarrow> l \<noteq> [] \<Longrightarrow> rust_lines l = [l]"
  by (subst rust_lines.simps) (simp add: drop_while_no_NL)

lemma span_NL:
  assumes "NL \<notin> set l"
  shows "takeWhile (\<lambda>c. c \<noteq> NL) (l @ NL # s) = l" "dropWhile (\<lambda>c. c \<noteq> NL) (l @ NL # s) = NL # s"
  using assms by (induction l) auto

lemma rust_lines_NL_append:
  "NL \<notin> set l \<Longrightarrow> rust_lines (l @ NL # s) = strip_cr l # rust_lines s"
  by (subst rust_lines.simps) (simp add: span_NL)

text \<open>A text is empty, or one line without a newline, or a line, a newline and the rest.\<close>

lemma line_induct [case_names Empty Last Line]:
  assumes "P []" "\<And>l. NL \<notin> set l \<Longrightarrow> l \<noteq> [] \<Longrightarrow> P l"
    and "\<And>l s. NL \<notin> set l \<Longrightarrow> P s \<Longrightarrow> P (l @ NL # s)"
  shows "P s"
proof (induction s rule: length_induct)
  case (1 s)
  show ?case
  proof (cases "NL \<in> set s")
    case True
    then obtain l r where s: "s = l @ NL # r" "NL \<notin> set l" by (metis split_list_first)
    then have "P r" using 1 by simp
    with s show ?thesis by (simp add: assms(3))
  next
    case False
    then show ?thesis using assms(1,2) by (cases "s = []") auto
  qed
qed

lemma rust_lines_eq_Nil [simp]: "rust_lines s = [] \<longleftrightarrow> s = []"
  by (induction s rule: line_induct) (auto simp: rust_lines_single rust_lines_NL_append)

fun str_join :: "string \<Rightarrow> string list \<Rightarrow> string" where
  "str_join sep [] = []"
| "str_join sep [x] = x"
| "str_join sep (x # y # ys) = x @ sep @ str_join sep (y # ys)"

lemma str_join_Cons: "ys \<noteq> [] \<Longrightarrow> str_join sep (x # ys) = x @ sep @ str_join sep ys"
  by (cases ys) auto

lemma str_join_empty_sep [simp]: "str_join [] xs = concat xs"
  by (induction "[] :: string" xs rule: str_join.induct) auto

lemma str_join_snoc:
  "xs \<noteq> [] \<Longrightarrow> str_join sep (xs @ [y]) = str_join sep xs @ sep @ y"
  by (induction sep xs rule: str_join.induct) auto

lemma length_str_join:
  "length (str_join sep xs) = sum_list (map length xs) + length sep * (length xs - 1)"
  by (induction sep xs rule: str_join.induct) auto

lemma length_strip_cr: "length (strip_cr l) \<le> length l"
  by (simp add: strip_cr_def)

lemma set_strip_cr: "set (strip_cr l) \<subseteq> set l"
  by (auto simp: strip_cr_def dest: in_set_butlastD)

lemma line_no_NL: "l \<in> set (rust_lines s) \<Longrightarrow> NL \<notin> set l"
proof (induction s rule: line_induct)
  case (Line l' s)
  then show ?case using set_strip_cr[of l'] by (auto simp: rust_lines_NL_append)
qed (auto simp: rust_lines_single)

text \<open>The lines hold no more bytes than the text, newlines apart.\<close>

lemma length_rust_lines_le:
  "sum_list (map (\<lambda>l. length l + 1) (rust_lines s)) \<le> length s + 1"
proof (induction s rule: line_induct)
  case (Line l s)
  then show ?case using length_strip_cr[of l] by (simp add: rust_lines_NL_append)
qed (auto simp: rust_lines_single)

text \<open>Reading back lines written each with its newline.\<close>

lemma rust_lines_join:
  assumes "\<forall>l \<in> set ls. NL \<notin> set l \<and> (l = [] \<or> last l \<noteq> CR)"
  shows "rust_lines (concat (map (\<lambda>l. l @ [NL]) ls)) = ls"
  using assms by (induction ls) (auto simp: rust_lines_NL_append strip_cr_def)

subsection \<open>Trimming\<close>

text \<open>
  The UTF-8 encodings of the characters with the Unicode property White\_Space, which is what
  \<open>str::trim\<close> and \<open>split_whitespace\<close> go by.
\<close>

definition ws_seqs :: "string list" where
  "ws_seqs =
     [[CHR 0x09], [CHR 0x0A], [CHR 0x0B], [CHR 0x0C], [CHR 0x0D], [CHR 0x20],
      [CHR 0xC2, CHR 0x85], [CHR 0xC2, CHR 0xA0], [CHR 0xE1, CHR 0x9A, CHR 0x80],
      [CHR 0xE2, CHR 0x80, CHR 0x80], [CHR 0xE2, CHR 0x80, CHR 0x81],
      [CHR 0xE2, CHR 0x80, CHR 0x82], [CHR 0xE2, CHR 0x80, CHR 0x83],
      [CHR 0xE2, CHR 0x80, CHR 0x84], [CHR 0xE2, CHR 0x80, CHR 0x85],
      [CHR 0xE2, CHR 0x80, CHR 0x86], [CHR 0xE2, CHR 0x80, CHR 0x87],
      [CHR 0xE2, CHR 0x80, CHR 0x88], [CHR 0xE2, CHR 0x80, CHR 0x89],
      [CHR 0xE2, CHR 0x80, CHR 0x8A], [CHR 0xE2, CHR 0x80, CHR 0xA8],
      [CHR 0xE2, CHR 0x80, CHR 0xA9], [CHR 0xE2, CHR 0x80, CHR 0xAF],
      [CHR 0xE2, CHR 0x81, CHR 0x9F], [CHR 0xE3, CHR 0x80, CHR 0x80]]"

definition ws_prefix :: "string list \<Rightarrow> string \<Rightarrow> nat" where
  "ws_prefix seqs s = (case filter (\<lambda>w. prefix w s) seqs of [] \<Rightarrow> 0 | w # _ \<Rightarrow> length w)"

fun strip_ws :: "nat \<Rightarrow> string list \<Rightarrow> string \<Rightarrow> string" where
  "strip_ws 0 seqs s = s"
| "strip_ws (Suc fuel) seqs s =
     (case ws_prefix seqs s of 0 \<Rightarrow> s | Suc n \<Rightarrow> strip_ws fuel seqs (drop (Suc n) s))"

text \<open>Each round removes at least a byte, so as many rounds as bytes are enough.\<close>

definition trim_start :: "string \<Rightarrow> string" where
  "trim_start s = strip_ws (length s) ws_seqs s"

definition trim_end :: "string \<Rightarrow> string" where
  "trim_end s = rev (strip_ws (length s) (map rev ws_seqs) (rev s))"

definition trim :: "string \<Rightarrow> string" where
  "trim s = trim_end (trim_start s)"

lemma ws_prefix_Nil: "[] \<notin> set seqs \<Longrightarrow> ws_prefix seqs [] = 0"
  by (induction seqs) (auto simp: ws_prefix_def)

lemma strip_ws_done: "length s \<le> fuel \<Longrightarrow> [] \<notin> set seqs \<Longrightarrow> ws_prefix seqs (strip_ws fuel seqs s) = 0"
proof (induction fuel arbitrary: s)
  case 0
  then show ?case by (simp add: ws_prefix_Nil)
next
  case (Suc fuel)
  then show ?case by (auto split: nat.splits)
qed

lemma strip_ws_suffix: "suffix (strip_ws fuel seqs s) s"
  by (induction fuel arbitrary: s) (auto split: nat.splits intro: suffix_order.trans suffix_drop)

lemma ws_seqs_nonempty: "[] \<notin> set ws_seqs" "[] \<notin> set (map rev ws_seqs)"
  by (auto simp: ws_seqs_def)

lemma trim_start_done: "ws_prefix ws_seqs (trim_start s) = 0"
  by (simp add: trim_start_def strip_ws_done ws_seqs_nonempty)

lemma trim_end_done: "ws_prefix (map rev ws_seqs) (rev (trim_end s)) = 0"
  unfolding trim_end_def rev_rev_ident by (rule strip_ws_done) (simp, rule ws_seqs_nonempty)

lemma suffix_trim_start: "suffix (trim_start s) s"
  by (simp add: trim_start_def strip_ws_suffix)

lemma prefix_trim_end: "prefix (trim_end s) s"
  using strip_ws_suffix[of "length s" "map rev ws_seqs" "rev s"]
  by (simp add: trim_end_def suffix_to_prefix)

lemma length_trim_le: "length (trim s) \<le> length s"
proof -
  have "length (trim_end (trim_start s)) \<le> length (trim_start s)"
    by (rule prefix_length_le[OF prefix_trim_end])
  also have "\<dots> \<le> length s" by (rule suffix_length_le[OF suffix_trim_start])
  finally show ?thesis by (simp add: trim_def)
qed

lemma trim_Nil [simp]: "trim [] = []"
  by (simp add: trim_def trim_start_def trim_end_def)

end
