(* ===== verification/Rust_Search.thy ===== *)
theory Rust_Search
  imports Rust_Str
begin

section \<open>Searching, splitting and replacing in strings; numbers as text\<close>

text \<open>
  \<open>contains\<close>, \<open>find\<close>, \<open>matches\<close>, \<open>replace\<close>, \<open>replacen\<close>, \<open>split\<close>, \<open>strip_prefix\<close> of
  \<open>core::str\<close>, over bytes, with the laws the components use: where the first occurrence is, how
  often a pattern occurs, what a replacement leaves. Then the decimal form of an unsigned
  integer (\<open>to_string\<close>) and its parser (\<open>parse\<close>), which are inverse to each other.
\<close>

subsection \<open>Prefixes and suffixes\<close>

definition strip_prefix :: "string \<Rightarrow> string \<Rightarrow> string option" where
  "strip_prefix p s = (if prefix p s then Some (drop (length p) s) else None)"

definition strip_suffix :: "string \<Rightarrow> string \<Rightarrow> string option" where
  "strip_suffix p s = (if suffix p s then Some (take (length s - length p) s) else None)"

lemma strip_prefix_Some: "strip_prefix p s = Some r \<longleftrightarrow> s = p @ r"
  by (auto simp: strip_prefix_def prefix_def)

lemma strip_prefix_append [simp]: "strip_prefix p (p @ r) = Some r"
  by (simp add: strip_prefix_Some)

lemma strip_prefix_None: "strip_prefix p s = None \<longleftrightarrow> \<not> prefix p s"
  by (simp add: strip_prefix_def)

lemma strip_suffix_append [simp]: "strip_suffix p (r @ p) = Some r"
  by (simp add: strip_suffix_def suffix_def)

text \<open>\<open>trim_start_matches\<close> and \<open>trim_end_matches\<close> with a string or a character.\<close>

fun strip_all :: "nat \<Rightarrow> string \<Rightarrow> string \<Rightarrow> string" where
  "strip_all 0 p s = s"
| "strip_all (Suc n) p s =
     (if p \<noteq> [] \<and> prefix p s then strip_all n p (drop (length p) s) else s)"

definition trim_start_matches :: "string \<Rightarrow> string \<Rightarrow> string" where
  "trim_start_matches p s = strip_all (length s) p s"

definition trim_end_matches :: "string \<Rightarrow> string \<Rightarrow> string" where
  "trim_end_matches p s = rev (strip_all (length s) (rev p) (rev s))"

subsection \<open>The first occurrence of a pattern\<close>

fun split_at_pat :: "string \<Rightarrow> string \<Rightarrow> (string \<times> string) option" where
  "split_at_pat p s =
     (if prefix p s then Some ([], drop (length p) s)
      else case s of [] \<Rightarrow> None
           | c # cs \<Rightarrow> map_option (\<lambda>(a, b). (c # a, b)) (split_at_pat p cs))"

declare split_at_pat.simps [simp del]

definition contains :: "string \<Rightarrow> string \<Rightarrow> bool" where
  "contains s p = (split_at_pat p s \<noteq> None)"

lemma split_at_pat_Some: "split_at_pat p s = Some (a, b) \<Longrightarrow> s = a @ p @ b"
proof (induction s arbitrary: a)
  case Nil
  then show ?case by (auto simp: split_at_pat.simps prefix_def split: if_splits)
next
  case (Cons c s)
  then show ?case
    by (subst (asm) split_at_pat.simps) (auto split: if_splits simp: prefix_def)
qed

lemma split_at_pat_None: "split_at_pat p s = None \<longleftrightarrow> (\<forall>a b. s \<noteq> a @ p @ b)"
proof (induction s)
  case Nil
  then show ?case by (auto simp: split_at_pat.simps)
next
  case (Cons c s)
  show ?case
  proof (cases "prefix p (c # s)")
    case True
    then have "\<exists>a b. c # s = a @ p @ b" by (metis append_Nil prefix_def)
    then show ?thesis using True by (subst split_at_pat.simps) auto
  next
    case False
    have "(\<exists>a b. c # s = a @ p @ b) \<longleftrightarrow> (\<exists>a b. s = a @ p @ b)"
      using False by (metis append_Cons append_Nil list.exhaust list.inject prefix_def)
    then show ?thesis using False Cons by (subst split_at_pat.simps) auto
  qed
qed

lemma contains_iff: "contains s p \<longleftrightarrow> (\<exists>a b. s = a @ p @ b)"
  by (auto simp: contains_def split_at_pat_None)

lemma contains_append1: "contains s p \<Longrightarrow> contains (s @ t) p"
  by (auto simp: contains_iff) (metis append.assoc)

lemma contains_append2: "contains t p \<Longrightarrow> contains (s @ t) p"
  by (auto simp: contains_iff) (metis append.assoc)

lemma contains_trans: "contains s p \<Longrightarrow> contains p q \<Longrightarrow> contains s q"
  by (auto simp: contains_iff) (metis append.assoc)

lemma contains_self [simp]: "contains (a @ p @ b) p"
  by (auto simp: contains_iff)

text \<open>The first: no occurrence begins earlier.\<close>

lemma split_at_pat_first:
  "split_at_pat p s = Some (a, b) \<Longrightarrow> s = a' @ p @ b' \<Longrightarrow> length a \<le> length a'"
proof (induction s arbitrary: a a')
  case Nil
  then show ?case by (auto simp: split_at_pat.simps split: if_splits)
next
  case (Cons c s)
  show ?case
  proof (cases "prefix p (c # s)")
    case True
    with Cons.prems show ?thesis by (simp add: split_at_pat.simps)
  next
    case False
    with Cons.prems(2) obtain a'' where a': "a' = c # a''" "s = a'' @ p @ b'"
      by (cases a') (auto simp: prefix_def)
    from Cons.prems(1) False obtain a0 where "a = c # a0" "split_at_pat p s = Some (a0, b)"
      by (subst (asm) split_at_pat.simps) auto
    with Cons.IH[of a0 a''] a' show ?thesis by simp
  qed
qed

lemma length_split_at_pat:
  "split_at_pat p s = Some (a, b) \<Longrightarrow> length s = length a + length p + length b"
  by (drule split_at_pat_Some) simp

subsection \<open>Counting and replacing\<close>

text \<open>
  \<open>matches(p)\<close> yields the non-overlapping occurrences from the left; the empty pattern matches
  at every character boundary. \<open>replace\<close> substitutes all of them, \<open>replacen(.., 1)\<close> the first.
\<close>

function match_count :: "string \<Rightarrow> string \<Rightarrow> nat" where
  "match_count p s =
     (if p = [] then char_count s + 1
      else case split_at_pat p s of None \<Rightarrow> 0 | Some (a, b) \<Rightarrow> Suc (match_count p b))"
  by pat_completeness auto
termination
  by (relation "measure (\<lambda>(p, s). length s)") (auto dest: length_split_at_pat)

function replace_all :: "string \<Rightarrow> string \<Rightarrow> string \<Rightarrow> string" where
  "replace_all p r s =
     (if p = [] then concat (map (\<lambda>c. if is_cont_byte c then [c] else r @ [c]) s) @ r
      else case split_at_pat p s of None \<Rightarrow> s | Some (a, b) \<Rightarrow> a @ r @ replace_all p r b)"
  by pat_completeness auto
termination
  by (relation "measure (\<lambda>(p, r, s). length s)") (auto dest: length_split_at_pat)

declare match_count.simps [simp del] replace_all.simps [simp del]

definition replace_first :: "string \<Rightarrow> string \<Rightarrow> string \<Rightarrow> string" where
  "replace_first p r s = (case split_at_pat p s of None \<Rightarrow> s | Some (a, b) \<Rightarrow> a @ r @ b)"

lemma match_count_0: "match_count p s = 0 \<longleftrightarrow> \<not> contains s p"
  by (subst match_count.simps)
    (auto simp: contains_def split_at_pat.simps[of "[]"] split: option.splits)

lemma match_count_Some:
  "p \<noteq> [] \<Longrightarrow> split_at_pat p s = Some (a, b) \<Longrightarrow> match_count p s = Suc (match_count p b)"
  by (simp add: match_count.simps[of p s])

lemma match_count_bound: "p \<noteq> [] \<Longrightarrow> match_count p s * length p \<le> length s"
proof (induction p s rule: match_count.induct)
  case (1 p s)
  show ?case
  proof (cases "split_at_pat p s")
    case None
    then show ?thesis using 1 by (simp add: match_count.simps[of p s])
  next
    case (Some ab)
    then obtain a b where ab: "split_at_pat p s = Some (a, b)" by (cases ab) auto
    have "match_count p b * length p \<le> length b" using 1 ab by blast
    then show ?thesis using 1(2) ab
      by (simp add: match_count_Some length_split_at_pat)
  qed
qed

lemma replace_all_absent: "p \<noteq> [] \<Longrightarrow> \<not> contains s p \<Longrightarrow> replace_all p r s = s"
  by (cases "split_at_pat p s") (auto simp: replace_all.simps[of p r s] contains_def)

text \<open>The length of the result counts the occurrences.\<close>

lemma length_replace_all:
  assumes "p \<noteq> []"
  shows "length (replace_all p r s) + match_count p s * length p
       = length s + match_count p s * length r"
  using assms
proof (induction p r s rule: replace_all.induct)
  case (1 p r s)
  show ?case
  proof (cases "split_at_pat p s")
    case None
    with 1 show ?thesis by (simp add: replace_all.simps[of p r s] match_count.simps[of p s])
  next
    case (Some ab)
    then obtain a b where ab: "split_at_pat p s = Some (a, b)" by (cases ab) auto
    with 1 have "length (replace_all p r b) + match_count p b * length p
       = length b + match_count p b * length r" by simp
    with 1 ab show ?thesis
      by (simp add: replace_all.simps[of p r s] match_count_Some length_split_at_pat)
  qed
qed

lemma replace_all_single:
  assumes "p \<noteq> []" "match_count p s = 1"
  shows "replace_all p r s = replace_first p r s"
proof -
  obtain a b where ab: "split_at_pat p s = Some (a, b)" "match_count p b = 0"
    using assms by (subst (asm) match_count.simps) (auto split: option.splits)
  then have "replace_all p r b = b" using assms(1)
    by (simp add: replace_all_absent match_count_0)
  with ab assms(1) show ?thesis by (simp add: replace_all.simps[of p r s] replace_first_def)
qed

subsection \<open>Splitting at a character, fields\<close>

fun split_char :: "char \<Rightarrow> string \<Rightarrow> string list" where
  "split_char d [] = [[]]"
| "split_char d (c # cs) =
     (if c = d then [] # split_char d cs
      else case split_char d cs of [] \<Rightarrow> [[c]] | w # ws \<Rightarrow> (c # w) # ws)"

lemma split_char_nonempty [simp]: "split_char d s \<noteq> []"
  by (induction s) (auto split: list.splits)

lemma split_char_no_sep: "w \<in> set (split_char d s) \<Longrightarrow> d \<notin> set w"
  by (induction s arbitrary: w) (auto split: if_splits list.splits)

lemma str_join_split_char: "str_join [d] (split_char d s) = s"
proof (induction s)
  case (Cons c cs)
  then show ?case
    by (cases "split_char d cs"; cases "tl (split_char d cs)") (auto simp: str_join_Cons)
qed simp

text \<open>\<open>split_whitespace\<close>: the maximal runs of bytes that are not whitespace.\<close>

fun fields_from :: "nat \<Rightarrow> string \<Rightarrow> string \<Rightarrow> string list" where
  "fields_from 0 cur s = (if cur = [] then [] else [cur])"
| "fields_from (Suc n) cur s =
     (case ws_prefix ws_seqs s of
        Suc k \<Rightarrow> (if cur = [] then [] else [cur]) @ fields_from n [] (drop (Suc k) s)
      | 0 \<Rightarrow> (case s of [] \<Rightarrow> (if cur = [] then [] else [cur])
              | c # cs \<Rightarrow> fields_from n (cur @ [c]) cs))"

definition split_whitespace :: "string \<Rightarrow> string list" where
  "split_whitespace s = fields_from (Suc (length s)) [] s"

subsection \<open>Decimal numbers\<close>

definition digit :: "nat \<Rightarrow> char" where
  "digit d = char_of (48 + d)"

definition digit_val :: "char \<Rightarrow> nat option" where
  "digit_val c = (let n = of_char c in if 48 \<le> n \<and> n < 58 then Some (n - 48) else None)"

lemma digit_val_digit: "d < 10 \<Longrightarrow> digit_val (digit d) = Some d"
  by (simp add: digit_val_def digit_def of_char_of)

fun nat_str :: "nat \<Rightarrow> string" where
  "nat_str n = (if n < 10 then [digit n] else nat_str (n div 10) @ [digit (n mod 10)])"

declare nat_str.simps [simp del]

text \<open>\<open>str::parse\<close> of an unsigned integer with bound \<open>m\<close>: an optional plus, then digits, no overflow.\<close>

fun digits_val :: "nat \<Rightarrow> string \<Rightarrow> nat option" where
  "digits_val acc [] = Some acc"
| "digits_val acc (c # cs) =
     (case digit_val c of None \<Rightarrow> None | Some d \<Rightarrow> digits_val (10 * acc + d) cs)"

definition parse_uint :: "nat \<Rightarrow> string \<Rightarrow> nat option" where
  "parse_uint m s =
     (let t = (case s of c # cs \<Rightarrow> if c = CHR ''+'' then cs else s | [] \<Rightarrow> s)
      in if t = [] then None
         else case digits_val 0 t of Some n \<Rightarrow> if n < m then Some n else None | None \<Rightarrow> None)"

lemma digits_val_append:
  "digits_val a (xs @ ys) = (case digits_val a xs of None \<Rightarrow> None | Some b \<Rightarrow> digits_val b ys)"
  by (induction xs arbitrary: a) (auto split: option.splits)

lemma digits_val_nat_str: "digits_val 0 (nat_str n) = Some n"
proof (induction n rule: nat_str.induct)
  case (1 n)
  show ?case
  proof (cases "n < 10")
    case True
    then show ?thesis by (simp add: nat_str.simps[of n] digit_val_digit)
  next
    case False
    with 1 have "digits_val 0 (nat_str (n div 10)) = Some (n div 10)" by simp
    with False show ?thesis
      by (simp add: nat_str.simps[of n] digits_val_append digit_val_digit)
  qed
qed

lemma nat_str_nonempty [simp]: "nat_str n \<noteq> []"
  by (subst nat_str.simps) simp

lemma nat_str_head: "\<exists>d < 10. hd (nat_str n) = digit d"
proof (induction n rule: nat_str.induct)
  case (1 n)
  then show ?case by (subst nat_str.simps) (auto simp: hd_append)
qed

lemma digit_not_plus: "d < 10 \<Longrightarrow> digit d \<noteq> CHR ''+''"
proof
  assume "d < 10" "digit d = CHR ''+''"
  then have "digit_val (CHR ''+'') = Some d" using digit_val_digit by metis
  then show False by (simp add: digit_val_def)
qed

lemma parse_nat_str: "n < m \<Longrightarrow> parse_uint m (nat_str n) = Some n"
  using nat_str_head[of n] digits_val_nat_str[of n] digit_not_plus
  by (cases "nat_str n") (auto simp: parse_uint_def)

lemma nat_str_inj: "nat_str m = nat_str n \<Longrightarrow> m = n"
  by (metis digits_val_nat_str option.inject)

end
