(* ===== verification/Line_Diff.thy ===== *)
theory Line_Diff
  imports Rust_Search
begin

section \<open>The line diff\<close>

text \<open>
  \<open>edit-core/src/diff.rs\<close>: the table of longest common subsequences in 16-bit integers, the
  backtracking that turns it into a list of operations, and the grouping of operations into the
  hunks of a unified diff. The lemmas show that the operations spell the old and the new text,
  that no diff keeps more lines, and that the hunks cover every change in disjoint ranges.
\<close>

type_synonym u16 = "16 word"

datatype diff_op = Equal (op_line: string) | Delete (op_line: string) | Insert (op_line: string)

subsection \<open>The table\<close>

text \<open>One row of \<open>dp\<close> from the row above: \<open>left\<close>, \<open>diag\<close> and \<open>up\<close> are the neighbours read.\<close>

fun row_from :: "string \<Rightarrow> u16 \<Rightarrow> u16 \<Rightarrow> string list \<Rightarrow> u16 list \<Rightarrow> u16 list" where
  "row_from x left diag (y # ys) (up # ups) =
     (let v = (if x = y then diag + 1 else max up left) in v # row_from x v up ys ups)"
| "row_from x left diag _ _ = []"

definition next_row :: "string \<Rightarrow> string list \<Rightarrow> u16 list \<Rightarrow> u16 list" where
  "next_row x new prev = 0 # row_from x 0 (hd prev) new (tl prev)"

fun dp_rows :: "string list \<Rightarrow> u16 list \<Rightarrow> string list \<Rightarrow> u16 list list" where
  "dp_rows new prev [] = [prev]"
| "dp_rows new prev (x # old) = prev # dp_rows new (next_row x new prev) old"

definition dp_table :: "string list \<Rightarrow> string list \<Rightarrow> u16 list list" where
  "dp_table old new = dp_rows new (replicate (length new + 1) 0) old"

text \<open>The operations in the order they are pushed, last line first.\<close>

function backtrack ::
  "u16 list list \<Rightarrow> string list \<Rightarrow> string list \<Rightarrow> nat \<Rightarrow> nat \<Rightarrow> diff_op list" where
  "backtrack dp old new i j =
     (if i = 0 \<and> j = 0 then []
      else if 0 < i \<and> 0 < j \<and> old ! (i - 1) = new ! (j - 1)
        then Equal (old ! (i - 1)) # backtrack dp old new (i - 1) (j - 1)
      else if 0 < j \<and> (i = 0 \<or> dp ! (i - 1) ! j \<le> dp ! i ! (j - 1))
        then Insert (new ! (j - 1)) # backtrack dp old new i (j - 1)
      else Delete (old ! (i - 1)) # backtrack dp old new (i - 1) j)"
  by pat_completeness auto
termination by (relation "measure (\<lambda>(dp, old, new, i, j). i + j)") auto

declare backtrack.simps [simp del]

definition compute_diff :: "string list \<Rightarrow> string list \<Rightarrow> diff_op list" where
  "compute_diff old new =
     rev (backtrack (dp_table old new) old new (length old) (length new))"

subsection \<open>What the operations spell\<close>

fun old_line :: "diff_op \<Rightarrow> string option" where
  "old_line (Equal l) = Some l" | "old_line (Delete l) = Some l" | "old_line (Insert l) = None"

fun new_line :: "diff_op \<Rightarrow> string option" where
  "new_line (Equal l) = Some l" | "new_line (Insert l) = Some l" | "new_line (Delete l) = None"

definition old_side :: "diff_op list \<Rightarrow> string list" where
  "old_side ops = List.map_filter old_line ops"

definition new_side :: "diff_op list \<Rightarrow> string list" where
  "new_side ops = List.map_filter new_line ops"

definition kept_lines :: "diff_op list \<Rightarrow> nat" where
  "kept_lines ops = length (filter is_Equal ops)"

lemma map_filter_rev: "List.map_filter f (rev xs) = rev (List.map_filter f xs)"
  by (simp add: List.map_filter_def rev_map rev_filter)

lemma sides_Cons [simp]:
  "old_side [] = []" "new_side [] = []"
  "old_side (Equal l # ops) = l # old_side ops" "new_side (Equal l # ops) = l # new_side ops"
  "old_side (Delete l # ops) = l # old_side ops" "new_side (Delete l # ops) = new_side ops"
  "old_side (Insert l # ops) = old_side ops" "new_side (Insert l # ops) = l # new_side ops"
  by (simp_all add: old_side_def new_side_def List.map_filter_simps)

lemma take_pred: "0 < i \<Longrightarrow> i \<le> length xs \<Longrightarrow> rev (take i xs) = xs ! (i - 1) # rev (take (i - 1) xs)"
  by (cases i) (auto simp: take_Suc_conv_app_nth)

lemma backtrack_sides:
  "i \<le> length old \<Longrightarrow> j \<le> length new \<Longrightarrow>
     old_side (backtrack dp old new i j) = rev (take i old)
   \<and> new_side (backtrack dp old new i j) = rev (take j new)"
proof (induction dp old new i j rule: backtrack.induct)
  case (1 dp old new i j)
  then show ?case
    by (subst (1 2) backtrack.simps) (auto simp: take_pred)
qed

subsection \<open>The table holds lengths of longest common subsequences\<close>

fun lcs :: "'a list \<Rightarrow> 'a list \<Rightarrow> nat" where
  "lcs (x # xs) (y # ys) =
     (if x = y then lcs xs ys + 1 else max (lcs xs (y # ys)) (lcs (x # xs) ys))"
| "lcs _ _ = 0"

lemma lcs_Nil [simp]: "lcs [] ys = 0" "lcs xs [] = 0"
  by (cases ys; simp) (cases xs; simp)

lemma lcs_le: "lcs xs ys \<le> length xs"
  by (induction xs ys rule: lcs.induct) auto

lemma lcs_bounds_common: "subseq cs xs \<Longrightarrow> subseq cs ys \<Longrightarrow> length cs \<le> lcs xs ys"
proof (induction xs ys arbitrary: cs rule: lcs.induct)
  case (1 x xs y ys)
  show ?case
  proof (cases cs)
    case (Cons c cs')
    show ?thesis
    proof (cases "x = y")
      case True
      have "subseq cs' xs" "subseq cs' ys"
        using 1(4,5) unfolding Cons by (metis subseq_Cons2_iff subseq_Cons')+
      then show ?thesis using 1(1)[OF True, of cs'] True Cons by simp
    next
      case False
      then have "c \<noteq> x \<or> c \<noteq> y" by blast
      then have "subseq cs xs \<or> subseq cs ys"
        using 1(4,5) unfolding Cons by (metis subseq_Cons2_neq)
      then have "length cs \<le> lcs xs (y # ys) \<or> length cs \<le> lcs (x # xs) ys"
        using 1(2)[OF False _ 1(5)] 1(3)[OF False 1(4)] by blast
      then show ?thesis using False by auto
    qed
  qed simp
qed auto

lemma subseq_rev_both: "subseq xs ys \<Longrightarrow> subseq (rev xs) (rev ys)"
  by (induction rule: list_emb.induct) (auto intro: subseq_rev_drop_many list_emb_append_mono)

lemma word_max:
  fixes a b :: nat
  assumes "a < 65536" "b < 65536"
  shows "max (word_of_nat a :: u16) (word_of_nat b) = word_of_nat (max a b)"
  using assms by (simp add: max_def word_le_nat_alt unat_of_nat)

lemma row_from_nth:
  assumes "length ups = length ys" "t < length ys" "length A + 1 < 65536"
    and "left = word_of_nat (lcs (x # A) P)" "diag = word_of_nat (lcs A P)"
    and "\<forall>t < length ys. ups ! t = word_of_nat (lcs A (rev (take (Suc t) ys) @ P))"
  shows "row_from x left diag ys ups ! t = word_of_nat (lcs (x # A) (rev (take (Suc t) ys) @ P))"
  using assms
proof (induction x left diag ys ups arbitrary: t P rule: row_from.induct)
  case (1 x left diag y ys up ups)
  define v where "v = (if x = y then diag + 1 else max up left)"
  have up: "up = word_of_nat (lcs A (y # P))" using "1.prems"(6) by force
  have v: "v = word_of_nat (lcs (x # A) (y # P))"
    using "1.prems"(3,4,5) up lcs_le[of A "y # P"] lcs_le[of "x # A" P]
    by (auto simp: v_def word_max)
  have ups: "\<forall>t < length ys. ups ! t = word_of_nat (lcs A (rev (take (Suc t) ys) @ (y # P)))"
    using "1.prems"(6) by force
  show ?case
  proof (cases t)
    case 0
    then show ?thesis using v by (simp add: v_def Let_def)
  next
    case (Suc t')
    have "row_from x v up ys ups ! t' = word_of_nat (lcs (x # A) (rev (take (Suc t') ys) @ (y # P)))"
      by (rule "1.IH"[OF v_def]) (use "1.prems" Suc v up ups in auto)
    with Suc show ?thesis by (simp add: Let_def v_def)
  qed
qed auto

lemma length_row_from: "length ups = length ys \<Longrightarrow> length (row_from x l d ys ups) = length ys"
  by (induction x l d ys ups rule: row_from.induct) (auto simp: Let_def)

definition row_of :: "string list \<Rightarrow> string list \<Rightarrow> u16 list" where
  "row_of A new = map (\<lambda>j. word_of_nat (lcs A (rev (take j new)))) [0..<length new + 1]"

lemma next_row_of:
  assumes "length A + 1 < 65536"
  shows "next_row x new (row_of A new) = row_of (x # A) new"
proof (rule nth_equalityI)
  show len: "length (next_row x new (row_of A new)) = length (row_of (x # A) new)"
    by (simp add: next_row_def row_of_def length_row_from)
  fix j assume "j < length (next_row x new (row_of A new))"
  then have j: "j \<le> length new" using len by (simp add: row_of_def)
  have prev: "hd (row_of A new) = 0" "length (tl (row_of A new)) = length new"
    "\<forall>t < length new. tl (row_of A new) ! t = word_of_nat (lcs A (rev (take (Suc t) new)))"
    by (auto simp: row_of_def hd_map nth_tl simp del: upt_Suc)
  show "next_row x new (row_of A new) ! j = row_of (x # A) new ! j"
  proof (cases j)
    case 0
    then show ?thesis by (simp add: next_row_def row_of_def del: upt_Suc)
  next
    case (Suc t)
    then show ?thesis
      using j row_from_nth[of "tl (row_of A new)" new t A 0 x "[]" 0] prev assms
      by (simp add: next_row_def row_of_def del: upt_Suc)
  qed
qed

lemma dp_rows_nth:
  assumes "i \<le> length old" "length A + length old < 65536"
  shows "dp_rows new (row_of A new) old ! i = row_of (rev (take i old) @ A) new"
  using assms
proof (induction old arbitrary: A i)
  case (Cons x old)
  show ?case
  proof (cases i)
    case (Suc k)
    have "next_row x new (row_of A new) = row_of (x # A) new"
      by (rule next_row_of) (use Cons.prems in simp)
    with Cons.IH[of k "x # A"] Cons.prems Suc show ?thesis by simp
  qed simp
qed simp

lemma row_of_Nil: "row_of [] new = replicate (length new + 1) 0"
  by (rule nth_equalityI) (simp_all add: row_of_def del: upt_Suc replicate.simps)

lemma dp_table_nth:
  assumes "length old < 65536" "i \<le> length old" "j \<le> length new"
  shows "dp_table old new ! i ! j = word_of_nat (lcs (rev (take i old)) (rev (take j new)))"
  using assms dp_rows_nth[of i old "[]" new]
  unfolding dp_table_def row_of_Nil[symmetric]
  by (simp add: row_of_def del: upt_Suc)

lemma dp_le:
  assumes "length old < 65536" "0 < i" "0 < j" "i \<le> length old" "j \<le> length new"
  shows "dp_table old new ! (i - 1) ! j \<le> dp_table old new ! i ! (j - 1)
     \<longleftrightarrow> lcs (rev (take (i - 1) old)) (rev (take j new)) \<le> lcs (rev (take i old)) (rev (take (j - 1) new))"
proof -
  have "lcs (rev (take k old)) ys < 65536" for k ys
    using lcs_le[of "rev (take k old)" ys] assms(1) by simp
  then show ?thesis
    using assms by (simp add: dp_table_nth word_le_nat_alt unat_of_nat)
qed

lemma backtrack_keeps:
  assumes len: "length old < 65536" and "i \<le> length old" "j \<le> length new"
  shows "kept_lines (backtrack (dp_table old new) old new i j)
       = lcs (rev (take i old)) (rev (take j new))"
  using assms(2,3)
proof (induction "i + j" arbitrary: i j rule: less_induct)
  case less
  let ?b = "backtrack (dp_table old new) old new"
  have IH: "kept_lines (?b i' j') = lcs (rev (take i' old)) (rev (take j' new))"
    if "i' + j' < i + j" "i' \<le> i" "j' \<le> j" for i' j'
    using less.hyps[of i' j'] that less.prems by simp
  consider (zero) "i = 0 \<or> j = 0" | (same) "0 < i" "0 < j" "old ! (i - 1) = new ! (j - 1)"
    | (differ) "0 < i" "0 < j" "old ! (i - 1) \<noteq> new ! (j - 1)" by blast
  then show ?case
  proof cases
    case zero
    then show ?thesis
      using IH[of "i - 1" j] IH[of i "j - 1"]
      by (subst backtrack.simps) (auto simp: kept_lines_def)
  next
    case same
    then show ?thesis
      using IH[of "i - 1" "j - 1"] less.prems
      by (subst backtrack.simps) (simp add: kept_lines_def take_pred)
  next
    case differ
    have l: "lcs (rev (take i old)) (rev (take j new))
        = max (lcs (rev (take (i - 1) old)) (rev (take j new)))
              (lcs (rev (take i old)) (rev (take (j - 1) new)))"
      using differ less.prems by (simp add: take_pred)
    show ?thesis
      using differ IH[of "i - 1" j] IH[of i "j - 1"] dp_le[OF len differ(1,2) less.prems]
      unfolding l by (subst backtrack.simps) (auto simp: kept_lines_def)
  qed
qed

subsection \<open>Properties of the operations\<close>

lemma kept_lines_rev [simp]: "kept_lines (rev ops) = kept_lines ops"
  by (simp add: kept_lines_def rev_filter[symmetric])

lemma sides_rev: "old_side (rev ops) = rev (old_side ops)" "new_side (rev ops) = rev (new_side ops)"
  by (simp_all add: old_side_def new_side_def map_filter_rev)

text \<open>
  A diff is a round trip: its equal and deleted lines spell the old text and its equal and
  inserted lines the new one, for all inputs, also those too long for the 16-bit table.
\<close>

theorem compute_diff_spells_both:
  "old_side (compute_diff old new) = old \<and> new_side (compute_diff old new) = new"
  using backtrack_sides[of "length old" old "length new" new "dp_table old new"]
  by (simp add: compute_diff_def sides_rev)

text \<open>
  A diff keeps as many lines as any could: no common subsequence of the two texts is longer
  than its list of equal lines, for an old text below 65,536 lines (the 16-bit table).
\<close>

theorem compute_diff_minimal:
  "length old < 65536 \<Longrightarrow> subseq common old \<Longrightarrow> subseq common new \<Longrightarrow>
     length common \<le> kept_lines (compute_diff old new)"
  using backtrack_keeps[of old "length old" "length new" new]
    lcs_bounds_common[of "rev common" "rev old" "rev new"]
  by (simp add: compute_diff_def subseq_rev_both)

theorem compute_diff_minimal_witness:
  "length [''b''] \<le> kept_lines (compute_diff [''a'', ''b''] [''b'', ''c''])"
  by (rule compute_diff_minimal) simp_all

subsection \<open>Hunks\<close>

record diff_hunk =
  old_start :: nat
  old_count :: nat
  new_start :: nat
  new_count :: nat
  body :: string

text \<open>The grouping loop over the indices of the changes after the first.\<close>

fun group_changes :: "nat \<Rightarrow> nat \<Rightarrow> nat \<Rightarrow> nat list \<Rightarrow> (nat \<times> nat) list" where
  "group_changes context cur_start cur_end [] = [(cur_start, cur_end)]"
| "group_changes context cur_start cur_end (idx # rest) =
     (if idx - cur_end \<le> 2 * context + 1 then group_changes context cur_start idx rest
      else (cur_start, cur_end) # group_changes context idx idx rest)"

fun unified_line :: "diff_op \<Rightarrow> string" where
  "unified_line (Equal l) = '' '' @ l @ [NL]"
| "unified_line (Delete l) = ''-'' @ l @ [NL]"
| "unified_line (Insert l) = ''+'' @ l @ [NL]"

definition hunk_range :: "nat \<Rightarrow> nat \<Rightarrow> nat \<times> nat \<Rightarrow> nat \<times> nat" where
  "hunk_range context len g = (fst g - context, min (snd g + context + 1) len)"

definition make_hunk :: "diff_op list \<Rightarrow> nat \<times> nat \<Rightarrow> diff_hunk" where
  "make_hunk ops r =
     (let before = take (fst r) ops;
          inside = slice (fst r) (snd r) ops
      in \<lparr>old_start = 1 + length (old_side before), old_count = length (old_side inside),
          new_start = 1 + length (new_side before), new_count = length (new_side inside),
          body = concat (map unified_line inside)\<rparr>)"

definition build_hunks :: "diff_op list \<Rightarrow> nat \<Rightarrow> diff_hunk list" where
  "build_hunks ops context =
     (case indices (\<lambda>op. \<not> is_Equal op) ops of
        [] \<Rightarrow> []
      | c # cs \<Rightarrow>
          map (\<lambda>g. make_hunk ops (hunk_range context (length ops) g)) (group_changes context c c cs))"

definition hunk_header :: "diff_hunk \<Rightarrow> string" where
  "hunk_header h = ''@@ -'' @ nat_str (old_start h) @ '','' @ nat_str (old_count h)
     @ '' +'' @ nat_str (new_start h) @ '','' @ nat_str (new_count h) @ '' @@'' @ [NL]"

definition format_unified :: "string \<Rightarrow> string \<Rightarrow> diff_op list \<Rightarrow> nat \<Rightarrow> string" where
  "format_unified old_name new_name ops context =
     ''--- '' @ old_name @ [NL] @ ''+++ '' @ new_name @ [NL]
     @ concat (map (\<lambda>h. hunk_header h @ body h) (build_hunks ops context))"

text \<open>The ranges of the hunks: in order, disjoint, and every change is in one.\<close>

definition hunk_ranges :: "diff_op list \<Rightarrow> nat \<Rightarrow> (nat \<times> nat) list" where
  "hunk_ranges ops context =
     (case indices (\<lambda>op. \<not> is_Equal op) ops of
        [] \<Rightarrow> []
      | c # cs \<Rightarrow> map (hunk_range context (length ops)) (group_changes context c c cs))"

lemma group_changes_bounds:
  "s \<le> e \<Longrightarrow> sorted_wrt (<) (e # cs) \<Longrightarrow> g \<in> set (group_changes n s e cs) \<Longrightarrow>
     s \<le> fst g \<and> fst g \<le> snd g \<and> snd g \<in> set (e # cs)"
  by (induction n s e cs rule: group_changes.induct) (fastforce split: if_splits)+

lemma group_changes_sorted:
  "s \<le> e \<Longrightarrow> sorted_wrt (<) (e # cs) \<Longrightarrow>
     sorted_wrt (\<lambda>g h. snd g + 2 * n + 1 < fst h) (group_changes n s e cs)"
proof (induction n s e cs rule: group_changes.induct)
  case (2 n s e idx rest)
  show ?case
  proof (cases "idx - e \<le> 2 * n + 1")
    case False
    have "e + 2 * n + 1 < fst g" if "g \<in> set (group_changes n idx idx rest)" for g
      using group_changes_bounds[OF _ _ that] "2.prems" False by force
    with 2 False show ?thesis by simp
  qed (use 2 in simp)
qed simp

lemma group_changes_first:
  "s \<le> e \<Longrightarrow> sorted_wrt (<) (e # cs) \<Longrightarrow> \<exists>g \<in> set (group_changes n s e cs). fst g = s \<and> e \<le> snd g"
  by (induction n s e cs rule: group_changes.induct) (auto, force)

lemma group_changes_cover:
  "s \<le> e \<Longrightarrow> sorted_wrt (<) (e # cs) \<Longrightarrow> c \<in> set (e # cs) \<Longrightarrow>
     \<exists>g \<in> set (group_changes n s e cs). fst g \<le> c \<and> c \<le> snd g"
proof (induction n s e cs rule: group_changes.induct)
  case (2 n s e idx rest)
  show ?case
  proof (cases "c = e")
    case True
    with group_changes_first[OF "2.prems"(1,2), of n] "2.prems"(1) show ?thesis by force
  next
    case False
    with 2 show ?thesis by (cases "idx - e \<le> 2 * n + 1") auto
  qed
qed auto

lemma change_indices_sorted: "indices p xs = c # cs \<Longrightarrow> sorted_wrt (<) (c # cs)"
  using sorted_indices_from[of p 0 xs] by simp

text \<open>
  The hunks of a unified diff are complete and never overlap: their ranges are disjoint and in
  order, lie within the operations, and every operation that is no equal line is in one.
\<close>

theorem hunks_cover_changes:
  "sorted_wrt (\<lambda>r r'. snd r \<le> fst r') (hunk_ranges ops context)
   \<and> (\<forall>r \<in> set (hunk_ranges ops context). fst r < snd r \<and> snd r \<le> length ops)
   \<and> (\<forall>i < length ops. \<not> is_Equal (ops ! i) \<longrightarrow>
        (\<exists>r \<in> set (hunk_ranges ops context). fst r \<le> i \<and> i < snd r))
   \<and> build_hunks ops context = map (make_hunk ops) (hunk_ranges ops context)"
  (is "?sorted \<and> ?within \<and> ?cover \<and> ?build")
proof (cases "indices (\<lambda>op. \<not> is_Equal op) ops")
  case Nil
  then have "is_Equal (ops ! i)" if "i < length ops" for i
    using that set_indices[of i "\<lambda>op. \<not> is_Equal op" ops] by simp
  with Nil show ?thesis by (simp add: hunk_ranges_def build_hunks_def)
next
  case (Cons c cs)
  note sorted = change_indices_sorted[OF Cons]
  have mem: "i \<in> set (c # cs) \<longleftrightarrow> i < length ops \<and> \<not> is_Equal (ops ! i)" for i
    using set_indices[of i "\<lambda>op. \<not> is_Equal op" ops] Cons by simp
  let ?gs = "group_changes context c c cs"
  have ranges: "hunk_ranges ops context = map (hunk_range context (length ops)) ?gs"
    by (simp add: hunk_ranges_def Cons)
  have bounds: "fst g \<le> snd g \<and> snd g < length ops" if "g \<in> set ?gs" for g
    using group_changes_bounds[OF order.refl sorted that] mem by blast
  have "sorted_wrt (\<lambda>g h. snd (hunk_range context (length ops) g) \<le> fst (hunk_range context (length ops) h)) ?gs"
    by (rule sorted_wrt_mono_rel[OF _ group_changes_sorted[OF order.refl sorted, of "context"]])
      (auto simp: hunk_range_def)
  then have ?sorted by (simp add: ranges sorted_wrt_map)
  moreover have ?within using bounds by (force simp: ranges hunk_range_def)
  moreover have ?cover
  proof (intro allI impI)
    fix i assume i: "i < length ops" "\<not> is_Equal (ops ! i)"
    then obtain g where "g \<in> set ?gs" "fst g \<le> i" "i \<le> snd g"
      using group_changes_cover[OF order.refl sorted, of i "context"] mem by blast
    with i show "\<exists>r \<in> set (hunk_ranges ops context). fst r \<le> i \<and> i < snd r"
      by (intro bexI[of _ "hunk_range context (length ops) g"]) (auto simp: ranges hunk_range_def)
  qed
  moreover have ?build by (simp add: build_hunks_def ranges Cons)
  ultimately show ?thesis by blast
qed

theorem hunks_cover_changes_witness:
  "\<exists>r \<in> set (hunk_ranges [Equal ''a'', Insert ''b'', Equal ''c''] 0). fst r \<le> 1 \<and> 1 < snd r \<and> snd r \<le> 3"
proof -
  let ?ops = "[Equal ''a'', Insert ''b'', Equal ''c'']"
  have "1 < length ?ops \<and> \<not> is_Equal (?ops ! 1)" by simp
  then obtain r where "r \<in> set (hunk_ranges ?ops 0)" "fst r \<le> 1" "1 < snd r"
    using hunks_cover_changes[of ?ops 0] by blast
  moreover have "\<forall>r \<in> set (hunk_ranges ?ops 0). snd r \<le> length ?ops"
    using hunks_cover_changes[of ?ops 0] by blast
  ultimately show ?thesis by (intro bexI[of _ r]) auto
qed

end
