(* ===== verification/Patch_Parse.thy ===== *)
theory Patch_Parse
  imports Rust_Search
begin

section \<open>Parsing patches\<close>

text \<open>
  \<open>edit-core/src/patch_types.rs\<close> and \<open>patch_parser.rs\<close>. The parser walks the lines of a patch with
  an index; here the lines still to come are the argument and the index is carried for the error
  messages. The lemmas show that every parse ends, consuming a line at least, and that a patch
  printed from well-formed operations parses back to them.
\<close>

datatype hunk_line = Context_line string | Remove_line string | Add_line string

record hunk =
  line_hint :: "nat option"
  hunk_lines :: "hunk_line list"

datatype file_op =
    Add_file (op_path: string) string
  | Update_file (op_path: string) "hunk list"
  | Delete_file (op_path: string)

record patch_parse_error =
  error_line :: nat
  error_message :: string

subsection \<open>The body parsers\<close>

text \<open>Each answers what it collected, the lines left and the index of the first of them.\<close>

fun add_lines :: "nat \<Rightarrow> string list \<Rightarrow> string list \<times> string list \<times> nat" where
  "add_lines i [] = ([], [], i)"
| "add_lines i (line # rest) =
     (if prefix ''*** '' line then ([], line # rest, i)
      else case add_lines (i + 1) rest of
             (content_lines, left, next) \<Rightarrow>
               ((case strip_prefix ''+'' line of Some r \<Rightarrow> [r] | None \<Rightarrow> []) @ content_lines, left, next))"

definition parse_add_body :: "nat \<Rightarrow> string list \<Rightarrow> string \<times> string list \<times> nat" where
  "parse_add_body i lines =
     (case add_lines i lines of
        (content_lines, left, next) \<Rightarrow>
          (str_join [NL] content_lines @ (if content_lines \<noteq> [] then [NL] else []), left, next))"

definition parse_line_hint :: "string \<Rightarrow> nat option" where
  "parse_line_hint line =
     (let trimmed = trim (trim_end_matches ''@'' (trim_start_matches ''@'' (trim line)))
      in if trimmed = [] then None else parse_uint (2 ^ 64) trimmed)"

definition is_separator :: "string list \<Rightarrow> bool" where
  "is_separator rest =
     (case find (\<lambda>l. l \<noteq> []) rest of
        None \<Rightarrow> True
      | Some n \<Rightarrow> prefix ''*** '' n \<or> prefix ''@@'' n)"

type_synonym 'a parsed = "patch_parse_error + 'a \<times> string list \<times> nat"

fun parse_hunk_lines :: "nat \<Rightarrow> string list \<Rightarrow> hunk_line list parsed" where
  "parse_hunk_lines i [] = Inr ([], [], i)"
| "parse_hunk_lines i (line # rest) =
     (if prefix ''@@'' line \<or> prefix ''*** '' line then Inr ([], line # rest, i)
      else
        let continue_with = (\<lambda>l. case parse_hunk_lines (i + 1) rest of
                                Inl e \<Rightarrow> Inl e
                              | Inr (ls, left, next) \<Rightarrow> Inr (l # ls, left, next))
        in case strip_prefix ''-'' line of
             Some r \<Rightarrow> continue_with (Remove_line r)
           | None \<Rightarrow>
          (case strip_prefix ''+'' line of
             Some r \<Rightarrow> continue_with (Add_line r)
           | None \<Rightarrow>
          (case strip_prefix '' '' line of
             Some r \<Rightarrow> continue_with (Context_line r)
           | None \<Rightarrow>
             if line = [] then
               (if is_separator rest then Inr ([], line # rest, i) else continue_with (Context_line []))
             else Inl \<lparr>error_line = i + 1, error_message = ''invalid hunk line prefix: '' @ line\<rparr>)))"

lemma parse_hunk_lines_shorter:
  "parse_hunk_lines i lines = Inr (ls, left, next) \<Longrightarrow> length left \<le> length lines"
proof (induction lines arbitrary: i ls left "next")
  case (Cons line rest)
  show ?case
  proof (cases "parse_hunk_lines (i + 1) rest")
    case (Inl e)
    with Cons.prems show ?thesis by (auto simp: Let_def split: if_splits option.splits)
  next
    case (Inr r)
    obtain ls' left' next' where r: "r = (ls', left', next')" by (cases r)
    have "length left' \<le> length rest" using Cons.IH Inr r by blast
    with Cons.prems Inr r show ?thesis by (auto simp: Let_def split: if_splits option.splits)
  qed
qed simp

function parse_update_body :: "nat \<Rightarrow> string list \<Rightarrow> hunk list parsed" where
  "parse_update_body i lines =
     (case lines of
        [] \<Rightarrow> Inr ([], [], i)
      | line # rest \<Rightarrow>
          if prefix ''*** '' line then Inr ([], lines, i)
          else if prefix ''@@'' line then
            (case parse_hunk_lines (i + 1) rest of
               Inl e \<Rightarrow> Inl e
             | Inr (ls, left, next) \<Rightarrow>
                 (case parse_update_body next left of
                    Inl e \<Rightarrow> Inl e
                  | Inr (hunks, left', next') \<Rightarrow>
                      Inr (\<lparr>line_hint = parse_line_hint line, hunk_lines = ls\<rparr> # hunks, left', next')))
          else if trim line = [] then parse_update_body (i + 1) rest
          else Inl \<lparr>error_line = i + 1,
                    error_message = ''expected @@ or file header, got: '' @ line\<rparr>)"
  by pat_completeness auto
termination
  by (relation "measure (\<lambda>(i, lines). length lines)") (auto dest!: parse_hunk_lines_shorter)

declare parse_update_body.simps [simp del]

lemma add_lines_shorter: "add_lines i lines = (c, left, next) \<Longrightarrow> length left \<le> length lines"
  by (induction i lines arbitrary: c left "next" rule: add_lines.induct)
    (auto split: if_splits prod.splits option.splits intro: le_SucI)

lemma parse_add_body_shorter: "parse_add_body i lines = (c, left, next) \<Longrightarrow> length left \<le> length lines"
  by (auto simp: parse_add_body_def split: prod.splits dest: add_lines_shorter)

lemma parse_update_body_shorter:
  "parse_update_body i lines = Inr (hs, left, next) \<Longrightarrow> length left \<le> length lines"
proof (induction i lines arbitrary: hs left "next" rule: parse_update_body.induct)
  case (1 i lines)
  show ?case
  proof (cases lines)
    case Nil
    with "1.prems" show ?thesis by (simp add: parse_update_body.simps)
  next
    case (Cons line rest)
    show ?thesis
    proof (cases "prefix ''@@'' line \<and> \<not> prefix ''*** '' line")
      case True
      then obtain ls l n where h: "parse_hunk_lines (i + 1) rest = Inr (ls, l, n)"
        using "1.prems" Cons
        by (auto simp: parse_update_body.simps[of i "line # rest"] split: sum.splits)
      then obtain hs' where u: "parse_update_body n l = Inr (hs', left, next)"
        using "1.prems" Cons True
        by (auto simp: parse_update_body.simps[of i "line # rest"] split: sum.splits)
      from "1.IH"(1)[OF Cons _ _ h refl refl u] True parse_hunk_lines_shorter[OF h]
      show ?thesis by (simp add: Cons)
    next
      case False
      with "1.prems" "1.IH"(2)[OF Cons] Cons show ?thesis
        by (auto simp: parse_update_body.simps[of i "line # rest"] split: if_splits)
    qed
  qed
qed

subsection \<open>The whole patch\<close>

function parse_ops :: "nat \<Rightarrow> string list \<Rightarrow> patch_parse_error + file_op list" where
  "parse_ops i lines =
     (case lines of
        [] \<Rightarrow> Inr []
      | line # rest \<Rightarrow>
          (case strip_prefix ''*** Add File: '' line of
             Some path \<Rightarrow>
               (case parse_add_body (i + 1) rest of
                  (txt, left, next) \<Rightarrow>
                    (case parse_ops next left of
                       Inl e \<Rightarrow> Inl e
                     | Inr ops \<Rightarrow> Inr (Add_file (trim path) txt # ops)))
           | None \<Rightarrow>
          (case strip_prefix ''*** Update File: '' line of
             Some path \<Rightarrow>
               (case parse_update_body (i + 1) rest of
                  Inl e \<Rightarrow> Inl e
                | Inr (hunks, left, next) \<Rightarrow>
                    if hunks = [] then Inl \<lparr>error_line = i + 1, error_message = ''update has no hunks''\<rparr>
                    else (case parse_ops next left of
                            Inl e \<Rightarrow> Inl e
                          | Inr ops \<Rightarrow> Inr (Update_file (trim path) hunks # ops)))
           | None \<Rightarrow>
          (case strip_prefix ''*** Delete File: '' line of
             Some path \<Rightarrow>
               (case parse_ops (i + 1) rest of
                  Inl e \<Rightarrow> Inl e
                | Inr ops \<Rightarrow> Inr (Delete_file (trim path) # ops))
           | None \<Rightarrow>
               if trim line = [] then parse_ops (i + 1) rest
               else Inl \<lparr>error_line = i + 1, error_message = ''unexpected line: '' @ line\<rparr>))))"
  by pat_completeness auto
termination
  by (relation "measure (\<lambda>(i, lines). length lines)")
    (auto dest!: parse_add_body_shorter[OF sym] parse_update_body_shorter)

declare parse_ops.simps [simp del]

definition parse_patch :: "string \<Rightarrow> patch_parse_error + file_op list" where
  "parse_patch input = parse_ops 0 (rust_lines input)"

subsection \<open>Round trip\<close>

text \<open>
  The format in which a patch is written: the specification of the parser. Hunk headers carry the
  line hint between the markers.
\<close>

fun render_hunk_line :: "hunk_line \<Rightarrow> string" where
  "render_hunk_line (Context_line s) = '' '' @ s"
| "render_hunk_line (Remove_line s) = ''-'' @ s"
| "render_hunk_line (Add_line s) = ''+'' @ s"

definition render_hint :: "nat option \<Rightarrow> string" where
  "render_hint h = (case h of None \<Rightarrow> ''@@'' | Some n \<Rightarrow> ''@@'' @ nat_str n @ ''@@'')"

definition render_hunk :: "hunk \<Rightarrow> string list" where
  "render_hunk h = render_hint (line_hint h) # map render_hunk_line (hunk_lines h)"

fun render_op :: "file_op \<Rightarrow> string list" where
  "render_op (Add_file p c) = (''*** Add File: '' @ p) # map (Cons (CHR ''+'')) (rust_lines c)"
| "render_op (Update_file p hs) = (''*** Update File: '' @ p) # concat (map render_hunk hs)"
| "render_op (Delete_file p) = [''*** Delete File: '' @ p]"

definition render_patch :: "file_op list \<Rightarrow> string" where
  "render_patch ops = concat (map (\<lambda>l. l @ [NL]) (concat (map render_op ops)))"

text \<open>What can be written: lines without a newline, trimmed paths, files that end in a newline.\<close>

definition wf_line :: "string \<Rightarrow> bool" where
  "wf_line s = (NL \<notin> set s \<and> (s = [] \<or> last s \<noteq> CR))"

fun hunk_line_text :: "hunk_line \<Rightarrow> string" where
  "hunk_line_text (Context_line s) = s" | "hunk_line_text (Remove_line s) = s" | "hunk_line_text (Add_line s) = s"

definition wf_hunk :: "hunk \<Rightarrow> bool" where
  "wf_hunk h = (list_all (wf_line \<circ> hunk_line_text) (hunk_lines h)
     \<and> (case line_hint h of None \<Rightarrow> True | Some n \<Rightarrow> n < 2 ^ 64))"

fun wf_op :: "file_op \<Rightarrow> bool" where
  "wf_op (Add_file p c) = (wf_line p \<and> trim p = p \<and> list_all wf_line (rust_lines c)
     \<and> c = str_join [NL] (rust_lines c) @ (if c = [] then [] else [NL]))"
| "wf_op (Update_file p hs) = (wf_line p \<and> trim p = p \<and> hs \<noteq> [] \<and> list_all wf_hunk hs)"
| "wf_op (Delete_file p) = (wf_line p \<and> trim p = p)"

lemma trim_id: "ws_prefix ws_seqs s = 0 \<Longrightarrow> ws_prefix (map rev ws_seqs) (rev s) = 0 \<Longrightarrow> trim s = s"
  by (cases "length s") (auto simp: trim_def trim_start_def trim_end_def)

lemma digit_cases: "d < 10 \<Longrightarrow> digit d \<in> set ''0123456789''"
proof -
  have "\<forall>d \<in> set [0..<10]. digit d \<in> set ''0123456789''" by code_simp
  then show "d < 10 \<Longrightarrow> digit d \<in> set ''0123456789''" by simp
qed

lemma ws_prefix_no: "c \<notin> hd ` set seqs \<Longrightarrow> [] \<notin> set seqs \<Longrightarrow> ws_prefix seqs (c # s) = 0"
proof -
  assume "c \<notin> hd ` set seqs" "[] \<notin> set seqs"
  then have "\<not> prefix w (c # s)" if "w \<in> set seqs" for w
    using that by (cases w) force+
  then show ?thesis by (simp add: ws_prefix_def filter_empty_conv)
qed

lemma ws_prefix_digit:
  "d < 10 \<Longrightarrow> ws_prefix ws_seqs (digit d # s) = 0 \<and> ws_prefix (map rev ws_seqs) (digit d # s) = 0"
proof -
  have "\<forall>c \<in> set ''0123456789''. c \<notin> hd ` set ws_seqs \<and> c \<notin> hd ` set (map rev ws_seqs)"
    by code_simp
  moreover assume "d < 10"
  ultimately have "digit d \<notin> hd ` set ws_seqs" "digit d \<notin> hd ` set (map rev ws_seqs)"
    using digit_cases[of d] by blast+
  then show ?thesis by (intro conjI ws_prefix_no ws_seqs_nonempty)
qed

lemma ws_prefix_at: "ws_prefix ws_seqs (CHR ''@'' # s) = 0" "ws_prefix (map rev ws_seqs) (CHR ''@'' # s) = 0"
  by (simp_all add: ws_prefix_def ws_seqs_def)

lemma digit_not_at: "d < 10 \<Longrightarrow> digit d \<noteq> CHR ''@''"
  using digit_cases[of d] by auto

lemma nat_str_first: "\<exists>d s. nat_str n = digit d # s \<and> d < 10"
proof (induction n rule: nat_str.induct)
  case (1 n)
  then show ?case by (subst nat_str.simps) fastforce
qed

lemma nat_str_last: "\<exists>d s. nat_str n = s @ [digit d] \<and> d < 10"
  by (subst nat_str.simps) (cases "n < 10", auto intro: exI[of _ "n mod 10"])

lemma strip_all_stop: "\<not> prefix p s \<Longrightarrow> strip_all n p s = s"
  by (cases n) auto

lemma strip_two_at:
  assumes "x \<noteq> CHR ''@''" "2 \<le> n"
  shows "strip_all n ''@'' (CHR ''@'' # CHR ''@'' # x # s) = x # s"
proof -
  obtain m where "n = Suc (Suc m)" using assms(2) by (metis add_2_eq_Suc le_Suc_ex)
  then show ?thesis using assms(1) by (simp add: strip_all_stop)
qed

lemma parse_render_hint:
  assumes "case h of None \<Rightarrow> True | Some n \<Rightarrow> n < 2 ^ 64"
  shows "parse_line_hint (render_hint h) = h"
proof (cases h)
  case None
  have "parse_line_hint ''@@'' = None" by code_simp
  with None show ?thesis by (simp add: render_hint_def)
next
  case (Some n)
  obtain d s where ds: "nat_str n = digit d # s" "d < 10" using nat_str_first by blast
  obtain e t where et: "nat_str n = t @ [digit e]" "e < 10" using nat_str_last by blast
  let ?l = "''@@'' @ nat_str n @ ''@@''"
  have "trim ?l = ?l" by (rule trim_id) (simp_all add: ws_prefix_at)
  moreover have "trim_start_matches ''@'' ?l = nat_str n @ ''@@''"
    unfolding trim_start_matches_def ds(1)
    using strip_two_at[OF digit_not_at[OF ds(2)], of "length (''@@'' @ (digit d # s) @ ''@@'')" "s @ ''@@''"]
    by (simp del: strip_all.simps)
  moreover have "trim_end_matches ''@'' (nat_str n @ ''@@'') = nat_str n"
    unfolding trim_end_matches_def et(1)
    using strip_two_at[OF digit_not_at[OF et(2)], of "length ((t @ [digit e]) @ ''@@'')" "rev t"]
    by (simp del: strip_all.simps)
  moreover have "trim (nat_str n) = nat_str n"
    by (rule trim_id) (simp add: ds ws_prefix_digit, simp add: et ws_prefix_digit)
  ultimately show ?thesis
    using assms Some parse_nat_str[of n "2 ^ 64"]
    by (simp add: parse_line_hint_def render_hint_def)
qed

lemma parse_rendered_lines:
  assumes "rest = [] \<or> prefix ''@@'' (hd rest) \<or> prefix ''*** '' (hd rest)"
  shows "parse_hunk_lines i (map render_hunk_line ls @ rest) = Inr (ls, rest, i + length ls)"
proof (induction ls arbitrary: i)
  case Nil
  then show ?case using assms by (cases rest) auto
next
  case (Cons l ls)
  have "strip_prefix ''-'' (CHR '' '' # s) = None" "strip_prefix ''+'' (CHR '' '' # s) = None"
    "strip_prefix ''-'' (CHR ''+'' # s) = None" for s
    by (simp_all add: strip_prefix_None)
  moreover have "strip_prefix [c] (c # s) = Some s" for c s
    using strip_prefix_append[of "[c]" s] by simp
  ultimately show ?case using Cons by (cases l) (simp_all add: Let_def)
qed

lemma render_hint_marker: "prefix ''@@'' (render_hint h)" "\<not> prefix ''*** '' (render_hint h)"
  by (auto simp: render_hint_def split: option.split)

definition body_ends :: "string list \<Rightarrow> bool" where
  "body_ends rest = (rest = [] \<or> prefix ''*** '' (hd rest))"

lemma parse_rendered_hunks:
  assumes "body_ends rest"
  shows "list_all wf_hunk hs \<Longrightarrow>
     \<exists>n. parse_update_body i (concat (map render_hunk hs) @ rest) = Inr (hs, rest, n)"
proof (induction hs arbitrary: i)
  case Nil
  then show ?case using assms
    by (cases rest) (auto simp: parse_update_body.simps body_ends_def)
next
  case (Cons h hs)
  let ?more = "concat (map render_hunk hs) @ rest"
  have more: "?more = [] \<or> prefix ''@@'' (hd ?more) \<or> prefix ''*** '' (hd ?more)"
    using assms render_hint_marker by (cases hs) (auto simp: render_hunk_def body_ends_def)
  obtain n where "parse_update_body (i + 1 + length (hunk_lines h)) ?more = Inr (hs, rest, n)"
    using Cons by fastforce
  then show ?case
    using parse_rendered_lines[OF more, of "i + 1" "hunk_lines h"] Cons.prems render_hint_marker
      parse_render_hint[of "line_hint h"]
    by (subst parse_update_body.simps) (simp add: render_hunk_def wf_hunk_def)
qed

lemma add_rendered_lines:
  assumes "body_ends rest"
  shows "\<exists>n. add_lines i (map (Cons (CHR ''+'')) ls @ rest) = (ls, rest, n)"
proof (induction ls arbitrary: i)
  case Nil
  then show ?case using assms by (cases rest) (auto simp: body_ends_def)
next
  case (Cons l ls)
  have "strip_prefix ''+'' (CHR ''+'' # l) = Some l" using strip_prefix_append[of "''+''" l] by simp
  moreover obtain n where "add_lines (i + 1) (map (Cons (CHR ''+'')) ls @ rest) = (ls, rest, n)"
    using Cons by blast
  ultimately show ?case by simp
qed

lemma render_op_ends: "body_ends (concat (map render_op ops))"
proof (cases ops)
  case (Cons op ops')
  then show ?thesis by (cases op) (auto simp: body_ends_def)
qed (simp add: body_ends_def)

lemma header_neq: "strip_prefix ''*** Add File: '' (''*** Update File: '' @ p) = None"
  "strip_prefix ''*** Add File: '' (''*** Delete File: '' @ p) = None"
  "strip_prefix ''*** Update File: '' (''*** Delete File: '' @ p) = None"
  by (simp_all add: strip_prefix_None)

lemma parse_rendered_ops: "list_all wf_op ops \<Longrightarrow> parse_ops i (concat (map render_op ops)) = Inr ops"
proof (induction ops arbitrary: i)
  case Nil
  then show ?case by (simp add: parse_ops.simps)
next
  case (Cons op ops)
  let ?more = "concat (map render_op ops)"
  note ends = render_op_ends[of ops]
  have rest: "parse_ops k ?more = Inr ops" for k using Cons by simp
  show ?case
  proof (cases op)
    case (Add_file p c)
    obtain n where a: "add_lines (i + 1) (map (Cons (CHR ''+'')) (rust_lines c) @ ?more) = (rust_lines c, ?more, n)"
      using add_rendered_lines[OF ends] by blast
    have "c = str_join [NL] (rust_lines c) @ (if rust_lines c \<noteq> [] then [NL] else [])" "trim p = p"
      using Cons.prems Add_file by auto
    then have "parse_add_body (i + 1) (map (Cons (CHR ''+'')) (rust_lines c) @ ?more) = (c, ?more, n)"
      by (simp add: parse_add_body_def a[simplified])
    then show ?thesis using Add_file rest \<open>trim p = p\<close> strip_prefix_append[of "''*** Add File: ''" p]
      by (subst parse_ops.simps) simp
  next
    case (Update_file p hs)
    then obtain n where u: "parse_update_body (i + 1) (concat (map render_hunk hs) @ ?more) = Inr (hs, ?more, n)"
      using parse_rendered_hunks[OF ends] Cons.prems by fastforce
    have "trim p = p" "hs \<noteq> []" using Cons.prems Update_file by auto
    then show ?thesis using Update_file rest u header_neq(1)[of p] strip_prefix_append[of "''*** Update File: ''" p]
      by (subst parse_ops.simps) simp
  next
    case (Delete_file p)
    have "trim p = p" using Cons.prems Delete_file by auto
    then show ?thesis
      using Delete_file rest header_neq(2,3)[of p] strip_prefix_append[of "''*** Delete File: ''" p]
      by (subst parse_ops.simps) simp
  qed
qed

lemma wf_line_Cons: "wf_line s \<Longrightarrow> c \<noteq> NL \<Longrightarrow> c \<noteq> CR \<Longrightarrow> wf_line (c # s)"
  by (auto simp: wf_line_def)

lemma wf_line_prefix: "wf_line s \<Longrightarrow> \<forall>c \<in> set h. c \<noteq> NL \<and> c \<noteq> CR \<Longrightarrow> wf_line (h @ s)"
  by (induction h) (auto intro: wf_line_Cons)

lemma wf_render_hint: "wf_line (render_hint h)"
proof -
  have "set (nat_str n) \<subseteq> set ''0123456789''" for n
  proof (induction n rule: nat_str.induct)
    case (1 n)
    then show ?case using digit_cases[of n] digit_cases[of "n mod 10"] by (subst nat_str.simps) auto
  qed
  then have "NL \<notin> set (nat_str n)" for n
    by (auto dest!: subsetD)
  then show ?thesis
    by (auto simp: wf_line_def render_hint_def split: option.split)
qed

lemma wf_render_hunk: "wf_hunk h \<Longrightarrow> list_all wf_line (render_hunk h)"
proof -
  have "wf_line (hunk_line_text l) \<Longrightarrow> wf_line (render_hunk_line l)" for l
    by (cases l) (auto intro!: wf_line_Cons)
  then show "wf_hunk h \<Longrightarrow> list_all wf_line (render_hunk h)"
    by (auto simp: wf_hunk_def render_hunk_def wf_render_hint list_all_iff)
qed

lemma wf_render_op: "wf_op op \<Longrightarrow> list_all wf_line (render_op op)"
proof (cases op)
  case (Add_file p c)
  assume "wf_op op"
  then have "wf_line (''*** Add File: '' @ p)" "\<forall>l \<in> set (rust_lines c). wf_line (CHR ''+'' # l)"
    using Add_file by (auto simp: list_all_iff intro!: wf_line_Cons)
  with Add_file show ?thesis by (simp add: list_all_iff)
next
  case (Update_file p hs)
  assume "wf_op op"
  then have "wf_line (''*** Update File: '' @ p)" "\<forall>h \<in> set hs. list_all wf_line (render_hunk h)"
    using Update_file wf_render_hunk by (auto simp: list_all_iff intro!: wf_line_Cons)
  with Update_file show ?thesis by (auto simp: list_all_iff)
next
  case (Delete_file p)
  assume "wf_op op"
  then show ?thesis
    using Delete_file by (auto intro!: wf_line_Cons)
qed

text \<open>
  C29. Parsing inverts printing: a patch written from well-formed operations (trimmed paths, lines
  without newlines, added files that end in a newline, updates with at least one hunk) parses to
  exactly those operations, line hints included.
\<close>

theorem parse_patch_roundtrip:
  "list_all wf_op ops \<Longrightarrow> parse_patch (render_patch ops) = Inr ops"
proof -
  assume ok: "list_all wf_op ops"
  have "\<forall>l \<in> set (concat (map render_op ops)). wf_line l"
    using ok wf_render_op by (auto simp: list_all_iff)
  then have "rust_lines (render_patch ops) = concat (map render_op ops)"
    unfolding render_patch_def by (intro rust_lines_join) (simp add: wf_line_def)
  then show ?thesis using parse_rendered_ops[OF ok] by (simp add: parse_patch_def)
qed

theorem parse_patch_roundtrip_witness:
  "parse_patch (render_patch [Add_file ''a'' (''x'' @ [NL]), Delete_file ''b'',
      Update_file ''c'' [\<lparr>line_hint = Some 3, hunk_lines = [Remove_line ''p'', Add_line ''q'']\<rparr>]])
   = Inr [Add_file ''a'' (''x'' @ [NL]), Delete_file ''b'',
      Update_file ''c'' [\<lparr>line_hint = Some 3, hunk_lines = [Remove_line ''p'', Add_line ''q'']\<rparr>]]"
proof (rule parse_patch_roundtrip)
  have "trim ''a'' = ''a''" "trim ''b'' = ''b''" "trim ''c'' = ''c''" "rust_lines (''x'' @ [NL]) = [''x'']"
    by code_simp+
  then show "list_all wf_op [Add_file ''a'' (''x'' @ [NL]), Delete_file ''b'',
      Update_file ''c'' [\<lparr>line_hint = Some 3, hunk_lines = [Remove_line ''p'', Add_line ''q'']\<rparr>]]"
    by (simp add: wf_line_def wf_hunk_def)
qed

end
