(* ===== verification/Rust_Path.thy ===== *)
theory Rust_Path
  imports Rust_Search
begin

section \<open>std::path\<close>

text \<open>
  What the code uses of \<open>std::path::Path\<close> on Unix: a path is its text, compared and taken apart by
  components. Empty components and inner \<open>.\<close> components are skipped, as \<open>Path::components\<close> does.
  The lemmas give the components of a joined path and of a parent, which the containment checks
  and the temporary files of atomic writes rest on.
\<close>

datatype component = RootDir | CurDir | ParentDir | Normal string

definition SLASH :: char where "SLASH = CHR ''/''"

definition piece :: "string \<Rightarrow> component" where
  "piece s = (if s = ''..'' then ParentDir else Normal s)"

definition counted :: "string \<Rightarrow> bool" where
  "counted s = (s \<noteq> [] \<and> s \<noteq> ''.'')"

definition pieces :: "string \<Rightarrow> component list" where
  "pieces s = map piece (filter counted (split_char SLASH s))"

definition is_absolute :: "string \<Rightarrow> bool" where
  "is_absolute p = (case p of [] \<Rightarrow> False | c # _ \<Rightarrow> c = SLASH)"

definition components :: "string \<Rightarrow> component list" where
  "components p =
     (if is_absolute p then [RootDir]
      else if hd (split_char SLASH p) = ''.'' then [CurDir] else []) @ pieces p"

definition path_join :: "string \<Rightarrow> string \<Rightarrow> string" where
  "path_join a b =
     (if is_absolute b then b
      else if a = [] \<or> last a = SLASH then a @ b
      else a @ [SLASH] @ b)"

definition starts_with :: "string \<Rightarrow> string \<Rightarrow> bool" where
  "starts_with p base = prefix (components base) (components p)"

definition file_name :: "string \<Rightarrow> string option" where
  "file_name p = (case rev (components p) of Normal s # _ \<Rightarrow> Some s | _ \<Rightarrow> None)"

fun component_str :: "component \<Rightarrow> string" where
  "component_str RootDir = []"
| "component_str CurDir = ''.''"
| "component_str ParentDir = ''..''"
| "component_str (Normal s) = s"

fun path_of :: "component list \<Rightarrow> string" where
  "path_of [] = []"
| "path_of (RootDir # cs) = SLASH # str_join [SLASH] (map component_str cs)"
| "path_of (c # cs) = str_join [SLASH] (map component_str (c # cs))"

definition parent :: "string \<Rightarrow> string option" where
  "parent p = (case rev (components p) of
      [] \<Rightarrow> None | RootDir # _ \<Rightarrow> None | _ # cs \<Rightarrow> Some (path_of (rev cs)))"

subsection \<open>Splitting at a separator\<close>

lemma split_char_append: "split_char d (a @ d # b) = split_char d a @ split_char d b"
proof (induction a)
  case (Cons c a)
  have "split_char d a \<noteq> []" by simp
  with Cons show ?case by (cases "split_char d a") auto
qed simp

lemma split_char_no: "d \<notin> set s \<Longrightarrow> split_char d s = [s]"
  by (induction s) auto

lemma split_char_join: "\<forall>w \<in> set ws. d \<notin> set w \<Longrightarrow> ws \<noteq> [] \<Longrightarrow> split_char d (str_join [d] ws) = ws"
proof (induction ws)
  case (Cons w ws)
  then show ?case
    by (cases "ws = []") (simp_all add: str_join_Cons split_char_append split_char_no)
qed simp

lemma pieces_append_sep: "pieces (a @ SLASH # b) = pieces a @ pieces b"
  by (simp add: pieces_def split_char_append)

lemma pieces_Nil [simp]: "pieces [] = []"
  by (simp add: pieces_def counted_def)

lemma pieces_not_root: "RootDir \<notin> set (pieces s)" "CurDir \<notin> set (pieces s)"
  by (auto simp: pieces_def piece_def)

lemma hd_split_char_append: "a \<noteq> [] \<Longrightarrow> hd (split_char d (a @ d # b)) = hd (split_char d a)"
  by (simp add: split_char_append)

lemma components_join:
  assumes "\<not> is_absolute b" "a \<noteq> []"
  shows "components (path_join a b) = components a @ pieces b"
proof (cases "last a = SLASH")
  case True
  then obtain a' where a: "a = a' @ [SLASH]" using assms(2) by (metis append_butlast_last_id)
  have "hd (split_char SLASH (a' @ SLASH # b)) = hd (split_char SLASH (a' @ [SLASH]))"
    using split_char_append[of SLASH a' b] split_char_append[of SLASH a' "[]"] by simp
  moreover have "is_absolute (a' @ SLASH # b) = is_absolute (a' @ [SLASH])"
    by (cases a') (auto simp: is_absolute_def)
  moreover have "pieces (a' @ SLASH # b) = pieces (a' @ [SLASH]) @ pieces b"
    using pieces_append_sep[of a' b] pieces_append_sep[of a' "[]"] by simp
  ultimately show ?thesis using assms True
    by (simp add: path_join_def components_def a)
next
  case False
  have "is_absolute (a @ SLASH # b) = is_absolute a"
    using assms(2) by (cases a) (auto simp: is_absolute_def)
  then show ?thesis using assms False
    by (simp add: path_join_def components_def pieces_append_sep split_char_append)
qed

text \<open>A plain name, as \<open>file_name\<close> returns it.\<close>

definition plain_name :: "string \<Rightarrow> bool" where
  "plain_name s = (counted s \<and> s \<noteq> ''..'' \<and> SLASH \<notin> set s)"

lemma pieces_plain: "plain_name s \<Longrightarrow> pieces s = [Normal s]"
  by (simp add: pieces_def split_char_no plain_name_def piece_def)

lemma plain_not_absolute: "plain_name s \<Longrightarrow> \<not> is_absolute s"
  by (cases s) (auto simp: plain_name_def is_absolute_def)

lemma Normal_piece: "Normal s \<in> set (pieces p) \<Longrightarrow> plain_name s"
  using split_char_no_sep[of _ SLASH p]
  by (auto simp: pieces_def piece_def plain_name_def split: if_splits)

lemma Normal_component: "Normal s \<in> set (components p) \<Longrightarrow> plain_name s"
  by (auto simp: components_def Normal_piece split: if_splits)

lemma file_name_plain: "file_name p = Some s \<Longrightarrow> plain_name s"
proof -
  assume "file_name p = Some s"
  then have "Normal s \<in> set (rev (components p))"
    by (auto simp: file_name_def split: list.splits component.splits)
  then show ?thesis by (intro Normal_component) simp
qed

lemma components_join_plain:
  "plain_name s \<Longrightarrow> a \<noteq> [] \<Longrightarrow> components (path_join a s) = components a @ [Normal s]"
  by (simp add: components_join plain_not_absolute pieces_plain)

text \<open>\<open>path_of\<close> is a right inverse of \<open>components\<close> on the lists that \<open>components\<close> produces.\<close>

definition inner_component :: "component \<Rightarrow> bool" where
  "inner_component c = (c = ParentDir \<or> (\<exists>s. c = Normal s \<and> plain_name s))"

lemma inner_pieces: "c \<in> set (pieces p) \<Longrightarrow> inner_component c"
  using pieces_not_root[of p] Normal_piece[of _ p] by (cases c) (auto simp: inner_component_def)

lemma inner_str: "inner_component c \<Longrightarrow> SLASH \<notin> set (component_str c) \<and> counted (component_str c)
    \<and> piece (component_str c) = c"
  by (auto simp: inner_component_def plain_name_def piece_def SLASH_def counted_def)

lemma pieces_join_inner:
  assumes "\<forall>c \<in> set cs. inner_component c"
  shows "pieces (str_join [SLASH] (map component_str cs)) = cs"
proof (cases "cs = []")
  case False
  then have "split_char SLASH (str_join [SLASH] (map component_str cs)) = map component_str cs"
    using assms inner_str by (intro split_char_join) auto
  moreover have "filter counted (map component_str cs) = map component_str cs"
    using assms inner_str by (auto simp: filter_id_conv)
  ultimately show ?thesis
    using assms inner_str by (auto simp: pieces_def comp_def intro: map_idI)
qed (simp add: str_join.simps)

lemma components_root: "\<forall>c \<in> set cs. inner_component c \<Longrightarrow> components (path_of (RootDir # cs)) = RootDir # cs"
  using pieces_join_inner[of cs] pieces_append_sep[of "[]" "str_join [SLASH] (map component_str cs)"]
  by (simp add: components_def is_absolute_def)

lemma components_absolute: "is_absolute p \<Longrightarrow> \<exists>cs. components p = RootDir # cs \<and> (\<forall>c \<in> set cs. inner_component c)"
  using inner_pieces[of _ p] by (auto simp: components_def)

lemma parent_absolute:
  assumes "is_absolute p" "parent p = Some q"
  shows "components q = butlast (components p)" "is_absolute q"
proof -
  obtain cs where cs: "components p = RootDir # cs" "\<forall>c \<in> set cs. inner_component c"
    using components_absolute[OF assms(1)] by blast
  have "cs \<noteq> []" using assms(2) cs(1) by (auto simp: parent_def)
  then obtain ds d where ds: "cs = ds @ [d]" by (metis append_butlast_last_id)
  have "d \<noteq> RootDir" using cs(2) ds by (auto simp: inner_component_def)
  then have q: "q = path_of (RootDir # ds)"
    using assms(2) cs(1) ds by (cases d) (simp_all add: parent_def)
  show "components q = butlast (components p)"
    using components_root[of ds] cs ds by (simp add: q)
  show "is_absolute q" by (simp add: q is_absolute_def)
qed

lemma hd_split_join: "\<forall>w \<in> set (w # ws). d \<notin> set w \<Longrightarrow> hd (split_char d (str_join [d] (w # ws))) = w"
  using split_char_join[of "w # ws" d] by simp

lemma inner_head: "inner_component c \<Longrightarrow> \<not> is_absolute (component_str c @ s)"
  using inner_str[of c] by (cases "component_str c") (auto simp: is_absolute_def counted_def)

lemma path_of_inner: "inner_component c \<Longrightarrow> path_of (c # cs) = str_join [SLASH] (map component_str (c # cs))"
  by (cases c) (auto simp: inner_component_def)

lemma components_inner:
  assumes "\<forall>c \<in> set cs. inner_component c"
  shows "components (path_of cs) = cs"
proof (cases cs)
  case Nil
  then show ?thesis by (simp add: components_def is_absolute_def)
next
  case (Cons c ds)
  let ?p = "str_join [SLASH] (map component_str cs)"
  have "\<not> is_absolute ?p"
    using inner_head[of c] inner_head[of c "[]"] assms Cons by (cases ds) (auto simp: str_join_Cons)
  moreover have "hd (split_char SLASH ?p) = component_str c"
    using hd_split_join[of "component_str c" "map component_str ds" SLASH] assms inner_str Cons
    by fastforce
  moreover have "component_str c \<noteq> ''.''" using inner_str[of c] assms Cons by (simp add: counted_def)
  ultimately have "components ?p = cs" using pieces_join_inner[OF assms] by (simp add: components_def)
  moreover have "path_of cs = ?p" using path_of_inner[of c ds] assms Cons by simp
  ultimately show ?thesis by simp
qed

lemma components_curdir:
  assumes "\<forall>c \<in> set cs. inner_component c"
  shows "components (path_of (CurDir # cs)) = CurDir # cs"
proof (cases "cs = []")
  case True
  then show ?thesis by (simp add: components_def is_absolute_def SLASH_def pieces_def counted_def)
next
  case False
  let ?q = "str_join [SLASH] (map component_str cs)"
  have p: "path_of (CurDir # cs) = ''.'' @ SLASH # ?q"
    using False by (simp add: str_join_Cons)
  have "components (''.'' @ SLASH # ?q) = CurDir # pieces ?q"
    unfolding components_def pieces_append_sep split_char_append
    by (simp add: is_absolute_def SLASH_def pieces_def counted_def)
  then show ?thesis unfolding p using pieces_join_inner[OF assms] by simp
qed

lemma components_path_of: "components p = cs @ ds \<Longrightarrow> components (path_of cs) = cs"
proof (cases cs)
  case Nil
  then show ?thesis using components_inner[of "[]"] by simp
next
  case (Cons c es)
  assume eq: "components p = cs @ ds"
  have tl: "\<forall>d \<in> set es. inner_component d"
    using inner_pieces[of _ p] eq Cons by (auto simp: components_def split: if_splits)
  have "c = RootDir \<or> c = CurDir \<or> inner_component c"
    using inner_pieces[of _ p] eq Cons by (auto simp: components_def split: if_splits)
  then show ?thesis
    using components_root[OF tl] components_curdir[OF tl] components_inner[of "c # es"] tl Cons by auto
qed

lemma parent_components:
  assumes "parent p = Some q"
  shows "components p \<noteq> [] \<and> components q = butlast (components p)"
proof (cases "components p" rule: rev_cases)
  case (snoc cs c)
  then have "q = path_of cs" using assms by (cases c) (auto simp: parent_def)
  with components_path_of[OF snoc] snoc show ?thesis by simp
qed (use assms in \<open>simp add: parent_def\<close>)

end
