(* ===== verification/Sandbox_Path.thy ===== *)
theory Sandbox_Path
  imports Rust_Path
begin

section \<open>The sandbox: paths\<close>

text \<open>
  \<open>loopal-config/src/sandbox.rs\<close>, \<open>loopal-sandbox/src/policy.rs\<close>, \<open>path_checker.rs\<close> and
  \<open>loopal-backend/src/path.rs\<close>. The operating system's \<open>canonicalize\<close> and the package \<open>globset\<close>
  are arguments. The lemmas show that a path the check lets through for writing really lies in a
  writable directory: the path it compares has no \<open>..\<close> left, whether or not the file exists.
\<close>

subsection \<open>Configuration\<close>

datatype sandbox_policy = Disabled | WorkspaceWrite | ReadOnly

record network_policy =
  allowed_domains :: "string list"
  denied_domains :: "string list"

record file_system_policy =
  allow_write :: "string list"
  deny_write :: "string list"
  deny_read :: "string list"

record sandbox_config =
  config_policy :: sandbox_policy
  filesystem :: file_system_policy
  config_network :: network_policy

record resolved_policy =
  policy :: sandbox_policy
  writable_paths :: "string list"
  deny_write_globs :: "string list"
  deny_read_globs :: "string list"
  network :: network_policy

datatype path_decision = Allow | DenyWrite string | DenyRead string

text \<open>\<open>globset\<close>: which patterns are valid, whether a set builds, and what a pattern matches.\<close>

record glob_lib =
  glob_valid :: "string \<Rightarrow> bool"
  set_builds :: "string list \<Rightarrow> bool"
  glob_matches :: "string \<Rightarrow> string \<Rightarrow> bool"

definition build_glob_set :: "glob_lib \<Rightarrow> string list \<Rightarrow> string list" where
  "build_glob_set lib patterns =
     (let valid = filter (glob_valid lib) patterns
      in if set_builds lib valid then valid else [])"

definition check_deny_globs :: "glob_lib \<Rightarrow> string \<Rightarrow> string list \<Rightarrow> string \<Rightarrow> string option" where
  "check_deny_globs lib path globs operation =
     (if list_ex (\<lambda>g. glob_matches lib g path) (build_glob_set lib globs)
      then Some (operation @ '' denied by glob pattern: '' @ path) else None)"

definition is_under_writable :: "string \<Rightarrow> string list \<Rightarrow> bool" where
  "is_under_writable path writable = list_ex (\<lambda>wp. starts_with path wp) writable"

subsection \<open>Canonical paths\<close>

lemma parent_shorter: "parent p = Some q \<Longrightarrow> length (components q) < length (components p)"
  using parent_components[of p q] by auto

text \<open>The loop that walks up to the deepest ancestor that exists.\<close>

function canon_walk ::
  "(string \<Rightarrow> string option) \<Rightarrow> string \<Rightarrow> string list \<Rightarrow> string option" where
  "canon_walk canon current ancestors =
     (case canon current of
        Some c \<Rightarrow> Some (foldl path_join c (rev ancestors))
      | None \<Rightarrow>
          (case file_name current of
             None \<Rightarrow> None
           | Some name \<Rightarrow>
               (case parent current of
                  None \<Rightarrow> None
                | Some up \<Rightarrow> canon_walk canon up (ancestors @ [name]))))"
  by pat_completeness auto
termination
  by (relation "measure (\<lambda>(canon, current, ancestors). length (components current))")
    (auto simp: parent_shorter)

declare canon_walk.simps [simp del]

definition resolve_canonical :: "(string \<Rightarrow> string option) \<Rightarrow> string \<Rightarrow> string + string" where
  "resolve_canonical canon path =
     (case canon path of
        Some c \<Rightarrow> Inr c
      | None \<Rightarrow>
          (case canon_walk canon path [] of
             Some r \<Rightarrow> Inr r
           | None \<Rightarrow>
               if contains path ''..'' then Inl (''path contains '' @ [CHR 0x27] @ ''..'' @ [CHR 0x27] @ '': '' @ path)
               else Inr path))"

definition check_path ::
  "(string \<Rightarrow> string option) \<Rightarrow> glob_lib \<Rightarrow> resolved_policy \<Rightarrow> string \<Rightarrow> bool \<Rightarrow> path_decision" where
  "check_path canon lib pol path is_write =
     (if policy pol = Disabled then Allow
      else case resolve_canonical canon path of
        Inl reason \<Rightarrow> DenyWrite reason
      | Inr canonical \<Rightarrow>
          (case check_deny_globs lib canonical (deny_read_globs pol) ''read'' of
             Some reason \<Rightarrow> DenyRead reason
           | None \<Rightarrow>
               if \<not> is_write then Allow
               else if policy pol = ReadOnly then DenyWrite ''read-only sandbox: all writes are blocked''
               else case check_deny_globs lib canonical (deny_write_globs pol) ''write'' of
                      Some reason \<Rightarrow> DenyWrite reason
                    | None \<Rightarrow>
                        if is_under_writable canonical (writable_paths pol) then Allow
                        else DenyWrite (''path outside writable directories: '' @ canonical)))"

definition SENSITIVE_FILE_GLOBS :: "string list" where
  "SENSITIVE_FILE_GLOBS =
     [''**/.env'', ''**/.env.*'', ''**/.env.local'', ''**/.env.production'', ''**/credentials.json'',
      ''**/service-account*.json'', ''**/*.pem'', ''**/*.key'', ''**/*.p12'', ''**/*.pfx'',
      ''**/*.keystore'', ''**/*.jks'', ''**/*secret*'', ''**/.ssh/*'', ''**/.gnupg/*'',
      ''**/.aws/credentials'', ''**/.azure/accessTokens.json'', ''**/.config/gcloud/**'',
      ''**/.npmrc'', ''**/.pypirc'', ''**/.docker/config.json'', ''**/.kube/config'',
      ''**/id_rsa*'', ''**/id_ed25519*'', ''**/id_ecdsa*'', ''**/.git/config'', ''**/.netrc'',
      ''**/.htpasswd'', ''**/*.sqlite'', ''**/*.db'']"

text \<open>\<open>tmpdir\<close> is the variable \<open>TMPDIR\<close>, \<open>temp\<close> what \<open>std::env::temp_dir\<close> answers.\<close>

definition add_canonical :: "(string \<Rightarrow> string option) \<Rightarrow> string list \<Rightarrow> string \<Rightarrow> string list" where
  "add_canonical canon paths p = paths @ [case canon p of Some c \<Rightarrow> c | None \<Rightarrow> p]"

definition resolve_policy ::
  "(string \<Rightarrow> string option) \<Rightarrow> string option \<Rightarrow> string \<Rightarrow> sandbox_config \<Rightarrow> string \<Rightarrow> resolved_policy" where
  "resolve_policy canon tmpdir temp config cwd =
     (if config_policy config = Disabled then
        \<lparr>policy = Disabled, writable_paths = [], deny_write_globs = [], deny_read_globs = [],
         network = config_network config\<rparr>
      else
        let paths = add_canonical canon [] cwd;
            paths = (case tmpdir of Some t \<Rightarrow> add_canonical canon paths t | None \<Rightarrow> paths);
            paths = add_canonical canon paths temp;
            paths = foldl (\<lambda>ps pattern. add_canonical canon ps
                       (if is_absolute pattern then pattern else path_join cwd pattern))
                     paths (allow_write (filesystem config))
        in \<lparr>policy = config_policy config, writable_paths = paths,
            deny_write_globs = SENSITIVE_FILE_GLOBS @ deny_write (filesystem config),
            deny_read_globs = deny_read (filesystem config),
            network = config_network config\<rparr>)"

subsection \<open>The backend's own resolution\<close>

datatype path_error = PathDenied string | PermissionDenied string

definition to_absolute :: "string \<Rightarrow> string \<Rightarrow> string" where
  "to_absolute cwd raw = (if is_absolute raw then raw else path_join cwd raw)"

definition contained :: "(string \<Rightarrow> string option) \<Rightarrow> string \<Rightarrow> string \<Rightarrow> string \<Rightarrow> path_error + string" where
  "contained canon cwd path message =
     (case resolve_canonical canon path of
        Inl e \<Rightarrow> Inl (PathDenied e)
      | Inr canonical \<Rightarrow>
          if starts_with canonical cwd then Inr canonical
          else Inl (PathDenied (message @ canonical)))"

definition check_with_policy ::
  "(string \<Rightarrow> string option) \<Rightarrow> glob_lib \<Rightarrow> resolved_policy \<Rightarrow> string \<Rightarrow> bool \<Rightarrow> path_error + string" where
  "check_with_policy canon lib pol path is_write =
     (case check_path canon lib pol path is_write of
        Allow \<Rightarrow> Inr path
      | DenyWrite reason \<Rightarrow> Inl (PermissionDenied reason)
      | DenyRead reason \<Rightarrow> Inl (PermissionDenied reason))"

definition resolve ::
  "(string \<Rightarrow> string option) \<Rightarrow> glob_lib \<Rightarrow> string \<Rightarrow> string \<Rightarrow> bool \<Rightarrow> resolved_policy option
     \<Rightarrow> path_error + string" where
  "resolve canon lib cwd raw is_write pol =
     (let path = to_absolute cwd raw
      in case pol of
           Some p \<Rightarrow> check_with_policy canon lib p path is_write
         | None \<Rightarrow>
             if \<not> is_absolute raw then contained canon cwd path ''path escapes working directory: ''
             else if is_write then contained canon cwd path ''write to path outside working directory: ''
             else Inr path)"

subsection \<open>What canonicalize promises\<close>

text \<open>The documented result of \<open>std::fs::canonicalize\<close>: absolute, all components normalized.\<close>

definition canonical_path :: "string \<Rightarrow> bool" where
  "canonical_path p = (p \<noteq> [] \<and> ParentDir \<notin> set (components p))"

definition canonicalizes :: "(string \<Rightarrow> string option) \<Rightarrow> bool" where
  "canonicalizes canon = (\<forall>p c. canon p = Some c \<longrightarrow> is_absolute c \<and> canonical_path c)"

lemma join_plain_canonical: "plain_name s \<Longrightarrow> canonical_path a \<Longrightarrow> canonical_path (path_join a s)"
  by (auto simp: canonical_path_def components_join_plain)
    (simp add: path_join_def plain_not_absolute split: if_splits)

lemma foldl_join_canonical:
  "canonical_path c \<Longrightarrow> \<forall>s \<in> set names. plain_name s \<Longrightarrow> canonical_path (foldl path_join c names)"
  by (induction names arbitrary: c) (auto intro: join_plain_canonical)

lemma canon_walk_canonical:
  "canon_walk canon current names = Some r \<Longrightarrow> canonicalizes canon \<Longrightarrow>
     \<forall>s \<in> set names. plain_name s \<Longrightarrow> canonical_path r"
proof (induction canon current names rule: canon_walk.induct)
  case (1 canon current names)
  show ?case
  proof (cases "canon current")
    case (Some c)
    with "1.prems" have "r = foldl path_join c (rev names)" "canonical_path c"
      by (simp_all add: canon_walk.simps[of canon current] canonicalizes_def)
    then show ?thesis using "1.prems"(3) by (simp add: foldl_join_canonical)
  next
    case None
    then obtain name up where n: "file_name current = Some name" "parent current = Some up"
      "canon_walk canon up (names @ [name]) = Some r"
      using "1.prems"(1) by (simp add: canon_walk.simps[of canon current] split: option.splits)
    show ?thesis
      by (rule "1.IH"[OF None n(1,2,3)]) (use "1.prems" file_name_plain[OF n(1)] in auto)
  qed
qed

lemma split_char_contains: "w \<in> set (split_char d s) \<Longrightarrow> contains s w"
proof -
  assume "w \<in> set (split_char d s)"
  then obtain us vs where "split_char d s = us @ w # vs" by (auto simp: in_set_conv_decomp)
  moreover have "contains (str_join [d] (us @ w # vs)) w" for us vs
  proof (induction us)
    case Nil
    then show ?case
      using contains_self[of "[]" w] contains_self[of "[]" w "[]"] by (cases vs) (auto simp: str_join_Cons contains_append1)
  next
    case (Cons u us)
    then show ?case
      using contains_append2[of "str_join [d] (us @ w # vs)" w "u @ [d]"] by (simp add: str_join_Cons)
  qed
  ultimately show ?thesis by (metis str_join_split_char)
qed

lemma no_dotdot: "\<not> contains p ''..'' \<Longrightarrow> ParentDir \<notin> set (components p)"
  using split_char_contains[of "''..''" SLASH p]
  by (auto simp: components_def pieces_def piece_def split: if_splits)

lemma resolve_canonical_ok:
  "resolve_canonical canon path = Inr r \<Longrightarrow> canonicalizes canon \<Longrightarrow> ParentDir \<notin> set (components r)"
  using canon_walk_canonical[of canon path "[]"] no_dotdot[of path]
  by (auto simp: resolve_canonical_def canonicalizes_def canonical_path_def
      split: option.splits if_splits)

subsection \<open>Properties\<close>

text \<open>
  C7. A write the sandbox allows stays inside: with \<open>canonicalize\<close> as documented, when \<open>check_path\<close>
  allows a write under an enforced policy, the policy is not read-only, and the path that was
  compared has no parent component and extends a writable directory component by component, so
  the file, existing or not, lies below that directory.
\<close>

theorem allowed_write_is_inside:
  assumes "canonicalizes canon" "policy pol \<noteq> Disabled" "check_path canon lib pol path True = Allow"
  shows "policy pol = WorkspaceWrite
    \<and> (\<exists>c wp. resolve_canonical canon path = Inr c \<and> ParentDir \<notin> set (components c)
         \<and> wp \<in> set (writable_paths pol) \<and> prefix (components wp) (components c))"
proof -
  obtain c where c: "resolve_canonical canon path = Inr c"
    using assms(2,3) by (auto simp: check_path_def split: sum.splits)
  then have "policy pol \<noteq> ReadOnly" "is_under_writable c (writable_paths pol)"
    using assms(2,3) by (auto simp: check_path_def split: option.splits if_splits)
  with c resolve_canonical_ok[OF c assms(1)] assms(2) show ?thesis
    by (cases "policy pol") (auto simp: is_under_writable_def starts_with_def list_ex_iff)
qed

definition no_globs :: glob_lib where
  "no_globs = \<lparr>glob_valid = (\<lambda>_. True), set_builds = (\<lambda>_. True), glob_matches = (\<lambda>_ _. False)\<rparr>"

definition one_dir :: "string \<Rightarrow> string option" where
  "one_dir p = (if p = ''/w'' then Some ''/w'' else None)"

definition one_dir_policy :: resolved_policy where
  "one_dir_policy = \<lparr>policy = WorkspaceWrite, writable_paths = [''/w''], deny_write_globs = [],
     deny_read_globs = [], network = \<lparr>allowed_domains = [], denied_domains = []\<rparr>\<rparr>"

lemma one_dir_canonicalizes: "canonicalizes one_dir"
  by (auto simp: canonicalizes_def one_dir_def canonical_path_def is_absolute_def SLASH_def
      components_def pieces_def piece_def counted_def)

theorem allowed_write_is_inside_witness:
  "\<exists>c wp. resolve_canonical one_dir ''/w/new'' = Inr c \<and> ParentDir \<notin> set (components c)
         \<and> wp \<in> set (writable_paths one_dir_policy) \<and> prefix (components wp) (components c)"
proof -
  have "check_path one_dir no_globs one_dir_policy ''/w/new'' True = Allow"
    by code_simp
  then show ?thesis
    using allowed_write_is_inside[OF one_dir_canonicalizes, of one_dir_policy no_globs "''/w/new''"]
    by (simp add: one_dir_policy_def)
qed

text \<open>
  Sensitive files are never written: under the policy that \<open>resolve_policy\<close> makes of any
  enforced configuration, \<open>check_path\<close> refuses to write a path whose canonical form matches one of
  the built-in globs, whatever the configuration allows, provided the set of globs builds (when
  it does not, the code falls back to the empty set and refuses nothing).
\<close>

theorem sensitive_files_refused:
  assumes "config_policy config \<noteq> Disabled"
    and "pol = resolve_policy canon tmpdir temp config cwd"
    and "set_builds lib (filter (glob_valid lib) (deny_write_globs pol))"
    and "g \<in> set SENSITIVE_FILE_GLOBS" "glob_valid lib g"
    and "resolve_canonical canon path = Inr c" "glob_matches lib g c"
  shows "check_path canon lib pol path True \<noteq> Allow"
proof -
  have "g \<in> set (deny_write_globs pol)" and pol: "policy pol \<noteq> Disabled"
    using assms(1,2,4) by (auto simp: resolve_policy_def Let_def)
  then have "check_deny_globs lib c (deny_write_globs pol) ''write'' \<noteq> None"
    using assms(3,5,7) by (auto simp: check_deny_globs_def build_glob_set_def list_ex_iff)
  with pol show ?thesis
    by (auto simp: check_path_def assms(6) split: option.splits)
qed

definition pem_only :: glob_lib where
  "pem_only = \<lparr>glob_valid = (\<lambda>_. True), set_builds = (\<lambda>_. True),
     glob_matches = (\<lambda>g p. g = ''**/*.pem'' \<and> suffix ''.pem'' p)\<rparr>"

definition open_config :: sandbox_config where
  "open_config = \<lparr>config_policy = WorkspaceWrite,
     filesystem = \<lparr>allow_write = [''/''], deny_write = [], deny_read = []\<rparr>,
     config_network = \<lparr>allowed_domains = [], denied_domains = []\<rparr>\<rparr>"

theorem sensitive_files_refused_witness:
  "check_path one_dir pem_only (resolve_policy one_dir None ''/tmp'' open_config ''/w'') ''/w/a.pem'' True
     \<noteq> Allow"
proof (rule sensitive_files_refused[OF _ refl])
  show "''**/*.pem'' \<in> set SENSITIVE_FILE_GLOBS" by (simp add: SENSITIVE_FILE_GLOBS_def)
  show "resolve_canonical one_dir ''/w/a.pem'' = Inr ''/w/a.pem''" by code_simp
  show "glob_matches pem_only ''**/*.pem'' ''/w/a.pem''" by code_simp
qed (simp_all add: open_config_def pem_only_def)

text \<open>
  Without a sandbox policy the backend still confines: every relative path, and every path
  opened for writing, resolves to a path below the working directory with no parent component,
  or is denied.
\<close>

theorem resolve_confines:
  assumes "canonicalizes canon" "resolve canon lib cwd raw is_write None = Inr p"
    "is_write \<or> \<not> is_absolute raw"
  shows "prefix (components cwd) (components p) \<and> ParentDir \<notin> set (components p)"
  using assms resolve_canonical_ok[of canon "to_absolute cwd raw" p]
  by (auto simp: resolve_def contained_def Let_def starts_with_def split: sum.splits if_splits)

theorem resolve_confines_witness:
  "resolve one_dir no_globs ''/w'' ''sub/file'' True None = Inr ''/w/sub/file''
   \<and> prefix (components ''/w'') (components ''/w/sub/file'')
   \<and> ParentDir \<notin> set (components ''/w/sub/file'')"
proof -
  have r: "resolve one_dir no_globs ''/w'' ''sub/file'' True None = Inr ''/w/sub/file''" by code_simp
  then show ?thesis using resolve_confines[OF one_dir_canonicalizes r] by simp
qed

end
