(* ===== verification/Tool_Api.thy ===== *)
theory Tool_Api
  imports Json
begin

section \<open>What tools answer, and who may run them\<close>

text \<open>
  \<open>loopal-tool-api/src/tool.rs\<close> (\<open>ToolResult\<close>), \<open>permission.rs\<close>, and the I/O errors of
  \<open>loopal-error/src/io_error.rs\<close> that reach a tool. Permission levels are ordered by danger.
\<close>

record tool_result =
  result_text :: string
  result_error :: bool
  result_completion :: bool
  result_metadata :: "json option"

definition tool_success :: "string \<Rightarrow> tool_result" where
  "tool_success t = \<lparr>result_text = t, result_error = False, result_completion = False, result_metadata = None\<rparr>"

definition tool_error :: "string \<Rightarrow> tool_result" where
  "tool_error t = \<lparr>result_text = t, result_error = True, result_completion = False, result_metadata = None\<rparr>"

definition tool_completion :: "string \<Rightarrow> tool_result" where
  "tool_completion t = \<lparr>result_text = t, result_error = False, result_completion = True, result_metadata = None\<rparr>"

definition with_metadata :: "tool_result \<Rightarrow> json \<Rightarrow> tool_result" where
  "with_metadata r m = r\<lparr>result_metadata := Some m\<rparr>"

text \<open>The hard error of a tool, which the runtime turns into an error result.\<close>

datatype loopal_error = InvalidInput string | ExecutionFailed string

type_synonym tool_answer = "loopal_error + tool_result"

subsection \<open>Permission\<close>

datatype permission_level = Read_only | Supervised_level | Dangerous

datatype permission_mode = Bypass | Supervised_mode | Auto

datatype permission_decision = Decide_allow | Decide_ask | Decide_deny

fun permission_check :: "permission_mode \<Rightarrow> permission_level \<Rightarrow> permission_decision" where
  "permission_check Bypass level = Decide_allow"
| "permission_check Auto level =
     (case level of Read_only \<Rightarrow> Decide_allow | Supervised_level \<Rightarrow> Decide_allow | Dangerous \<Rightarrow> Decide_ask)"
| "permission_check Supervised_mode level =
     (case level of Read_only \<Rightarrow> Decide_allow | _ \<Rightarrow> Decide_ask)"

fun danger :: "permission_level \<Rightarrow> nat" where
  "danger Read_only = 0" | "danger Supervised_level = 1" | "danger Dangerous = 2"

fun caution :: "permission_decision \<Rightarrow> nat" where
  "caution Decide_allow = 0" | "caution Decide_ask = 1" | "caution Decide_deny = 2"

lemma danger_inj: "danger a = danger b \<Longrightarrow> a = b"
  by (cases a; cases b) auto

lemma caution_inj: "caution a = caution b \<Longrightarrow> a = b"
  by (cases a; cases b) auto

instantiation permission_level :: linorder
begin

definition less_eq_permission_level :: "permission_level \<Rightarrow> permission_level \<Rightarrow> bool" where
  "less_eq_permission_level a b = (danger a \<le> danger b)"

definition less_permission_level :: "permission_level \<Rightarrow> permission_level \<Rightarrow> bool" where
  "less_permission_level a b = (danger a < danger b)"

instance
  by standard (auto simp: less_eq_permission_level_def less_permission_level_def intro: danger_inj)

end

instantiation permission_decision :: linorder
begin

definition less_eq_permission_decision :: "permission_decision \<Rightarrow> permission_decision \<Rightarrow> bool" where
  "less_eq_permission_decision a b = (caution a \<le> caution b)"

definition less_permission_decision :: "permission_decision \<Rightarrow> permission_decision \<Rightarrow> bool" where
  "less_permission_decision a b = (caution a < caution b)"

instance
  by standard (auto simp: less_eq_permission_decision_def less_permission_decision_def intro: caution_inj)

end

text \<open>
  More danger is never treated with less caution, in any mode; the modes themselves are
  ordered (\<open>Bypass\<close> asks least, \<open>Supervised\<close> most); reading never asks; and the check of the mode
  alone never denies, so a denial is always the answer of a human, a classifier or a pre-check.
\<close>

theorem permission_check_monotone:
  "mono (permission_check m)
   \<and> permission_check Bypass l \<le> permission_check Auto l
   \<and> permission_check Auto l \<le> permission_check Supervised_mode l
   \<and> permission_check m Read_only = Decide_allow
   \<and> permission_check m l \<noteq> Decide_deny"
proof -
  have "mono (permission_check m)"
    by (rule monoI)
      (cases m; auto simp: less_eq_permission_level_def less_eq_permission_decision_def
        split: permission_level.split)
  then show ?thesis
    by (cases m; cases l) (simp_all add: less_eq_permission_decision_def)
qed

end
