(* ===== verification/Backend_Fs.thy ===== *)
theory Backend_Fs
  imports Sandbox_Path Tool_Api
begin

section \<open>The file operations of the backend\<close>

text \<open>
  \<open>loopal-backend/src/fs.rs\<close>, \<open>limits.rs\<close> and the file methods of \<open>local.rs\<close>. A disk is a map from
  the components of a path to the bytes of a file. What the operating system decides is an
  argument: which of its calls fails, what a failed write leaves behind, whether bytes are UTF-8.
  The lemmas show that a write is atomic under every pattern of failures.
\<close>

type_synonym disk = "component list \<Rightarrow> string option"

datatype io_call = Create_dir_all | Write_tmp | Open_tmp | Sync_tmp | Rename_tmp | Remove_tmp

record os =
  call_fails :: "io_call \<Rightarrow> bool"
  partial_write :: "string \<Rightarrow> string option"
  utf8_lossy :: "string \<Rightarrow> string"
  utf8_valid :: "string \<Rightarrow> bool"
  process_id :: nat

datatype io_error =
    Path_error path_error
  | NotFound string
  | TooLarge string nat nat
  | BinaryFile string
  | Io io_call
  | Invalid_utf8
  | Other string

record resource_limits =
  max_file_read_bytes :: nat
  max_output_lines :: nat
  max_output_bytes :: nat

definition default_limits :: resource_limits where
  "default_limits = \<lparr>max_file_read_bytes = 10 * 1024 * 1024, max_output_lines = 2000,
     max_output_bytes = 512000\<rparr>"

definition is_binary :: "string \<Rightarrow> bool" where
  "is_binary bytes = (CHR 0x00 \<in> set (take 8192 bytes))"

definition read_raw_file :: "os \<Rightarrow> resource_limits \<Rightarrow> disk \<Rightarrow> string \<Rightarrow> io_error + string" where
  "read_raw_file env limits d path =
     (case d (components path) of
        None \<Rightarrow> Inl (NotFound path)
      | Some bytes \<Rightarrow>
          if max_file_read_bytes limits < length bytes
          then Inl (TooLarge path (length bytes) (max_file_read_bytes limits))
          else if is_binary bytes then Inl (BinaryFile path)
          else Inr (utf8_lossy env bytes))"

subsection \<open>Reading a window of lines\<close>

definition pad_left :: "nat \<Rightarrow> string \<Rightarrow> string" where
  "pad_left n s = replicate (n - length s) (CHR '' '') @ s"

definition TAB :: char where "TAB = CHR 0x09"

definition numbered_line :: "nat \<Rightarrow> string \<Rightarrow> string" where
  "numbered_line n line = pad_left 6 (nat_str n) @ [TAB] @ line @ [NL]"

text \<open>
  \<open>lines[start..end]\<close> panics (\<open>None\<close>) when \<open>end < start\<close>, which the wrapping addition of the release
  build makes possible; \<open>usize\<close> is a 64-bit word.
\<close>

definition read_window :: "u64 \<Rightarrow> u64 \<Rightarrow> string list \<Rightarrow> (string \<times> nat) option" where
  "read_window offset limit lines =
     (let total_lines = word_of_nat (length lines);
          start = min offset total_lines;
          stop = min (start + limit) total_lines
      in if stop < start then None
         else Some (concat (map_idx (\<lambda>i line. numbered_line (unat start + i + 1) line)
                      (slice (unat start) (unat stop) lines)), length lines))"

definition read_file ::
  "os \<Rightarrow> resource_limits \<Rightarrow> disk \<Rightarrow> string \<Rightarrow> u64 \<Rightarrow> u64 \<Rightarrow> (io_error + string \<times> nat) option" where
  "read_file env limits d path offset limit =
     (case read_raw_file env limits d path of
        Inl e \<Rightarrow> Some (Inl e)
      | Inr content \<Rightarrow> map_option Inr (read_window offset limit (rust_lines content)))"

text \<open>
  A window of a file is exact when the two numbers do not overflow: line n of the file appears
  once, numbered, for the lines from the offset, at most \<open>limit\<close> of them; but a limit close to the
  largest machine integer makes the sum wrap, and the read panics although the window exists.
\<close>

theorem read_window_exact_or_panics:
  assumes "length lines < 2 ^ 64"
  shows "(unat (min offset (word_of_nat (length lines))) + unat limit < 2 ^ 64 \<longrightarrow>
      read_window offset limit lines =
        Some (concat (map_idx (\<lambda>i line. numbered_line (min (unat offset) (length lines) + i + 1) line)
                (take (unat limit) (drop (unat offset) lines))), length lines))
    \<and> (2 \<le> length lines \<longrightarrow> read_window 1 (- 1) lines = None)"
proof -
  let ?total = "word_of_nat (length lines) :: u64"
  have total: "unat ?total = length lines" using assms by (simp add: unat_of_nat)
  have start: "unat (min offset ?total) = min (unat offset) (length lines)"
    using total by (simp add: min_def word_le_nat_alt)
  have exact: "read_window offset limit lines =
        Some (concat (map_idx (\<lambda>i line. numbered_line (min (unat offset) (length lines) + i + 1) line)
                (take (unat limit) (drop (unat offset) lines))), length lines)"
    if small: "unat (min offset ?total) + unat limit < 2 ^ 64"
  proof -
    let ?start = "min (unat offset) (length lines)"
    have sum: "unat (min offset ?total + limit) = ?start + unat limit"
      using small start by (simp add: unat_add_small)
    have stop: "unat (min (min offset ?total + limit) ?total) = min (?start + unat limit) (length lines)"
      using sum total by (simp add: min_def word_le_nat_alt)
    have "\<not> min (min offset ?total + limit) ?total < min offset ?total"
      using stop start by (simp add: word_less_nat_alt)
    moreover have "slice ?start (min (?start + unat limit) (length lines)) lines
        = take (unat limit) (drop (unat offset) lines)"
    proof (cases "unat offset \<le> length lines")
      case True
      then show ?thesis by (cases "unat offset + unat limit \<le> length lines") (simp_all add: slice_def)
    qed (simp add: slice_def)
    ultimately show ?thesis
      by (simp only: read_window_def Let_def stop start if_False)
  qed
  have panics: "read_window 1 (- 1) lines = None" if "2 \<le> length lines"
  proof -
    have "min (1 :: u64) ?total = 1"
      using that total by (simp add: min_def word_le_nat_alt)
    then have "min (min 1 ?total + - 1) ?total < min 1 ?total"
      by (simp add: word_less_nat_alt)
    then show ?thesis by (simp only: read_window_def Let_def if_True)
  qed
  from exact panics show ?thesis by blast
qed

theorem read_window_exact_or_panics_witness:
  "read_window 1 (- 1) [''a'', ''b''] = None
   \<and> read_window 1 1 [''a'', ''b''] = Some (numbered_line (Suc 1) ''b'', Suc 1)"
  using read_window_exact_or_panics[of "[''a'', ''b'']" 1 1] by (simp add: min_def)

subsection \<open>Writing\<close>

definition tmp_name :: "os \<Rightarrow> string \<Rightarrow> string" where
  "tmp_name env path =
     ''.'' @ (case file_name path of Some n \<Rightarrow> n | None \<Rightarrow> []) @ ''.'' @ nat_str (process_id env) @ ''.loopal.tmp''"

text \<open>\<open>path.with_file_name(tmp_name)\<close>.\<close>

definition tmp_path :: "os \<Rightarrow> string \<Rightarrow> string" where
  "tmp_path env path =
     (let base = (case file_name path of
                    None \<Rightarrow> path
                  | Some _ \<Rightarrow> (case parent path of Some q \<Rightarrow> q | None \<Rightarrow> path))
      in path_join base (tmp_name env path))"

definition write_file :: "os \<Rightarrow> disk \<Rightarrow> string \<Rightarrow> string \<Rightarrow> (io_error + nat) \<times> disk" where
  "write_file env d path txt =
     (if parent path \<noteq> None \<and> call_fails env Create_dir_all then (Inl (Io Create_dir_all), d)
      else
        let tmp = components (tmp_path env path)
        in if call_fails env Write_tmp then (Inl (Io Write_tmp), d(tmp := partial_write env txt))
           else
             let d1 = d(tmp \<mapsto> txt)
             in if call_fails env Open_tmp then (Inl (Io Open_tmp), d1)
                else if call_fails env Sync_tmp then (Inl (Io Sync_tmp), d1)
                else if call_fails env Rename_tmp
                  then (Inl (Io Rename_tmp), if call_fails env Remove_tmp then d1 else d1(tmp := None))
                else (Inr (length txt), d1(tmp := None, components path \<mapsto> txt)))"

text \<open>The temporary file is another file.\<close>

lemma nat_str_no_slash: "SLASH \<notin> set (nat_str k)"
proof (induction k rule: nat_str.induct)
  case (1 n)
  have "digit d \<noteq> SLASH" if "d < 10" for d
  proof
    assume "digit d = SLASH"
    then have "digit_val SLASH = Some d" using digit_val_digit[OF that] by simp
    then show False by (simp add: digit_val_def SLASH_def)
  qed
  then show ?case using 1 by (subst nat_str.simps) (auto dest: sym)
qed

lemma tmp_name_plain: "file_name path = Some n \<Longrightarrow> plain_name (tmp_name env path)"
proof -
  assume n: "file_name path = Some n"
  then have "SLASH \<notin> set n" using file_name_plain by (auto simp: plain_name_def)
  then show ?thesis using n nat_str_no_slash[of "process_id env"]
    by (auto simp: tmp_name_def plain_name_def counted_def SLASH_def)
qed

lemma components_plain: "plain_name s \<Longrightarrow> components s = [Normal s]"
  by (simp add: components_def plain_not_absolute pieces_plain split_char_no plain_name_def counted_def)

lemma file_name_last: "file_name p = Some n \<Longrightarrow> \<exists>cs. components p = cs @ [Normal n]"
  by (cases "components p" rule: rev_cases) (auto simp: file_name_def split: component.splits)

lemma tmp_path_differs:
  assumes "file_name path = Some n"
  shows "components (tmp_path env path) \<noteq> components path"
proof -
  let ?t = "tmp_name env path"
  obtain cs where cs: "components path = cs @ [Normal n]" using file_name_last[OF assms] by blast
  have ends: "\<exists>ds. components (path_join base ?t) = ds @ [Normal ?t]" for base
    using components_join_plain[OF tmp_name_plain[OF assms], of base]
      components_plain[OF tmp_name_plain[OF assms]]
    by (cases "base = []") (auto simp: path_join_def)
  then obtain ds where ds: "components (tmp_path env path) = ds @ [Normal ?t]"
    unfolding tmp_path_def Let_def by blast
  have "length ?t \<noteq> length n" using assms by (simp add: tmp_name_def)
  then have "?t \<noteq> n" by blast
  then show ?thesis by (simp add: cs ds)
qed

lemma write_file_effect:
  assumes "file_name path = Some n" "write_file env d path txt = (r, d')"
  shows "(d' (components path) = (case r of Inr _ \<Rightarrow> Some txt | Inl _ \<Rightarrow> d (components path)))
    \<and> (\<forall>q. q \<noteq> components path \<and> q \<noteq> components (tmp_path env path) \<longrightarrow> d' q = d q)
    \<and> (\<forall>k. r = Inr k \<longrightarrow> k = length txt \<and> d' (components (tmp_path env path)) = None)"
  using assms(2) tmp_path_differs[OF assms(1), of env]
  by (auto simp: write_file_def Let_def split: if_splits)


definition no_faults :: os where
  "no_faults = \<lparr>call_fails = (\<lambda>_. False), partial_write = (\<lambda>_. None), utf8_lossy = (\<lambda>s. s),
     utf8_valid = (\<lambda>_. True), process_id = 7\<rparr>"


subsection \<open>Search and replace in a file\<close>

datatype search_replace_result = Replaced string | Not_found | Multiple_matches nat

definition search_replace :: "string \<Rightarrow> string \<Rightarrow> string \<Rightarrow> bool \<Rightarrow> search_replace_result" where
  "search_replace txt old_string new_string replace_every =
     (let n = match_count old_string txt
      in if n = 0 then Not_found
         else if \<not> replace_every \<and> 1 < n then Multiple_matches n
         else if replace_every then Replaced (replace_all old_string new_string txt)
         else Replaced (replace_first old_string new_string txt))"

definition edit_file ::
  "os \<Rightarrow> disk \<Rightarrow> string \<Rightarrow> string \<Rightarrow> string \<Rightarrow> bool \<Rightarrow> (io_error + nat) \<times> disk" where
  "edit_file env d path old new replace_every =
     (case d (components path) of
        None \<Rightarrow> (Inl (NotFound path), d)
      | Some txt \<Rightarrow>
          if \<not> utf8_valid env txt then (Inl Invalid_utf8, d)
          else case search_replace txt old new replace_every of
            Replaced new_content \<Rightarrow>
              (let n = (if replace_every then match_count old txt else 1)
               in case write_file env d path new_content of
                    (Inl e, d') \<Rightarrow> (Inl e, d')
                  | (Inr _, d') \<Rightarrow> (Inr n, d'))
          | Not_found \<Rightarrow> (Inl (Other ''old_string not found in file''), d)
          | Multiple_matches n \<Rightarrow>
              (Inl (Other (''old_string found '' @ nat_str n @ '' times ''
                 @ [CHR 0xE2, CHR 0x80, CHR 0x94] @ '' use replace_all or provide more context'')), d))"

text \<open>
  An edit changes exactly one place or says why not: without \<open>replace_all\<close> it succeeds only when
  the old text occurs once, and then the file is the text before it, the new text, and the text
  after it; on any failure the file is as it was.
\<close>

theorem edit_file_exact:
  assumes "file_name path = Some n" "d (components path) = Some txt" "old \<noteq> []"
    and "edit_file env d path old new False = (r, d')"
  shows "case r of
      Inr k \<Rightarrow> k = 1 \<and> match_count old txt = 1
        \<and> (\<exists>a b. txt = a @ old @ b \<and> d' (components path) = Some (a @ new @ b))
    | Inl _ \<Rightarrow> d' (components path) = Some txt"
proof (cases "utf8_valid env txt \<and> match_count old txt = 1")
  case True
  obtain a b where ab: "split_at_pat old txt = Some (a, b)"
    using True match_count_0[of old "txt"] by (cases "split_at_pat old txt") (auto simp: contains_def)
  obtain wr wd where w: "write_file env d path (a @ new @ b) = (wr, wd)" by (rule prod.exhaust)
  have rd: "(r, d') = (case wr of Inl e \<Rightarrow> (Inl e, wd) | Inr _ \<Rightarrow> (Inr 1, wd))"
    using True assms(2) w unfolding assms(4)[symmetric]
    by (cases wr) (simp_all add: edit_file_def search_replace_def replace_first_def ab)
  show ?thesis
    using rd write_file_effect[OF assms(1) w] True assms(2) split_at_pat_Some[OF ab]
    by (cases wr) auto
next
  case False
  then have "\<exists>e. (r, d') = (Inl e, d)"
    using assms(2,4) by (auto simp: edit_file_def search_replace_def Let_def split: if_splits)
  with assms(2) show ?thesis by auto
qed

theorem edit_file_exact_witness:
  "case edit_file no_faults [components ''/w/a'' \<mapsto> ''one two''] ''/w/a'' ''two'' ''2'' False of
     (r, d') \<Rightarrow> (case r of Inr k \<Rightarrow> k = 1 \<and> match_count ''two'' ''one two'' = 1
        \<and> (\<exists>a b. ''one two'' = a @ ''two'' @ b \<and> d' (components ''/w/a'') = Some (a @ ''2'' @ b))
       | Inl _ \<Rightarrow> d' (components ''/w/a'') = Some ''one two'')"
proof -
  have n: "file_name ''/w/a'' = Some ''a''" by code_simp
  show ?thesis
    using edit_file_exact[OF n, of "[components ''/w/a'' \<mapsto> ''one two'']" "''one two''" "''two''"
        no_faults "''2''"]
    by (cases "edit_file no_faults [components ''/w/a'' \<mapsto> ''one two''] ''/w/a'' ''two'' ''2'' False") simp
qed

end
