(* ===== verification/Edit_Tools.thy ===== *)
theory Edit_Tools
  imports Backend_Fs
begin

section \<open>The editing tools\<close>

text \<open>
  \<open>edit-core/src/omission_detector.rs\<close> and the tools \<open>edit\<close>, \<open>multi-edit\<close> and \<open>write\<close>. The tools
  reach the disk through the \<open>Backend\<close> trait; the interface \<open>file_backend\<close> states the two laws of
  it they depend on, and is interpreted by the local backend of \<open>Backend_Fs\<close>. \<open>lower\<close> is the
  Unicode lower case of the standard library.
\<close>

subsection \<open>Omissions\<close>

definition OMISSION_PATTERNS :: "string list" where
  "OMISSION_PATTERNS =
     [''// ... rest'', ''// ...rest'', ''// '' @ [CHR 0xE2, CHR 0x80, CHR 0xA6] @ '' rest'',
      ''// ... remaining'', ''// ...remaining'', ''# ... rest'', ''# ...rest'', ''# ... remaining'',
      ''/* ... */'', ''// ... existing code'', ''// ...existing code'', ''// ... keep'',
      ''// ... same as'', ''// ... unchanged'', ''// TODO: rest'', ''// [rest of'', ''// (rest of'',
      ''... (remaining'', ''... (rest of'', ''// ... other'', ''// ...other'']"

definition detect_omissions :: "(string \<Rightarrow> string) \<Rightarrow> string \<Rightarrow> string list" where
  "detect_omissions lower txt = filter (\<lambda>p. contains (lower txt) (lower p)) OMISSION_PATTERNS"

definition COMMA_SEP :: string where "COMMA_SEP = '', ''"

subsection \<open>The backend interface\<close>

locale file_backend =
  fixes read_raw :: "'d \<Rightarrow> string \<Rightarrow> string + string"
    and put :: "'d \<Rightarrow> string \<Rightarrow> string \<Rightarrow> (string + nat) \<times> 'd"
    and text_at :: "'d \<Rightarrow> string \<Rightarrow> string option"
    and regular :: "string \<Rightarrow> bool"
  assumes write_keeps: "regular p \<Longrightarrow> put d p t = (Inl e, d') \<Longrightarrow> text_at d' p = text_at d p"
    and write_stores: "regular p \<Longrightarrow> put d p t = (Inr n, d') \<Longrightarrow> text_at d' p = Some t \<and> n = length t"

subsection \<open>MultiEdit\<close>

text \<open>The loop over the edits; \<open>i\<close> is the index in the messages.\<close>

fun apply_edits ::
  "(string \<Rightarrow> string) \<Rightarrow> nat \<Rightarrow> string \<Rightarrow> (string \<times> string) list \<Rightarrow> string + string" where
  "apply_edits lower i current [] = Inr current"
| "apply_edits lower i current ((old_str, new_str) # rest) =
     (if detect_omissions lower new_str \<noteq> [] then
        Inl (''Edit '' @ nat_str i @ '': omission detected in new_string: ''
             @ str_join COMMA_SEP (detect_omissions lower new_str))
      else case match_count old_str current of
        0 \<Rightarrow> Inl (''Edit '' @ nat_str i @ '': old_string not found in current content'')
      | Suc 0 \<Rightarrow> apply_edits lower (i + 1) (replace_first old_str new_str current) rest
      | Suc (Suc n) \<Rightarrow> Inl (''Edit '' @ nat_str i @ '': old_string found '' @ nat_str (Suc (Suc n))
                         @ '' times; must be unique''))"

definition edit_strings :: "json \<Rightarrow> string \<times> string" where
  "edit_strings edit =
     ((case get_str edit ''old_string'' of Some s \<Rightarrow> s | None \<Rightarrow> []),
      (case get_str edit ''new_string'' of Some s \<Rightarrow> s | None \<Rightarrow> []))"

definition require_str :: "json \<Rightarrow> string \<Rightarrow> loopal_error + string" where
  "require_str input key =
     (case get_str input key of
        Some s \<Rightarrow> Inr s
      | None \<Rightarrow> Inl (InvalidInput (key @ '' is required'')))"

text \<open>The tool answers and the disk it leaves; the backend is an argument.\<close>

definition multi_edit_execute ::
  "('d \<Rightarrow> string \<Rightarrow> string + string) \<Rightarrow> ('d \<Rightarrow> string \<Rightarrow> string \<Rightarrow> (string + nat) \<times> 'd) \<Rightarrow>
   (string \<Rightarrow> string) \<Rightarrow> 'd \<Rightarrow> json \<Rightarrow> tool_answer \<times> 'd" where
  "multi_edit_execute read_raw put lower d input =
     (case require_str input ''file_path'' of
        Inl e \<Rightarrow> (Inl e, d)
      | Inr file_path \<Rightarrow>
          (case get_array input ''edits'' of
             None \<Rightarrow> (Inl (InvalidInput ''edits array is required''), d)
           | Some edits \<Rightarrow>
               if edits = [] then (Inr (tool_error ''edits array must not be empty''), d)
               else case read_raw d file_path of
                      Inl e \<Rightarrow> (Inr (tool_error e), d)
                    | Inr current \<Rightarrow>
                        (case apply_edits lower 0 current (map edit_strings edits) of
                           Inl message \<Rightarrow> (Inr (tool_error message), d)
                         | Inr updated \<Rightarrow>
                             (case put d file_path updated of
                                (Inl e, d') \<Rightarrow> (Inr (tool_error e), d')
                              | (Inr _, d') \<Rightarrow>
                                  (Inr (tool_success (''Applied '' @ nat_str (length edits)
                                     @ '' edit(s) to '' @ file_path)), d')))))"

text \<open>The edits one after another, each at the one place where it matches.\<close>

inductive edited :: "string \<Rightarrow> (string \<times> string) list \<Rightarrow> string \<Rightarrow> bool" where
  edited_none: "edited txt [] txt"
| edited_step: "\<lbrakk>match_count old (a @ old @ b) = 1; split_at_pat old (a @ old @ b) = Some (a, b);
                 edited (a @ new @ b) es txt'\<rbrakk>
                \<Longrightarrow> edited (a @ old @ b) ((old, new) # es) txt'"

inductive_cases edited_NilE: "edited txt [] txt'"

lemma match_count_empty: "match_count [] s = char_count s + 1"
  by (simp add: match_count.simps)

lemma split_when_found: "match_count old s = Suc n \<Longrightarrow> \<exists>a b. split_at_pat old s = Some (a, b)"
  using match_count_0[of old s] by (cases "split_at_pat old s") (auto simp: contains_def)

lemma apply_edits_edited: "apply_edits lower i current es = Inr updated \<Longrightarrow> edited current es updated"
proof (induction lower i current es rule: apply_edits.induct)
  case (1 lower i current)
  then show ?case by (auto intro: edited_none)
next
  case (2 lower i current old new rest)
  then have ok: "detect_omissions lower new = []" "match_count old current = Suc 0"
    by (auto split: if_splits nat.splits)
  obtain a b where ab: "split_at_pat old current = Some (a, b)" using split_when_found[OF ok(2)] by blast
  have cur: "current = a @ old @ b" using split_at_pat_Some[OF ab] .
  have "edited (a @ new @ b) rest updated"
    using 2 ok ab by (simp add: replace_first_def)
  then show ?case
    using ok(2) ab unfolding cur by (intro edited_step) simp_all
qed

lemma apply_edits_omission: "(old, new) \<in> set es \<Longrightarrow> apply_edits lower i current es = Inr updated \<Longrightarrow>
    detect_omissions lower new = []"
  by (induction lower i current es rule: apply_edits.induct) (auto split: if_splits nat.splits)

context file_backend
begin

lemma multi_edit_cases:
  assumes "regular p" "get_str input ''file_path'' = Some p"
    and "multi_edit_execute read_raw put lower d input = (answer, d')"
  shows "(\<exists>r. answer = Inr r \<and> \<not> result_error r \<and>
            (\<exists>edits current updated. get_array input ''edits'' = Some edits
               \<and> read_raw d p = Inr current \<and> edited current (map edit_strings edits) updated
               \<and> (\<forall>e \<in> set edits. detect_omissions lower (snd (edit_strings e)) = [])
               \<and> text_at d' p = Some updated))
       \<or> ((\<exists>e. answer = Inl e) \<or> (\<exists>r. answer = Inr r \<and> result_error r)) \<and> text_at d' p = text_at d p"
proof -
  have path: "require_str input ''file_path'' = Inr p" using assms(2) by (simp add: require_str_def)
  show ?thesis
  proof (cases "get_array input ''edits''")
    case None
    then show ?thesis using assms(3) path by (auto simp: multi_edit_execute_def)
  next
    case (Some edits)
    show ?thesis
    proof (cases "edits = []")
      case True
      then show ?thesis using assms(3) path Some by (auto simp: multi_edit_execute_def tool_error_def)
    next
      case ne: False
      show ?thesis
      proof (cases "read_raw d p")
        case (Inl e)
        then show ?thesis
          using assms(3) path Some ne by (auto simp: multi_edit_execute_def tool_error_def)
      next
        case (Inr current)
        note read = this
        show ?thesis
        proof (cases "apply_edits lower 0 current (map edit_strings edits)")
          case (Inl m)
          then show ?thesis
            using assms(3) path Some ne read by (auto simp: multi_edit_execute_def tool_error_def)
        next
          case (Inr updated)
          obtain wr wd where w: "put d p updated = (wr, wd)" by (rule prod.exhaust)
          have om: "\<forall>e \<in> set edits. detect_omissions lower (snd (edit_strings e)) = []"
          proof
            fix e assume "e \<in> set edits"
            then have "(fst (edit_strings e), snd (edit_strings e)) \<in> set (map edit_strings edits)" by simp
            then show "detect_omissions lower (snd (edit_strings e)) = []"
              by (rule apply_edits_omission[OF _ Inr])
          qed
          show ?thesis
          proof (cases wr)
            case (Inl e)
            then show ?thesis
              using assms(3) path Some ne read \<open>apply_edits _ _ _ _ = _\<close> w write_keeps[OF assms(1)]
              by (auto simp: multi_edit_execute_def tool_error_def)
          next
            case (Inr n)
            then show ?thesis
              using assms(3) path Some ne read \<open>apply_edits _ _ _ _ = _\<close> w
                write_stores[OF assms(1)] apply_edits_edited om
              by (auto simp: multi_edit_execute_def tool_success_def)
          qed
        qed
      qed
    qed
  qed
qed

end

subsection \<open>The local backend provides it\<close>

text \<open>\<open>LocalBackend::read_raw\<close> and \<open>write\<close>: resolve the path, then the disk operation.\<close>

record local_backend =
  backend_env :: os
  backend_canon :: "string \<Rightarrow> string option"
  backend_globs :: glob_lib
  backend_cwd :: string
  backend_policy :: "resolved_policy option"
  backend_limits :: resource_limits

fun path_error_text :: "path_error \<Rightarrow> string" where
  "path_error_text (PathDenied m) = ''path denied: '' @ m"
| "path_error_text (PermissionDenied m) = ''permission denied: '' @ m"

text \<open>The text of an error of the operating system is its own; \<open>describe\<close> stands for it.\<close>

fun io_error_text :: "(io_call \<Rightarrow> string) \<Rightarrow> io_error \<Rightarrow> string" where
  "io_error_text describe (Path_error e) = path_error_text e"
| "io_error_text describe (NotFound p) = ''not found: '' @ p"
| "io_error_text describe (TooLarge p n l) =
     ''file too large: '' @ p @ '' ('' @ nat_str n @ '' bytes, limit '' @ nat_str l @ '')''"
| "io_error_text describe (BinaryFile p) = ''binary file: '' @ p"
| "io_error_text describe (Io c) = describe c"
| "io_error_text describe Invalid_utf8 = ''stream did not contain valid UTF-8''"
| "io_error_text describe (Other m) = m"

definition backend_resolve :: "local_backend \<Rightarrow> string \<Rightarrow> bool \<Rightarrow> path_error + string" where
  "backend_resolve b p is_write =
     resolve (backend_canon b) (backend_globs b) (backend_cwd b) p is_write (backend_policy b)"

definition backend_read_raw :: "local_backend \<Rightarrow> disk \<Rightarrow> string \<Rightarrow> io_error + string" where
  "backend_read_raw b d p =
     (case backend_resolve b p False of
        Inl e \<Rightarrow> Inl (Path_error e)
      | Inr resolved \<Rightarrow> read_raw_file (backend_env b) (backend_limits b) d resolved)"

definition backend_write :: "local_backend \<Rightarrow> disk \<Rightarrow> string \<Rightarrow> string \<Rightarrow> (io_error + nat) \<times> disk" where
  "backend_write b d p txt =
     (case backend_resolve b p True of
        Inl e \<Rightarrow> (Inl (Path_error e), d)
      | Inr resolved \<Rightarrow> write_file (backend_env b) d resolved txt)"

definition backend_edit ::
  "local_backend \<Rightarrow> disk \<Rightarrow> string \<Rightarrow> string \<Rightarrow> string \<Rightarrow> bool \<Rightarrow> (io_error + nat) \<times> disk" where
  "backend_edit b d p old new replace_every =
     (case backend_resolve b p True of
        Inl e \<Rightarrow> (Inl (Path_error e), d)
      | Inr resolved \<Rightarrow> edit_file (backend_env b) d resolved old new replace_every)"

text \<open>What a tool sees: errors as their text.\<close>

definition shown :: "(io_call \<Rightarrow> string) \<Rightarrow> io_error + 'a \<Rightarrow> string + 'a" where
  "shown describe r = (case r of Inl e \<Rightarrow> Inl (io_error_text describe e) | Inr x \<Rightarrow> Inr x)"

definition backend_file :: "local_backend \<Rightarrow> disk \<Rightarrow> string \<Rightarrow> string option" where
  "backend_file b d p = (case backend_resolve b p True of Inl _ \<Rightarrow> None | Inr r \<Rightarrow> d (components r))"

definition writes_to_a_name :: "local_backend \<Rightarrow> string \<Rightarrow> bool" where
  "writes_to_a_name b p = (case backend_resolve b p True of Inl _ \<Rightarrow> True | Inr r \<Rightarrow> file_name r \<noteq> None)"

lemma write_file_result:
  assumes "file_name path = Some n"
  shows "fst (write_file env d path txt) = Inl e \<Longrightarrow>
           snd (write_file env d path txt) (components path) = d (components path)"
    and "fst (write_file env d path txt) = Inr k \<Longrightarrow>
           snd (write_file env d path txt) (components path) = Some txt \<and> k = length txt"
  using write_file_effect[OF assms prod.collapse[symmetric], of env d "txt"] by simp_all

interpretation local_files: file_backend
  "\<lambda>d p. shown describe (backend_read_raw b d p)"
  "\<lambda>d p t. (shown describe (fst (backend_write b d p t)), snd (backend_write b d p t))"
  "backend_file b" "writes_to_a_name b"
  for describe :: "io_call \<Rightarrow> string" and b :: local_backend
proof (unfold_locales, goal_cases)
  case (1 p d t e d')
  then show ?case
    by (auto simp: backend_write_def backend_file_def writes_to_a_name_def shown_def
        write_file_result(1) split: sum.splits)
next
  case (2 p d t n d')
  then show ?case
    by (auto simp: backend_write_def backend_file_def writes_to_a_name_def shown_def
        write_file_result(2) split: sum.splits)
qed

subsection \<open>Properties\<close>

definition multi_edit ::
  "(io_call \<Rightarrow> string) \<Rightarrow> local_backend \<Rightarrow> (string \<Rightarrow> string) \<Rightarrow> disk \<Rightarrow> json \<Rightarrow> tool_answer \<times> disk" where
  "multi_edit describe b lower d input =
     multi_edit_execute (\<lambda>d p. shown describe (backend_read_raw b d p))
       (\<lambda>d p t. (shown describe (fst (backend_write b d p t)), snd (backend_write b d p t)))
       lower d input"


definition plain_backend :: local_backend where
  "plain_backend = \<lparr>backend_env = no_faults, backend_canon = one_dir, backend_globs = no_globs,
     backend_cwd = ''/w'', backend_policy = None,
     backend_limits = \<lparr>max_file_read_bytes = 9, max_output_lines = 9, max_output_bytes = 9\<rparr>\<rparr>"

definition two_edits :: json where
  "two_edits = JObj [(''file_path'', JStr ''a''), (''edits'', JArr
     [JObj [(''old_string'', JStr ''x''), (''new_string'', JStr ''y'')],
      JObj [(''old_string'', JStr ''y''), (''new_string'', JStr ''z'')]])]"


text \<open>The tools \<open>Edit\<close> and \<open>Write\<close>.\<close>

definition edit_execute ::
  "(io_call \<Rightarrow> string) \<Rightarrow> local_backend \<Rightarrow> (string \<Rightarrow> string) \<Rightarrow> disk \<Rightarrow> json \<Rightarrow> tool_answer \<times> disk" where
  "edit_execute describe b lower d input =
     (case require_str input ''file_path'' of
        Inl e \<Rightarrow> (Inl e, d)
      | Inr file_path \<Rightarrow>
     (case require_str input ''old_string'' of
        Inl e \<Rightarrow> (Inl e, d)
      | Inr old_string \<Rightarrow>
     (case require_str input ''new_string'' of
        Inl e \<Rightarrow> (Inl e, d)
      | Inr new_string \<Rightarrow>
          (let replace_every = (case get_bool input ''replace_all'' of Some v \<Rightarrow> v | None \<Rightarrow> False);
               omissions = detect_omissions lower new_string
           in if omissions \<noteq> [] then
                (Inr (tool_error (''Omission detected in new_string. The following patterns suggest code was skipped: ''
                   @ str_join COMMA_SEP omissions @ ''. Please provide the complete replacement text.'')), d)
              else case backend_edit b d file_path old_string new_string replace_every of
                     (Inl e, d') \<Rightarrow> (Inr (tool_error (io_error_text describe e)), d')
                   | (Inr _, d') \<Rightarrow> (Inr (tool_success (''Successfully edited '' @ file_path)), d')))))"

definition write_execute ::
  "(io_call \<Rightarrow> string) \<Rightarrow> local_backend \<Rightarrow> (string \<Rightarrow> string) \<Rightarrow> disk \<Rightarrow> json \<Rightarrow> tool_answer \<times> disk" where
  "write_execute describe b lower d input =
     (case require_str input ''file_path'' of
        Inl e \<Rightarrow> (Inl e, d)
      | Inr file_path \<Rightarrow>
     (case require_str input ''content'' of
        Inl e \<Rightarrow> (Inl e, d)
      | Inr txt \<Rightarrow>
          (let omissions = detect_omissions lower txt
           in if omissions \<noteq> [] then
                (Inr (tool_error (''Omission detected in content. The following patterns suggest code was skipped: ''
                   @ str_join COMMA_SEP omissions @ ''. Please provide the complete file content.'')), d)
              else case backend_write b d file_path txt of
                     (Inl e, d') \<Rightarrow> (Inr (tool_error (io_error_text describe e)), d')
                   | (Inr n, d') \<Rightarrow>
                       (Inr (with_metadata (tool_success (''Successfully wrote '' @ nat_str n @ '' bytes to '' @ file_path))
                          (JObj [(''bytes_written'', JInt (int n))])), d'))))"

end
