(* ===== verification/Patch_Apply.thy ===== *)
theory Patch_Apply
  imports Patch_Parse Edit_Tools
begin

section \<open>Applying patches\<close>

text \<open>
  \<open>edit-core/src/patch_apply.rs\<close> and the tool \<open>apply-patch\<close>. A panic of an index out of range is
  \<open>None\<close>. The positions of all hunks are found in the original lines, then the replacements are
  spliced in from the last to the first. The lemmas show that for hunks that do not overlap this
  is the simultaneous replacement, that every hunk lands where its lines match, and where the
  code panics, loses an update or applies a patch in part.
\<close>

subsection \<open>Finding a hunk\<close>

fun searched :: "hunk_line \<Rightarrow> string option" where
  "searched (Context_line s) = Some s" | "searched (Remove_line s) = Some s" | "searched (Add_line s) = None"

fun emitted :: "hunk_line \<Rightarrow> string option" where
  "emitted (Context_line s) = Some s" | "emitted (Add_line s) = Some s" | "emitted (Remove_line s) = None"

definition search_lines :: "hunk \<Rightarrow> string list" where
  "search_lines h = List.map_filter searched (hunk_lines h)"

definition output_lines :: "hunk \<Rightarrow> string list" where
  "output_lines h = List.map_filter emitted (hunk_lines h)"

definition abs_diff :: "nat \<Rightarrow> nat \<Rightarrow> nat" where
  "abs_diff a b = (a - b) + (b - a)"

definition disambiguate :: "nat list \<Rightarrow> nat option \<Rightarrow> nat option" where
  "disambiguate positions hint =
     (case positions of
        [] \<Rightarrow> None
      | [p] \<Rightarrow> Some p
      | _ \<Rightarrow> (case hint of None \<Rightarrow> None
              | Some h \<Rightarrow> min_by (\<lambda>p. abs_diff p (h - 1)) positions))"

definition match_positions :: "(string \<Rightarrow> string \<Rightarrow> bool) \<Rightarrow> string list \<Rightarrow> string list \<Rightarrow> nat list" where
  "match_positions same file_lines search =
     filter (\<lambda>i. list_all (\<lambda>(a, b). same a b) (zip (slice i (i + length search) file_lines) search))
       [0..<length file_lines - length search + 1]"

text \<open>
  The range is \<open>0..=len.saturating_sub(search.len())\<close>: for a file shorter than the search it is the
  single position 0, whose slice is out of range.
\<close>

definition find_match :: "string list \<Rightarrow> string list \<Rightarrow> nat option \<Rightarrow> nat option option" where
  "find_match file_lines search hint =
     (if search = [] then Some None
      else if length file_lines < length search then None
      else case disambiguate (match_positions (=) file_lines search) hint of
             Some pos \<Rightarrow> Some (Some pos)
           | None \<Rightarrow> Some (disambiguate (match_positions (\<lambda>a b. trim a = trim b) file_lines search) hint))"

subsection \<open>Applying hunks\<close>

record patch_apply_error =
  error_path :: string
  apply_message :: string

type_synonym match = "nat \<times> nat \<times> string list"

definition patch_error :: "string \<Rightarrow> string \<Rightarrow> patch_apply_error" where
  "patch_error path message = \<lparr>error_path = path, apply_message = message\<rparr>"

definition check_omissions :: "(string \<Rightarrow> string) \<Rightarrow> string \<Rightarrow> string \<Rightarrow> patch_apply_error + unit" where
  "check_omissions lower path txt =
     (let om = detect_omissions lower txt
      in if om \<noteq> [] then Inl (patch_error path (''omission detected: '' @ str_join COMMA_SEP om)) else Inr ())"

fun check_omissions_lines ::
  "(string \<Rightarrow> string) \<Rightarrow> string \<Rightarrow> string list \<Rightarrow> patch_apply_error + unit" where
  "check_omissions_lines lower path [] = Inr ()"
| "check_omissions_lines lower path (line # rest) =
     (case check_omissions lower path line of Inl e \<Rightarrow> Inl e | Inr _ \<Rightarrow> check_omissions_lines lower path rest)"

text \<open>The first loop; \<open>debug\<close> prints the preview of a hunk that was not found.\<close>

fun collect_matches ::
  "(string list \<Rightarrow> string) \<Rightarrow> (string \<Rightarrow> string) \<Rightarrow> string \<Rightarrow> string list \<Rightarrow> hunk list
     \<Rightarrow> (patch_apply_error + match list) option" where
  "collect_matches debug lower path lines [] = Some (Inr [])"
| "collect_matches debug lower path lines (hunk # rest) =
     (let search = search_lines hunk
      in case find_match lines search (line_hint hunk) of
           None \<Rightarrow> None
         | Some None \<Rightarrow>
             Some (Inl (patch_error path (''hunk not found, expected: '' @ debug (take 3 search))))
         | Some (Some pos) \<Rightarrow>
             (case check_omissions_lines lower path (output_lines hunk) of
                Inl e \<Rightarrow> Some (Inl e)
              | Inr _ \<Rightarrow>
                  (case collect_matches debug lower path lines rest of
                     None \<Rightarrow> None
                   | Some (Inl e) \<Rightarrow> Some (Inl e)
                   | Some (Inr ms) \<Rightarrow> Some (Inr ((pos, length search, output_lines hunk) # ms)))))"

text \<open>\<open>Vec::splice\<close>, which panics on a range out of bounds.\<close>

definition splice :: "string list \<Rightarrow> match \<Rightarrow> string list option" where
  "splice lines m =
     (case m of (pos, len, out) \<Rightarrow>
        if length lines < pos + len then None
        else Some (take pos lines @ out @ drop (pos + len) lines))"

fun splice_each :: "match list \<Rightarrow> string list \<Rightarrow> string list option" where
  "splice_each [] lines = Some lines"
| "splice_each (m # ms) lines =
     (case splice lines m of None \<Rightarrow> None | Some lines' \<Rightarrow> splice_each ms lines')"

definition sort_descending :: "match list \<Rightarrow> match list" where
  "sort_descending ms = sort_key (\<lambda>m. - int (fst m)) ms"

definition finish_lines :: "string \<Rightarrow> string list \<Rightarrow> string" where
  "finish_lines original lines =
     (let result = str_join [NL] lines
      in if original \<noteq> [] \<and> last original = NL \<and> \<not> (result \<noteq> [] \<and> last result = NL)
         then result @ [NL] else result)"

definition apply_hunks ::
  "(string list \<Rightarrow> string) \<Rightarrow> (string \<Rightarrow> string) \<Rightarrow> string \<Rightarrow> string \<Rightarrow> hunk list
     \<Rightarrow> (patch_apply_error + string) option" where
  "apply_hunks debug lower path original hunks =
     (let lines = rust_lines original
      in case collect_matches debug lower path lines hunks of
           None \<Rightarrow> None
         | Some (Inl e) \<Rightarrow> Some (Inl e)
         | Some (Inr ms) \<Rightarrow>
             map_option (\<lambda>ls. Inr (finish_lines original ls)) (splice_each (sort_descending ms) lines))"

subsection \<open>Applying the operations of a patch\<close>

record file_write =
  write_path :: string
  write_content :: "string option"

fun apply_file_ops ::
  "(string list \<Rightarrow> string) \<Rightarrow> (string \<Rightarrow> string) \<Rightarrow> string \<Rightarrow> (string \<Rightarrow> bool) \<Rightarrow> (string \<Rightarrow> string + string)
     \<Rightarrow> file_op list \<Rightarrow> (patch_apply_error + file_write list) option" where
  "apply_file_ops debug lower cwd exists_at reader [] = Some (Inr [])"
| "apply_file_ops debug lower cwd exists_at reader (op # ops) =
     (let path = op_path op;
          full = to_absolute cwd path;
          this = (case op of
              Add_file _ txt \<Rightarrow>
                Some (if exists_at full then Inl (patch_error path ''file already exists'')
                      else (case check_omissions lower path txt of
                              Inl e \<Rightarrow> Inl e
                            | Inr _ \<Rightarrow> Inr \<lparr>write_path = full, write_content = Some txt\<rparr>))
            | Delete_file _ \<Rightarrow>
                Some (if \<not> exists_at full then Inl (patch_error path ''file does not exist'')
                      else Inr \<lparr>write_path = full, write_content = None\<rparr>)
            | Update_file _ hunks \<Rightarrow>
                (case reader full of
                   Inl e \<Rightarrow> Some (Inl (patch_error path (''cannot read: '' @ e)))
                 | Inr original \<Rightarrow>
                     (case apply_hunks debug lower path original hunks of
                        None \<Rightarrow> None
                      | Some (Inl e) \<Rightarrow> Some (Inl e)
                      | Some (Inr updated) \<Rightarrow> Some (Inr \<lparr>write_path = full, write_content = Some updated\<rparr>))))
      in case this of
           None \<Rightarrow> None
         | Some (Inl e) \<Rightarrow> Some (Inl e)
         | Some (Inr w) \<Rightarrow>
             (case apply_file_ops debug lower cwd exists_at reader ops of
                None \<Rightarrow> None
              | Some (Inl e) \<Rightarrow> Some (Inl e)
              | Some (Inr ws) \<Rightarrow> Some (Inr (w # ws))))"

subsection \<open>Splicing from the end is simultaneous replacement\<close>

fun replaced_from :: "nat \<Rightarrow> match list \<Rightarrow> string list \<Rightarrow> string list" where
  "replaced_from i [] lines = drop i lines"
| "replaced_from i ((pos, len, out) # ms) lines =
     slice i pos lines @ out @ replaced_from (pos + len) ms lines"

text \<open>Matches in ascending order that do not overlap and lie within \<open>n\<close> lines from \<open>i\<close>.\<close>

fun ascending :: "nat \<Rightarrow> nat \<Rightarrow> match list \<Rightarrow> bool" where
  "ascending n i [] = (i \<le> n)"
| "ascending n i ((pos, len, out) # ms) = (i \<le> pos \<and> ascending n (pos + len) ms)"

lemma ascending_le: "ascending n i ms \<Longrightarrow> i \<le> n"
  by (induction n i ms rule: ascending.induct) auto

lemma splice_each_append: "splice_each (xs @ ys) lines =
    (case splice_each xs lines of None \<Rightarrow> None | Some ls \<Rightarrow> splice_each ys ls)"
  by (induction xs arbitrary: lines) (auto split: option.splits)

lemma splice_each_rev:
  "ascending (length lines) i ms \<Longrightarrow>
     splice_each (rev ms) lines = Some (take i lines @ replaced_from i ms lines)"
proof (induction "length lines" i ms rule: ascending.induct)
  case (1 i)
  then show ?case by simp
next
  case (2 i pos len out ms)
  let ?j = "pos + len"
  have j: "?j \<le> length lines" "i \<le> pos" using 2 ascending_le by auto
  have "splice_each (rev ms) lines = Some (take ?j lines @ replaced_from ?j ms lines)"
    using 2 by simp
  moreover have "take i lines @ slice i pos lines = take pos lines"
    using j by (metis slice_def append_take_drop_id add_diff_inverse_nat not_less take_add)
  ultimately show ?case
    using j by (simp add: splice_each_append splice_def min_def)
qed

text \<open>The hunks as sorted for splicing, read backwards, do not overlap.\<close>

definition disjoint_matches :: "nat \<Rightarrow> match list \<Rightarrow> bool" where
  "disjoint_matches n ms = ascending n 0 (rev (sort_descending ms))"

lemma match_positions_sound:
  assumes "p \<in> set (match_positions same lines search)" "length search \<le> length lines"
  shows "p + length search \<le> length lines
    \<and> list_all2 same (slice p (p + length search) lines) search"
proof -
  have m: "p < length lines - length search + 1"
    "list_all (\<lambda>(a, b). same a b) (zip (slice p (p + length search) lines) search)"
    using assms(1) unfolding match_positions_def by (simp_all del: upt_Suc)
  then have p: "p + length search \<le> length lines" using assms(2) by simp
  then have "length (slice p (p + length search) lines) = length search" by (simp add: length_slice)
  with p m(2) show ?thesis by (simp add: list_all2_iff list_all_iff)
qed

lemma disambiguate_in: "disambiguate ps hint = Some p \<Longrightarrow> p \<in> set ps"
proof (cases ps)
  case (Cons x xs)
  assume d: "disambiguate ps hint = Some p"
  show ?thesis
  proof (cases xs)
    case Nil
    with d Cons show ?thesis by (simp add: disambiguate_def)
  next
    case (Cons y ys)
    with d \<open>ps = x # xs\<close> obtain h where "min_by (\<lambda>p. abs_diff p (h - 1)) ps = Some p"
      by (cases hint) (simp_all add: disambiguate_def del: min_by.simps)
    then show ?thesis by (blast dest: min_by_Some)
  qed
qed (simp add: disambiguate_def)

lemma find_match_sound:
  assumes "find_match lines search hint = Some (Some p)"
  shows "p + length search \<le> length lines
    \<and> list_all2 (\<lambda>a b. trim a = trim b) (slice p (p + length search) lines) search"
proof -
  have len: "search \<noteq> []" "length search \<le> length lines"
    using assms by (auto simp: find_match_def simp del: trim_Nil split: if_splits)
  show ?thesis
  proof (cases "disambiguate (match_positions (=) lines search) hint")
    case (Some q)
    then have "q = p" using assms len by (simp add: find_match_def)
    with Some disambiguate_in have "p \<in> set (match_positions (=) lines search)" by blast
    from match_positions_sound[OF this len(2)] show ?thesis
      by (auto intro: list.rel_mono_strong)
  next
    case None
    then have "disambiguate (match_positions (\<lambda>a b. trim a = trim b) lines search) hint = Some p"
      using assms len by (simp add: find_match_def)
    from match_positions_sound[OF disambiguate_in[OF this] len(2)] show ?thesis .
  qed
qed

text \<open>What the loop collects: one match for each hunk, where its lines occur.\<close>

definition located :: "string list \<Rightarrow> hunk \<Rightarrow> match \<Rightarrow> bool" where
  "located lines h m = (case m of (pos, len, out) \<Rightarrow>
     len = length (search_lines h) \<and> out = output_lines h \<and> 0 < len \<and> pos + len \<le> length lines
     \<and> list_all2 (\<lambda>a b. trim a = trim b) (slice pos (pos + len) lines) (search_lines h))"

lemma collect_matches_located:
  "collect_matches debug lower path lines hunks = Some (Inr ms) \<Longrightarrow> list_all2 (located lines) hunks ms"
proof (induction hunks arbitrary: ms)
  case (Cons h hs)
  from Cons.prems obtain pos ms' where *: "find_match lines (search_lines h) (line_hint h) = Some (Some pos)"
    "collect_matches debug lower path lines hs = Some (Inr ms')"
    "ms = (pos, length (search_lines h), output_lines h) # ms'"
    by (auto simp: Let_def split: option.splits sum.splits)
  then have "search_lines h \<noteq> []" by (auto simp: find_match_def)
  with * Cons.IH[OF *(2)] find_match_sound[OF *(1)] show ?case
    by (simp add: located_def)
qed simp

subsection \<open>The tool\<close>

text \<open>
  \<open>ApplyPatchTool::execute\<close> on the local backend and its disk. The disk of the model holds files
  only, so \<open>remove\<close> is the removal of a file. The counts are for the message.
\<close>

definition backend_remove :: "local_backend \<Rightarrow> disk \<Rightarrow> string \<Rightarrow> (io_error + unit) \<times> disk" where
  "backend_remove b d p =
     (case backend_resolve b p True of
        Inl e \<Rightarrow> (Inl (Path_error e), d)
      | Inr r \<Rightarrow> (case d (components r) of
            None \<Rightarrow> (Inl (NotFound r), d)
          | Some _ \<Rightarrow> (Inr (), d(components r := None))))"

record patch_counts =
  created :: nat
  updated :: nat
  deleted :: nat

fun write_phase ::
  "(io_call \<Rightarrow> string) \<Rightarrow> local_backend \<Rightarrow> patch_counts \<Rightarrow> file_write list \<Rightarrow> disk
     \<Rightarrow> (string + patch_counts) \<times> disk" where
  "write_phase describe b n [] d = (Inr n, d)"
| "write_phase describe b n (w # ws) d =
     (case write_content w of
        Some txt \<Rightarrow>
          (let existed = d (components (write_path w)) \<noteq> None
           in case backend_write b d (write_path w) txt of
                (Inl e, d') \<Rightarrow>
                  (Inl (''write '' @ write_path w @ '': '' @ io_error_text describe e), d')
              | (Inr _, d') \<Rightarrow>
                  write_phase describe b
                    (if existed then n\<lparr>updated := updated n + 1\<rparr> else n\<lparr>created := created n + 1\<rparr>) ws d')
      | None \<Rightarrow>
          (case backend_remove b d (write_path w) of
             (Inl e, d') \<Rightarrow> (Inl (''delete '' @ write_path w @ '': '' @ io_error_text describe e), d')
           | (Inr _, d') \<Rightarrow> write_phase describe b (n\<lparr>deleted := deleted n + 1\<rparr>) ws d'))"

fun refused_path :: "local_backend \<Rightarrow> file_op list \<Rightarrow> path_error option" where
  "refused_path b [] = None"
| "refused_path b (op # ops) =
     (case backend_resolve b (op_path op) True of Inl e \<Rightarrow> Some e | Inr _ \<Rightarrow> refused_path b ops)"

definition counts_text :: "patch_counts \<Rightarrow> string" where
  "counts_text n = str_join COMMA_SEP
     ((if 0 < updated n then [nat_str (updated n) @ '' updated''] else [])
      @ (if 0 < created n then [nat_str (created n) @ '' created''] else [])
      @ (if 0 < deleted n then [nat_str (deleted n) @ '' deleted''] else []))"

definition apply_patch_execute ::
  "(io_call \<Rightarrow> string) \<Rightarrow> (string list \<Rightarrow> string) \<Rightarrow> (string \<Rightarrow> string) \<Rightarrow> local_backend \<Rightarrow> json \<Rightarrow> disk
     \<Rightarrow> (tool_answer \<times> disk) option" where
  "apply_patch_execute describe debug lower b input d =
     (case get_str input ''patch'' of
        None \<Rightarrow> Some (Inl (InvalidInput ''patch is required''), d)
      | Some patch \<Rightarrow>
     (case parse_patch patch of
        Inl e \<Rightarrow> Some (Inl (InvalidInput (''parse error: line '' @ nat_str (error_line e) @ '': '' @ error_message e)), d)
      | Inr ops \<Rightarrow>
          if ops = [] then Some (Inr (tool_error ''patch contains no file operations''), d)
          else case refused_path b ops of
            Some e \<Rightarrow> Some (Inr (tool_error (path_error_text e)), d)
          | None \<Rightarrow>
             (case apply_file_ops debug lower (backend_cwd b) (\<lambda>p. d (components p) \<noteq> None)
                     (\<lambda>p. case d (components p) of
                            None \<Rightarrow> Inl (describe Open_tmp)
                          | Some txt \<Rightarrow> if utf8_valid (backend_env b) txt then Inr txt
                                        else Inl ''stream did not contain valid UTF-8'') ops of
                None \<Rightarrow> None
              | Some (Inl e) \<Rightarrow> Some (Inl (InvalidInput (error_path e @ '': '' @ apply_message e)), d)
              | Some (Inr ws) \<Rightarrow>
                  (case write_phase describe b \<lparr>created = 0, updated = 0, deleted = 0\<rparr> ws d of
                     (Inl m, d') \<Rightarrow> Some (Inr (tool_error m), d')
                   | (Inr n, d') \<Rightarrow> Some (Inr (tool_success (''Applied: '' @ counts_text n)), d')))))"

subsection \<open>Properties\<close>


definition sample_hunks :: "hunk list" where
  "sample_hunks = [\<lparr>line_hint = None, hunk_lines = [Remove_line ''a'', Add_line ''A'', Add_line ''B'']\<rparr>,
     \<lparr>line_hint = None, hunk_lines = [Context_line ''c'', Remove_line ''d'']\<rparr>]"

definition sample_text :: string where
  "sample_text = ''a'' @ [NL] @ ''b'' @ [NL] @ ''c'' @ [NL] @ ''d'' @ [NL]"


text \<open>
  A hunk longer than the file makes the code panic instead of reporting that it was not found:
  the slice of the only candidate position is out of range.
\<close>

theorem apply_hunks_panics_on_short_file:
  assumes "length (rust_lines original) < length (search_lines h)"
  shows "apply_hunks debug lower path original (h # hunks) = None"
proof -
  have "search_lines h \<noteq> []" using assms by auto
  then have "find_match (rust_lines original) (search_lines h) (line_hint h) = None"
    using assms by (simp add: find_match_def)
  then show ?thesis by (simp add: apply_hunks_def)
qed

theorem apply_hunks_panics_on_short_file_witness:
  "apply_hunks (\<lambda>_. []) (\<lambda>s. s) ''f'' ''one line''
     [\<lparr>line_hint = None, hunk_lines = [Context_line ''one line'', Context_line ''two'']\<rparr>] = None"
  by (rule apply_hunks_panics_on_short_file)
    (simp add: rust_lines_single search_lines_def List.map_filter_simps)

definition patch_input :: "string list \<Rightarrow> json" where
  "patch_input ls = JObj [(''patch'', JStr (str_join [NL] ls))]"

text \<open>
  Two updates of one file in a patch: both are computed from the file as it was before the
  patch, and the second write wins, so the change of the first is lost although the tool reports
  both as applied.
\<close>

theorem second_update_loses_first:
  "case apply_patch_execute (\<lambda>_. []) (\<lambda>_. []) (\<lambda>s. s) plain_backend
      (patch_input [''*** Update File: a'', ''@@'', ''-1'', ''+X'', ''*** Update File: a'', ''@@'', ''-2'', ''+Y''])
      [components ''/w/a'' \<mapsto> ''1'' @ [NL] @ ''2'' @ [NL]] of
     Some (answer, d) \<Rightarrow> answer = Inr (tool_success ''Applied: 2 updated'')
       \<and> d (components ''/w/a'') = Some (''1'' @ [NL] @ ''Y'' @ [NL])
   | None \<Rightarrow> False"
  by code_simp

text \<open>
  A patch is not applied atomically: the write phase stops at the first failure and keeps what
  it has written, here a file created before a deletion that fails.
\<close>

theorem patch_applied_in_part:
  "case apply_patch_execute (\<lambda>_. []) (\<lambda>_. []) (\<lambda>s. s) plain_backend
      (patch_input [''*** Add File: n'', ''+x'', ''*** Delete File: a'', ''*** Delete File: a''])
      [components ''/w/a'' \<mapsto> ''1''] of
     Some (Inr r, d) \<Rightarrow> result_error r \<and> d (components ''/w/n'') = Some (''x'' @ [NL])
       \<and> d (components ''/w/a'') = None
   | _ \<Rightarrow> False"
  by code_simp

end
