(* ===== verification/Scheduler.thy ===== *)
theory Scheduler
  imports Rust_Search
begin

section \<open>The cron scheduler\<close>

text \<open>
  The crate \<open>loopal-scheduler\<close>: \<open>expression.rs\<close>, \<open>task.rs\<close>, \<open>scheduler.rs\<close>, \<open>tick.rs\<close>,
  \<open>error.rs\<close>. Times are in nanoseconds. The package \<open>cron\<close> is an argument: \<open>parse\<close> a schedule,
  \<open>next\<close> occurrence strictly after a time. The random identifiers are an argument too, as the
  list of draws. The lemmas show what one tick does as a filter, that the identifiers stay
  distinct and the tasks bounded, and that adding a task ends.
\<close>

subsection \<open>Expressions and tasks\<close>

datatype cron_parse_error = InvalidFieldCount nat | ParseFailed string | NoOccurrence

datatype scheduler_error = InvalidCron cron_parse_error | TooManyTasks nat

record cron_expression =
  schedule :: string
  raw_expr :: string

type_synonym next_occurrence = "string \<Rightarrow> int \<Rightarrow> int option"

definition MAX_LIFETIME_SECS :: int where "MAX_LIFETIME_SECS = 3 * 24 * 60 * 60"
definition MAX_TASKS :: nat where "MAX_TASKS = 50"
definition NANOS :: int where "NANOS = 10 ^ 9"

definition parse_at ::
  "(string \<Rightarrow> string + string) \<Rightarrow> next_occurrence \<Rightarrow> string \<Rightarrow> int \<Rightarrow> cron_parse_error + cron_expression" where
  "parse_at parse next expr now =
     (let fields = split_whitespace expr
      in if length fields \<noteq> 5 then Inl (InvalidFieldCount (length fields))
         else case parse (''0 '' @ expr @ '' *'') of
                Inl e \<Rightarrow> Inl (ParseFailed e)
              | Inr sched \<Rightarrow>
                  (let limit = now + MAX_LIFETIME_SECS * NANOS
                   in if (case next sched now of None \<Rightarrow> True | Some t \<Rightarrow> limit < t) then Inl NoOccurrence
                      else Inr \<lparr>schedule = sched, raw_expr = expr\<rparr>))"

definition next_after :: "next_occurrence \<Rightarrow> cron_expression \<Rightarrow> int \<Rightarrow> int option" where
  "next_after next c t = next (schedule c) t"

record scheduled_task =
  task_id :: string
  cron :: cron_expression
  task_prompt :: string
  recurring :: bool
  created_at :: int
  last_fired :: "int option"

definition truncate_to_secs :: "int \<Rightarrow> int" where
  "truncate_to_secs t = t div NANOS * NANOS"

definition fire_reference :: "scheduled_task \<Rightarrow> int" where
  "fire_reference t = truncate_to_secs (case last_fired t of Some f \<Rightarrow> f | None \<Rightarrow> created_at t)"

definition should_fire :: "next_occurrence \<Rightarrow> int \<Rightarrow> scheduled_task \<Rightarrow> bool" where
  "should_fire next now t =
     (case next_after next (cron t) (fire_reference t) of Some n \<Rightarrow> n \<le> now | None \<Rightarrow> False)"

text \<open>
  \<open>num_seconds\<close> rounds towards zero; for a negative duration the floor used here is negative as
  well, so the comparison is the same.
\<close>

definition is_expired :: "int \<Rightarrow> scheduled_task \<Rightarrow> bool" where
  "is_expired now t = (MAX_LIFETIME_SECS < (now - created_at t) div NANOS)"

subsection \<open>One tick\<close>

record scheduled_trigger =
  trigger_task_id :: string
  trigger_prompt :: string
  fired_at :: int

definition trigger_of :: "int \<Rightarrow> scheduled_task \<Rightarrow> scheduled_trigger" where
  "trigger_of now t = \<lparr>trigger_task_id = task_id t, trigger_prompt = task_prompt t, fired_at = now\<rparr>"

text \<open>The loop over the tasks: the tasks as updated, the triggers with their index, the expired.\<close>

fun tick_scan ::
  "next_occurrence \<Rightarrow> int \<Rightarrow> nat \<Rightarrow> scheduled_task list
     \<Rightarrow> scheduled_task list \<times> (nat \<times> scheduled_trigger) list \<times> nat list" where
  "tick_scan next now i [] = ([], [], [])"
| "tick_scan next now i (t # ts) =
     (case tick_scan next now (i + 1) ts of
        (ts', triggered, to_remove) \<Rightarrow>
          if is_expired now t then (t # ts', triggered, i # to_remove)
          else if should_fire next now t
            then (t\<lparr>last_fired := Some now\<rparr> # ts', (i, trigger_of now t) # triggered, to_remove)
          else (t # ts', triggered, to_remove))"

definition tick :: "next_occurrence \<Rightarrow> int \<Rightarrow> scheduled_task list \<Rightarrow> scheduled_task list \<times> scheduled_trigger list" where
  "tick next now tasks =
     (case tick_scan next now 0 tasks of
        (tasks', triggered, to_remove) \<Rightarrow>
          let remove_oneshots = map fst (filter (\<lambda>(i, _). \<not> recurring (tasks' ! i)) triggered);
              removals = remdups_adj (sort (to_remove @ remove_oneshots))
          in (fold remove_at (rev removals) tasks', map snd triggered))"

text \<open>The channel: triggers are sent in order until the receiver is gone or the loop is cancelled.\<close>

fun send_triggers :: "nat \<Rightarrow> scheduled_trigger list \<Rightarrow> scheduled_trigger list \<times> bool" where
  "send_triggers accepted [] = ([], True)"
| "send_triggers 0 (t # ts) = ([], False)"
| "send_triggers (Suc accepted) (t # ts) =
     (case send_triggers accepted ts of (sent, alive) \<Rightarrow> (t # sent, alive))"

subsection \<open>The scheduler\<close>

text \<open>\<open>generate_task_id\<close> until it is new: \<open>None\<close> when the draws given do not suffice.\<close>

fun fresh_id :: "string list \<Rightarrow> scheduled_task list \<Rightarrow> string option" where
  "fresh_id [] tasks = None"
| "fresh_id (d # draws) tasks = (if list_ex (\<lambda>t. task_id t = d) tasks then fresh_id draws tasks else Some d)"

definition add_task ::
  "(string \<Rightarrow> string + string) \<Rightarrow> next_occurrence \<Rightarrow> int \<Rightarrow> string list \<Rightarrow> string \<Rightarrow> string \<Rightarrow> bool
     \<Rightarrow> scheduled_task list \<Rightarrow> ((scheduler_error + string) \<times> scheduled_task list) option" where
  "add_task parse next now draws expr prompt recurs tasks =
     (case parse_at parse next expr now of
        Inl e \<Rightarrow> Some (Inl (InvalidCron e), tasks)
      | Inr c \<Rightarrow>
          if MAX_TASKS \<le> length tasks then Some (Inl (TooManyTasks MAX_TASKS), tasks)
          else map_option (\<lambda>i. (Inr i, tasks @ [\<lparr>task_id = i, cron = c, task_prompt = prompt,
                 recurring = recurs, created_at = now, last_fired = None\<rparr>])) (fresh_id draws tasks))"

definition remove_task :: "string \<Rightarrow> scheduled_task list \<Rightarrow> bool \<times> scheduled_task list" where
  "remove_task i tasks =
     (let kept = filter (\<lambda>t. task_id t \<noteq> i) tasks in (length kept < length tasks, kept))"

record cron_job_info =
  job_id :: string
  cron_expr :: string
  job_prompt :: string
  job_recurring :: bool
  job_created_at :: int
  next_fire :: "int option"

definition list_tasks :: "next_occurrence \<Rightarrow> int \<Rightarrow> scheduled_task list \<Rightarrow> cron_job_info list" where
  "list_tasks next now tasks =
     map (\<lambda>t. \<lparr>job_id = task_id t, cron_expr = raw_expr (cron t), job_prompt = task_prompt t,
                job_recurring = recurring t, job_created_at = created_at t,
                next_fire = (case next_after next (cron t) (fire_reference t) of
                    None \<Rightarrow> None
                  | Some n \<Rightarrow> if now < n then Some n else next_after next (cron t) now)\<rparr>) tasks"

subsection \<open>A tick is a filter\<close>

definition fires :: "next_occurrence \<Rightarrow> int \<Rightarrow> scheduled_task \<Rightarrow> bool" where
  "fires next now t = (\<not> is_expired now t \<and> should_fire next now t)"

definition ends :: "next_occurrence \<Rightarrow> int \<Rightarrow> scheduled_task \<Rightarrow> bool" where
  "ends next now t = (is_expired now t \<or> (fires next now t \<and> \<not> recurring t))"

definition after_tick :: "next_occurrence \<Rightarrow> int \<Rightarrow> scheduled_task \<Rightarrow> scheduled_task" where
  "after_tick next now t = (if fires next now t then t\<lparr>last_fired := Some now\<rparr> else t)"

lemma tick_scan_eq:
  "tick_scan next now i ts =
     (map (after_tick next now) ts,
      map (\<lambda>k. (k, trigger_of now (ts ! (k - i)))) (indices_from (fires next now) i ts),
      indices_from (is_expired now) i ts)"
proof (induction ts arbitrary: i)
  case (Cons t ts)
  have "map (\<lambda>k. (k, trigger_of now ((t # ts) ! (k - i)))) (indices_from (fires next now) (Suc i) ts)
      = map (\<lambda>k. (k, trigger_of now (ts ! (k - Suc i)))) (indices_from (fires next now) (Suc i) ts)"
    by (rule map_cong[OF refl]) (auto simp: set_indices_from nth_Cons')
  then show ?case
    using Cons[of "Suc i"] by (simp add: fires_def[of "next" now t] after_tick_def[of "next" now t])
qed simp

lemma map_remove_at: "remove_at i (map f xs) = map f (remove_at i xs)"
  by (simp add: remove_at_def take_map drop_map)

lemma map_fold_remove: "fold remove_at is (map f xs) = map f (fold remove_at is xs)"
  by (induction "is" arbitrary: xs) (simp_all add: map_remove_at)

lemma nth_indices_map: "map (\<lambda>k. xs ! k) (indices p xs) = filter p xs"
proof -
  have "map (\<lambda>k. xs ! (k - n)) (indices_from p n xs) = filter p xs" for n
  proof (induction xs arbitrary: n)
    case (Cons x xs)
    have "map (\<lambda>k. (x # xs) ! (k - n)) (indices_from p (Suc n) xs)
        = map (\<lambda>k. xs ! (k - Suc n)) (indices_from p (Suc n) xs)"
      by (rule map_cong[OF refl]) (auto simp: set_indices_from nth_Cons')
    then show ?case using Cons[of "Suc n"] by simp
  qed simp
  from this[of 0] show ?thesis by simp
qed

lemma distinct_remdups_adj: "sorted xs \<Longrightarrow> distinct (remdups_adj xs)"
  for xs :: "nat list"
  by (induction xs rule: remdups_adj.induct) (auto simp: remdups_adj_set)

lemma removals_eq:
  assumes "set is = {i. i < length xs \<and> q (xs ! i)}"
  shows "remdups_adj (sort is) = indices q xs"
proof (rule sorted_distinct_set_unique)
  show "sorted (remdups_adj (sort is))" by (rule sorted_remdups_adj) simp
  show "distinct (remdups_adj (sort is))" by (rule distinct_remdups_adj) simp
  show "sorted (indices q xs)" "distinct (indices q xs)" by (rule sorted_indices)+
  show "set (remdups_adj (sort is)) = set (indices q xs)"
    unfolding remdups_adj_set set_sort assms by (rule set_eqI) (simp add: set_indices)
qed

lemma tick_eq:
  "tick next now tasks =
     (map (after_tick next now) (filter (\<lambda>t. \<not> ends next now t) tasks),
      map (trigger_of now) (filter (fires next now) tasks))"
proof -
  let ?upd = "after_tick next now"
  let ?fired = "indices (fires next now) tasks"
  have same: "recurring (?upd t) = recurring t" for t by (simp add: after_tick_def)
  have "set (indices (is_expired now) tasks @ map fst (filter (\<lambda>(i, _). \<not> recurring (map ?upd tasks ! i))
           (map (\<lambda>k. (k, trigger_of now (tasks ! k))) ?fired)))
      = {i. i < length tasks \<and> ends next now (tasks ! i)}"
    by (auto simp: set_indices ends_def same image_iff filter_map comp_def)
  then have "remdups_adj (sort (indices (is_expired now) tasks
           @ map fst (filter (\<lambda>(i, _). \<not> recurring (map ?upd tasks ! i))
           (map (\<lambda>k. (k, trigger_of now (tasks ! k))) ?fired)))) = indices (ends next now) tasks"
    by (rule removals_eq)
  then have "fst (tick next now tasks) = fold remove_at (rev (indices (ends next now) tasks)) (map ?upd tasks)"
    by (simp add: tick_def tick_scan_eq Let_def)
  moreover have "\<dots> = map ?upd (filter (\<lambda>t. \<not> ends next now t) tasks)"
    by (simp add: map_fold_remove fold_remove_indices)
  moreover have "snd (tick next now tasks) = map (trigger_of now) (map (\<lambda>k. tasks ! k) ?fired)"
    by (simp add: tick_def tick_scan_eq Let_def comp_def)
  ultimately show ?thesis by (simp add: nth_indices_map prod_eq_iff)
qed

subsection \<open>The invariant of the task list\<close>

datatype sched_op =
    Add_op int "string list" string string bool
  | Remove_op string
  | Tick_op int

text \<open>An addition whose draws do not suffice has not returned: the list is as it was.\<close>

fun sched_step ::
  "(string \<Rightarrow> string + string) \<Rightarrow> next_occurrence \<Rightarrow> sched_op \<Rightarrow> scheduled_task list \<Rightarrow> scheduled_task list" where
  "sched_step parse next (Add_op now draws expr prompt recurs) tasks =
     (case add_task parse next now draws expr prompt recurs tasks of
        None \<Rightarrow> tasks | Some (_, tasks') \<Rightarrow> tasks')"
| "sched_step parse next (Remove_op i) tasks = snd (remove_task i tasks)"
| "sched_step parse next (Tick_op now) tasks = fst (tick next now tasks)"

definition tasks_wf :: "scheduled_task list \<Rightarrow> bool" where
  "tasks_wf tasks = (distinct (map task_id tasks) \<and> length tasks \<le> MAX_TASKS)"

lemma fresh_id_new: "fresh_id draws tasks = Some i \<Longrightarrow> i \<in> set draws \<and> i \<notin> task_id ` set tasks"
  by (induction draws) (auto simp: list_ex_iff split: if_splits)

lemma fresh_id_None: "fresh_id draws tasks = None \<Longrightarrow> set draws \<subseteq> task_id ` set tasks"
  by (induction draws) (auto simp: list_ex_iff split: if_splits)

lemma task_id_after_tick [simp]: "task_id (after_tick next now t) = task_id t"
  by (simp add: after_tick_def)

lemma tasks_wf_filter:
  assumes "tasks_wf tasks" "\<And>t. task_id (f t) = task_id t"
  shows "tasks_wf (map f (filter p tasks))"
proof -
  have "map task_id (map f (filter p tasks)) = map task_id (filter p tasks)"
    by (simp add: comp_def assms(2))
  moreover have "distinct (map task_id (filter p tasks))"
    using assms(1) by (simp add: tasks_wf_def distinct_map_filter)
  ultimately have "distinct (map task_id (map f (filter p tasks)))" by (simp only:)
  moreover have "length (filter p tasks) \<le> MAX_TASKS"
    using assms(1) by (auto simp: tasks_wf_def intro: order_trans[OF length_filter_le])
  ultimately show ?thesis by (simp add: tasks_wf_def)
qed

lemma tasks_wf_step: "tasks_wf tasks \<Longrightarrow> tasks_wf (sched_step parse next e tasks)"
proof (cases e)
  case (Add_op now draws expr prompt recurs)
  assume "tasks_wf tasks"
  with Add_op show ?thesis
    by (auto simp: add_task_def tasks_wf_def dest: fresh_id_new split: sum.splits option.splits if_splits)
next
  case (Remove_op i)
  assume "tasks_wf tasks"
  from tasks_wf_filter[OF this, of "\<lambda>t. t" "\<lambda>t. task_id t \<noteq> i"] Remove_op show ?thesis
    by (simp add: remove_task_def Let_def)
next
  case (Tick_op now)
  assume "tasks_wf tasks"
  from tasks_wf_filter[OF this task_id_after_tick] Tick_op show ?thesis by (simp add: tick_eq)
qed

interpretation sched: op_system "sched_step parse next" tasks_wf "[]"
  for parse :: "string \<Rightarrow> string + string" and "next" :: next_occurrence
  by unfold_locales (simp add: tasks_wf_def, rule tasks_wf_step)

subsection \<open>Properties\<close>

text \<open>
  One tick, with its collecting of indices, sorting, deduplicating and removing from the end,
  is a filter: it sends a trigger for exactly the tasks that are due and not expired, in order;
  it keeps exactly the tasks that are not expired and either recur or are not due; and of the
  kept ones only the due have their last firing set, to now.
\<close>

theorem tick_is_filter:
  "tick next now tasks =
     (map (\<lambda>t. if should_fire next now t then t\<lparr>last_fired := Some now\<rparr> else t)
        (filter (\<lambda>t. \<not> is_expired now t \<and> \<not> (should_fire next now t \<and> \<not> recurring t)) tasks),
      map (trigger_of now) (filter (\<lambda>t. \<not> is_expired now t \<and> should_fire next now t) tasks))"
proof -
  have "filter (\<lambda>t. \<not> ends next now t) tasks
      = filter (\<lambda>t. \<not> is_expired now t \<and> \<not> (should_fire next now t \<and> \<not> recurring t)) tasks"
    by (rule filter_cong) (auto simp: ends_def fires_def)
  then show ?thesis
    unfolding tick_eq by (auto simp: after_tick_def fires_def[abs_def])
qed

text \<open>
  Whatever is added, removed and ticked, in any order, the tasks have distinct identifiers and
  number at most 50. Adding ends: with a valid expression and room left, any list of draws that
  holds as many different identifiers as the limit yields a task, with an identifier no task has.
\<close>

theorem scheduler_invariant:
  "tasks_wf (run_ops (sched_step parse next) ops [])
   \<and> (tasks_wf tasks \<and> parse_at parse next expr now = Inr c \<and> length tasks < MAX_TASKS
        \<and> MAX_TASKS \<le> card (set draws) \<longrightarrow>
      (\<exists>i t. add_task parse next now draws expr prompt recurs tasks = Some (Inr i, tasks @ [t])
         \<and> task_id t = i \<and> i \<notin> task_id ` set tasks))"
proof -
  have "fresh_id draws tasks \<noteq> None" if "length tasks < MAX_TASKS" "MAX_TASKS \<le> card (set draws)"
  proof
    assume "fresh_id draws tasks = None"
    then have "card (set draws) \<le> card (task_id ` set tasks)"
      by (intro card_mono fresh_id_None) simp_all
    also have "\<dots> \<le> length tasks" by (metis card_length image_set length_map)
    finally show False using that by simp
  qed
  then show ?thesis
    using sched.inv_reached fresh_id_new[of draws tasks]
    by (auto simp: add_task_def)
qed

theorem scheduler_invariant_witness:
  "\<exists>i t. add_task Inr (\<lambda>_ t. Some (t + 1)) 0 (map nat_str [0..<50]) ''* * * * *'' ''p'' True []
     = Some (Inr i, [t]) \<and> task_id t = i"
proof -
  have "parse_at Inr (\<lambda>_ t. Some (t + 1)) ''* * * * *'' 0
      = Inr \<lparr>schedule = ''0 * * * * * *'', raw_expr = ''* * * * *''\<rparr>"
  proof -
    have "length (split_whitespace ''* * * * *'') = 5" by code_simp
    then show ?thesis by (simp add: parse_at_def MAX_LIFETIME_SECS_def NANOS_def)
  qed
  moreover have "card (set (map nat_str [0..<50])) = 50"
    by (subst distinct_card) (auto simp: distinct_map inj_on_def dest: nat_str_inj)
  moreover have "tasks_wf []" by (simp add: tasks_wf_def)
  ultimately show ?thesis
    using scheduler_invariant[of Inr "\<lambda>_ t. Some (t + 1)" "[]" "[]" "''* * * * *''" 0
        "\<lparr>schedule = ''0 * * * * * *'', raw_expr = ''* * * * *''\<rparr>" "map nat_str [0..<50]" "''p''" True]
    by (auto simp: MAX_TASKS_def)
qed

end
