(* ===== verification/Message.thy ===== *)
theory Message
  imports Json
begin

section \<open>Conversation messages\<close>

text \<open>
  \<open>crates/loopal-message\<close>: the message type every other component works on, and
  \<open>normalize_messages\<close>, which brings a conversation into the shape the providers accept. The
  lemmas show the alternation of roles, that no block is lost or invented, that the order of the
  tool results survives, and which order of blocks a user message ends up with.
\<close>

subsection \<open>The data\<close>

datatype message_role = User | Assistant | System

record image_source =
  source_type :: string
  media_type :: string
  data :: string

datatype content_block =
    Text string
  | ToolUse (use_id: string) (use_name: string) (use_input: json)
  | ToolResult (result_for: string) (result_content: string) (is_error: bool)
      (is_completion: bool) (metadata: "json option")
  | Image_block image_source
  | Thinking string "string option"
  | ServerToolUse (server_id: string) (server_name: string) (server_input: json)
  | ServerToolResult (block_type: string) (server_result_for: string) (server_content: json)

record message =
  id_opt :: "string option"
  role :: message_role
  content :: "content_block list"

definition message_user :: "string \<Rightarrow> message" where
  "message_user t = \<lparr>id_opt = None, role = User, content = [Text t]\<rparr>"

definition message_assistant :: "string \<Rightarrow> message" where
  "message_assistant t = \<lparr>id_opt = None, role = Assistant, content = [Text t]\<rparr>"

definition message_system :: "string \<Rightarrow> message" where
  "message_system t = \<lparr>id_opt = None, role = System, content = [Text t]\<rparr>"

definition with_id :: "message \<Rightarrow> string \<Rightarrow> message" where
  "with_id m i = m\<lparr>id_opt := Some i\<rparr>"

fun block_text :: "content_block \<Rightarrow> string option" where
  "block_text (Text t) = Some t"
| "block_text _ = None"

definition text_content :: "message \<Rightarrow> string" where
  "text_content m = str_join [] (List.map_filter block_text (content m))"

text \<open>The four-bytes-a-token estimate; \<open>as u32\<close> truncates and the sum wraps.\<close>

definition len_u32 :: "string \<Rightarrow> u32" where
  "len_u32 s = word_of_nat (length s)"

fun block_estimate :: "(json \<Rightarrow> string) \<Rightarrow> content_block \<Rightarrow> u32" where
  "block_estimate render (Text t) = len_u32 t div 4"
| "block_estimate render (ToolUse i n inp) = len_u32 (render inp) div 4"
| "block_estimate render (ToolResult i c e k md) = len_u32 c div 4"
| "block_estimate render (Image_block s) = 1000"
| "block_estimate render (Thinking t sg) = len_u32 t div 4"
| "block_estimate render (ServerToolUse i n inp) = len_u32 (render inp) div 4"
| "block_estimate render (ServerToolResult bt i c) = len_u32 (render c) div 4"

definition estimated_token_count :: "(json \<Rightarrow> string) \<Rightarrow> message \<Rightarrow> u32" where
  "estimated_token_count render m = sum_list (map (block_estimate render) (content m)) + 4"

subsection \<open>Kinds of blocks\<close>

abbreviation is_tool_result :: "content_block \<Rightarrow> bool" where
  "is_tool_result b \<equiv> is_ToolResult b"

abbreviation is_text :: "content_block \<Rightarrow> bool" where
  "is_text b \<equiv> is_Text b"

text \<open>\<open>messages.iter_mut().filter(role).for_each(content.retain(..))\<close>, the shape of most passes.\<close>

definition map_content :: "(content_block list \<Rightarrow> content_block list) \<Rightarrow> message \<Rightarrow> message" where
  "map_content f m = m\<lparr>content := f (content m)\<rparr>"

definition on_role :: "message_role \<Rightarrow> (content_block list \<Rightarrow> content_block list) \<Rightarrow> message \<Rightarrow> message" where
  "on_role r f m = (if role m = r then map_content f m else m)"

lemma role_map_content [simp, msg_simps]: "role (map_content f m) = role m"
  by (simp add: map_content_def)

lemma content_map_content [simp, msg_simps]: "content (map_content f m) = f (content m)"
  by (simp add: map_content_def)

lemma role_on_role [simp, msg_simps]: "role (on_role r f m) = role m"
  by (simp add: on_role_def)

lemma content_on_role [msg_simps]:
  "content (on_role r f m) = (if role m = r then f (content m) else content m)"
  by (simp add: on_role_def)

lemma on_role_same: "f (content m) = content m \<Longrightarrow> on_role r f m = m"
  by (simp add: on_role_def map_content_def)

subsection \<open>Normalization\<close>

definition stabilize_user_block_order :: "content_block list \<Rightarrow> content_block list" where
  "stabilize_user_block_order blocks =
     (if length blocks < 2 then blocks
      else
        let has_tool_result = list_ex is_tool_result blocks;
            has_text_before = list_ex is_text (takeWhile (\<lambda>b. \<not> is_tool_result b) blocks)
        in if \<not> has_tool_result \<or> \<not> has_text_before then blocks
           else filter is_tool_result blocks @ filter (\<lambda>b. \<not> is_tool_result b) blocks)"

definition push_normalized :: "message list \<Rightarrow> message \<Rightarrow> message list" where
  "push_normalized result msg =
     (if role msg = System then result
      else if result \<noteq> [] \<and> role (last result) = role msg
           then butlast result @ [(last result)\<lparr>content := content (last result) @ content msg\<rparr>]
           else result @ [msg])"

definition normalize_messages :: "message list \<Rightarrow> message list" where
  "normalize_messages messages =
     map (on_role User stabilize_user_block_order) (foldl push_normalized [] messages)"

text \<open>The blocks of a conversation in order, each with the role of its message.\<close>

definition tagged_blocks :: "message list \<Rightarrow> (message_role \<times> content_block) list" where
  "tagged_blocks ms = concat (map (\<lambda>m. map (Pair (role m)) (content m)) ms)"

lemma tagged_blocks_simps [simp]:
  "tagged_blocks [] = []"
  "tagged_blocks (m # ms) = map (Pair (role m)) (content m) @ tagged_blocks ms"
  "tagged_blocks (xs @ ys) = tagged_blocks xs @ tagged_blocks ys"
  by (simp_all add: tagged_blocks_def)

definition alternating :: "message list \<Rightarrow> bool" where
  "alternating ms = successively (\<lambda>a b. role a \<noteq> role b) ms"

lemma stabilize_mset: "mset (stabilize_user_block_order bs) = mset bs"
  by (simp add: stabilize_user_block_order_def Let_def)

lemma stabilize_filter_results:
  "filter is_tool_result (stabilize_user_block_order bs) = filter is_tool_result bs"
  by (simp add: stabilize_user_block_order_def Let_def)

lemma stabilize_filter_rest:
  "filter (\<lambda>b. \<not> is_tool_result b) (stabilize_user_block_order bs) = filter (\<lambda>b. \<not> is_tool_result b) bs"
  by (simp add: stabilize_user_block_order_def Let_def)

text \<open>What the reordering establishes: no text before the first tool result.\<close>

definition results_lead :: "content_block list \<Rightarrow> bool" where
  "results_lead bs =
     (list_ex is_tool_result bs \<longrightarrow>
      \<not> list_ex is_text (takeWhile (\<lambda>b. \<not> is_tool_result b) bs))"

lemma takeWhile_results_first:
  assumes "list_ex is_tool_result bs"
  shows "takeWhile (\<lambda>b. \<not> is_tool_result b)
     (filter is_tool_result bs @ filter (\<lambda>b. \<not> is_tool_result b) bs) = []"
proof -
  have "filter is_tool_result bs \<noteq> []" using assms by (auto simp: list_ex_iff filter_empty_conv)
  then obtain x xs where "filter is_tool_result bs = x # xs" by (meson list.exhaust)
  moreover from this have "is_tool_result x" by (metis filter_eq_Cons_iff)
  ultimately show ?thesis by simp
qed

lemma short_list_cases: "length bs < 2 \<Longrightarrow> bs = [] \<or> (\<exists>b. bs = [b])"
  by (cases bs; cases "tl bs") auto

lemma stabilize_results_lead: "results_lead (stabilize_user_block_order bs)"
proof (cases "length bs < 2")
  case True
  then show ?thesis
    by (auto simp: results_lead_def stabilize_user_block_order_def dest!: short_list_cases)
next
  case False
  then show ?thesis
    using takeWhile_results_first[of bs]
    by (auto simp: results_lead_def stabilize_user_block_order_def Let_def)
qed

lemma stabilize_id: "results_lead bs \<Longrightarrow> stabilize_user_block_order bs = bs"
  by (auto simp: results_lead_def stabilize_user_block_order_def Let_def)

lemma stabilize_idem [simp]:
  "stabilize_user_block_order (stabilize_user_block_order bs) = stabilize_user_block_order bs"
  by (rule stabilize_id[OF stabilize_results_lead])

lemma push_normalized_tagged:
  "tagged_blocks (push_normalized acc m) =
     tagged_blocks acc @ tagged_blocks (filter (\<lambda>m. role m \<noteq> System) [m])"
proof (cases "acc = []")
  case False
  then have acc: "acc = butlast acc @ [last acc]" by simp
  have "tagged_blocks acc = tagged_blocks (butlast acc) @ map (Pair (role (last acc))) (content (last acc))"
    by (subst acc) simp
  with False show ?thesis by (simp add: push_normalized_def)
qed (simp add: push_normalized_def)

lemma merged_tagged:
  "tagged_blocks (foldl push_normalized acc ms) =
     tagged_blocks acc @ tagged_blocks (filter (\<lambda>m. role m \<noteq> System) ms)"
  by (induction ms arbitrary: acc) (auto simp: push_normalized_tagged)

text \<open>The roles of the merged list alternate and none is System.\<close>

definition normal_roles :: "message list \<Rightarrow> bool" where
  "normal_roles ms = (alternating ms \<and> (\<forall>m \<in> set ms. role m \<noteq> System))"

lemma alternating_snoc:
  "alternating (ms @ [m]) = (alternating ms \<and> (ms = [] \<or> role (last ms) \<noteq> role m))"
  by (auto simp: alternating_def successively_append_iff)

lemma alternating_map:
  "(\<And>m. role (f m) = role m) \<Longrightarrow> alternating (map f ms) = alternating ms"
  by (simp add: alternating_def successively_map)

lemma push_normalized_roles: "normal_roles acc \<Longrightarrow> normal_roles (push_normalized acc m)"
proof (cases "acc \<noteq> [] \<and> role (last acc) = role m \<and> role m \<noteq> System")
  case True
  assume n: "normal_roles acc"
  have acc: "butlast acc @ [last acc] = acc" using True by simp
  then have "alternating (butlast acc @ [last acc])" using n by (simp add: normal_roles_def)
  then have "alternating (butlast acc @ [(last acc)\<lparr>content := c\<rparr>])" for c
    by (simp add: alternating_snoc)
  with n True show ?thesis
    by (auto simp: normal_roles_def push_normalized_def dest: in_set_butlastD)
next
  case False
  assume "normal_roles acc"
  with False show ?thesis
    by (auto simp: normal_roles_def push_normalized_def alternating_snoc)
qed

lemma merged_roles: "normal_roles acc \<Longrightarrow> normal_roles (foldl push_normalized acc ms)"
  by (induction ms arbitrary: acc) (auto simp: push_normalized_roles)

lemma normalize_roles: "normal_roles (normalize_messages ms)"
proof -
  have "normal_roles (foldl push_normalized [] ms)"
    by (rule merged_roles) (simp add: normal_roles_def alternating_def)
  then show ?thesis
    by (auto simp: normal_roles_def normalize_messages_def alternating_map)
qed

lemma normalize_users_lead:
  "m \<in> set (normalize_messages ms) \<Longrightarrow> role m = User \<Longrightarrow> results_lead (content m)"
  by (auto simp: normalize_messages_def on_role_def stabilize_results_lead)

text \<open>A list in normal form is left alone by both phases.\<close>

lemma merge_alternating:
  "normal_roles (acc @ ms) \<Longrightarrow> foldl push_normalized acc ms = acc @ ms"
proof (induction ms arbitrary: acc)
  case (Cons m ms)
  then have "normal_roles ((acc @ [m]) @ ms)" by simp
  moreover have "push_normalized acc m = acc @ [m]"
    using Cons.prems
    by (auto simp: normal_roles_def alternating_def push_normalized_def successively_append_iff)
  ultimately show ?case using Cons.IH[of "acc @ [m]"] by simp
qed simp

lemma normalize_fixpoint:
  assumes "normal_roles ms" "\<forall>m \<in> set ms. role m = User \<longrightarrow> results_lead (content m)"
  shows "normalize_messages ms = ms"
proof -
  have "map (on_role User stabilize_user_block_order) ms = map id ms"
  proof (rule map_cong[OF refl])
    fix m assume "m \<in> set ms"
    with assms(2) show "on_role User stabilize_user_block_order m = id m"
      by (cases "role m = User") (auto simp: stabilize_id on_role_same, simp add: on_role_def)
  qed
  moreover have "foldl push_normalized [] ms = ms"
    using merge_alternating[of "[]" ms] assms(1) by simp
  ultimately show ?thesis by (simp add: normalize_messages_def)
qed

lemma tagged_map_on_role:
  assumes "\<And>bs. mset (f bs) = mset bs"
  shows "mset (tagged_blocks (map (on_role r f) ms)) = mset (tagged_blocks ms)"
proof (induction ms)
  case (Cons m ms)
  have "mset (content (on_role r f m)) = mset (content m)"
    using assms by (simp add: content_on_role)
  then have "mset (map (Pair (role m)) (content (on_role r f m))) = mset (map (Pair (role m)) (content m))"
    by (metis mset_map)
  with Cons show ?case by simp
qed simp

lemma tagged_filter_on_role:
  assumes "\<And>bs. filter p (f bs) = filter p bs"
  shows "filter (p \<circ> snd) (tagged_blocks (map (on_role r f) ms)) = filter (p \<circ> snd) (tagged_blocks ms)"
proof (induction ms)
  case (Cons m ms)
  have "filter (p \<circ> snd) (map (Pair ro) xs) = map (Pair ro) (filter p xs)" for ro :: message_role and xs
    by (simp add: filter_map comp_def)
  with Cons assms show ?case by (simp add: content_on_role del: comp_apply)
qed simp

subsection \<open>Properties\<close>


text \<open>
  C28. Normalization neither loses nor invents content: with its role, every block of the
  non-System messages is in the result exactly as often as before, and the tool results and the
  blocks that are no tool results each keep their order.
\<close>

theorem normalize_messages_preserves_blocks:
  "mset (tagged_blocks (normalize_messages ms))
     = mset (tagged_blocks (filter (\<lambda>m. role m \<noteq> System) ms))
   \<and> filter (is_tool_result \<circ> snd) (tagged_blocks (normalize_messages ms))
     = filter (is_tool_result \<circ> snd) (tagged_blocks (filter (\<lambda>m. role m \<noteq> System) ms))
   \<and> filter ((\<lambda>b. \<not> is_tool_result b) \<circ> snd) (tagged_blocks (normalize_messages ms))
     = filter ((\<lambda>b. \<not> is_tool_result b) \<circ> snd) (tagged_blocks (filter (\<lambda>m. role m \<noteq> System) ms))"
  unfolding normalize_messages_def
  using merged_tagged[of "[]" ms]
  by (simp add: tagged_map_on_role[OF stabilize_mset] tagged_filter_on_role[OF stabilize_filter_results]
      tagged_filter_on_role[OF stabilize_filter_rest])

text \<open>
  Normalization is idempotent: a second pass, as happens when a normalized conversation is
  sent to a provider whose request builder normalizes again, changes nothing.
\<close>

theorem normalize_messages_idempotent:
  "normalize_messages (normalize_messages ms) = normalize_messages ms"
  by (rule normalize_fixpoint) (auto simp: normalize_roles normalize_users_lead)

text \<open>
  The reordering stops short of what its comments say (\<open>ToolResult blocks come before Text
  blocks\<close>): when a user message begins with a tool result, a text between two tool results stays
  where it is. Merging a tool-results message that carries a warning with the next tool-results
  message produces exactly that.
\<close>

theorem normalize_leaves_text_between_results:
  "let tr = \<lambda>i. ToolResult i ''ok'' False False None;
       m1 = \<lparr>id_opt = None, role = User, content = [tr ''a'', Text ''warning'']\<rparr>;
       m2 = \<lparr>id_opt = None, role = User, content = [tr ''b'']\<rparr>
   in map content (normalize_messages [m1, m2]) = [[tr ''a'', Text ''warning'', tr ''b'']]"
  by (simp add: normalize_messages_def push_normalized_def on_role_def map_content_def
      stabilize_user_block_order_def)

end
