(* ===== verification/Budget.thy ===== *)
theory Budget
  imports Message
begin

section \<open>Counting tokens and the context budget\<close>

text \<open>
  \<open>crates/loopal-context/src/token_counter.rs\<close> and \<open>budget.rs\<close>. The tokenizer is the package
  \<open>tiktoken_rs\<close>: \<open>bpe\<close>, the number of tokens it makes of a text, is an argument here, as is the
  printer \<open>render\<close> of JSON values. All counts are \<open>u32\<close> and wrap. The lemmas give the budget as
  the truncated difference of natural numbers, and the order of the thresholds that drive
  degradation for every budget whose percentages do not overflow.
\<close>

definition estimate_tokens :: "(string \<Rightarrow> nat) \<Rightarrow> string \<Rightarrow> u32" where
  "estimate_tokens bpe txt = (if txt = [] then 0 else word_of_nat (bpe txt))"

fun block_tokens :: "(string \<Rightarrow> nat) \<Rightarrow> (json \<Rightarrow> string) \<Rightarrow> content_block \<Rightarrow> u32" where
  "block_tokens bpe render (Text t) = estimate_tokens bpe t"
| "block_tokens bpe render (ToolUse i n inp) = estimate_tokens bpe (render inp)"
| "block_tokens bpe render (ToolResult i c e k md) = estimate_tokens bpe c"
| "block_tokens bpe render (Image_block s) = 1000"
| "block_tokens bpe render (Thinking t sg) = estimate_tokens bpe t"
| "block_tokens bpe render (ServerToolUse i n inp) = estimate_tokens bpe (render inp)"
| "block_tokens bpe render (ServerToolResult bt i c) = estimate_tokens bpe (render c)"

definition estimate_message_tokens ::
  "(string \<Rightarrow> nat) \<Rightarrow> (json \<Rightarrow> string) \<Rightarrow> message \<Rightarrow> u32" where
  "estimate_message_tokens bpe render m = sum_list (map (block_tokens bpe render) (content m)) + 4"

definition estimate_messages_tokens ::
  "(string \<Rightarrow> nat) \<Rightarrow> (json \<Rightarrow> string) \<Rightarrow> message list \<Rightarrow> u32" where
  "estimate_messages_tokens bpe render ms = sum_list (map (estimate_message_tokens bpe render) ms)"

record context_budget =
  context_window :: u32
  system_tokens :: u32
  tool_tokens :: u32
  output_reserve :: u32
  safety_margin :: u32
  message_budget :: u32

definition calculate :: "(string \<Rightarrow> nat) \<Rightarrow> u32 \<Rightarrow> string \<Rightarrow> u32 \<Rightarrow> u32 \<Rightarrow> context_budget" where
  "calculate bpe window system_prompt tools max_output =
     (let system = estimate_tokens bpe system_prompt;
          reserve = min max_output 16384;
          safety = window div 20
      in \<lparr>context_window = window, system_tokens = system, tool_tokens = tools,
          output_reserve = reserve, safety_margin = safety,
          message_budget = sat_sub (sat_sub (sat_sub (sat_sub window system) tools) reserve) safety\<rparr>)"

record tool_definition =
  tool_name :: string
  tool_description :: string
  tool_schema :: json

definition estimate_tool_tokens ::
  "(string \<Rightarrow> nat) \<Rightarrow> (json \<Rightarrow> string) \<Rightarrow> tool_definition list \<Rightarrow> u32" where
  "estimate_tool_tokens bpe render defs =
     (if defs = [] then 0
      else sum_list (map (\<lambda>d. estimate_tokens bpe
             (tool_name d @ '' '' @ tool_description d @ '' '' @ render (tool_schema d))) defs) + 500)"

definition needs_compaction :: "context_budget \<Rightarrow> u32 \<Rightarrow> bool" where
  "needs_compaction b tokens = (message_budget b * 3 div 4 < tokens)"

definition needs_emergency :: "context_budget \<Rightarrow> u32 \<Rightarrow> bool" where
  "needs_emergency b tokens = (message_budget b * 19 div 20 < tokens)"

text \<open>\<open>tokens > budget.message_budget * p / 100\<close>, the test of the degradation layers.\<close>

definition over_percent :: "context_budget \<Rightarrow> u32 \<Rightarrow> u32 \<Rightarrow> bool" where
  "over_percent b p tokens = (message_budget b * p div 100 < tokens)"

lemma unat_div_mult:
  fixes b p q :: u32
  assumes "unat b * unat p < 2 ^ 32"
  shows "unat (b * p div q) = unat b * unat p div unat q"
  using assms by (simp add: unat_div unat_mult_small)

text \<open>
  The budget for messages is what is left of the context window when the system prompt, the
  tool definitions, the output reserve (16384 at most) and a twentieth of the window are taken
  off, and 0 when they exceed it: the chain of saturating subtractions is the truncated
  difference of the sums, for all values of the machine integers.
\<close>

theorem calculate_budget:
  "let b = calculate bpe window prompt tools out
   in unat (message_budget b)
        = unat window - (unat (estimate_tokens bpe prompt) + unat tools
                         + min (unat out) 16384 + unat window div 20)
      \<and> message_budget b \<le> window
      \<and> output_reserve b \<le> 16384"
proof -
  have "unat (min out 16384) = min (unat out) 16384"
    by (simp add: min_def word_le_nat_alt)
  moreover have "unat (window div 20) = unat window div 20"
    by (simp add: unat_div)
  moreover have "message_budget (calculate bpe window prompt tools out) \<le> window"
    by (simp add: calculate_def Let_def word_le_nat_alt unat_sat_sub)
  ultimately show ?thesis
    by (simp add: calculate_def Let_def unat_sat_sub)
qed

text \<open>The largest budget whose percentages stay below \<open>2 ^ 32\<close>: above it the products wrap.\<close>

definition small_budget :: "context_budget \<Rightarrow> bool" where
  "small_budget b = (unat (message_budget b) \<le> 47721858)"

text \<open>
  The thresholds are nested as the degradation table says: more than 95 percent of the budget
  (emergency) implies more than 90 (layer 3), which implies more than 75 (summarization), which
  implies more than 60 (layer 1), for every budget up to 47,721,858 tokens.
\<close>

theorem thresholds_nested:
  "small_budget b \<Longrightarrow>
     (needs_emergency b t \<longrightarrow> over_percent b 90 t)
   \<and> (over_percent b 90 t \<longrightarrow> needs_compaction b t)
   \<and> (needs_compaction b t \<longrightarrow> over_percent b 60 t)"
  by (auto simp: small_budget_def needs_emergency_def needs_compaction_def over_percent_def
      word_less_nat_alt unat_div_mult)

theorem thresholds_nested_witness:
  "small_budget \<lparr>context_window = 200000, system_tokens = 0, tool_tokens = 0, output_reserve = 0,
     safety_margin = 0, message_budget = 100000\<rparr>
   \<and> needs_emergency \<lparr>context_window = 200000, system_tokens = 0, tool_tokens = 0,
     output_reserve = 0, safety_margin = 0, message_budget = 100000\<rparr> 95001
   \<and> over_percent \<lparr>context_window = 200000, system_tokens = 0, tool_tokens = 0,
     output_reserve = 0, safety_margin = 0, message_budget = 100000\<rparr> 60 95001"
  using thresholds_nested[of "\<lparr>context_window = 200000, system_tokens = 0, tool_tokens = 0,
     output_reserve = 0, safety_margin = 0, message_budget = 100000\<rparr>" 95001]
  by (simp add: small_budget_def needs_emergency_def)

end
