(* ===== verification/Tool_Output.thy ===== *)
theory Tool_Output
  imports Rust_Search
begin

section \<open>Bounding tool output\<close>

text \<open>
  \<open>crates/loopal-tool-api/src/truncate.rs\<close> and \<open>output_tail.rs\<close>. \<open>truncate_output\<close> keeps whole
  lines while both limits allow and appends a notice with what it left out; \<open>OutputTail\<close> is the
  buffer of the last lines of a running command. The lemmas give \<open>truncate_output\<close> in closed form,
  show that its two subtractions never wrap, and that the buffer is exactly a tail of what was
  pushed.
\<close>

subsection \<open>truncate\_output\<close>

definition omitted_notice :: "nat \<Rightarrow> nat \<Rightarrow> string" where
  "omitted_notice remaining_lines remaining_bytes =
     NL # ''... truncated ('' @ nat_str remaining_lines @ '' lines, ''
     @ nat_str remaining_bytes @ '' bytes omitted)''"

fun truncate_loop ::
  "nat \<Rightarrow> nat \<Rightarrow> nat \<Rightarrow> nat \<Rightarrow> nat \<Rightarrow> nat \<Rightarrow> string \<Rightarrow> string list \<Rightarrow> string" where
  "truncate_loop max_lines max_bytes total_lines total_bytes line_count byte_count result [] = result"
| "truncate_loop max_lines max_bytes total_lines total_bytes line_count byte_count result (line # rest) =
     (let line_bytes = length line + 1
      in if max_lines \<le> line_count \<or> max_bytes < byte_count + line_bytes
         then result @ omitted_notice (total_lines - line_count) (total_bytes - byte_count)
         else truncate_loop max_lines max_bytes total_lines total_bytes
                (line_count + 1) (byte_count + line_bytes)
                (result @ (if 0 < line_count then [NL] else []) @ line) rest)"

definition truncate_output :: "string \<Rightarrow> nat \<Rightarrow> nat \<Rightarrow> string" where
  "truncate_output output max_lines max_bytes =
     (if output = [] then []
      else truncate_loop max_lines max_bytes (length (rust_lines output)) (length output) 0 0 []
             (rust_lines output))"

definition needs_truncation :: "string \<Rightarrow> nat \<Rightarrow> nat \<Rightarrow> bool" where
  "needs_truncation output max_lines max_bytes =
     (max_bytes < length output \<or> max_lines < length (rust_lines output))"

text \<open>The specification: how many lines fit, a line costing its bytes and its newline.\<close>

definition lines_bytes :: "string list \<Rightarrow> nat" where
  "lines_bytes ls = sum_list (map (\<lambda>l. length l + 1) ls)"

fun lines_that_fit :: "nat \<Rightarrow> nat \<Rightarrow> string list \<Rightarrow> nat" where
  "lines_that_fit max_lines max_bytes [] = 0"
| "lines_that_fit max_lines max_bytes (l # ls) =
     (if max_lines = 0 \<or> max_bytes < length l + 1 then 0
      else Suc (lines_that_fit (max_lines - 1) (max_bytes - (length l + 1)) ls))"

lemma lines_that_fit_le: "lines_that_fit L B ls \<le> length ls"
  by (induction L B ls rule: lines_that_fit.induct) auto

lemma lines_that_fit_max_lines: "lines_that_fit L B ls \<le> L"
  by (induction L B ls rule: lines_that_fit.induct) auto

lemma lines_that_fit_max_bytes: "lines_bytes (take (lines_that_fit L B ls) ls) \<le> B"
  by (induction L B ls rule: lines_that_fit.induct) (auto simp: lines_bytes_def)

lemma lines_that_fit_maximal:
  "k = lines_that_fit L B ls \<Longrightarrow> k < length ls \<Longrightarrow> k = L \<or> B < lines_bytes (take (Suc k) ls)"
  by (induction L B ls arbitrary: k rule: lines_that_fit.induct)
    (auto simp: lines_bytes_def split: if_splits)

lemma lines_that_fit_all:
  "length ls \<le> L \<Longrightarrow> lines_bytes ls \<le> B \<Longrightarrow> lines_that_fit L B ls = length ls"
  by (induction L B ls rule: lines_that_fit.induct) (auto simp: lines_bytes_def)

text \<open>Lines added after what is already in the result.\<close>

definition joined_after :: "nat \<Rightarrow> string list \<Rightarrow> string" where
  "joined_after n ls =
     (if ls = [] then [] else (if 0 < n then [NL] else []) @ str_join [NL] ls)"

lemma joined_after_Cons:
  "joined_after n (l # ls) = (if 0 < n then [NL] else []) @ l @ joined_after (Suc n) ls"
  by (cases ls) (auto simp: joined_after_def)

lemma truncate_loop_eq:
  assumes "n \<le> L" "b \<le> B"
  shows "truncate_loop L B TL TB n b r ls =
    (let k = lines_that_fit (L - n) (B - b) ls
     in r @ joined_after n (take k ls)
        @ (if k = length ls then [] else omitted_notice (TL - (n + k)) (TB - (b + lines_bytes (take k ls)))))"
  using assms
proof (induction ls arbitrary: n b r)
  case Nil
  then show ?case by (simp add: joined_after_def)
next
  case (Cons l ls)
  show ?case
  proof (cases "L \<le> n \<or> B < b + (length l + 1)")
    case True
    then have "lines_that_fit (L - n) (B - b) (l # ls) = 0" using Cons.prems by auto
    with True show ?thesis by (auto simp: Let_def joined_after_def lines_bytes_def)
  next
    case False
    then have k: "lines_that_fit (L - n) (B - b) (l # ls)
        = Suc (lines_that_fit (L - Suc n) (B - (b + (length l + 1))) ls)"
      by auto
    from False have "Suc n \<le> L" "Suc (b + length l) \<le> B" by auto
    note IH = Cons.IH[OF this]
    show ?thesis
      using False unfolding k
      by (simp add: IH Let_def joined_after_Cons lines_bytes_def add.assoc)
  qed
qed

lemma lines_bytes_take_le:
  assumes "k < length (rust_lines s)"
  shows "lines_bytes (take k (rust_lines s)) \<le> length s"
proof -
  let ?ls = "rust_lines s"
  have "lines_bytes (take k ?ls) + lines_bytes (drop k ?ls) = lines_bytes ?ls"
    by (metis append_take_drop_id lines_bytes_def map_append sum_list_append)
  moreover have "0 < lines_bytes (drop k ?ls)"
    using assms by (cases "drop k ?ls") (auto simp: lines_bytes_def)
  moreover have "lines_bytes ?ls \<le> length s + 1"
    using length_rust_lines_le[of s] by (simp add: lines_bytes_def)
  ultimately show ?thesis by linarith
qed

text \<open>
  \<open>truncate_output\<close> in closed form: with k the number of lines that fit both limits, the output
  is the first k lines joined by newlines, followed, when lines are left out, by the notice that
  names their number and the bytes not accounted for. The kept lines respect both limits, k is
  the largest such number, and the byte subtraction of the notice does not wrap.
\<close>

theorem truncate_output_spec:
  "output \<noteq> [] \<Longrightarrow>
   let ls = rust_lines output; k = lines_that_fit L B ls; used = lines_bytes (take k ls)
   in truncate_output output L B
        = str_join [NL] (take k ls)
          @ (if k = length ls then [] else omitted_notice (length ls - k) (length output - used))
      \<and> k \<le> L \<and> used \<le> B
      \<and> (k < length ls \<longrightarrow> used \<le> length output \<and> (k = L \<or> B < lines_bytes (take (Suc k) ls)))"
  using truncate_loop_eq[of 0 L 0 B "length (rust_lines output)" "length output" "[]" "rust_lines output"]
    lines_that_fit_max_lines[of L B "rust_lines output"]
    lines_that_fit_max_bytes[of L B "rust_lines output"]
    lines_that_fit_maximal[OF refl, of L B "rust_lines output"]
    lines_bytes_take_le[where s = "output"]
  by (auto simp: truncate_output_def Let_def joined_after_def)

theorem truncate_output_spec_witness:
  "(''one'' @ NL # ''two'' @ NL # ''three'' :: string) \<noteq> []
   \<and> truncate_output (''one'' @ NL # ''two'' @ NL # ''three'') 2 100
     = ''one'' @ NL # ''two'' @ omitted_notice 1 5"
  using truncate_output_spec[of "''one'' @ NL # ''two'' @ NL # ''three''" 2 100]
  by (simp add: Let_def rust_lines.simps strip_cr_def lines_bytes_def eval_nat_numeral)

text \<open>
  An output within the limits that does not end in a newline is still truncated when it fills
  the byte limit exactly, because its last line is charged for a newline it does not have:
  \<open>needs_truncation\<close> says no, and \<open>truncate_output\<close> drops the line.
\<close>

theorem truncate_output_drops_exact_fit:
  "\<not> needs_truncation ''abc'' 10 3 \<and> truncate_output ''abc'' 10 3 = omitted_notice 1 3"
  by code_simp

subsection \<open>The tail buffer\<close>

record output_tail =
  tail_lines :: "string list"
  tail_max :: nat

definition output_tail_new :: "nat \<Rightarrow> output_tail" where
  "output_tail_new n = \<lparr>tail_lines = [], tail_max = n\<rparr>"

definition push_line :: "string \<Rightarrow> output_tail \<Rightarrow> output_tail" where
  "push_line line t =
     (let buf = (if tail_max t \<le> length (tail_lines t) then drop 1 (tail_lines t) else tail_lines t)
      in t\<lparr>tail_lines := buf @ [line]\<rparr>)"

definition snapshot :: "output_tail \<Rightarrow> string" where
  "snapshot t = str_join [NL] (tail_lines t)"

text \<open>A buffer made for no line at all holds one: it is pushed after the (empty) pop.\<close>

definition tail_bounded :: "output_tail \<Rightarrow> bool" where
  "tail_bounded t = (length (tail_lines t) \<le> max 1 (tail_max t))"

interpretation tail_ops: op_system push_line tail_bounded "output_tail_new n" for n
  by unfold_locales (auto simp: output_tail_new_def tail_bounded_def push_line_def Let_def)

lemma max_lines_push [simp]: "tail_max (push_line l t) = tail_max t"
  by (simp add: push_line_def Let_def)

lemma max_lines_run [simp]: "tail_max (run_ops push_line ls t) = tail_max t"
  by (induction ls arbitrary: t) auto

lemma tail_lines_push:
  "tail_lines (push_line l t) =
     (if tail_max t \<le> length (tail_lines t) then drop 1 (tail_lines t) else tail_lines t) @ [l]"
  by (simp add: push_line_def Let_def)

lemma tail_lines_run:
  "tail_lines (run_ops push_line ls (output_tail_new n)) = drop (length ls - max 1 n) ls"
proof (induction ls rule: rev_induct)
  case (snoc l ls)
  let ?t = "run_ops push_line ls (output_tail_new n)"
  have max: "tail_max ?t = n" by (simp add: output_tail_new_def)
  show ?case
  proof (cases "n \<le> length (tail_lines ?t)")
    case True
    have "drop 1 (drop (length ls - max 1 n) ls) = drop (length (ls @ [l]) - max 1 n) ls"
      using True snoc by (cases "length ls"; cases n) (auto simp: Suc_diff_le max_def)
    with True snoc max show ?thesis by (simp add: run_ops_append tail_lines_push)
  next
    case False
    then have "length ls - max 1 n = 0" "length (ls @ [l]) - max 1 n = 0"
      using snoc by (auto simp: max_def split: if_splits)
    with False snoc max show ?thesis by (simp add: run_ops_append tail_lines_push)
  qed
qed (simp add: output_tail_new_def)

text \<open>
  Whatever was pushed, a snapshot of the buffer shows its last \<open>max_lines\<close> lines (the last one
  when the buffer was made with capacity 0), joined by newlines.
\<close>

theorem output_tail_is_tail:
  "snapshot (run_ops push_line ls (output_tail_new n))
     = str_join [NL] (drop (length ls - max 1 n) ls)
   \<and> tail_bounded (run_ops push_line ls (output_tail_new n))"
  using tail_ops.inv_reached by (simp add: snapshot_def tail_lines_run)

end
