(* ===== verification/Ingestion.thy ===== *)
theory Ingestion
  imports Budget Tool_Output
begin

section \<open>The ingestion gate\<close>

text \<open>
  \<open>crates/loopal-context/src/ingestion.rs\<close>: what is done to a message before it enters the store.
  Oversized tool results are cut to whole lines, never when they report an error; server blocks
  (JSON) are never cut, only dropped in pairs or condensed into a text. The lemmas show exactly
  which blocks change, that the pairs of server blocks are closed afterwards, and that the
  in-place rewriting of a message by collected indices is a single map-and-filter.
\<close>

definition CAP_MAX_LINES :: nat where "CAP_MAX_LINES = 500"
definition CAP_MAX_BYTES :: nat where "CAP_MAX_BYTES = 20000"

definition truncation_note :: "nat \<Rightarrow> nat \<Rightarrow> nat \<Rightarrow> nat \<Rightarrow> string" where
  "truncation_note kept_bytes original_bytes max_lines original_lines =
     NL # ''[Truncated: kept '' @ nat_str kept_bytes @ ''/'' @ nat_str original_bytes
     @ '' bytes, approx '' @ nat_str max_lines @ ''/'' @ nat_str original_lines @ '' lines]''"

fun safe_truncate_tool_result :: "nat \<Rightarrow> nat \<Rightarrow> content_block \<Rightarrow> content_block" where
  "safe_truncate_tool_result L B (ToolResult i c e k md) =
     (if e then ToolResult i c e k md
      else if length c \<le> B \<and> length (rust_lines c) \<le> L then ToolResult i c e k md
      else
        let truncated = truncate_output c L B
        in ToolResult i (truncated
             @ truncation_note (min (length truncated) (length c)) (length c) L (length (rust_lines c)))
             e k md)"
| "safe_truncate_tool_result L B b = b"

fun cap_tool_result :: "(string \<Rightarrow> nat) \<Rightarrow> u32 \<Rightarrow> content_block \<Rightarrow> content_block" where
  "cap_tool_result bpe max_tokens (ToolResult i c e k md) =
     (if e then ToolResult i c e k md
      else if max_tokens < estimate_tokens bpe c
           then safe_truncate_tool_result CAP_MAX_LINES CAP_MAX_BYTES (ToolResult i c e k md)
           else ToolResult i c e k md)"
| "cap_tool_result bpe max_tokens b = b"

definition cap_tool_results :: "(string \<Rightarrow> nat) \<Rightarrow> u32 \<Rightarrow> message \<Rightarrow> message" where
  "cap_tool_results bpe max_tokens msg =
     (if role msg \<noteq> User then msg else map_content (map (cap_tool_result bpe max_tokens)) msg)"

subsection \<open>Pairs of server blocks\<close>

fun server_use_of :: "content_block \<Rightarrow> string option" where
  "server_use_of (ServerToolUse i n inp) = Some i"
| "server_use_of _ = None"

fun server_result_of :: "content_block \<Rightarrow> string option" where
  "server_result_of (ServerToolResult bt i c) = Some i"
| "server_result_of _ = None"

definition server_use_ids :: "content_block list \<Rightarrow> string set" where
  "server_use_ids bs = set (List.map_filter server_use_of bs)"

definition server_result_ids :: "content_block list \<Rightarrow> string set" where
  "server_result_ids bs = set (List.map_filter server_result_of bs)"

text \<open>The two sets are computed before the blocks are filtered.\<close>

fun in_pair :: "string set \<Rightarrow> string set \<Rightarrow> content_block \<Rightarrow> bool" where
  "in_pair result_ids use_ids (ServerToolUse i n inp) = (i \<in> result_ids)"
| "in_pair result_ids use_ids (ServerToolResult bt i c) = (i \<in> use_ids)"
| "in_pair result_ids use_ids b = True"

definition retain_server_pairs :: "content_block list \<Rightarrow> content_block list" where
  "retain_server_pairs bs = filter (in_pair (server_result_ids bs) (server_use_ids bs)) bs"

definition strip_orphaned_server_tool_blocks :: "message \<Rightarrow> message" where
  "strip_orphaned_server_tool_blocks msg =
     (if server_result_ids (content msg) = {} \<and> server_use_ids (content msg) = {} then msg
      else map_content retain_server_pairs msg)"

definition server_paired :: "content_block list \<Rightarrow> bool" where
  "server_paired bs = (server_use_ids bs = server_result_ids bs)"

lemma in_server_use_ids: "i \<in> server_use_ids bs \<longleftrightarrow> (\<exists>n inp. ServerToolUse i n inp \<in> set bs)"
proof -
  have "server_use_of b = Some i \<longleftrightarrow> (\<exists>n inp. b = ServerToolUse i n inp)" for b
    by (cases b) auto
  then show ?thesis
    by (force simp: server_use_ids_def List.map_filter_def image_iff)
qed

lemma in_server_result_ids: "i \<in> server_result_ids bs \<longleftrightarrow> (\<exists>bt c. ServerToolResult bt i c \<in> set bs)"
proof -
  have "server_result_of b = Some i \<longleftrightarrow> (\<exists>bt c. b = ServerToolResult bt i c)" for b
    by (cases b) auto
  then show ?thesis
    by (force simp: server_result_ids_def List.map_filter_def image_iff)
qed

lemmas server_ids = in_server_use_ids in_server_result_ids

lemma retain_server_pairs_paired: "server_paired (retain_server_pairs bs)"
  unfolding server_paired_def retain_server_pairs_def
  by (auto simp: set_eq_iff server_ids)

lemma retain_server_pairs_id:
  assumes "server_paired bs"
  shows "retain_server_pairs bs = bs"
proof -
  have eq: "server_use_ids bs = server_result_ids bs" using assms by (simp add: server_paired_def)
  have use: "ServerToolUse i n inp \<in> set bs \<Longrightarrow> i \<in> server_result_ids bs" for i n inp
    unfolding eq[symmetric] in_server_use_ids by blast
  have res: "ServerToolResult bt i c \<in> set bs \<Longrightarrow> i \<in> server_use_ids bs" for bt i c
    unfolding eq in_server_result_ids by blast
  have "in_pair (server_result_ids bs) (server_use_ids bs) b" if "b \<in> set bs" for b
    by (cases b) (insert that use res, simp_all)
  then show ?thesis by (simp add: retain_server_pairs_def)
qed

lemma strip_orphaned_eq: "strip_orphaned_server_tool_blocks msg = map_content retain_server_pairs msg"
proof (cases "server_result_ids (content msg) = {} \<and> server_use_ids (content msg) = {}")
  case True
  then have "retain_server_pairs (content msg) = content msg"
    by (intro retain_server_pairs_id) (simp add: server_paired_def)
  with True show ?thesis by (simp add: strip_orphaned_server_tool_blocks_def map_content_def)
next
  case False
  then show ?thesis unfolding strip_orphaned_server_tool_blocks_def by (rule if_not_P)
qed

subsection \<open>Condensing server blocks\<close>

definition condensed_text :: "string \<Rightarrow> content_block" where
  "condensed_text name = Text (''[server tool '' @ [CHR 0x27] @ name @ [CHR 0x27] @ '' result condensed]'')"

fun replacement_at :: "nat \<Rightarrow> content_block \<Rightarrow> (nat \<times> content_block) list" where
  "replacement_at bi (ServerToolUse i n inp) = [(bi, condensed_text n)]"
| "replacement_at bi _ = []"

definition condense_server_blocks_in_message :: "message \<Rightarrow> message" where
  "condense_server_blocks_in_message msg =
     (let replacements = concat (map_idx replacement_at (content msg));
          removals = indices is_ServerToolResult (content msg);
          replaced = fold (\<lambda>(bi, r) bs. bs[bi := r]) replacements (content msg)
      in msg\<lparr>content := fold remove_at (rev removals) replaced\<rparr>)"

text \<open>The specification: each use becomes a text, each result disappears, the rest stays.\<close>

fun condense_block :: "content_block \<Rightarrow> content_block" where
  "condense_block (ServerToolUse i n inp) = condensed_text n"
| "condense_block b = b"

definition condense_spec :: "content_block list \<Rightarrow> content_block list" where
  "condense_spec bs = map condense_block (filter (\<lambda>b. \<not> is_ServerToolResult b) bs)"

lemma replace_loop:
  "fold (\<lambda>(bi, r) bs. bs[bi := r]) (concat (map_from replacement_at (length ps) bs)) (ps @ bs)
     = ps @ map condense_block bs"
proof (induction bs arbitrary: ps)
  case (Cons b bs)
  from Cons[of "ps @ [condense_block b]"] show ?case
    by (cases b) (auto simp: list_update_append)
qed simp

lemma is_result_condense_block: "is_ServerToolResult (condense_block b) = is_ServerToolResult b"
  by (cases b) (auto simp: condensed_text_def)

lemma condense_eq: "condense_server_blocks_in_message msg = map_content condense_spec msg"
proof -
  let ?bs = "content msg"
  have r: "fold (\<lambda>(bi, r) bs. bs[bi := r]) (concat (map_idx replacement_at ?bs)) ?bs
      = map condense_block ?bs"
    using replace_loop[of "[]" ?bs] by simp
  have "indices is_ServerToolResult ?bs = indices is_ServerToolResult (map condense_block ?bs)"
    by (simp add: indices_map comp_def is_result_condense_block)
  then have "fold remove_at (rev (indices is_ServerToolResult ?bs)) (map condense_block ?bs)
      = filter (\<lambda>b. \<not> is_ServerToolResult b) (map condense_block ?bs)"
    by (simp add: fold_remove_indices)
  also have "\<dots> = condense_spec ?bs"
    by (simp add: condense_spec_def filter_map comp_def is_result_condense_block)
  finally show ?thesis
    by (simp add: condense_server_blocks_in_message_def Let_def r map_content_def)
qed

lemma condense_spec_no_server:
  "b \<in> set (condense_spec bs) \<Longrightarrow> \<not> is_ServerToolUse b \<and> \<not> is_ServerToolResult b"
proof -
  have "\<not> is_ServerToolUse (condense_block b)" for b
    by (cases b) (auto simp: condensed_text_def)
  moreover assume "b \<in> set (condense_spec bs)"
  ultimately show ?thesis by (auto simp: condense_spec_def is_result_condense_block)
qed

lemma condense_spec_id:
  "(\<forall>b \<in> set bs. \<not> is_ServerToolUse b \<and> \<not> is_ServerToolResult b) \<Longrightarrow> condense_spec bs = bs"
proof -
  have "\<not> is_ServerToolUse b \<Longrightarrow> condense_block b = b" for b by (cases b) auto
  moreover assume "\<forall>b \<in> set bs. \<not> is_ServerToolUse b \<and> \<not> is_ServerToolResult b"
  ultimately show ?thesis by (auto simp: condense_spec_def map_idI)
qed

definition condense_old_server_blocks :: "message list \<Rightarrow> message list" where
  "condense_old_server_blocks messages =
     (let last_assistant_idx = rposition (\<lambda>m. role m = Assistant) messages
      in map_idx (\<lambda>i msg. if role msg \<noteq> Assistant \<or> Some i = last_assistant_idx then msg
                          else condense_server_blocks_in_message msg) messages)"

definition condense_all_server_blocks :: "message list \<Rightarrow> message list" where
  "condense_all_server_blocks messages =
     map (\<lambda>msg. if role msg = Assistant then condense_server_blocks_in_message msg else msg) messages"

definition cap_assistant_server_blocks :: "(json \<Rightarrow> string) \<Rightarrow> u32 \<Rightarrow> message \<Rightarrow> message" where
  "cap_assistant_server_blocks render max_tokens msg =
     (if role msg \<noteq> Assistant then msg
      else
        let msg = strip_orphaned_server_tool_blocks msg
        in if \<not> list_ex is_ServerToolResult (content msg) then msg
           else if estimated_token_count render msg \<le> max_tokens then msg
           else condense_server_blocks_in_message msg)"

subsection \<open>What the gate leaves alone\<close>

text \<open>A block the truncating passes may change: a tool result that is no error.\<close>

definition truncatable :: "content_block \<Rightarrow> bool" where
  "truncatable b = (is_ToolResult b \<and> \<not> is_error b)"

lemma safe_truncate_id [simp]: "\<not> truncatable b \<Longrightarrow> safe_truncate_tool_result L B b = b"
  by (cases b) (auto simp: truncatable_def)

lemma cap_tool_result_id [simp]: "\<not> truncatable b \<Longrightarrow> cap_tool_result bpe t b = b"
  by (cases b) (auto simp: truncatable_def)

text \<open>The identity of a block: everything but the text of a truncatable tool result.\<close>

fun block_shape :: "content_block \<Rightarrow> content_block" where
  "block_shape (ToolResult i c e k md) = ToolResult i (if e then c else []) e k md"
| "block_shape b = b"

lemma safe_truncate_shape [simp]: "block_shape (safe_truncate_tool_result L B b) = block_shape b"
  by (cases b) (auto simp: Let_def)

lemma cap_tool_result_shape [simp]: "block_shape (cap_tool_result bpe t b) = block_shape b"
  by (cases b) (auto simp: Let_def)

definition same_shapes :: "message \<Rightarrow> message \<Rightarrow> bool" where
  "same_shapes m m' = (id_opt m' = id_opt m \<and> role m' = role m
     \<and> map block_shape (content m') = map block_shape (content m))"

subsection \<open>Properties\<close>

text \<open>The blocks no server tool made, and how the two passes keep them.\<close>

definition other_block :: "content_block \<Rightarrow> bool" where
  "other_block b = (\<not> is_ServerToolUse b \<and> \<not> is_ServerToolResult b)"

lemma in_pair_other: "other_block b \<Longrightarrow> in_pair A B b"
  by (cases b) (auto simp: other_block_def)

lemma condense_block_other: "other_block b \<Longrightarrow> condense_block b = b"
  by (cases b) (auto simp: other_block_def)

lemma other_retain: "filter other_block (retain_server_pairs bs) = filter other_block bs"
  unfolding retain_server_pairs_def filter_filter
  by (rule filter_cong[OF refl]) (auto simp: in_pair_other)

lemma subseq_other_retain: "subseq (filter other_block bs) (retain_server_pairs bs)"
  by (metis other_retain subseq_filter_left)

lemma subseq_other_condense: "subseq (filter other_block bs) (condense_spec (retain_server_pairs bs))"
proof -
  let ?kept = "retain_server_pairs bs"
  have "filter other_block bs = map condense_block (filter other_block ?kept)"
    unfolding other_retain by (rule map_idI[symmetric]) (simp add: condense_block_other)
  also have "filter other_block ?kept = filter other_block (filter (\<lambda>b. \<not> is_ServerToolResult b) ?kept)"
    unfolding filter_filter by (rule filter_cong[OF refl]) (auto simp: other_block_def)
  finally show ?thesis
    unfolding condense_spec_def by (simp only: subseq_map subseq_filter_left)
qed

lemma condense_spec_paired: "server_paired (condense_spec bs)"
proof -
  have "server_use_ids (condense_spec bs) = {}" "server_result_ids (condense_spec bs) = {}"
    using condense_spec_no_server[of _ bs]
    by (meson equals0I in_server_use_ids in_server_result_ids content_block.disc)+
  then show ?thesis by (simp add: server_paired_def)
qed

text \<open>
  Rewriting the server blocks of a message through collected indices (replace at each index of
  a use, then remove the indices of the results from the last to the first) is exactly the
  map-and-filter it stands for, and leaves no server block.
\<close>

theorem condense_in_message_refines_spec:
  "condense_server_blocks_in_message msg
     = msg\<lparr>content := map condense_block (filter (\<lambda>b. \<not> is_ServerToolResult b) (content msg))\<rparr>
   \<and> list_all (\<lambda>b. \<not> is_ServerToolUse b \<and> \<not> is_ServerToolResult b)
       (content (condense_server_blocks_in_message msg))"
proof
  show "condense_server_blocks_in_message msg
     = msg\<lparr>content := map condense_block (filter (\<lambda>b. \<not> is_ServerToolResult b) (content msg))\<rparr>"
    by (simp only: condense_eq map_content_def condense_spec_def)
  show "list_all (\<lambda>b. \<not> is_ServerToolUse b \<and> \<not> is_ServerToolResult b)
       (content (condense_server_blocks_in_message msg))"
    by (simp only: condense_eq content_map_content list_all_iff)
      (blast dest: condense_spec_no_server)
qed

text \<open>
  An assistant message leaves the gate with its server blocks paired (the ids of the uses are
  the ids of the results), whatever was truncated mid-stream, and no other block is touched: the
  blocks that are no server blocks reappear in order, possibly with condensed texts among them.
\<close>

theorem cap_assistant_server_blocks_paired:
  "role msg = Assistant \<Longrightarrow>
     server_paired (content (cap_assistant_server_blocks render t msg))
   \<and> subseq (filter other_block (content msg))
       (content (cap_assistant_server_blocks render t msg))"
  using subseq_other_retain[of "content msg"] subseq_other_condense[of "content msg"]
  by (simp add: cap_assistant_server_blocks_def Let_def strip_orphaned_eq condense_eq
      retain_server_pairs_paired condense_spec_paired other_block_def)

theorem cap_assistant_server_blocks_paired_witness:
  "role \<lparr>id_opt = None, role = Assistant, content = [ServerToolUse ''s'' ''web'' JNull, Text ''a'']\<rparr> = Assistant
   \<and> server_paired (content (cap_assistant_server_blocks (\<lambda>_. []) 10
       \<lparr>id_opt = None, role = Assistant, content = [ServerToolUse ''s'' ''web'' JNull, Text ''a'']\<rparr>))"
  using cap_assistant_server_blocks_paired[of
    "\<lparr>id_opt = None, role = Assistant, content = [ServerToolUse ''s'' ''web'' JNull, Text ''a'']\<rparr>"
    "\<lambda>_. []" 10]
  by simp

end
