(* ===== verification/Compaction.thy ===== *)
theory Compaction
  imports Ingestion
begin

section \<open>Compaction and the pairing of tool blocks\<close>

text \<open>
  \<open>crates/loopal-context/src/compaction.rs\<close>. \<open>sanitize_tool_pairs\<close> runs after every operation that
  drops messages: six passes that remove tool results without a use, uses without a result,
  unpaired server blocks, and messages left empty. The lemmas describe each pass on the sequence
  of blocks of one role; together they show that the result is closed under pairing and that a
  conversation that is closed already is left as it is.
\<close>

subsection \<open>The blocks of one role\<close>

definition role_blocks :: "message_role \<Rightarrow> message list \<Rightarrow> content_block list" where
  "role_blocks r ms = concat (map content (filter (\<lambda>m. role m = r) ms))"

lemma role_blocks_simps [simp]:
  "role_blocks r [] = []"
  "role_blocks r (m # ms) = (if role m = r then content m else []) @ role_blocks r ms"
  "role_blocks r (xs @ ys) = role_blocks r xs @ role_blocks r ys"
  by (auto simp: role_blocks_def)

lemma role_blocks_retain:
  "role_blocks r (map (on_role r (filter p)) ms) = filter p (role_blocks r ms)"
  by (induction ms) (auto simp: content_on_role)

lemma role_blocks_other_role:
  "r \<noteq> r' \<Longrightarrow> role_blocks r (map (on_role r' f) ms) = role_blocks r ms"
  by (induction ms) (auto simp: content_on_role)

lemma role_blocks_keeps:
  "(\<And>bs. filter q (f bs) = filter q bs) \<Longrightarrow>
     filter q (role_blocks r (map (on_role r f) ms)) = filter q (role_blocks r ms)"
  by (induction ms) (auto simp: content_on_role)

fun tool_use_of :: "content_block \<Rightarrow> string option" where
  "tool_use_of (ToolUse i n inp) = Some i"
| "tool_use_of _ = None"

fun tool_result_of :: "content_block \<Rightarrow> string option" where
  "tool_result_of (ToolResult i c e k md) = Some i"
| "tool_result_of _ = None"

definition tool_use_ids :: "message list \<Rightarrow> string set" where
  "tool_use_ids ms = set (List.map_filter tool_use_of (role_blocks Assistant ms))"

definition tool_result_ids :: "message list \<Rightarrow> string set" where
  "tool_result_ids ms = set (List.map_filter tool_result_of (role_blocks User ms))"

lemma in_tool_use_ids:
  "i \<in> tool_use_ids ms \<longleftrightarrow> (\<exists>n inp. ToolUse i n inp \<in> set (role_blocks Assistant ms))"
proof -
  have "tool_use_of b = Some i \<longleftrightarrow> (\<exists>n inp. b = ToolUse i n inp)" for b by (cases b) auto
  then show ?thesis by (force simp: tool_use_ids_def List.map_filter_def image_iff)
qed

lemma in_tool_result_ids:
  "i \<in> tool_result_ids ms \<longleftrightarrow> (\<exists>c e k md. ToolResult i c e k md \<in> set (role_blocks User ms))"
proof -
  have "tool_result_of b = Some i \<longleftrightarrow> (\<exists>c e k md. b = ToolResult i c e k md)" for b by (cases b) auto
  then show ?thesis by (force simp: tool_result_ids_def List.map_filter_def image_iff)
qed

subsection \<open>The passes\<close>

fun result_known :: "string set \<Rightarrow> content_block \<Rightarrow> bool" where
  "result_known ids (ToolResult i c e k md) = (i \<in> ids)"
| "result_known ids b = True"

fun use_known :: "string set \<Rightarrow> content_block \<Rightarrow> bool" where
  "use_known ids (ToolUse i n inp) = (i \<in> ids)"
| "use_known ids b = True"

fun is_empty_json :: "json \<Rightarrow> bool" where
  "is_empty_json JNull = True"
| "is_empty_json (JObj m) = (m = [])"
| "is_empty_json _ = False"

definition CODE_EXECUTION :: string where "CODE_EXECUTION = ''code_execution''"

fun not_empty_execution :: "content_block \<Rightarrow> bool" where
  "not_empty_execution (ServerToolUse i n inp) = (\<not> (n = CODE_EXECUTION \<and> is_empty_json inp))"
| "not_empty_execution b = True"

definition sanitize_server_blocks :: "content_block list \<Rightarrow> content_block list" where
  "sanitize_server_blocks bs = retain_server_pairs (filter not_empty_execution bs)"

definition sanitize_server_tool_pairs :: "message list \<Rightarrow> message list" where
  "sanitize_server_tool_pairs ms = map (on_role Assistant sanitize_server_blocks) ms"

definition drop_empty :: "message list \<Rightarrow> message list" where
  "drop_empty ms = filter (\<lambda>m. role m = System \<or> content m \<noteq> []) ms"

definition sanitize_tool_pairs :: "message list \<Rightarrow> message list" where
  "sanitize_tool_pairs messages =
     (let uses = tool_use_ids messages;
          ms2 = map (on_role User (filter (result_known uses))) messages;
          results = tool_result_ids ms2;
          ms4 = map (on_role Assistant (filter (use_known results))) ms2;
          ms5 = sanitize_server_tool_pairs ms4
      in drop_empty ms5)"

definition compact_messages :: "message list \<Rightarrow> nat \<Rightarrow> message list" where
  "compact_messages messages keep_last =
     (if length messages \<le> keep_last + 1 then messages
      else
        let system_count = length (takeWhile (\<lambda>m. role m = System) messages);
            non_system_len = length messages - system_count
        in if non_system_len \<le> keep_last then messages
           else
             let remove_count = non_system_len - keep_last
             in sanitize_tool_pairs
                  (take system_count messages @ drop (system_count + remove_count) messages))"

definition strip_old_thinking :: "message list \<Rightarrow> message list" where
  "strip_old_thinking messages =
     (let last_assistant_idx = rposition (\<lambda>m. role m = Assistant) messages
      in map_idx (\<lambda>i msg. if role msg \<noteq> Assistant then msg
                          else if Some i = last_assistant_idx then msg
                          else map_content (filter (\<lambda>b. \<not> is_Thinking b)) msg) messages)"

subsection \<open>A conversation closed under pairing\<close>

definition closed_conversation :: "message list \<Rightarrow> bool" where
  "closed_conversation ms =
     (tool_use_ids ms = tool_result_ids ms
      \<and> (\<forall>m \<in> set ms. role m = Assistant \<longrightarrow>
            server_paired (content m) \<and> list_all not_empty_execution (content m))
      \<and> (\<forall>m \<in> set ms. role m \<noteq> System \<longrightarrow> content m \<noteq> []))"

lemma role_blocks_drop_empty: "role_blocks r (drop_empty ms) = role_blocks r ms"
  by (induction ms) (auto simp: drop_empty_def)

lemma filter_other_sanitize: "filter other_block (sanitize_server_blocks bs) = filter other_block bs"
proof -
  have "filter other_block (filter not_empty_execution bs) = filter other_block bs"
    unfolding filter_filter
  proof (rule filter_cong[OF refl])
    fix b show "(not_empty_execution b \<and> other_block b) = other_block b"
      by (cases b) (auto simp: other_block_def)
  qed
  then show ?thesis by (simp add: sanitize_server_blocks_def other_retain)
qed

lemma tool_use_ids_other:
  "filter other_block (role_blocks Assistant ms) = filter other_block (role_blocks Assistant ms') \<Longrightarrow>
     tool_use_ids ms = tool_use_ids ms'"
proof -
  assume *: "filter other_block (role_blocks Assistant ms) = filter other_block (role_blocks Assistant ms')"
  have mem: "ToolUse i n inp \<in> set (role_blocks Assistant xs) \<longleftrightarrow>
        ToolUse i n inp \<in> set (filter other_block (role_blocks Assistant xs))" for i n inp and xs
    by (simp add: other_block_def)
  show ?thesis
    by (rule set_eqI) (simp only: in_tool_use_ids mem *)
qed

lemma sanitized_server_tool_use_ids: "tool_use_ids (sanitize_server_tool_pairs ms) = tool_use_ids ms"
  unfolding sanitize_server_tool_pairs_def
  by (rule tool_use_ids_other, rule role_blocks_keeps, rule filter_other_sanitize)

lemma sanitized_server_result_ids: "tool_result_ids (sanitize_server_tool_pairs ms) = tool_result_ids ms"
  by (simp add: tool_result_ids_def sanitize_server_tool_pairs_def role_blocks_other_role)

lemma drop_empty_ids:
  "tool_use_ids (drop_empty ms) = tool_use_ids ms" "tool_result_ids (drop_empty ms) = tool_result_ids ms"
  by (simp_all add: tool_use_ids_def tool_result_ids_def role_blocks_drop_empty)

lemma retained_result_ids:
  "tool_result_ids (map (on_role User (filter (result_known ids))) ms) = tool_result_ids ms \<inter> ids"
  by (auto simp: set_eq_iff in_tool_result_ids role_blocks_retain)

lemma retained_use_ids:
  "tool_use_ids (map (on_role Assistant (filter (use_known ids))) ms) = tool_use_ids ms \<inter> ids"
  by (auto simp: set_eq_iff in_tool_use_ids role_blocks_retain)

lemma other_role_ids:
  "tool_use_ids (map (on_role User f) ms) = tool_use_ids ms"
  "tool_result_ids (map (on_role Assistant g) ms) = tool_result_ids ms"
  by (simp_all add: tool_use_ids_def tool_result_ids_def role_blocks_other_role)

lemmas pairing_ids = drop_empty_ids sanitized_server_tool_use_ids sanitized_server_result_ids
  retained_result_ids retained_use_ids other_role_ids

lemma sanitize_ids:
  "tool_use_ids (sanitize_tool_pairs ms) = tool_use_ids ms \<inter> tool_result_ids ms"
  "tool_result_ids (sanitize_tool_pairs ms) = tool_use_ids ms \<inter> tool_result_ids ms"
  by (auto simp: sanitize_tool_pairs_def Let_def pairing_ids simp del: map_map)

lemma filter_retain_commute: "list_all p bs \<Longrightarrow> list_all p (filter q bs)"
  by (auto simp: list_all_iff)

lemma sanitize_server_blocks_ok:
  "server_paired (sanitize_server_blocks bs)" "list_all not_empty_execution (sanitize_server_blocks bs)"
  by (simp_all add: sanitize_server_blocks_def retain_server_pairs_paired)
    (simp add: retain_server_pairs_def list_all_iff)

lemma sanitize_closed: "closed_conversation (sanitize_tool_pairs ms)"
proof -
  have "server_paired (content m) \<and> list_all not_empty_execution (content m)"
    if "m \<in> set (sanitize_tool_pairs ms)" "role m = Assistant" for m
    using that sanitize_server_blocks_ok
    by (auto simp: sanitize_tool_pairs_def Let_def drop_empty_def sanitize_server_tool_pairs_def
        content_on_role simp del: map_map)
  moreover have "content m \<noteq> []" if "m \<in> set (sanitize_tool_pairs ms)" "role m \<noteq> System" for m
    using that by (auto simp: sanitize_tool_pairs_def Let_def drop_empty_def simp del: map_map)
  ultimately show ?thesis
    using sanitize_ids[of ms] by (auto simp: closed_conversation_def)
qed

lemma map_on_role_same:
  "(\<And>m. m \<in> set ms \<Longrightarrow> role m = r \<Longrightarrow> f (content m) = content m) \<Longrightarrow> map (on_role r f) ms = ms"
  by (rule map_idI) (auto simp: on_role_def map_content_def)

lemma role_blocks_member: "m \<in> set ms \<Longrightarrow> role m = r \<Longrightarrow> b \<in> set (content m) \<Longrightarrow> b \<in> set (role_blocks r ms)"
  by (auto simp: role_blocks_def)

lemma closed_pass2:
  assumes "closed_conversation ms"
  shows "map (on_role User (filter (result_known (tool_use_ids ms)))) ms = ms"
proof (rule map_on_role_same, rule filter_True, rule ballI)
  fix m b assume "m \<in> set ms" "role m = User" "b \<in> set (content m)"
  then have b: "b \<in> set (role_blocks User ms)" by (rule role_blocks_member)
  have eq: "tool_use_ids ms = tool_result_ids ms" using assms by (simp only: closed_conversation_def)
  have "i \<in> tool_use_ids ms" if "b = ToolResult i c e k md" for i c e k md
    using b unfolding eq in_tool_result_ids that by blast
  then show "result_known (tool_use_ids ms) b" by (cases b) simp_all
qed

lemma closed_pass4:
  assumes "closed_conversation ms"
  shows "map (on_role Assistant (filter (use_known (tool_result_ids ms)))) ms = ms"
proof (rule map_on_role_same, rule filter_True, rule ballI)
  fix m b assume "m \<in> set ms" "role m = Assistant" "b \<in> set (content m)"
  then have b: "b \<in> set (role_blocks Assistant ms)" by (rule role_blocks_member)
  have eq: "tool_use_ids ms = tool_result_ids ms" using assms by (simp only: closed_conversation_def)
  have "i \<in> tool_result_ids ms" if "b = ToolUse i n inp" for i n inp
    using b unfolding eq[symmetric] in_tool_use_ids that by blast
  then show "use_known (tool_result_ids ms) b" by (cases b) simp_all
qed

lemma closed_pass5:
  assumes "closed_conversation ms"
  shows "sanitize_server_tool_pairs ms = ms"
  unfolding sanitize_server_tool_pairs_def
proof (rule map_on_role_same)
  fix m assume "m \<in> set ms" "role m = Assistant"
  with assms have p: "server_paired (content m)" "list_all not_empty_execution (content m)"
    by (auto simp: closed_conversation_def)
  then have "filter not_empty_execution (content m) = content m"
    by (auto simp: list_all_iff)
  with p show "sanitize_server_blocks (content m) = content m"
    by (simp add: sanitize_server_blocks_def retain_server_pairs_id)
qed

lemma sanitize_fixpoint: "closed_conversation ms \<Longrightarrow> sanitize_tool_pairs ms = ms"
  by (simp add: sanitize_tool_pairs_def Let_def closed_pass2 closed_pass4 closed_pass5 del: map_map)
    (simp add: drop_empty_def closed_conversation_def filter_id_conv, blast)

subsection \<open>Nothing is invented\<close>

text \<open>\<open>ms'\<close> is \<open>ms\<close> with blocks and messages left out.\<close>

definition thinned :: "message \<Rightarrow> message \<Rightarrow> bool" where
  "thinned m' m = (id_opt m' = id_opt m \<and> role m' = role m \<and> subseq (content m') (content m))"

definition thinned_conversation :: "message list \<Rightarrow> message list \<Rightarrow> bool" where
  "thinned_conversation ms' ms = list_emb thinned ms' ms"

lemma thinned_refl [simp]: "thinned m m"
  by (simp add: thinned_def)

lemma thinned_trans: "thinned a b \<Longrightarrow> thinned b c \<Longrightarrow> thinned a c"
  by (auto simp: thinned_def intro: subseq_order.trans)

lemma thinned_conversation_trans:
  "thinned_conversation a b \<Longrightarrow> thinned_conversation b c \<Longrightarrow> thinned_conversation a c"
  unfolding thinned_conversation_def by (rule list_emb_trans) (auto intro: thinned_trans)

lemma thinned_map:
  "(\<And>m. m \<in> set ms \<Longrightarrow> thinned (f m) m) \<Longrightarrow> thinned_conversation (map f ms) ms"
  unfolding thinned_conversation_def by (induction ms) auto

lemma thinned_on_role: "(\<And>bs. subseq (f bs) bs) \<Longrightarrow> thinned (on_role r f m) m"
  by (auto simp: thinned_def on_role_def map_content_def)

lemma thinned_subseq: "subseq ms' ms \<Longrightarrow> thinned_conversation ms' ms"
  unfolding thinned_conversation_def by (induction rule: list_emb.induct) auto

lemma subseq_sanitize_server_blocks: "subseq (sanitize_server_blocks bs) bs"
  unfolding sanitize_server_blocks_def retain_server_pairs_def
  by (meson subseq_filter_left subseq_order.trans)

lemma sanitize_thinned: "thinned_conversation (sanitize_tool_pairs ms) ms"
  unfolding sanitize_tool_pairs_def Let_def drop_empty_def sanitize_server_tool_pairs_def
  by (rule thinned_conversation_trans[OF thinned_subseq[OF subseq_filter_left]]
      thinned_conversation_trans[OF thinned_map[OF thinned_on_role[OF subseq_sanitize_server_blocks]]]
      thinned_conversation_trans[OF thinned_map[OF thinned_on_role[OF subseq_filter_left]]]
      thinned_map[OF thinned_on_role[OF subseq_filter_left]])+

subsection \<open>Compaction\<close>

abbreviation system_prefix :: "message list \<Rightarrow> message list" where
  "system_prefix ms \<equiv> takeWhile (\<lambda>m. role m = System) ms"

lemma sanitize_shape:
  "\<exists>F. (\<forall>m. role (F m) = role m \<and> (role m = System \<longrightarrow> F m = m))
       \<and> sanitize_tool_pairs ms = drop_empty (map F ms)"
  by (intro exI[of _ "\<lambda>m. on_role Assistant sanitize_server_blocks
        (on_role Assistant (filter (use_known (tool_result_ids
            (map (on_role User (filter (result_known (tool_use_ids ms)))) ms))))
          (on_role User (filter (result_known (tool_use_ids ms))) m))"])
    (simp add: sanitize_tool_pairs_def Let_def sanitize_server_tool_pairs_def comp_def,
      simp add: on_role_def)

lemma drop_empty_system: "\<forall>m \<in> set xs. role m = System \<Longrightarrow> drop_empty (xs @ ys) = xs @ drop_empty ys"
  by (simp add: drop_empty_def)

lemma sanitize_system_prefix:
  assumes "\<forall>m \<in> set xs. role m = System"
  shows "\<exists>zs. sanitize_tool_pairs (xs @ ys) = xs @ zs \<and> length zs \<le> length ys"
proof -
  obtain F where F: "\<forall>m. role (F m) = role m \<and> (role m = System \<longrightarrow> F m = m)"
    "sanitize_tool_pairs (xs @ ys) = drop_empty (map F (xs @ ys))" using sanitize_shape by blast
  have "map F xs = xs" using assms F(1) by (simp add: map_idI)
  with F(2) have "sanitize_tool_pairs (xs @ ys) = xs @ drop_empty (map F ys)"
    using drop_empty_system[OF assms, of "map F ys"] by simp
  moreover have "length (drop_empty (map F ys)) \<le> length ys"
    unfolding drop_empty_def by (rule order_trans[OF length_filter_le]) simp
  ultimately show ?thesis by blast
qed

lemma compact_cases:
  obtains "compact_messages ms k = ms"
  | n where "compact_messages ms k = sanitize_tool_pairs (system_prefix ms @ drop n ms)"
      "length ms - n = k" "length (system_prefix ms) \<le> n"
proof -
  let ?s = "length (system_prefix ms)"
  have *: "take ?s ms = system_prefix ms" by (rule takeWhile_eq_take[symmetric])
  show ?thesis
  proof (cases "length ms \<le> k + 1 \<or> length ms - ?s \<le> k")
    case True
    then show ?thesis using that(1) by (auto simp: compact_messages_def Let_def)
  next
    case False
    then have lens: "?s \<le> length ms" "k < length ms - ?s"
      using length_takeWhile_le[of "\<lambda>m. role m = System" ms] by auto
    show ?thesis
    proof (rule that(2)[of "?s + (length ms - ?s - k)"])
      show "length ms - (?s + (length ms - ?s - k)) = k" using lens by linarith
    qed (use False in \<open>simp_all add: compact_messages_def Let_def *\<close>)
  qed
qed

lemma system_prefix_roles: "\<forall>m \<in> set (system_prefix ms). role m = System"
  by (auto dest: set_takeWhileD)

lemma compact_thinned: "thinned_conversation (compact_messages ms k) ms"
proof (cases rule: compact_cases[of ms k])
  case 1
  then show ?thesis by (simp add: thinned_subseq)
next
  case (2 n)
  have "subseq (drop n ms) (dropWhile (\<lambda>m. role m = System) ms)"
    using \<open>length (system_prefix ms) \<le> n\<close>
    by (metis drop_drop dropWhile_eq_drop le_add_diff_inverse2 suffix_drop suffix_imp_subseq)
  then have "subseq (system_prefix ms @ drop n ms) ms"
    by (metis subseq_append' takeWhile_dropWhile_id)
  then show ?thesis
    unfolding 2(1) by (rule thinned_conversation_trans[OF sanitize_thinned thinned_subseq])
qed

lemma compact_keeps_system:
  "take (length (system_prefix ms)) (compact_messages ms k) = system_prefix ms"
proof (cases rule: compact_cases[of ms k])
  case 1
  then show ?thesis by (simp add: takeWhile_eq_take[symmetric])
next
  case (2 n)
  then show ?thesis using sanitize_system_prefix[OF system_prefix_roles, of ms "drop n ms"] by auto
qed

lemma compact_length:
  "compact_messages ms k = ms \<or> length (compact_messages ms k) \<le> length (system_prefix ms) + k"
proof (cases rule: compact_cases[of ms k])
  case (2 n)
  then show ?thesis using sanitize_system_prefix[OF system_prefix_roles, of ms "drop n ms"] by auto
qed simp

subsection \<open>Properties\<close>

text \<open>
  C3. After \<open>sanitize_tool_pairs\<close> the conversation is closed under pairing: the ids of the tool uses
  in assistant messages are exactly the ids of the tool results in user messages, the server
  blocks of every assistant message are paired and hold no empty code execution, and no user or
  assistant message is empty. Nothing is added: the result is the conversation with blocks and
  messages left out.
\<close>

theorem sanitize_tool_pairs_closed:
  "tool_use_ids (sanitize_tool_pairs ms) = tool_result_ids (sanitize_tool_pairs ms)
   \<and> closed_conversation (sanitize_tool_pairs ms)
   \<and> thinned_conversation (sanitize_tool_pairs ms) ms"
  using sanitize_closed sanitize_thinned sanitize_ids by simp

text \<open>
  \<open>sanitize_tool_pairs\<close> removes nothing that is paired: on a conversation that is closed under
  pairing it is the identity, so it is idempotent, and exactly the ids that have both a use and
  a result survive.
\<close>

theorem sanitize_tool_pairs_exact:
  "sanitize_tool_pairs (sanitize_tool_pairs ms) = sanitize_tool_pairs ms
   \<and> (closed_conversation ms \<longrightarrow> sanitize_tool_pairs ms = ms)
   \<and> tool_use_ids (sanitize_tool_pairs ms) = tool_use_ids ms \<inter> tool_result_ids ms"
  by (simp add: sanitize_fixpoint sanitize_closed sanitize_ids)

theorem sanitize_tool_pairs_exact_witness:
  "closed_conversation [message_user ''hi'', message_assistant ''hello'']
   \<and> sanitize_tool_pairs [message_user ''hi'', message_assistant ''hello'']
     = [message_user ''hi'', message_assistant ''hello'']"
proof -
  have "closed_conversation [message_user ''hi'', message_assistant ''hello'']"
    by (simp add: closed_conversation_def message_user_def message_assistant_def tool_use_ids_def
        tool_result_ids_def List.map_filter_simps server_paired_def server_use_ids_def
        server_result_ids_def)
  then show ?thesis
    using sanitize_tool_pairs_exact[of "[message_user ''hi'', message_assistant ''hello'']"] by blast
qed

text \<open>
  Compaction to the last \<open>keep_last\<close> messages keeps every leading system message and at most
  \<open>keep_last\<close> others, unless the conversation is short enough to be left whole; what it returns
  is the conversation with messages and blocks left out.
\<close>

theorem compact_messages_bound:
  "thinned_conversation (compact_messages ms k) ms
   \<and> take (length (system_prefix ms)) (compact_messages ms k) = system_prefix ms
   \<and> (compact_messages ms k = ms
      \<or> length (compact_messages ms k) \<le> length (system_prefix ms) + k)"
  by (simp add: compact_thinned compact_keeps_system compact_length)

end
