(* ===== verification/Degradation.thy ===== *)
theory Degradation
  imports Compaction
begin

section \<open>The layers of degradation\<close>

text \<open>
  \<open>crates/loopal-context/src/degradation.rs\<close>. After every push the store sheds content in layers:
  old thinking, server and image blocks always; oversized old tool results above 60 percent of
  the budget; every old tool result above 90 percent. The lemmas state what each layer may touch
  (never a message of another role, never one of the last messages, never a tool result that
  reports an error) and what it leaves behind.
\<close>

definition LAYER1_MAX_LINES :: nat where "LAYER1_MAX_LINES = 200"
definition LAYER1_MAX_BYTES :: nat where "LAYER1_MAX_BYTES = 8000"
definition EMERGENCY_MAX_LINES :: nat where "EMERGENCY_MAX_LINES = 30"
definition EMERGENCY_MAX_BYTES :: nat where "EMERGENCY_MAX_BYTES = 1000"

definition strip_message :: "nat option \<Rightarrow> nat \<Rightarrow> nat \<Rightarrow> message \<Rightarrow> message" where
  "strip_message last_assistant_idx preserve_images_from i msg =
     (let msg = (if role msg = Assistant \<and> Some i \<noteq> last_assistant_idx
                 then map_content (filter (\<lambda>b. \<not> is_Thinking b)) msg else msg)
      in if i < preserve_images_from then map_content (filter (\<lambda>b. \<not> is_Image_block b)) msg else msg)"

definition strip_ephemeral_blocks :: "message list \<Rightarrow> message list" where
  "strip_ephemeral_blocks msgs =
     (let msgs = condense_old_server_blocks msgs;
          last_assistant_idx = rposition (\<lambda>m. role m = Assistant) msgs;
          preserve_images_from = length msgs - 2
      in drop_empty (map_idx (strip_message last_assistant_idx preserve_images_from) msgs))"

text \<open>The loops of the two truncating layers: all user messages but those among the last four.\<close>

definition on_old_user_messages :: "(content_block \<Rightarrow> content_block) \<Rightarrow> message list \<Rightarrow> message list" where
  "on_old_user_messages f msgs =
     map_idx (\<lambda>i msg. if length msgs - 4 \<le> i then msg
                      else if role msg \<noteq> User then msg
                      else map_content (map f) msg) msgs"

fun truncate_oversized :: "(string \<Rightarrow> nat) \<Rightarrow> u32 \<Rightarrow> content_block \<Rightarrow> content_block" where
  "truncate_oversized bpe threshold (ToolResult i c e k md) =
     (if threshold < estimate_tokens bpe c
      then safe_truncate_tool_result LAYER1_MAX_LINES LAYER1_MAX_BYTES (ToolResult i c e k md)
      else ToolResult i c e k md)"
| "truncate_oversized bpe threshold b = b"

definition truncate_oversized_results ::
  "(string \<Rightarrow> nat) \<Rightarrow> context_budget \<Rightarrow> message list \<Rightarrow> message list" where
  "truncate_oversized_results bpe bdg msgs =
     (let threshold = message_budget bdg div 8
      in on_old_user_messages (truncate_oversized bpe threshold) msgs)"

definition emergency_degrade :: "message list \<Rightarrow> message list" where
  "emergency_degrade msgs =
     on_old_user_messages (safe_truncate_tool_result EMERGENCY_MAX_LINES EMERGENCY_MAX_BYTES) msgs"

definition run_sync_degradation ::
  "(string \<Rightarrow> nat) \<Rightarrow> (json \<Rightarrow> string) \<Rightarrow> context_budget \<Rightarrow> message list \<Rightarrow> message list" where
  "run_sync_degradation bpe render bdg msgs =
     (let msgs = strip_ephemeral_blocks msgs;
          msgs = (if over_percent bdg 60 (estimate_messages_tokens bpe render msgs)
                  then truncate_oversized_results bpe bdg msgs else msgs)
      in if over_percent bdg 90 (estimate_messages_tokens bpe render msgs)
         then emergency_degrade msgs else msgs)"

definition drop_oldest_group :: "message list \<Rightarrow> message list \<times> nat" where
  "drop_oldest_group msgs =
     (let system_count = length (takeWhile (\<lambda>m. role m = System) msgs);
          non_system = length msgs - system_count
      in if non_system \<le> 4 then (msgs, 0)
         else
           let start = system_count;
               stop = (if start + 1 < length msgs \<and> role (msgs ! (start + 1)) = User
                       then start + 2 else start + 1)
           in (take start msgs @ drop stop msgs, stop - start))"

subsection \<open>The well-formedness the layers keep\<close>

text \<open>No user or assistant message is empty, and assistant messages hold paired server blocks.\<close>

definition wf_message :: "message \<Rightarrow> bool" where
  "wf_message m = ((role m \<noteq> System \<longrightarrow> content m \<noteq> [])
     \<and> (role m = Assistant \<longrightarrow> server_paired (content m)))"

lemma wf_not_empty: "wf_message m \<Longrightarrow> role m \<noteq> System \<Longrightarrow> content m \<noteq> []"
  by (simp add: wf_message_def)

text \<open>The weaker condition that holds before the empty messages are dropped.\<close>

definition paired_message :: "message \<Rightarrow> bool" where
  "paired_message m = (role m = Assistant \<longrightarrow> server_paired (content m))"

lemma wf_paired: "wf_message m \<Longrightarrow> paired_message m"
  by (simp add: wf_message_def paired_message_def)

lemma wf_drop_empty: "list_all paired_message ms \<Longrightarrow> list_all wf_message (drop_empty ms)"
  by (auto simp: drop_empty_def list_all_iff wf_message_def paired_message_def)

lemma server_paired_filter_other:
  assumes "\<And>b. \<not> p b \<Longrightarrow> other_block b" and "server_paired bs"
  shows "server_paired (filter p bs)"
proof -
  have kept: "b \<in> set (filter p bs) \<longleftrightarrow> b \<in> set bs" if "\<not> other_block b" for b
    using that assms(1)[of b] by auto
  have "server_use_ids (filter p bs) = server_use_ids bs"
    "server_result_ids (filter p bs) = server_result_ids bs"
    by (rule set_eqI, simp only: server_ids kept other_block_def content_block.disc simp_thms)+
  with assms(2) show ?thesis by (simp add: server_paired_def)
qed

lemma paired_filter_content:
  assumes "\<And>b. \<not> p b \<Longrightarrow> other_block b" and "paired_message m"
  shows "paired_message (map_content (filter p) m)"
  using assms(2) server_paired_filter_other[of p, OF assms(1)] by (simp add: paired_message_def)

lemma paired_strip: "paired_message m \<Longrightarrow> paired_message (strip_message la pf i m)"
proof -
  have other: "\<not> \<not> is_Thinking b \<Longrightarrow> other_block b" "\<not> \<not> is_Image_block b \<Longrightarrow> other_block b" for b
    by (cases b; simp add: other_block_def)+
  assume "paired_message m"
  then show ?thesis
    using paired_filter_content[of "\<lambda>b. \<not> is_Thinking b", OF other(1)]
      paired_filter_content[of "\<lambda>b. \<not> is_Image_block b", OF other(2)]
    by (simp add: strip_message_def Let_def)
qed

lemma paired_condense: "paired_message (condense_server_blocks_in_message m)"
  by (simp add: condense_eq paired_message_def condense_spec_paired)

lemma list_all_map_from: "(\<And>i x. x \<in> set xs \<Longrightarrow> q (f i x)) \<Longrightarrow> list_all q (map_from f n xs)"
  by (induction xs arbitrary: n) auto

lemma paired_condense_old:
  "list_all paired_message ms \<Longrightarrow> list_all paired_message (condense_old_server_blocks ms)"
  unfolding condense_old_server_blocks_def Let_def
  by (rule list_all_map_from) (simp add: list_all_iff paired_condense)

lemma wf_strip_ephemeral: "list_all paired_message ms \<Longrightarrow> list_all wf_message (strip_ephemeral_blocks ms)"
  unfolding strip_ephemeral_blocks_def Let_def
  by (rule wf_drop_empty, rule list_all_map_from, rule paired_strip)
    (use paired_condense_old in \<open>simp add: list_all_iff\<close>)

lemma same_shape_other: "block_shape b = block_shape b' \<Longrightarrow> server_use_of b = server_use_of b' \<and>
    server_result_of b = server_result_of b'"
  by (cases b; cases b') simp_all

lemma server_ids_shape:
  assumes "map block_shape bs = map block_shape bs'"
  shows "server_use_ids bs = server_use_ids bs' \<and> server_result_ids bs = server_result_ids bs'"
  using assms
proof (induction bs arbitrary: bs')
  case (Cons b bs)
  then obtain b' bs'' where bs': "bs' = b' # bs''" "block_shape b = block_shape b'" by (cases bs') auto
  with Cons show ?case using same_shape_other[of b b']
    by (simp add: server_use_ids_def server_result_ids_def List.map_filter_simps split: option.splits)
qed simp

lemma wf_same_shapes: "same_shapes m m' \<Longrightarrow> wf_message m \<Longrightarrow> wf_message m'"
  using server_ids_shape[of "content m'" "content m"]
  by (auto simp: same_shapes_def wf_message_def server_paired_def)

subsection \<open>What truncation keeps\<close>

lemma truncate_oversized_shape [simp]: "block_shape (truncate_oversized bpe t b) = block_shape b"
  by (cases b) (simp_all del: safe_truncate_tool_result.simps)

lemma on_old_user_shapes:
  assumes "\<And>b. block_shape (f b) = block_shape b"
  shows "list_all2 same_shapes ms (on_old_user_messages f ms)"
  unfolding on_old_user_messages_def list_all2_conv_all_nth
  by (simp add: same_shapes_def assms comp_def map_content_def)

lemma wf_shapes: "list_all2 same_shapes ms ms' \<Longrightarrow> list_all wf_message ms \<Longrightarrow> list_all wf_message ms'"
  by (induction rule: list_all2_induct) (auto intro: wf_same_shapes)

lemma truncate_layer_shapes:
  "list_all2 same_shapes ms (truncate_oversized_results bpe bdg ms)"
  "list_all2 same_shapes ms (emergency_degrade ms)"
  by (simp_all add: truncate_oversized_results_def emergency_degrade_def on_old_user_shapes)

lemma wf_layers:
  "list_all wf_message ms \<Longrightarrow> list_all wf_message (truncate_oversized_results bpe bdg ms)"
  "list_all wf_message ms \<Longrightarrow> list_all wf_message (emergency_degrade ms)"
  by (rule wf_shapes[OF truncate_layer_shapes(1)], assumption)
    (rule wf_shapes[OF truncate_layer_shapes(2)], assumption)

lemma wf_run_sync:
  "list_all paired_message ms \<Longrightarrow> list_all wf_message (run_sync_degradation bpe render bdg ms)"
  by (simp add: run_sync_degradation_def Let_def wf_strip_ephemeral wf_layers)

subsection \<open>Dropping groups\<close>

lemma drop_oldest_group_cases:
  obtains "drop_oldest_group ms = (ms, 0)" "length ms - length (system_prefix ms) \<le> 4"
  | n where "drop_oldest_group ms = (system_prefix ms @ drop (length (system_prefix ms) + n) ms, n)"
      "n = 1 \<or> n = 2" "4 < length ms - length (system_prefix ms)"
proof -
  let ?s = "length (system_prefix ms)"
  have *: "take ?s ms = system_prefix ms" by (rule takeWhile_eq_take[symmetric])
  show ?thesis
  proof (cases "length ms - ?s \<le> 4")
    case True
    then show ?thesis using that(1) by (simp add: drop_oldest_group_def Let_def)
  next
    case False
    then show ?thesis
      by (intro that(2)[of "if ?s + 1 < length ms \<and> role (ms ! (?s + 1)) = User then 2 else 1"])
        (auto simp: drop_oldest_group_def Let_def *)
  qed
qed

lemma subseq_drop_oldest: "subseq (fst (drop_oldest_group ms)) ms"
proof (cases rule: drop_oldest_group_cases[of ms])
  case (2 n)
  have "ms = system_prefix ms @ drop (length (system_prefix ms)) ms"
    by (metis dropWhile_eq_drop takeWhile_dropWhile_id)
  moreover have "subseq (drop (length (system_prefix ms) + n) ms) (drop (length (system_prefix ms)) ms)"
    by (metis add.commute drop_drop suffix_drop suffix_imp_subseq)
  ultimately show ?thesis using 2(1) by (metis fst_conv subseq_append')
qed simp

lemma wf_subseq: "subseq xs ys \<Longrightarrow> list_all q ys \<Longrightarrow> list_all q xs"
  by (induction rule: list_emb.induct) auto

lemma on_old_user_nth:
  "i < length ms \<Longrightarrow> length ms - 4 \<le> i \<or> role (ms ! i) \<noteq> User \<Longrightarrow>
     on_old_user_messages f ms ! i = ms ! i"
  by (auto simp: on_old_user_messages_def)

lemma same_shapes_refl: "list_all2 same_shapes ms ms"
  by (simp add: list_all2_same same_shapes_def)

lemma same_shapes_trans: "same_shapes a b \<Longrightarrow> same_shapes b c \<Longrightarrow> same_shapes a c"
  by (simp add: same_shapes_def)

lemma run_sync_cases:
  "\<exists>f g. run_sync_degradation bpe render bdg ms
       = on_old_user_messages g (on_old_user_messages f (strip_ephemeral_blocks ms))
     \<and> (\<forall>b. block_shape (f b) = block_shape b) \<and> (\<forall>b. block_shape (g b) = block_shape b)"
proof -
  have id: "on_old_user_messages (\<lambda>b. b) xs = xs" for xs
    by (rule nth_equalityI) (auto simp: on_old_user_messages_def map_content_def)
  let ?s = "strip_ephemeral_blocks ms"
  let ?f = "if over_percent bdg 60 (estimate_messages_tokens bpe render ?s)
            then truncate_oversized bpe (message_budget bdg div 8) else (\<lambda>b. b)"
  let ?g = "if over_percent bdg 90 (estimate_messages_tokens bpe render (on_old_user_messages ?f ?s))
            then safe_truncate_tool_result EMERGENCY_MAX_LINES EMERGENCY_MAX_BYTES else (\<lambda>b. b)"
  show ?thesis
    by (rule exI[of _ ?f], rule exI[of _ ?g])
      (simp add: run_sync_degradation_def Let_def truncate_oversized_results_def
        emergency_degrade_def id)
qed

text \<open>
  The truncating layers protect what they must: after the ephemeral blocks are stripped no
  message is added, lost or moved, a message of the assistant, of the system or among the last
  four is untouched, and in the others only the text of tool results that report no error
  changes.
\<close>

theorem run_sync_degradation_protects:
  "list_all2 (\<lambda>before after. same_shapes before after \<and> (role before \<noteq> User \<longrightarrow> after = before))
     (strip_ephemeral_blocks ms) (run_sync_degradation bpe render bdg ms)
   \<and> drop (length (strip_ephemeral_blocks ms) - 4) (run_sync_degradation bpe render bdg ms)
     = drop (length (strip_ephemeral_blocks ms) - 4) (strip_ephemeral_blocks ms)"
proof -
  let ?s = "strip_ephemeral_blocks ms"
  obtain f g where eq: "run_sync_degradation bpe render bdg ms
      = on_old_user_messages g (on_old_user_messages f ?s)"
    and shapes: "\<And>b. block_shape (f b) = block_shape b" "\<And>b. block_shape (g b) = block_shape b"
    using run_sync_cases by blast
  have len: "length (on_old_user_messages h xs) = length xs" for h xs
    by (simp add: on_old_user_messages_def)
  have role: "role (on_old_user_messages h xs ! i) = role (xs ! i)" if "i < length xs" for h xs i
    using that by (simp add: on_old_user_messages_def)
  have "same_shapes (?s ! i) (on_old_user_messages g (on_old_user_messages f ?s) ! i)"
    if "i < length ?s" for i
    using that on_old_user_shapes[of f ?s, OF shapes(1)]
      on_old_user_shapes[of g "on_old_user_messages f ?s", OF shapes(2)]
    by (auto simp: list_all2_conv_all_nth len intro: same_shapes_trans)
  then show ?thesis
    by (auto simp: eq list_all2_conv_all_nth len role on_old_user_nth intro!: nth_equalityI)
qed

theorem run_sync_degradation_protects_witness:
  "list_all2 (\<lambda>before after. same_shapes before after \<and> (if role before = User then True else after = before))
     (strip_ephemeral_blocks [message_assistant ''yes'', message_user ''go''])
     (run_sync_degradation length (\<lambda>_. '''') (calculate length 8 [] 0 0)
       [message_assistant ''yes'', message_user ''go''])"
  using run_sync_degradation_protects[of "[message_assistant ''yes'', message_user ''go'']"
      length "\<lambda>_. ''''" "calculate length 8 [] 0 0", THEN conjunct1]
  by (rule list_all2_mono) simp

end
