(* ===== verification/Store.thy ===== *)
theory Store
  imports Degradation
begin

section \<open>The context store\<close>

text \<open>
  \<open>crates/loopal-context/src/store.rs\<close>: the buffer of messages the agent loop works on. Every
  operation of \<open>ContextStore\<close> is a function on the record; \<open>store_step\<close> is the dispatch over all
  of them. The lemmas give the invariant every sequence of operations keeps, what
  \<open>enforce_budget\<close> achieves and where it gives up, and when a summary is refused.
\<close>

record context_store =
  messages :: "message list"
  budget :: context_budget

definition store_new :: "context_budget \<Rightarrow> context_store" where
  "store_new b = \<lparr>messages = [], budget = b\<rparr>"

text \<open>The loop of \<open>enforce_budget\<close>, counted down from 10.\<close>

fun drop_loop ::
  "(string \<Rightarrow> nat) \<Rightarrow> (json \<Rightarrow> string) \<Rightarrow> context_budget \<Rightarrow> nat \<Rightarrow> bool \<Rightarrow> message list \<Rightarrow> message list \<times> bool"
where
  "drop_loop bpe render b 0 dropped_any ms = (ms, dropped_any)"
| "drop_loop bpe render b (Suc n) dropped_any ms =
     (if over_percent b 90 (estimate_messages_tokens bpe render ms)
      then (case drop_oldest_group ms of (ms', removed) \<Rightarrow>
              if removed = 0 then (ms, dropped_any)
              else drop_loop bpe render b n True ms')
      else (ms, dropped_any))"

definition enforce_budget :: "(string \<Rightarrow> nat) \<Rightarrow> (json \<Rightarrow> string) \<Rightarrow> context_store \<Rightarrow> context_store" where
  "enforce_budget bpe render s =
     (case drop_loop bpe render (budget s) 10 False
             (run_sync_degradation bpe render (budget s) (messages s)) of
        (ms, dropped_any) \<Rightarrow> s\<lparr>messages := if dropped_any then sanitize_tool_pairs ms else ms\<rparr>)"

definition apply_ingestion_caps ::
  "(string \<Rightarrow> nat) \<Rightarrow> (json \<Rightarrow> string) \<Rightarrow> context_store \<Rightarrow> context_store" where
  "apply_ingestion_caps bpe render s =
     (let max_server = message_budget (budget s) div 4;
          max_result = message_budget (budget s) div 8
      in s\<lparr>messages := map (\<lambda>msg.
             if role msg = Assistant then cap_assistant_server_blocks render max_server msg
             else if role msg = User then cap_tool_results bpe max_result msg
             else msg) (messages s)\<rparr>)"

definition from_messages ::
  "(string \<Rightarrow> nat) \<Rightarrow> (json \<Rightarrow> string) \<Rightarrow> message list \<Rightarrow> context_budget \<Rightarrow> context_store" where
  "from_messages bpe render ms b =
     (let s = apply_ingestion_caps bpe render \<lparr>messages = ms, budget = b\<rparr>
      in s\<lparr>messages := run_sync_degradation bpe render (budget s) (messages s)\<rparr>)"

definition update_budget ::
  "(string \<Rightarrow> nat) \<Rightarrow> (json \<Rightarrow> string) \<Rightarrow> context_budget \<Rightarrow> context_store \<Rightarrow> context_store" where
  "update_budget bpe render b s = enforce_budget bpe render (s\<lparr>budget := b\<rparr>)"

definition push_user ::
  "(string \<Rightarrow> nat) \<Rightarrow> (json \<Rightarrow> string) \<Rightarrow> message \<Rightarrow> context_store \<Rightarrow> context_store" where
  "push_user bpe render msg s = enforce_budget bpe render (s\<lparr>messages := messages s @ [msg]\<rparr>)"

definition push_assistant ::
  "(string \<Rightarrow> nat) \<Rightarrow> (json \<Rightarrow> string) \<Rightarrow> message \<Rightarrow> context_store \<Rightarrow> context_store" where
  "push_assistant bpe render msg s =
     (let max_server_tokens = message_budget (budget s) div 4;
          msg = cap_assistant_server_blocks render max_server_tokens msg
      in enforce_budget bpe render (s\<lparr>messages := messages s @ [msg]\<rparr>))"

definition push_tool_results ::
  "(string \<Rightarrow> nat) \<Rightarrow> (json \<Rightarrow> string) \<Rightarrow> message \<Rightarrow> context_store \<Rightarrow> context_store" where
  "push_tool_results bpe render msg s =
     (let max_per_result = message_budget (budget s) div 8;
          msg = cap_tool_results bpe max_per_result msg
      in enforce_budget bpe render (s\<lparr>messages := messages s @ [msg]\<rparr>))"

definition append_warnings_to_last_user :: "string list \<Rightarrow> context_store \<Rightarrow> context_store" where
  "append_warnings_to_last_user warnings s =
     (if warnings = [] then s
      else if messages s = [] then s
      else s\<lparr>messages := butlast (messages s)
             @ [map_content (\<lambda>bs. bs @ map Text warnings) (last (messages s))]\<rparr>)"

definition store_clear :: "context_store \<Rightarrow> context_store" where
  "store_clear s = s\<lparr>messages := []\<rparr>"

definition store_truncate :: "nat \<Rightarrow> context_store \<Rightarrow> context_store" where
  "store_truncate n s = s\<lparr>messages := take n (messages s)\<rparr>"

definition prepare_for_llm :: "context_store \<Rightarrow> message list" where
  "prepare_for_llm s = sanitize_tool_pairs (messages s)"

definition apply_summary ::
  "(string \<Rightarrow> nat) \<Rightarrow> (json \<Rightarrow> string) \<Rightarrow> message list \<Rightarrow> context_store \<Rightarrow> context_store \<times> bool" where
  "apply_summary bpe render new_messages s =
     (let ms = sanitize_tool_pairs new_messages
      in if needs_emergency (budget s) (estimate_messages_tokens bpe render ms) then (s, False)
         else (enforce_budget bpe render (s\<lparr>messages := ms\<rparr>), True))"

definition emergency_compact ::
  "(string \<Rightarrow> nat) \<Rightarrow> (json \<Rightarrow> string) \<Rightarrow> nat \<Rightarrow> context_store \<Rightarrow> context_store" where
  "emergency_compact bpe render keep_last s =
     enforce_budget bpe render
       (s\<lparr>messages := sanitize_tool_pairs (compact_messages (messages s) keep_last)\<rparr>)"

definition condense_server_blocks :: "context_store \<Rightarrow> context_store" where
  "condense_server_blocks s = s\<lparr>messages := condense_all_server_blocks (messages s)\<rparr>"

definition needs_summarization :: "(string \<Rightarrow> nat) \<Rightarrow> (json \<Rightarrow> string) \<Rightarrow> context_store \<Rightarrow> bool" where
  "needs_summarization bpe render s =
     needs_compaction (budget s) (estimate_messages_tokens bpe render (messages s))"

definition store_needs_emergency :: "(string \<Rightarrow> nat) \<Rightarrow> (json \<Rightarrow> string) \<Rightarrow> context_store \<Rightarrow> bool" where
  "store_needs_emergency bpe render s =
     needs_emergency (budget s) (estimate_messages_tokens bpe render (messages s))"

text \<open>The loop over \<open>iter().rev()\<close>; the additions wrap as the release build does.\<close>

fun keep_loop :: "(message \<Rightarrow> u32) \<Rightarrow> u32 \<Rightarrow> u32 \<Rightarrow> nat \<Rightarrow> message list \<Rightarrow> nat" where
  "keep_loop est half tokens kept [] = kept"
| "keep_loop est half tokens kept (msg # rest) =
     (if half < tokens + est msg \<and> 0 < kept then kept
      else keep_loop est half (tokens + est msg) (kept + 1) rest)"

definition token_aware_keep_count :: "(string \<Rightarrow> nat) \<Rightarrow> (json \<Rightarrow> string) \<Rightarrow> context_store \<Rightarrow> nat" where
  "token_aware_keep_count bpe render s =
     max (keep_loop (estimate_message_tokens bpe render) (message_budget (budget s) div 2) 0 0
            (rev (messages s))) 2"

subsection \<open>The operations as one step function\<close>

datatype store_op =
    Update_budget context_budget
  | Push_user message
  | Push_assistant message
  | Push_tool_results message
  | Append_warnings "string list"
  | Clear_store
  | Truncate_store nat
  | Apply_summary "message list"
  | Emergency_compact nat
  | Condense_server_blocks

fun store_step ::
  "(string \<Rightarrow> nat) \<Rightarrow> (json \<Rightarrow> string) \<Rightarrow> store_op \<Rightarrow> context_store \<Rightarrow> context_store" where
  "store_step bpe render (Update_budget b) s = update_budget bpe render b s"
| "store_step bpe render (Push_user m) s = push_user bpe render m s"
| "store_step bpe render (Push_assistant m) s = push_assistant bpe render m s"
| "store_step bpe render (Push_tool_results m) s = push_tool_results bpe render m s"
| "store_step bpe render (Append_warnings ws) s = append_warnings_to_last_user ws s"
| "store_step bpe render Clear_store s = store_clear s"
| "store_step bpe render (Truncate_store n) s = store_truncate n s"
| "store_step bpe render (Apply_summary ms) s = fst (apply_summary bpe render ms s)"
| "store_step bpe render (Emergency_compact k) s = emergency_compact bpe render k s"
| "store_step bpe render Condense_server_blocks s = condense_server_blocks s"

text \<open>The \<open>debug_assert!\<close>s of the pushes: the role the caller promises.\<close>

fun role_promised :: "store_op \<Rightarrow> bool" where
  "role_promised (Push_user m) = (role m = User)"
| "role_promised (Push_assistant m) = (role m = Assistant)"
| "role_promised (Push_tool_results m) = (role m = User)"
| "role_promised _ = True"

definition wf_store :: "context_store \<Rightarrow> bool" where
  "wf_store s = list_all wf_message (messages s)"

subsection \<open>The loop of enforce\_budget\<close>

lemma drop_loop_subseq: "drop_loop bpe render b n d ms = (ms', d') \<Longrightarrow> subseq ms' ms"
proof (induction bpe render b n d ms rule: drop_loop.induct)
  case (2 bpe render b n d ms)
  then show ?case
    using subseq_drop_oldest[of ms]
    by (auto split: if_splits prod.splits intro: subseq_order.trans)
qed simp

lemma drop_loop_outcome:
  "drop_loop bpe render b n d ms = (ms', d') \<Longrightarrow>
     \<not> over_percent b 90 (estimate_messages_tokens bpe render ms')
     \<or> length ms' - length (system_prefix ms') \<le> 4
     \<or> length ms' + n \<le> length ms"
proof (induction bpe render b n d ms rule: drop_loop.induct)
  case (2 bpe render b n d ms)
  show ?case
  proof (cases "over_percent b 90 (estimate_messages_tokens bpe render ms)")
    case over: True
    show ?thesis
    proof (cases rule: drop_oldest_group_cases[of ms])
      case 1
      with "2.prems" over show ?thesis by (auto split: prod.splits)
    next
      case (2 k)
      let ?ms2 = "system_prefix ms @ drop (length (system_prefix ms) + k) ms"
      have k: "k \<noteq> 0" "length ?ms2 + 1 \<le> length ms"
        using 2(2,3) by auto
      have "drop_loop bpe render b n True ?ms2 = (ms', d')"
        using "2.prems" over 2(1) k(1) by simp
      from "2.IH"[OF over 2(1)[symmetric] k(1) this] k(2) show ?thesis by linarith
    qed
  qed (use "2.prems" in auto)
qed simp

lemma drop_loop_dropped:
  "drop_loop bpe render b n d ms = (ms', d') \<Longrightarrow> \<not> d' \<Longrightarrow> ms' = ms \<and> \<not> d"
  by (induction bpe render b n d ms rule: drop_loop.induct) (auto split: if_splits prod.splits)

subsection \<open>The invariant\<close>

lemma wf_sanitize: "list_all wf_message (sanitize_tool_pairs ms)"
  using sanitize_closed[of ms] by (auto simp: closed_conversation_def list_all_iff wf_message_def)

lemma wf_enforce: "list_all paired_message (messages s) \<Longrightarrow> wf_store (enforce_budget bpe render s)"
  using wf_subseq[OF drop_loop_subseq wf_run_sync]
  by (auto simp: wf_store_def enforce_budget_def wf_sanitize split: prod.splits)

lemma wf_store_paired: "wf_store s \<Longrightarrow> list_all paired_message (messages s)"
  by (auto simp: wf_store_def list_all_iff wf_paired)

lemma paired_cap_assistant: "paired_message (cap_assistant_server_blocks render t m)"
  by (cases "role m = Assistant")
    (simp_all add: cap_assistant_server_blocks_def Let_def strip_orphaned_eq condense_eq
      retain_server_pairs_paired condense_spec_paired paired_message_def)

lemma role_cap_tool_results: "role (cap_tool_results bpe t m) = role m"
  by (simp add: cap_tool_results_def)

lemma wf_condense_message: "role m = Assistant \<Longrightarrow> wf_message m \<Longrightarrow>
    wf_message (condense_server_blocks_in_message m)"
proof -
  assume "role m = Assistant" and m: "wf_message m"
  then have p: "server_paired (content m)" and ne: "content m \<noteq> []" by (auto simp: wf_message_def)
  obtain b bs where b: "content m = b # bs" using ne by (cases "content m") auto
  have "condense_spec (content m) \<noteq> []"
  proof (cases "is_ServerToolResult b")
    case True
    then have "server_result_for b \<in> server_result_ids (content m)"
      unfolding in_server_result_ids b by (cases b) auto
    then have "server_result_for b \<in> server_use_ids (content m)" using p by (simp add: server_paired_def)
    then obtain n inp where "ServerToolUse (server_result_for b) n inp \<in> set (content m)"
      unfolding in_server_use_ids by blast
    then have "ServerToolUse (server_result_for b) n inp
        \<in> set (filter (\<lambda>b. \<not> is_ServerToolResult b) (content m))" by simp
    then have "filter (\<lambda>b. \<not> is_ServerToolResult b) (content m) \<noteq> []" by force
    then show ?thesis by (simp add: condense_spec_def)
  qed (simp add: condense_spec_def b)
  then show ?thesis
    by (simp add: condense_eq wf_message_def condense_spec_paired)
qed

lemma wf_append_text: "wf_message m \<Longrightarrow> wf_message (map_content (\<lambda>bs. bs @ map Text ws) m)"
  by (auto simp: wf_message_def server_paired_def server_use_ids_def server_result_ids_def
      List.map_filter_def comp_def)

lemma wf_store_step:
  assumes "wf_store s" "role_promised e"
  shows "wf_store (store_step bpe render e s)"
proof -
  note old = wf_store_paired[OF assms(1)]
  have wf: "list_all wf_message (messages s)" using assms(1) by (simp add: wf_store_def)
  have user: "paired_message m" if "role m = User" for m using that by (simp add: paired_message_def)
  show ?thesis
  proof (cases e)
    case (Push_user m)
    then show ?thesis using assms old by (auto simp: push_user_def intro!: wf_enforce user)
  next
    case (Push_assistant m)
    then show ?thesis
      using old by (auto simp: push_assistant_def Let_def paired_cap_assistant intro!: wf_enforce)
  next
    case (Push_tool_results m)
    then show ?thesis
      using assms old
      by (auto simp: push_tool_results_def Let_def role_cap_tool_results intro!: wf_enforce user)
  next
    case (Update_budget b)
    then show ?thesis using old by (auto simp: update_budget_def intro!: wf_enforce)
  next
    case (Append_warnings ws)
    then show ?thesis
      using wf by (cases "messages s" rule: rev_cases)
        (auto simp: append_warnings_to_last_user_def wf_store_def wf_append_text)
  next
    case (Apply_summary ms)
    have "list_all paired_message (sanitize_tool_pairs ms)"
      using wf_sanitize[of ms] by (auto simp: list_all_iff wf_paired)
    then show ?thesis
      using Apply_summary assms(1) by (auto simp: apply_summary_def Let_def intro!: wf_enforce)
  next
    case (Emergency_compact k)
    have "list_all paired_message (sanitize_tool_pairs ms)" for ms
      using wf_sanitize[of ms] by (auto simp: list_all_iff wf_paired)
    then show ?thesis using Emergency_compact by (auto simp: emergency_compact_def intro!: wf_enforce)
  next
    case Condense_server_blocks
    then show ?thesis
      using wf by (auto simp: condense_server_blocks_def condense_all_server_blocks_def wf_store_def
          list_all_iff wf_condense_message)
  next
    case (Truncate_store n)
    then show ?thesis
      using wf by (auto simp: store_truncate_def wf_store_def list_all_iff dest: in_set_takeD)
  qed (auto simp: store_clear_def wf_store_def)
qed

interpretation store: guarded_system "store_step bpe render" wf_store "store_new b" role_promised
  for bpe :: "string \<Rightarrow> nat" and render :: "json \<Rightarrow> string" and b :: context_budget
  by unfold_locales (auto simp: wf_store_step, simp add: store_new_def wf_store_def)

subsection \<open>Properties\<close>

text \<open>
  C23. Whatever operations the callers issue, in any order, from a new store: if they respect the
  roles the pushes promise, no user or assistant message of the store is empty and the server
  blocks of every assistant message are paired.
\<close>

theorem store_always_wellformed:
  "list_all role_promised ops \<Longrightarrow>
     wf_store (run_ops (store_step bpe render) ops (store_new b))"
  by (rule store.guarded_reached)

definition sample_budget :: context_budget where
  "sample_budget = calculate length 1000 [] 0 100"

theorem store_always_wellformed_witness:
  "wf_store (run_ops (store_step length (\<lambda>_. []))
     [Push_user (message_user ''hi''),
      Push_assistant \<lparr>id_opt = None, role = Assistant, content = [ServerToolUse ''s'' ''web'' JNull]\<rparr>,
      Condense_server_blocks] (store_new sample_budget))"
  by (rule store_always_wellformed) (simp add: message_user_def)

lemma enforce_cases:
  obtains ms d where
    "drop_loop bpe render (budget s) 10 False (run_sync_degradation bpe render (budget s) (messages s)) = (ms, d)"
    "messages (enforce_budget bpe render s) = (if d then sanitize_tool_pairs ms else ms)"
    "budget (enforce_budget bpe render s) = budget s"
  by (cases "drop_loop bpe render (budget s) 10 False
        (run_sync_degradation bpe render (budget s) (messages s))")
    (auto simp: enforce_budget_def)



text \<open>
  The budget is not an invariant of the store: a single user message of any size is accepted
  and stays, because there is nothing older to shed.
\<close>

theorem push_user_may_exceed_budget:
  "messages (push_user bpe render (message_user t) (store_new b)) = [message_user t]"
proof -
  have strip: "strip_ephemeral_blocks [message_user t] = [message_user t]"
    by (simp add: strip_ephemeral_blocks_def condense_old_server_blocks_def drop_empty_def
        strip_message_def message_user_def)
  have keep: "on_old_user_messages f [message_user t] = [message_user t]"
    if "\<And>b. \<not> truncatable b \<Longrightarrow> f b = b" for f
    using that[of "Text t"] by (simp add: on_old_user_messages_def message_user_def map_content_def
        truncatable_def)
  have over: "truncate_oversized bpe th b = b" if "\<not> truncatable b" for th b
    using that by (cases b) (auto simp: truncatable_def)
  have "run_sync_degradation bpe render b [message_user t] = [message_user t]"
    by (simp add: run_sync_degradation_def Let_def strip truncate_oversized_results_def
        emergency_degrade_def keep over)
  moreover have "drop_loop bpe render b 10 False [message_user t] = ([message_user t], False)"
    by (simp add: eval_nat_numeral drop_oldest_group_def message_user_def)
  ultimately show ?thesis
    by (simp add: push_user_def enforce_budget_def store_new_def)
qed

text \<open>
  A summary is applied only when it helps: \<open>apply_summary\<close> answers \<open>False\<close> exactly when the
  sanitized replacement would still need emergency treatment, and then the store is as it was;
  otherwise the store holds what enforcing the budget makes of the sanitized replacement.
\<close>

theorem apply_summary_reverts:
  "case apply_summary bpe render new_messages s of
     (s', applied) \<Rightarrow>
       applied = (\<not> needs_emergency (budget s)
                    (estimate_messages_tokens bpe render (sanitize_tool_pairs new_messages)))
     \<and> (if applied then s' = enforce_budget bpe render (s\<lparr>messages := sanitize_tool_pairs new_messages\<rparr>)
        else s' = s)
     \<and> budget s' = budget s"
  by (auto simp: apply_summary_def Let_def enforce_budget_def split: prod.splits)

lemma keep_loop_tail:
  "\<exists>k. keep_loop est half t n ms = n + k \<and> k \<le> length ms
   \<and> (0 < k \<longrightarrow> t + sum_list (map est (take k ms)) \<le> half \<or> n + k = 1)
   \<and> (k < length ms \<longrightarrow> 0 < n + k \<and> half < t + sum_list (map est (take (Suc k) ms)))"
proof (induction est half t n ms rule: keep_loop.induct)
  case (2 est half t n msg rest)
  show ?case
  proof (cases "half < t + est msg \<and> 0 < n")
    case False
    from "2.IH"[OF this] obtain k where k:
      "keep_loop est half (t + est msg) (n + 1) rest = n + 1 + k" "k \<le> length rest"
      "0 < k \<longrightarrow> t + est msg + sum_list (map est (take k rest)) \<le> half \<or> n + 1 + k = 1"
      "k < length rest \<longrightarrow> half < t + est msg + sum_list (map est (take (Suc k) rest))" by blast
    have "0 < k \<or> t + est msg \<le> half \<or> n = 0" using False by auto
    then show ?thesis
      using k False by (intro exI[of _ "Suc k"]) (auto simp: add.assoc)
  qed auto
qed auto

text \<open>
  \<open>token_aware_keep_count\<close> finds the longest tail that fits half of the budget, and answers at
  least two: with k the number it counts from the end, the last k messages fit (or k is 1), and
  when older messages are left the last k + 1 do not.
\<close>

theorem token_aware_keep_count_longest:
  "\<exists>k. token_aware_keep_count bpe render s = max k 2 \<and> k \<le> length (messages s)
     \<and> (0 < k \<longrightarrow> k = 1 \<or>
          sum_list (map (estimate_message_tokens bpe render) (take k (rev (messages s))))
            \<le> message_budget (budget s) div 2)
     \<and> (k < length (messages s) \<longrightarrow>
          0 < k \<and> message_budget (budget s) div 2
            < sum_list (map (estimate_message_tokens bpe render) (take (Suc k) (rev (messages s)))))"
  using keep_loop_tail[of "estimate_message_tokens bpe render" "message_budget (budget s) div 2" 0 0
      "rev (messages s)"]
  by (auto simp: token_aware_keep_count_def)

theorem token_aware_keep_count_longest_witness:
  "\<exists>k. token_aware_keep_count length (\<lambda>_. '''')
          \<lparr>messages = [message_user ''one'', message_user ''two'', message_user ''six''],
           budget = calculate length 20 [] 0 0\<rparr> = max k 2
      \<and> 0 < k \<and> k < 3"
proof -
  let ?s = "\<lparr>messages = [message_user ''one'', message_user ''two'', message_user ''six''],
             budget = calculate length 20 [] 0 0\<rparr>"
  obtain k where k: "token_aware_keep_count length (\<lambda>_. '''') ?s = max k 2" "k \<le> length (messages ?s)"
    "0 < k \<longrightarrow> k = 1 \<or>
      sum_list (map (estimate_message_tokens length (\<lambda>_. '''')) (take k (rev (messages ?s))))
        \<le> message_budget (budget ?s) div 2"
    "k < length (messages ?s) \<longrightarrow> 0 < k"
    using token_aware_keep_count_longest[of length "\<lambda>_. ''''" ?s] by blast
  have "k \<noteq> 3" using k(3)
    by (auto simp: message_user_def estimate_message_tokens_def estimate_tokens_def calculate_def
        sat_sub_def Let_def)
  with k show ?thesis by (intro exI[of _ k]) auto
qed

end
