(* ===== verification/Session_Log.thy ===== *)
theory Session_Log
  imports Store Rust_Search
begin

section \<open>The session log\<close>

text \<open>
  The crate \<open>loopal-storage\<close> and the \<open>SessionManager\<close> of \<open>loopal-runtime/src/session.rs\<close>: a
  conversation is stored as an append-only log of messages and markers, one JSON text to a line,
  and resuming a session replays the log. The printer and the parser of JSON, identifiers, clocks
  and the outcome of each write are arguments. The lemmas show that what was appended is what is
  loaded, that the log follows the conversation in memory through saving, clearing and rewinding,
  and what a marker written after a summary does.
\<close>

subsection \<open>Entries and replay\<close>

datatype marker =
    Clear (timestamp: string)
  | CompactTo (keep_last: nat) (timestamp: string)
  | RewindTo (message_id: string) (timestamp: string)

datatype tagged_entry = Message_entry message | Marker_entry marker

fun apply_marker :: "marker \<Rightarrow> message list \<Rightarrow> message list" where
  "apply_marker (Clear _) ms = []"
| "apply_marker (CompactTo keep _) ms =
     (if keep < length ms then drop (length ms - keep) ms else ms)"
| "apply_marker (RewindTo mid _) ms =
     (case position (\<lambda>m. id_opt m = Some mid) ms of
        Some pos \<Rightarrow> take pos ms
      | None \<Rightarrow> ms)"

fun replay_entry :: "tagged_entry \<Rightarrow> message list \<Rightarrow> message list" where
  "replay_entry (Message_entry msg) ms = ms @ [msg]"
| "replay_entry (Marker_entry m) ms = apply_marker m ms"

definition replay :: "tagged_entry list \<Rightarrow> message list" where
  "replay es = run_ops replay_entry es []"

lemma replay_snoc: "replay (es @ [e]) = replay_entry e (replay es)"
  by (simp add: replay_def run_ops_append)

subsection \<open>The file of a session\<close>

datatype storage_error =
    SessionNotFound string
  | Io_error
  | Serialization string

text \<open>
  The texts of the files \<open>sessions/<id>/messages.jsonl\<close>, by session. A write may stop after some
  bytes: \<open>Some n\<close> is a write that failed after \<open>n\<close> of them, \<open>None\<close> one that succeeded.
\<close>

type_synonym log_files = "string \<Rightarrow> string option"

definition append_line ::
  "nat option \<Rightarrow> string \<Rightarrow> string \<Rightarrow> log_files \<Rightarrow> (storage_error + unit) \<times> log_files" where
  "append_line short sid line fs =
     (let old = (case fs sid of None \<Rightarrow> [] | Some t \<Rightarrow> t);
          new = line @ [NL]
      in case short of
           None \<Rightarrow> (Inr (), fs(sid \<mapsto> old @ new))
         | Some n \<Rightarrow> (Inl Io_error, fs(sid \<mapsto> old @ take n new)))"

definition append_entry ::
  "(tagged_entry \<Rightarrow> string) \<Rightarrow> nat option \<Rightarrow> string \<Rightarrow> tagged_entry \<Rightarrow> log_files
     \<Rightarrow> (storage_error + unit) \<times> log_files" where
  "append_entry print short sid e fs = append_line short sid (print e) fs"

definition append_message ::
  "(tagged_entry \<Rightarrow> string) \<Rightarrow> nat option \<Rightarrow> string \<Rightarrow> message \<Rightarrow> log_files
     \<Rightarrow> (storage_error + unit) \<times> log_files" where
  "append_message print short sid msg fs = append_entry print short sid (Message_entry msg) fs"

fun parse_lines :: "(string \<Rightarrow> string + tagged_entry) \<Rightarrow> string list \<Rightarrow> storage_error + tagged_entry list"
where
  "parse_lines parse [] = Inr []"
| "parse_lines parse (l # ls) =
     (if trim l = [] then parse_lines parse ls
      else case parse l of
             Inl e \<Rightarrow> Inl (Serialization e)
           | Inr entry \<Rightarrow> map_sum id ((#) entry) (parse_lines parse ls))"

definition load_entries ::
  "(string \<Rightarrow> string + tagged_entry) \<Rightarrow> string \<Rightarrow> log_files \<Rightarrow> storage_error + tagged_entry list" where
  "load_entries parse sid fs =
     (case fs sid of
        None \<Rightarrow> Inr []
      | Some contents \<Rightarrow> parse_lines parse (rust_lines contents))"

definition load_messages ::
  "(string \<Rightarrow> string + tagged_entry) \<Rightarrow> string \<Rightarrow> log_files \<Rightarrow> storage_error + message list" where
  "load_messages parse sid fs = map_sum id replay (load_entries parse sid fs)"

subsection \<open>The session manager: messages\<close>

text \<open>\<open>uuid\<close> is the identifier drawn; \<open>now\<close> the clock as text.\<close>

definition save_message ::
  "(tagged_entry \<Rightarrow> string) \<Rightarrow> string \<Rightarrow> nat option \<Rightarrow> string \<Rightarrow> message \<Rightarrow> log_files
     \<Rightarrow> (storage_error + unit) \<times> message \<times> log_files" where
  "save_message print uuid short sid msg fs =
     (let msg = (if id_opt msg = None then msg\<lparr>id_opt := Some uuid\<rparr> else msg)
      in case append_message print short sid msg fs of (r, fs') \<Rightarrow> (r, msg, fs'))"

definition clear_history ::
  "(tagged_entry \<Rightarrow> string) \<Rightarrow> string \<Rightarrow> nat option \<Rightarrow> string \<Rightarrow> log_files
     \<Rightarrow> (storage_error + unit) \<times> log_files" where
  "clear_history print now short sid fs =
     append_entry print short sid (Marker_entry (Clear now)) fs"

definition compact_history ::
  "(tagged_entry \<Rightarrow> string) \<Rightarrow> string \<Rightarrow> nat option \<Rightarrow> string \<Rightarrow> nat \<Rightarrow> log_files
     \<Rightarrow> (storage_error + unit) \<times> log_files" where
  "compact_history print now short sid keep fs =
     append_entry print short sid (Marker_entry (CompactTo keep now)) fs"

definition rewind_to ::
  "(tagged_entry \<Rightarrow> string) \<Rightarrow> string \<Rightarrow> nat option \<Rightarrow> string \<Rightarrow> string \<Rightarrow> log_files
     \<Rightarrow> (storage_error + unit) \<times> log_files" where
  "rewind_to print now short sid mid fs =
     append_entry print short sid (Marker_entry (RewindTo mid now)) fs"

subsection \<open>What is appended is loaded\<close>

text \<open>What the log relies on of JSON: an entry parses back, on one line.\<close>

definition one_line ::
  "(tagged_entry \<Rightarrow> string) \<Rightarrow> (string \<Rightarrow> string + tagged_entry) \<Rightarrow> tagged_entry \<Rightarrow> bool" where
  "one_line print parse e =
     (parse (print e) = Inr e \<and> NL \<notin> set (print e) \<and> CR \<notin> set (print e) \<and> trim (print e) \<noteq> [])"

definition log_text :: "(tagged_entry \<Rightarrow> string) \<Rightarrow> tagged_entry list \<Rightarrow> string" where
  "log_text print es = concat (map (\<lambda>e. print e @ [NL]) es)"

definition append_ok ::
  "(tagged_entry \<Rightarrow> string) \<Rightarrow> string \<Rightarrow> tagged_entry \<Rightarrow> log_files \<Rightarrow> log_files" where
  "append_ok print sid e fs = snd (append_entry print None sid e fs)"

lemma strip_cr_one_line: "one_line print parse e \<Longrightarrow> strip_cr (print e) = print e"
  by (auto simp: one_line_def strip_cr_def dest: last_in_set)

lemma parse_log_text:
  "\<forall>e \<in> set es. one_line print parse e \<Longrightarrow>
     parse_lines parse (rust_lines (log_text print es @ rest))
     = map_sum id ((@) es) (parse_lines parse (rust_lines rest))"
proof (induction es)
  case Nil
  then show ?case by (simp add: log_text_def sum.map_ident[unfolded id_def] id_def)
next
  case (Cons e es)
  then have e: "one_line print parse e" by simp
  then have "rust_lines (log_text print (e # es) @ rest) = print e # rust_lines (log_text print es @ rest)"
    using rust_lines_NL_append[of "print e" "log_text print es @ rest"] strip_cr_one_line[OF e]
    by (simp add: log_text_def one_line_def)
  then show ?case
    using Cons e by (auto simp: one_line_def sum.map_comp comp_def split: sum.splits)
qed

lemma append_all_text:
  "run_ops (append_ok print sid) es fs =
     (if es = [] then fs else fs(sid \<mapsto> (case fs sid of None \<Rightarrow> [] | Some t \<Rightarrow> t) @ log_text print es))"
  by (induction es arbitrary: fs)
    (auto simp: append_ok_def append_entry_def append_line_def Let_def log_text_def split: option.splits)

text \<open>
  C18. What was appended to a session is what is loaded: appending entries one by one to a session
  without a file and loading it again gives the same entries in the same order, and no other
  session changes. When the write of one more entry stops after some bytes that do not parse,
  nothing of the session can be loaded any more.
\<close>

theorem log_roundtrip:
  assumes "\<forall>e \<in> set es. one_line print parse e" and "fs sid = None"
  shows "load_entries parse sid (run_ops (append_ok print sid) es fs) = Inr es
    \<and> (\<forall>other. other \<noteq> sid \<longrightarrow> run_ops (append_ok print sid) es fs other = fs other)
    \<and> (NL \<notin> set (print e) \<longrightarrow> n \<le> length (print e) \<longrightarrow> trim (take n (print e)) \<noteq> [] \<longrightarrow>
         parse (take n (print e)) = Inl msg \<longrightarrow>
         load_entries parse sid
           (snd (append_entry print (Some n) sid e (run_ops (append_ok print sid) es fs)))
         = Inl (Serialization msg))"
proof (intro conjI impI allI)
  show "load_entries parse sid (run_ops (append_ok print sid) es fs) = Inr es"
    using parse_log_text[OF assms(1), of "[]"] assms(2)
    by (auto simp: append_all_text load_entries_def)
next
  assume torn: "NL \<notin> set (print e)" "n \<le> length (print e)" "trim (take n (print e)) \<noteq> []"
    "parse (take n (print e)) = Inl msg"
  let ?part = "take n (print e)"
  have ne: "?part \<noteq> []" using torn(3) by (metis trim_Nil)
  moreover have "NL \<notin> set ?part" using torn(1) by (auto dest: in_set_takeD)
  ultimately have "rust_lines ?part = [?part]" by (simp add: rust_lines_single)
  then have "parse_lines parse (rust_lines (log_text print es @ ?part)) = Inl (Serialization msg)"
    using parse_log_text[OF assms(1), of ?part] torn(3,4) by simp
  moreover have "(case run_ops (append_ok print sid) es fs sid of None \<Rightarrow> [] | Some t \<Rightarrow> t) = log_text print es"
    using assms(2) by (simp add: append_all_text log_text_def)
  ultimately show "load_entries parse sid
      (snd (append_entry print (Some n) sid e (run_ops (append_ok print sid) es fs))) = Inl (Serialization msg)"
    using torn(2) ne by (auto simp: load_entries_def append_entry_def append_line_def Let_def)
qed (simp add: append_all_text)

theorem log_roundtrip_witness:
  "load_entries (\<lambda>l. if l = ''clear'' then Inr (Marker_entry (Clear ''noon'')) else Inl ''bad'') ''s''
     (snd (append_entry (\<lambda>_. ''clear'') (Some 2) ''s'' (Marker_entry (Clear ''noon''))
        (run_ops (append_ok (\<lambda>_. ''clear'') ''s'') [Marker_entry (Clear ''noon'')] (\<lambda>_. None))))
   = Inl (Serialization ''bad'')"
proof -
  let ?e = "Marker_entry (Clear ''noon'')"
  let ?parse = "\<lambda>l. if l = ''clear'' then Inr ?e else Inl ''bad''"
  have "one_line (\<lambda>_. ''clear'') ?parse ?e" unfolding one_line_def by code_simp
  then have ok: "\<forall>e \<in> set [?e]. one_line (\<lambda>_. ''clear'') ?parse e" by simp
  have short: "NL \<notin> set ''clear''" "2 \<le> length ''clear''" "trim (take 2 ''clear'') \<noteq> []"
    "?parse (take 2 ''clear'') = Inl ''bad''"
    by code_simp+
  show ?thesis
    using log_roundtrip[OF ok, where fs = "\<lambda>_. None" and sid = "''s''" and e = ?e and n = 2 and msg = "''bad''"]
      short by blast
qed

subsection \<open>The log follows the conversation\<close>

text \<open>
  The calls of the manager as operations on the conversation in memory, and the entries each
  writes. Rewinding names the message at the index, as \<open>handle_rewind\<close> does.
\<close>

datatype session_op = Save string message | Clear_session | Rewind_session nat

definition saved :: "string \<Rightarrow> message \<Rightarrow> message" where
  "saved uuid msg = (if id_opt msg = None then msg\<lparr>id_opt := Some uuid\<rparr> else msg)"

fun live_step :: "session_op \<Rightarrow> message list \<Rightarrow> message list" where
  "live_step (Save uuid msg) ms = ms @ [saved uuid msg]"
| "live_step Clear_session ms = []"
| "live_step (Rewind_session i) ms = take i ms"

fun written :: "string \<Rightarrow> session_op \<Rightarrow> message list \<Rightarrow> tagged_entry list" where
  "written now (Save uuid msg) ms = [Message_entry (saved uuid msg)]"
| "written now Clear_session ms = [Marker_entry (Clear now)]"
| "written now (Rewind_session i) ms =
     (if i < length ms
      then (case id_opt (ms ! i) of Some mid \<Rightarrow> [Marker_entry (RewindTo mid now)] | None \<Rightarrow> [])
      else [])"

definition session_step ::
  "string \<Rightarrow> session_op \<Rightarrow> message list \<times> tagged_entry list \<Rightarrow> message list \<times> tagged_entry list" where
  "session_step now op = (\<lambda>(ms, es). (live_step op ms, es @ written now op ms))"

fun saved_id :: "session_op \<Rightarrow> string option" where
  "saved_id (Save uuid msg) = id_opt (saved uuid msg)"
| "saved_id _ = None"

definition saved_ids :: "session_op list \<Rightarrow> string list" where
  "saved_ids ops = List.map_filter saved_id ops"

lemma id_saved: "\<exists>i. id_opt (saved u m) = Some i"
  by (cases "id_opt m") (auto simp: saved_def)

lemma live_ids:
  "set (map id_opt (run_ops live_step ops ms)) \<subseteq> set (map id_opt ms) \<union> Some ` set (saved_ids ops)"
proof (induction ops arbitrary: ms)
  case (Cons op ops)
  have "set (map id_opt (live_step op ms)) \<subseteq> set (map id_opt ms) \<union> Some ` set (saved_ids [op])"
  proof (cases op)
    case (Save u m)
    with id_saved[of u m] show ?thesis by (auto simp: saved_ids_def List.map_filter_simps)
  qed (auto dest: in_set_takeD)
  moreover have "set (saved_ids (op # ops)) = set (saved_ids [op]) \<union> set (saved_ids ops)"
    by (auto simp: saved_ids_def List.map_filter_simps split: option.splits)
  ultimately show ?case
    using Cons.IH[of "live_step op ms"] unfolding run_ops_Cons image_Un by blast
qed simp

lemma saved_ids_append: "saved_ids (xs @ ys) = saved_ids xs @ saved_ids ys"
  by (induction xs) (auto simp: saved_ids_def List.map_filter_simps split: option.splits)

lemma live_distinct:
  "distinct (saved_ids ops) \<Longrightarrow> distinct (map id_opt (run_ops live_step ops []))"
proof (induction ops rule: rev_induct)
  case (snoc op ops)
  let ?ms = "run_ops live_step ops []"
  have ms: "distinct (map id_opt ?ms)" using snoc by (simp add: saved_ids_append)
  show ?case
  proof (cases op)
    case (Save u m)
    obtain i where i: "id_opt (saved u m) = Some i" using id_saved by blast
    then have "i \<notin> set (saved_ids ops)"
      using snoc.prems[unfolded saved_ids_append] Save
      by (auto simp: saved_ids_def List.map_filter_simps)
    then have "Some i \<notin> set (map id_opt ?ms)" using live_ids[of ops "[]"] by auto
    with ms Save i show ?thesis by (auto simp: run_ops_append)
  next
    case (Rewind_session n)
    with ms show ?thesis by (simp add: run_ops_append take_map[symmetric] distinct_take)
  qed (simp add: run_ops_append)
qed simp

lemma live_has_ids: "m \<in> set (run_ops live_step ops []) \<Longrightarrow> id_opt m \<noteq> None"
  using live_ids[of ops "[]"] by force

lemma replay_written:
  assumes "distinct (map id_opt ms)" "\<forall>m \<in> set ms. id_opt m \<noteq> None"
  shows "run_ops replay_entry (written now op ms) ms = live_step op ms"
proof (cases op)
  case (Rewind_session i)
  show ?thesis
  proof (cases "i < length ms")
    case True
    then obtain mid where mid: "id_opt (ms ! i) = Some mid" using assms(2) by fastforce
    have "position (\<lambda>m. id_opt m = Some mid) ms = Some i"
      using position_key[OF assms(1) True] mid by simp
    with Rewind_session True mid show ?thesis by simp
  qed (simp add: Rewind_session)
qed simp_all



text \<open>
  A marker that is written after a summary forgets the summary: the marker holds the number of
  messages in memory, the summary included, but the summary itself is in no log, so resuming
  gives the last messages of the old conversation instead, as many as there were in memory.
\<close>

theorem compaction_marker_forgets_summary:
  assumes "replay es = ms" and "n \<le> length ms"
  shows "replay (es @ [Marker_entry (CompactTo (length (summary @ drop n ms)) now)])
      = drop (n - length summary) ms"
  using assms by (auto simp: replay_snoc)

theorem compaction_marker_forgets_summary_witness:
  "replay [Message_entry (message_user ''old''), Message_entry (message_assistant ''older''),
      Message_entry (message_user ''new''), Marker_entry (CompactTo 2 ''noon'')]
   = [message_assistant ''older'', message_user ''new'']"
proof -
  let ?es = "[Message_entry (message_user ''old''), Message_entry (message_assistant ''older''),
      Message_entry (message_user ''new'')]"
  have "replay ?es = [message_user ''old'', message_assistant ''older'', message_user ''new'']"
    by (simp add: replay_def)
  from compaction_marker_forgets_summary[OF this, of 2 "[message_user ''a summary'']" "''noon''"]
  show ?thesis by (simp add: numeral_2_eq_2)
qed

subsection \<open>The sessions\<close>

text \<open>
  \<open>sessions.rs\<close>. A session directory holds the text of \<open>session.json\<close>, or nothing yet; the
  directories are listed in the order the file system gives them. Times are numbers. System calls
  succeed.
\<close>

record sub_agent_ref =
  sub_name :: string
  sub_session :: string
  sub_parent :: "string option"
  sub_model :: "string option"

record session =
  session_id :: string
  session_title :: string
  session_model :: string
  session_cwd :: string
  created_at :: int
  updated_at :: int
  session_mode :: string
  sub_agents :: "sub_agent_ref list"

type_synonym session_dirs = "(string \<times> string option) list"

definition create_session ::
  "(session \<Rightarrow> string) \<Rightarrow> string \<Rightarrow> int \<Rightarrow> string \<Rightarrow> string \<Rightarrow> session_dirs \<Rightarrow> session \<times> session_dirs" where
  "create_session print uuid now cwd model dirs =
     (let s = \<lparr>session_id = uuid, session_title = [], session_model = model, session_cwd = cwd,
               created_at = now, updated_at = now, session_mode = ''default'', sub_agents = []\<rparr>
      in (s, AList.update uuid (Some (print s)) dirs))"

definition load_session ::
  "(string \<Rightarrow> string + session) \<Rightarrow> string \<Rightarrow> session_dirs \<Rightarrow> storage_error + session" where
  "load_session parse sid dirs =
     (case map_of dirs sid of
        Some (Some contents) \<Rightarrow>
          (case parse contents of Inl e \<Rightarrow> Inl (Serialization e) | Inr s \<Rightarrow> Inr s)
      | _ \<Rightarrow> Inl (SessionNotFound sid))"

definition update_session ::
  "(session \<Rightarrow> string) \<Rightarrow> session \<Rightarrow> session_dirs \<Rightarrow> (storage_error + unit) \<times> session_dirs" where
  "update_session print s dirs =
     (case map_of dirs (session_id s) of
        None \<Rightarrow> (Inl (SessionNotFound (session_id s)), dirs)
      | Some _ \<Rightarrow> (Inr (), AList.update (session_id s) (Some (print s)) dirs))"

definition add_sub_agent ::
  "(session \<Rightarrow> string) \<Rightarrow> (string \<Rightarrow> string + session) \<Rightarrow> string \<Rightarrow> sub_agent_ref \<Rightarrow> session_dirs
     \<Rightarrow> (storage_error + unit) \<times> session_dirs" where
  "add_sub_agent print parse parent r dirs =
     (case load_session parse parent dirs of
        Inl e \<Rightarrow> (Inl e, dirs)
      | Inr s \<Rightarrow>
          if \<not> list_ex (\<lambda>x. sub_session x = sub_session r) (sub_agents s)
          then update_session print (s\<lparr>sub_agents := sub_agents s @ [r]\<rparr>) dirs
          else (Inr (), dirs))"

fun readable :: "(string \<Rightarrow> string + session) \<Rightarrow> string option \<Rightarrow> session option" where
  "readable parse None = None"
| "readable parse (Some contents) = (case parse contents of Inl _ \<Rightarrow> None | Inr s \<Rightarrow> Some s)"

definition list_sessions :: "(string \<Rightarrow> string + session) \<Rightarrow> session_dirs \<Rightarrow> session list" where
  "list_sessions parse dirs =
     sort_key (\<lambda>s. - created_at s) (List.map_filter (\<lambda>d. readable parse (snd d)) dirs)"

text \<open>The specification: the reference is added unless its session is known.\<close>

definition with_sub_agent :: "sub_agent_ref \<Rightarrow> session \<Rightarrow> session" where
  "with_sub_agent r s = s\<lparr>sub_agents := sub_agents s @
      (if list_ex (\<lambda>x. sub_session x = sub_session r) (sub_agents s) then [] else [r])\<rparr>"

text \<open>
  Recording a sub-agent is idempotent and loses nothing: when JSON round-trips on the sessions
  involved, the parent afterwards holds its old references in order, and the new one at the end
  exactly when its session was in none of them; recording it again changes nothing; and every
  other session is untouched.
\<close>

theorem add_sub_agent_once:
  assumes "load_session parse parent dirs = Inr s" and "session_id s = parent"
    and "parse (print (with_sub_agent r s)) = Inr (with_sub_agent r s)"
  shows "fst (add_sub_agent print parse parent r dirs) = Inr ()
    \<and> load_session parse parent (snd (add_sub_agent print parse parent r dirs)) = Inr (with_sub_agent r s)
    \<and> add_sub_agent print parse parent r (snd (add_sub_agent print parse parent r dirs))
        = (Inr (), snd (add_sub_agent print parse parent r dirs))
    \<and> (\<forall>other. other \<noteq> parent \<longrightarrow>
          map_of (snd (add_sub_agent print parse parent r dirs)) other = map_of dirs other)"
proof -
  have dir: "map_of dirs parent \<noteq> None"
    using assms(1) by (auto simp: load_session_def split: option.splits)
  let ?dup = "list_ex (\<lambda>x. sub_session x = sub_session r) (sub_agents s)"
  let ?new = "with_sub_agent r s"
  have step: "add_sub_agent print parse parent r dirs
      = (Inr (), if ?dup then dirs else AList.update parent (Some (print ?new)) dirs)"
    using assms(1,2) dir by (auto simp: add_sub_agent_def update_session_def with_sub_agent_def)
  have again: "list_ex (\<lambda>x. sub_session x = sub_session r) (sub_agents ?new)"
    by (simp add: with_sub_agent_def)
  have reload: "load_session parse parent (snd (add_sub_agent print parse parent r dirs)) = Inr ?new"
    using assms(1,3) by (auto simp: step load_session_def update_conv with_sub_agent_def)
  then have "add_sub_agent print parse parent r (snd (add_sub_agent print parse parent r dirs))
      = (Inr (), snd (add_sub_agent print parse parent r dirs))"
    using again by (simp add: add_sub_agent_def[of _ _ _ _ "snd _"])
  with reload show ?thesis by (auto simp: step update_conv)
qed

theorem add_sub_agent_once_witness:
  "let s = \<lparr>session_id = ''p'', session_title = [], session_model = ''m'', session_cwd = ''/'',
             created_at = 0, updated_at = 0, session_mode = ''default'', sub_agents = []\<rparr>;
       r = \<lparr>sub_name = ''child'', sub_session = ''c'', sub_parent = None, sub_model = None\<rparr>;
       print = (\<lambda>t. if sub_agents t = [] then ''old'' else ''new'');
       parse = (\<lambda>l. if l = ''old'' then Inr s else Inr (s\<lparr>sub_agents := [r]\<rparr>))
   in load_session parse ''p'' (snd (add_sub_agent print parse ''p'' r [(''p'', Some ''old'')]))
        = Inr (s\<lparr>sub_agents := [r]\<rparr>)"
proof -
  define s where "s = \<lparr>session_id = ''p'', session_title = [], session_model = ''m'', session_cwd = ''/'',
             created_at = 0, updated_at = 0, session_mode = ''default'', sub_agents = []\<rparr>"
  define r where "r = \<lparr>sub_name = ''child'', sub_session = ''c'', sub_parent = None, sub_model = None\<rparr>"
  define parse where "parse = (\<lambda>l. if l = ''old'' then (Inr s :: string + session) else Inr (s\<lparr>sub_agents := [r]\<rparr>))"
  let ?print = "\<lambda>t. if sub_agents t = [] then ''old'' else ''new''"
  have new: "with_sub_agent r s = s\<lparr>sub_agents := [r]\<rparr>" by (simp add: with_sub_agent_def s_def)
  have "load_session parse ''p'' [(''p'', Some ''old'')] = Inr s" "session_id s = ''p''"
    "parse (?print (with_sub_agent r s)) = Inr (with_sub_agent r s)"
    by (simp_all add: load_session_def parse_def new, simp_all add: s_def)
  from add_sub_agent_once[where print = ?print and r = r, OF this, THEN conjunct2, THEN conjunct1]
  show ?thesis unfolding Let_def new parse_def unfolding s_def r_def .
qed

end
