(* ===== verification/Tool_Run.thy ===== *)
theory Tool_Run
  imports Tool_Api Tool_Output
begin

section \<open>Running one tool\<close>

text \<open>
  The registry of tools (\<open>crates/tools/registry/src/registry.rs\<close>), the hooks
  (\<open>loopal-hooks/src/registry.rs\<close>, \<open>loopal-config/src/hook.rs\<close>) and the pipeline around a tool
  (\<open>loopal-runtime/src/tool_pipeline.rs\<close>). Tools, hook processes and the file system act on a
  world of any type, passed along explicitly. The lemmas show the order in which hooks and the
  tool act, and that a refused call does not act.
\<close>

subsection \<open>The registry\<close>

record 'w tool =
  tool_permission :: permission_level
  tool_precheck :: "json \<Rightarrow> string option"
  tool_execute :: "json \<Rightarrow> 'w \<Rightarrow> (string + tool_result) \<times> 'w"

type_synonym 'w tool_registry = "string \<Rightarrow> 'w tool option"

definition registry_new :: "'w tool_registry" where
  "registry_new = (\<lambda>_. None)"

definition register_tool :: "string \<Rightarrow> 'w tool \<Rightarrow> 'w tool_registry \<Rightarrow> 'w tool_registry" where
  "register_tool name t reg = reg(name \<mapsto> t)"

definition get_tool :: "string \<Rightarrow> 'w tool_registry \<Rightarrow> 'w tool option" where
  "get_tool name reg = reg name"

text \<open>
  The tools of the connected servers are added without shadowing: \<open>Kernel::start_mcp\<close>. The names
  that were skipped are given back.
\<close>

fun register_mcp :: "(string \<times> 'w tool) list \<Rightarrow> 'w tool_registry \<Rightarrow> string list \<times> 'w tool_registry" where
  "register_mcp [] reg = ([], reg)"
| "register_mcp ((name, t) # rest) reg =
     (if get_tool name reg \<noteq> None
      then (case register_mcp rest reg of (skipped, reg') \<Rightarrow> (name # skipped, reg'))
      else register_mcp rest (register_tool name t reg))"

subsection \<open>Hooks\<close>

datatype hook_event = PreToolUse | PostToolUse | PreRequest | PostInput

record hook_config =
  event :: hook_event
  command :: string
  tool_filter :: "string list option"
  timeout_ms :: nat

record hook_result =
  exit_code :: int
  stdout :: string
  stderr :: string

definition hook_success :: "hook_result \<Rightarrow> bool" where
  "hook_success r = (exit_code r = 0)"

definition match_hooks :: "hook_event \<Rightarrow> string option \<Rightarrow> hook_config list \<Rightarrow> hook_config list" where
  "match_hooks e tool_name hooks =
     filter (\<lambda>h.
       if event h \<noteq> e then False
       else case tool_filter h of
              Some filters \<Rightarrow>
                (case tool_name of Some name \<Rightarrow> list_ex (\<lambda>f. f = name) filters | None \<Rightarrow> False)
            | None \<Rightarrow> True) hooks"

subsection \<open>The pipeline\<close>

definition MAX_RESULT_LINES :: nat where "MAX_RESULT_LINES = 2000"
definition MAX_RESULT_BYTES :: nat where "MAX_RESULT_BYTES = 100000"

text \<open>What the pipeline uses of its surroundings; a failing clock or system call is \<open>None\<close> or \<open>False\<close>.\<close>

record 'w surroundings =
  registry :: "'w tool_registry"
  hooks :: "hook_config list"
  run_hook :: "hook_config \<Rightarrow> json \<Rightarrow> 'w \<Rightarrow> (string + hook_result) \<times> 'w"
  tmp_dir :: string
  clock_ms :: "nat option"
  make_dir :: "string \<Rightarrow> 'w \<Rightarrow> bool \<times> 'w"
  write_text :: "string \<Rightarrow> string \<Rightarrow> 'w \<Rightarrow> bool \<times> 'w"

definition save_full_output ::
  "'w surroundings \<Rightarrow> string \<Rightarrow> string \<Rightarrow> 'w \<Rightarrow> string option \<times> 'w" where
  "save_full_output env txt tool_name w =
     (case make_dir env (tmp_dir env) w of
        (False, w) \<Rightarrow> (None, w)
      | (True, w) \<Rightarrow>
          (case clock_ms env of
             None \<Rightarrow> (None, w)
           | Some ts \<Rightarrow>
               let path = tmp_dir env @ ''/'' @ ''tool_'' @ tool_name @ ''_'' @ nat_str ts @ ''.txt''
               in case write_text env path txt w of
                    (False, w) \<Rightarrow> (None, w)
                  | (True, w) \<Rightarrow> (Some path, w)))"

definition truncate_result ::
  "'w surroundings \<Rightarrow> tool_result \<Rightarrow> string \<Rightarrow> 'w \<Rightarrow> tool_result \<times> 'w" where
  "truncate_result env result tool_name w =
     (if \<not> needs_truncation (result_text result) MAX_RESULT_LINES MAX_RESULT_BYTES then (result, w)
      else
        case save_full_output env (result_text result) tool_name w of
          (saved_path, w) \<Rightarrow>
            let truncated = truncate_output (result_text result) MAX_RESULT_LINES MAX_RESULT_BYTES;
                truncated = (case saved_path of
                    Some path \<Rightarrow> truncated @ [NL, NL] @ ''[Full output saved to: '' @ path @ '']''
                  | None \<Rightarrow> truncated)
            in (result\<lparr>result_text := truncated\<rparr>, w))"

fun run_pre_hooks ::
  "'w surroundings \<Rightarrow> hook_config list \<Rightarrow> json \<Rightarrow> 'w \<Rightarrow> tool_result option \<times> 'w" where
  "run_pre_hooks env [] dat w = (None, w)"
| "run_pre_hooks env (h # hs) dat w =
     (case run_hook env h dat w of
        (Inr r, w) \<Rightarrow>
          if \<not> hook_success r then (Some (tool_error (''Pre-hook rejected: '' @ trim (stderr r))), w)
          else run_pre_hooks env hs dat w
      | (Inl e, w) \<Rightarrow> (Some (tool_error (''Pre-hook error: '' @ e)), w))"

fun run_post_hooks :: "'w surroundings \<Rightarrow> hook_config list \<Rightarrow> json \<Rightarrow> 'w \<Rightarrow> 'w" where
  "run_post_hooks env [] dat w = w"
| "run_post_hooks env (h # hs) dat w = run_post_hooks env hs dat (snd (run_hook env h dat w))"

definition execute_tool ::
  "'w surroundings \<Rightarrow> string \<Rightarrow> json \<Rightarrow> 'w \<Rightarrow> (string + tool_result) \<times> 'w" where
  "execute_tool env name input w =
     (case get_tool name (registry env) of
        None \<Rightarrow> (Inl (''Tool error: Tool not found: '' @ name), w)
      | Some t \<Rightarrow>
          (case run_pre_hooks env (match_hooks PreToolUse (Some name) (hooks env))
                  (JObj [(''tool_name'', JStr name), (''tool_input'', input)]) w of
             (Some refusal, w) \<Rightarrow> (Inr refusal, w)
           | (None, w) \<Rightarrow>
               (case tool_execute t input w of
                  (Inl e, w) \<Rightarrow> (Inl e, w)
                | (Inr result, w) \<Rightarrow>
                    (case truncate_result env result name w of
                       (result, w) \<Rightarrow>
                         (Inr result,
                          run_post_hooks env (match_hooks PostToolUse (Some name) (hooks env))
                            (JObj [(''tool_name'', JStr name), (''tool_input'', input),
                                   (''tool_output'', JStr (result_text result)),
                                   (''is_error'', JBool (result_error result))]) w)))))"

subsection \<open>Properties\<close>

text \<open>The specification: the names that were seen before.\<close>

fun seen_before :: "string set \<Rightarrow> string list \<Rightarrow> string list" where
  "seen_before seen [] = []"
| "seen_before seen (n # ns) =
     (if n \<in> seen then n # seen_before seen ns else seen_before (insert n seen) ns)"

lemma register_mcp_spec:
  "get_tool n (snd (register_mcp ts reg))
     = (case get_tool n reg of Some t \<Rightarrow> Some t | None \<Rightarrow> map_of ts n)
   \<and> fst (register_mcp ts reg) = seen_before (dom reg) (map fst ts)"
proof (induction ts reg rule: register_mcp.induct)
  case (2 name t rest reg)
  show ?case
  proof (cases "reg name")
    case None
    then have "get_tool name reg = None" by (simp add: get_tool_def)
    from "2.IH"(2)[simplified this, simplified] None show ?thesis
      by (auto simp: get_tool_def register_tool_def split: option.splits simp del: fun_upd_apply)
        (auto split: if_splits)
  next
    case (Some t')
    then have "get_tool name reg \<noteq> None" by (simp add: get_tool_def)
    from "2.IH"(1)[OF this] Some show ?thesis
      by (auto simp: get_tool_def split: option.splits prod.splits)
  qed
qed (simp add: get_tool_def split: option.splits)

text \<open>
  Tools of servers never shadow a tool: a name that is registered keeps its tool, any other
  name gets the first tool of the servers that has it, and the names skipped are exactly those
  that were taken when their turn came.
\<close>

theorem register_mcp_never_shadows:
  "get_tool n (snd (register_mcp ts reg))
     = (case get_tool n reg of Some t \<Rightarrow> Some t | None \<Rightarrow> map_of ts n)
   \<and> fst (register_mcp ts reg) = seen_before (dom reg) (map fst ts)"
  by (rule register_mcp_spec)

text \<open>What happens to the world, as a list of actions.\<close>

datatype action = Ran hook_config | Executed json | Saved string

definition hook_passes :: "(hook_config \<Rightarrow> string + hook_result) \<Rightarrow> hook_config \<Rightarrow> bool" where
  "hook_passes outcome h = (case outcome h of Inr r \<Rightarrow> hook_success r | Inl _ \<Rightarrow> False)"

definition saved_actions :: "bool \<Rightarrow> string \<Rightarrow> nat option \<Rightarrow> string \<Rightarrow> string + tool_result \<Rightarrow> action list" where
  "saved_actions made dir clock name answer =
     (case (answer, clock) of
        (Inr r, Some ts) \<Rightarrow>
          if made \<and> needs_truncation (result_text r) MAX_RESULT_LINES MAX_RESULT_BYTES
          then [Saved (dir @ ''/'' @ ''tool_'' @ name @ ''_'' @ nat_str ts @ ''.txt'')] else []
      | _ \<Rightarrow> [])"

lemma run_pre_hooks_trace:
  assumes "\<And>h dat w. run_hook env h dat w = (outcome h, w @ [Ran h])"
  shows "case run_pre_hooks env hs dat w of (refusal, w') \<Rightarrow>
      w' = w @ map Ran (take (Suc (length (takeWhile (hook_passes outcome) hs))) hs)
    \<and> (refusal = None \<longleftrightarrow> list_all (hook_passes outcome) hs)
    \<and> (case refusal of None \<Rightarrow> True | Some r \<Rightarrow> result_error r)"
proof (induction hs arbitrary: w)
  case (Cons h hs)
  show ?case
  proof (cases "outcome h")
    case (Inl e)
    then show ?thesis by (simp add: assms hook_passes_def tool_error_def)
  next
    case (Inr r)
    with Cons[of "w @ [Ran h]"] show ?thesis
      by (auto simp: assms hook_passes_def tool_error_def split: prod.splits)
  qed
qed simp

lemma run_post_hooks_trace:
  assumes "\<And>h dat w. run_hook env h dat w = (outcome h, w @ [Ran h])"
  shows "run_post_hooks env hs dat w = w @ map Ran hs"
  by (induction hs arbitrary: w) (simp_all add: assms)

lemma truncate_result_trace:
  assumes "\<And>d w. make_dir env d w = (made, w)" "\<And>p t w. write_text env p t w = (wrote, w @ [Saved p])"
  shows "snd (truncate_result env r name w)
      = w @ saved_actions made (tmp_dir env) (clock_ms env) name (Inr r)"
  by (auto simp: truncate_result_def save_full_output_def assms saved_actions_def Let_def
      split: option.splits prod.splits bool.splits)

text \<open>
  The pipeline acts in the order it promises. The hooks for the tool run in order up to the
  first that fails or refuses; only when all pass is the tool executed, once, with its input; a
  result that is too long is saved after that; and the later hooks run, all of them whatever they
  answer, exactly when the tool gave a result. A refused call answers with an error.
\<close>

theorem execute_tool_order:
  assumes "get_tool name (registry env) = Some t"
    and "\<And>h dat w. run_hook env h dat w = (outcome h, w @ [Ran h])"
    and "\<And>i w. tool_execute t i w = (answer i, w @ [Executed i])"
    and "\<And>d w. make_dir env d w = (made, w)"
    and "\<And>p txt w. write_text env p txt w = (wrote, w @ [Saved p])"
  defines "pre \<equiv> match_hooks PreToolUse (Some name) (hooks env)"
    and "post \<equiv> match_hooks PostToolUse (Some name) (hooks env)"
  shows "if list_all (hook_passes outcome) pre
     then snd (execute_tool env name input w)
            = w @ map Ran pre @ [Executed input]
                @ saved_actions made (tmp_dir env) (clock_ms env) name (answer input)
                @ (case answer input of Inl _ \<Rightarrow> [] | Inr _ \<Rightarrow> map Ran post)
     else snd (execute_tool env name input w)
            = w @ map Ran (take (Suc (length (takeWhile (hook_passes outcome) pre))) pre)
          \<and> (\<exists>r. fst (execute_tool env name input w) = Inr r \<and> result_error r)"
proof -
  let ?dat = "JObj [(''tool_name'', JStr name), (''tool_input'', input)]"
  obtain refusal w1 where p: "run_pre_hooks env pre ?dat w = (refusal, w1)" by (rule prod.exhaust)
  from run_pre_hooks_trace[OF assms(2), where hs = pre and dat = ?dat and w = w]
  have w1: "w1 = w @ map Ran (take (Suc (length (takeWhile (hook_passes outcome) pre))) pre)"
    and none: "refusal = None \<longleftrightarrow> list_all (hook_passes outcome) pre"
    and err: "case refusal of None \<Rightarrow> True | Some r \<Rightarrow> result_error r"
    by (simp_all add: p)
  show ?thesis
  proof (cases refusal)
    case None
    then have all: "list_all (hook_passes outcome) pre" using none by simp
    then have w1': "w1 = w @ map Ran pre" by (simp add: w1 list_all_iff takeWhile_eq_all_conv[THEN iffD2])
    show ?thesis
    proof (cases "answer input")
      case (Inl e)
      then show ?thesis using all None p assms(1,3) w1'
        by (simp add: execute_tool_def pre_def saved_actions_def)
    next
      case (Inr r)
      then show ?thesis
        using all None p assms(1,3) w1' truncate_result_trace[OF assms(4,5), where r = r and name = name and w = "w1 @ [Executed input]"]
        by (auto simp: execute_tool_def pre_def post_def run_post_hooks_trace[OF assms(2)] split: prod.splits)
    qed
  next
    case (Some r)
    then show ?thesis using none err p assms(1) w1 by (simp add: execute_tool_def pre_def)
  qed
qed

definition traced_env :: "hook_config list \<Rightarrow> action list surroundings" where
  "traced_env hs =
     \<lparr>registry = register_tool ''Read'' \<lparr>tool_permission = Read_only, tool_precheck = (\<lambda>_. None),
          tool_execute = (\<lambda>i w. (Inr (tool_success ''ok''), w @ [Executed i]))\<rparr> registry_new,
      hooks = hs,
      run_hook = (\<lambda>h dat w. (if command h = ''deny'' then Inl ''no'' else
          Inr \<lparr>exit_code = 0, stdout = [], stderr = []\<rparr>, w @ [Ran h])),
      tmp_dir = ''/tmp'', clock_ms = None,
      make_dir = (\<lambda>d w. (True, w)), write_text = (\<lambda>p t w. (True, w @ [Saved p]))\<rparr>"

theorem execute_tool_order_witness:
  "let h = \<lparr>event = PreToolUse, command = ''deny'', tool_filter = Some [''Read''], timeout_ms = 9\<rparr>
   in snd (execute_tool (traced_env [h, h]) ''Read'' JNull []) = [Ran h]"
proof -
  define h where "h = \<lparr>event = PreToolUse, command = ''deny'', tool_filter = Some [''Read''], timeout_ms = 9\<rparr>"
  define outcome where "outcome = (\<lambda>k::hook_config. if command k = ''deny'' then Inl ''no'' else
          Inr \<lparr>exit_code = 0, stdout = [], stderr = []\<rparr>)"
  have pre: "match_hooks PreToolUse (Some ''Read'') [h, h] = [h, h]" by (simp add: match_hooks_def h_def)
  have fails: "\<not> hook_passes outcome h" by (simp add: hook_passes_def outcome_def h_def)
  have "get_tool ''Read'' (registry (traced_env [h, h])) = Some \<lparr>tool_permission = Read_only, tool_precheck = (\<lambda>_. None),
          tool_execute = (\<lambda>i w. (Inr (tool_success ''ok''), w @ [Executed i]))\<rparr>"
    by (simp add: traced_env_def get_tool_def register_tool_def)
  from execute_tool_order[OF this, where outcome = outcome and answer = "\<lambda>_. Inr (tool_success ''ok'')"
      and made = True and wrote = True and input = JNull and w = "[]"]
  have "snd (execute_tool (traced_env [h, h]) ''Read'' JNull []) = [Ran h]"
    using fails by (simp add: traced_env_def outcome_def pre)
  then show ?thesis by (simp add: Let_def h_def)
qed

end
