(* ===== verification/Auto_Mode.thy ===== *)
theory Auto_Mode
  imports Message Tool_Api Rust_Search
begin

section \<open>Auto mode: the classifier of dangerous calls\<close>

text \<open>
  The crate \<open>loopal-auto-mode\<close>: the circuit breaker (\<open>circuit_breaker.rs\<close>), the cache of decisions
  (\<open>cache.rs\<close>), the prompt (\<open>prompt.rs\<close>) and the classification itself (\<open>classifier.rs\<close>,
  \<open>llm_call.rs\<close>). What the model answers, the JSON parser, the JSON printer and the clock are
  arguments; times are in nanoseconds. The lemmas show exactly when the breaker trips, that it
  stays tripped until a human approves, that the cache stays bounded, and that the classifier
  fails closed.
\<close>

subsection \<open>The circuit breaker\<close>

definition MAX_CONSECUTIVE_DENIALS :: u32 where "MAX_CONSECUTIVE_DENIALS = 3"
definition MAX_TOTAL_DENIALS :: u32 where "MAX_TOTAL_DENIALS = 20"

record circuit_breaker =
  consecutive :: "string \<Rightarrow> u32 option"
  total_denials :: u32
  degraded :: bool

definition breaker_new :: circuit_breaker where
  "breaker_new = \<lparr>consecutive = (\<lambda>_. None), total_denials = 0, degraded = False\<rparr>"

definition record_denial :: "string \<Rightarrow> circuit_breaker \<Rightarrow> circuit_breaker" where
  "record_denial tool b =
     (let n = (case consecutive b tool of Some k \<Rightarrow> k | None \<Rightarrow> 0) + 1;
          total = total_denials b + 1
      in \<lparr>consecutive = (consecutive b)(tool \<mapsto> n), total_denials = total,
          degraded = (if MAX_CONSECUTIVE_DENIALS \<le> n \<or> MAX_TOTAL_DENIALS \<le> total then True
                      else degraded b)\<rparr>)"

definition record_approval :: "string \<Rightarrow> circuit_breaker \<Rightarrow> circuit_breaker" where
  "record_approval tool b = b\<lparr>consecutive := (consecutive b)(tool := None)\<rparr>"

definition record_error :: "string \<Rightarrow> circuit_breaker \<Rightarrow> circuit_breaker" where
  "record_error tool b = record_denial tool b"

definition reset_degradation :: "circuit_breaker \<Rightarrow> circuit_breaker" where
  "reset_degradation b = b\<lparr>degraded := False, consecutive := (\<lambda>_. None), total_denials := 0\<rparr>"

datatype breaker_op = Denial string | Approval string | Error_op string | Reset

fun breaker_step :: "breaker_op \<Rightarrow> circuit_breaker \<Rightarrow> circuit_breaker" where
  "breaker_step (Denial t) b = record_denial t b"
| "breaker_step (Approval t) b = record_approval t b"
| "breaker_step (Error_op t) b = record_error t b"
| "breaker_step Reset b = reset_degradation b"

lemma degraded_step: "degraded b \<Longrightarrow> e \<noteq> Reset \<Longrightarrow> degraded (breaker_step e b)"
  by (cases e) (auto simp: record_denial_def record_approval_def record_error_def Let_def)

interpretation breaker: latched_system breaker_step "\<lambda>_. True" breaker_new degraded "\<lambda>e. e = Reset"
  by unfold_locales (auto simp: degraded_step)

text \<open>The specification, on the sequence of calls: what the two limits count.\<close>

fun denied_tool :: "breaker_op \<Rightarrow> string option" where
  "denied_tool (Denial t) = Some t"
| "denied_tool (Error_op t) = Some t"
| "denied_tool _ = None"

definition denials :: "breaker_op list \<Rightarrow> nat" where
  "denials es = length (filter (\<lambda>e. denied_tool e \<noteq> None) es)"

fun streak :: "string \<Rightarrow> breaker_op list \<Rightarrow> nat" where
  "streak t [] = 0"
| "streak t (e # es) =
     (if denied_tool e = Some t then streak t es + 1
      else if e = Approval t then 0 else streak t es)"

text \<open>\<open>streak\<close> reads the latest call first.\<close>

definition tripped :: "breaker_op list \<Rightarrow> bool" where
  "tripped es = (20 \<le> denials es \<or> (\<exists>t. 3 \<le> streak t (rev es)))"

lemma streak_le: "streak t es \<le> denials es"
  by (induction es) (auto simp: denials_def)

lemma denials_le: "denials es \<le> length es"
  by (simp add: denials_def)

lemma breaker_counts:
  assumes "Reset \<notin> set es"
  shows "total_denials (run_ops breaker_step es breaker_new) = word_of_nat (denials es)
    \<and> (\<forall>t. (case consecutive (run_ops breaker_step es breaker_new) t of Some k \<Rightarrow> k | None \<Rightarrow> 0)
         = word_of_nat (streak t (rev es)))"
  using assms
proof (induction es rule: rev_induct)
  case Nil
  then show ?case by (simp add: breaker_new_def denials_def)
next
  case (snoc e es)
  then show ?case
    by (cases e) (auto simp: run_ops_append record_denial_def record_approval_def record_error_def
        Let_def denials_def)
qed

lemma u32_le_nat:
  fixes n :: nat
  assumes "n < 2 ^ 32" "k < 2 ^ 32"
  shows "(word_of_nat k :: u32) \<le> word_of_nat n \<longleftrightarrow> k \<le> n"
  using assms by (simp add: word_le_nat_alt unat_of_nat)

lemma breaker_limits:
  assumes "n < 2 ^ 32"
  shows "MAX_CONSECUTIVE_DENIALS \<le> word_of_nat n \<longleftrightarrow> 3 \<le> n"
    "MAX_TOTAL_DENIALS \<le> word_of_nat n \<longleftrightarrow> 20 \<le> n"
  using u32_le_nat[OF assms, of 3] u32_le_nat[OF assms, of 20]
  by (simp_all add: MAX_CONSECUTIVE_DENIALS_def MAX_TOTAL_DENIALS_def)

text \<open>The call that crosses a limit.\<close>

definition crosses :: "breaker_op list \<Rightarrow> breaker_op \<Rightarrow> bool" where
  "crosses es e = (case denied_tool e of None \<Rightarrow> False
     | Some t \<Rightarrow> 3 \<le> streak t (rev es) + 1 \<or> 20 \<le> denials es + 1)"

lemma crosses_tripped: "crosses es e \<Longrightarrow> tripped (es @ [e])"
  by (cases e) (auto simp: crosses_def tripped_def denials_def)

lemma tripped_crosses:
  assumes "tripped (es @ [e])"
  shows "crosses es e \<or> tripped es"
proof (cases e)
  case (Denial t)
  with assms show ?thesis by (auto simp: crosses_def tripped_def denials_def split: if_splits)
next
  case (Error_op t)
  with assms show ?thesis by (auto simp: crosses_def tripped_def denials_def split: if_splits)
next
  case (Approval t)
  then have "streak u (rev (es @ [e])) \<le> streak u (rev es)" for u by simp
  then have "3 \<le> streak u (rev (es @ [e])) \<Longrightarrow> 3 \<le> streak u (rev es)" for u
    using order_trans by blast
  moreover have "denials (es @ [e]) = denials es" using Approval by (simp add: denials_def)
  ultimately show ?thesis using assms unfolding tripped_def by metis
next
  case Reset
  with assms show ?thesis by (auto simp: tripped_def denials_def)
qed

lemma denial_degraded:
  assumes "Reset \<notin> set es" "length es + 1 < 2 ^ 32" "denied_tool e = Some t"
  shows "degraded (breaker_step e (run_ops breaker_step es breaker_new))
    \<longleftrightarrow> crosses es e \<or> degraded (run_ops breaker_step es breaker_new)"
proof -
  let ?b = "run_ops breaker_step es breaker_new"
  have e: "breaker_step e ?b = record_denial t ?b"
    using assms(3) by (cases e) (auto simp: record_error_def)
  have small: "streak t (rev es) + 1 < 2 ^ 32" "denials es + 1 < 2 ^ 32"
    using assms(2) streak_le[of t "rev es"] denials_le[of es] denials_le[of "rev es"] by auto
  have n: "(case consecutive ?b t of Some k \<Rightarrow> k | None \<Rightarrow> 0) + 1 = (word_of_nat (streak t (rev es) + 1) :: u32)"
    "total_denials ?b + 1 = word_of_nat (denials es + 1)"
    using breaker_counts[OF assms(1)] by simp_all
  show ?thesis
    unfolding e record_denial_def Let_def n circuit_breaker.simps breaker_limits[OF small(1)]
      breaker_limits[OF small(2)]
    by (simp add: crosses_def assms(3))
qed

lemma breaker_degraded:
  "Reset \<notin> set es \<Longrightarrow> length es < 2 ^ 32 \<Longrightarrow>
     degraded (run_ops breaker_step es breaker_new) \<longleftrightarrow> (\<exists>n \<le> length es. tripped (take n es))"
proof (induction es rule: rev_induct)
  case Nil
  then show ?case by (simp add: breaker_new_def tripped_def denials_def)
next
  case (snoc e es)
  let ?b = "run_ops breaker_step es breaker_new"
  have prefixes: "(\<exists>n \<le> length (es @ [e]). tripped (take n (es @ [e])))
      \<longleftrightarrow> tripped (es @ [e]) \<or> (\<exists>n \<le> length es. tripped (take n es))"
    by (auto simp: le_Suc_eq)
  have last: "tripped es \<Longrightarrow> \<exists>n \<le> length es. tripped (take n es)" by auto
  have IH: "degraded ?b \<longleftrightarrow> (\<exists>n \<le> length es. tripped (take n es))" using snoc by simp
  have "degraded (breaker_step e ?b) \<longleftrightarrow> crosses es e \<or> degraded ?b"
  proof (cases "denied_tool e")
    case None
    then show ?thesis using snoc.prems by (cases e) (auto simp: crosses_def record_approval_def)
  next
    case (Some t)
    show ?thesis by (rule denial_degraded[OF _ _ Some]) (use snoc.prems in auto)
  qed
  then show ?case
    unfolding prefixes using IH last crosses_tripped[of es e] tripped_crosses[of es e]
    by (auto simp: run_ops_append)
qed

text \<open>
  C26. The breaker trips exactly when it should: over any sequence of classifier outcomes without a
  human approval it is degraded if and only if, at some point of the sequence, some tool had been
  denied three times with no approval of it in between or there had been twenty denials in all,
  errors counting as denials; once tripped it stays so until a human approves, and then it is as new.
\<close>

theorem breaker_trips_exactly:
  assumes "Reset \<notin> set es" "length es < 2 ^ 32"
  shows "(degraded (run_ops breaker_step es breaker_new) \<longleftrightarrow> (\<exists>n \<le> length es. tripped (take n es)))
    \<and> (degraded b \<longrightarrow> degraded (run_ops breaker_step es b))
    \<and> breaker_step Reset b = breaker_new"
proof -
  have "\<forall>e \<in> set es. e \<noteq> Reset" using assms(1) by auto
  then have "degraded b \<longrightarrow> degraded (run_ops breaker_step es b)"
    using breaker.flag_run[of b es] by blast
  moreover have "breaker_step Reset b = breaker_new"
    by (cases b) (simp add: reset_degradation_def breaker_new_def)
  ultimately show ?thesis using breaker_degraded[OF assms] by blast
qed

theorem breaker_trips_exactly_witness:
  "degraded (run_ops breaker_step [Denial ''Bash'', Approval ''Read'', Error_op ''Bash'', Denial ''Bash''] breaker_new)"
proof -
  define es where "es = [Denial ''Bash'', Approval ''Read'', Error_op ''Bash'', Denial ''Bash'']"
  have ok: "Reset \<notin> set es" "length es < 2 ^ 32" by (simp_all add: es_def)
  have "streak ''Bash'' (rev es) = 3" by (simp add: es_def)
  then have "tripped es" unfolding tripped_def by (intro disjI2 exI[of _ "''Bash''"]) simp
  then have "tripped (take (length es) es)" by simp
  then have "\<exists>n \<le> length es. tripped (take n es)" by (intro exI[of _ "length es"]) simp
  then have "degraded (run_ops breaker_step es breaker_new)"
    using breaker_trips_exactly[OF ok, of breaker_new] by blast
  then show ?thesis unfolding es_def .
qed

subsection \<open>The cache\<close>

definition CACHE_TTL_SECS :: nat where "CACHE_TTL_SECS = 60"
definition CACHE_MAX_ENTRIES :: nat where "CACHE_MAX_ENTRIES = 128"

record classifier_result =
  verdict :: permission_decision
  reason :: string
  duration_ms :: nat

record cache_entry =
  entry_decision :: permission_decision
  entry_reason :: string
  entry_created :: nat

type_synonym cache_key = "string \<times> string"

text \<open>The hash map as an association list; its order is that in which the map is iterated.\<close>

type_synonym classifier_cache = "(cache_key \<times> cache_entry) list"

definition elapsed_secs :: "nat \<Rightarrow> cache_entry \<Rightarrow> nat" where
  "elapsed_secs now e = (now - entry_created e) div 10 ^ 9"

definition cache_get ::
  "nat \<Rightarrow> cache_key \<Rightarrow> classifier_cache \<Rightarrow> classifier_result option \<times> classifier_cache" where
  "cache_get now key m =
     (case map_of m key of
        None \<Rightarrow> (None, m)
      | Some e \<Rightarrow>
          if CACHE_TTL_SECS < elapsed_secs now e then (None, AList.delete key m)
          else (Some \<lparr>verdict = entry_decision e, reason = entry_reason e, duration_ms = 0\<rparr>, m))"

definition evict_oldest :: "classifier_cache \<Rightarrow> classifier_cache" where
  "evict_oldest m =
     (case min_by (\<lambda>(k, e). entry_created e) m of
        None \<Rightarrow> m
      | Some (oldest_key, _) \<Rightarrow> AList.delete oldest_key m)"

definition error_reason :: "string \<Rightarrow> bool" where
  "error_reason r = (prefix ''Classifier error:'' r \<or> contains r ''parse failure'')"

definition cache_put ::
  "nat \<Rightarrow> cache_key \<Rightarrow> classifier_result \<Rightarrow> classifier_cache \<Rightarrow> classifier_cache" where
  "cache_put now key result m =
     (if error_reason (reason result) then m
      else
        let m = (if CACHE_MAX_ENTRIES \<le> length m then evict_oldest m else m)
        in AList.update key
             \<lparr>entry_decision = verdict result, entry_reason = reason result, entry_created = now\<rparr> m)"

datatype cache_op = Get nat cache_key | Put nat cache_key classifier_result

fun cache_step :: "cache_op \<Rightarrow> classifier_cache \<Rightarrow> classifier_cache" where
  "cache_step (Get now k) m = snd (cache_get now k m)"
| "cache_step (Put now k r) m = cache_put now k r m"

definition cache_wf :: "classifier_cache \<Rightarrow> bool" where
  "cache_wf m = (distinct (map fst m) \<and> length m \<le> CACHE_MAX_ENTRIES
     \<and> (\<forall>(k, e) \<in> set m. \<not> error_reason (entry_reason e)))"

lemma set_alist_delete: "set (AList.delete k m) \<subseteq> set m"
  by (auto simp: AList.delete_eq)

lemma cache_wf_delete: "cache_wf m \<Longrightarrow> cache_wf (AList.delete k m)"
  using set_alist_delete[of k m] length_delete_le[of k m]
  by (auto simp: cache_wf_def distinct_delete)

lemma evict_shrinks:
  assumes "cache_wf m" "CACHE_MAX_ENTRIES \<le> length m"
  shows "cache_wf (evict_oldest m) \<and> length (evict_oldest m) < CACHE_MAX_ENTRIES"
proof -
  have "m \<noteq> []" using assms(2) by (auto simp: CACHE_MAX_ENTRIES_def)
  then obtain k e where k: "min_by (\<lambda>(k, e). entry_created e) m = Some (k, e)"
    by (metis min_by_None not_None_eq surj_pair)
  then have "(k, e) \<in> set m" using min_by_Some[OF k] by blast
  then have "Suc (length (AList.delete k m)) = length m"
    using assms(1) by (intro alist_delete_shrinks) (force simp: cache_wf_def)+
  then show ?thesis
    using assms(1) k cache_wf_delete[OF assms(1), of k] by (simp add: evict_oldest_def cache_wf_def)
qed

lemma set_alist_update: "(k', e') \<in> set (AList.update k e m) \<Longrightarrow> (k', e') \<in> set m \<or> e' = e"
  by (induction m) (auto split: if_splits)

lemma cache_wf_update:
  assumes "cache_wf m" "length m < CACHE_MAX_ENTRIES" "\<not> error_reason (entry_reason e)"
  shows "cache_wf (AList.update k e m)"
proof -
  have "\<not> error_reason (entry_reason e')" if "(k', e') \<in> set (AList.update k e m)" for k' e'
    using set_alist_update[OF that] assms(1,3) by (auto simp: cache_wf_def)
  then show ?thesis using assms(1,2)
    by (auto simp: cache_wf_def distinct_update length_alist_update)
qed

lemma cache_wf_step: "cache_wf m \<Longrightarrow> cache_wf (cache_step op m)"
proof (cases op)
  case (Get now k)
  assume "cache_wf m"
  with Get show ?thesis
    by (auto simp: cache_get_def cache_wf_delete split: option.split)
next
  case (Put now k r)
  assume wf: "cache_wf m"
  show ?thesis
  proof (cases "CACHE_MAX_ENTRIES \<le> length m")
    case True
    then show ?thesis
      using Put wf evict_shrinks[OF wf] by (auto simp: cache_put_def intro!: cache_wf_update)
  next
    case False
    then show ?thesis
      using Put wf by (auto simp: cache_put_def intro!: cache_wf_update)
  qed
qed

interpretation cache: op_system cache_step cache_wf "[]"
  by unfold_locales (simp add: cache_wf_def, rule cache_wf_step)

text \<open>
  Over any sequence of lookups and stores the cache holds at most 128 entries, one for each
  key, none of them an error that defaulted to a denial; a lookup never answers an entry of 61
  seconds or more, and a result just stored is found as long as it is younger.
\<close>

theorem cache_bounded_and_fresh:
  "cache_wf (run_ops cache_step ops [])
   \<and> (fst (cache_get now key m) \<noteq> None \<longrightarrow>
        (\<exists>e. map_of m key = Some e \<and> now - entry_created e < 61 * 10 ^ 9))
   \<and> (\<not> error_reason (reason r) \<and> later - now < 61 * 10 ^ 9 \<longrightarrow>
        fst (cache_get later key (cache_put now key r m)) = Some (r\<lparr>duration_ms := 0\<rparr>))"
proof -
  have "d div 10 ^ 9 < 61 \<longleftrightarrow> d < 61 * 10 ^ 9" for d :: nat
    by (rule div_less_iff_less_mult) simp
  then have young: "\<not> CACHE_TTL_SECS < d div 10 ^ 9 \<longleftrightarrow> d < 61 * 10 ^ 9" for d :: nat
    unfolding CACHE_TTL_SECS_def not_less by (metis eval_nat_numeral(2,3) less_Suc_eq_le semiring_norm(26,27,28))
  have "fst (cache_get now key m) \<noteq> None \<Longrightarrow>
        \<exists>e. map_of m key = Some e \<and> now - entry_created e < 61 * 10 ^ 9"
    using young by (auto simp: cache_get_def elapsed_secs_def split: option.splits if_splits)
  moreover have "fst (cache_get later key (cache_put now key r m)) = Some (r\<lparr>duration_ms := 0\<rparr>)"
    if "\<not> error_reason (reason r)" "later - now < 61 * 10 ^ 9"
    using that young[of "later - now"]
    by (simp add: cache_get_def cache_put_def list_map.lookup_insert elapsed_secs_def Let_def)
  ultimately show ?thesis using cache.inv_reached by blast
qed

theorem cache_bounded_and_fresh_witness:
  "fst (cache_get 59000000000 (''Bash'', ''{}'') (cache_put 0 (''Bash'', ''{}'')
     \<lparr>verdict = Decide_deny, reason = ''bad'', duration_ms = 3\<rparr> []))
   = Some \<lparr>verdict = Decide_deny, reason = ''bad'', duration_ms = 0\<rparr>"
proof -
  have "\<not> error_reason ''bad''" by code_simp
  then show ?thesis
    using cache_bounded_and_fresh[of "[]" 0 "(''Bash'', ''{}'')" "[]"
        "\<lparr>verdict = Decide_deny, reason = ''bad'', duration_ms = 3\<rparr>" 59000000000] by simp
qed

subsection \<open>The prompt\<close>

definition prompt_truncate :: "nat \<Rightarrow> string \<Rightarrow> string" where
  "prompt_truncate max_chars s = (if length s \<le> max_chars then s else cut_bytes max_chars s)"

definition user_prompt :: "string \<Rightarrow> string \<Rightarrow> string \<Rightarrow> string \<Rightarrow> string \<Rightarrow> string" where
  "user_prompt tool_name input instructions recent_context cwd =
     ''## Tool Call'' @ [NL] @ ''Name: '' @ tool_name @ [NL] @ ''Input: '' @ input @ [NL] @ [NL]
     @ ''## Project Working Directory'' @ [NL] @ cwd @ [NL]
     @ (if instructions = [] then []
        else [NL] @ ''## Project Instructions'' @ [NL] @ prompt_truncate 2000 instructions @ [NL])
     @ (if recent_context = [] then []
        else [NL] @ ''## Recent Conversation'' @ [NL] @ recent_context @ [NL])"

definition role_label :: "message_role \<Rightarrow> string" where
  "role_label r = (case r of User \<Rightarrow> ''User'' | Assistant \<Rightarrow> ''Assistant'' | System \<Rightarrow> ''System'')"

fun context_line :: "string \<Rightarrow> content_block \<Rightarrow> string" where
  "context_line role_name (Text t) = role_name @ '': '' @ prompt_truncate 200 t @ [NL]"
| "context_line role_name (ToolUse i n inp) = role_name @ '': [tool_call: '' @ n @ '']'' @ [NL]"
| "context_line role_name (ToolResult i c e k md) =
     role_name @ '': [tool_'' @ (if e then ''error'' else ''result'') @ '': '' @ prompt_truncate 100 c @ '']'' @ [NL]"
| "context_line role_name _ = []"

definition build_recent_context :: "message list \<Rightarrow> string" where
  "build_recent_context ms =
     concat (map (\<lambda>m. concat (map (context_line (role_label (role m))) (content m)))
       (drop (length ms - 6) ms))"

subsection \<open>Calling the model\<close>

datatype stream_chunk = Text_chunk string | Done_chunk | Other_chunk | Error_chunk string

datatype provider_answer = Timed_out | Not_started string | Streamed "stream_chunk list"

fun read_stream :: "string \<Rightarrow> stream_chunk list \<Rightarrow> string + string" where
  "read_stream response [] = Inr response"
| "read_stream response (Text_chunk t # rest) = read_stream (response @ t) rest"
| "read_stream response (Done_chunk # rest) = Inr response"
| "read_stream response (Other_chunk # rest) = read_stream response rest"
| "read_stream response (Error_chunk e # rest) = Inl e"

definition call_classifier :: "provider_answer \<Rightarrow> string + string" where
  "call_classifier a =
     (case a of
        Timed_out \<Rightarrow> Inl ''classifier LLM call timed out (30s)''
      | Not_started e \<Rightarrow> Inl e
      | Streamed chunks \<Rightarrow> read_stream [] chunks)"

definition FENCE :: string where "FENCE = replicate 3 (CHR 0x60)"

definition parse_response :: "(string \<Rightarrow> json option) \<Rightarrow> string \<Rightarrow> (bool \<times> string) option" where
  "parse_response from_json raw =
     (let body = (case strip_prefix (FENCE @ ''json'') (trim raw) of
                    Some r \<Rightarrow> r
                  | None \<Rightarrow> (case strip_prefix FENCE (trim raw) of Some r \<Rightarrow> r | None \<Rightarrow> trim raw));
          json_str = trim (case strip_suffix FENCE body of Some r \<Rightarrow> r | None \<Rightarrow> body)
      in case from_json json_str of
           None \<Rightarrow> None
         | Some v \<Rightarrow>
             (case get_bool v ''should_block'' of
                None \<Rightarrow> None
              | Some should_block \<Rightarrow>
                  Some (should_block, case get_str v ''reason'' of Some r \<Rightarrow> r | None \<Rightarrow> ''(no reason)'')))"

subsection \<open>Classification\<close>

record auto_classifier =
  breaker_state :: circuit_breaker
  cache_state :: classifier_cache
  instructions_text :: string
  classifier_cwd :: string

definition on_human_approval :: "string \<Rightarrow> auto_classifier \<Rightarrow> auto_classifier" where
  "on_human_approval tool c =
     c\<lparr>breaker_state := reset_degradation (record_approval tool (breaker_state c))\<rparr>"

definition error_text :: "string \<Rightarrow> string" where
  "error_text e = ''Classifier error: '' @ e"

definition PARSE_FAILURE :: string where
  "PARSE_FAILURE = ''Classifier response parse failure '' @ [CHR 0xE2, CHR 0x80, CHR 0x94]
     @ '' blocking for safety''"

definition classify_uncached ::
  "(string \<Rightarrow> json option) \<Rightarrow> (string \<Rightarrow> provider_answer) \<Rightarrow> string \<Rightarrow> string \<Rightarrow> string
     \<Rightarrow> auto_classifier \<Rightarrow> classifier_result \<times> auto_classifier" where
  "classify_uncached from_json llm tool input recent c =
     (let b = breaker_state c
      in case call_classifier (llm (user_prompt tool input (instructions_text c) recent (classifier_cwd c))) of
           Inl e \<Rightarrow>
             (\<lparr>verdict = Decide_deny, reason = error_text e, duration_ms = 0\<rparr>,
              c\<lparr>breaker_state := record_error tool b\<rparr>)
         | Inr response \<Rightarrow>
             (case parse_response from_json response of
                None \<Rightarrow>
                  (\<lparr>verdict = Decide_deny,
                    reason = PARSE_FAILURE, duration_ms = 0\<rparr>,
                   c\<lparr>breaker_state := record_error tool b\<rparr>)
              | Some (should_block, r) \<Rightarrow>
                  if should_block then
                    (\<lparr>verdict = Decide_deny, reason = r, duration_ms = 0\<rparr>,
                     c\<lparr>breaker_state := record_denial tool b\<rparr>)
                  else
                    (\<lparr>verdict = Decide_allow, reason = r, duration_ms = 0\<rparr>,
                     c\<lparr>breaker_state := record_approval tool b\<rparr>)))"

text \<open>\<open>started\<close> and \<open>ended\<close> are the clock before and after the call of the model.\<close>

definition classify ::
  "(string \<Rightarrow> json option) \<Rightarrow> (string \<Rightarrow> provider_answer) \<Rightarrow> nat \<Rightarrow> nat \<Rightarrow> string \<Rightarrow> string \<Rightarrow> string
     \<Rightarrow> auto_classifier \<Rightarrow> classifier_result \<times> auto_classifier" where
  "classify from_json llm started ended tool input recent c =
     (case cache_get started (tool, input) (cache_state c) of
        (Some cached, m) \<Rightarrow> (cached, c\<lparr>cache_state := m\<rparr>)
      | (None, m) \<Rightarrow>
          (case classify_uncached from_json llm tool input recent (c\<lparr>cache_state := m\<rparr>) of
             (result, c') \<Rightarrow>
               let result = result\<lparr>duration_ms := (ended - started) div 10 ^ 6\<rparr>
               in (result, c'\<lparr>cache_state := cache_put ended (tool, input) result (cache_state c')\<rparr>)))"

lemma error_reason_text: "error_reason (error_text e)"
proof -
  have "error_text e = ''Classifier error:'' @ ('' '' @ e)" by (simp add: error_text_def)
  then show ?thesis unfolding error_reason_def by (metis prefixI)
qed

lemma error_reason_parse: "error_reason PARSE_FAILURE"
  by code_simp

text \<open>What the classifier understands of the model's answer: \<open>should_block\<close>, or nothing.\<close>

definition understood ::
  "(string \<Rightarrow> json option) \<Rightarrow> (string \<Rightarrow> provider_answer) \<Rightarrow> string \<Rightarrow> string \<Rightarrow> string \<Rightarrow> auto_classifier
     \<Rightarrow> bool option" where
  "understood from_json llm tool input recent c =
     (case call_classifier (llm (user_prompt tool input (instructions_text c) recent (classifier_cwd c))) of
        Inl _ \<Rightarrow> None
      | Inr response \<Rightarrow> map_option fst (parse_response from_json response))"

text \<open>
  C8. The classifier fails closed: a call that no fresh cache entry answers is allowed exactly when
  the model's answer parses and says \<open>should_block: false\<close>; in every other case (a refusal, an
  error, a timeout, an answer that does not parse) it is denied and the breaker counts a denial,
  and an error or unparsable answer is not remembered.
\<close>

theorem classify_fails_closed:
  assumes "fst (cache_get started (tool, input) (cache_state c)) = None"
    and "classify from_json llm started ended tool input recent c = (result, c')"
  shows "verdict result = (if understood from_json llm tool input recent c = Some False then Decide_allow else Decide_deny)
    \<and> breaker_state c' = breaker_step
        (if understood from_json llm tool input recent c = Some False then Approval tool else Denial tool) (breaker_state c)
    \<and> (understood from_json llm tool input recent c = None \<longrightarrow>
         cache_state c' = snd (cache_get started (tool, input) (cache_state c)))"
proof -
  obtain m where m: "cache_get started (tool, input) (cache_state c) = (None, m)"
    using assms(1) by (metis prod.collapse)
  let ?c = "c\<lparr>cache_state := m\<rparr>"
  obtain r u where u: "classify_uncached from_json llm tool input recent ?c = (r, u)" by (rule prod.exhaust)
  have res: "verdict result = verdict r" "reason result = reason r" "breaker_state c' = breaker_state u"
    "cache_state c' = cache_put ended (tool, input) result (cache_state u)"
    using assms(2) u by (auto simp: classify_def m Let_def)
  have "verdict r = (if understood from_json llm tool input recent c = Some False then Decide_allow else Decide_deny)
    \<and> breaker_state u = breaker_step
        (if understood from_json llm tool input recent c = Some False then Approval tool else Denial tool) (breaker_state c)
    \<and> cache_state u = m
    \<and> (understood from_json llm tool input recent c = None \<longrightarrow> error_reason (reason r))"
  proof (cases "call_classifier (llm (user_prompt tool input (instructions_text c) recent (classifier_cwd c)))")
    case (Inl e)
    then have "r = \<lparr>verdict = Decide_deny, reason = error_text e, duration_ms = 0\<rparr>"
      "u = ?c\<lparr>breaker_state := record_error tool (breaker_state c)\<rparr>"
      "understood from_json llm tool input recent c = None"
      using u by (simp_all add: classify_uncached_def understood_def)
    then show ?thesis by (simp add: record_error_def error_reason_text)
  next
    case (Inr response)
    show ?thesis
    proof (cases "parse_response from_json response")
      case None
      then have "r = \<lparr>verdict = Decide_deny, reason = PARSE_FAILURE, duration_ms = 0\<rparr>"
        "u = ?c\<lparr>breaker_state := record_error tool (breaker_state c)\<rparr>"
        "understood from_json llm tool input recent c = None"
        using u Inr by (simp_all add: classify_uncached_def understood_def)
      then show ?thesis by (simp add: record_error_def error_reason_parse)
    next
      case (Some p)
      obtain blocked why where p: "p = (blocked, why)" by (cases p)
      then have "understood from_json llm tool input recent c = Some blocked"
        using Inr Some by (simp add: understood_def)
      moreover have "(r, u) = (if blocked
          then (\<lparr>verdict = Decide_deny, reason = why, duration_ms = 0\<rparr>,
                ?c\<lparr>breaker_state := record_denial tool (breaker_state c)\<rparr>)
          else (\<lparr>verdict = Decide_allow, reason = why, duration_ms = 0\<rparr>,
                ?c\<lparr>breaker_state := record_approval tool (breaker_state c)\<rparr>))"
        using u Inr Some p by (cases blocked) (simp_all add: classify_uncached_def Let_def)
      ultimately show ?thesis by (cases blocked) simp_all
    qed
  qed
  then show ?thesis
    unfolding res m snd_conv by (auto simp: cache_put_def res)
qed

definition tiny_classifier :: auto_classifier where
  "tiny_classifier = \<lparr>breaker_state = breaker_new, cache_state = [], instructions_text = [], classifier_cwd = ''/w''\<rparr>"

theorem classify_fails_closed_witness:
  "verdict (fst (classify (\<lambda>_. None) (\<lambda>_. Timed_out) 0 1 ''Bash'' ''{}'' [] tiny_classifier)) = Decide_deny"
proof -
  obtain result c' where
    r: "classify (\<lambda>_. None) (\<lambda>_. Timed_out) 0 1 ''Bash'' ''{}'' [] tiny_classifier = (result, c')"
    by (rule prod.exhaust)
  have "understood (\<lambda>_. None) (\<lambda>_. Timed_out) ''Bash'' ''{}'' [] tiny_classifier = None"
    by (simp add: understood_def call_classifier_def)
  moreover have "fst (cache_get 0 (''Bash'', ''{}'') (cache_state tiny_classifier)) = None"
    by (simp add: cache_get_def tiny_classifier_def)
  ultimately show ?thesis using classify_fails_closed[OF _ r] r by simp
qed

end
