(* ===== verification/Observers.thy ===== *)
theory Observers
  imports Message
begin

section \<open>The observers of a turn\<close>

text \<open>
  \<open>loopal-runtime/src/agent_loop\<close>: \<open>turn_observer.rs\<close>, \<open>turn_context.rs\<close>, and the two observers
  the agent loop installs, \<open>loop_detector.rs\<close> and \<open>diff_tracker.rs\<close>. The printer of JSON and the
  hash function are arguments. The lemmas give the exact condition under which the detector warns
  and aborts, on the sequence of all calls since the last input of the user, and what the tracker
  records.
\<close>

text \<open>A tool call as the model asks for it: identifier, name, input.\<close>

type_synonym tool_call = "string \<times> string \<times> json"

datatype observer_action = Continue | InjectWarning string | AbortTurn string

text \<open>The turn context without its clock; cancellation is an argument where it is polled.\<close>

record turn_context =
  turn_id :: u32
  modified_files :: "string set"
  pending_warnings :: "string list"

definition turn_context_new :: "u32 \<Rightarrow> turn_context" where
  "turn_context_new n = \<lparr>turn_id = n, modified_files = {}, pending_warnings = []\<rparr>"

subsection \<open>The loop detector\<close>

definition WARN_THRESHOLD :: u32 where "WARN_THRESHOLD = 3"
definition ABORT_THRESHOLD :: u32 where "ABORT_THRESHOLD = 5"
definition SIGNATURE_INPUT_LIMIT :: nat where "SIGNATURE_INPUT_LIMIT = 200"

type_synonym loop_detector = "string \<Rightarrow> u32 option"

definition loop_detector_new :: loop_detector where
  "loop_detector_new = (\<lambda>_. None)"

text \<open>\<open>hash_hex\<close>: the hash of a text, printed with \<open>{:x}\<close>.\<close>

definition tool_signature :: "(json \<Rightarrow> string) \<Rightarrow> (string \<Rightarrow> string) \<Rightarrow> string \<Rightarrow> json \<Rightarrow> string" where
  "tool_signature render hash_hex name input =
     (let json = render input;
          truncated = (if SIGNATURE_INPUT_LIMIT < length json then cut_bytes SIGNATURE_INPUT_LIMIT json
                       else json)
      in name @ ''|'' @ hash_hex truncated)"

definition abort_notice :: "string \<Rightarrow> u32 \<Rightarrow> string" where
  "abort_notice name n =
     ''Loop detected: tool '' @ [CHR 0x27] @ name @ [CHR 0x27] @ '' called '' @ nat_str (unat n)
     @ '' cumulative times with similar arguments. Aborting to prevent waste.''"

definition warn_notice :: "string \<Rightarrow> u32 \<Rightarrow> string" where
  "warn_notice name n =
     ''[WARNING: Tool '' @ [CHR 0x27] @ name @ [CHR 0x27] @ '' has been called '' @ nat_str (unat n)
     @ '' times with similar arguments. You may be stuck in a loop. Try a different approach or ask the user for help.]''"

fun detect_calls ::
  "(string \<Rightarrow> json \<Rightarrow> string) \<Rightarrow> observer_action \<Rightarrow> tool_call list \<Rightarrow> loop_detector
     \<Rightarrow> observer_action \<times> loop_detector" where
  "detect_calls sig worst [] d = (worst, d)"
| "detect_calls sig worst ((_, name, input) # calls) d =
     (let key = sig name input;
          n = (case d key of Some k \<Rightarrow> k | None \<Rightarrow> 0) + 1;
          d = d(key \<mapsto> n)
      in if ABORT_THRESHOLD \<le> n then (AbortTurn (abort_notice name n), d)
         else detect_calls sig
                (if WARN_THRESHOLD \<le> n then InjectWarning (warn_notice name n) else worst) calls d)"

definition detector_before_tools ::
  "(json \<Rightarrow> string) \<Rightarrow> (string \<Rightarrow> string) \<Rightarrow> tool_call list \<Rightarrow> loop_detector
     \<Rightarrow> observer_action \<times> loop_detector" where
  "detector_before_tools render hash_hex calls d =
     detect_calls (tool_signature render hash_hex) Continue calls d"

definition detector_user_input :: "loop_detector \<Rightarrow> loop_detector" where
  "detector_user_input d = (\<lambda>_. None)"

text \<open>The specification: how often a call's signature occurs in a list of calls.\<close>

definition repeats :: "(string \<Rightarrow> json \<Rightarrow> string) \<Rightarrow> tool_call list \<Rightarrow> string \<Rightarrow> nat" where
  "repeats sig calls key = length (filter (\<lambda>(_, n, i). sig n i = key) calls)"

definition tally :: "(string \<Rightarrow> json \<Rightarrow> string) \<Rightarrow> tool_call list \<Rightarrow> loop_detector" where
  "tally sig calls = (\<lambda>key. if repeats sig calls key = 0 then None
                            else Some (word_of_nat (repeats sig calls key)))"

lemma repeats_simps [simp]:
  "repeats sig [] key = 0"
  "repeats sig ((i, n, inp) # cs) key = (if sig n inp = key then 1 else 0) + repeats sig cs key"
  "repeats sig (xs @ ys) key = repeats sig xs key + repeats sig ys key"
  by (simp_all add: repeats_def)

lemma tally_Nil [simp]: "tally sig [] = (\<lambda>_. None)"
  by (simp add: tally_def)

lemma tally_next: "(case tally sig cs key of Some k \<Rightarrow> k | None \<Rightarrow> 0) + 1 = word_of_nat (repeats sig cs key + 1)"
  by (simp add: tally_def)

lemma tally_update:
  "(tally sig cs)(sig n inp \<mapsto> word_of_nat (repeats sig cs (sig n inp) + 1)) = tally sig (cs @ [(i, n, inp)])"
  by (rule ext) (auto simp: tally_def)

lemma thresholds:
  assumes "k < 2 ^ 32"
  shows "ABORT_THRESHOLD \<le> word_of_nat k \<longleftrightarrow> 5 \<le> k" "WARN_THRESHOLD \<le> word_of_nat k \<longleftrightarrow> 3 \<le> k"
  using assms
  by (simp_all add: ABORT_THRESHOLD_def WARN_THRESHOLD_def word_le_nat_alt unat_of_nat)

fun is_abort :: "observer_action \<Rightarrow> bool" where
  "is_abort (AbortTurn _) = True" | "is_abort _ = False"

fun is_warning :: "observer_action \<Rightarrow> bool" where
  "is_warning (InjectWarning _) = True" | "is_warning _ = False"

lemma detect_calls_exact:
  assumes "\<forall>key. repeats sig prev key < 5" "\<not> is_abort worst"
    "detect_calls sig worst calls (tally sig prev) = (action, d)"
  shows "(is_abort action \<longleftrightarrow> (\<exists>key. 5 \<le> repeats sig (prev @ calls) key))
    \<and> (\<not> is_abort action \<longrightarrow> d = tally sig (prev @ calls)
         \<and> (is_warning action \<longleftrightarrow> is_warning worst
              \<or> (\<exists>(i, n, inp) \<in> set calls. 3 \<le> repeats sig (prev @ calls) (sig n inp))))"
  using assms
proof (induction calls arbitrary: prev worst)
  case Nil
  then show ?case by (auto simp: not_le)
next
  case (Cons c calls)
  obtain i n inp where c: "c = (i, n, inp)" by (cases c)
  let ?key = "sig n inp" and ?prev = "prev @ [c]"
  let ?k = "repeats sig prev ?key + 1"
  have k: "?k < 2 ^ 32" "?k \<le> 5" using Cons.prems(1)[rule_format, of ?key] by simp_all
  have step: "detect_calls sig worst (c # calls) (tally sig prev) =
      (if 5 \<le> ?k then (AbortTurn (abort_notice n (word_of_nat ?k)), tally sig ?prev)
       else detect_calls sig
              (if 3 \<le> ?k then InjectWarning (warn_notice n (word_of_nat ?k)) else worst)
              calls (tally sig ?prev))"
    unfolding c detect_calls.simps Let_def tally_next tally_update[where i = i] thresholds[OF k(1)] ..
  show ?case
  proof (cases "5 \<le> ?k")
    case True
    have "5 \<le> repeats sig (prev @ c # calls) ?key" using True by (simp add: c)
    with True Cons.prems(3) show ?thesis unfolding step by auto
  next
    case False
    have below: "\<forall>key. repeats sig ?prev key < 5" using Cons.prems(1) False by (auto simp: c)
    let ?worst = "if 3 \<le> ?k then InjectWarning (warn_notice n (word_of_nat ?k)) else worst"
    have calm: "\<not> is_abort ?worst" using Cons.prems(2) by simp
    have "detect_calls sig ?worst calls (tally sig ?prev) = (action, d)"
      using Cons.prems(3) False unfolding step by simp
    from Cons.IH[OF below calm this]
    have IH: "(is_abort action \<longleftrightarrow> (\<exists>key. 5 \<le> repeats sig (prev @ c # calls) key))
      \<and> (\<not> is_abort action \<longrightarrow> d = tally sig (prev @ c # calls)
           \<and> (is_warning action \<longleftrightarrow> is_warning ?worst
                \<or> (\<exists>(i, n, inp) \<in> set calls. 3 \<le> repeats sig (prev @ c # calls) (sig n inp))))"
      by simp
    have "3 \<le> ?k \<Longrightarrow> 3 \<le> repeats sig (prev @ c # calls) ?key" by (simp add: c)
    moreover have "3 \<le> repeats sig (prev @ c # calls) ?key \<Longrightarrow> \<not> 3 \<le> ?k \<Longrightarrow>
        \<exists>(i, n, inp) \<in> set calls. 3 \<le> repeats sig (prev @ c # calls) (sig n inp)"
    proof -
      assume "3 \<le> repeats sig (prev @ c # calls) ?key" "\<not> 3 \<le> ?k"
      then have "0 < repeats sig calls ?key" by (simp add: c)
      then obtain i' n' inp' where "(i', n', inp') \<in> set calls" "sig n' inp' = ?key"
        unfolding repeats_def by (auto simp: filter_empty_conv)
      with \<open>3 \<le> repeats sig (prev @ c # calls) ?key\<close> show ?thesis
        by (intro bexI[of _ "(i', n', inp')"]) simp_all
    qed
    ultimately show ?thesis using IH by (auto simp: c split: if_splits)
  qed
qed

text \<open>
  C20. The loop detector is exact. Let \<open>prev\<close> be all calls since the last input of the user, across
  turns, none of whose signatures occurs five times. On the next batch the turn is aborted if and only if
  some signature then occurs at least five times in all; otherwise every call is counted, and a
  warning is injected if and only if some call of the batch has by then a signature that occurs at
  least three times. Input of the user forgets all counts.
\<close>

theorem loop_detector_exact:
  assumes "\<forall>key. repeats (tool_signature render hash_hex) prev key < 5"
  shows "case detector_before_tools render hash_hex calls (tally (tool_signature render hash_hex) prev) of
     (action, d) \<Rightarrow>
       (is_abort action \<longleftrightarrow> (\<exists>key. 5 \<le> repeats (tool_signature render hash_hex) (prev @ calls) key))
     \<and> (\<not> is_abort action \<longrightarrow> d = tally (tool_signature render hash_hex) (prev @ calls)
          \<and> (is_warning action \<longleftrightarrow> (\<exists>(i, n, inp) \<in> set calls.
               3 \<le> repeats (tool_signature render hash_hex) (prev @ calls) (tool_signature render hash_hex n inp))))
     \<and> detector_user_input d = tally (tool_signature render hash_hex) []"
proof (cases "detector_before_tools render hash_hex calls (tally (tool_signature render hash_hex) prev)")
  case (Pair action d)
  then show ?thesis
    using detect_calls_exact[OF assms, of Continue calls action d]
    by (simp add: detector_before_tools_def detector_user_input_def)
qed

theorem loop_detector_exact_witness:
  "is_abort (fst (detector_before_tools (\<lambda>_. ''{}'') id (replicate 2 (''b'', ''Bash'', JNull))
      (tally (tool_signature (\<lambda>_. ''{}'') id) (replicate 3 (''a'', ''Bash'', JNull)))))"
proof -
  let ?sig = "tool_signature (\<lambda>_. ''{}'') id"
  let ?prev = "replicate 3 (''a'', ''Bash'', JNull)" and ?calls = "replicate 2 (''b'', ''Bash'', JNull)"
  have "\<forall>key. repeats ?sig ?prev key < 5" by (simp add: eval_nat_numeral)
  note exact = loop_detector_exact[OF this, of ?calls]
  have "5 \<le> repeats ?sig (?prev @ ?calls) (?sig ''Bash'' JNull)" by (simp add: eval_nat_numeral)
  then show ?thesis using exact by (auto split: prod.splits)
qed

text \<open>Calls whose inputs agree on the first 200 bytes of their JSON count as the same call.\<close>

lemma signature_reads_prefix:
  assumes "200 < length (render a)" "200 < length (render b)" "cut_bytes 200 (render a) = cut_bytes 200 (render b)"
  shows "tool_signature render hash_hex name a = tool_signature render hash_hex name b"
  using assms by (simp add: tool_signature_def SIGNATURE_INPUT_LIMIT_def)

subsection \<open>The diff tracker\<close>

definition WRITE_TOOLS :: "string list" where
  "WRITE_TOOLS = [''Write'', ''Edit'', ''MultiEdit'', ''ApplyPatch'', ''NotebookEdit'']"

fun succeeded_id :: "content_block \<Rightarrow> string option" where
  "succeeded_id (ToolResult i c e k md) = (if e then None else Some i)"
| "succeeded_id _ = None"

text \<open>The paths a call names: its first path key that is present, then those of its edits.\<close>

definition named_path :: "json \<Rightarrow> string option" where
  "named_path input =
     Option.bind (or_else (or_else (jget input ''file_path'') (jget input ''path'')) (jget input ''notebook_path''))
       as_str"

definition edit_paths :: "json \<Rightarrow> string list" where
  "edit_paths input =
     (case get_array input ''edits'' of
        None \<Rightarrow> []
      | Some edits \<Rightarrow> List.map_filter (\<lambda>e. get_str e ''file_path'') edits)"

fun track_calls :: "string set \<Rightarrow> tool_call list \<Rightarrow> turn_context \<Rightarrow> turn_context" where
  "track_calls ok [] ctx = ctx"
| "track_calls ok ((i, name, input) # calls) ctx =
     (if name \<notin> set WRITE_TOOLS then track_calls ok calls ctx
      else if i \<notin> ok then track_calls ok calls ctx
      else
        let ctx = (case named_path input of
                     Some p \<Rightarrow> ctx\<lparr>modified_files := insert p (modified_files ctx)\<rparr>
                   | None \<Rightarrow> ctx)
        in track_calls ok calls
             (ctx\<lparr>modified_files := modified_files ctx \<union> set (edit_paths input)\<rparr>))"

definition tracker_after_tools ::
  "tool_call list \<Rightarrow> content_block list \<Rightarrow> turn_context \<Rightarrow> turn_context" where
  "tracker_after_tools calls results ctx =
     track_calls (set (List.map_filter succeeded_id results)) calls ctx"

text \<open>The files of the summary that is sent when the turn ends, as a set; none is sent for none.\<close>

definition tracker_turn_end :: "turn_context \<Rightarrow> string set option" where
  "tracker_turn_end ctx = (if modified_files ctx = {} then None else Some (modified_files ctx))"

definition call_paths :: "json \<Rightarrow> string set" where
  "call_paths input = set_option (named_path input) \<union> set (edit_paths input)"

lemma track_calls_files:
  "modified_files (track_calls ok calls ctx) = modified_files ctx \<union>
     \<Union> (set (map (\<lambda>(i, name, input). if name \<in> set WRITE_TOOLS \<and> i \<in> ok then call_paths input else {}) calls))"
  by (induction ok calls ctx rule: track_calls.induct)
    (auto simp: Let_def call_paths_def split: option.splits)

text \<open>
  The tracker records exactly the paths named by calls of the writing tools whose result is no
  error. The input of ApplyPatch names no path, only the patch, so its files are never recorded.
\<close>

theorem tracker_records_exactly:
  "(p \<in> modified_files (tracker_after_tools calls results ctx) \<longleftrightarrow>
     p \<in> modified_files ctx
     \<or> (\<exists>i name input c k md. (i, name, input) \<in> set calls \<and> name \<in> set WRITE_TOOLS
          \<and> ToolResult i c False k md \<in> set results \<and> p \<in> call_paths input))
   \<and> tracker_after_tools [(j, ''ApplyPatch'', JObj [(''patch'', v)])] results ctx = ctx"
proof (rule conjI)
  have ok: "i \<in> set (List.map_filter succeeded_id results) \<longleftrightarrow>
      (\<exists>c k md. ToolResult i c False k md \<in> set results)" for i
  proof -
    have "succeeded_id b = Some i \<longleftrightarrow> (\<exists>c k md. b = ToolResult i c False k md)" for b
      by (cases b) auto
    then show ?thesis by (force simp: List.map_filter_def)
  qed
  show "p \<in> modified_files (tracker_after_tools calls results ctx) \<longleftrightarrow>
     p \<in> modified_files ctx
     \<or> (\<exists>i name input c k md. (i, name, input) \<in> set calls \<and> name \<in> set WRITE_TOOLS
          \<and> ToolResult i c False k md \<in> set results \<and> p \<in> call_paths input)"
    unfolding tracker_after_tools_def track_calls_files using ok by (force split: if_splits)
next
  show "tracker_after_tools [(j, ''ApplyPatch'', JObj [(''patch'', v)])] results ctx = ctx"
    by (simp add: tracker_after_tools_def WRITE_TOOLS_def named_path_def edit_paths_def get_array_def Let_def)
qed

end
