(* ===== verification/Failure.thy ===== *)
theory Failure
  imports Rust_Search Prelude
begin

section \<open>Errors\<close>

text \<open>
  \<open>loopal-error\<close>: \<open>errors.rs\<close> with the texts its \<open>Display\<close> gives, and \<open>helpers.rs\<close>, which decides
  what is retried. The wrapped I/O errors of the standard library are given by their text. The
  lemma says exactly which errors are retried.
\<close>

type_synonym u16 = "16 word"

datatype provider_error =
    Http string
  | SseParse string
  | Api u16 string
  | ModelNotFound string
  | RateLimited u64
  | StreamEnded
  | ContextOverflow string

fun provider_text :: "provider_error \<Rightarrow> string" where
  "provider_text (Http t) = ''HTTP error: '' @ t"
| "provider_text (SseParse t) = ''SSE parse error: '' @ t"
| "provider_text (Api status m) = ''API error: status='' @ nat_str (unat status) @ '', message='' @ m"
| "provider_text (ModelNotFound t) = ''Model not found: '' @ t"
| "provider_text (RateLimited ms) = ''Rate limited: retry after '' @ nat_str (unat ms) @ ''ms''"
| "provider_text StreamEnded = ''Stream ended unexpectedly''"
| "provider_text (ContextOverflow m) = ''Context overflow: '' @ m"

datatype tool_failure =
    Tool_not_found string
  | Tool_invalid_input string
  | Tool_execution_failed string
  | Tool_timeout u64

fun tool_failure_text :: "tool_failure \<Rightarrow> string" where
  "tool_failure_text (Tool_not_found t) = ''Tool not found: '' @ t"
| "tool_failure_text (Tool_invalid_input t) = ''Invalid input: '' @ t"
| "tool_failure_text (Tool_execution_failed t) = ''Execution failed: '' @ t"
| "tool_failure_text (Tool_timeout ms) = ''Timeout after '' @ nat_str (unat ms) @ ''ms''"

datatype config_failure =
    Config_parse string
  | Config_missing string
  | Config_invalid string string

fun config_failure_text :: "config_failure \<Rightarrow> string" where
  "config_failure_text (Config_parse t) = ''Parse error: '' @ t"
| "config_failure_text (Config_missing t) = ''Missing required field: '' @ t"
| "config_failure_text (Config_invalid f r) = ''Invalid value for '' @ f @ '': '' @ r"

datatype storage_failure =
    Session_not_found string
  | Storage_io string
  | Storage_serialization string
  | Home_dir_not_found

fun storage_failure_text :: "storage_failure \<Rightarrow> string" where
  "storage_failure_text (Session_not_found t) = ''Session not found: '' @ t"
| "storage_failure_text (Storage_io t) = ''IO error: '' @ t"
| "storage_failure_text (Storage_serialization t) = ''Serialization error: '' @ t"
| "storage_failure_text Home_dir_not_found = ''Could not determine home directory''"

datatype hook_failure = Hook_execution string | Hook_timeout string | Hook_rejected string

fun hook_failure_text :: "hook_failure \<Rightarrow> string" where
  "hook_failure_text (Hook_execution t) = ''Hook execution failed: '' @ t"
| "hook_failure_text (Hook_timeout t) = ''Hook timeout: '' @ t"
| "hook_failure_text (Hook_rejected t) = ''Hook rejected: '' @ t"

datatype mcp_failure =
    Mcp_connection string
  | Mcp_protocol string
  | Mcp_not_found string
  | Mcp_timeout string
  | Mcp_closed string
  | Mcp_unsupported string

fun mcp_failure_text :: "mcp_failure \<Rightarrow> string" where
  "mcp_failure_text (Mcp_connection t) = ''Connection failed: '' @ t"
| "mcp_failure_text (Mcp_protocol t) = ''Protocol error: '' @ t"
| "mcp_failure_text (Mcp_not_found t) = ''Server not found: '' @ t"
| "mcp_failure_text (Mcp_timeout t) = ''Request timeout: '' @ t"
| "mcp_failure_text (Mcp_closed t) = ''Transport closed: '' @ t"
| "mcp_failure_text (Mcp_unsupported t) = ''Capability not supported: '' @ t"

datatype loopal_failure =
    Provider provider_error
  | Tool_failed tool_failure
  | Config_failed config_failure
  | Storage_failed storage_failure
  | Permission_failed string
  | Hook_failed hook_failure
  | Mcp_failed mcp_failure
  | Ipc string
  | Io string
  | Backend_io string
  | Other string

fun failure_text :: "loopal_failure \<Rightarrow> string" where
  "failure_text (Provider e) = ''Provider error: '' @ provider_text e"
| "failure_text (Tool_failed e) = ''Tool error: '' @ tool_failure_text e"
| "failure_text (Config_failed e) = ''Config error: '' @ config_failure_text e"
| "failure_text (Storage_failed e) = ''Storage error: '' @ storage_failure_text e"
| "failure_text (Permission_failed t) = ''Permission denied: '' @ t"
| "failure_text (Hook_failed e) = ''Hook error: '' @ hook_failure_text e"
| "failure_text (Mcp_failed e) = ''MCP error: '' @ mcp_failure_text e"
| "failure_text (Ipc t) = ''IPC error: '' @ t"
| "failure_text (Io t) = ''IO error: '' @ t"
| "failure_text (Backend_io t) = ''Backend IO: '' @ t"
| "failure_text (Other t) = t"

subsection \<open>The helpers\<close>

fun provider_rate_limited :: "provider_error \<Rightarrow> bool" where
  "provider_rate_limited (RateLimited _) = True"
| "provider_rate_limited _ = False"

fun provider_retryable :: "provider_error \<Rightarrow> bool" where
  "provider_retryable (RateLimited _) = True"
| "provider_retryable (Api status m) =
     (if status = 400 \<and> (contains m ''invalid_request_error'' \<or> contains m ''prompt is too long''
                         \<or> contains m ''maximum context length'')
      then False else status \<in> {429, 500, 502, 503, 529})"
| "provider_retryable (ContextOverflow _) = False"
| "provider_retryable _ = False"

fun provider_context_overflow :: "provider_error \<Rightarrow> bool" where
  "provider_context_overflow (ContextOverflow _) = True"
| "provider_context_overflow (Api status m) =
     (if status = 400 then contains m ''prompt is too long'' \<or> contains m ''maximum context length''
      else False)"
| "provider_context_overflow _ = False"

fun provider_retry_after :: "provider_error \<Rightarrow> u64 option" where
  "provider_retry_after (RateLimited ms) = Some ms"
| "provider_retry_after _ = None"

fun is_rate_limited :: "loopal_failure \<Rightarrow> bool" where
  "is_rate_limited (Provider e) = provider_rate_limited e"
| "is_rate_limited _ = False"

fun is_retryable :: "loopal_failure \<Rightarrow> bool" where
  "is_retryable (Provider e) = provider_retryable e"
| "is_retryable _ = False"

fun retry_after_ms :: "loopal_failure \<Rightarrow> u64 option" where
  "retry_after_ms (Provider e) = provider_retry_after e"
| "retry_after_ms _ = None"

fun is_context_overflow :: "loopal_failure \<Rightarrow> bool" where
  "is_context_overflow (Provider e) = provider_context_overflow e"
| "is_context_overflow _ = False"

lemma retryable_iff:
  "is_retryable e \<longleftrightarrow> (\<exists>ms. e = Provider (RateLimited ms))
     \<or> (\<exists>status m. e = Provider (Api status m) \<and> status \<in> {429, 500, 502, 503, 529})"
proof (cases e)
  case (Provider p)
  then show ?thesis by (cases p) auto
qed auto

lemma overflow_not_retried: "is_context_overflow e \<Longrightarrow> \<not> is_retryable e"
proof (cases e)
  case (Provider p)
  assume "is_context_overflow e"
  with Provider show ?thesis by (cases p) (auto split: if_splits)
qed auto

end
