(* ===== verification/Protocol.thy ===== *)
theory Protocol
  imports Json
begin

section \<open>What the parts of the program say to each other\<close>

text \<open>
  \<open>crates/loopal-protocol\<close>: the content of a user's message (\<open>user_content.rs\<close>), envelopes with
  their source (\<open>envelope.rs\<close>), questions (\<open>question.rs\<close>), the control commands (\<open>control.rs\<close>,
  \<open>command.rs\<close>) and the projected messages of a stored conversation (\<open>projected.rs\<close>). The identifier and the time of an envelope are left out.
\<close>

subsection \<open>Content\<close>

record skill_invocation =
  skill_name :: string
  skill_args :: string

record image_attachment =
  attached_type :: string
  attached_data :: string

record user_content =
  user_text :: string
  user_images :: "image_attachment list"
  user_skill :: "skill_invocation option"

definition text_only :: "string \<Rightarrow> user_content" where
  "text_only t = \<lparr>user_text = t, user_images = [], user_skill = None\<rparr>"

definition has_images :: "user_content \<Rightarrow> bool" where
  "has_images c = (user_images c \<noteq> [])"

definition text_preview :: "user_content \<Rightarrow> string" where
  "text_preview c = (if length (user_text c) \<le> 80 then user_text c else cut_bytes 80 (user_text c))"

lemma text_preview_props: "prefix (text_preview c) (user_text c)" "length (text_preview c) \<le> 80"
  by (auto simp: text_preview_def cut_bytes_props)

subsection \<open>Envelopes\<close>

datatype message_source =
    Human
  | Agent string
  | Channel string string
  | Scheduled

fun source_label :: "message_source \<Rightarrow> string" where
  "source_label Human = ''human''"
| "source_label (Agent n) = n"
| "source_label (Channel ch from_agent) = from_agent"
| "source_label Scheduled = ''scheduled''"

record envelope =
  env_source :: message_source
  env_target :: string
  env_content :: user_content

subsection \<open>Questions\<close>

record question_option =
  label :: string
  option_description :: string

record question =
  question_text :: string
  options :: "question_option list"
  allow_multiple :: bool

subsection \<open>Control commands\<close>

datatype agent_mode = Act | Plan

datatype control_command =
    ModeSwitch agent_mode
  | Clear_history
  | Compact_now
  | ModelSwitch string
  | Rewind nat
  | ThinkingSwitch string

subsection \<open>Projected messages\<close>

record projected_call =
  proj_id :: string
  proj_name :: string
  proj_summary :: string
  proj_result :: "string option"
  proj_error :: bool
  proj_input :: "json option"
  proj_metadata :: "json option"

record projected_message =
  proj_role :: string
  proj_content :: string
  proj_calls :: "projected_call list"
  proj_images :: nat

end
