(* ===== verification/Runner.thy ===== *)
theory Runner
  imports Session_Log Tool_Run Auto_Mode Observers Failure Protocol
begin

section \<open>The state of the agent loop\<close>

text \<open>
  What \<open>AgentLoopRunner\<close> (\<open>loopal-runtime/src/agent_loop/runner.rs\<close>, \<open>mod.rs\<close>) holds and changes:
  the context store, the session's log, the mode, the classifier, the observers' state, the
  counters, and the events sent so far. \<open>host\<close> gathers what it is given and does not change. An
  action returns an error or a value, and the state; \<open>and_then\<close> is the \<open>?\<close> operator: an error
  ends the action there, with the changes made so far.
\<close>

definition and_then ::
  "('e + 'a) \<times> 's \<Rightarrow> ('a \<Rightarrow> 's \<Rightarrow> ('e + 'b) \<times> 's) \<Rightarrow> ('e + 'b) \<times> 's" where
  "and_then m k = (case m of (Inl e, s) \<Rightarrow> (Inl e, s) | (Inr a, s) \<Rightarrow> k a s)"

lemma and_then_simps [simp]:
  "and_then (Inl e, s) k = (Inl e, s)" "and_then (Inr a, s) k = k a s"
  by (simp_all add: and_then_def)

subsection \<open>Events\<close>

text \<open>
  \<open>AgentEventPayload\<close> of \<open>loopal-protocol/src/event.rs\<close>, as far as the loop sends it; durations,
  and the completion flag and metadata of a tool result, are left out of the events.
\<close>

datatype agent_event =
    Stream_event string
  | Thinking_stream string
  | Thinking_complete u32
  | Tool_call_event string string json
  | Tool_result_event (event_id: string) (event_tool: string) (event_text: string) (event_error: bool)
  | Tool_batch_start "string list"
  | Error_event string
  | Retry_error string u64 nat nat
  | Retry_cleared
  | Awaiting_input
  | Max_turns_reached u32
  | Auto_continuation nat nat
  | Token_usage u32 u32 u32 u32 u32 u32
  | Mode_changed string
  | Started
  | Finished
  | Rewound nat
  | Compacted nat nat u32 u32 string
  | Interrupted
  | Turn_diff_summary "string set"
  | Server_tool_use_event string string json
  | Server_tool_result_event string json
  | Auto_mode_decision string permission_decision string nat

fun mode_suffix :: "agent_mode \<Rightarrow> string" where
  "mode_suffix Act = ''''"
| "mode_suffix Plan =
     NL # NL # ''You are in PLAN mode. Explore the codebase and design a solution. Write your plan to .loopal/plans/plan.md. Use AskUser to confirm with the user before calling ExitPlanMode.''"

record token_accumulator =
  input_tokens :: u32
  output_tokens :: u32
  cache_creation :: u32
  cache_read :: u32
  thinking_total :: u32

definition tokens_new :: token_accumulator where
  "tokens_new = \<lparr>input_tokens = 0, output_tokens = 0, cache_creation = 0, cache_read = 0, thinking_total = 0\<rparr>"

subsection \<open>State and surroundings\<close>

record runner =
  store :: context_store
  session_log :: log_files
  writes :: nat
  mode :: agent_mode
  classifier :: "auto_classifier option"
  turn_count :: u32
  tokens :: token_accumulator
  detector :: loop_detector
  events :: "agent_event list"

text \<open>
  \<open>delivers n\<close> says whether event number \<open>n\<close> can be sent: from the first that cannot, the channel is
  closed. \<open>fresh_uuid\<close> and \<open>write_outcome\<close> give the identifier and the outcome of each write to
  the log in turn.
\<close>

record 'w host =
  bpe :: "string \<Rightarrow> nat"
  json_text :: "json \<Rightarrow> string"
  hash_hex :: "string \<Rightarrow> string"
  entry_text :: "tagged_entry \<Rightarrow> string"
  fresh_uuid :: "nat \<Rightarrow> string"
  write_outcome :: "nat \<Rightarrow> nat option"
  now_text :: string
  session_name :: string
  delivers :: "nat \<Rightarrow> bool"
  permission_mode :: permission_mode
  max_turns :: u32
  surround :: "'w surroundings"

definition emit :: "'w host \<Rightarrow> agent_event \<Rightarrow> runner \<Rightarrow> (loopal_failure + unit) \<times> runner" where
  "emit h ev r =
     (if delivers h (length (events r)) then (Inr (), r\<lparr>events := events r @ [ev]\<rparr>)
      else (Inl (Ipc ''event channel closed''), r))"

text \<open>\<open>let _ = emit(..)\<close>.\<close>

definition emit_quiet :: "'w host \<Rightarrow> agent_event \<Rightarrow> runner \<Rightarrow> runner" where
  "emit_quiet h ev r = snd (emit h ev r)"

text \<open>
  \<open>session_manager.save_message\<close> and the markers, with the failure logged and forgotten, as every
  caller in the loop does.
\<close>

definition persist :: "'w host \<Rightarrow> message \<Rightarrow> runner \<Rightarrow> message \<times> runner" where
  "persist h msg r =
     (case save_message (entry_text h) (fresh_uuid h (writes r)) (write_outcome h (writes r))
             (session_name h) msg (session_log r) of
        (_, msg', log') \<Rightarrow> (msg', r\<lparr>session_log := log', writes := writes r + 1\<rparr>))"

definition persist_marker :: "'w host \<Rightarrow> marker \<Rightarrow> runner \<Rightarrow> runner" where
  "persist_marker h m r =
     r\<lparr>session_log := snd (append_entry (entry_text h) (write_outcome h (writes r)) (session_name h)
         (Marker_entry m) (session_log r)), writes := writes r + 1\<rparr>"

lemma emit_keeps [simp]:
  "store (snd (emit h ev r)) = store r" "session_log (snd (emit h ev r)) = session_log r"
  "writes (snd (emit h ev r)) = writes r" "mode (snd (emit h ev r)) = mode r"
  "classifier (snd (emit h ev r)) = classifier r" "turn_count (snd (emit h ev r)) = turn_count r"
  "tokens (snd (emit h ev r)) = tokens r" "detector (snd (emit h ev r)) = detector r"
  by (simp_all add: emit_def)

lemma emit_quiet_keeps [simp]:
  "store (emit_quiet h ev r) = store r" "session_log (emit_quiet h ev r) = session_log r"
  "writes (emit_quiet h ev r) = writes r" "mode (emit_quiet h ev r) = mode r"
  "classifier (emit_quiet h ev r) = classifier r" "turn_count (emit_quiet h ev r) = turn_count r"
  "tokens (emit_quiet h ev r) = tokens r" "detector (emit_quiet h ev r) = detector r"
  by (simp_all add: emit_quiet_def)

lemma emit_cases:
  obtains (Closed) e where "emit h ev r = (Inl e, r)" "\<not> delivers h (length (events r))"
  | (Sent) "emit h ev r = (Inr (), r\<lparr>events := events r @ [ev]\<rparr>)"
  by (cases "delivers h (length (events r))") (auto simp: emit_def)

lemma persist_keeps [simp]:
  "store (snd (persist h m r)) = store r" "mode (snd (persist h m r)) = mode r"
  "events (snd (persist h m r)) = events r" "classifier (snd (persist h m r)) = classifier r"
  "turn_count (snd (persist h m r)) = turn_count r" "tokens (snd (persist h m r)) = tokens r"
  "detector (snd (persist h m r)) = detector r"
  by (simp_all add: persist_def split: prod.splits)

lemma persist_message [simp]:
  "role (fst (persist h m r)) = role m" "content (fst (persist h m r)) = content m"
  by (auto simp: persist_def save_message_def Let_def split: prod.splits)

lemma persist_marker_keeps [simp]:
  "store (persist_marker h k r) = store r" "mode (persist_marker h k r) = mode r"
  "events (persist_marker h k r) = events r" "classifier (persist_marker h k r) = classifier r"
  "turn_count (persist_marker h k r) = turn_count r" "tokens (persist_marker h k r) = tokens r"
  "detector (persist_marker h k r) = detector r"
  by (simp_all add: persist_marker_def)

text \<open>A small host and a fresh state, for instances.\<close>

definition small_host :: "unit host" where
  "small_host =
     \<lparr>bpe = length, json_text = (\<lambda>_. ''{}''), hash_hex = id, entry_text = (\<lambda>_. ''entry''),
      fresh_uuid = (\<lambda>n. ''id'' @ nat_str n), write_outcome = (\<lambda>_. None), now_text = ''noon'',
      session_name = ''s'', delivers = (\<lambda>_. True), permission_mode = Bypass, max_turns = 9,
      surround = \<lparr>registry = registry_new, hooks = [], run_hook = (\<lambda>_ _ w. (Inl ''no hook'', w)),
        tmp_dir = ''/tmp'', clock_ms = None, make_dir = (\<lambda>_ w. (False, w)), write_text = (\<lambda>_ _ w. (False, w))\<rparr>\<rparr>"

definition start_runner :: "context_store \<Rightarrow> runner" where
  "start_runner s =
     \<lparr>store = s, session_log = (\<lambda>_. None), writes = 0, mode = Act, classifier = None, turn_count = 0,
      tokens = tokens_new, detector = loop_detector_new, events = []\<rparr>"

lemma store_start_runner: "store (start_runner s) = s"
  by (simp add: start_runner_def)

end
