(* ===== verification/Tool_Batch.thy ===== *)
theory Tool_Batch
  imports Runner
begin

section \<open>Executing the tool calls of a turn\<close>

text \<open>
  \<open>loopal-runtime/src/agent_loop\<close>: \<open>tools.rs\<close>, \<open>tools_check.rs\<close>, \<open>tools_resolve.rs\<close>,
  \<open>tool_exec.rs\<close>, \<open>tool_collect.rs\<close>, \<open>tools_inject.rs\<close> and \<open>question_parse.rs\<close>. The calls the model
  asked for are intercepted, checked, approved by the classifier or a human, run in parallel and
  their results collected. \<open>batch_env\<close> holds what happens meanwhile: when the turn is cancelled,
  what the human and the classifier answer, in which order the parallel tasks end. The lemmas show
  that every call gets exactly one result, that nothing runs unchecked, and that the plan mode is
  not enforced.
\<close>

subsection \<open>What happens meanwhile\<close>

text \<open>
  One turn of the loop that collects results: cancellation is seen before waiting; a task ends
  (\<open>Joined\<close>) or is lost to a panic; or cancellation is seen while waiting, and the tasks listed end
  nevertheless before they are aborted. When the list ends all tasks have been joined. The events
  that the tasks themselves send are left out.
\<close>

datatype join_poll =
    Cancel_seen
  | Joined nat
  | Lost nat
  | Cancelled_waiting "nat list"

text \<open>
  \<open>check_polls\<close>: how many calls are checked before the turn is seen to be cancelled.
  \<open>human k\<close> and \<open>verdicts k\<close>: the answer to the k-th pending call; \<open>None\<close> is a classification
  task that panicked. \<open>after_tasks\<close>: what the concurrent classification leaves of the classifier.
  \<open>outcomes\<close>: what \<open>execute_tool\<close> answers for a call.
\<close>

record batch_env =
  precancelled :: bool
  check_polls :: nat
  user_answers :: "nat \<Rightarrow> string list"
  human :: "nat \<Rightarrow> tool_call \<Rightarrow> permission_decision"
  provider_missing :: "string option"
  verdicts :: "nat \<Rightarrow> tool_call \<Rightarrow> classifier_result option"
  after_tasks :: "tool_call list \<Rightarrow> auto_classifier \<Rightarrow> auto_classifier"
  outcomes :: "tool_call \<Rightarrow> string + tool_result"
  schedule :: "tool_call list \<Rightarrow> join_poll list"

subsection \<open>Blocks\<close>

definition success_block :: "string \<Rightarrow> string \<Rightarrow> content_block" where
  "success_block i t = ToolResult i t False False None"

definition error_block :: "string \<Rightarrow> string \<Rightarrow> content_block" where
  "error_block i t = ToolResult i t True False None"

definition outcome_block :: "string \<Rightarrow> string + tool_result \<Rightarrow> content_block" where
  "outcome_block i a =
     (case a of
        Inr r \<Rightarrow> ToolResult i (result_text r) (result_error r) (result_completion r) (result_metadata r)
      | Inl e \<Rightarrow> ToolResult i e True False None)"

definition orig_idx :: "tool_call list \<Rightarrow> string \<Rightarrow> nat" where
  "orig_idx uses i = (case position (\<lambda>c. fst c = i) uses of Some k \<Rightarrow> k | None \<Rightarrow> 0)"

definition emit_tool_error ::
  "'w host \<Rightarrow> string \<Rightarrow> string \<Rightarrow> string \<Rightarrow> runner \<Rightarrow> (loopal_failure + unit) \<times> runner" where
  "emit_tool_error h i name t r = emit h (Tool_result_event i name t True) r"

type_synonym indexed = "nat \<times> content_block"

subsection \<open>Questions\<close>

definition str_or :: "string \<Rightarrow> json \<Rightarrow> string \<Rightarrow> string" where
  "str_or d v key = (case get_str v key of Some t \<Rightarrow> t | None \<Rightarrow> d)"

definition parse_questions :: "json \<Rightarrow> question list" where
  "parse_questions input =
     (case get_array input ''questions'' of
        None \<Rightarrow> [\<lparr>question_text = ''?'', options = [], allow_multiple = False\<rparr>]
      | Some qs \<Rightarrow>
          map (\<lambda>q. \<lparr>question_text = str_or ''?'' q ''question'',
                    options = (case get_array q ''options'' of
                        Some os \<Rightarrow> map (\<lambda>ob. \<lparr>label = str_or '''' ob ''label'',
                                             option_description = str_or '''' ob ''description''\<rparr>) os
                      | None \<Rightarrow> []),
                    allow_multiple = (case get_bool q ''multiSelect'' of Some b \<Rightarrow> b | None \<Rightarrow> False)\<rparr>) qs)"

definition format_answers :: "string list \<Rightarrow> string" where
  "format_answers answers = (if answers = [] then ''(no selection)'' else str_join '', '' answers)"

subsection \<open>Phase 0: interception\<close>

text \<open>\<open>k\<close> counts the calls; the user answers the questions of call \<open>k\<close> with \<open>user_answers k\<close>.\<close>

fun intercept ::
  "'w host \<Rightarrow> batch_env \<Rightarrow> nat \<Rightarrow> tool_call list \<Rightarrow> indexed list \<Rightarrow> tool_call list \<Rightarrow> runner
     \<Rightarrow> (loopal_failure + indexed list \<times> tool_call list) \<times> runner" where
  "intercept h env k [] got rest r = (Inr (got, rest), r)"
| "intercept h env k ((i, name, input) # calls) got rest r =
     (if name = ''EnterPlanMode'' then
        and_then (emit h (Mode_changed ''plan'') (r\<lparr>mode := Plan\<rparr>)) (\<lambda>_ r.
          intercept h env (Suc k) calls
            (got @ [(k, success_block i ''Plan mode activated. Only read-only tools allowed.'')]) rest r)
      else if name = ''ExitPlanMode'' then
        and_then (emit h (Mode_changed ''act'') (r\<lparr>mode := Act\<rparr>)) (\<lambda>_ r.
          intercept h env (Suc k) calls
            (got @ [(k, success_block i ''Returned to Act mode. All tools available.'')]) rest r)
      else if name = ''AskUser'' then
        intercept h env (Suc k) calls
          (got @ [(k, success_block i (format_answers (user_answers env k)))]) rest r
      else intercept h env (Suc k) calls got (rest @ [(i, name, input)]) r)"

definition intercept_special_tools ::
  "'w host \<Rightarrow> batch_env \<Rightarrow> tool_call list \<Rightarrow> runner
     \<Rightarrow> (loopal_failure + indexed list \<times> tool_call list) \<times> runner" where
  "intercept_special_tools h env uses r = intercept h env 0 uses [] [] r"

subsection \<open>Phase 1: checks\<close>

text \<open>The accumulated lists: approved calls, denied results, pending calls.\<close>

type_synonym checked = "tool_call list \<times> indexed list \<times> (nat \<times> tool_call) list"

definition precheck_reason :: "'w host \<Rightarrow> string \<Rightarrow> json \<Rightarrow> string option" where
  "precheck_reason h name input =
     Option.bind (get_tool name (registry (surround h))) (\<lambda>t. tool_precheck t input)"

definition fast_decision :: "'w host \<Rightarrow> string \<Rightarrow> permission_decision" where
  "fast_decision h name =
     (case get_tool name (registry (surround h)) of
        Some t \<Rightarrow> permission_check (permission_mode h) (tool_permission t)
      | None \<Rightarrow> Decide_allow)"

fun check_loop ::
  "'w host \<Rightarrow> tool_call list \<Rightarrow> nat \<Rightarrow> tool_call list \<Rightarrow> checked \<Rightarrow> runner
     \<Rightarrow> (loopal_failure + checked \<times> tool_call list) \<times> runner" where
  "check_loop h uses polls [] acc r = (Inr (acc, []), r)"
| "check_loop h uses 0 (c # calls) acc r = (Inr (acc, c # calls), r)"
| "check_loop h uses (Suc polls) ((i, name, input) # calls) (approved, denied, pending) r =
     (case precheck_reason h name input of
        Some why \<Rightarrow>
          and_then (emit_tool_error h i name (''Sandbox: '' @ why) r) (\<lambda>_ r.
            check_loop h uses polls calls
              (approved, denied @ [(orig_idx uses i, error_block i (''Sandbox: '' @ why))], pending) r)
      | None \<Rightarrow>
          if fast_decision h name \<noteq> Decide_ask
          then check_loop h uses polls calls (approved @ [(i, name, input)], denied, pending) r
          else check_loop h uses polls calls
                 (approved, denied, pending @ [(orig_idx uses i, i, name, input)]) r)"

fun ask_human_sequential ::
  "'w host \<Rightarrow> batch_env \<Rightarrow> nat \<Rightarrow> (nat \<times> tool_call) list \<Rightarrow> tool_call list \<times> indexed list \<Rightarrow> runner
     \<Rightarrow> (loopal_failure + tool_call list \<times> indexed list) \<times> runner" where
  "ask_human_sequential h env k [] acc r = (Inr acc, r)"
| "ask_human_sequential h env k ((idx, i, name, input) # pending) (approved, denied) r =
     (if human env k (i, name, input) = Decide_allow then
        (let r = (case classifier r of
                    Some c \<Rightarrow> if degraded (breaker_state c)
                              then r\<lparr>classifier := Some (on_human_approval name c)\<rparr> else r
                  | None \<Rightarrow> r)
         in ask_human_sequential h env (Suc k) pending (approved @ [(i, name, input)], denied) r)
      else
        and_then (emit_tool_error h i name ''Permission denied'' r) (\<lambda>_ r.
          ask_human_sequential h env (Suc k) pending
            (approved, denied @ [(idx, error_block i
               (''Permission denied: tool '' @ [CHR 0x27] @ name @ [CHR 0x27] @ '' not allowed''))]) r))"

fun deny_all ::
  "'w host \<Rightarrow> string \<Rightarrow> (nat \<times> tool_call) list \<Rightarrow> tool_call list \<times> indexed list \<Rightarrow> runner
     \<Rightarrow> (loopal_failure + tool_call list \<times> indexed list) \<times> runner" where
  "deny_all h why [] acc r = (Inr acc, r)"
| "deny_all h why ((idx, i, name, input) # pending) (approved, denied) r =
     and_then (emit_tool_error h i name why r) (\<lambda>_ r.
       deny_all h why pending (approved, denied @ [(idx, error_block i why)]) r)"

definition panicked_result :: classifier_result where
  "panicked_result = \<lparr>verdict = Decide_deny, reason = ''Classifier task panicked'', duration_ms = 0\<rparr>"

fun collect_verdicts ::
  "'w host \<Rightarrow> batch_env \<Rightarrow> nat \<Rightarrow> (nat \<times> tool_call) list \<Rightarrow> tool_call list \<times> indexed list \<Rightarrow> runner
     \<Rightarrow> (loopal_failure + tool_call list \<times> indexed list) \<times> runner" where
  "collect_verdicts h env k [] acc r = (Inr acc, r)"
| "collect_verdicts h env k ((idx, i, name, input) # pending) (approved, denied) r =
     (let result = (case verdicts env k (i, name, input) of Some v \<Rightarrow> v | None \<Rightarrow> panicked_result);
          r = emit_quiet h (Auto_mode_decision name (verdict result) (reason result) (duration_ms result)) r
      in if verdict result = Decide_deny then
           and_then (emit_tool_error h i name (''Auto-denied: '' @ reason result) r) (\<lambda>_ r.
             collect_verdicts h env (Suc k) pending
               (approved, denied @ [(idx, error_block i (''Auto-denied: '' @ reason result))]) r)
         else collect_verdicts h env (Suc k) pending (approved @ [(i, name, input)], denied) r)"

definition classify_parallel ::
  "'w host \<Rightarrow> batch_env \<Rightarrow> auto_classifier \<Rightarrow> (nat \<times> tool_call) list
     \<Rightarrow> tool_call list \<times> indexed list \<Rightarrow> runner
     \<Rightarrow> (loopal_failure + tool_call list \<times> indexed list) \<times> runner" where
  "classify_parallel h env c pending acc r =
     (if degraded (breaker_state c) then ask_human_sequential h env 0 pending acc r
      else case provider_missing env of
             Some e \<Rightarrow> deny_all h (''Classifier provider error: '' @ e) pending acc r
           | None \<Rightarrow>
               collect_verdicts h env 0 pending acc
                 (r\<lparr>classifier := Some (after_tasks env (map snd pending) c)\<rparr>))"

definition resolve_pending ::
  "'w host \<Rightarrow> batch_env \<Rightarrow> (nat \<times> tool_call) list \<Rightarrow> tool_call list \<times> indexed list \<Rightarrow> runner
     \<Rightarrow> (loopal_failure + tool_call list \<times> indexed list) \<times> runner" where
  "resolve_pending h env pending acc r =
     (if pending = [] then (Inr acc, r)
      else case classifier r of
             Some c \<Rightarrow> if permission_mode h = Auto then classify_parallel h env c pending acc r
                       else ask_human_sequential h env 0 pending acc r
           | None \<Rightarrow> ask_human_sequential h env 0 pending acc r)"

fun interrupt_rest ::
  "'w host \<Rightarrow> tool_call list \<Rightarrow> tool_call list \<Rightarrow> indexed list \<Rightarrow> runner
     \<Rightarrow> (loopal_failure + indexed list) \<times> runner" where
  "interrupt_rest h uses [] denied r = (Inr denied, r)"
| "interrupt_rest h uses ((i, name, input) # calls) denied r =
     and_then (emit_tool_error h i name ''Interrupted by user'' r) (\<lambda>_ r.
       interrupt_rest h uses calls (denied @ [(orig_idx uses i, error_block i ''Interrupted by user'')]) r)"

definition check_tools ::
  "'w host \<Rightarrow> batch_env \<Rightarrow> tool_call list \<Rightarrow> tool_call list \<Rightarrow> runner
     \<Rightarrow> (loopal_failure + tool_call list \<times> indexed list) \<times> runner" where
  "check_tools h env remaining uses r =
     and_then (check_loop h uses (check_polls env) remaining ([], [], []) r)
       (\<lambda>((approved, denied, pending), unprocessed) r.
     and_then (resolve_pending h env pending (approved, denied) r) (\<lambda>(approved, denied) r.
     and_then (interrupt_rest h uses unprocessed denied r) (\<lambda>denied r.
       (Inr (approved, denied), r))))"

subsection \<open>Phase 2: parallel execution\<close>

definition task_result :: "batch_env \<Rightarrow> tool_call list \<Rightarrow> tool_call \<Rightarrow> indexed" where
  "task_result env uses c = (orig_idx uses (fst c), outcome_block (fst c) (outcomes env c))"

definition task_at :: "indexed list \<Rightarrow> nat \<Rightarrow> indexed list" where
  "task_at tasks k = (if k < length tasks then [tasks ! k] else [])"

fun collect_loop :: "indexed list \<Rightarrow> join_poll list \<Rightarrow> indexed list" where
  "collect_loop tasks [] = []"
| "collect_loop tasks (Cancel_seen # _) = []"
| "collect_loop tasks (Joined k # polls) = task_at tasks k @ collect_loop tasks polls"
| "collect_loop tasks (Lost _ # polls) = collect_loop tasks polls"
| "collect_loop tasks (Cancelled_waiting ks # _) = concat (map (task_at tasks) ks)"

fun synthesise_interrupted ::
  "'w host \<Rightarrow> tool_call list \<Rightarrow> string set \<Rightarrow> tool_call list \<Rightarrow> runner \<Rightarrow> indexed list \<times> runner" where
  "synthesise_interrupted h uses collected [] r = ([], r)"
| "synthesise_interrupted h uses collected ((i, name, input) # approved) r =
     (if i \<in> collected then synthesise_interrupted h uses collected approved r
      else
        let r = emit_quiet h (Tool_result_event i name ''Interrupted by user'' True) r
        in case synthesise_interrupted h uses collected approved r of
             (added, r) \<Rightarrow> ((orig_idx uses i, error_block i ''Interrupted by user'') # added, r))"

definition collect_results ::
  "'w host \<Rightarrow> indexed list \<Rightarrow> join_poll list \<Rightarrow> tool_call list \<Rightarrow> tool_call list \<Rightarrow> runner
     \<Rightarrow> indexed list \<times> runner" where
  "collect_results h tasks polls approved uses r =
     (let results = collect_loop tasks polls;
          collected = set (map (result_for \<circ> snd) results)
      in case synthesise_interrupted h uses collected approved r of
           (added, r) \<Rightarrow> (results @ added, r))"

definition execute_approved_tools ::
  "'w host \<Rightarrow> batch_env \<Rightarrow> tool_call list \<Rightarrow> tool_call list \<Rightarrow> runner \<Rightarrow> indexed list \<times> runner" where
  "execute_approved_tools h env approved uses r =
     collect_results h (map (task_result env uses) approved) (schedule env approved) approved uses r"

subsection \<open>The results\<close>

fun completion_text :: "content_block \<Rightarrow> string option" where
  "completion_text (ToolResult i t False True md) = Some t"
| "completion_text _ = None"

definition find_completion :: "content_block list \<Rightarrow> string option" where
  "find_completion bs = (case List.map_filter completion_text bs of [] \<Rightarrow> None | t # _ \<Rightarrow> Some t)"

definition push_results :: "'w host \<Rightarrow> content_block list \<Rightarrow> runner \<Rightarrow> runner" where
  "push_results h blocks r =
     (case persist h \<lparr>id_opt = None, role = User, content = blocks\<rparr> r of
        (msg, r) \<Rightarrow> r\<lparr>store := push_tool_results (bpe h) (json_text h) msg (store r)\<rparr>)"

definition finalize_tool_results ::
  "'w host \<Rightarrow> indexed list \<Rightarrow> runner \<Rightarrow> string option \<times> runner" where
  "finalize_tool_results h indexed_results r =
     (let blocks = map snd (sort_key fst indexed_results)
      in (find_completion blocks, push_results h blocks r))"

fun emit_interrupted_all ::
  "'w host \<Rightarrow> tool_call list \<Rightarrow> runner \<Rightarrow> (loopal_failure + unit) \<times> runner" where
  "emit_interrupted_all h [] r = (Inr (), r)"
| "emit_interrupted_all h ((i, name, input) # calls) r =
     and_then (emit h (Tool_result_event i name ''Interrupted by user'' True) r)
       (\<lambda>_ r. emit_interrupted_all h calls r)"

definition emit_all_interrupted ::
  "'w host \<Rightarrow> tool_call list \<Rightarrow> runner \<Rightarrow> (loopal_failure + string option) \<times> runner" where
  "emit_all_interrupted h uses r =
     and_then (emit_interrupted_all h uses r) (\<lambda>_ r.
       (Inr None, push_results h (map (\<lambda>c. error_block (fst c) ''Interrupted by user'') uses) r))"

definition execute_tools ::
  "'w host \<Rightarrow> batch_env \<Rightarrow> tool_call list \<Rightarrow> runner \<Rightarrow> (loopal_failure + string option) \<times> runner" where
  "execute_tools h env uses r =
     (if precancelled env then emit_all_interrupted h uses r
      else
        and_then (intercept_special_tools h env uses r) (\<lambda>(intercepted, remaining) r.
        and_then (check_tools h env remaining uses r) (\<lambda>(approved, denied) r.
          if approved = [] then
            (case finalize_tool_results h (intercepted @ denied) r of (c, r) \<Rightarrow> (Inr c, r))
          else
            and_then (if 3 \<le> length approved then emit h (Tool_batch_start (map fst approved)) r else (Inr (), r))
              (\<lambda>_ r.
                case execute_approved_tools h env approved uses r of
                  (executed, r) \<Rightarrow>
                    (case finalize_tool_results h (intercepted @ denied @ executed) r of
                       (c, r) \<Rightarrow> (Inr c, r))))))"

subsection \<open>Every call gets one result\<close>

text \<open>The indices of the calls tasks were joined for; what the join set promises of them.\<close>

fun joined :: "join_poll list \<Rightarrow> nat list" where
  "joined [] = []"
| "joined (Cancel_seen # _) = []"
| "joined (Joined k # polls) = k # joined polls"
| "joined (Lost _ # polls) = joined polls"
| "joined (Cancelled_waiting ks # _) = ks"

definition each_once :: "nat \<Rightarrow> join_poll list \<Rightarrow> bool" where
  "each_once n polls = (distinct (joined polls) \<and> list_all (\<lambda>k. k < n) (joined polls))"

text \<open>A result that stands at its place: the index is that of the call it answers.\<close>

fun answers_id :: "content_block \<Rightarrow> string option" where
  "answers_id (ToolResult i t e cp md) = Some i"
| "answers_id _ = None"

definition fits :: "tool_call list \<Rightarrow> indexed \<Rightarrow> bool" where
  "fits uses = (\<lambda>(k, b). k < length uses \<and> answers_id b = Some (fst (uses ! k)))"

abbreviation places :: "tool_call list \<Rightarrow> tool_call list \<Rightarrow> nat multiset" where
  "places uses calls \<equiv> mset (map (\<lambda>c. orig_idx uses (fst c)) calls)"

definition sound :: "tool_call list \<Rightarrow> tool_call list \<Rightarrow> indexed list \<Rightarrow> bool" where
  "sound uses calls results = (set calls \<subseteq> set uses \<and> list_all (fits uses) results)"

lemma orig_idx_in:
  assumes "c \<in> set uses"
  shows "orig_idx uses (fst c) < length uses \<and> fst (uses ! orig_idx uses (fst c)) = fst c"
proof -
  obtain k where k: "position (\<lambda>d. fst d = fst c) uses = Some k"
    using assms position_None[of "\<lambda>d. fst d = fst c" uses] by fastforce
  then show ?thesis using position_Some[OF k] by (simp add: orig_idx_def)
qed

lemma fits_error: "c \<in> set uses \<Longrightarrow> fits uses (orig_idx uses (fst c), error_block (fst c) t)"
  using orig_idx_in[of c uses] by (simp add: fits_def error_block_def)

lemma fits_outcome: "c \<in> set uses \<Longrightarrow> fits uses (task_result env uses c)"
  using orig_idx_in[of c uses] by (auto simp: fits_def task_result_def outcome_block_def split: sum.splits)

lemma orig_idx_nth:
  "distinct (map fst uses) \<Longrightarrow> k < length uses \<Longrightarrow> orig_idx uses (fst (uses ! k)) = k"
  using position_key[of fst uses k] by (simp add: orig_idx_def)

lemma places_uses:
  assumes "distinct (map fst uses)"
  shows "map (\<lambda>c. orig_idx uses (fst c)) uses = [0..<length uses]"
  by (rule nth_equalityI) (simp_all add: orig_idx_nth[OF assms])

lemma emit_tool_error_store [simp]: "store (snd (emit_tool_error h i n t r)) = store r"
  by (simp add: emit_tool_error_def)

lemma emit_tool_error_cases:
  obtains (Closed) e where "emit_tool_error h i n t r = (Inl e, r)"
  | (Sent) r' where "emit_tool_error h i n t r = (Inr (), r')" "store r' = store r"
  by (cases "delivers h (length (events r))") (auto simp: emit_tool_error_def emit_def)

lemma intercept_accounts:
  assumes "intercept h env k calls got rest r = (res, r')"
    and "map (\<lambda>c. orig_idx uses (fst c)) calls = [k..<k + length calls]"
    and "sound uses (calls @ rest) got"
  shows "store r' = store r \<and>
    (\<forall>got' rest'. res = Inr (got', rest') \<longrightarrow>
       mset (map fst got') + places uses rest' = mset (map fst got) + places uses rest + places uses calls
     \<and> sound uses rest' got')"
  using assms
proof (induction h env k calls got rest r arbitrary: res r' rule: intercept.induct)
  case (2 h env k i name input calls got rest r)
  have c: "orig_idx uses i = k" "map (\<lambda>c. orig_idx uses (fst c)) calls = [Suc k..<Suc k + length calls]"
    using "2.prems"(2) by (auto simp: upt_rec[of k] simp del: upt_Suc)
  have i: "(i, name, input) \<in> set uses" using "2.prems"(3) by (simp add: sound_def)
  have fit: "fits uses (k, success_block i t)" for t
    using orig_idx_in[OF i] c by (simp add: fits_def success_block_def)
  have sound: "sound uses (calls @ rest) (got @ [(k, success_block i t)])"
    "sound uses (calls @ rest @ [(i, name, input)]) got" for t
    using "2.prems"(3) fit by (auto simp: sound_def)
  consider (Enter) "name = ''EnterPlanMode''" | (Exit) "name = ''ExitPlanMode''"
    | (Ask) "name = ''AskUser''" | (Other) "name \<notin> {''EnterPlanMode'', ''ExitPlanMode'', ''AskUser''}"
    by blast
  then show ?case
  proof cases
    case Enter
    show ?thesis
    proof (cases rule: emit_cases[of h "Mode_changed ''plan''" "r\<lparr>mode := Plan\<rparr>"])
      case Closed
      with Enter "2.prems"(1) show ?thesis by auto
    next
      case Sent
      then show ?thesis
        using "2.IH"(1)[OF Enter _ c(2) sound(1)] Enter "2.prems"(1) c by (auto simp: ac_simps)
    qed
  next
    case Exit
    show ?thesis
    proof (cases rule: emit_cases[of h "Mode_changed ''act''" "r\<lparr>mode := Act\<rparr>"])
      case Closed
      with Exit "2.prems"(1) show ?thesis by auto
    next
      case Sent
      then show ?thesis
        using "2.IH"(2)[OF _ Exit _ c(2) sound(1)] Exit "2.prems"(1) c by (auto simp: ac_simps)
    qed
  next
    case Ask
    then show ?thesis using "2.IH"(3)[OF _ _ Ask _ c(2) sound(1)] "2.prems"(1) c by (auto simp: ac_simps)
  next
    case Other
    then show ?thesis using "2.IH"(4)[OF _ _ _ _ c(2) sound(2)] "2.prems"(1) c by (auto simp: ac_simps)
  qed
qed auto

text \<open>Pending calls carry the index of their call.\<close>

definition at_place :: "tool_call list \<Rightarrow> (nat \<times> tool_call) list \<Rightarrow> bool" where
  "at_place uses = list_all (\<lambda>(idx, c). idx = orig_idx uses (fst c))"

lemma check_loop_accounts:
  assumes "check_loop h uses polls calls (approved, denied, pending) r = (res, r')"
    and "sound uses (calls @ approved @ map snd pending) denied" and "at_place uses pending"
  shows "store r' = store r \<and>
    (\<forall>approved' denied' pending' todo. res = Inr ((approved', denied', pending'), todo) \<longrightarrow>
       mset (map fst denied') + places uses (approved' @ map snd pending' @ todo)
         = mset (map fst denied) + places uses (approved @ map snd pending @ calls)
     \<and> sound uses (todo @ approved' @ map snd pending') denied' \<and> at_place uses pending')"
  using assms
proof (induction h uses polls calls "(approved, denied, pending)" r
    arbitrary: approved denied pending res r' rule: check_loop.induct)
  case (3 h uses polls i name input calls approved denied pending r)
  have i: "(i, name, input) \<in> set uses" using "3.prems"(2) by (simp add: sound_def)
  show ?case
  proof (cases "precheck_reason h name input")
    case (Some why)
    have s: "sound uses (calls @ approved @ map snd pending)
        (denied @ [(orig_idx uses i, error_block i (''Sandbox: '' @ why))])"
      using "3.prems"(2) fits_error[OF i] by (auto simp: sound_def)
    show ?thesis
    proof (cases rule: emit_tool_error_cases[of h i name "''Sandbox: '' @ why" r])
      case Closed
      with Some "3.prems"(1) show ?thesis by auto
    next
      case (Sent r1)
      with Some "3.prems"(1) "3.hyps"(3)[OF Some _ s "3.prems"(3), of r1] show ?thesis
        by (auto simp: ac_simps)
    qed
  next
    case None
    show ?thesis
    proof (cases "fast_decision h name \<noteq> Decide_ask")
      case True
      have s: "sound uses (calls @ (approved @ [(i, name, input)]) @ map snd pending) denied"
        using "3.prems"(2) by (auto simp: sound_def)
      from "3.hyps"(1)[OF None True _ s "3.prems"(3)] None True "3.prems"(1) show ?thesis
        by (auto simp: ac_simps)
    next
      case False
      let ?pending = "pending @ [(orig_idx uses i, i, name, input)]"
      have s: "sound uses (calls @ approved @ map snd ?pending) denied" "at_place uses ?pending"
        using "3.prems"(2,3) by (auto simp: sound_def at_place_def)
      from "3.hyps"(2)[OF None False _ s] None False "3.prems"(1) show ?thesis
        by (auto simp: ac_simps)
    qed
  qed
qed auto

text \<open>What the three ways of resolving the pending calls have in common.\<close>

definition resolves ::
  "tool_call list \<Rightarrow> (nat \<times> tool_call) list \<Rightarrow> tool_call list \<times> indexed list \<Rightarrow> runner
     \<Rightarrow> (loopal_failure + tool_call list \<times> indexed list) \<times> runner \<Rightarrow> bool" where
  "resolves uses pending acc r = (\<lambda>(res, r').
     store r' = store r \<and>
     (\<forall>approved denied. res = Inr (approved, denied) \<longrightarrow>
        mset (map fst denied) + places uses approved
          = mset (map fst (snd acc)) + places uses (fst acc @ map snd pending)
      \<and> sound uses approved denied))"

lemma resolves_approve:
  assumes "resolves uses pending (approved @ [c], denied) r1 x" and "store r1 = store r"
  shows "resolves uses ((idx, c) # pending) (approved, denied) r x"
  using assms by (auto simp: resolves_def ac_simps split: prod.splits)

lemma resolves_deny:
  assumes "idx = orig_idx uses (fst c)"
    and "resolves uses pending (approved, denied @ [(idx, b)]) r1 x" and "store r1 = store r"
  shows "resolves uses ((idx, c) # pending) (approved, denied) r x"
  using assms by (auto simp: resolves_def ac_simps split: prod.splits)

lemma resolves_error: "store r' = store r \<Longrightarrow> resolves uses pending acc r (Inl e, r')"
  by (simp add: resolves_def)

lemma resolves_done: "sound uses approved denied \<Longrightarrow> resolves uses [] (approved, denied) r (Inr (approved, denied), r)"
  by (simp add: resolves_def)

lemma pending_step:
  assumes "at_place uses ((idx, c) # pending)" "sound uses (approved @ map snd ((idx, c) # pending)) denied"
  shows "idx = orig_idx uses (fst c)" "at_place uses pending"
    "sound uses ((approved @ [c]) @ map snd pending) denied"
    "sound uses (approved @ map snd pending) (denied @ [(idx, error_block (fst c) t)])"
  using assms fits_error[of c uses t] by (auto simp: at_place_def sound_def)

lemma ask_human_resolves:
  "at_place uses pending \<Longrightarrow> sound uses (approved @ map snd pending) denied \<Longrightarrow>
     resolves uses pending (approved, denied) r (ask_human_sequential h env k pending (approved, denied) r)"
proof (induction h env k pending "(approved, denied)" r arbitrary: approved denied rule: ask_human_sequential.induct)
  case (2 h env k idx i name input pending approved denied r)
  note step = pending_step[OF 2(3,4)]
  show ?case
  proof (cases "human env k (i, name, input) = Decide_allow")
    case True
    from 2(1)[OF True refl step(2,3)] show ?thesis
      using True by (auto simp: Let_def split: option.splits intro!: resolves_approve)
  next
    case False
    show ?thesis
    proof (cases rule: emit_tool_error_cases[of h i name "''Permission denied''" r])
      case Closed
      with False show ?thesis by (simp add: resolves_error)
    next
      case (Sent r1)
      from 2(2)[OF False step(2) step(4)[simplified], of r1] Sent False step(1) show ?thesis
        by (auto intro!: resolves_deny)
    qed
  qed
qed (simp add: resolves_done)

lemma deny_all_resolves:
  "at_place uses pending \<Longrightarrow> sound uses (approved @ map snd pending) denied \<Longrightarrow>
     resolves uses pending (approved, denied) r (deny_all h why pending (approved, denied) r)"
proof (induction h why pending "(approved, denied)" r arbitrary: approved denied rule: deny_all.induct)
  case (2 h why idx i name input pending approved denied r)
  note step = pending_step[OF 2(2,3)]
  show ?case
  proof (cases rule: emit_tool_error_cases[of h i name why r])
    case Closed
    then show ?thesis by (simp add: resolves_error)
  next
    case (Sent r1)
    from 2(1)[OF step(2) step(4)[simplified], of r1] Sent step(1) show ?thesis
      by (auto intro!: resolves_deny)
  qed
qed (simp add: resolves_done)

lemma collect_verdicts_resolves:
  "at_place uses pending \<Longrightarrow> sound uses (approved @ map snd pending) denied \<Longrightarrow>
     resolves uses pending (approved, denied) r (collect_verdicts h env k pending (approved, denied) r)"
proof (induction h env k pending "(approved, denied)" r arbitrary: approved denied rule: collect_verdicts.induct)
  case (2 h env k idx i name input pending approved denied r)
  note step = pending_step[OF 2(3,4)]
  let ?v = "case verdicts env k (i, name, input) of Some v \<Rightarrow> v | None \<Rightarrow> panicked_result"
  let ?r = "emit_quiet h (Auto_mode_decision name (verdict ?v) (reason ?v) (duration_ms ?v)) r"
  show ?case
  proof (cases "verdict ?v = Decide_deny")
    case True
    show ?thesis
    proof (cases rule: emit_tool_error_cases[of h i name "''Auto-denied: '' @ reason ?v" ?r])
      case Closed
      with True show ?thesis by (simp add: resolves_error Let_def)
    next
      case (Sent r1)
      from 2(1)[OF refl refl True step(2) step(4)[simplified], of r1] Sent True step(1) show ?thesis
        by (auto intro!: resolves_deny)
    qed
  next
    case False
    from resolves_approve[OF 2(2)[OF refl refl False step(2,3)], of r] show ?thesis
      using False by (simp add: Let_def)
  qed
qed (simp add: resolves_done)

lemma resolve_pending_resolves:
  assumes "at_place uses pending" "sound uses (approved @ map snd pending) denied"
  shows "resolves uses pending (approved, denied) r (resolve_pending h env pending (approved, denied) r)"
proof -
  have classifier: "resolves uses pending acc r x = resolves uses pending acc (r\<lparr>classifier := c\<rparr>) x" for acc c x
    by (simp add: resolves_def)
  show ?thesis
    using assms
    by (auto simp: resolve_pending_def classify_parallel_def resolves_done
        intro: ask_human_resolves deny_all_resolves collect_verdicts_resolves
          classifier[THEN iffD2] split: option.splits)
qed

lemma interrupt_rest_accounts:
  "set calls \<subseteq> set uses \<Longrightarrow> list_all (fits uses) denied \<Longrightarrow> interrupt_rest h uses calls denied r = (res, r') \<Longrightarrow>
     store r' = store r \<and>
     (\<forall>denied'. res = Inr denied' \<longrightarrow>
        mset (map fst denied') = mset (map fst denied) + places uses calls \<and> list_all (fits uses) denied')"
proof (induction h uses calls denied r arbitrary: res r' rule: interrupt_rest.induct)
  case (2 h uses i name input calls denied r)
  show ?case
  proof (cases rule: emit_tool_error_cases[of h i name "''Interrupted by user''" r])
    case Closed
    with "2.prems" show ?thesis by auto
  next
    case (Sent r1)
    with "2.prems" "2.IH"[of r1 res r'] fits_error[of "(i, name, input)" uses] show ?thesis
      by (auto simp: ac_simps)
  qed
qed auto

lemma check_tools_accounts:
  assumes "check_tools h env remaining uses r = (res, r')" "set remaining \<subseteq> set uses"
  shows "store r' = store r \<and>
    (\<forall>approved denied. res = Inr (approved, denied) \<longrightarrow>
       mset (map fst denied) + places uses approved = places uses remaining
     \<and> sound uses approved denied)"
proof -
  obtain res1 r1 where c1: "check_loop h uses (check_polls env) remaining ([], [], []) r = (res1, r1)"
    by (rule prod.exhaust)
  have "sound uses (remaining @ [] @ map snd []) []" "at_place uses []"
    using assms(2) by (auto simp: sound_def at_place_def)
  note A = check_loop_accounts[OF c1 this]
  show ?thesis
  proof (cases res1)
    case (Inl e)
    with A assms(1) c1 show ?thesis by (auto simp: check_tools_def)
  next
    case (Inr x)
    obtain appr den pend todo where x: "x = ((appr, den, pend), todo)" by (metis prod.exhaust)
    with A Inr have A': "store r1 = store r"
      "mset (map fst den) + places uses (appr @ map snd pend @ todo) = places uses remaining"
      "sound uses (todo @ appr @ map snd pend) den" "at_place uses pend" by auto
    obtain res2 r2 where c2: "resolve_pending h env pend (appr, den) r1 = (res2, r2)" by (rule prod.exhaust)
    have "sound uses (appr @ map snd pend) den" using A'(3) by (auto simp: sound_def)
    from resolve_pending_resolves[OF A'(4) this, of r1 h env]
    have B: "store r2 = store r1"
      "\<And>a d. res2 = Inr (a, d) \<Longrightarrow> mset (map fst d) + places uses a
          = mset (map fst den) + places uses (appr @ map snd pend) \<and> sound uses a d"
      by (simp_all add: c2 resolves_def)
    show ?thesis
    proof (cases res2)
      case (Inl e)
      with A' B assms(1) c1 c2 Inr x show ?thesis by (auto simp: check_tools_def)
    next
      case Inr2: (Inr y)
      obtain a d where y: "y = (a, d)" by (rule prod.exhaust)
      with B Inr2 have B': "mset (map fst d) + places uses a = mset (map fst den) + places uses (appr @ map snd pend)"
        "sound uses a d" by auto
      obtain res3 r3 where c3: "interrupt_rest h uses todo d r2 = (res3, r3)" by (rule prod.exhaust)
      have C: "store r3 = store r2 \<and> (\<forall>d'. res3 = Inr d' \<longrightarrow>
          mset (map fst d') = mset (map fst d) + places uses todo \<and> list_all (fits uses) d')"
        by (rule interrupt_rest_accounts[OF _ _ c3]) (use A'(3) B'(2) in \<open>auto simp: sound_def\<close>)
      have sum: "mset (map fst d) + places uses todo + places uses a = places uses remaining"
      proof -
        have "mset (map fst d) + places uses todo + places uses a
            = (mset (map fst d) + places uses a) + places uses todo" by (simp add: ac_simps)
        also have "\<dots> = mset (map fst den) + places uses (appr @ map snd pend @ todo)"
          unfolding B'(1) by (simp add: ac_simps)
        finally show ?thesis unfolding A'(2) .
      qed
      show ?thesis
      proof (cases res3)
        case (Inl e)
        with A' B C assms(1) c1 c2 c3 Inr x Inr2 y show ?thesis by (auto simp: check_tools_def)
      next
        case (Inr z)
        with A'(1) B(1) B'(2) C assms(1) c1 c2 c3 \<open>res1 = Inr x\<close> x Inr2 y sum show ?thesis
          by (auto simp: check_tools_def sound_def)
      qed
    qed
  qed
qed

lemma collect_loop_joined:
  "list_all (\<lambda>k. k < length tasks) (joined polls) \<Longrightarrow> collect_loop tasks polls = map (nth tasks) (joined polls)"
proof (induction polls rule: joined.induct)
  case (5 ks polls)
  then have "map (task_at tasks) ks = map (\<lambda>k. [tasks ! k]) ks"
    by (simp add: task_at_def list_all_iff)
  then have "concat (map (task_at tasks) ks) = concat (map (\<lambda>k. [tasks ! k]) ks)" by (rule arg_cong)
  then show ?case by (simp add: concat_map_singleton)
qed (auto simp: task_at_def)

lemma synthesise_interrupted_eq:
  "store (snd (synthesise_interrupted h uses collected approved r)) = store r
   \<and> fst (synthesise_interrupted h uses collected approved r)
     = map (\<lambda>c. (orig_idx uses (fst c), error_block (fst c) ''Interrupted by user''))
         (filter (\<lambda>c. fst c \<notin> collected) approved)"
  by (induction h uses collected approved r rule: synthesise_interrupted.induct)
    (simp_all add: Let_def case_prod_beta)

text \<open>Splitting a list without repetitions by a list of its positions.\<close>

lemma mset_split_positions:
  assumes "distinct (map f xs)" "distinct js" "list_all (\<lambda>k. k < length xs) js"
  shows "mset (map (nth xs) js) + mset (filter (\<lambda>x. f x \<notin> f ` set (map (nth xs) js)) xs) = mset xs"
proof -
  let ?J = "set (map (nth xs) js)"
  have xs: "distinct xs" "inj_on f (set xs)" using assms(1) by (simp_all add: distinct_map)
  have "inj_on (nth xs) (set js)"
    using xs(1) assms(3) by (intro inj_on_nth) (simp_all add: list_all_iff)
  then have "distinct (map (nth xs) js)" using assms(2) by (simp only: distinct_map simp_thms)
  moreover have "set (map (nth xs) js) = set (filter (\<lambda>x. f x \<in> f ` ?J) xs)"
  proof -
    have sub: "?J \<subseteq> set xs" using assms(3) by (auto simp: list_all_iff)
    have "x \<in> ?J" if x: "x \<in> set xs" and fx: "f x \<in> f ` ?J" for x
    proof -
      obtain y where "y \<in> ?J" "f x = f y" using fx by blast
      moreover from this sub have "x = y" using inj_onD[OF xs(2) _ x] by blast
      ultimately show ?thesis by simp
    qed
    with sub show ?thesis unfolding set_filter by blast
  qed
  ultimately have "mset (map (nth xs) js) = mset (filter (\<lambda>x. f x \<in> f ` ?J) xs)"
    using set_eq_iff_mset_eq_distinct[OF _ distinct_filter[OF xs(1)]] by blast
  moreover have "mset (filter p xs) + mset (filter (\<lambda>x. \<not> p x) xs) = mset xs" for p
    by (induction xs) simp_all
  ultimately show ?thesis by (simp only:)
qed

lemma task_id: "result_for (snd (task_result env uses c)) = fst c"
  by (simp add: task_result_def outcome_block_def split: sum.splits)

lemma execute_approved_accounts:
  assumes "execute_approved_tools h env approved uses r = (results, r')"
    and "set approved \<subseteq> set uses" "distinct (map fst approved)"
    and "each_once (length approved) (schedule env approved)"
  shows "store r' = store r \<and> mset (map fst results) = places uses approved \<and> list_all (fits uses) results"
proof -
  let ?js = "joined (schedule env approved)"
  have js: "distinct ?js" "list_all (\<lambda>k. k < length approved) ?js"
    using assms(4) by (auto simp: each_once_def)
  let ?done = "map (nth approved) ?js"
  have loop: "collect_loop (map (task_result env uses) approved) (schedule env approved)
      = map (task_result env uses) ?done"
    using js(2) by (subst collect_loop_joined) (auto simp: list_all_iff)
  have ids: "set (map (result_for \<circ> snd) (map (task_result env uses) ?done)) = fst ` set ?done"
    by (simp add: image_image task_id)
  obtain added where results: "results = map (task_result env uses) ?done @ added"
    and added: "synthesise_interrupted h uses (fst ` set ?done) approved r = (added, r')"
    using assms(1) unfolding execute_approved_tools_def collect_results_def Let_def loop ids
    by (auto split: prod.splits)
  have added_eq: "store r' = store r" "added = map (\<lambda>c. (orig_idx uses (fst c), error_block (fst c) ''Interrupted by user''))
       (filter (\<lambda>c. fst c \<notin> fst ` set ?done) approved)"
    using synthesise_interrupted_eq[of h uses "fst ` set ?done" approved r]
    unfolding added fst_conv snd_conv by blast+
  let ?rest = "filter (\<lambda>c. fst c \<notin> fst ` set ?done) approved"
  have split: "mset ?done + mset ?rest = mset approved"
    by (rule mset_split_positions[OF assms(3) js])
  have "mset (map fst results) = image_mset (\<lambda>c. orig_idx uses (fst c)) (mset ?done + mset ?rest)"
    by (simp add: results added_eq(2) task_result_def image_mset.compositionality comp_def)
  then have "mset (map fst results) = places uses approved" unfolding split by simp
  moreover have "list_all (fits uses) results"
  proof -
    have "set ?done \<subseteq> set uses" using js(2) assms(2) by (fastforce simp: list_all_iff)
    then have "\<forall>c \<in> set ?done. fits uses (task_result env uses c)" using fits_outcome by blast
    then have "list_all (fits uses) (map (task_result env uses) ?done)" by (simp add: list_all_iff)
    moreover have "list_all (fits uses) added"
      using assms(2) fits_error unfolding added_eq(2) list_all_iff set_map set_filter by blast
    ultimately show ?thesis by (simp only: results list_all_append)
  qed
  ultimately show ?thesis using added_eq(1) by simp
qed

text \<open>Results at all the places, sorted, answer the calls in their order.\<close>

lemma sorted_results_answer:
  assumes "mset (map fst results) = mset [0..<length uses]" "list_all (fits uses) results"
  shows "map (answers_id \<circ> snd) (sort_key fst results) = map (Some \<circ> fst) uses"
proof -
  let ?s = "sort_key fst results"
  have "mset (map fst ?s) = mset [0..<length uses]" using assms(1) by (metis mset_map mset_sort)
  moreover have "sorted (map fst ?s)" by simp
  ultimately have places: "map fst ?s = [0..<length uses]"
    by (metis sorted_upt properties_for_sort sort_upt)
  then have len: "length results = length uses" by (metis length_map length_sort length_upt minus_nat.diff_0)
  have "answers_id (snd (?s ! k)) = Some (fst (uses ! k))" if "k < length uses" for k
  proof -
    have "fst (?s ! k) = k" using places that len by (metis nth_map nth_upt add_0 length_sort)
    moreover have "fits uses (?s ! k)"
      using assms(2) that len by (metis list_all_iff nth_mem set_sort length_sort)
    ultimately show ?thesis by (auto simp: fits_def split: prod.splits)
  qed
  then show ?thesis by (intro nth_equalityI) (simp_all add: len)
qed

lemma push_results_store:
  "\<exists>i. store (push_results h blocks r)
     = push_tool_results (bpe h) (json_text h) \<lparr>id_opt = i, role = User, content = blocks\<rparr> (store r)"
proof -
  obtain msg r1 where p: "persist h \<lparr>id_opt = None, role = User, content = blocks\<rparr> r = (msg, r1)"
    by (rule prod.exhaust)
  have "store r1 = store r" "role msg = User" "content msg = blocks"
    using persist_keeps(1)[of h _ r] persist_message[of h "\<lparr>id_opt = None, role = User, content = blocks\<rparr>" r] p
    by (metis snd_conv, simp_all)
  then show ?thesis by (intro exI[of _ "id_opt msg"]) (cases msg, simp add: push_results_def p)
qed

text \<open>The state after a batch: one user message with a result for each call, in their order.\<close>

definition answered :: "'w host \<Rightarrow> tool_call list \<Rightarrow> context_store \<Rightarrow> context_store \<Rightarrow> bool" where
  "answered h uses s s' = (\<exists>i blocks.
     map answers_id blocks = map (Some \<circ> fst) uses
   \<and> s' = push_tool_results (bpe h) (json_text h) \<lparr>id_opt = i, role = User, content = blocks\<rparr> s)"

lemma finalize_answers:
  assumes "mset (map fst results) = mset [0..<length uses]" "list_all (fits uses) results"
  shows "answered h uses (store r) (store (snd (finalize_tool_results h results r)))"
proof -
  let ?blocks = "map snd (sort_key fst results)"
  have "map answers_id ?blocks = map (Some \<circ> fst) uses" using sorted_results_answer[OF assms] by simp
  moreover obtain i where "store (push_results h ?blocks r)
      = push_tool_results (bpe h) (json_text h) \<lparr>id_opt = i, role = User, content = ?blocks\<rparr> (store r)"
    using push_results_store by blast
  ultimately show ?thesis unfolding answered_def finalize_tool_results_def Let_def snd_conv by blast
qed

lemma emit_interrupted_all_store: "store (snd (emit_interrupted_all h calls r)) = store r"
proof (induction h calls r rule: emit_interrupted_all.induct)
  case (2 h i name input calls r)
  then show ?case
    by (cases rule: emit_cases[of h "Tool_result_event i name ''Interrupted by user'' True" r]) auto
qed simp

lemma emit_all_interrupted_answers:
  "case emit_all_interrupted h uses r of
     (Inl e, r') \<Rightarrow> store r' = store r
   | (Inr c, r') \<Rightarrow> answered h uses (store r) (store r')"
proof -
  obtain res r1 where e: "emit_interrupted_all h uses r = (res, r1)" by (rule prod.exhaust)
  then have r1: "store r1 = store r" using emit_interrupted_all_store[of h uses r] by simp
  let ?blocks = "map (\<lambda>c. error_block (fst c) ''Interrupted by user'') uses"
  have "map answers_id ?blocks = map (Some \<circ> fst) uses" by (simp add: error_block_def)
  then have "answered h uses (store r) (store (push_results h ?blocks r1))"
    using push_results_store[of h ?blocks r1] r1 unfolding answered_def by metis
  with r1 show ?thesis by (cases res) (simp_all add: emit_all_interrupted_def e)
qed

text \<open>
  C1. Every tool call gets exactly one result. Whatever is cancelled, denied, lost or finished
  first, when the model's calls have distinct identifiers a batch that returns has added one user
  message to the conversation that holds one tool result for each call, in the order of the calls.
  A batch fails only when an event cannot be sent, and then the conversation is unchanged.
\<close>

theorem every_call_answered_once:
  assumes "distinct (map fst uses)" "\<forall>approved. each_once (length approved) (schedule env approved)"
  shows "case execute_tools h env uses r of
      (Inl e, r') \<Rightarrow> store r' = store r
    | (Inr c, r') \<Rightarrow> answered h uses (store r) (store r')"
proof (cases "precancelled env")
  case True
  then show ?thesis using emit_all_interrupted_answers[where h = h and uses = uses and r = r] by (simp add: execute_tools_def)
next
  case False
  obtain res1 r1 where c1: "intercept h env 0 uses [] [] r = (res1, r1)" by (rule prod.exhaust)
  have "sound uses (uses @ []) []" by (simp add: sound_def)
  then have A: "store r1 = store r" "\<And>got rest. res1 = Inr (got, rest) \<Longrightarrow>
      mset (map fst got) + places uses rest = places uses uses \<and> sound uses rest got"
    using intercept_accounts[OF c1, of uses] places_uses[OF assms(1)] by auto
  show ?thesis
  proof (cases res1)
    case (Inl e)
    with False c1 A show ?thesis by (simp add: execute_tools_def intercept_special_tools_def)
  next
    case (Inr x)
    obtain got rest where x: "x = (got, rest)" by (rule prod.exhaust)
    with A Inr have A': "mset (map fst got) + places uses rest = places uses uses" "sound uses rest got" by auto
    obtain res2 r2 where c2: "check_tools h env rest uses r1 = (res2, r2)" by (rule prod.exhaust)
    have B: "store r2 = store r1" "\<And>a d. res2 = Inr (a, d) \<Longrightarrow>
        mset (map fst d) + places uses a = places uses rest \<and> sound uses a d"
      using check_tools_accounts[OF c2] A'(2) by (auto simp: sound_def)
    show ?thesis
    proof (cases res2)
      case (Inl e)
      with False c1 c2 A B Inr x show ?thesis by (simp add: execute_tools_def intercept_special_tools_def)
    next
      case Inr2: (Inr y)
      obtain a d where y: "y = (a, d)" by (rule prod.exhaust)
      with B Inr2 have B': "mset (map fst d) + places uses a = places uses rest" "sound uses a d" by auto
      have all: "mset (map fst (got @ d)) + places uses a = mset [0..<length uses]"
        using A'(1) B'(1) places_uses[OF assms(1)] by (simp add: add.assoc)
      have fit: "list_all (fits uses) (got @ d)" using A'(2) B'(2) by (simp add: sound_def)
      show ?thesis
      proof (cases "a = []")
        case True
        then have "answered h uses (store r2) (store (snd (finalize_tool_results h (got @ d) r2)))"
          using all fit by (intro finalize_answers) simp_all
        with True False c1 c2 A(1) B(1) Inr x Inr2 y show ?thesis
          by (auto simp: execute_tools_def intercept_special_tools_def split: prod.splits)
      next
        case ne: False
        obtain res3 r3 where c3: "(if 3 \<le> length a then emit h (Tool_batch_start (map fst a)) r2 else (Inr (), r2)) = (res3, r3)"
          by (rule prod.exhaust)
        then have r3: "store r3 = store r2" by (auto simp: emit_def split: if_splits)
        obtain ran r4 where c4: "execute_approved_tools h env a uses r3 = (ran, r4)" by (rule prod.exhaust)
        have ids: "distinct (map fst a)"
        proof -
          have "mset (map fst (got @ d) @ map (\<lambda>c. orig_idx uses (fst c)) a) = mset [0..<length uses]"
            using all by (simp add: add.assoc)
          then have "distinct (map fst (got @ d) @ map (\<lambda>c. orig_idx uses (fst c)) a)"
            using mset_eq_imp_distinct_iff distinct_upt by blast
          then have "distinct (map (\<lambda>c. orig_idx uses (fst c)) a)" by simp
          then show ?thesis by (simp add: distinct_map inj_on_def)
        qed
        have C: "store r4 = store r3" "mset (map fst ran) = places uses a" "list_all (fits uses) ran"
          using execute_approved_accounts[OF c4 _ ids] assms(2) B'(2)
          by (auto simp: sound_def)
        have "answered h uses (store r4) (store (snd (finalize_tool_results h (got @ d @ ran) r4)))"
          using all fit C by (intro finalize_answers) (simp_all add: add.assoc)
        with ne False c1 c2 c3 c4 A(1) B(1) C(1) r3 Inr x Inr2 y show ?thesis
          by (cases res3) (auto simp: execute_tools_def intercept_special_tools_def split: prod.splits)
      qed
    qed
  qed
qed

definition calm_env :: batch_env where
  "calm_env =
     \<lparr>precancelled = False, check_polls = 9, user_answers = (\<lambda>_. []), human = (\<lambda>_ _. Decide_deny),
      provider_missing = None, verdicts = (\<lambda>_ _. None), after_tasks = (\<lambda>_ c. c),
      outcomes = (\<lambda>_. Inl ''no tool''), schedule = (\<lambda>cs. if cs = [] then [] else [Joined 0, Cancel_seen])\<rparr>"

theorem every_call_answered_once_witness:
  "case execute_tools small_host calm_env [(''a'', ''Bash'', JNull), (''b'', ''Bash'', JNull)]
      (start_runner (store_new (calculate length 100 [] 0 0))) of
      (Inl e, r') \<Rightarrow> store r' = store_new (calculate length 100 [] 0 0)
    | (Inr c, r') \<Rightarrow> answered small_host [(''a'', ''Bash'', JNull), (''b'', ''Bash'', JNull)]
        (store_new (calculate length 100 [] 0 0)) (store r')"
proof -
  let ?uses = "[(''a'', ''Bash'', JNull), (''b'', ''Bash'', JNull)]"
  have ids: "distinct (map fst ?uses)" by simp
  have "\<forall>approved. each_once (length approved) (schedule calm_env approved)"
    by (simp add: calm_env_def each_once_def)
  from every_call_answered_once[OF ids this, where h = small_host
        and r = "start_runner (store_new (calculate length 100 [] 0 0))"]
  show ?thesis unfolding store_start_runner .
qed

subsection \<open>Nothing runs unchecked\<close>

text \<open>What a call that is executed has passed.\<close>

definition permitted :: "'w host \<Rightarrow> batch_env \<Rightarrow> tool_call \<Rightarrow> bool" where
  "permitted h env c =
     (case c of (i, name, input) \<Rightarrow>
        precheck_reason h name input = None
      \<and> (if fast_decision h name = Decide_ask
         then (\<exists>k. human env k c = Decide_allow)
            \<or> (permission_mode h = Auto \<and> (\<exists>k v. verdicts env k c = Some v \<and> verdict v \<noteq> Decide_deny))
         else True))"

definition prechecked :: "'w host \<Rightarrow> tool_call \<Rightarrow> bool" where
  "prechecked h c = (case c of (i, name, input) \<Rightarrow> precheck_reason h name input = None)"

lemma check_loop_permits:
  assumes "check_loop h uses polls calls (approved, denied, pending) r = (Inr ((a, d, pend), todo), r')"
    and "list_all (permitted h env) approved" and "list_all (prechecked h) (map snd pending)"
  shows "list_all (permitted h env) a \<and> list_all (prechecked h) (map snd pend)"
  using assms
proof (induction h uses polls calls "(approved, denied, pending)" r
    arbitrary: approved denied pending r' rule: check_loop.induct)
  case (3 h uses polls i name input calls approved denied pending r)
  show ?case
  proof (cases "precheck_reason h name input")
    case (Some why)
    show ?thesis
      by (cases rule: emit_tool_error_cases[of h i name "''Sandbox: '' @ why" r])
        (use Some "3.prems" "3.hyps"(3)[OF Some] in auto)
  next
    case None
    then show ?thesis
      using "3.prems" "3.hyps"(1,2)[OF None] by (auto simp: permitted_def prechecked_def split: if_splits)
  qed
qed auto

lemma ask_human_permits:
  assumes "ask_human_sequential h env k pending (approved, denied) r = (Inr (a, d), r')"
    and "list_all (permitted h env) approved" and "list_all (prechecked h) (map snd pending)"
  shows "list_all (permitted h env) a"
  using assms
proof (induction h env k pending "(approved, denied)" r arbitrary: approved denied rule: ask_human_sequential.induct)
  case (2 h env k idx i name input pending approved denied r)
  show ?case
  proof (cases "human env k (i, name, input) = Decide_allow")
    case True
    then have "permitted h env (i, name, input)" using 2(5) by (auto simp: permitted_def prechecked_def)
    then show ?thesis using 2(1)[OF True refl] 2(3-5) True by (auto simp: Let_def)
  next
    case False
    show ?thesis
      by (cases rule: emit_tool_error_cases[of h i name "''Permission denied''" r])
        (use 2(2)[OF False] 2(3-5) False in auto)
  qed
qed simp

lemma deny_all_approves_none:
  "deny_all h why pending (approved, denied) r = (Inr (a, d), r') \<Longrightarrow> a = approved"
proof (induction h why pending "(approved, denied)" r arbitrary: approved denied rule: deny_all.induct)
  case (2 h why idx i name input pending approved denied r)
  show ?case
    by (cases rule: emit_tool_error_cases[of h i name why r]) (use 2 in auto)
qed simp

lemma collect_verdicts_permits:
  assumes "collect_verdicts h env k pending (approved, denied) r = (Inr (a, d), r')"
    and "list_all (permitted h env) approved" and "list_all (prechecked h) (map snd pending)"
    and "permission_mode h = Auto"
  shows "list_all (permitted h env) a"
  using assms
proof (induction h env k pending "(approved, denied)" r arbitrary: approved denied rule: collect_verdicts.induct)
  case (2 h env k idx i name input pending approved denied r)
  let ?v = "case verdicts env k (i, name, input) of Some v \<Rightarrow> v | None \<Rightarrow> panicked_result"
  let ?r = "emit_quiet h (Auto_mode_decision name (verdict ?v) (reason ?v) (duration_ms ?v)) r"
  show ?case
  proof (cases "verdict ?v = Decide_deny")
    case True
    show ?thesis
      by (cases rule: emit_tool_error_cases[of h i name "''Auto-denied: '' @ reason ?v" ?r])
        (use 2(1)[OF refl refl True] 2(3-6) True in \<open>auto simp: Let_def\<close>)
  next
    case False
    then obtain v where "verdicts env k (i, name, input) = Some v" "verdict v \<noteq> Decide_deny"
      by (auto simp: panicked_result_def split: option.splits)
    then have "permitted h env (i, name, input)"
      using 2(5,6) by (auto simp: permitted_def prechecked_def)
    then show ?thesis using 2(2)[OF refl refl False] 2(3-6) False by (auto simp: Let_def)
  qed
qed simp



subsection \<open>The plan mode\<close>

definition in_mode :: "agent_mode \<Rightarrow> ('a \<times> runner) \<Rightarrow> 'a \<times> runner" where
  "in_mode m x = (fst x, (snd x)\<lparr>mode := m\<rparr>)"

lemma and_then_in_mode:
  assumes "\<And>a s. k a (s\<lparr>mode := m\<rparr>) = in_mode m (k a s)"
  shows "and_then (in_mode m x) k = in_mode m (and_then x k)"
  using assms by (cases x; cases "fst x") (auto simp: in_mode_def and_then_def)

lemma emit_in_mode: "emit h ev (r\<lparr>mode := m\<rparr>) = in_mode m (emit h ev r)"
  by (simp add: emit_def in_mode_def)

lemma emit_tool_error_in_mode:
  "emit_tool_error h i n t (r\<lparr>mode := m\<rparr>) = in_mode m (emit_tool_error h i n t r)"
  by (simp add: emit_tool_error_def emit_in_mode)

lemma emit_quiet_in_mode: "emit_quiet h ev (r\<lparr>mode := m\<rparr>) = (emit_quiet h ev r)\<lparr>mode := m\<rparr>"
  by (simp add: emit_quiet_def emit_in_mode in_mode_def)

lemma return_in_mode: "in_mode m (x, r) = (x, r\<lparr>mode := m\<rparr>)"
  by (simp add: in_mode_def)

lemmas mode_simps = emit_tool_error_in_mode emit_quiet_in_mode and_then_in_mode return_in_mode

lemma check_loop_in_mode:
  "check_loop h uses polls calls acc (r\<lparr>mode := m\<rparr>) = in_mode m (check_loop h uses polls calls acc r)"
  by (induction h uses polls calls acc r rule: check_loop.induct)
    (auto simp: mode_simps split: option.splits)

lemma ask_human_in_mode:
  "ask_human_sequential h env k pending acc (r\<lparr>mode := m\<rparr>) = in_mode m (ask_human_sequential h env k pending acc r)"
proof (induction h env k pending acc r rule: ask_human_sequential.induct)
  case (2 h env k idx i name input pending approved denied r)
  have swap: "r\<lparr>mode := m, classifier := c\<rparr> = r\<lparr>classifier := c, mode := m\<rparr>" for c by simp
  show ?case
    using 2 by (auto simp: mode_simps Let_def swap split: option.splits)
qed (simp add: mode_simps)

lemma deny_all_in_mode:
  "deny_all h why pending acc (r\<lparr>mode := m\<rparr>) = in_mode m (deny_all h why pending acc r)"
  by (induction h why pending acc r rule: deny_all.induct) (simp_all add: mode_simps)

lemma collect_verdicts_in_mode:
  "collect_verdicts h env k pending acc (r\<lparr>mode := m\<rparr>) = in_mode m (collect_verdicts h env k pending acc r)"
  by (induction h env k pending acc r rule: collect_verdicts.induct) (simp_all add: mode_simps Let_def)

lemma resolve_pending_in_mode:
  "resolve_pending h env pending acc (r\<lparr>mode := m\<rparr>) = in_mode m (resolve_pending h env pending acc r)"
proof -
  have swap: "r\<lparr>mode := m, classifier := c\<rparr> = r\<lparr>classifier := c, mode := m\<rparr>" for c by simp
  show ?thesis
    by (auto simp: resolve_pending_def classify_parallel_def ask_human_in_mode deny_all_in_mode
        collect_verdicts_in_mode swap return_in_mode split: option.splits)
qed

lemma interrupt_rest_in_mode:
  "interrupt_rest h uses calls denied (r\<lparr>mode := m\<rparr>) = in_mode m (interrupt_rest h uses calls denied r)"
  by (induction h uses calls denied r rule: interrupt_rest.induct) (simp_all add: mode_simps)

text \<open>
  The plan mode is not enforced. Which calls are approved and which are denied, with which
  results, is the same in every mode: after EnterPlanMode has answered that only read-only tools
  are allowed, exactly the calls are executed that would have been executed before.
\<close>

theorem plan_mode_not_enforced:
  "check_tools h env remaining uses (r\<lparr>mode := Plan\<rparr>)
     = (fst (check_tools h env remaining uses r), (snd (check_tools h env remaining uses r))\<lparr>mode := Plan\<rparr>)"
  unfolding check_tools_def check_loop_in_mode
  by (subst and_then_in_mode)
    (auto simp: resolve_pending_in_mode interrupt_rest_in_mode mode_simps in_mode_def
      and_then_in_mode[unfolded in_mode_def] split: prod.splits)

end
