(* ===== verification/Provider_Api.thy ===== *)
theory Provider_Api
  imports Message Failure
begin

section \<open>The interface of the providers\<close>

text \<open>
  The crate \<open>loopal-provider-api\<close>: what a provider's stream is made of, the metadata of a model,
  the thinking configuration, and the router that names a model for each kind of task. A stream is
  the list of the items it yields.
\<close>

subsection \<open>Streams\<close>

datatype stop_reason = EndTurn | MaxTokens | PauseTurn

datatype llm_chunk =
    Chunk_text string
  | Chunk_thinking string
  | Chunk_signature string
  | Chunk_tool_use string string json
  | Chunk_usage u32 u32 u32 u32 u32
  | Chunk_done stop_reason
  | Chunk_server_use string string json
  | Chunk_server_result string string json

subsection \<open>Models\<close>

datatype speed_tier = Speed_fast | Speed_medium | Speed_slow

datatype cost_tier = Cost_free | Cost_low | Cost_medium | Cost_high

datatype quality_tier = Quality_basic | Quality_standard | Quality_premium

datatype thinking_capability =
  No_thinking | BudgetRequired | Adaptive | ReasoningEffort | ThinkingBudget

record model_info =
  model_id :: string
  model_provider :: string
  display_name :: string
  model_window :: u32
  max_output_tokens :: u32
  model_thinking :: thinking_capability
  speed :: speed_tier
  cost :: cost_tier
  quality :: quality_tier
  supports_tools :: bool
  supports_vision :: bool

record model_override =
  ov_provider :: "string option"
  ov_display_name :: "string option"
  ov_window :: "u32 option"
  ov_max_output :: "u32 option"
  ov_speed :: "speed_tier option"
  ov_cost :: "cost_tier option"
  ov_quality :: "quality_tier option"
  ov_tools :: "bool option"
  ov_vision :: "bool option"
  ov_thinking :: "thinking_capability option"

datatype effort_level = Effort_low | Effort_medium | Effort_high | Effort_max

datatype thinking_config =
  Thinking_auto | Thinking_disabled | Thinking_effort effort_level | Thinking_tokens u32

subsection \<open>The router\<close>

datatype task_type = Default_task | Summarization | Classification

record model_router =
  default_model :: string
  overrides :: "task_type \<Rightarrow> string option"

definition router_new :: "string \<Rightarrow> model_router" where
  "router_new m = \<lparr>default_model = m, overrides = (\<lambda>_. None)\<rparr>"

definition router_from_parts :: "string \<Rightarrow> (task_type \<Rightarrow> string option) \<Rightarrow> model_router" where
  "router_from_parts m routing = \<lparr>default_model = m, overrides = routing\<rparr>"

definition resolve_task :: "model_router \<Rightarrow> task_type \<Rightarrow> string" where
  "resolve_task r t = (case overrides r t of Some m \<Rightarrow> m | None \<Rightarrow> default_model r)"

definition set_default :: "string \<Rightarrow> model_router \<Rightarrow> model_router" where
  "set_default m r = r\<lparr>overrides := (overrides r)(Default_task := None), default_model := m\<rparr>"

text \<open>A switch of the model reaches the conversation, and no task that has a model of its own.\<close>

lemma resolve_set_default:
  "resolve_task (set_default m r) Default_task = m"
  "t \<noteq> Default_task \<Longrightarrow> overrides r t = Some own \<Longrightarrow> resolve_task (set_default m r) t = own"
  by (simp_all add: resolve_task_def set_default_def)

end
