(* ===== verification/Llm_Call.thy ===== *)
theory Llm_Call
  imports Runner Provider_Api
begin

section \<open>Calling the model\<close>

text \<open>
  \<open>loopal-runtime/src/agent_loop\<close>: the retry loop of \<open>llm_retry.rs\<close>, the reading of the stream in
  \<open>llm.rs\<close> with the result record of \<open>llm_result.rs\<close>, the recording of the answer in
  \<open>llm_record.rs\<close>, and the user messages of \<open>message_build.rs\<close> and \<open>tools_inject.rs\<close>. What the
  provider answers and when the turn is cancelled are arguments. The lemmas bound the retries and
  their waits, and give the result of reading a stream and of recording it in closed form.
\<close>

subsection \<open>Retries\<close>

definition MAX_RETRIES :: nat where "MAX_RETRIES = 6"
definition BASE_WAIT_MS :: u64 where "BASE_WAIT_MS = 2000"

text \<open>
  One round of the loop: cancellation is seen before the call, or during it; or the provider
  answers, and \<open>True\<close> says that a wait after it is cancelled.
\<close>

datatype 's attempt =
    Cancelled_before
  | Cancelled_during
  | Answered "loopal_failure + 's" bool

text \<open>The product of \<open>u64\<close> wraps; \<open>n\<close> is the number of the retry, from 1.\<close>

definition retry_wait :: "loopal_failure \<Rightarrow> nat \<Rightarrow> u64" where
  "retry_wait e n =
     (case retry_after_ms e of Some ms \<Rightarrow> ms | None \<Rightarrow> BASE_WAIT_MS) * push_bit (n - 1) 1"

definition clear_retry ::
  "'w host \<Rightarrow> nat \<Rightarrow> 'a \<Rightarrow> runner \<Rightarrow> (loopal_failure + 'a) \<times> runner" where
  "clear_retry h retry_count v r =
     (if 0 < retry_count then and_then (emit h Retry_cleared r) (\<lambda>_ r. (Inr v, r)) else (Inr v, r))"

text \<open>
  \<open>attempts k\<close> is the k-th round; the empty stream that stands for a cancelled call is \<open>None\<close>.
\<close>

function retry_loop ::
  "'w host \<Rightarrow> (nat \<Rightarrow> 's attempt) \<Rightarrow> nat \<Rightarrow> runner \<Rightarrow> (loopal_failure + 's option) \<times> runner" where
  "retry_loop h attempts retry_count r =
     (case attempts retry_count of
        Cancelled_before \<Rightarrow> (Inr None, r)
      | Cancelled_during \<Rightarrow> clear_retry h retry_count None r
      | Answered (Inr s) _ \<Rightarrow> clear_retry h retry_count (Some s) r
      | Answered (Inl e) wait_cancelled \<Rightarrow>
          if is_retryable e \<and> retry_count < MAX_RETRIES then
            and_then (emit h (Retry_error (failure_text e) (retry_wait e (retry_count + 1))
                (retry_count + 1) MAX_RETRIES) r) (\<lambda>_ r.
              if wait_cancelled then and_then (emit h Retry_cleared r) (\<lambda>_ r. (Inr None, r))
              else retry_loop h attempts (retry_count + 1) r)
          else (Inl e, r))"
  by pat_completeness auto
termination
  by (relation "measure (\<lambda>(h, attempts, n, r). MAX_RETRIES - n)") auto

declare retry_loop.simps [simp del]

definition retry_stream_chat ::
  "'w host \<Rightarrow> (nat \<Rightarrow> 's attempt) \<Rightarrow> runner \<Rightarrow> (loopal_failure + 's option) \<times> runner" where
  "retry_stream_chat h attempts r = retry_loop h attempts 0 r"

subsection \<open>Reading the stream\<close>

record llm_result =
  assistant_text :: string
  tool_uses :: "tool_call list"
  stream_error :: bool
  stop_reason :: stop_reason
  thinking_text :: string
  thinking_signature :: "string option"
  thinking_tokens :: u32
  server_blocks :: "content_block list"

definition llm_result_default :: llm_result where
  "llm_result_default =
     \<lparr>assistant_text = [], tool_uses = [], stream_error = False, stop_reason = EndTurn,
      thinking_text = [], thinking_signature = None, thinking_tokens = 0, server_blocks = []\<rparr>"

definition add_usage :: "u32 \<Rightarrow> u32 \<Rightarrow> u32 \<Rightarrow> u32 \<Rightarrow> u32 \<Rightarrow> token_accumulator \<Rightarrow> token_accumulator" where
  "add_usage inp out creation cached thinking t =
     \<lparr>input_tokens = input_tokens t + inp, output_tokens = output_tokens t + out,
      cache_creation = cache_creation t + creation, cache_read = cache_read t + cached,
      thinking_total = thinking_total t + thinking\<rparr>"

text \<open>The boolean says whether reading goes on.\<close>

fun handle_chunk ::
  "'w host \<Rightarrow> llm_chunk \<Rightarrow> llm_result \<Rightarrow> runner \<Rightarrow> (loopal_failure + bool \<times> llm_result) \<times> runner" where
  "handle_chunk h (Chunk_text t) res r =
     and_then (emit h (Stream_event t) r) (\<lambda>_ r.
       (Inr (True, res\<lparr>assistant_text := assistant_text res @ t\<rparr>), r))"
| "handle_chunk h (Chunk_thinking t) res r =
     and_then (emit h (Thinking_stream t) r) (\<lambda>_ r.
       (Inr (True, res\<lparr>thinking_text := thinking_text res @ t\<rparr>), r))"
| "handle_chunk h (Chunk_signature sg) res r = (Inr (True, res\<lparr>thinking_signature := Some sg\<rparr>), r)"
| "handle_chunk h (Chunk_tool_use i n inp) res r =
     and_then (emit h (Tool_call_event i n inp) r) (\<lambda>_ r.
       (Inr (True, res\<lparr>tool_uses := tool_uses res @ [(i, n, inp)]\<rparr>), r))"
| "handle_chunk h (Chunk_server_use i n inp) res r =
     and_then (emit h (Server_tool_use_event i n inp) r) (\<lambda>_ r.
       (Inr (True, res\<lparr>server_blocks := server_blocks res @ [ServerToolUse i n inp]\<rparr>), r))"
| "handle_chunk h (Chunk_server_result bt i c) res r =
     and_then (emit h (Server_tool_result_event i c) r) (\<lambda>_ r.
       (Inr (True, res\<lparr>server_blocks := server_blocks res @ [ServerToolResult bt i c]\<rparr>), r))"
| "handle_chunk h (Chunk_usage inp out creation cached thinking) res r =
     (let r = r\<lparr>tokens := add_usage inp out creation cached thinking (tokens r)\<rparr>
      in and_then (emit h (Token_usage inp out (context_window (budget (store r))) creation cached thinking) r)
           (\<lambda>_ r. (Inr (True, res\<lparr>thinking_tokens := thinking_tokens res + thinking\<rparr>), r)))"
| "handle_chunk h (Chunk_done stop) res r = (Inr (False, res\<lparr>stop_reason := stop\<rparr>), r)"

definition handle_stream_chunk ::
  "'w host \<Rightarrow> loopal_failure + llm_chunk \<Rightarrow> llm_result \<Rightarrow> runner
     \<Rightarrow> (loopal_failure + bool \<times> llm_result) \<times> runner" where
  "handle_stream_chunk h chunk res r =
     (case chunk of
        Inr c \<Rightarrow> handle_chunk h c res r
      | Inl e \<Rightarrow> and_then (emit h (Error_event (failure_text e)) r) (\<lambda>_ r.
          (Inr (False, res\<lparr>stream_error := True\<rparr>), r)))"

text \<open>What the select of the reading loop yields: an item of the stream, or cancellation.\<close>

datatype stream_item = Item "loopal_failure + llm_chunk" | Cancelled_stream

fun read_loop ::
  "'w host \<Rightarrow> stream_item list \<Rightarrow> llm_result \<Rightarrow> runner \<Rightarrow> (loopal_failure + llm_result) \<times> runner" where
  "read_loop h [] res r = (Inr res, r)"
| "read_loop h (Cancelled_stream # _) res r = (Inr (res\<lparr>stream_error := True\<rparr>), r)"
| "read_loop h (Item chunk # items) res r =
     and_then (handle_stream_chunk h chunk res r) (\<lambda>(continue, res) r.
       if continue then read_loop h items res r else (Inr res, r))"

definition emit_thinking_complete ::
  "'w host \<Rightarrow> llm_result \<Rightarrow> runner \<Rightarrow> (loopal_failure + unit) \<times> runner" where
  "emit_thinking_complete h res r =
     (if thinking_text res = [] \<and> thinking_tokens res = 0 then (Inr (), r)
      else emit h (Thinking_complete
             (if thinking_text res = [] then thinking_tokens res
              else max (thinking_tokens res) (len_u32 (thinking_text res) div 4))) r)"

text \<open>
  \<open>no_provider\<close>: the error when no provider serves the model. \<open>cancelled\<close>: the turn is cancelled
  before the call.
\<close>

record llm_env =
  cancelled :: bool
  no_provider :: "loopal_failure option"
  attempts :: "nat \<Rightarrow> stream_item list attempt"

definition stream_llm_with ::
  "'w host \<Rightarrow> llm_env \<Rightarrow> runner \<Rightarrow> (loopal_failure + llm_result) \<times> runner" where
  "stream_llm_with h env r =
     (if cancelled env then (Inr (llm_result_default\<lparr>stream_error := True\<rparr>), r)
      else case no_provider env of
             Some e \<Rightarrow> (Inl e, r)
           | None \<Rightarrow>
               and_then (retry_stream_chat h (attempts env) r) (\<lambda>items r.
               and_then (read_loop h (case items of Some is \<Rightarrow> is | None \<Rightarrow> []) llm_result_default r) (\<lambda>res r.
               and_then (emit_thinking_complete h res r) (\<lambda>_ r. (Inr res, r)))))"

subsection \<open>Recording the answer\<close>

definition assistant_blocks ::
  "string \<Rightarrow> tool_call list \<Rightarrow> string \<Rightarrow> string option \<Rightarrow> content_block list \<Rightarrow> content_block list" where
  "assistant_blocks txt uses thinking signature server =
     (if thinking \<noteq> [] \<and> signature \<noteq> None then [Thinking thinking signature] else [])
     @ server
     @ (if txt \<noteq> [] then [Text txt] else [])
     @ map (\<lambda>(i, n, inp). ToolUse i n inp) uses"

definition record_assistant_message ::
  "'w host \<Rightarrow> string \<Rightarrow> tool_call list \<Rightarrow> string \<Rightarrow> string option \<Rightarrow> content_block list \<Rightarrow> runner \<Rightarrow> runner" where
  "record_assistant_message h txt uses thinking signature server r =
     (let blocks = assistant_blocks txt uses thinking signature server
      in if blocks = [] then r
         else case persist h \<lparr>id_opt = None, role = Assistant, content = blocks\<rparr> r of
                (msg, r) \<Rightarrow> r\<lparr>store := push_assistant (bpe h) (json_text h) msg (store r)\<rparr>)"

subsection \<open>Messages of the user\<close>

definition source_text :: "message_source \<Rightarrow> string \<Rightarrow> string" where
  "source_text src t =
     (case src of
        Human \<Rightarrow> t
      | Agent n \<Rightarrow> ''[from: '' @ n @ ''] '' @ t
      | Channel ch n \<Rightarrow> ''[from: #'' @ ch @ ''/'' @ n @ ''] '' @ t
      | Scheduled \<Rightarrow> ''[scheduled] '' @ t)"

definition build_user_message :: "envelope \<Rightarrow> message" where
  "build_user_message e =
     (let txt = source_text (env_source e) (user_text (env_content e))
      in \<lparr>id_opt = None, role = User,
          content = (if txt \<noteq> [] then [Text txt] else [])
            @ map (\<lambda>img. Image_block \<lparr>source_type = ''base64'', media_type = attached_type img,
                                      data = attached_data img\<rparr>) (user_images (env_content e))\<rparr>)"

definition inject_message :: "'w host \<Rightarrow> envelope \<Rightarrow> runner \<Rightarrow> runner" where
  "inject_message h e r =
     (case persist h (build_user_message e) r of
        (msg, r) \<Rightarrow> r\<lparr>store := push_user (bpe h) (json_text h) msg (store r)\<rparr>)"

definition inject_pending_messages :: "'w host \<Rightarrow> envelope list \<Rightarrow> runner \<Rightarrow> runner" where
  "inject_pending_messages h pending r = run_ops (inject_message h) pending r"

subsection \<open>Properties of the retries\<close>

lemma retry_loop_agrees:
  "(\<And>k. n \<le> k \<Longrightarrow> k \<le> MAX_RETRIES \<Longrightarrow> a k = b k) \<Longrightarrow> n \<le> MAX_RETRIES \<Longrightarrow>
     retry_loop h a n r = retry_loop h b n r"
proof (induction h a n r rule: retry_loop.induct)
  case (1 h a n r)
  show ?case
  proof (cases "\<exists>e. a n = Answered (Inl e) False \<and> is_retryable e \<and> n < MAX_RETRIES")
    case True
    then obtain e where e: "a n = Answered (Inl e) False" "is_retryable e" "n < MAX_RETRIES" by blast
    have "retry_loop h a (n + 1) r' = retry_loop h b (n + 1) r'" for r'
      using "1.IH"[OF e(1) refl] e "1.prems"(1) by auto
    with e "1.prems" show ?thesis by (subst (1 2) retry_loop.simps) simp
  next
    case False
    then show ?thesis
      using "1.prems"
      by (subst (1 2) retry_loop.simps) (auto split: attempt.splits sum.splits)
  qed
qed

text \<open>
  C25. The model is called at most seven times: what a call answers after all retries depends on the
  first seven rounds only, and the wait before a retry is at most 64 seconds unless the provider
  names one.
\<close>

theorem retry_calls_bounded:
  assumes "\<And>k. k \<le> 6 \<Longrightarrow> a k = b k" and "retry_after_ms e = None" and "1 \<le> n" and "n \<le> 6"
  shows "retry_stream_chat h a r = retry_stream_chat h b r
    \<and> unat (retry_wait e n) = 2000 * 2 ^ (n - 1) \<and> unat (retry_wait e n) \<le> 64000"
proof -
  have "retry_stream_chat h a r = retry_stream_chat h b r"
    unfolding retry_stream_chat_def
    by (rule retry_loop_agrees) (use assms(1) in \<open>auto simp: MAX_RETRIES_def\<close>)
  moreover have "n \<in> {1, 2, 3, 4, 5, 6}" using assms(3,4) by auto
  then have "unat (retry_wait e n) = 2000 * 2 ^ (n - 1) \<and> unat (retry_wait e n) \<le> 64000"
    using assms(2) by (auto simp: retry_wait_def BASE_WAIT_MS_def)
  ultimately show ?thesis by simp
qed

theorem retry_calls_bounded_witness:
  "retry_stream_chat small_host (\<lambda>k. if k \<le> 6 then Cancelled_during else Answered (Inr ()) False)
       (start_runner (store_new (calculate length 9 [] 0 0)))
     = retry_stream_chat small_host (\<lambda>_. Cancelled_during) (start_runner (store_new (calculate length 9 [] 0 0)))
   \<and> unat (retry_wait (Provider (Api 529 [])) 6) = 64000"
proof -
  have "retry_after_ms (Provider (Api 529 [])) = None" by simp
  from retry_calls_bounded[where a = "\<lambda>k. if k \<le> 6 then Cancelled_during else Answered (Inr ()) False"
      and b = "\<lambda>_. Cancelled_during" and n = 6 and h = small_host
      and r = "start_runner (store_new (calculate length 9 [] 0 0))", OF _ this]
  show ?thesis by simp
qed

text \<open>The events of \<open>m\<close> retries.\<close>

definition retry_events :: "(nat \<Rightarrow> loopal_failure) \<Rightarrow> nat \<Rightarrow> agent_event list" where
  "retry_events e m =
     map (\<lambda>k. Retry_error (failure_text (e k)) (retry_wait (e k) (k + 1)) (k + 1) MAX_RETRIES) [0..<m]"

lemma retry_loop_steps:
  assumes "\<And>k. k < m \<Longrightarrow> a k = Answered (Inl (e k)) False \<and> is_retryable (e k)" "m \<le> MAX_RETRIES"
    and "\<And>n. delivers h n"
  shows "retry_loop h a 0 r = retry_loop h a m (r\<lparr>events := events r @ retry_events e m\<rparr>)"
  using assms(1,2)
proof (induction m)
  case 0
  then show ?case by (simp add: retry_events_def)
next
  case (Suc m)
  then have "retry_loop h a 0 r = retry_loop h a m (r\<lparr>events := events r @ retry_events e m\<rparr>)" by simp
  also have "\<dots> = retry_loop h a (Suc m) (r\<lparr>events := events r @ retry_events e (Suc m)\<rparr>)"
    using Suc.prems(1)[of m] Suc.prems(2) assms(3)
    by (subst retry_loop.simps) (simp add: emit_def retry_events_def)
  finally show ?case .
qed

text \<open>
  What the retries come to. When the first \<open>m\<close> answers are retryable errors and waits are not
  cancelled, each is announced with its wait, which doubles from one to the next; the next answer
  decides: a stream is returned after the announcement is withdrawn, an error that is not
  retryable is returned, and so is the seventh error whatever it is.
\<close>

theorem retries_decided:
  assumes "\<And>k. k < m \<Longrightarrow> a k = Answered (Inl (e k)) False \<and> is_retryable (e k)" "m \<le> 6"
    and "\<And>n. delivers h n"
    and "a m = Answered answer w" and "case answer of Inr s \<Rightarrow> True | Inl e \<Rightarrow> m = 6 \<or> \<not> is_retryable e"
  shows "retry_stream_chat h a r =
     (case answer of
        Inl e' \<Rightarrow> (Inl e', r\<lparr>events := events r @ retry_events e m\<rparr>)
      | Inr s \<Rightarrow> (Inr (Some s), r\<lparr>events := events r @ retry_events e m
                    @ (if m = 0 then [] else [Retry_cleared])\<rparr>))"
proof -
  have "m \<le> MAX_RETRIES" using assms(2) by (simp add: MAX_RETRIES_def)
  then have "retry_loop h a 0 r = retry_loop h a m (r\<lparr>events := events r @ retry_events e m\<rparr>)"
    by (intro retry_loop_steps) (use assms(1,3) in auto)
  then have steps: "retry_stream_chat h a r = retry_loop h a m (r\<lparr>events := events r @ retry_events e m\<rparr>)"
    by (simp add: retry_stream_chat_def)
  show ?thesis
  proof (cases answer)
    case (Inl e')
    then show ?thesis using assms(4,5) unfolding steps
      by (subst retry_loop.simps) (auto simp: MAX_RETRIES_def)
  next
    case (Inr s)
    then show ?thesis using assms(3,4) unfolding steps
      by (subst retry_loop.simps) (auto simp: clear_retry_def emit_def)
  qed
qed

theorem retries_decided_witness:
  "fst (retry_stream_chat small_host (\<lambda>_. Answered (Inl (Provider (Api 503 []))) False :: unit attempt)
      (start_runner (store_new (calculate length 9 [] 0 0)))) = Inl (Provider (Api 503 []))"
proof -
  have "retry_stream_chat small_host (\<lambda>_. Answered (Inl (Provider (Api 503 []))) False :: unit attempt)
      (start_runner (store_new (calculate length 9 [] 0 0)))
    = (case Inl (Provider (Api 503 [])) :: loopal_failure + unit of
        Inl e' \<Rightarrow> (Inl e', (start_runner (store_new (calculate length 9 [] 0 0)))\<lparr>events :=
            events (start_runner (store_new (calculate length 9 [] 0 0)))
              @ retry_events (\<lambda>_. Provider (Api 503 [])) 6\<rparr>)
      | Inr s \<Rightarrow> (Inr (Some s), (start_runner (store_new (calculate length 9 [] 0 0)))\<lparr>events :=
            events (start_runner (store_new (calculate length 9 [] 0 0)))
              @ retry_events (\<lambda>_. Provider (Api 503 [])) 6
              @ (if (6::nat) = 0 then [] else [Retry_cleared])\<rparr>))"
    by (rule retries_decided[where w = False]) (simp_all add: small_host_def)
  then show ?thesis by simp
qed

subsection \<open>What reading a stream gives\<close>

text \<open>The chunks that are read: up to the end, an error, a cancellation, or the final chunk.\<close>

fun chunks_read :: "stream_item list \<Rightarrow> llm_chunk list" where
  "chunks_read (Item (Inr (Chunk_done s)) # _) = [Chunk_done s]"
| "chunks_read (Item (Inr c) # items) = c # chunks_read items"
| "chunks_read _ = []"

fun stream_fails :: "stream_item list \<Rightarrow> bool" where
  "stream_fails [] = False"
| "stream_fails (Cancelled_stream # _) = True"
| "stream_fails (Item (Inl e) # _) = True"
| "stream_fails (Item (Inr (Chunk_done s)) # _) = False"
| "stream_fails (Item (Inr c) # items) = stream_fails items"

fun chunk_text :: "llm_chunk \<Rightarrow> string" where
  "chunk_text (Chunk_text t) = t" | "chunk_text _ = []"

fun chunk_thought :: "llm_chunk \<Rightarrow> string" where
  "chunk_thought (Chunk_thinking t) = t" | "chunk_thought _ = []"

fun chunk_call :: "llm_chunk \<Rightarrow> tool_call list" where
  "chunk_call (Chunk_tool_use i n inp) = [(i, n, inp)]" | "chunk_call _ = []"

fun chunk_server :: "llm_chunk \<Rightarrow> content_block list" where
  "chunk_server (Chunk_server_use i n inp) = [ServerToolUse i n inp]"
| "chunk_server (Chunk_server_result bt i c) = [ServerToolResult bt i c]"
| "chunk_server _ = []"

fun chunk_stop :: "llm_chunk list \<Rightarrow> stop_reason option" where
  "chunk_stop [] = None"
| "chunk_stop (Chunk_done s # _) = Some s"
| "chunk_stop (_ # cs) = chunk_stop cs"

text \<open>The result \<open>res'\<close> is \<open>res\<close> with the chunks added in their order.\<close>

definition extended_by :: "llm_chunk list \<Rightarrow> llm_result \<Rightarrow> llm_result \<Rightarrow> bool" where
  "extended_by cs res res' \<longleftrightarrow>
     assistant_text res' = assistant_text res @ concat (map chunk_text cs)
   \<and> thinking_text res' = thinking_text res @ concat (map chunk_thought cs)
   \<and> tool_uses res' = tool_uses res @ concat (map chunk_call cs)
   \<and> server_blocks res' = server_blocks res @ concat (map chunk_server cs)
   \<and> stop_reason res' = (case chunk_stop cs of Some s \<Rightarrow> s | None \<Rightarrow> stop_reason res)"

lemma extended_by_Nil [simp]: "extended_by [] res res"
  by (simp add: extended_by_def)

lemma extended_by_Cons:
  assumes "\<not> (\<exists>s. c = Chunk_done s)" "extended_by [c] res res1" "extended_by cs res1 res2"
  shows "extended_by (c # cs) res res2"
  using assms by (cases c) (auto simp: extended_by_def split: option.split)

lemma handle_chunk_extends:
  assumes "handle_chunk h c res r = (Inr (go, res'), r')"
  shows "extended_by [c] res res' \<and> stream_error res' = stream_error res \<and> (go \<longleftrightarrow> \<not> (\<exists>s. c = Chunk_done s))"
  using assms
  by (cases c) (auto simp: extended_by_def emit_def Let_def and_then_def split: if_splits)

lemma read_loop_extends:
  "fst (read_loop h items res r) = Inr res' \<Longrightarrow>
     extended_by (chunks_read items) res res' \<and> (stream_error res' \<longleftrightarrow> stream_error res \<or> stream_fails items)"
proof (induction h items res r rule: read_loop.induct)
  case (2 h items res r)
  then show ?case by (auto simp: extended_by_def)
next
  case (3 h chunk items res r)
  show ?case
  proof (cases chunk)
    case (Inl e)
    with "3.prems" show ?thesis
      by (auto simp: handle_stream_chunk_def extended_by_def emit_def split: if_splits)
  next
    case (Inr c)
    obtain x r1 where c: "handle_chunk h c res r = (x, r1)" by (rule prod.exhaust)
    then obtain go res1 where x: "x = Inr (go, res1)"
      using "3.prems" Inr by (cases x) (auto simp: handle_stream_chunk_def)
    note ext = handle_chunk_extends[OF c[unfolded x]]
    show ?thesis
    proof (cases go)
      case True
      then have "fst (read_loop h items res1 r1) = Inr res'"
        using "3.prems" Inr c x by (simp add: handle_stream_chunk_def)
      from "3.IH"[OF True this] have IH: "extended_by (chunks_read items) res1 res'"
        "stream_error res' \<longleftrightarrow> stream_error res1 \<or> stream_fails items" by auto
      have "chunks_read (Item (Inr c) # items) = c # chunks_read items"
        "stream_fails (Item (Inr c) # items) = stream_fails items"
        using ext True by (cases c; simp)+
      with IH ext True Inr show ?thesis by (auto intro: extended_by_Cons)
    next
      case False
      then obtain s where "c = Chunk_done s" using ext by auto
      with False "3.prems" Inr c x ext show ?thesis by (auto simp: handle_stream_chunk_def)
    qed
  qed
qed simp

text \<open>
  What a stream comes to. Reading an answer returns, in the order of the stream, all text, all
  thinking, the tool calls and the server's blocks of the chunks up to the final one, and why the
  model stopped; an error of the stream or a cancellation keeps what has been read so far and is
  reported, and nothing after the final chunk is looked at.
\<close>

theorem stream_read_in_order:
  assumes "fst (read_loop h items llm_result_default r) = Inr res"
  shows "assistant_text res = concat (map chunk_text (chunks_read items))
   \<and> thinking_text res = concat (map chunk_thought (chunks_read items))
   \<and> tool_uses res = concat (map chunk_call (chunks_read items))
   \<and> server_blocks res = concat (map chunk_server (chunks_read items))
   \<and> (stream_error res \<longleftrightarrow> stream_fails items)
   \<and> (stop_reason res = (case chunk_stop (chunks_read items) of Some s \<Rightarrow> s | None \<Rightarrow> EndTurn))"
  using read_loop_extends[OF assms]
  by (simp add: extended_by_def llm_result_default_def split: option.split)

theorem stream_read_in_order_witness:
  "\<exists>res. fst (read_loop small_host [Item (Inr (Chunk_text ''a'')), Item (Inr (Chunk_text ''b'')), Cancelled_stream]
       llm_result_default (start_runner (store_new (calculate length 9 [] 0 0)))) = Inr res
     \<and> assistant_text res = ''ab'' \<and> stream_error res"
proof -
  let ?items = "[Item (Inr (Chunk_text ''a'')), Item (Inr (Chunk_text ''b'')), Cancelled_stream]"
  let ?r = "start_runner (store_new (calculate length 9 [] 0 0))"
  have "\<exists>res. fst (read_loop small_host ?items llm_result_default ?r) = Inr res"
    by (simp add: handle_stream_chunk_def emit_def small_host_def)
  then obtain res where res: "fst (read_loop small_host ?items llm_result_default ?r) = Inr res" ..
  from stream_read_in_order[OF this] show ?thesis using res by auto
qed

text \<open>Where the calls of a result come from.\<close>

lemma chunks_read_items: "c \<in> set (chunks_read items) \<Longrightarrow> Item (Inr c) \<in> set items"
  by (induction items rule: chunks_read.induct) auto

lemma retry_loop_stream:
  "fst (retry_loop h a n r) = Inr (Some items) \<Longrightarrow> \<exists>k w. a k = Answered (Inr items) w"
proof (induction h a n r rule: retry_loop.induct)
  case (1 h a n r)
  show ?case
  proof (cases "\<exists>e w. a n = Answered (Inl e) w \<and> is_retryable e \<and> n < MAX_RETRIES")
    case True
    then obtain e w where e: "a n = Answered (Inl e) w" "is_retryable e \<and> n < MAX_RETRIES" by blast
    from "1.prems" obtain r' where r': "\<not> w" "fst (retry_loop h a (n + 1) r') = Inr (Some items)"
      using e by (subst (asm) retry_loop.simps) (auto simp: emit_def split: if_splits)
    from "1.IH"[OF e(1) refl e(2) r'(1) r'(2)] show ?thesis .
  next
    case False
    with "1.prems" show ?thesis
      by (subst (asm) retry_loop.simps)
        (auto simp: clear_retry_def emit_def split: attempt.splits sum.splits if_splits)
  qed
qed

lemma stream_calls_offered:
  assumes "stream_llm_with h env r = (Inr res, r')" and "(i, n, v) \<in> set (tool_uses res)"
  shows "\<exists>k items w. attempts env k = Answered (Inr items) w \<and> Item (Inr (Chunk_tool_use i n v)) \<in> set items"
proof (cases "cancelled env \<or> no_provider env \<noteq> None")
  case True
  then show ?thesis using assms
    by (auto simp: stream_llm_with_def llm_result_default_def split: if_splits option.splits)
next
  case False
  then have "stream_llm_with h env r =
      and_then (retry_stream_chat h (attempts env) r) (\<lambda>items r.
      and_then (read_loop h (case items of Some is \<Rightarrow> is | None \<Rightarrow> []) llm_result_default r) (\<lambda>res r.
      and_then (emit_thinking_complete h res r) (\<lambda>_ r. (Inr res, r))))"
    by (auto simp: stream_llm_with_def)
  with assms(1) obtain items r1 where
      items: "fst (retry_stream_chat h (attempts env) r) = Inr items"
    and read: "fst (read_loop h (case items of Some is \<Rightarrow> is | None \<Rightarrow> []) llm_result_default r1) = Inr res"
    by (auto simp: and_then_def split: prod.splits sum.splits) (metis fst_conv)
  have calls: "tool_uses res = concat (map chunk_call (chunks_read (case items of Some is \<Rightarrow> is | None \<Rightarrow> [])))"
    using read_loop_extends[OF read] by (simp add: extended_by_def llm_result_default_def)
  with assms(2) obtain its where its: "items = Some its" by (cases items) auto
  with calls assms(2) obtain c where c: "c \<in> set (chunks_read its)" "(i, n, v) \<in> set (chunk_call c)"
    by auto
  have "c = Chunk_tool_use i n v" by (cases c) (use c(2) in auto)
  with chunks_read_items[OF c(1)] have item: "Item (Inr (Chunk_tool_use i n v)) \<in> set its" by simp
  obtain k w where "attempts env k = Answered (Inr its) w"
    using retry_loop_stream[of h "attempts env" 0 r its] items its unfolding retry_stream_chat_def by auto
  with item show ?thesis by auto
qed

end
