(* ===== verification/Frame.thy ===== *)
theory Frame
  imports Tool_Batch Llm_Call
begin

section \<open>What the actions of the loop leave alone\<close>

text \<open>
  Every action on the runner reaches the context store through the operations of the store only,
  with the roles the pushes promise, and no action of a tool batch or of a call of the model
  touches the counts of the loop detector. \<open>frame\<close> says so of two states, \<open>framed\<close> of an action;
  the rules compose along \<open>and_then\<close>, one lemma for each action.
\<close>

definition store_runs :: "'w host \<Rightarrow> context_store \<Rightarrow> context_store \<Rightarrow> bool" where
  "store_runs h s s' \<longleftrightarrow>
     (\<exists>ops. list_all role_promised ops \<and> s' = run_ops (store_step (bpe h) (json_text h)) ops s)"

lemma store_runs_refl [simp]: "store_runs h s s"
  unfolding store_runs_def by (intro exI[of _ "[]"]) simp

lemma store_runs_trans: "store_runs h s t \<Longrightarrow> store_runs h t u \<Longrightarrow> store_runs h s u"
  unfolding store_runs_def by (metis list_all_append run_ops_append)

lemma store_runs_step: "role_promised e \<Longrightarrow> store_runs h s (store_step (bpe h) (json_text h) e s)"
  unfolding store_runs_def by (intro exI[of _ "[e]"]) simp

lemma store_runs_wf: "store_runs h s s' \<Longrightarrow> wf_store s \<Longrightarrow> wf_store s'"
  unfolding store_runs_def using store.guarded_run by blast

definition frame :: "'w host \<Rightarrow> runner \<Rightarrow> runner \<Rightarrow> bool" where
  "frame h r r' \<longleftrightarrow> detector r' = detector r \<and> store_runs h (store r) (store r')"

lemma frame_refl [simp]: "frame h r r"
  by (simp add: frame_def)

lemma frame_trans: "frame h r s \<Longrightarrow> frame h s t \<Longrightarrow> frame h r t"
  unfolding frame_def using store_runs_trans by auto

lemma frame_same: "detector r' = detector r \<Longrightarrow> store r' = store r \<Longrightarrow> frame h r r'"
  by (simp add: frame_def)

definition framed :: "'w host \<Rightarrow> runner \<Rightarrow> 'a \<times> runner \<Rightarrow> bool" where
  "framed h r m = frame h r (snd m)"

lemma framed_return [simp]: "framed h r (x, r') = frame h r r'"
  by (simp add: framed_def)

lemma framed_and_then:
  assumes "framed h r m" and "\<And>a r1. m = (Inr a, r1) \<Longrightarrow> framed h r1 (k a r1)"
  shows "framed h r (and_then m k)"
proof (cases m)
  case (Pair x r1)
  then show ?thesis
    using assms frame_trans[of h r r1] by (cases x) (auto simp: framed_def)
qed

lemma framed_from: "frame h r r1 \<Longrightarrow> framed h r1 m \<Longrightarrow> framed h r m"
  unfolding framed_def by (rule frame_trans)

lemma framed_emit [simp]: "framed h r (emit h ev r)"
  by (simp add: framed_def frame_same)

lemma frame_quiet [simp]: "frame h r (emit_quiet h ev r)"
  by (simp add: frame_same)

lemma framed_persist [simp]: "framed h r (persist h m r)"
  by (simp add: framed_def frame_same)

lemma frame_marker [simp]: "frame h r (persist_marker h k r)"
  by (simp add: frame_same)

text \<open>Storing a message after writing it to the log.\<close>

lemma frame_persist_step:
  assumes "persist h m r = (m', r1)" and "role_promised e"
  shows "frame h r (r1\<lparr>store := store_step (bpe h) (json_text h) e (store r1)\<rparr>)"
proof -
  have "r1 = snd (persist h m r)" using assms(1) by simp
  then show ?thesis using store_runs_step[OF assms(2)] by (simp add: frame_def)
qed

subsection \<open>Tool batches\<close>

lemma framed_tool_error [simp]: "framed h r (emit_tool_error h i n t r)"
  by (simp add: emit_tool_error_def)

lemma framed_mode_change: "framed h r (emit h ev (r\<lparr>mode := m\<rparr>))"
  by (rule framed_from[of _ _ "r\<lparr>mode := m\<rparr>"]) (simp_all add: frame_same)

lemma framed_intercept: "framed h r (intercept h env k calls got rest r)"
proof (induction h env k calls got rest r rule: intercept.induct)
  case (2 h env k i name input calls got rest r)
  consider (Enter) "name = ''EnterPlanMode''" | (Exit) "name = ''ExitPlanMode''"
    | (Ask) "name = ''AskUser''" | (Other) "name \<notin> {''EnterPlanMode'', ''ExitPlanMode'', ''AskUser''}"
    by blast
  then show ?case
  proof cases
    case Enter
    then show ?thesis using "2.IH"(1)[OF Enter] by (simp add: framed_and_then framed_mode_change)
  next
    case Exit
    then show ?thesis using "2.IH"(2)[OF _ Exit] by (simp add: framed_and_then framed_mode_change)
  next
    case Ask
    then show ?thesis using "2.IH"(3)[OF _ _ Ask] by simp
  next
    case Other
    then show ?thesis using "2.IH"(4) by simp
  qed
qed simp

lemma framed_check_loop: "framed h r (check_loop h uses polls calls acc r)"
proof (induction h uses polls calls acc r rule: check_loop.induct)
  case (3 h uses polls i name input calls approved denied pending r)
  show ?case
  proof (cases "precheck_reason h name input")
    case None
    then show ?thesis
      using "3.IH"(1)[OF None] "3.IH"(2)[OF None] by (cases "fast_decision h name = Decide_ask") simp_all
  next
    case (Some why)
    then show ?thesis using "3.IH"(3)[OF Some] by (simp add: framed_and_then)
  qed
qed simp_all

lemma framed_ask_human: "framed h r (ask_human_sequential h env k pending acc r)"
proof (induction h env k pending acc r rule: ask_human_sequential.induct)
  case (2 h env k idx i name input pending approved denied r)
  show ?case
  proof (cases "human env k (i, name, input) = Decide_allow")
    case True
    let ?r = "case classifier r of
        Some c \<Rightarrow> if degraded (breaker_state c) then r\<lparr>classifier := Some (on_human_approval name c)\<rparr> else r
      | None \<Rightarrow> r"
    have "frame h r ?r" by (simp add: frame_same split: option.split)
    from framed_from[OF this "2.IH"(1)[OF True refl]] True show ?thesis by (simp add: Let_def)
  next
    case False
    then show ?thesis using "2.IH"(2) by (simp add: framed_and_then)
  qed
qed simp

lemma framed_deny_all: "framed h r (deny_all h why pending acc r)"
  by (induction h why pending acc r rule: deny_all.induct) (auto intro!: framed_and_then)

lemma framed_collect_verdicts: "framed h r (collect_verdicts h env k pending acc r)"
proof (induction h env k pending acc r rule: collect_verdicts.induct)
  case (2 h env k idx i name input pending approved denied r)
  define v where "v = (case verdicts env k (i, name, input) of Some v \<Rightarrow> v | None \<Rightarrow> panicked_result)"
  let ?r = "emit_quiet h (Auto_mode_decision name (verdict v) (reason v) (duration_ms v)) r"
  show ?case
  proof (cases "verdict v = Decide_deny")
    case True
    note IH = "2.IH"(1)[OF v_def refl True]
    have "framed h ?r (and_then (emit_tool_error h i name (''Auto-denied: '' @ reason v) ?r) (\<lambda>_ r.
        collect_verdicts h env (Suc k) pending
          (approved, denied @ [(idx, error_block i (''Auto-denied: '' @ reason v))]) r))"
      by (rule framed_and_then) (simp_all only: framed_tool_error IH)
    from framed_from[OF frame_quiet this] True show ?thesis by (simp add: Let_def v_def[symmetric])
  next
    case False
    from framed_from[OF frame_quiet "2.IH"(2)[OF v_def refl False]] False
    show ?thesis by (simp add: Let_def v_def[symmetric])
  qed
qed simp

lemma framed_resolve_pending: "framed h r (resolve_pending h env pending acc r)"
proof -
  have "framed h r (collect_verdicts h env 0 pending acc (r\<lparr>classifier := c\<rparr>))" for c
    by (rule framed_from[OF frame_same framed_collect_verdicts]) simp_all
  then show ?thesis
    by (auto simp: resolve_pending_def classify_parallel_def framed_ask_human framed_deny_all
        split: option.split)
qed

lemma framed_interrupt_rest: "framed h r (interrupt_rest h uses calls denied r)"
  by (induction h uses calls denied r rule: interrupt_rest.induct) (auto intro!: framed_and_then)

lemma framed_check_tools: "framed h r (check_tools h env remaining uses r)"
  unfolding check_tools_def
  by (auto intro!: framed_and_then framed_check_loop framed_resolve_pending framed_interrupt_rest
      split: prod.split)

lemma framed_synthesise: "framed h r (synthesise_interrupted h uses collected approved r)"
proof (induction h uses collected approved r rule: synthesise_interrupted.induct)
  case (2 h uses collected i name input approved r)
  then show ?case
    by (auto simp: Let_def framed_def split: prod.split intro: frame_trans[OF frame_quiet])
qed simp

lemma framed_execute_approved: "framed h r (execute_approved_tools h env approved uses r)"
proof -
  have "framed h r (case synthesise_interrupted h uses collected approved r of (added, r) \<Rightarrow> (f added, r))"
    for collected and f :: "indexed list \<Rightarrow> indexed list"
    using framed_synthesise[of h r uses collected approved]
    by (cases "synthesise_interrupted h uses collected approved r") (simp add: framed_def)
  then show ?thesis unfolding execute_approved_tools_def collect_results_def Let_def .
qed

lemma frame_push_results: "frame h r (push_results h blocks r)"
proof (cases "persist h \<lparr>id_opt = None, role = User, content = blocks\<rparr> r")
  case (Pair m r1)
  then have "role m = User" using persist_message(1)[of h "\<lparr>id_opt = None, role = User, content = blocks\<rparr>" r] by simp
  with Pair frame_persist_step[OF Pair, of "Push_tool_results m"] show ?thesis by (simp add: push_results_def)
qed

lemma framed_finalize: "framed h r (finalize_tool_results h results r)"
  by (simp add: finalize_tool_results_def Let_def frame_push_results)

lemma framed_emit_interrupted_all: "framed h r (emit_interrupted_all h calls r)"
  by (induction h calls r rule: emit_interrupted_all.induct) (auto intro!: framed_and_then)

lemma framed_then_return: "framed h r m \<Longrightarrow> framed h r (case m of (c, r) \<Rightarrow> (f c, r))"
  by (cases m) (simp add: framed_def)

lemma framed_run_approved:
  "framed h r (case execute_approved_tools h env a uses r of
     (executed, r) \<Rightarrow> (case finalize_tool_results h (got @ executed) r of (c, r) \<Rightarrow> (Inr c, r)))"
proof (cases "execute_approved_tools h env a uses r")
  case (Pair executed r1)
  then have "frame h r r1" using framed_execute_approved[of h r env a uses] by (simp add: framed_def)
  with Pair show ?thesis by (auto intro: framed_from framed_then_return framed_finalize)
qed

lemma framed_execute_tools: "framed h r (execute_tools h env uses r)"
proof (cases "precancelled env")
  case True
  then show ?thesis
    by (simp add: execute_tools_def emit_all_interrupted_def framed_and_then framed_emit_interrupted_all
        frame_push_results)
next
  case False
  have batch: "framed h r (if approved = [] then
            (case finalize_tool_results h (got @ denied) r of (c, r) \<Rightarrow> (Inr c, r))
          else
            and_then (if 3 \<le> length approved then emit h (Tool_batch_start (map fst approved)) r else (Inr (), r))
              (\<lambda>_ r.
                case execute_approved_tools h env approved uses r of
                  (executed, r) \<Rightarrow>
                    (case finalize_tool_results h (got @ denied @ executed) r of
                       (c, r) \<Rightarrow> (Inr c, r))))" for approved got denied r
    using framed_run_approved[where got = "got @ denied"]
    by (auto intro!: framed_and_then framed_then_return framed_finalize)
  then have "framed h r (and_then (check_tools h env remaining uses r) (\<lambda>(approved, denied) r.
      if approved = [] then
            (case finalize_tool_results h (got @ denied) r of (c, r) \<Rightarrow> (Inr c, r))
          else
            and_then (if 3 \<le> length approved then emit h (Tool_batch_start (map fst approved)) r else (Inr (), r))
              (\<lambda>_ r.
                case execute_approved_tools h env approved uses r of
                  (executed, r) \<Rightarrow>
                    (case finalize_tool_results h (got @ denied @ executed) r of
                       (c, r) \<Rightarrow> (Inr c, r)))))" for remaining got r
    by (intro framed_and_then framed_check_tools) (simp only: case_prod_beta)
  then show ?thesis
    using False by (simp only: execute_tools_def intercept_special_tools_def if_False)
      (intro framed_and_then framed_intercept, simp only: case_prod_beta)
qed

subsection \<open>Calls of the model\<close>

lemma framed_clear_retry: "framed h r (clear_retry h n v r)"
  by (simp add: clear_retry_def framed_and_then)

lemma framed_retry_loop: "framed h r (retry_loop h a n r)"
proof (induction h a n r rule: retry_loop.induct)
  case (1 h a n r)
  show ?case
  proof (cases "a n")
    case (Answered x w)
    show ?thesis
    proof (cases x)
      case (Inl e)
      show ?thesis
      proof (cases "is_retryable e \<and> n < MAX_RETRIES")
        case True
        have "framed h r' (if w then and_then (emit h Retry_cleared r') (\<lambda>_ r. (Inr None, r))
            else retry_loop h a (n + 1) r')" for r'
          using "1.IH"[OF Answered Inl True] by (simp add: framed_and_then)
        with True Answered Inl show ?thesis by (subst retry_loop.simps) (simp add: framed_and_then)
      next
        case False
        with Answered Inl show ?thesis by (subst retry_loop.simps) auto
      qed
    next
      case (Inr s)
      with Answered show ?thesis by (subst retry_loop.simps) (simp add: framed_clear_retry)
    qed
  qed (subst retry_loop.simps, simp add: framed_clear_retry)+
qed

lemma framed_handle_chunk: "framed h r (handle_chunk h c res r)"
proof (cases c)
  case (Chunk_usage inp out creation cached thinking)
  have "frame h r (r\<lparr>tokens := t\<rparr>)" for t by (simp add: frame_same)
  from framed_from[OF this framed_emit] show ?thesis
    unfolding Chunk_usage by (simp add: Let_def framed_and_then)
qed (simp_all add: framed_and_then)

lemma framed_stream_chunk: "framed h r (handle_stream_chunk h chunk res r)"
  by (cases chunk) (simp_all add: handle_stream_chunk_def framed_handle_chunk framed_and_then)

lemma framed_read_loop: "framed h r (read_loop h items res r)"
proof (induction h items res r rule: read_loop.induct)
  case (3 h chunk items res r)
  then show ?case
    by (simp only: read_loop.simps)
      (intro framed_and_then framed_stream_chunk, auto split: prod.split)
qed simp_all

lemma framed_thinking: "framed h r (emit_thinking_complete h res r)"
  by (simp add: emit_thinking_complete_def)

lemma framed_stream: "framed h r (stream_llm_with h env r)"
  by (simp add: stream_llm_with_def retry_stream_chat_def framed_and_then framed_retry_loop
      framed_read_loop framed_thinking split: option.split)

lemma frame_record_assistant: "frame h r (record_assistant_message h t uses th sg server r)"
proof (cases "assistant_blocks t uses th sg server = []")
  case False
  let ?m = "\<lparr>id_opt = None, role = Assistant, content = assistant_blocks t uses th sg server\<rparr>"
  obtain m r1 where p: "persist h ?m r = (m, r1)" by (rule prod.exhaust)
  then have "role m = Assistant" using persist_message(1)[of h ?m r] by simp
  with p False frame_persist_step[OF p, of "Push_assistant m"] show ?thesis
    by (simp add: record_assistant_message_def Let_def)
qed (simp add: record_assistant_message_def)

lemma role_user_message [simp]: "role (build_user_message e) = User"
  by (simp add: build_user_message_def Let_def)

lemma frame_inject: "frame h r (inject_message h e r)"
proof (cases "persist h (build_user_message e) r")
  case (Pair m r1)
  then have "role m = User" using persist_message(1)[of h "build_user_message e" r] by simp
  with Pair frame_persist_step[OF Pair, of "Push_user m"] show ?thesis by (simp add: inject_message_def)
qed

lemma frame_inject_pending: "frame h r (inject_pending_messages h es r)"
  unfolding inject_pending_messages_def
  by (induction es arbitrary: r) (auto intro: frame_trans[OF frame_inject])

end
