(* ===== verification/Smart_Compact.thy ===== *)
theory Smart_Compact
  imports Store Provider_Api Rust_Search
begin

section \<open>Summaries by the model\<close>

text \<open>
  \<open>crates/loopal-context/src/middleware/smart_compact.rs\<close> and \<open>smart_compact_llm.rs\<close>: the older part
  of a conversation is rendered as a text, a model writes a summary of it, and the summary with
  the list of the files touched takes its place; \<open>pipeline.rs\<close>, the chain of middlewares. The
  answer of the provider is an argument. The lemmas show what the new conversation consists of,
  which files it names, and what becomes of it in the store.
\<close>

subsection \<open>The pipeline\<close>

text \<open>A middleware maps a context to an error or a new context; the first error ends the run.\<close>

fun pipeline_execute :: "('c \<Rightarrow> ('e + unit) \<times> 'c) list \<Rightarrow> 'c \<Rightarrow> ('e + unit) \<times> 'c" where
  "pipeline_execute [] ctx = (Inr (), ctx)"
| "pipeline_execute (mw # mws) ctx =
     (case mw ctx of
        (Inl e, ctx) \<Rightarrow> (Inl e, ctx)
      | (Inr _, ctx) \<Rightarrow> pipeline_execute mws ctx)"

subsection \<open>Rendering the conversation\<close>

definition truncate_preview :: "string \<Rightarrow> nat \<Rightarrow> string" where
  "truncate_preview s max_bytes =
     (if length s \<le> max_bytes then s else cut_bytes max_bytes s @ ''...[truncated]'')"

definition path_argument :: "json \<Rightarrow> string option" where
  "path_argument input = Option.bind (or_else (jget input ''file_path'') (jget input ''path'')) as_str"

definition or_empty :: "string option \<Rightarrow> string" where
  "or_empty s = (case s of None \<Rightarrow> [] | Some t \<Rightarrow> t)"

definition extract_tool_args :: "string \<Rightarrow> json \<Rightarrow> string" where
  "extract_tool_args name input =
     (if name \<in> {''Read'', ''Write'', ''Edit'', ''MultiEdit''} then or_empty (path_argument input)
      else if name = ''Bash'' then
        or_empty (map_option (\<lambda>c. truncate_preview c 80) (get_str input ''command''))
      else if name \<in> {''Grep'', ''Glob''} then
        or_empty (map_option (\<lambda>p. truncate_preview p 60) (get_str input ''pattern''))
      else [])"

fun role_name :: "message_role \<Rightarrow> string" where
  "role_name User = ''User''"
| "role_name Assistant = ''Assistant''"
| "role_name System = ''System''"

fun block_line :: "content_block \<Rightarrow> string" where
  "block_line (ToolUse i name input) =
     ''[Tool call: '' @ name @ ''('' @ extract_tool_args name input @ '')]'' @ [NL]"
| "block_line (ToolResult i c err cp md) =
     ''[Tool result ('' @ (if err then ''error'' else ''ok'') @ ''): '' @ truncate_preview c 200 @ '']'' @ [NL]"
| "block_line (ServerToolUse i name input) = ''[Server tool: '' @ name @ '']'' @ [NL]"
| "block_line (ServerToolResult bt i c) = ''[Server tool result received]'' @ [NL]"
| "block_line _ = []"

definition message_lines :: "message \<Rightarrow> string" where
  "message_lines msg =
     (let txt = text_content msg
      in (if txt = [] then [] else role_name (role msg) @ '': '' @ txt @ [NL, NL])
         @ concat (map block_line (content msg)))"

definition build_conversation_text :: "message list \<Rightarrow> string" where
  "build_conversation_text ms = concat (map message_lines ms)"

subsection \<open>The files touched\<close>

fun touched_by :: "content_block \<Rightarrow> string option" where
  "touched_by (ToolUse i name input) =
     (if name \<in> {''Read'', ''Write'', ''Edit'', ''MultiEdit''} then path_argument input else None)"
| "touched_by _ = None"

definition touch_block :: "content_block \<Rightarrow> string list \<Rightarrow> string list" where
  "touch_block b files =
     (case touched_by b of
        None \<Rightarrow> files
      | Some p \<Rightarrow> if p \<in> set files then files else files @ [p])"

definition extract_touched_files :: "message list \<Rightarrow> string list" where
  "extract_touched_files ms = run_ops (\<lambda>m files. run_ops touch_block (content m) files) ms []"

subsection \<open>The summary\<close>

definition summary_prompt :: "string \<Rightarrow> string" where
  "summary_prompt conversation_text =
     ''You are compacting a coding agent''
     @ [CHR 0x27]
     @ ''s conversation history.''
     @ [NL, NL]
     @ ''Write a WORKING STATE document. The agent will continue using ONLY this document + the recent messages that follow. The original conversation will not be available.''
     @ [NL, NL]
     @ ''Sections:''
     @ [NL]
     @ ''## Task''
     @ [NL]
     @ ''The user''
     @ [CHR 0x27]
     @ ''s original request. Quote their exact words.''
     @ [NL]
     @ ''## Progress''
     @ [NL]
     @ ''Files created/modified, commands run, tests passed/failed.''
     @ [NL]
     @ ''## Decisions''
     @ [NL]
     @ ''Key choices and rationale.''
     @ [NL]
     @ ''## Current State''
     @ [NL]
     @ ''What the agent was working on, including partial work.''
     @ [NL]
     @ ''## Next Steps''
     @ [NL]
     @ ''What remains, in priority order.''
     @ [NL]
     @ ''## Key References''
     @ [NL]
     @ ''Exact file paths, function names, error messages, URLs.''
     @ [NL, NL]
     @ ''Rules: be factual, use bullet points, preserve identifiers verbatim, do NOT include file contents, do NOT narrate ''
     @ [CHR 0xE2, CHR 0x80, CHR 0x94]
     @ '' summarize outcomes.''
     @ [NL, NL]
     @ ''Conversation:''
     @ [NL]
     @ ''---''
     @ [NL]
     @ conversation_text @ [NL] @ ''---''"

text \<open>
  What the provider makes of a prompt: an error, or the items of its stream.
\<close>

type_synonym summarizer = "string \<Rightarrow> loopal_failure + (loopal_failure + llm_chunk) list"

fun read_summary :: "(loopal_failure + llm_chunk) list \<Rightarrow> string \<Rightarrow> loopal_failure + string" where
  "read_summary [] summary = Inr summary"
| "read_summary (Inl e # _) summary = Inl e"
| "read_summary (Inr (Chunk_text t) # items) summary = read_summary items (summary @ t)"
| "read_summary (Inr (Chunk_done _) # _) summary = Inr summary"
| "read_summary (_ # items) summary = read_summary items summary"

definition call_summarization_llm :: "summarizer \<Rightarrow> string \<Rightarrow> loopal_failure + string" where
  "call_summarization_llm provider conversation_text =
     (case provider (summary_prompt conversation_text) of
        Inl e \<Rightarrow> Inl e
      | Inr items \<Rightarrow> read_summary items [])"

definition files_note :: "string list \<Rightarrow> string" where
  "files_note files =
     (if files = [] then []
      else [NL, NL] @ ''## Recently Touched Files'' @ [NL]
        @ concat (map (\<lambda>f. ''- '' @ f @ [NL]) files)
        @ [NL] @ ''These files may have changed. Re-read before editing.'')"

definition summary_body :: "nat \<Rightarrow> string \<Rightarrow> string list \<Rightarrow> string" where
  "summary_body n summary_text files =
     ''[Working state summary of '' @ nat_str n @ '' earlier messages]'' @ [NL, NL] @ summary_text
     @ files_note files"

definition summary_msg :: "string \<Rightarrow> message" where
  "summary_msg body = \<lparr>id_opt = None, role = User, content = [Text body]\<rparr>"

definition ack_msg :: message where
  "ack_msg = \<lparr>id_opt = None, role = Assistant,
     content = [Text (''Understood. I'' @ [CHR 0x27] @ ''ll continue from this working state.'')]\<rparr>"

definition summarize_old_messages ::
  "summarizer \<Rightarrow> message list \<Rightarrow> nat \<Rightarrow> loopal_failure + message list option" where
  "summarize_old_messages provider ms keep_last =
     (if length ms \<le> keep_last then Inr None
      else
        let split_at = length ms - keep_last;
            old_messages = take split_at ms
        in if old_messages = [] then Inr None
           else
             let touched_files = extract_touched_files old_messages
             in case call_summarization_llm provider (build_conversation_text old_messages) of
                  Inl e \<Rightarrow> Inl e
                | Inr summary_text \<Rightarrow>
                    if summary_text = [] then Inl (Provider (Api 0 ''empty summary response''))
                    else Inr (Some ([summary_msg (summary_body (length old_messages) summary_text touched_files),
                                     ack_msg] @ drop split_at ms)))"

subsection \<open>What a summary keeps\<close>

text \<open>The paths in the order of their first calls.\<close>

definition firsts :: "'a list \<Rightarrow> 'a list" where
  "firsts xs = rev (remdups (rev xs))"

lemma firsts_snoc: "firsts (xs @ [x]) = (if x \<in> set xs then firsts xs else firsts xs @ [x])"
  by (simp add: firsts_def)

lemma firsts_props: "distinct (firsts xs)" "set (firsts xs) = set xs"
  by (simp_all add: firsts_def)

lemma set_map_filter: "set (List.map_filter f xs) = {y. \<exists>x \<in> set xs. f x = Some y}"
  by (force simp: List.map_filter_def)

lemma touch_blocks:
  "run_ops touch_block bs (firsts ps) = firsts (ps @ List.map_filter touched_by bs)"
proof (induction bs rule: rev_induct)
  case (snoc b bs)
  show ?case
  proof (cases "touched_by b")
    case None
    then show ?thesis using snoc
      by (simp add: run_ops_append touch_block_def List.map_filter_def)
  next
    case (Some p)
    then have "List.map_filter touched_by (bs @ [b]) = List.map_filter touched_by bs @ [p]"
      by (simp add: List.map_filter_def)
    then show ?thesis
      using snoc Some firsts_snoc[of "ps @ List.map_filter touched_by bs" p]
      by (simp add: run_ops_append touch_block_def firsts_props del: append_assoc)
        (simp add: firsts_props)
  qed
qed (simp add: List.map_filter_def)

lemma touched_files:
  "extract_touched_files ms = firsts (List.map_filter touched_by (concat (map content ms)))"
proof -
  have "run_ops (\<lambda>m files. run_ops touch_block (content m) files) ms (firsts ps)
      = firsts (ps @ List.map_filter touched_by (concat (map content ms)))" for ps
    by (induction ms arbitrary: ps) (simp_all add: touch_blocks List.map_filter_def)
  from this[of "[]"] show ?thesis by (simp add: extract_touched_files_def firsts_def)
qed

text \<open>
  A summary keeps the recent messages as they are: when one is made, the older messages are
  replaced by two, of the user and the assistant, the first with the number of messages summed
  up, a text that is not empty, and every file those messages read or wrote, each once; the last
  \<open>k\<close> messages follow unchanged. In the store it is refused, and nothing changes, or the
  conversation becomes the repaired one under the budget.
\<close>

theorem summary_replaces_old:
  assumes "summarize_old_messages provider ms k = Inr (Some new)"
  shows "k < length ms
   \<and> (\<exists>txt files. txt \<noteq> [] \<and> distinct files
        \<and> set files = {p. \<exists>m \<in> set (take (length ms - k) ms). \<exists>b \<in> set (content m). touched_by b = Some p}
        \<and> new = summary_msg (summary_body (length ms - k) txt files) # ack_msg # drop (length ms - k) ms)
   \<and> apply_summary bpe render new s \<in>
       {(s, False), (enforce_budget bpe render (s\<lparr>messages := sanitize_tool_pairs new\<rparr>), True)}"
proof -
  have k: "k < length ms"
    using assms by (auto simp: summarize_old_messages_def Let_def split: if_splits)
  let ?old = "take (length ms - k) ms"
  obtain t where t: "t \<noteq> []"
    "new = [summary_msg (summary_body (length ?old) t (extract_touched_files ?old)), ack_msg] @ drop (length ms - k) ms"
    using assms by (auto simp: summarize_old_messages_def Let_def split: if_splits sum.splits)
  have files: "distinct (extract_touched_files ?old)"
    "set (extract_touched_files ?old) = {p. \<exists>m \<in> set ?old. \<exists>b \<in> set (content m). touched_by b = Some p}"
    unfolding touched_files by (auto simp: firsts_props set_map_filter)
  have "apply_summary bpe render new s \<in>
       {(s, False), (enforce_budget bpe render (s\<lparr>messages := sanitize_tool_pairs new\<rparr>), True)}"
    by (simp add: apply_summary_def Let_def)
  moreover have "new = summary_msg (summary_body (length ms - k) t (extract_touched_files ?old))
      # ack_msg # drop (length ms - k) ms"
    using t(2) k by simp
  ultimately show ?thesis using k t(1) files by blast
qed

definition user_text_msg :: "string \<Rightarrow> message" where
  "user_text_msg t = \<lparr>id_opt = None, role = User, content = [Text t]\<rparr>"

theorem summary_replaces_old_witness:
  "\<exists>txt files. summarize_old_messages (\<lambda>_. Inr [Inr (Chunk_text ''did a''), Inr (Chunk_done EndTurn)])
       [user_text_msg ''a'', user_text_msg ''b'', user_text_msg ''c''] 2
     = Inr (Some (summary_msg (summary_body 1 txt files) # ack_msg # [user_text_msg ''b'', user_text_msg ''c'']))"
proof -
  let ?ms = "[user_text_msg ''a'', user_text_msg ''b'', user_text_msg ''c'']"
  let ?p = "\<lambda>_. Inr [Inr (Chunk_text ''did a''), Inr (Chunk_done EndTurn)]"
  have "\<exists>new. summarize_old_messages ?p ?ms 2 = Inr (Some new)"
    by (simp add: summarize_old_messages_def call_summarization_llm_def Let_def)
  then obtain new where new: "summarize_old_messages ?p ?ms 2 = Inr (Some new)" ..
  from summary_replaces_old[OF this, where s = "store_new (calculate length 9 [] 0 0)" and bpe = length
      and render = "\<lambda>_. []"]
  show ?thesis using new by auto
qed

end
