(* ===== verification/Turn.thy ===== *)
theory Turn
  imports Frame Smart_Compact
begin

section \<open>A turn\<close>

text \<open>
  \<open>loopal-runtime/src/agent_loop/compaction.rs\<close> and \<open>turn_exec.rs\<close>: one turn is a loop of rounds, each
  of which compacts the conversation if need be, calls the model with it, records the answer, and
  continues, ends the turn, or runs the tools the model asked for. What each round meets (whether the turn
  has been cancelled, the answers of the providers, the batch's surroundings, the messages that
  have arrived) is a list of inputs, one for each round. The lemmas show what the model sees,
  that a turn changes the conversation through the store's operations, and that it ends.
\<close>

subsection \<open>Compaction\<close>

definition EMERGENCY_KEEP_LAST :: nat where "EMERGENCY_KEEP_LAST = 5"

definition current_tokens :: "'w host \<Rightarrow> runner \<Rightarrow> u32" where
  "current_tokens h r = estimate_messages_tokens (bpe h) (json_text h) (messages (store r))"

definition post_compact ::
  "'w host \<Rightarrow> nat \<Rightarrow> u32 \<Rightarrow> string \<Rightarrow> runner \<Rightarrow> (loopal_failure + unit) \<times> runner" where
  "post_compact h before tokens_before strategy r =
     (let after = length (messages (store r));
          removed = before - after;
          tokens_after = current_tokens h r;
          r = persist_marker h (CompactTo after (now_text h)) r
      in emit h (Compacted after removed tokens_before tokens_after strategy) r)"

text \<open>\<open>summarizer\<close>: \<open>None\<close> when no provider serves the summarization model.\<close>

definition try_smart_compact :: "'w host \<Rightarrow> summarizer option \<Rightarrow> runner \<Rightarrow> bool \<times> runner" where
  "try_smart_compact h summarizer r =
     (case summarizer of
        None \<Rightarrow> (False, r)
      | Some provider \<Rightarrow>
          (case summarize_old_messages provider (messages (store r))
                  (token_aware_keep_count (bpe h) (json_text h) (store r)) of
             Inr (Some new_messages) \<Rightarrow>
               (case apply_summary (bpe h) (json_text h) new_messages (store r) of
                  (s, applied) \<Rightarrow> (applied, r\<lparr>store := s\<rparr>))
           | _ \<Rightarrow> (False, r)))"

definition emergency :: "'w host \<Rightarrow> nat \<Rightarrow> runner \<Rightarrow> runner" where
  "emergency h keep r =
     r\<lparr>store := emergency_compact (bpe h) (json_text h) keep (store r)\<rparr>"

definition compacting_note :: agent_event where
  "compacting_note = Stream_event (''[compacting context...]'' @ [NL])"

definition check_and_compact ::
  "'w host \<Rightarrow> summarizer option \<Rightarrow> runner \<Rightarrow> (loopal_failure + unit) \<times> runner" where
  "check_and_compact h summarizer r =
     (if \<not> needs_summarization (bpe h) (json_text h) (store r) then (Inr (), r)
      else
        let msg_tokens = current_tokens h r;
            before = length (messages (store r))
        in and_then (emit h compacting_note r) (\<lambda>_ r.
             case (if needs_emergency (budget (store r)) msg_tokens then (False, r)
                   else try_smart_compact h summarizer r) of
               (True, r) \<Rightarrow> post_compact h before msg_tokens ''smart'' r
             | (False, r) \<Rightarrow>
                 post_compact h before msg_tokens ''emergency'' (emergency h EMERGENCY_KEEP_LAST r)))"

definition force_compact ::
  "'w host \<Rightarrow> summarizer option \<Rightarrow> runner \<Rightarrow> (loopal_failure + unit) \<times> runner" where
  "force_compact h summarizer r =
     (let before = length (messages (store r));
          keep = token_aware_keep_count (bpe h) (json_text h) (store r)
      in if before \<le> keep then
           emit h (Stream_event (''[nothing to compact '' @ [CHR 0xE2, CHR 0x80, CHR 0x94]
             @ '' conversation is short]'' @ [NL])) r
         else
           let tokens_before = current_tokens h r
           in and_then (emit h compacting_note r) (\<lambda>_ r.
                case try_smart_compact h summarizer r of
                  (True, r) \<Rightarrow> post_compact h before tokens_before ''manual-smart'' r
                | (False, r) \<Rightarrow>
                    post_compact h before tokens_before ''manual-emergency'' (emergency h keep r)))"

subsection \<open>The rounds of a turn\<close>

definition MAX_AUTO_CONTINUATIONS :: nat where "MAX_AUTO_CONTINUATIONS = 3"

text \<open>
  \<open>stop_seen\<close>: the turn is seen to be cancelled at the top of the round. \<open>answers ms\<close>: what the call of the model
  meets when it is given the messages \<open>ms\<close>.
\<close>

record round_input =
  stop_seen :: bool
  summary_by :: "summarizer option"
  answers :: "message list \<Rightarrow> llm_env"
  batch :: batch_env
  arrived :: "envelope list"

record turn_state =
  last_text :: string
  continuations :: nat
  turn_ctx :: turn_context

text \<open>An action on the runner, inside the turn.\<close>

definition within ::
  "turn_state \<Rightarrow> ('e + 'a) \<times> runner \<Rightarrow> ('e + 'a) \<times> turn_state \<times> runner" where
  "within t m = (case m of (x, r) \<Rightarrow> (x, t, r))"

definition note_text :: "llm_result \<Rightarrow> turn_state \<Rightarrow> turn_state" where
  "note_text res t = (if assistant_text res = [] then t else t\<lparr>last_text := assistant_text res\<rparr>)"

text \<open>A round answers with the output of the turn, or with \<open>None\<close> when the turn goes on.\<close>

definition auto_continue ::
  "'w host \<Rightarrow> turn_state \<Rightarrow> runner \<Rightarrow> (loopal_failure + string option) \<times> turn_state \<times> runner" where
  "auto_continue h t r =
     (if continuations t < MAX_AUTO_CONTINUATIONS then
        let t = t\<lparr>continuations := continuations t + 1\<rparr>
        in and_then (within t (emit h (Auto_continuation (continuations t) MAX_AUTO_CONTINUATIONS) r))
             (\<lambda>_ s. (Inr None, s))
      else (Inr (Some (last_text t)), t, r))"

text \<open>
  The observers before the tools, in the order \<open>agent_loop\<close> installs them: the loop detector; the
  diff tracker has nothing to do here.
\<close>

definition run_before_tools ::
  "'w host \<Rightarrow> tool_call list \<Rightarrow> turn_state \<Rightarrow> runner \<Rightarrow> (loopal_failure + bool) \<times> turn_state \<times> runner" where
  "run_before_tools h uses t r =
     (case detector_before_tools (json_text h) (hash_hex h) uses (detector r) of
        (action, d) \<Rightarrow>
          let r = r\<lparr>detector := d\<rparr>
          in case action of
               Continue \<Rightarrow> (Inr False, t, r)
             | InjectWarning msg \<Rightarrow>
                 (Inr False,
                  t\<lparr>turn_ctx := (turn_ctx t)\<lparr>pending_warnings := pending_warnings (turn_ctx t) @ [msg]\<rparr>\<rparr>, r)
             | AbortTurn why \<Rightarrow>
                 and_then (within t (emit h (Error_event why) r)) (\<lambda>_ s. (Inr True, s)))"

text \<open>After the batch: warnings, messages that have arrived, and the observers on the last message.\<close>

definition last_content :: "runner \<Rightarrow> content_block list" where
  "last_content r = (if messages (store r) = [] then [] else content (last (messages (store r))))"

definition after_tools ::
  "'w host \<Rightarrow> round_input \<Rightarrow> tool_call list \<Rightarrow> turn_state \<Rightarrow> runner \<Rightarrow> turn_state \<times> runner" where
  "after_tools h inp uses t r =
     (let warnings = pending_warnings (turn_ctx t);
          ctx = (turn_ctx t)\<lparr>pending_warnings := []\<rparr>;
          r = r\<lparr>store := append_warnings_to_last_user warnings (store r)\<rparr>;
          r = inject_pending_messages h (arrived inp) r;
          ctx = tracker_after_tools uses (last_content r) ctx
      in (t\<lparr>turn_ctx := ctx, continuations := 0\<rparr>, r))"

definition tool_round ::
  "'w host \<Rightarrow> round_input \<Rightarrow> tool_call list \<Rightarrow> turn_state \<Rightarrow> runner
     \<Rightarrow> (loopal_failure + string option) \<times> turn_state \<times> runner" where
  "tool_round h inp uses t r =
     and_then (run_before_tools h uses t r) (\<lambda>abort (t, r).
       if abort then (Inr (Some (last_text t)), t, r)
       else
         and_then (within t (execute_tools h (batch inp) uses r)) (\<lambda>completion (t, r).
           (Inr completion, after_tools h inp uses t r)))"

definition record_answer :: "'w host \<Rightarrow> llm_result \<Rightarrow> tool_call list \<Rightarrow> runner \<Rightarrow> runner" where
  "record_answer h res uses r =
     record_assistant_message h (assistant_text res) uses (thinking_text res) (thinking_signature res)
       (server_blocks res) r"

definition after_answer ::
  "'w host \<Rightarrow> round_input \<Rightarrow> llm_result \<Rightarrow> turn_state \<Rightarrow> runner
     \<Rightarrow> (loopal_failure + string option) \<times> turn_state \<times> runner" where
  "after_answer h inp res t r =
     (let truncated = (stop_reason res = MaxTokens \<and> tool_uses res \<noteq> []);
          effective_tools = (if truncated then [] else tool_uses res);
          needs_auto_continue = (truncated \<or> stop_reason res = PauseTurn)
      in if needs_auto_continue then
           auto_continue h (note_text res t) (record_answer h res effective_tools r)
         else
           let r = record_answer h res (tool_uses res) r;
               t = note_text res t
           in if stream_error res \<and> tool_uses res = [] \<and> assistant_text res = [] then
                (Inr (Some (last_text t)), t, r)
              else if tool_uses res = [] \<and> stop_reason res = MaxTokens then auto_continue h t r
              else if tool_uses res = [] then (Inr (Some (assistant_text res)), t, r)
              else tool_round h inp (tool_uses res) t r)"

definition turn_round ::
  "'w host \<Rightarrow> round_input \<Rightarrow> turn_state \<times> runner
     \<Rightarrow> (loopal_failure + string option) \<times> turn_state \<times> runner" where
  "turn_round h inp = (\<lambda>(t, r).
     if stop_seen inp then (Inr (Some (last_text t)), t, r)
     else
       and_then (within t (check_and_compact h (summary_by inp) r)) (\<lambda>_ (t, r).
       and_then (within t (stream_llm_with h (answers inp (prepare_for_llm (store r))) r)) (\<lambda>res (t, r).
         after_answer h inp res t r)))"

text \<open>\<open>None\<close>: the turn still runs when the inputs are used up.\<close>

fun turn_loop ::
  "'w host \<Rightarrow> round_input list \<Rightarrow> turn_state \<times> runner
     \<Rightarrow> (loopal_failure + string option) \<times> turn_state \<times> runner" where
  "turn_loop h [] s = (Inr None, s)"
| "turn_loop h (inp # inps) s =
     and_then (turn_round h inp s) (\<lambda>out s.
       case out of Some t \<Rightarrow> (Inr (Some t), s) | None \<Rightarrow> turn_loop h inps s)"

definition turn_start :: "turn_context \<Rightarrow> turn_state" where
  "turn_start ctx = \<lparr>last_text = [], continuations = 0, turn_ctx = ctx\<rparr>"

definition execute_turn_inner ::
  "'w host \<Rightarrow> round_input list \<Rightarrow> turn_context \<Rightarrow> runner
     \<Rightarrow> (loopal_failure + string option) \<times> turn_state \<times> runner" where
  "execute_turn_inner h inps ctx r = turn_loop h inps (turn_start ctx, r)"

text \<open>The observers at the end, whatever the result: only the diff tracker does something then.\<close>

definition execute_turn ::
  "'w host \<Rightarrow> round_input list \<Rightarrow> turn_context \<Rightarrow> runner
     \<Rightarrow> (loopal_failure + string option) \<times> turn_state \<times> runner" where
  "execute_turn h inps ctx r =
     (case execute_turn_inner h inps ctx r of
        (x, t, r) \<Rightarrow>
          (x, t, case tracker_turn_end (turn_ctx t) of
                   None \<Rightarrow> r
                 | Some files \<Rightarrow> emit_quiet h (Turn_diff_summary files) r))"

subsection \<open>Every round goes through the store\<close>

lemma within_simps [simp]: "within t (x, r) = (x, t, r)"
  by (simp add: within_def)

text \<open>An action inside a turn that reaches the conversation through the store's operations.\<close>

definition turn_runs :: "'w host \<Rightarrow> runner \<Rightarrow> 'a \<times> turn_state \<times> runner \<Rightarrow> bool" where
  "turn_runs h r m = store_runs h (store r) (store (snd (snd m)))"

lemma turn_runs_return [simp]: "turn_runs h r (x, t, r') = store_runs h (store r) (store r')"
  by (simp add: turn_runs_def)

lemma frame_store: "frame h r r' \<Longrightarrow> store_runs h (store r) (store r')"
  by (simp add: frame_def)

lemma turn_runs_and_then:
  assumes "turn_runs h r m" and "\<And>a t1 r1. m = (Inr a, t1, r1) \<Longrightarrow> turn_runs h r1 (k a (t1, r1))"
  shows "turn_runs h r (and_then m k)"
proof -
  obtain x t1 r1 where m: "m = (x, t1, r1)" by (metis prod_cases3)
  then show ?thesis
    using assms store_runs_trans[of h "store r" "store r1"] by (cases x) (auto simp: turn_runs_def)
qed

lemma turn_runs_within: "framed h r m \<Longrightarrow> turn_runs h r (within t m)"
  by (cases m) (simp add: framed_def frame_def)

lemma turn_runs_if: "turn_runs h r a \<Longrightarrow> turn_runs h r b \<Longrightarrow> turn_runs h r (if c then a else b)"
  by simp

lemma turn_runs_from: "store_runs h (store r) (store r1) \<Longrightarrow> turn_runs h r1 m \<Longrightarrow> turn_runs h r m"
  unfolding turn_runs_def by (rule store_runs_trans)

lemma framed_post_compact: "framed h r (post_compact h b tb st r)"
  unfolding post_compact_def Let_def by (rule framed_from[OF frame_marker framed_emit])

lemma framed_smart: "framed h r (try_smart_compact h sm r)"
proof -
  have "frame h r (r\<lparr>store := fst (apply_summary (bpe h) (json_text h) ms (store r))\<rparr>)" for ms
    using store_runs_step[of "Apply_summary ms" h "store r"] by (simp add: frame_def)
  then show ?thesis
    by (auto simp: try_smart_compact_def split: option.split sum.split prod.split) (metis fst_conv)
qed

lemma frame_emergency: "frame h r (emergency h k r)"
  using store_runs_step[of "Emergency_compact k" h "store r"] by (simp add: frame_def emergency_def)

lemma framed_compacted:
  assumes "framed h r m"
  shows "framed h r (case m of (True, r) \<Rightarrow> post_compact h b tb st r
                     | (False, r) \<Rightarrow> post_compact h b tb st' (emergency h k r))"
proof (cases m)
  case (Pair ok r1)
  then have "frame h r r1" using assms by (simp add: framed_def)
  then have "framed h r (post_compact h b tb st r1)" "framed h r (post_compact h b tb st' (emergency h k r1))"
    using framed_from framed_post_compact frame_trans[OF _ frame_emergency] by blast+
  with Pair show ?thesis by (cases ok) simp_all
qed

lemma framed_check_and_compact: "framed h r (check_and_compact h sm r)"
  unfolding check_and_compact_def Let_def
  by (auto intro!: framed_and_then framed_compacted framed_smart)

lemma framed_force_compact: "framed h r (force_compact h sm r)"
  unfolding force_compact_def Let_def
  by (auto intro!: framed_and_then framed_compacted framed_smart)

lemma turn_runs_auto_continue: "turn_runs h r (auto_continue h t r)"
  by (auto simp: auto_continue_def Let_def intro!: turn_runs_and_then turn_runs_within)

lemma turn_runs_before_tools: "turn_runs h r (run_before_tools h uses t r)"
proof (cases "detector_before_tools (json_text h) (hash_hex h) uses (detector r)")
  case (Pair action d)
  have "turn_runs h r (and_then (within t (emit h ev (r\<lparr>detector := d\<rparr>))) (\<lambda>_ s. (Inr True, s)))" for ev
    by (rule turn_runs_from[of _ _ "r\<lparr>detector := d\<rparr>"])
      (auto intro!: turn_runs_and_then turn_runs_within)
  with Pair show ?thesis by (cases action) (simp_all add: run_before_tools_def Let_def)
qed

lemma store_runs_after_tools: "store_runs h (store r) (store (snd (after_tools h inp uses t r)))"
proof -
  let ?r = "r\<lparr>store := append_warnings_to_last_user (pending_warnings (turn_ctx t)) (store r)\<rparr>"
  have "store_runs h (store r) (store ?r)"
    using store_runs_step[of "Append_warnings (pending_warnings (turn_ctx t))" h "store r"] by simp
  moreover have "store_runs h (store ?r) (store (inject_pending_messages h (arrived inp) ?r))"
    by (rule frame_store[OF frame_inject_pending])
  ultimately show ?thesis by (auto simp: after_tools_def Let_def intro: store_runs_trans)
qed

lemma turn_runs_after_tools: "turn_runs h r (x, after_tools h inp uses t r)"
  by (simp add: turn_runs_def store_runs_after_tools)

lemma turn_runs_tool_round: "turn_runs h r (tool_round h inp uses t r)"
  unfolding tool_round_def
proof (rule turn_runs_and_then[OF turn_runs_before_tools])
  fix abort t1 r1
  have "turn_runs h r1 (and_then (within t1 (execute_tools h (batch inp) uses r1))
      (\<lambda>completion (t, r). (Inr completion, after_tools h inp uses t r)))"
    by (auto intro!: turn_runs_and_then turn_runs_within framed_execute_tools turn_runs_after_tools)
  then show "turn_runs h r1 ((\<lambda>(t, r). if abort then (Inr (Some (last_text t)), t, r)
       else and_then (within t (execute_tools h (batch inp) uses r))
         (\<lambda>completion (t, r). (Inr completion, after_tools h inp uses t r))) (t1, r1))"
    by simp
qed

lemma frame_record_answer: "frame h r (record_answer h res uses r)"
  by (simp add: record_answer_def frame_record_assistant)

lemma turn_runs_after_answer: "turn_runs h r (after_answer h inp res t r)"
proof -
  have continue: "turn_runs h r (auto_continue h t' (record_answer h res uses r))" for t' uses
    by (rule turn_runs_from[OF frame_store[OF frame_record_answer] turn_runs_auto_continue])
  have tools: "turn_runs h r (tool_round h inp (tool_uses res) t' (record_answer h res uses r))" for t' uses
    by (rule turn_runs_from[OF frame_store[OF frame_record_answer] turn_runs_tool_round])
  have over: "turn_runs h r (x, t', record_answer h res uses r)" for x t' uses
    using frame_store[OF frame_record_answer] by simp
  show ?thesis unfolding after_answer_def Let_def
    by (intro turn_runs_if continue tools over)
qed

lemma turn_runs_round: "turn_runs h r (turn_round h inp (t, r))"
  unfolding turn_round_def
  by (auto intro!: turn_runs_and_then turn_runs_within framed_check_and_compact framed_stream
      turn_runs_after_answer)

lemma turn_runs_loop: "turn_runs h r (turn_loop h inps (t, r))"
proof (induction inps arbitrary: t r)
  case (Cons inp inps)
  then show ?case
    by (simp only: turn_loop.simps)
      (intro turn_runs_and_then turn_runs_round, auto split: option.split)
qed simp

text \<open>
  A turn changes the conversation through the operations of the context store only, with the
  roles those promise, whatever the model, the tools and the user do: so after a turn, finished,
  failed or still running, no user or assistant message is empty and the server blocks of every
  assistant message are paired, as before it.
\<close>

theorem turn_refines_store:
  "(\<exists>ops. list_all role_promised ops
      \<and> store (snd (snd (execute_turn h inps ctx r))) = run_ops (store_step (bpe h) (json_text h)) ops (store r))
   \<and> (wf_store (store r) \<longrightarrow> wf_store (store (snd (snd (execute_turn h inps ctx r)))))"
proof -
  have "store_runs h (store r) (store (snd (snd (execute_turn h inps ctx r))))"
    using turn_runs_loop[of h r inps "turn_start ctx"]
    by (auto simp: execute_turn_def execute_turn_inner_def turn_runs_def split: prod.split option.split)
  then show ?thesis using store_runs_wf unfolding store_runs_def by blast
qed

text \<open>A model that asks for the same command in every round.\<close>

definition stuck_env :: llm_env where
  "stuck_env = \<lparr>cancelled = False, no_provider = None,
     attempts = (\<lambda>_. Answered (Inr [Item (Inr (Chunk_tool_use ''a'' ''Bash'' JNull)),
                                    Item (Inr (Chunk_done EndTurn))]) False)\<rparr>"

definition stuck_round :: round_input where
  "stuck_round = \<lparr>stop_seen = False, summary_by = None, answers = (\<lambda>_. stuck_env), batch = calm_env, arrived = []\<rparr>"

theorem turn_refines_store_witness:
  "wf_store (store (snd (snd (execute_turn small_host [stuck_round] (turn_context_new 0)
     (start_runner (store_new (calculate length 9 [] 0 0)))))))"
proof -
  have "wf_store (store (start_runner (store_new (calculate length 9 [] 0 0))))"
    by (simp add: start_runner_def store_new_def wf_store_def)
  then show ?thesis using turn_refines_store by blast
qed

subsection \<open>What the model sees\<close>

text \<open>The round with another model for every conversation that is not closed.\<close>

definition unless_closed :: "(message list \<Rightarrow> llm_env) \<Rightarrow> round_input \<Rightarrow> round_input" where
  "unless_closed other inp =
     inp\<lparr>answers := (\<lambda>ms. if closed_conversation ms then answers inp ms else other ms)\<rparr>"

lemma round_unless_closed: "turn_round h (unless_closed other inp) s = turn_round h inp s"
proof -
  have seen: "answers (unless_closed other inp) (prepare_for_llm c) = answers inp (prepare_for_llm c)" for c
    by (simp add: unless_closed_def prepare_for_llm_def sanitize_closed)
  have fields: "batch (unless_closed other inp) = batch inp" "arrived (unless_closed other inp) = arrived inp"
    "summary_by (unless_closed other inp) = summary_by inp" "stop_seen (unless_closed other inp) = stop_seen inp"
    by (simp_all add: unless_closed_def)
  have "tool_round h (unless_closed other inp) uses t r = tool_round h inp uses t r" for uses t r
    by (simp only: tool_round_def after_tools_def fields)
  then have rest: "after_answer h (unless_closed other inp) res t r = after_answer h inp res t r" for res t r
    by (simp only: after_answer_def)
  show ?thesis
    by (simp only: turn_round_def seen rest fields)
qed

text \<open>
  C4. Every conversation the model is given in a turn is closed: each tool result answers a tool
  call and each call has a result, server blocks are paired and no message is empty. A model that
  would answer differently to any conversation that is not closed gives the same turn.
\<close>

theorem model_sees_closed_conversations:
  "turn_loop h (map (unless_closed other) inps) s = turn_loop h inps s"
  by (induction inps arbitrary: s) (simp_all add: round_unless_closed cong: option.case_cong)

subsection \<open>A turn ends\<close>

text \<open>The two ways a turn goes on after a round: an automatic continuation, and a batch of tools.\<close>

definition continued :: "turn_state \<Rightarrow> runner \<Rightarrow> turn_state \<Rightarrow> runner \<Rightarrow> bool" where
  "continued t r t' r' \<longleftrightarrow>
     continuations t < MAX_AUTO_CONTINUATIONS \<and> continuations t' = continuations t + 1 \<and> detector r' = detector r"

definition batch_done ::
  "'w host \<Rightarrow> tool_call list \<Rightarrow> runner \<Rightarrow> turn_state \<Rightarrow> runner \<Rightarrow> bool" where
  "batch_done h uses r t' r' \<longleftrightarrow>
     uses \<noteq> [] \<and> continuations t' = 0
   \<and> (\<exists>action. detector_before_tools (json_text h) (hash_hex h) uses (detector r) = (action, detector r')
        \<and> \<not> is_abort action)"

lemma auto_continue_goes_on:
  assumes "auto_continue h t r = (Inr None, t', r')"
  shows "continued t r t' r'"
  using assms
  by (cases rule: emit_cases[of h "Auto_continuation (continuations t + 1) MAX_AUTO_CONTINUATIONS" r])
    (auto simp: auto_continue_def continued_def Let_def split: if_splits)

lemma framed_detector: "framed h r m \<Longrightarrow> m = (x, r') \<Longrightarrow> detector r' = detector r"
  by (simp add: frame_def)

lemma after_tools_keeps: "detector (snd (after_tools h inp uses t r)) = detector r"
  using frame_inject_pending[of h
      "r\<lparr>store := append_warnings_to_last_user (pending_warnings (turn_ctx t)) (store r)\<rparr>" "arrived inp"]
  by (simp add: after_tools_def Let_def frame_def)

lemma after_tools_resets: "continuations (fst (after_tools h inp uses t r)) = 0"
  by (simp add: after_tools_def Let_def)

lemma tool_round_goes_on:
  assumes "tool_round h inp uses t r = (Inr None, t', r')" and "uses \<noteq> []"
  shows "batch_done h uses r t' r'"
proof -
  obtain action d where d: "detector_before_tools (json_text h) (hash_hex h) uses (detector r) = (action, d)"
    by (rule prod.exhaust)
  have calm: "\<not> is_abort action"
  proof
    assume "is_abort action"
    then obtain why where "action = AbortTurn why" by (cases action) auto
    with assms(1) d show False
      by (cases rule: emit_cases[of h "Error_event why" "r\<lparr>detector := d\<rparr>"])
        (auto simp: tool_round_def run_before_tools_def)
  qed
  then obtain t1 where t1: "run_before_tools h uses t r = (Inr False, t1, r\<lparr>detector := d\<rparr>)"
    using d by (cases action) (auto simp: run_before_tools_def Let_def)
  obtain x r2 where x: "execute_tools h (batch inp) uses (r\<lparr>detector := d\<rparr>) = (x, r2)" by (rule prod.exhaust)
  then have r2: "detector r2 = d" using framed_detector[OF framed_execute_tools x] by simp
  have "x = Inr None" "(t', r') = after_tools h inp uses t1 r2"
    using assms(1) t1 x by (cases x; simp add: tool_round_def)+
  then have "detector r' = d" "continuations t' = 0"
    using after_tools_keeps[of h inp uses t1 r2] after_tools_resets[of h inp uses t1 r2] r2
    by (metis snd_conv, metis fst_conv)
  with d calm assms(2) show ?thesis by (simp add: batch_done_def)
qed

lemma detector_record [simp]: "detector (record_answer h res uses r) = detector r"
  using frame_record_answer[of h r res uses] by (simp add: frame_def)

lemma continuations_note [simp]: "continuations (note_text res t) = continuations t"
  by (simp add: note_text_def)

lemma after_answer_goes_on:
  assumes "after_answer h inp res t r = (Inr None, t', r')"
  shows "continued t r t' r' \<or> batch_done h (tool_uses res) r t' r'"
proof -
  have cont: "continued t r t' r'" if "auto_continue h (note_text res t) (record_answer h res uses r) = (Inr None, t', r')"
    for uses
    using auto_continue_goes_on[OF that] by (simp add: continued_def)
  show ?thesis
  proof (cases "stop_reason res \<noteq> EndTurn \<and> (tool_uses res = [] \<longrightarrow> stop_reason res = PauseTurn)")
    case True
    then have "(stop_reason res = MaxTokens \<and> tool_uses res \<noteq> []) \<or> stop_reason res = PauseTurn"
      by (cases "stop_reason res") auto
    with assms show ?thesis unfolding after_answer_def Let_def by (simp only: if_True) (blast intro: cont)
  next
    case False
    then have no: "\<not> ((stop_reason res = MaxTokens \<and> tool_uses res \<noteq> []) \<or> stop_reason res = PauseTurn)"
      by (cases "stop_reason res") auto
    show ?thesis
    proof (cases "tool_uses res = []")
      case True
      with assms no have "auto_continue h (note_text res t) (record_answer h res [] r) = (Inr None, t', r')"
        unfolding after_answer_def Let_def by (simp only: if_False simp_thms split: if_splits) (simp_all split: if_splits)
      then show ?thesis by (blast intro: cont)
    next
      case ne: False
      with assms no have "tool_round h inp (tool_uses res) (note_text res t) (record_answer h res (tool_uses res) r)
          = (Inr None, t', r')"
        unfolding after_answer_def Let_def by (simp only: if_False simp_thms)
      from tool_round_goes_on[OF this ne] show ?thesis by (simp add: batch_done_def)
    qed
  qed
qed

lemma round_goes_on:
  assumes "turn_round h inp (t, r) = (Inr None, t', r')"
  obtains (Continued) "continued t r t' r'"
  | (Batch) ms res r1 r2 where "stream_llm_with h (answers inp ms) r1 = (Inr res, r2)"
      "batch_done h (tool_uses res) r t' r'"
proof -
  obtain x r1 where c: "check_and_compact h (summary_by inp) r = (x, r1)" by (rule prod.exhaust)
  obtain y r2 where s: "stream_llm_with h (answers inp (prepare_for_llm (store r1))) r1 = (y, r2)"
    by (rule prod.exhaust)
  have d: "detector r2 = detector r"
    using framed_detector[OF framed_check_and_compact c] framed_detector[OF framed_stream s] by simp
  have go: "\<not> stop_seen inp" using assms by (auto simp: turn_round_def)
  with assms c have x: "x = Inr ()" by (cases x) (auto simp: turn_round_def)
  with assms go c s obtain res where y: "y = Inr res" by (cases y) (auto simp: turn_round_def)
  have "after_answer h inp res t r2 = (Inr None, t', r')"
    using assms go c s x y by (simp add: turn_round_def)
  from after_answer_goes_on[OF this] d
  have "continued t r t' r' \<or> batch_done h (tool_uses res) r t' r'"
    by (simp add: continued_def batch_done_def)
  with s y that show ?thesis by blast
qed

text \<open>The calls the model may ask for in a round have their signatures in \<open>S\<close>.\<close>

definition asks_within :: "'w host \<Rightarrow> string set \<Rightarrow> round_input \<Rightarrow> bool" where
  "asks_within h S inp \<longleftrightarrow>
     (\<forall>ms k items w i n v. attempts (answers inp ms) k = Answered (Inr items) w \<longrightarrow>
        Item (Inr (Chunk_tool_use i n v)) \<in> set items \<longrightarrow> tool_signature (json_text h) (hash_hex h) n v \<in> S)"

abbreviation signature_of :: "'w host \<Rightarrow> tool_call \<Rightarrow> string" where
  "signature_of h c \<equiv> (case c of (i, n, v) \<Rightarrow> tool_signature (json_text h) (hash_hex h) n v)"

lemma calls_by_signature:
  assumes "finite S" "\<forall>c \<in> set cs. signature_of h c \<in> S"
  shows "length cs = (\<Sum>key \<in> S. repeats (tool_signature (json_text h) (hash_hex h)) cs key)"
  using assms(2)
proof (induction cs)
  case (Cons c cs)
  obtain i n v where c: "c = (i, n, v)" by (cases c)
  let ?sig = "tool_signature (json_text h) (hash_hex h)"
  have "(\<Sum>key \<in> S. repeats ?sig (c # cs) key)
      = (\<Sum>key \<in> S. if ?sig n v = key then 1 else 0) + (\<Sum>key \<in> S. repeats ?sig cs key)"
    by (simp add: c sum.distrib)
  also have "(\<Sum>key \<in> S. if ?sig n v = key then 1 else 0) = (1 :: nat)"
    using Cons.prems assms(1) by (simp add: c)
  finally show ?case using Cons by simp
qed simp

lemma calls_bounded:
  assumes "finite S" "\<forall>c \<in> set cs. signature_of h c \<in> S"
    and "\<forall>key. repeats (tool_signature (json_text h) (hash_hex h)) cs key < 5"
  shows "length cs \<le> 4 * card S"
proof -
  have "length cs \<le> (\<Sum>key \<in> S. 4)"
    unfolding calls_by_signature[OF assms(1,2)] using assms(3) by (intro sum_mono) (simp add: less_Suc_eq_le[symmetric])
  then show ?thesis by simp
qed

lemma rounds_bounded:
  assumes "finite S" "\<forall>inp \<in> set inps. asks_within h S inp"
    and "\<forall>c \<in> set prev. signature_of h c \<in> S"
    and "\<forall>key. repeats (tool_signature (json_text h) (hash_hex h)) prev key < 5"
    and "detector r = tally (tool_signature (json_text h) (hash_hex h)) prev"
    and "continuations t \<le> 3" and "fst (turn_loop h inps (t, r)) = Inr None"
  shows "length inps + 4 * length prev + continuations t \<le> 16 * card S + 3"
  using assms(2-7)
proof (induction inps arbitrary: prev t r)
  case Nil
  then show ?case using calls_bounded[OF assms(1)] by fastforce
next
  case (Cons inp inps)
  let ?sig = "tool_signature (json_text h) (hash_hex h)"
  obtain x t' r' where m: "turn_round h inp (t, r) = (x, t', r')" by (metis prod_cases3)
  with Cons.prems(6) have x: "x = Inr None" by (cases x) (auto split: option.splits)
  with Cons.prems(6) m have rest: "fst (turn_loop h inps (t', r')) = Inr None" by simp
  from m x have "turn_round h inp (t, r) = (Inr None, t', r')" by simp
  then show ?case
  proof (cases rule: round_goes_on)
    case Continued
    then have "continuations t' = continuations t + 1" "continuations t' \<le> 3" "detector r' = detector r"
      by (auto simp: continued_def MAX_AUTO_CONTINUATIONS_def)
    with Cons.IH[of prev r' t'] Cons.prems rest show ?thesis by simp
  next
    case (Batch ms res r1 r2)
    let ?calls = "tool_uses res"
    obtain action where a: "detector_before_tools (json_text h) (hash_hex h) ?calls (tally ?sig prev) = (action, detector r')"
        "\<not> is_abort action" and ne: "?calls \<noteq> []" "continuations t' = 0"
      using Batch(2) Cons.prems(4) by (auto simp: batch_done_def)
    from detect_calls_exact[OF Cons.prems(3), of Continue ?calls action "detector r'"] a
    have d: "detector r' = tally ?sig (prev @ ?calls)" "\<forall>key. repeats ?sig (prev @ ?calls) key < 5"
      by (auto simp: detector_before_tools_def not_le)
    have "signature_of h c \<in> S" if call: "c \<in> set ?calls" for c
    proof -
      obtain i n v where c: "c = (i, n, v)" by (cases c)
      obtain k items w where "attempts (answers inp ms) k = Answered (Inr items) w"
        "Item (Inr (Chunk_tool_use i n v)) \<in> set items"
        using stream_calls_offered[OF Batch(1)] call c by blast
      then show ?thesis using Cons.prems(1) c by (simp add: asks_within_def) blast
    qed
    then have within: "\<forall>c \<in> set (prev @ ?calls). signature_of h c \<in> S" using Cons.prems(2) by auto
    have "length inps + 4 * length (prev @ ?calls) + continuations t' \<le> 16 * card S + 3"
      by (rule Cons.IH[OF _ within d(2) d(1) _ rest]) (use Cons.prems(1) ne(2) in simp_all)
    moreover have "1 \<le> length ?calls" using ne(1) by (cases ?calls) auto
    ultimately show ?thesis using Cons.prems(5) by simp
  qed
qed

text \<open>
  C11. A turn cannot run on with the same calls. When every call the model asks for has one of \<open>n\<close>
  signatures (tool and first 200 bytes of the input) and the user has just spoken, a turn that has
  been through more than \<open>16 * n + 3\<close> rounds is over, with an output or an error: the loop
  detector ends it at the fifth repetition, and between two batches of tools there are at most
  three automatic continuations.
\<close>

theorem turn_ends:
  assumes "finite S" "\<forall>inp \<in> set inps. asks_within h S inp" "detector r = detector_user_input d"
    and "16 * card S + 3 < length inps"
  shows "fst (execute_turn h inps ctx r) \<noteq> Inr None"
proof
  assume "fst (execute_turn h inps ctx r) = Inr None"
  then have "fst (turn_loop h inps (turn_start ctx, r)) = Inr None"
    by (auto simp: execute_turn_def execute_turn_inner_def split: prod.splits)
  moreover have "detector r = tally (tool_signature (json_text h) (hash_hex h)) []"
    using assms(3) by (simp add: detector_user_input_def)
  ultimately have "length inps \<le> 16 * card S + 3"
    using rounds_bounded[OF assms(1,2), of "[]" r "turn_start ctx"] by (simp add: turn_start_def)
  with assms(4) show False by simp
qed

theorem turn_ends_witness:
  "fst (execute_turn small_host (replicate 20 stuck_round) (turn_context_new 0)
     (start_runner (store_new (calculate length 9 [] 0 0)))) \<noteq> Inr None"
proof -
  let ?S = "{tool_signature (json_text small_host) (hash_hex small_host) ''Bash'' JNull}"
  have "\<forall>inp \<in> set (replicate 20 stuck_round). asks_within small_host ?S inp"
    by (auto simp: asks_within_def stuck_round_def stuck_env_def)
  from turn_ends[OF _ this, where d = loop_detector_new and ctx = "turn_context_new 0"
      and r = "start_runner (store_new (calculate length 9 [] 0 0))"]
  show ?thesis by (simp add: start_runner_def loop_detector_new_def detector_user_input_def)
qed

subsection \<open>What the diff tracker misses\<close>

lemma track_nothing: "track_calls {} calls ctx = ctx"
  by (induction "{} :: string set" calls ctx rule: track_calls.induct) auto

text \<open>
  The files a batch wrote are not recorded when a message of the user arrives during it: the
  message is injected before the diff tracker is told of the results, and the tracker is given the
  content of the last message, which then is the injected one and holds no result.
\<close>

theorem arrived_message_hides_writes:
  assumes "last_content (inject_pending_messages h (arrived inp)
      (r\<lparr>store := append_warnings_to_last_user (pending_warnings (turn_ctx t)) (store r)\<rparr>))
    = content (build_user_message e)"
  shows "modified_files (turn_ctx (fst (after_tools h inp uses t r))) = modified_files (turn_ctx t)"
proof -
  have "List.map_filter succeeded_id (content (build_user_message e)) = []"
    by (auto simp: build_user_message_def Let_def List.map_filter_def comp_def)
  with assms show ?thesis
    by (simp add: after_tools_def Let_def tracker_after_tools_def track_nothing)
qed

definition wrote_store :: context_store where
  "wrote_store =
     \<lparr>messages = [user_text_msg ''go'',
        \<lparr>id_opt = None, role = Assistant, content = [ToolUse ''a'' ''Write'' (JObj [(''file_path'', JStr ''f'')])]\<rparr>,
        \<lparr>id_opt = None, role = User, content = [ToolResult ''a'' ''ok'' False False None]\<rparr>],
      budget = calculate length 1000 [] 0 100\<rparr>"

definition hello :: envelope where
  "hello = \<lparr>env_source = Human, env_target = ''main'', env_content = text_only ''hello''\<rparr>"

theorem arrived_message_hides_writes_witness:
  "modified_files (turn_ctx (fst (after_tools small_host (stuck_round\<lparr>arrived := [hello]\<rparr>)
       [(''a'', ''Write'', JObj [(''file_path'', JStr ''f'')])] (turn_start (turn_context_new 0))
       (start_runner wrote_store)))) = {}
   \<and> modified_files (turn_ctx (fst (after_tools small_host stuck_round
       [(''a'', ''Write'', JObj [(''file_path'', JStr ''f'')])] (turn_start (turn_context_new 0))
       (start_runner wrote_store)))) = {''f''}"
proof (rule conjI)
  have "last_content (inject_pending_messages small_host (arrived (stuck_round\<lparr>arrived := [hello]\<rparr>))
      ((start_runner wrote_store)\<lparr>store := append_warnings_to_last_user
         (pending_warnings (turn_ctx (turn_start (turn_context_new 0)))) (store (start_runner wrote_store))\<rparr>))
    = content (build_user_message hello)"
    by code_simp
  from arrived_message_hides_writes[OF this]
  show "modified_files (turn_ctx (fst (after_tools small_host (stuck_round\<lparr>arrived := [hello]\<rparr>)
       [(''a'', ''Write'', JObj [(''file_path'', JStr ''f'')])] (turn_start (turn_context_new 0))
       (start_runner wrote_store)))) = {}"
    by (simp add: turn_start_def turn_context_new_def)
next
  show "modified_files (turn_ctx (fst (after_tools small_host stuck_round
       [(''a'', ''Write'', JObj [(''file_path'', JStr ''f'')])] (turn_start (turn_context_new 0))
       (start_runner wrote_store)))) = {''f''}"
    by code_simp
qed

end
