(* ===== verification/Models.thy ===== *)
theory Models
  imports Provider_Api Budget Rust_Search
begin

section \<open>Models, their providers and the model configuration\<close>

text \<open>
  \<open>loopal-provider/src\<close>: the catalog of known models and the user's overrides of it
  (\<open>model_info/\<close>), the registry that finds the provider of a model (\<open>router.rs\<close>), the resolution of the
  thinking configuration (\<open>thinking_resolver.rs\<close>); and \<open>agent_loop/model_config.rs\<close> of
  \<open>loopal-runtime\<close>, from which the context budget is built. The user's overrides are a map that is
  set once. The lemmas show which provider the registry picks after any sequence of
  registrations, and that every field of a model is the override's, or the catalog's, or the default.
\<close>

subsection \<open>The catalog\<close>

definition model_entry ::
  "string \<Rightarrow> string \<Rightarrow> string \<Rightarrow> u32 \<Rightarrow> u32 \<Rightarrow> thinking_capability \<Rightarrow> speed_tier \<Rightarrow> cost_tier
     \<Rightarrow> quality_tier \<Rightarrow> bool \<Rightarrow> bool \<Rightarrow> model_info" where
  "model_entry i p n win out th sp co qu tools vis =
     \<lparr>model_id = i, model_provider = p, display_name = n, model_window = win, max_output_tokens = out,
      model_thinking = th, speed = sp, cost = co, quality = qu, supports_tools = tools, supports_vision = vis\<rparr>"

definition KNOWN_MODELS :: "model_info list" where
  "KNOWN_MODELS =
  [model_entry ''claude-sonnet-4-20250514'' ''anthropic'' ''Claude Sonnet 4'' 200000 64000 BudgetRequired Speed_medium Cost_medium Quality_standard True True,
   model_entry ''claude-sonnet-4-6'' ''anthropic'' ''Claude Sonnet 4.6'' 1000000 64000 Adaptive Speed_medium Cost_medium Quality_standard True True,
   model_entry ''claude-opus-4-20250514'' ''anthropic'' ''Claude Opus 4'' 200000 32000 BudgetRequired Speed_slow Cost_high Quality_premium True True,
   model_entry ''claude-opus-4-6'' ''anthropic'' ''Claude Opus 4.6'' 1000000 128000 Adaptive Speed_slow Cost_high Quality_premium True True,
   model_entry ''claude-haiku-3-5-20241022'' ''anthropic'' ''Claude 3.5 Haiku'' 200000 8192 No_thinking Speed_fast Cost_low Quality_basic True True,
   model_entry ''gpt-4o'' ''openai'' ''GPT-4o'' 128000 16384 No_thinking Speed_medium Cost_medium Quality_standard True True,
   model_entry ''gpt-4o-mini'' ''openai'' ''GPT-4o Mini'' 128000 16384 No_thinking Speed_fast Cost_low Quality_basic True True,
   model_entry ''gpt-4.1'' ''openai'' ''GPT-4.1'' 1047576 32768 No_thinking Speed_medium Cost_medium Quality_standard True True,
   model_entry ''gpt-4.1-mini'' ''openai'' ''GPT-4.1 Mini'' 1047576 32768 No_thinking Speed_fast Cost_low Quality_basic True True,
   model_entry ''gpt-4.1-nano'' ''openai'' ''GPT-4.1 Nano'' 1047576 32768 No_thinking Speed_fast Cost_low Quality_basic True True,
   model_entry ''o3'' ''openai'' ''o3'' 200000 100000 ReasoningEffort Speed_slow Cost_high Quality_premium True True,
   model_entry ''o3-mini'' ''openai'' ''o3-mini'' 200000 100000 ReasoningEffort Speed_medium Cost_medium Quality_standard True False,
   model_entry ''o4-mini'' ''openai'' ''o4-mini'' 200000 100000 ReasoningEffort Speed_medium Cost_medium Quality_standard True True,
   model_entry ''gemini-2.0-flash'' ''google'' ''Gemini 2.0 Flash'' 1000000 8192 No_thinking Speed_fast Cost_low Quality_basic True True,
   model_entry ''gemini-2.5-pro-preview-05-06'' ''google'' ''Gemini 2.5 Pro'' 1000000 65536 ThinkingBudget Speed_medium Cost_medium Quality_standard True True,
   model_entry ''gemini-2.5-flash-preview-04-17'' ''google'' ''Gemini 2.5 Flash'' 1000000 65536 ThinkingBudget Speed_fast Cost_low Quality_standard True True,
   model_entry ''deepseek-chat'' ''openai_compat'' ''DeepSeek V3'' 128000 8192 No_thinking Speed_medium Cost_low Quality_standard True False,
   model_entry ''deepseek-reasoner'' ''openai_compat'' ''DeepSeek R1'' 128000 8192 ReasoningEffort Speed_slow Cost_low Quality_standard True False]"

definition known_model :: "string \<Rightarrow> model_info option" where
  "known_model i = List.find (\<lambda>m. model_id m = i) KNOWN_MODELS"

subsection \<open>Overrides\<close>

definition synthesize :: "string \<Rightarrow> string \<Rightarrow> model_info" where
  "synthesize i provider =
     model_entry i provider i 128000 16384 No_thinking Speed_medium Cost_medium Quality_standard True False"

definition set_or :: "'a option \<Rightarrow> 'a \<Rightarrow> 'a" where
  "set_or v old = (case v of Some x \<Rightarrow> x | None \<Rightarrow> old)"

definition apply_override :: "model_info \<Rightarrow> model_override \<Rightarrow> model_info" where
  "apply_override base ov =
     base\<lparr>model_provider := set_or (ov_provider ov) (model_provider base),
          display_name := set_or (ov_display_name ov) (display_name base),
          model_window := set_or (ov_window ov) (model_window base),
          max_output_tokens := set_or (ov_max_output ov) (max_output_tokens base),
          speed := set_or (ov_speed ov) (speed base),
          cost := set_or (ov_cost ov) (cost base),
          quality := set_or (ov_quality ov) (quality base),
          supports_tools := set_or (ov_tools ov) (supports_tools base),
          supports_vision := set_or (ov_vision ov) (supports_vision base),
          model_thinking := set_or (ov_thinking ov) (model_thinking base)\<rparr>"

definition merged_model :: "string \<Rightarrow> model_override \<Rightarrow> model_info" where
  "merged_model i ov =
     apply_override
       (case known_model i of Some m \<Rightarrow> m | None \<Rightarrow> synthesize i (set_or (ov_provider ov) ''openai_compat'')) ov"

text \<open>The overrides are set once: a later call changes nothing.\<close>

type_synonym user_models = "(string \<Rightarrow> model_info option) option"

definition init_user_models :: "(string \<Rightarrow> model_override option) \<Rightarrow> user_models \<Rightarrow> user_models" where
  "init_user_models raw st =
     (case st of
        Some m \<Rightarrow> Some m
      | None \<Rightarrow> Some (\<lambda>i. map_option (merged_model i) (raw i)))"

definition get_user_model :: "user_models \<Rightarrow> string \<Rightarrow> model_info option" where
  "get_user_model st i = (case st of None \<Rightarrow> None | Some m \<Rightarrow> m i)"

definition get_model_info :: "user_models \<Rightarrow> string \<Rightarrow> model_info option" where
  "get_model_info st i =
     (case get_user_model st i of Some info \<Rightarrow> Some info | None \<Rightarrow> known_model i)"

text \<open>\<open>entries\<close>: the user's models in the order the map is iterated.\<close>

definition overlay_model :: "string \<times> model_info \<Rightarrow> model_info list \<Rightarrow> model_info list" where
  "overlay_model = (\<lambda>(i, info) ms.
     case position (\<lambda>m. model_id m = i) ms of
       Some k \<Rightarrow> ms[k := info]
     | None \<Rightarrow> ms @ [info])"

definition list_all_models :: "(string \<times> model_info) list \<Rightarrow> model_info list" where
  "list_all_models entries = run_ops overlay_model entries KNOWN_MODELS"

subsection \<open>Provider and thinking of a model\<close>

definition resolve_provider_by_prefix :: "string \<Rightarrow> string" where
  "resolve_provider_by_prefix i =
     (if prefix ''claude'' i then ''anthropic''
      else if prefix ''gpt-'' i \<or> prefix ''o1'' i \<or> prefix ''o3'' i \<or> prefix ''o4'' i then ''openai''
      else if prefix ''gemini'' i then ''google''
      else ''openai_compat'')"

definition resolve_provider :: "string \<Rightarrow> string" where
  "resolve_provider i =
     (case known_model i of Some m \<Rightarrow> model_provider m | None \<Rightarrow> resolve_provider_by_prefix i)"

definition get_thinking_capability :: "user_models \<Rightarrow> string \<Rightarrow> thinking_capability" where
  "get_thinking_capability st i =
     (case get_user_model st i of
        Some info \<Rightarrow> model_thinking info
      | None \<Rightarrow>
          (case known_model i of
             Some m \<Rightarrow> model_thinking m
           | None \<Rightarrow>
               if prefix ''o1'' i \<or> prefix ''o3'' i \<or> prefix ''o4'' i then ReasoningEffort
               else if contains i ''gemini-2.5'' then ThinkingBudget
               else No_thinking))"

text \<open>
  The product with \<open>0.8\<close> in double precision, truncated, is four fifths rounded down for every
  \<open>u32\<close>: the double nearest to \<open>0.8\<close> is above it by less than a part in \<open>2 ^ 54\<close>.
\<close>

definition resolve_thinking_config ::
  "thinking_config \<Rightarrow> thinking_capability \<Rightarrow> u32 \<Rightarrow> thinking_config option" where
  "resolve_thinking_config cfg cap max_output =
     (if cap = No_thinking then None
      else case cfg of
             Thinking_disabled \<Rightarrow> None
           | Thinking_auto \<Rightarrow>
               (case cap of
                  Adaptive \<Rightarrow> Some (Thinking_effort Effort_high)
                | BudgetRequired \<Rightarrow> Some (Thinking_tokens (word_of_nat (unat max_output * 4 div 5)))
                | ReasoningEffort \<Rightarrow> Some (Thinking_effort Effort_medium)
                | ThinkingBudget \<Rightarrow> Some (Thinking_effort Effort_high)
                | No_thinking \<Rightarrow> None)
           | other \<Rightarrow> Some other)"

subsection \<open>The registry of providers\<close>

record 'p provider_registry =
  providers :: "string \<Rightarrow> 'p option"
  prefix_map :: "(string \<times> string) list"

definition provider_registry_new :: "'p provider_registry" where
  "provider_registry_new = \<lparr>providers = (\<lambda>_. None), prefix_map = []\<rparr>"

definition register_provider :: "string \<Rightarrow> 'p \<Rightarrow> 'p provider_registry \<Rightarrow> 'p provider_registry" where
  "register_provider n p reg = reg\<lparr>providers := (providers reg)(n \<mapsto> p)\<rparr>"

definition register_with_prefix ::
  "string \<Rightarrow> 'p \<Rightarrow> string \<Rightarrow> 'p provider_registry \<Rightarrow> 'p provider_registry" where
  "register_with_prefix n p pre reg =
     reg\<lparr>providers := (providers reg)(n \<mapsto> p),
         prefix_map := sort_key (\<lambda>e. - int (length (fst e))) (prefix_map reg @ [(pre, n)])\<rparr>"

fun first_prefix :: "(string \<Rightarrow> 'p option) \<Rightarrow> string \<Rightarrow> (string \<times> string) list \<Rightarrow> 'p option" where
  "first_prefix ps model [] = None"
| "first_prefix ps model ((pre, n) # es) =
     (if prefix pre model then (case ps n of Some p \<Rightarrow> Some p | None \<Rightarrow> first_prefix ps model es)
      else first_prefix ps model es)"

definition no_provider_text :: "string \<Rightarrow> string \<Rightarrow> string" where
  "no_provider_text model n =
     ''no provider registered for '' @ [CHR 0x27] @ model @ [CHR 0x27] @ '' (resolved to ''
     @ [CHR 0x27] @ n @ [CHR 0x27] @ '')''"

definition resolve_model :: "user_models \<Rightarrow> 'p provider_registry \<Rightarrow> string \<Rightarrow> loopal_failure + 'p" where
  "resolve_model st reg model =
     (case Option.bind (get_model_info st model) (\<lambda>info. providers reg (model_provider info)) of
        Some p \<Rightarrow> Inr p
      | None \<Rightarrow>
          (case first_prefix (providers reg) model (prefix_map reg) of
             Some p \<Rightarrow> Inr p
           | None \<Rightarrow>
               (let n = resolve_provider model
                in case providers reg n of
                     Some p \<Rightarrow> Inr p
                   | None \<Rightarrow> Inl (Provider (ModelNotFound (no_provider_text model n))))))"

subsection \<open>The configuration of the agent's model\<close>

record model_config =
  config_thinking :: thinking_config
  max_context_tokens :: u32
  config_max_output :: u32
  context_tokens_cap :: u32

definition config_from_model :: "user_models \<Rightarrow> string \<Rightarrow> thinking_config \<Rightarrow> u32 \<Rightarrow> model_config" where
  "config_from_model st model th cap =
     (let info = get_model_info st model
      in \<lparr>config_thinking = th,
          max_context_tokens = (case info of None \<Rightarrow> 200000 | Some m \<Rightarrow> model_window m),
          config_max_output = (case info of None \<Rightarrow> 16384 | Some m \<Rightarrow> max_output_tokens m),
          context_tokens_cap = cap\<rparr>)"

definition effective_context_window :: "model_config \<Rightarrow> u32" where
  "effective_context_window c =
     (if context_tokens_cap c = 0 then max_context_tokens c
      else min (max_context_tokens c) (context_tokens_cap c))"

definition build_budget :: "(string \<Rightarrow> nat) \<Rightarrow> model_config \<Rightarrow> string \<Rightarrow> u32 \<Rightarrow> context_budget" where
  "build_budget bpe c system_prompt tools =
     calculate bpe (effective_context_window c) system_prompt tools (config_max_output c)"

definition update_model :: "user_models \<Rightarrow> string \<Rightarrow> model_config \<Rightarrow> model_config" where
  "update_model st model c = config_from_model st model (config_thinking c) (context_tokens_cap c)"

subsection \<open>Properties\<close>

lemma find_id: "List.find (\<lambda>m. f m = i) ms = Some m \<Longrightarrow> f m = i"
  by (auto simp: find_Some_iff)

datatype 'p registration = Register string 'p | Register_prefix string 'p string

fun registry_step :: "'p registration \<Rightarrow> 'p provider_registry \<Rightarrow> 'p provider_registry" where
  "registry_step (Register n p) reg = register_provider n p reg"
| "registry_step (Register_prefix n p pre) reg = register_with_prefix n p pre reg"

definition registry_wf :: "'p provider_registry \<Rightarrow> bool" where
  "registry_wf reg =
     (sorted_wrt (\<lambda>e f. length (fst f) \<le> length (fst e)) (prefix_map reg)
      \<and> list_all (\<lambda>e. providers reg (snd e) \<noteq> None) (prefix_map reg))"

interpretation registry: op_system registry_step registry_wf provider_registry_new
proof (unfold_locales, goal_cases)
  case 1
  show ?case by (simp add: registry_wf_def provider_registry_new_def)
next
  case (2 reg e)
  show ?case
  proof (cases e)
    case (Register n p)
    then show ?thesis using 2 by (auto simp: registry_wf_def register_provider_def list_all_iff)
  next
    case (Register_prefix n p pre)
    let ?k = "\<lambda>e. - int (length (fst e))"
    have "sorted (map ?k (sort_key ?k (prefix_map reg @ [(pre, n)])))" by simp
    then have "sorted_wrt (\<lambda>e f. length (fst f) \<le> length (fst e)) (sort_key ?k (prefix_map reg @ [(pre, n)]))"
      by (simp add: sorted_map)
    then show ?thesis
      using 2 Register_prefix by (auto simp: registry_wf_def register_with_prefix_def list_all_iff)
  qed
qed

lemma first_prefix_None:
  "list_all (\<lambda>e. ps (snd e) \<noteq> None) es \<Longrightarrow>
     first_prefix ps model es = None \<longleftrightarrow> (\<forall>e \<in> set es. \<not> prefix (fst e) model)"
  by (induction ps model es rule: first_prefix.induct) (auto split: option.splits)

lemma first_prefix_Some:
  assumes "sorted_wrt (\<lambda>e f. length (fst f) \<le> length (fst e)) es" "list_all (\<lambda>e. ps (snd e) \<noteq> None) es"
    and "first_prefix ps model es = Some p"
  shows "\<exists>e \<in> set es. prefix (fst e) model \<and> ps (snd e) = Some p
           \<and> (\<forall>f \<in> set es. prefix (fst f) model \<longrightarrow> length (fst f) \<le> length (fst e))"
  using assms
proof (induction ps model es rule: first_prefix.induct)
  case (2 ps model pre n es)
  show ?case
  proof (cases "prefix pre model")
    case True
    with 2 show ?thesis by (intro bexI[of _ "(pre, n)"]) auto
  next
    case False
    with 2 obtain e where "e \<in> set es" "prefix (fst e) model" "ps (snd e) = Some p"
      "\<forall>f \<in> set es. prefix (fst f) model \<longrightarrow> length (fst f) \<le> length (fst e)" by auto
    with False show ?thesis by (intro bexI[of _ e]) auto
  qed
qed simp

text \<open>
  Which provider serves a model. After any registrations, a model whose catalog or user entry
  names a registered provider is served by it. Any other model is served by the provider of the
  longest registered prefix of its name, and by the provider the built-in rule names when no
  registered prefix fits; the call fails only when that one is not registered either.
\<close>

theorem provider_of_model:
  assumes "reg = run_ops registry_step ops provider_registry_new"
  shows "case Option.bind (get_model_info st model) (\<lambda>info. providers reg (model_provider info)) of
     Some p \<Rightarrow> resolve_model st reg model = Inr p
   | None \<Rightarrow>
       (\<exists>pre n p. (pre, n) \<in> set (prefix_map reg) \<and> prefix pre model \<and> providers reg n = Some p
          \<and> resolve_model st reg model = Inr p
          \<and> (\<forall>(pre', n') \<in> set (prefix_map reg). prefix pre' model \<longrightarrow> length pre' \<le> length pre))
     \<or> ((\<forall>(pre, n) \<in> set (prefix_map reg). \<not> prefix pre model)
          \<and> (case providers reg (resolve_provider model) of
               Some p \<Rightarrow> resolve_model st reg model = Inr p
             | None \<Rightarrow> \<exists>t. resolve_model st reg model = Inl (Provider (ModelNotFound t))))"
proof (cases "Option.bind (get_model_info st model) (\<lambda>info. providers reg (model_provider info))")
  case None
  have wf: "registry_wf reg" using registry.inv_reached assms by simp
  then have all: "list_all (\<lambda>e. providers reg (snd e) \<noteq> None) (prefix_map reg)"
    and order: "sorted_wrt (\<lambda>e f. length (fst f) \<le> length (fst e)) (prefix_map reg)"
    by (simp_all add: registry_wf_def)
  show ?thesis
  proof (cases "first_prefix (providers reg) model (prefix_map reg)")
    case none: None
    then have "\<forall>(pre, n) \<in> set (prefix_map reg). \<not> prefix pre model"
      using first_prefix_None[OF all] by auto
    with None none show ?thesis by (auto simp: resolve_model_def Let_def split: option.split)
  next
    case (Some p)
    from first_prefix_Some[OF order all this] obtain e where
      "e \<in> set (prefix_map reg)" "prefix (fst e) model" "providers reg (snd e) = Some p"
      "\<forall>f \<in> set (prefix_map reg). prefix (fst f) model \<longrightarrow> length (fst f) \<le> length (fst e)" by blast
    moreover have "resolve_model st reg model = Inr p" using None Some by (simp add: resolve_model_def)
    ultimately have "\<exists>pre n p. (pre, n) \<in> set (prefix_map reg) \<and> prefix pre model \<and> providers reg n = Some p
          \<and> resolve_model st reg model = Inr p
          \<and> (\<forall>(pre', n') \<in> set (prefix_map reg). prefix pre' model \<longrightarrow> length pre' \<le> length pre)"
      by (intro exI[of _ "fst e"] exI[of _ "snd e"] exI[of _ p]) auto
    with None show ?thesis by simp
  qed
qed (simp add: resolve_model_def)

theorem provider_of_model_witness:
  "resolve_model None (run_ops registry_step
       [Register_prefix ''a'' (1 :: nat) ''deep'', Register_prefix ''b'' 2 ''deepseek-v''] provider_registry_new)
     ''deepseek-v4'' = Inr 2"
proof -
  let ?reg = "run_ops registry_step
       [Register_prefix ''a'' (1 :: nat) ''deep'', Register_prefix ''b'' 2 ''deepseek-v''] provider_registry_new"
  have unknown: "get_model_info None ''deepseek-v4'' = None"
    by code_simp
  have reg: "prefix_map ?reg = [(''deepseek-v'', ''b''), (''deep'', ''a'')]"
    "providers ?reg = (Map.empty(''a'' \<mapsto> 1))(''b'' \<mapsto> 2)"
    by (simp_all add: register_with_prefix_def provider_registry_new_def)
  from provider_of_model[where st = None and model = "''deepseek-v4''", OF refl[of ?reg]]
  show ?thesis unfolding unknown reg by auto
qed

text \<open>
  A model the user configures has every field from the override, or else from the catalog, or
  else the default; models without an override are those of the catalog. The budget is that of the
  model's window under the user's cap, and switching to another model and back leaves the
  configuration as it was.
\<close>

theorem user_models_override:
  "get_model_info (init_user_models raw None) i =
     (case raw i of
        None \<Rightarrow> known_model i
      | Some ov \<Rightarrow> Some (merged_model i ov))
   \<and> (raw i = Some ov \<longrightarrow> model_id (merged_model i ov) = i
        \<and> model_window (merged_model i ov)
            = (case ov_window ov of Some w \<Rightarrow> w
               | None \<Rightarrow> (case known_model i of Some m \<Rightarrow> model_window m | None \<Rightarrow> 128000)))
   \<and> init_user_models raw' (init_user_models raw None) = init_user_models raw None
   \<and> update_model st a (update_model st b (config_from_model st a th cap)) = config_from_model st a th cap
   \<and> effective_context_window (config_from_model st a th cap) \<le> max_context_tokens (config_from_model st a th cap)"
  by (auto simp: get_model_info_def init_user_models_def get_user_model_def merged_model_def
      apply_override_def synthesize_def model_entry_def set_or_def known_model_def update_model_def
      config_from_model_def effective_context_window_def Let_def
      split: option.splits dest: find_id)

theorem user_models_override_witness:
  "model_window (merged_model ''my-model'' \<lparr>ov_provider = None, ov_display_name = None, ov_window = None,
     ov_max_output = None, ov_speed = None, ov_cost = None, ov_quality = None, ov_tools = None,
     ov_vision = None, ov_thinking = None\<rparr>) = 128000"
proof -
  let ?ov = "\<lparr>ov_provider = None, ov_display_name = None, ov_window = None,
     ov_max_output = None, ov_speed = None, ov_cost = None, ov_quality = None, ov_tools = None,
     ov_vision = None, ov_thinking = None\<rparr>"
  have "known_model ''my-model'' = None" by code_simp
  then show ?thesis
    using user_models_override[where i = "''my-model''" and ov = ?ov and raw = "\<lambda>_. Some ?ov"] by simp
qed

end
