(* ===== verification/Agent_Loop.thy ===== *)
theory Agent_Loop
  imports Turn Models
begin

section \<open>The agent loop\<close>

text \<open>
  \<open>loopal-runtime/src/agent_loop\<close>: \<open>input.rs\<close> (waiting for input, the control commands),
  \<open>rewind.rs\<close>, \<open>run.rs\<close> (the outer loop) and \<open>runner.rs\<close> (\<open>run\<close>, and the budget after a switch of
  the model), with the commands of \<open>loopal-protocol/src/control.rs\<close>. What the frontend and the
  scheduler deliver is a list of events, used up in order by every wait; what the turns meet is a
  list of turns. When a list is used up the loop still runs. The lemmas show how a session ends,
  what rewinding and switching the model do, and where they lose what the log holds.
\<close>

subsection \<open>Rewinding\<close>

definition has_text_block :: "message \<Rightarrow> bool" where
  "has_text_block msg = list_ex (\<lambda>b. case b of Text _ \<Rightarrow> True | _ \<Rightarrow> False) (content msg)"

definition detect_turn_boundaries :: "message list \<Rightarrow> nat list" where
  "detect_turn_boundaries ms = indices (\<lambda>m. role m = User \<and> has_text_block m) ms"

definition turn_preview :: "message \<Rightarrow> nat \<Rightarrow> string" where
  "turn_preview msg max_len =
     (let t = text_content msg
      in if char_count t \<le> max_len then t else take_chars max_len t @ ''...'')"

subsection \<open>State\<close>

record loop_state =
  agent :: runner
  router :: model_router
  model_cfg :: model_config
  interrupted :: bool
  trigger_open :: bool

text \<open>What the loop is given; \<open>parse_thinking\<close> is the JSON parser for a thinking configuration.\<close>

record 'w setting =
  hosted :: "'w host"
  system_prompt :: string
  tool_defs :: "tool_definition list"
  known_overrides :: user_models
  parse_thinking :: "string \<Rightarrow> string + thinking_config"

definition on_agent :: "(runner \<Rightarrow> ('e + 'a) \<times> runner) \<Rightarrow> loop_state \<Rightarrow> ('e + 'a) \<times> loop_state" where
  "on_agent f st = (case f (agent st) of (x, r) \<Rightarrow> (x, st\<lparr>agent := r\<rparr>))"

definition recalculate_budget :: "'w setting \<Rightarrow> loop_state \<Rightarrow> loop_state" where
  "recalculate_budget S st =
     (let h = hosted S;
          tool_tokens = estimate_tool_tokens (bpe h) (json_text h) (tool_defs S);
          b = build_budget (bpe h) (model_cfg st) (system_prompt S) tool_tokens
      in st\<lparr>agent := (agent st)\<lparr>store := update_budget (bpe h) (json_text h) b (store (agent st))\<rparr>\<rparr>)"

subsection \<open>Input\<close>

text \<open>
  What a wait meets: input of the frontend, or \<open>None\<close> when it is gone, with the summarization
  provider a compaction would use; a message of the scheduler, or the end of its channel.
\<close>

datatype agent_input = Input_message envelope | Input_control control_command "summarizer option"

datatype wait_event =
    Frontend "agent_input option"
  | Trigger "envelope option"

text \<open>Scheduled messages are not written to the log.\<close>

definition ingest_message :: "'w host \<Rightarrow> envelope \<Rightarrow> runner \<Rightarrow> runner" where
  "ingest_message h e r =
     (case (if env_source e = Scheduled then (build_user_message e, r)
            else persist h (build_user_message e) r) of
        (msg, r) \<Rightarrow> r\<lparr>store := push_user (bpe h) (json_text h) msg (store r)\<rparr>)"

definition handle_rewind :: "'w host \<Rightarrow> nat \<Rightarrow> runner \<Rightarrow> (loopal_failure + unit) \<times> runner" where
  "handle_rewind h turn_index r =
     (let ms = messages (store r);
          boundaries = detect_turn_boundaries ms
      in if length boundaries \<le> turn_index then (Inr (), r)
         else
           let truncate_at = boundaries ! turn_index;
               r = (if truncate_at = 0 then persist_marker h (Clear (now_text h)) r
                    else case id_opt (ms ! truncate_at) of
                           Some mid \<Rightarrow> persist_marker h (RewindTo mid (now_text h)) r
                         | None \<Rightarrow> r);
               r = r\<lparr>store := store_truncate truncate_at (store r),
                     turn_count := min (turn_count r) (word_of_nat turn_index)\<rparr>
           in emit h (Rewound (length (detect_turn_boundaries (messages (store r))))) r)"

fun mode_name :: "agent_mode \<Rightarrow> string" where
  "mode_name Plan = ''plan''"
| "mode_name Act = ''act''"

fun handle_control ::
  "'w setting \<Rightarrow> control_command \<Rightarrow> summarizer option \<Rightarrow> loop_state \<Rightarrow> (loopal_failure + unit) \<times> loop_state"
where
  "handle_control S (ModeSwitch m) sm st =
     on_agent (\<lambda>r. emit (hosted S) (Mode_changed (mode_name m)) (r\<lparr>mode := m\<rparr>)) st"
| "handle_control S Clear_history sm st =
     on_agent (\<lambda>r.
       let h = hosted S;
           r = persist_marker h (Clear (now_text h)) r;
           r = r\<lparr>store := store_clear (store r), turn_count := 0, tokens := tokens_new\<rparr>
       in emit h (Token_usage 0 0 (context_window (budget (store r))) 0 0 0) r) st"
| "handle_control S Compact_now sm st = on_agent (force_compact (hosted S) sm) st"
| "handle_control S (ModelSwitch m) sm st =
     (Inr (), recalculate_budget S
        (st\<lparr>model_cfg := update_model (known_overrides S) m (model_cfg st), router := set_default m (router st)\<rparr>))"
| "handle_control S (Rewind i) sm st = on_agent (handle_rewind (hosted S) i) st"
| "handle_control S (ThinkingSwitch json) sm st =
     (case parse_thinking S json of
        Inr cfg \<Rightarrow> (Inr (), st\<lparr>model_cfg := (model_cfg st)\<lparr>config_thinking := cfg\<rparr>\<rparr>)
      | Inl e \<Rightarrow> (Inr (), st))"

datatype waited = Message_added | Disconnected | Still_waiting

text \<open>
  The wait: the events left, and what ended it. The scheduler is listened to while its channel is
  open; an event it cannot deliver any more is passed over.
\<close>

fun wait_loop ::
  "'w setting \<Rightarrow> wait_event list \<Rightarrow> loop_state \<Rightarrow> (loopal_failure + waited \<times> wait_event list) \<times> loop_state"
where
  "wait_loop S [] st = (Inr (Still_waiting, []), st)"
| "wait_loop S (Trigger e # evs) st =
     (if \<not> trigger_open st then wait_loop S evs st
      else case e of
             Some e \<Rightarrow> (Inr (Message_added, evs), st\<lparr>agent := ingest_message (hosted S) e (agent st)\<rparr>)
           | None \<Rightarrow> wait_loop S evs (st\<lparr>trigger_open := False\<rparr>))"
| "wait_loop S (Frontend None # evs) st = (Inr (Disconnected, evs), st)"
| "wait_loop S (Frontend (Some (Input_message e)) # evs) st =
     (Inr (Message_added, evs), st\<lparr>agent := ingest_message (hosted S) e (agent st)\<rparr>)"
| "wait_loop S (Frontend (Some (Input_control ctrl sm)) # evs) st =
     and_then (handle_control S ctrl sm st) (\<lambda>_ st. wait_loop S evs st)"

definition wait_for_input ::
  "'w setting \<Rightarrow> wait_event list \<Rightarrow> loop_state \<Rightarrow> (loopal_failure + waited \<times> wait_event list) \<times> loop_state"
where
  "wait_for_input S evs st =
     and_then (on_agent (emit (hosted S) Awaiting_input) (st\<lparr>interrupted := False\<rparr>))
       (\<lambda>_ st. wait_loop S evs st)"

subsection \<open>The outer loop\<close>

datatype terminate_reason = Goal | Error_reason | MaxTurns | Aborted

type_synonym agent_output = "string \<times> terminate_reason"

text \<open>What one turn meets, and whether the signal to interrupt is set when it is over.\<close>

record turn_input =
  rounds :: "round_input list"
  signalled :: bool

definition is_server_block_error :: "loopal_failure \<Rightarrow> bool" where
  "is_server_block_error e =
     (let msg = failure_text e
      in contains msg ''code_execution''
         \<and> (contains msg ''without a corresponding'' \<or> contains msg ''tool_result''))"

definition user_spoke :: "loop_state \<Rightarrow> loop_state" where
  "user_spoke st = st\<lparr>agent := (agent st)\<lparr>detector := detector_user_input (detector (agent st))\<rparr>\<rparr>"

definition next_turn :: "loop_state \<Rightarrow> loop_state" where
  "next_turn st = st\<lparr>agent := (agent st)\<lparr>turn_count := turn_count (agent st) + 1\<rparr>\<rparr>"

definition max_turns_reached ::
  "'w setting \<Rightarrow> string \<Rightarrow> loop_state \<Rightarrow> (loopal_failure + agent_output option) \<times> loop_state" where
  "max_turns_reached S latest st =
     and_then (on_agent (\<lambda>r. emit (hosted S) (Max_turns_reached (turn_count r)) r) st)
       (\<lambda>_ st. (Inr (Some (latest, MaxTurns)), st))"

text \<open>
  Waiting, and going on with \<open>k\<close> when a message was added; a frontend that is gone ends the loop.
\<close>

definition await ::
  "'w setting \<Rightarrow> wait_event list \<Rightarrow> string \<Rightarrow> loop_state
     \<Rightarrow> (wait_event list \<Rightarrow> loop_state \<Rightarrow> (loopal_failure + agent_output option) \<times> loop_state)
     \<Rightarrow> (loopal_failure + agent_output option) \<times> loop_state" where
  "await S evs latest st k =
     and_then (wait_for_input S evs st) (\<lambda>(w, evs) st.
       case w of
         Message_added \<Rightarrow> k evs st
       | Disconnected \<Rightarrow> (Inr (Some (latest, Goal)), st)
       | Still_waiting \<Rightarrow> (Inr None, st))"

definition run_turn ::
  "'w setting \<Rightarrow> turn_input \<Rightarrow> loop_state \<Rightarrow> (loopal_failure + string option) \<times> loop_state" where
  "run_turn S tn st =
     (case execute_turn (hosted S) (rounds tn) (turn_context_new (turn_count (agent st))) (agent st) of
        (x, _, r) \<Rightarrow> (x, st\<lparr>agent := r, interrupted := signalled tn\<rparr>))"

definition heard :: "loop_state \<Rightarrow> loop_state" where
  "heard st = user_spoke ((next_turn st)\<lparr>interrupted := False\<rparr>)"

fun run_loop ::
  "'w setting \<Rightarrow> bool \<Rightarrow> turn_input list \<Rightarrow> wait_event list \<Rightarrow> bool \<Rightarrow> string \<Rightarrow> loop_state
     \<Rightarrow> (loopal_failure + agent_output option) \<times> loop_state" where
  "run_loop S initial_prompt [] evs retried latest st = (Inr None, st)"
| "run_loop S initial_prompt (tn # tns) evs retried latest st =
     (let body = (\<lambda>evs st.
        if max_turns (hosted S) \<le> turn_count (agent st) then max_turns_reached S latest st
        else
          case run_turn S tn st of
            (Inr None, st) \<Rightarrow> (Inr None, st)
          | (Inr (Some out), st) \<Rightarrow>
              let latest = (if out = [] then latest else out)
              in if interrupted st then
                   and_then (on_agent (emit (hosted S) Interrupted) (st\<lparr>interrupted := False\<rparr>)) (\<lambda>_ st.
                     await S evs latest st (\<lambda>evs st. run_loop S initial_prompt tns evs retried latest (heard st)))
                 else if max_turns (hosted S) \<le> turn_count (agent st) then max_turns_reached S latest st
                 else if initial_prompt then (Inr (Some (latest, Goal)), st)
                 else await S evs latest st (\<lambda>evs st. run_loop S initial_prompt tns evs retried latest (heard st))
          | (Inl e, st) \<Rightarrow>
              if \<not> retried \<and> is_server_block_error e then
                run_loop S initial_prompt tns evs True latest
                  (st\<lparr>agent := (agent st)\<lparr>store := condense_server_blocks (store (agent st))\<rparr>\<rparr>)
              else if interrupted st then
                and_then (on_agent (emit (hosted S) Interrupted) (st\<lparr>interrupted := False\<rparr>)) (\<lambda>_ st.
                  await S evs latest st (\<lambda>evs st. run_loop S initial_prompt tns evs retried latest (heard st)))
              else if initial_prompt then (Inr (Some (latest, Error_reason)), st)
              else
                and_then (on_agent (emit (hosted S) (Error_event (failure_text e))) st) (\<lambda>_ st.
                  await S evs latest st (\<lambda>evs st.
                    run_loop S initial_prompt tns evs retried latest (user_spoke (next_turn st)))))
      in if messages (store (agent st)) = [] then
           await S evs latest st (\<lambda>evs st. body evs (user_spoke (st\<lparr>interrupted := False\<rparr>)))
         else body evs st)"

definition run ::
  "'w setting \<Rightarrow> turn_input list \<Rightarrow> wait_event list \<Rightarrow> loop_state
     \<Rightarrow> (loopal_failure + agent_output option) \<times> loop_state" where
  "run S tns evs st =
     and_then (on_agent (emit (hosted S) Started) st) (\<lambda>_ st.
       case run_loop S (messages (store (agent st)) \<noteq> []) tns evs False [] st of
         (Inr None, st) \<Rightarrow> (Inr None, st)
       | (Inr (Some out), st) \<Rightarrow> (Inr (Some out), st\<lparr>agent := emit_quiet (hosted S) Finished (agent st)\<rparr>)
       | (Inl e, st) \<Rightarrow>
           (Inl e, st\<lparr>agent := emit_quiet (hosted S) Finished
                        (emit_quiet (hosted S) (Error_event (failure_text e)) (agent st))\<rparr>))"

subsection \<open>The whole loop goes through the store\<close>

definition loop_runs :: "'w setting \<Rightarrow> loop_state \<Rightarrow> 'a \<times> loop_state \<Rightarrow> bool" where
  "loop_runs S st m = store_runs (hosted S) (store (agent st)) (store (agent (snd m)))"

lemma loop_runs_return [simp]:
  "loop_runs S st (x, st') = store_runs (hosted S) (store (agent st)) (store (agent st'))"
  by (simp add: loop_runs_def)

lemma loop_runs_and_then:
  assumes "loop_runs S st m" and "\<And>a st1. m = (Inr a, st1) \<Longrightarrow> loop_runs S st1 (k a st1)"
  shows "loop_runs S st (and_then m k)"
proof (cases m)
  case (Pair x st1)
  then show ?thesis
    using assms store_runs_trans[of "hosted S" "store (agent st)" "store (agent st1)"]
    by (cases x) (auto simp: loop_runs_def)
qed

lemma loop_runs_from:
  "store_runs (hosted S) (store (agent st)) (store (agent st1)) \<Longrightarrow> loop_runs S st1 m \<Longrightarrow> loop_runs S st m"
  unfolding loop_runs_def by (rule store_runs_trans)

lemma loop_runs_same: "store (agent st1) = store (agent st) \<Longrightarrow> loop_runs S st1 m \<Longrightarrow> loop_runs S st m"
  by (rule loop_runs_from[where ?st1.0 = st1]) simp_all

lemma loop_runs_if: "loop_runs S st a \<Longrightarrow> loop_runs S st b \<Longrightarrow> loop_runs S st (if c then a else b)"
  by simp

lemma loop_runs_agent:
  assumes "framed (hosted S) (agent st) (f (agent st))"
  shows "loop_runs S st (on_agent f st)"
  using assms by (cases "f (agent st)") (simp add: on_agent_def framed_def frame_def)

lemma loop_runs_emit: "store (agent st1) = store (agent st) \<Longrightarrow> loop_runs S st (on_agent (emit (hosted S) ev) st1)"
  by (rule loop_runs_same[where ?st1.0 = st1]) (auto intro: loop_runs_agent)

lemma frame_ingest: "frame h r (ingest_message h e r)"
proof (cases "env_source e = Scheduled")
  case True
  then show ?thesis
    using store_runs_step[of "Push_user (build_user_message e)" h "store r"]
    by (simp add: ingest_message_def frame_def)
next
  case False
  obtain m r1 where p: "persist h (build_user_message e) r = (m, r1)" by (rule prod.exhaust)
  then have "role m = User" using persist_message(1)[of h "build_user_message e" r] by simp
  with p False frame_persist_step[OF p, of "Push_user m"] show ?thesis by (simp add: ingest_message_def)
qed

lemma framed_rewind: "framed h r (handle_rewind h i r)"
proof (cases "i < length (detect_turn_boundaries (messages (store r)))")
  case True
  have "store_runs h (store r) (store_truncate n (store r))" for n
    using store_runs_step[of "Truncate_store n" h "store r"] by simp
  then show ?thesis
    using True by (auto simp: handle_rewind_def Let_def frame_def intro!: framed_from[OF _ framed_emit] split: option.split)
qed (simp add: handle_rewind_def Let_def)

lemma budget_enforce [simp]: "budget (enforce_budget b render s) = budget s"
  by (simp add: enforce_budget_def split: prod.split)

lemma loop_runs_control: "loop_runs S st (handle_control S ctrl sm st)"
proof (cases ctrl)
  case (ModeSwitch m)
  then show ?thesis by (auto intro!: loop_runs_agent framed_mode_change)
next
  case Clear_history
  have "store_runs (hosted S) s (store_clear s)" for s
    using store_runs_step[of Clear_store "hosted S" s] by simp
  then show ?thesis unfolding Clear_history
    by (auto simp: Let_def frame_def intro!: loop_runs_agent framed_from[OF _ framed_emit])
next
  case Compact_now
  then show ?thesis by (auto intro!: loop_runs_agent framed_force_compact)
next
  case (ModelSwitch m)
  then show ?thesis
    using store_runs_step[of "Update_budget b" "hosted S" "store (agent st)" for b]
    by (simp add: recalculate_budget_def Let_def)
next
  case (Rewind i)
  then show ?thesis by (auto intro!: loop_runs_agent framed_rewind)
next
  case (ThinkingSwitch json)
  then show ?thesis by (auto split: sum.split)
qed

lemma loop_runs_wait_loop: "loop_runs S st (wait_loop S evs st)"
proof (induction S evs st rule: wait_loop.induct)
  case (2 S e evs st)
  have "loop_runs S st (wait_loop S evs (st\<lparr>trigger_open := False\<rparr>))"
    if "loop_runs S (st\<lparr>trigger_open := False\<rparr>) (wait_loop S evs (st\<lparr>trigger_open := False\<rparr>))"
    by (rule loop_runs_same[OF _ that]) simp
  with 2 show ?case by (auto split: option.split intro: frame_store[OF frame_ingest])
next
  case (5 S ctrl sm evs st)
  then show ?case by (auto intro!: loop_runs_and_then loop_runs_control)
qed (auto intro: frame_store[OF frame_ingest])

lemma loop_runs_wait: "loop_runs S st (wait_for_input S evs st)"
  unfolding wait_for_input_def
  by (intro loop_runs_and_then loop_runs_wait_loop) (simp add: loop_runs_emit)

lemma loop_runs_await:
  assumes "\<And>evs st. loop_runs S st (k evs st)"
  shows "loop_runs S st (await S evs latest st k)"
  unfolding await_def
  by (rule loop_runs_and_then[OF loop_runs_wait]) (auto simp: assms split: waited.split prod.split)

lemma store_same [simp]:
  "store (agent (user_spoke st)) = store (agent st)" "store (agent (next_turn st)) = store (agent st)"
  "store (agent (heard st)) = store (agent st)"
  by (simp_all add: user_spoke_def next_turn_def heard_def)

lemma loop_runs_max: "loop_runs S st (max_turns_reached S latest st)"
  unfolding max_turns_reached_def by (intro loop_runs_and_then loop_runs_agent) simp_all

lemma loop_runs_turn: "loop_runs S st (run_turn S tn st)"
proof -
  let ?m = "execute_turn (hosted S) (rounds tn) (turn_context_new (turn_count (agent st))) (agent st)"
  have "store_runs (hosted S) (store (agent st)) (store (snd (snd ?m)))"
    using turn_runs_loop[of "hosted S" "agent st" "rounds tn" "turn_start (turn_context_new (turn_count (agent st)))"]
    by (auto simp: execute_turn_def execute_turn_inner_def turn_runs_def split: prod.split option.split)
  then show ?thesis by (auto simp: run_turn_def split: prod.split)
qed

lemma loop_runs_loop: "loop_runs S st (run_loop S ip tns evs retried latest st)"
proof (induction tns arbitrary: evs retried latest st)
  case (Cons tn tns)
  let ?go = "\<lambda>evs latest f st. await S evs latest st (\<lambda>evs st. run_loop S ip tns evs retried latest (f st))"
  have go: "loop_runs S st (?go evs latest f st)" if "\<And>st. store (agent (f st)) = store (agent st)" for evs latest f st
    by (intro loop_runs_await loop_runs_same[OF that Cons.IH])
  have said: "loop_runs S st (and_then (on_agent (emit (hosted S) ev) st1) (\<lambda>_ st. ?go evs latest f st))"
    if "\<And>st. store (agent (f st)) = store (agent st)" "store (agent st1) = store (agent st)" for ev evs latest f st st1
    by (intro loop_runs_and_then loop_runs_emit go that)
  have retry: "loop_runs S st (run_loop S ip tns evs True latest
      (st\<lparr>agent := (agent st)\<lparr>store := condense_server_blocks (store (agent st))\<rparr>\<rparr>))" for st evs latest
    by (rule loop_runs_from[OF _ Cons.IH])
      (use store_runs_step[of Condense_server_blocks "hosted S" "store (agent st)"] in simp)
  define body where "body = (\<lambda>evs st.
        if max_turns (hosted S) \<le> turn_count (agent st) then max_turns_reached S latest st
        else
          case run_turn S tn st of
            (Inr None, st) \<Rightarrow> (Inr None, st)
          | (Inr (Some out), st) \<Rightarrow>
              let latest = (if out = [] then latest else out)
              in if interrupted st then
                   and_then (on_agent (emit (hosted S) Interrupted) (st\<lparr>interrupted := False\<rparr>)) (\<lambda>_ st. ?go evs latest heard st)
                 else if max_turns (hosted S) \<le> turn_count (agent st) then max_turns_reached S latest st
                 else if ip then (Inr (Some (latest, Goal)), st)
                 else ?go evs latest heard st
          | (Inl e, st) \<Rightarrow>
              if \<not> retried \<and> is_server_block_error e then
                run_loop S ip tns evs True latest
                  (st\<lparr>agent := (agent st)\<lparr>store := condense_server_blocks (store (agent st))\<rparr>\<rparr>)
              else if interrupted st then
                and_then (on_agent (emit (hosted S) Interrupted) (st\<lparr>interrupted := False\<rparr>)) (\<lambda>_ st. ?go evs latest heard st)
              else if ip then (Inr (Some (latest, Error_reason)), st)
              else
                and_then (on_agent (emit (hosted S) (Error_event (failure_text e))) st) (\<lambda>_ st.
                  ?go evs latest (\<lambda>st. user_spoke (next_turn st)) st))"
  have body: "loop_runs S st (body evs st)" for evs st
  proof (cases "max_turns (hosted S) \<le> turn_count (agent st)")
    case False
    obtain x st1 where t: "run_turn S tn st = (x, st1)" by (rule prod.exhaust)
    then have run: "store_runs (hosted S) (store (agent st)) (store (agent st1))"
      using loop_runs_turn[of S st tn] by simp
    have "loop_runs S st1 (body evs st)"
    proof (cases x)
      case (Inl e)
      with t False show ?thesis unfolding body_def
        by (simp only: if_False prod.case sum.case) (intro loop_runs_if retry said, simp_all)
    next
      case (Inr y)
      show ?thesis
      proof (cases y)
        case (Some out)
        with t False Inr show ?thesis unfolding body_def
          by (simp only: if_False prod.case sum.case option.case Let_def)
            (intro loop_runs_if said go loop_runs_max, simp_all)
      qed (use t False Inr in \<open>simp add: body_def\<close>)
    qed
    with run show ?thesis by (rule loop_runs_from)
  qed (simp add: body_def loop_runs_max)
  have "loop_runs S st (if messages (store (agent st)) = []
      then await S evs latest st (\<lambda>evs st. body evs (user_spoke (st\<lparr>interrupted := False\<rparr>))) else body evs st)"
    by (intro loop_runs_if loop_runs_await body loop_runs_same[OF _ body]) simp
  then show ?case unfolding run_loop.simps Let_def body_def by simp
qed simp


text \<open>A setting and a session, for instances.\<close>

definition small_setting :: "unit setting" where
  "small_setting = \<lparr>hosted = small_host, system_prompt = [], tool_defs = [], known_overrides = None,
     parse_thinking = (\<lambda>_. Inl ''no'')\<rparr>"

definition start_state :: "context_store \<Rightarrow> loop_state" where
  "start_state s = \<lparr>agent = start_runner s, router = router_new ''gpt-4o'',
     model_cfg = config_from_model None ''gpt-4o'' Thinking_auto 0, interrupted = False, trigger_open = True\<rparr>"


subsection \<open>How a session ends\<close>

text \<open>When every event can be sent, an action on the loop succeeds.\<close>

definition succeeds :: "('e + 'a) \<times> 's \<Rightarrow> bool" where
  "succeeds m = (\<not> isl (fst m))"

lemma succeeds_return [simp]: "succeeds (Inr a, s)"
  by (simp add: succeeds_def)

lemma succeeds_and_then: "succeeds m \<Longrightarrow> (\<And>a s. m = (Inr a, s) \<Longrightarrow> succeeds (k a s)) \<Longrightarrow> succeeds (and_then m k)"
  by (cases m; cases "fst m") (auto simp: succeeds_def)

lemma succeeds_if: "succeeds a \<Longrightarrow> succeeds b \<Longrightarrow> succeeds (if c then a else b)"
  by simp

lemma succeeds_agent: "succeeds (f (agent st)) \<Longrightarrow> succeeds (on_agent f st)"
  by (cases "f (agent st)") (simp add: on_agent_def succeeds_def)

definition open_channel :: "'w host \<Rightarrow> bool" where
  "open_channel h \<longleftrightarrow> (\<forall>n. delivers h n)"

lemma succeeds_emit: "open_channel h \<Longrightarrow> succeeds (emit h ev r)"
  by (simp add: emit_def open_channel_def)

lemma succeeds_post_compact: "open_channel h \<Longrightarrow> succeeds (post_compact h b tb s r)"
  by (simp add: post_compact_def Let_def succeeds_emit)

lemma succeeds_force_compact: "open_channel h \<Longrightarrow> succeeds (force_compact h sm r)"
  unfolding force_compact_def Let_def
  by (intro succeeds_if succeeds_and_then succeeds_emit)
    (auto simp: succeeds_post_compact split: prod.split bool.split)

lemma succeeds_rewind: "open_channel h \<Longrightarrow> succeeds (handle_rewind h i r)"
  by (auto simp: handle_rewind_def Let_def succeeds_emit)

lemma succeeds_control:
  assumes "open_channel (hosted S)"
  shows "succeeds (handle_control S ctrl sm st)"
  by (cases ctrl) (auto simp: Let_def split: sum.split
      intro!: succeeds_agent succeeds_emit succeeds_force_compact succeeds_rewind assms)

lemma succeeds_wait_loop:
  assumes "open_channel (hosted S)"
  shows "succeeds (wait_loop S evs st)"
  using assms
proof (induction S evs st rule: wait_loop.induct)
  case (5 S ctrl sm evs st)
  then show ?case by (auto intro!: succeeds_and_then succeeds_control)
qed (auto split: option.split)

lemma succeeds_await:
  assumes "open_channel (hosted S)" and "\<And>evs st. succeeds (k evs st)"
  shows "succeeds (await S evs latest st k)"
  unfolding await_def wait_for_input_def
  by (intro succeeds_and_then succeeds_agent succeeds_emit succeeds_wait_loop assms(1))
    (auto simp: assms(2) split: waited.split prod.split)

lemma succeeds_loop:
  assumes "open_channel (hosted S)"
  shows "succeeds (run_loop S ip tns evs retried latest st)"
proof (induction tns arbitrary: evs retried latest st)
  case (Cons tn tns)
  have go: "succeeds (await S evs latest st (\<lambda>evs st. run_loop S ip tns evs retried latest (f st)))"
    for evs latest f st
    by (intro succeeds_await assms Cons.IH)
  have said: "succeeds (and_then (on_agent (emit (hosted S) ev) st1) (\<lambda>_ st.
      await S evs latest st (\<lambda>evs st. run_loop S ip tns evs retried latest (f st))))" for ev evs latest f st1
    by (intro succeeds_and_then succeeds_agent succeeds_emit assms go)
  have full: "succeeds (max_turns_reached S latest st)" for latest st
    unfolding max_turns_reached_def by (intro succeeds_and_then succeeds_agent succeeds_emit assms) simp
  have body: "succeeds (
        if max_turns (hosted S) \<le> turn_count (agent st) then max_turns_reached S latest st
        else
          case run_turn S tn st of
            (Inr None, st) \<Rightarrow> (Inr None, st)
          | (Inr (Some out), st) \<Rightarrow>
              if interrupted st then
                   and_then (on_agent (emit (hosted S) Interrupted) (st\<lparr>interrupted := False\<rparr>)) (\<lambda>_ st.
                     await S evs (if out = [] then latest else out) st (\<lambda>evs st.
                       run_loop S ip tns evs retried (if out = [] then latest else out) (heard st)))
                 else if max_turns (hosted S) \<le> turn_count (agent st)
                 then max_turns_reached S (if out = [] then latest else out) st
                 else if ip then (Inr (Some (if out = [] then latest else out, Goal)), st)
                 else await S evs (if out = [] then latest else out) st (\<lambda>evs st.
                        run_loop S ip tns evs retried (if out = [] then latest else out) (heard st))
          | (Inl e, st) \<Rightarrow>
              if \<not> retried \<and> is_server_block_error e then
                run_loop S ip tns evs True latest
                  (st\<lparr>agent := (agent st)\<lparr>store := condense_server_blocks (store (agent st))\<rparr>\<rparr>)
              else if interrupted st then
                and_then (on_agent (emit (hosted S) Interrupted) (st\<lparr>interrupted := False\<rparr>)) (\<lambda>_ st.
                  await S evs latest st (\<lambda>evs st. run_loop S ip tns evs retried latest (heard st)))
              else if ip then (Inr (Some (latest, Error_reason)), st)
              else
                and_then (on_agent (emit (hosted S) (Error_event (failure_text e))) st) (\<lambda>_ st.
                  await S evs latest st (\<lambda>evs st.
                    run_loop S ip tns evs retried latest (user_spoke (next_turn st)))))" for evs st
  proof -
    obtain x st1 where t: "run_turn S tn st = (x, st1)" by (rule prod.exhaust)
    show ?thesis
    proof (cases x)
      case (Inl e)
      show ?thesis unfolding t Inl
        by (simp only: prod.case sum.case) (intro succeeds_if full said go Cons.IH succeeds_return)
    next
      case (Inr y)
      show ?thesis
      proof (cases y)
        case (Some out)
        show ?thesis unfolding t Inr Some
          by (simp only: prod.case sum.case option.case) (intro succeeds_if full said go succeeds_return)
      qed (simp add: t Inr full)
    qed
  qed
  show ?case unfolding run_loop.simps Let_def
    by (intro succeeds_if succeeds_await assms body)
qed simp



subsection \<open>Switching the model\<close>

text \<open>
  After a switch of the model the conversation's calls go to the new model, whatever the
  settings routed the conversation to before, tasks with a model of their own keep it, the user's
  cap and thinking configuration stay, and the context store works under the budget of the new model.
\<close>

theorem model_switch_takes_effect:
  "case handle_control S (ModelSwitch m) sm st of
     (x, st') \<Rightarrow> x = Inr () \<and> resolve_task (router st') Default_task = m
      \<and> (\<forall>task own. task \<noteq> Default_task \<longrightarrow> overrides (router st) task = Some own \<longrightarrow>
           resolve_task (router st') task = own)
      \<and> model_cfg st' = config_from_model (known_overrides S) m (config_thinking (model_cfg st))
                          (context_tokens_cap (model_cfg st))
      \<and> budget (store (agent st')) = build_budget (bpe (hosted S)) (model_cfg st') (system_prompt S)
          (estimate_tool_tokens (bpe (hosted S)) (json_text (hosted S)) (tool_defs S))"
  by (simp add: recalculate_budget_def Let_def resolve_set_default update_model_def update_budget_def)

theorem model_switch_takes_effect_witness:
  "resolve_task (router (snd (handle_control small_setting (ModelSwitch ''o3'') None
     ((start_state (store_new (calculate length 9 [] 0 0)))\<lparr>router :=
        router_from_parts ''gpt-4o'' (\<lambda>t. if t = Summarization then Some ''gpt-4o-mini'' else None)\<rparr>)))) Summarization
   = ''gpt-4o-mini''"
proof -
  let ?st = "(start_state (store_new (calculate length 9 [] 0 0)))\<lparr>router :=
        router_from_parts ''gpt-4o'' (\<lambda>t. if t = Summarization then Some ''gpt-4o-mini'' else None)\<rparr>"
  have own: "overrides (router ?st) Summarization = Some ''gpt-4o-mini''"
    by (simp add: router_from_parts_def)
  show ?thesis
    using model_switch_takes_effect[where S = small_setting and m = "''o3''" and sm = None and st = ?st] own
    by (cases "handle_control small_setting (ModelSwitch ''o3'') None ?st") (simp del: handle_control.simps)
qed

subsection \<open>Rewinding\<close>

lemma boundaries:
  "k \<in> set (detect_turn_boundaries ms) \<longleftrightarrow> k < length ms \<and> role (ms ! k) = User \<and> has_text_block (ms ! k)"
  by (auto simp: detect_turn_boundaries_def set_indices)

text \<open>
  Rewinding cuts the conversation at the start of the turn: every message before it stays, the
  turn and all that follows go. The log follows with a marker, except when the turn starts with a
  message that has no identifier: then nothing is written, and resuming the session brings the
  messages back. A message of the scheduler never has one, and is not in the log itself.
\<close>

theorem rewind_cuts_turn:
  assumes "i < length (detect_turn_boundaries (messages (store r)))"
    and "at = detect_turn_boundaries (messages (store r)) ! i"
  shows "messages (store (snd (handle_rewind h i r))) = take at (messages (store r))
   \<and> role (messages (store r) ! at) = User
   \<and> session_log (snd (handle_rewind h i r)) =
       (if at = 0 then session_log (persist_marker h (Clear (now_text h)) r)
        else case id_opt (messages (store r) ! at) of
               Some mid \<Rightarrow> session_log (persist_marker h (RewindTo mid (now_text h)) r)
             | None \<Rightarrow> session_log r)
   \<and> (env_source e = Scheduled \<longrightarrow> session_log (ingest_message h e r) = session_log r
        \<and> id_opt (build_user_message e) = None)"
proof -
  have "at \<in> set (detect_turn_boundaries (messages (store r)))" using assms by simp
  then have "role (messages (store r) ! at) = User" using boundaries by blast
  then show ?thesis
    using assms
    by (auto simp: handle_rewind_def Let_def store_truncate_def ingest_message_def build_user_message_def
        split: option.split)
qed

theorem rewind_cuts_turn_witness:
  "messages (store (snd (handle_rewind small_host 1
     ((start_runner (store_new (calculate length 9 [] 0 0)))\<lparr>store :=
        \<lparr>messages = [user_text_msg ''a'', user_text_msg ''b''], budget = calculate length 9 [] 0 0\<rparr>\<rparr>))))
   = [user_text_msg ''a'']"
proof -
  let ?r = "(start_runner (store_new (calculate length 9 [] 0 0)))\<lparr>store :=
        \<lparr>messages = [user_text_msg ''a'', user_text_msg ''b''], budget = calculate length 9 [] 0 0\<rparr>\<rparr>"
  have b: "detect_turn_boundaries (messages (store ?r)) = [0, 1]"
    by (simp add: detect_turn_boundaries_def user_text_msg_def has_text_block_def)
  then have "1 < length (detect_turn_boundaries (messages (store ?r)))" by simp
  from rewind_cuts_turn[OF this refl, where h = small_host and e = hello] b show ?thesis by simp
qed

text \<open>
  A warning of the loop detector becomes the start of a turn: it is appended as text to the
  message with the tool results, and the boundaries are the messages of the user with text. Rewinding
  to it removes the results and leaves the calls they answer.
\<close>

theorem warning_starts_a_turn:
  assumes "messages s \<noteq> []" "role (last (messages s)) = User" "ws \<noteq> []"
    and "\<not> has_text_block (last (messages s))"
  shows "length (messages s) - 1 \<notin> set (detect_turn_boundaries (messages s))
   \<and> length (messages s) - 1
       \<in> set (detect_turn_boundaries (messages (append_warnings_to_last_user ws s)))"
proof -
  obtain w us where ws: "ws = w # us" using assms(3) by (cases ws) auto
  show ?thesis
    using assms by (auto simp: boundaries append_warnings_to_last_user_def nth_append has_text_block_def
        last_conv_nth ws)
qed

theorem warning_starts_a_turn_witness:
  "2 \<in> set (detect_turn_boundaries (messages (append_warnings_to_last_user [''slow down''] wrote_store)))"
proof -
  have "messages wrote_store \<noteq> []" "role (last (messages wrote_store)) = User"
    "[''slow down''] \<noteq> []" "\<not> has_text_block (last (messages wrote_store))"
    by (simp_all add: wrote_store_def has_text_block_def)
  note starts = warning_starts_a_turn[OF this]
  have "length (messages wrote_store) - 1 = 2" by (simp add: wrote_store_def)
  with starts show ?thesis by (simp only: simp_thms)
qed

end
