(* ===== verification/Event.thy ===== *)
theory Event
  imports Protocol
begin

section \<open>Events of the agents\<close>

text \<open>
  The whole of \<open>AgentEvent\<close> (\<open>loopal-protocol/src/event.rs\<close>) as the hub and the session display
  receive it, and the observable state of an agent (\<open>agent_state.rs\<close>).
\<close>

datatype event_payload =
    Stream string
  | ThinkingStream string
  | ThinkingComplete u32
  | ToolCall string string json
  | ToolResult (ended_id: string) (ended_tool: string) (ended_text: string) (ended_error: bool)
      (ended_duration: "u64 option") (ended_completion: bool) (ended_metadata: "json option")
  | ToolProgress string string string u64
  | ToolBatchStart "string list"
  | ToolPermissionRequest string string json
  | Error string
  | RetryError string u32 u32
  | RetryCleared
  | AwaitingInput
  | MaxTurnsReached u32
  | AutoContinuation u32 u32
  | TokenUsage u32 u32 u32 u32 u32 u32
  | ModeChanged string
  | Started
  | Finished
  | MessageRouted string string string
  | UserQuestionRequest string "question list"
  | Rewound nat
  | Compacted nat nat u32 u32 string
  | Interrupted
  | TurnDiffSummary "string list"
  | ServerToolUse string string json
  | ServerToolResult string json
  | SubAgentSpawned string string "string option" "string option" "string option"
  | AutoModeDecision string string string u64

record session_event =
  event_agent :: "string option"
  payload :: event_payload

definition event_root :: "event_payload \<Rightarrow> session_event" where
  "event_root p = \<lparr>event_agent = None, payload = p\<rparr>"

definition event_named :: "string \<Rightarrow> event_payload \<Rightarrow> session_event" where
  "event_named n p = \<lparr>event_agent = Some n, payload = p\<rparr>"

datatype agent_status = Starting | Running | WaitingForInput | FinishedStatus | ErrorStatus

record observable_state =
  obs_status :: agent_status
  obs_tool_count :: u32
  obs_last_tool :: "string option"
  obs_turn_count :: u32
  obs_input_tokens :: u32
  obs_output_tokens :: u32
  obs_model :: string
  obs_mode :: string
  obs_in_flight :: u32

definition observable_default :: observable_state where
  "observable_default =
     \<lparr>obs_status = Starting, obs_tool_count = 0, obs_last_tool = None, obs_turn_count = 0,
      obs_input_tokens = 0, obs_output_tokens = 0, obs_model = '''', obs_mode = ''act'',
      obs_in_flight = 0\<rparr>"

end
