(* ===== verification/Conversation.thy ===== *)
theory Conversation
  imports Event Tool_Output
begin

section \<open>The conversation an agent shows\<close>

text \<open>
  \<open>crates/loopal-session\<close>: the display state of one agent (\<open>agent_conversation.rs\<close>, \<open>types.rs\<close>)
  and the handlers that change it: thinking (\<open>thinking_display.rs\<close>), tool calls and their results
  (\<open>tool_result_handler.rs\<close>, \<open>server_tool_display.rs\<close>), notices (\<open>conversation_display.rs\<close>),
  rewinding (\<open>rewind.rs\<close>) and truncation (\<open>truncate.rs\<close>). \<open>render\<close> prints a JSON value; \<open>now\<close> is
  the clock, in milliseconds, one reading per event. The lemmas show that streamed text is neither
  lost nor reordered, which call a result reaches, and what rewinding keeps.
\<close>

subsection \<open>Types\<close>

datatype tool_call_status = Pending | CallRunning | Success | CallError

fun is_active :: "tool_call_status \<Rightarrow> bool" where
  "is_active s = (s = Pending \<or> s = CallRunning)"

fun is_done :: "tool_call_status \<Rightarrow> bool" where
  "is_done s = (s = Success \<or> s = CallError)"

record session_tool_call =
  call_id :: string
  call_name :: string
  call_status :: tool_call_status
  call_summary :: string
  call_result :: "string option"
  call_input :: "json option"
  call_batch :: "string option"
  call_started :: "nat option"
  call_duration :: "u64 option"
  call_progress :: "string option"
  call_metadata :: "json option"

record session_message =
  msg_role :: string
  msg_content :: string
  msg_calls :: "session_tool_call list"
  msg_images :: nat
  msg_skill :: "skill_invocation option"

record pending_permission =
  perm_id :: string
  perm_name :: string
  perm_input :: json
  perm_relay :: "int option"

record pending_question =
  asked_id :: string
  asked :: "question list"
  selected :: "bool list list"
  current_question :: nat
  cursor :: nat
  asked_relay :: "int option"

record agent_conversation =
  shown :: "session_message list"
  streaming_text :: string
  streaming_thinking :: string
  thinking_active :: bool
  agent_idle :: bool
  pending_perm :: "pending_permission option"
  pending_ask :: "pending_question option"
  retry_banner :: "string option"
  turns :: u32
  conv_input :: u32
  conv_output :: u32
  conv_window :: u32
  conv_cache_creation :: u32
  conv_cache_read :: u32
  conv_thinking :: u32
  turn_start_at :: "nat option"
  last_turn :: nat

definition conversation_default :: agent_conversation where
  "conversation_default =
     \<lparr>shown = [], streaming_text = '''', streaming_thinking = '''', thinking_active = False,
      agent_idle = False, pending_perm = None, pending_ask = None, retry_banner = None, turns = 0,
      conv_input = 0, conv_output = 0, conv_window = 0, conv_cache_creation = 0,
      conv_cache_read = 0, conv_thinking = 0, turn_start_at = None, last_turn = 0\<rparr>"

definition plain_message :: "string \<Rightarrow> string \<Rightarrow> session_message" where
  "plain_message r t =
     \<lparr>msg_role = r, msg_content = t, msg_calls = [], msg_images = 0, msg_skill = None\<rparr>"

definition push_message :: "session_message \<Rightarrow> agent_conversation \<Rightarrow> agent_conversation" where
  "push_message m c = c\<lparr>shown := shown c @ [m]\<rparr>"

subsection \<open>Questions\<close>

text \<open>An index out of range panics: \<open>None\<close>.\<close>

definition pending_question_new :: "string \<Rightarrow> question list \<Rightarrow> pending_question" where
  "pending_question_new i qs =
     \<lparr>asked_id = i, asked = qs, selected = map (\<lambda>q. replicate (length (options q)) False) qs,
      current_question = 0, cursor = 0, asked_relay = None\<rparr>"

definition cursor_up :: "pending_question \<Rightarrow> pending_question" where
  "cursor_up p = (if 0 < cursor p then p\<lparr>cursor := cursor p - 1\<rparr> else p)"

definition cursor_down :: "pending_question \<Rightarrow> pending_question option" where
  "cursor_down p =
     (if current_question p < length (asked p) then
        let q = asked p ! current_question p
        in Some (if cursor p + 1 < length (options q) then p\<lparr>cursor := cursor p + 1\<rparr> else p)
      else None)"

definition toggle :: "pending_question \<Rightarrow> pending_question option" where
  "toggle p =
     (if current_question p < length (selected p) then
        let sel = selected p ! current_question p
        in if cursor p < length sel
           then Some (p\<lparr>selected := (selected p)[current_question p := sel[cursor p := \<not> sel ! cursor p]]\<rparr>)
           else None
      else None)"

definition get_answers :: "pending_question \<Rightarrow> string list option" where
  "get_answers p =
     (if current_question p < length (asked p) \<and> current_question p < length (selected p) then
        Some (map (label \<circ> fst)
          (filter snd (zip (options (asked p ! current_question p)) (selected p ! current_question p))))
      else None)"

subsection \<open>The turn timer\<close>

definition token_count :: "agent_conversation \<Rightarrow> u32" where
  "token_count c = conv_input c + conv_output c + conv_cache_creation c + conv_cache_read c"

definition turn_elapsed :: "nat \<Rightarrow> agent_conversation \<Rightarrow> nat" where
  "turn_elapsed now c = (case turn_start_at c of Some s \<Rightarrow> now - s | None \<Rightarrow> last_turn c)"

definition begin_turn :: "nat \<Rightarrow> agent_conversation \<Rightarrow> agent_conversation" where
  "begin_turn now c = (if turn_start_at c = None then c\<lparr>turn_start_at := Some now\<rparr> else c)"

definition end_turn :: "nat \<Rightarrow> agent_conversation \<Rightarrow> agent_conversation" where
  "end_turn now c =
     (case turn_start_at c of
        Some s \<Rightarrow> c\<lparr>turn_start_at := None, last_turn := now - s\<rparr>
      | None \<Rightarrow> c)"

definition reset_timer :: "agent_conversation \<Rightarrow> agent_conversation" where
  "reset_timer c = c\<lparr>turn_start_at := None, last_turn := 0\<rparr>"

subsection \<open>Truncation\<close>

definition truncate_str :: "string \<Rightarrow> nat \<Rightarrow> string" where
  "truncate_str s max_len = (if length s \<le> max_len then s else cut_bytes max_len s @ ''...'')"

definition truncate_json :: "(json \<Rightarrow> string) \<Rightarrow> json \<Rightarrow> nat \<Rightarrow> string" where
  "truncate_json render v max_len = truncate_str (render v) max_len"

definition truncate_for_storage :: "string \<Rightarrow> string" where
  "truncate_for_storage t = truncate_output t 200 10000"

subsection \<open>Thinking\<close>

text \<open>
  \<open>format!("{:.1}", n as f64 / 1000.0)\<close>: the quotient is rounded to the nearest number of 53
  significant bits (\<open>m / 2 ^ k\<close>), and that number to tenths, both with ties to even.
\<close>

definition round_half_even :: "nat \<Rightarrow> nat \<Rightarrow> nat" where
  "round_half_even a b =
     (let q = a div b; r = a mod b
      in if 2 * r < b \<or> (2 * r = b \<and> even q) then q else q + 1)"

fun floor_log2 :: "nat \<Rightarrow> nat" where
  "floor_log2 n = (if n < 2 then 0 else Suc (floor_log2 (n div 2)))"

declare floor_log2.simps [simp del]

definition thousands :: "nat \<Rightarrow> string" where
  "thousands n =
     (let k = 52 - floor_log2 (n div 1000);
          m = round_half_even (n * 2 ^ k) 1000;
          d = round_half_even (m * 10) (2 ^ k)
      in nat_str (d div 10) @ ''.'' @ nat_str (d mod 10))"

definition first_line :: "string \<Rightarrow> string" where
  "first_line t = (case rust_lines t of [] \<Rightarrow> '''' | l # ls \<Rightarrow> l)"

definition format_thinking_summary :: "string \<Rightarrow> u32 \<Rightarrow> string" where
  "format_thinking_summary t n =
     ''['' @ (if 1000 \<le> n then thousands (unat n) @ ''k'' else nat_str (unat n)) @ '' tokens] ''
     @ take_chars 80 (first_line t)"

definition handle_thinking_complete :: "u32 \<Rightarrow> agent_conversation \<Rightarrow> agent_conversation" where
  "handle_thinking_complete n c =
     (let c = c\<lparr>thinking_active := False, conv_thinking := conv_thinking c + n\<rparr>;
          t = streaming_thinking c
      in if t = '''' then c
         else push_message (plain_message ''thinking'' (format_thinking_summary t n))
                (c\<lparr>streaming_thinking := ''''\<rparr>))"

subsection \<open>Flushing\<close>

definition flush_thinking :: "agent_conversation \<Rightarrow> agent_conversation" where
  "flush_thinking c =
     (let t = streaming_thinking c
      in if t = '''' then c
         else (push_message
                 (plain_message ''thinking'' (format_thinking_summary t (word_of_nat (length t) div 4)))
                 (c\<lparr>streaming_thinking := ''''\<rparr>))\<lparr>thinking_active := False\<rparr>)"

definition flush_text :: "agent_conversation \<Rightarrow> agent_conversation" where
  "flush_text c =
     (let t = streaming_text c
      in if t = '''' then c
         else let c = c\<lparr>streaming_text := ''''\<rparr>; ms = shown c
              in if ms \<noteq> [] \<and> msg_role (last ms) = ''assistant'' \<and> msg_calls (last ms) = []
                 then c\<lparr>shown := butlast ms @ [(last ms)\<lparr>msg_content := msg_content (last ms) @ t\<rparr>]\<rparr>
                 else push_message (plain_message ''assistant'' t) c)"

definition flush_streaming :: "agent_conversation \<Rightarrow> agent_conversation" where
  "flush_streaming c = flush_text (flush_thinking c)"


lemma thousands_ties: "thousands 1050 = ''1.1''" "thousands 1150 = ''1.1''" "thousands 1250 = ''1.2''"
  by (simp_all add: thousands_def round_half_even_def floor_log2.simps digit_def nat_str.simps) code_simp+

subsection \<open>Tool calls\<close>

text \<open>
  Searching messages, and the calls of a message, from the last to the first: the last call that
  satisfies \<open>p\<close> is changed by \<open>f\<close>.
\<close>

definition change_last_call ::
  "(session_tool_call \<Rightarrow> bool) \<Rightarrow> (session_tool_call \<Rightarrow> session_tool_call)
     \<Rightarrow> session_message list \<Rightarrow> session_message list" where
  "change_last_call p f ms =
     change_last (\<lambda>m. list_ex p (msg_calls m)) (\<lambda>m. m\<lparr>msg_calls := change_last p f (msg_calls m)\<rparr>) ms"

definition attach_call :: "session_tool_call \<Rightarrow> agent_conversation \<Rightarrow> agent_conversation" where
  "attach_call tc c =
     (let ms = shown c
      in if ms \<noteq> [] \<and> msg_role (last ms) = ''assistant''
         then c\<lparr>shown := butlast ms @ [(last ms)\<lparr>msg_calls := msg_calls (last ms) @ [tc]\<rparr>]\<rparr>
         else push_message ((plain_message ''assistant'' '''')\<lparr>msg_calls := [tc]\<rparr>) c)"

definition pending_call :: "string \<Rightarrow> string \<Rightarrow> string \<Rightarrow> json \<Rightarrow> nat option \<Rightarrow> session_tool_call" where
  "pending_call i n summary inp started =
     \<lparr>call_id = i, call_name = n, call_status = Pending, call_summary = summary, call_result = None,
      call_input = Some inp, call_batch = None, call_started = started, call_duration = None,
      call_progress = None, call_metadata = None\<rparr>"

definition handle_tool_call ::
  "(json \<Rightarrow> string) \<Rightarrow> nat \<Rightarrow> string \<Rightarrow> string \<Rightarrow> json \<Rightarrow> agent_conversation \<Rightarrow> agent_conversation" where
  "handle_tool_call render now i n inp c =
     attach_call
       (pending_call i n
          (if n = ''AttemptCompletion'' then n else n @ ''('' @ truncate_json render inp 60 @ '')'')
          inp (Some now))
       (flush_streaming c)"

fun answers_call :: "string \<Rightarrow> string \<Rightarrow> session_tool_call \<Rightarrow> bool" where
  "answers_call i n tc =
     (if i \<noteq> '''' then call_id tc = i else call_name tc = n \<and> call_status tc = Pending)"

definition finish_call ::
  "bool \<Rightarrow> u64 option \<Rightarrow> bool \<Rightarrow> json option \<Rightarrow> string \<Rightarrow> session_tool_call \<Rightarrow> session_tool_call" where
  "finish_call err dur completion meta t tc =
     tc\<lparr>call_status := (if err then CallError else Success), call_duration := dur,
        call_progress := None, call_metadata := meta,
        call_result := (if completion then call_result tc else Some (truncate_for_storage t))\<rparr>"

definition handle_tool_result ::
  "string \<Rightarrow> string \<Rightarrow> string \<Rightarrow> bool \<Rightarrow> u64 option \<Rightarrow> bool \<Rightarrow> json option \<Rightarrow>
     agent_conversation \<Rightarrow> agent_conversation" where
  "handle_tool_result i n t err dur completion meta c =
     (let c = c\<lparr>shown := change_last_call (answers_call i n) (finish_call err dur completion meta t) (shown c)\<rparr>
      in if completion then push_message (plain_message ''assistant'' t) c else c)"

definition handle_tool_batch_start :: "string list \<Rightarrow> agent_conversation \<Rightarrow> agent_conversation" where
  "handle_tool_batch_start ids c =
     (let batch = ''batch-'' @ nat_str (unat (turns c));
          mine = (\<lambda>tc. call_status tc = Pending \<and> call_id tc \<in> set ids)
      in c\<lparr>shown := change_last (\<lambda>m. msg_role m = ''assistant'' \<and> list_ex mine (msg_calls m))
             (\<lambda>m. m\<lparr>msg_calls :=
                map (\<lambda>tc. if mine tc then tc\<lparr>call_batch := Some batch\<rparr> else tc) (msg_calls m)\<rparr>)
             (shown c)\<rparr>)"

definition handle_tool_progress :: "string \<Rightarrow> string \<Rightarrow> agent_conversation \<Rightarrow> agent_conversation" where
  "handle_tool_progress i tail_text c =
     c\<lparr>shown := change_last_call (\<lambda>tc. call_id tc = i)
         (\<lambda>tc. if is_done (call_status tc) then tc
                else tc\<lparr>call_status := CallRunning, call_progress := Some tail_text\<rparr>)
         (shown c)\<rparr>"

subsection \<open>Tools of the server\<close>

definition handle_server_tool_use ::
  "(json \<Rightarrow> string) \<Rightarrow> string \<Rightarrow> string \<Rightarrow> json \<Rightarrow> agent_conversation \<Rightarrow> agent_conversation" where
  "handle_server_tool_use render i n inp c =
     attach_call (pending_call i n (n @ ''('' @ truncate_json render inp 60 @ '')'') inp None)
       (flush_streaming c)"

definition str_field :: "string \<Rightarrow> json \<Rightarrow> string" where
  "str_field k v = (case get_str v k of Some t \<Rightarrow> t | None \<Rightarrow> '''')"

definition titled :: "json \<Rightarrow> string option" where
  "titled item = map_option (\<lambda>t. t @ NL # ''  '' @ str_field ''url'' item) (get_str item ''title'')"

definition item_text :: "json \<Rightarrow> string option" where
  "item_text item =
     (let ty = str_field ''type'' item
      in if ty = ''web_search_result'' then titled item
         else if ty = ''code_execution_output'' then map_option trim_end (get_str item ''output'')
         else case Option.bind
                (or_else (or_else (jget item ''output'') (jget item ''text'')) (jget item ''content''))
                as_str of
                Some t \<Rightarrow> Some (trim_end t)
              | None \<Rightarrow> titled item)"

definition extract_content_text :: "(json \<Rightarrow> string) \<Rightarrow> json \<Rightarrow> string" where
  "extract_content_text render v =
     (let parts = (case as_array v of Some items \<Rightarrow> List.map_filter item_text items | None \<Rightarrow> [])
      in if parts \<noteq> [] then str_join [NL] parts else truncate_json render v 200)"

definition format_server_content :: "(json \<Rightarrow> string) \<Rightarrow> json \<Rightarrow> string" where
  "format_server_content render v = truncate_for_storage (extract_content_text render v)"

definition handle_server_tool_result ::
  "(json \<Rightarrow> string) \<Rightarrow> string \<Rightarrow> json \<Rightarrow> agent_conversation \<Rightarrow> agent_conversation" where
  "handle_server_tool_result render i v c =
     (let ms = shown c
      in if ms = [] then c
         else c\<lparr>shown := butlast ms
                  @ [(last ms)\<lparr>msg_calls := change_last (\<lambda>tc. call_id tc = i)
                        (\<lambda>tc. tc\<lparr>call_status := Success,
                                 call_result := Some (format_server_content render v)\<rparr>)
                        (msg_calls (last ms))\<rparr>]\<rparr>)"

subsection \<open>Notices\<close>

definition thinking_label :: "(string \<Rightarrow> json option) \<Rightarrow> string \<Rightarrow> string" where
  "thinking_label parse t =
     (case parse t of
        None \<Rightarrow> ''unknown''
      | Some v \<Rightarrow>
          (case get_str v ''type'' of
             None \<Rightarrow> ''unknown''
           | Some ty \<Rightarrow>
               if ty = ''auto'' then ''auto''
               else if ty = ''disabled'' then ''disabled''
               else if ty = ''effort'' then
                 (case get_str v ''level'' of Some l \<Rightarrow> l | None \<Rightarrow> ''medium'')
               else if ty = ''budget'' then
                 ''budget('' @ (case jget v ''tokens'' of
                     Some (JInt n) \<Rightarrow> if 0 \<le> n \<and> n < 2 ^ 64 then nat_str (nat n) else ''0''
                   | _ \<Rightarrow> ''0'') @ '')''
               else ''unknown''))"

definition push_system_msg :: "string \<Rightarrow> agent_conversation \<Rightarrow> agent_conversation" where
  "push_system_msg t c = push_message (plain_message ''system'' t) c"

definition handle_token_usage ::
  "u32 \<Rightarrow> u32 \<Rightarrow> u32 \<Rightarrow> u32 \<Rightarrow> u32 \<Rightarrow> agent_conversation \<Rightarrow> agent_conversation" where
  "handle_token_usage inp outp window creation cached c =
     (let c = c\<lparr>conv_input := inp, conv_output := outp, conv_window := window,
                conv_cache_creation := creation, conv_cache_read := cached\<rparr>
      in if inp = 0 \<and> outp = 0 then c\<lparr>conv_thinking := 0\<rparr> else c)"

abbreviation show_u32 :: "u32 \<Rightarrow> string" where
  "show_u32 n \<equiv> nat_str (unat n)"

definition handle_auto_continuation :: "u32 \<Rightarrow> u32 \<Rightarrow> agent_conversation \<Rightarrow> agent_conversation" where
  "handle_auto_continuation cont limit c =
     push_system_msg
       (''Output truncated (max_tokens). Auto-continuing ('' @ show_u32 cont @ ''/'' @ show_u32 limit @ '')'') c"

text \<open>The product \<open>freed * 100\<close> is of width 32; the arrow is U+2192.\<close>

definition handle_compaction ::
  "nat \<Rightarrow> nat \<Rightarrow> u32 \<Rightarrow> u32 \<Rightarrow> string \<Rightarrow> agent_conversation \<Rightarrow> agent_conversation" where
  "handle_compaction kept removed before after strategy c =
     (let freed = sat_sub before after;
          pct = (if 0 < before then freed * 100 div before else 0)
      in push_system_msg
           (''Context compacted ('' @ strategy @ ''): '' @ nat_str removed @ '' messages removed, ''
            @ nat_str kept @ '' kept. '' @ show_u32 before @ [CHR 0xE2, CHR 0x86, CHR 0x92]
            @ show_u32 after @ '' tokens ('' @ show_u32 pct @ ''% freed).'') c)"

subsection \<open>Rewinding\<close>

fun find_cut :: "nat \<Rightarrow> nat \<Rightarrow> session_message list \<Rightarrow> nat" where
  "find_cut remaining users [] = 0"
| "find_cut remaining users (m # ms) =
     (if msg_role m = ''user'' then
        if remaining < users + 1 then 0 else Suc (find_cut remaining (users + 1) ms)
      else Suc (find_cut remaining users ms))"

definition truncate_display_to_turn :: "nat \<Rightarrow> agent_conversation \<Rightarrow> agent_conversation" where
  "truncate_display_to_turn remaining c =
     (if remaining = 0
      then reset_timer (c\<lparr>shown := [], streaming_text := '''', turns := 0\<rparr>)
      else c\<lparr>shown := take (find_cut remaining 0 (shown c)) (shown c), streaming_text := '''',
             turns := word_of_nat remaining\<rparr>)"

subsection \<open>Text is neither lost nor reordered\<close>

text \<open>What the assistant has said: the texts of its messages in order, and what is still buffered.\<close>

definition assistant_text :: "agent_conversation \<Rightarrow> string" where
  "assistant_text c =
     concat (map msg_content (filter (\<lambda>m. msg_role m = ''assistant'') (shown c))) @ streaming_text c"

named_theorems text_kept \<open>handlers that leave the assistant's text as it is\<close>

lemma assistant_text_alt:
  "assistant_text c =
     concat (map snd (filter (\<lambda>x. fst x = ''assistant'') (map (\<lambda>m. (msg_role m, msg_content m)) (shown c))))
     @ streaming_text c"
  by (simp add: assistant_text_def filter_map comp_def)

lemma text_of_same_heads:
  "map (\<lambda>m. (msg_role m, msg_content m)) ms = map (\<lambda>m. (msg_role m, msg_content m)) (shown c) \<Longrightarrow>
     assistant_text (c\<lparr>shown := ms\<rparr>) = assistant_text c"
  by (simp add: assistant_text_alt)

lemma text_change_last_call [text_kept]:
  "(\<And>m. msg_role (f m) = msg_role m \<and> msg_content (f m) = msg_content m) \<Longrightarrow>
     assistant_text (c\<lparr>shown := change_last p f (shown c)\<rparr>) = assistant_text c"
  by (rule text_of_same_heads, rule map_change_last) simp

lemma text_push [text_kept]:
  "msg_role m \<noteq> ''assistant'' \<or> streaming_text c = '''' \<Longrightarrow>
     assistant_text (push_message m c)
       = assistant_text c @ (if msg_role m = ''assistant'' then msg_content m else '''')"
  by (auto simp: push_message_def assistant_text_def)

lemma text_flush_thinking [text_kept]: "assistant_text (flush_thinking c) = assistant_text c"
  by (simp add: flush_thinking_def push_message_def assistant_text_def plain_message_def Let_def)

lemma text_flush_text [text_kept]: "assistant_text (flush_text c) = assistant_text c"
proof (cases "shown c" rule: rev_cases)
  case Nil
  then show ?thesis
    by (simp add: flush_text_def assistant_text_def push_message_def plain_message_def Let_def)
next
  case (snoc ms m)
  then show ?thesis
    by (simp add: flush_text_def assistant_text_def push_message_def plain_message_def Let_def)
qed

lemma flush_empties [simp]:
  "streaming_text (flush_streaming c) = ''''" "streaming_thinking (flush_streaming c) = ''''"
  by (simp_all add: flush_streaming_def flush_text_def flush_thinking_def push_message_def Let_def)

lemma text_flush_streaming [text_kept]: "assistant_text (flush_streaming c) = assistant_text c"
  by (simp add: flush_streaming_def text_kept)

lemma text_attach_call [text_kept]:
  "streaming_text c = '''' \<Longrightarrow> assistant_text (attach_call tc c) = assistant_text c"
  by (cases "shown c" rule: rev_cases)
    (simp_all add: attach_call_def assistant_text_def push_message_def plain_message_def Let_def)

lemma text_tool_call [text_kept]: "assistant_text (handle_tool_call render now i n inp c) = assistant_text c"
  by (simp add: handle_tool_call_def text_kept)

lemma text_server_use [text_kept]: "assistant_text (handle_server_tool_use render i n inp c) = assistant_text c"
  by (simp add: handle_server_tool_use_def text_kept)

lemma text_server_result [text_kept]: "assistant_text (handle_server_tool_result render i v c) = assistant_text c"
  by (cases "shown c" rule: rev_cases)
    (simp_all add: handle_server_tool_result_def assistant_text_def Let_def)

lemma text_tool_result [text_kept]:
  "assistant_text (handle_tool_result i n t err dur False meta c) = assistant_text c"
  by (simp add: handle_tool_result_def change_last_call_def text_kept)

lemma text_batch_start [text_kept]: "assistant_text (handle_tool_batch_start ids c) = assistant_text c"
  by (simp add: handle_tool_batch_start_def Let_def text_kept)

lemma text_progress [text_kept]: "assistant_text (handle_tool_progress i t c) = assistant_text c"
  by (simp add: handle_tool_progress_def change_last_call_def text_kept)

lemma text_system [text_kept]: "assistant_text (push_system_msg t c) = assistant_text c"
  by (simp add: push_system_msg_def plain_message_def text_kept)

lemma text_thinking_complete [text_kept]: "assistant_text (handle_thinking_complete n c) = assistant_text c"
  by (simp add: handle_thinking_complete_def assistant_text_def push_message_def plain_message_def Let_def)

lemma text_token_usage [text_kept]: "assistant_text (handle_token_usage a b w k r c) = assistant_text c"
  by (simp add: handle_token_usage_def assistant_text_def Let_def)

lemma text_timer [text_kept]:
  "assistant_text (begin_turn now c) = assistant_text c" "assistant_text (end_turn now c) = assistant_text c"
  by (simp_all add: begin_turn_def end_turn_def assistant_text_def split: option.split)

lemma text_compaction [text_kept]: "assistant_text (handle_compaction a b x y s c) = assistant_text c"
  by (simp add: handle_compaction_def Let_def text_kept)

lemma text_continuation [text_kept]: "assistant_text (handle_auto_continuation a b c) = assistant_text c"
  by (simp add: handle_auto_continuation_def text_kept)

subsection \<open>Which call a result reaches\<close>

definition all_calls :: "agent_conversation \<Rightarrow> session_tool_call list" where
  "all_calls c = concat (map msg_calls (shown c))"

text \<open>The nested search from the end is one search from the end of all calls.\<close>

lemma change_last_call_flat:
  "concat (map msg_calls (change_last_call p f ms)) = change_last p f (concat (map msg_calls ms))"
proof (induction ms rule: rev_induct)
  case Nil
  then show ?case by (simp add: change_last_call_def)
next
  case (snoc m ms)
  then show ?case by (simp add: change_last_call_def change_last_append)
qed

lemma all_calls_result:
  "all_calls (handle_tool_result i n t err dur completion meta c) =
     change_last (answers_call i n) (finish_call err dur completion meta t) (all_calls c)"
  by (simp add: all_calls_def handle_tool_result_def push_message_def plain_message_def
      change_last_call_flat Let_def)

text \<open>
  A result reaches exactly one call: the last one on display with its identifier. That call is
  done and shows the result, cut for storage; every other call is as before.
\<close>

theorem result_reaches_last_call:
  assumes "i \<noteq> ''''" and "\<exists>tc \<in> set (all_calls c). call_id tc = i"
  shows "\<exists>k < length (all_calls c).
     call_id (all_calls c ! k) = i
     \<and> (\<forall>j < length (all_calls c). k < j \<longrightarrow> call_id (all_calls c ! j) \<noteq> i)
     \<and> all_calls (handle_tool_result i n t err dur False meta c)
         = (all_calls c)[k := (all_calls c ! k)
              \<lparr>call_status := (if err then CallError else Success), call_duration := dur,
               call_progress := None, call_metadata := meta,
               call_result := Some (truncate_output t 200 10000)\<rparr>]"
proof -
  have "list_ex (answers_call i n) (all_calls c)" using assms by (auto simp: list_ex_iff)
  then show ?thesis
    by (rule change_last_spec[where f = "finish_call err dur False meta t"])
      (use assms(1) in \<open>auto simp: all_calls_result finish_call_def truncate_for_storage_def intro!: exI\<close>)
qed

definition two_calls :: agent_conversation where
  "two_calls =
     handle_tool_call (\<lambda>_. ''{}'') 5 ''b'' ''Bash'' (JObj [])
       (handle_tool_call (\<lambda>_. ''{}'') 4 ''a'' ''Read'' (JObj [])
          (conversation_default\<lparr>streaming_text := ''hi''\<rparr>))"

lemma all_calls_two: "map call_id (all_calls two_calls) = [''a'', ''b'']"
  by code_simp

theorem result_reaches_last_call_witness:
  "\<exists>k < length (all_calls two_calls). call_id (all_calls two_calls ! k) = ''a''"
  using result_reaches_last_call[of "''a''" two_calls "''Read''" "''ok''" False None None]
    all_calls_two by (auto simp: Cons_eq_map_conv)

subsection \<open>What rewinding keeps\<close>

definition user_messages :: "session_message list \<Rightarrow> nat" where
  "user_messages ms = length (filter (\<lambda>m. msg_role m = ''user'') ms)"

lemma find_cut_props:
  "users \<le> n \<Longrightarrow>
     user_messages (take (find_cut n users ms) ms) = min (n - users) (user_messages ms)
     \<and> (find_cut n users ms < length ms \<longrightarrow> msg_role (ms ! find_cut n users ms) = ''user'')"
proof (induction n users ms rule: find_cut.induct)
  case (2 n users m ms)
  show ?case
  proof (cases "msg_role m = ''user''")
    case True
    then show ?thesis using 2 by (auto simp: user_messages_def)
  next
    case False
    then show ?thesis using 2 by (auto simp: user_messages_def)
  qed
qed (simp add: user_messages_def)

text \<open>
  Rewinding the display to some number of turns keeps a prefix of the messages with exactly
  that many messages of the user (or all there are), cut at a message of the user and nowhere else,
  and drops what was still streaming.
\<close>

theorem rewind_keeps_turns:
  "\<exists>dropped. shown c = shown (truncate_display_to_turn n c) @ dropped
     \<and> user_messages (shown (truncate_display_to_turn n c)) = min n (user_messages (shown c))
     \<and> (n = 0 \<or> dropped = [] \<or> msg_role (hd dropped) = ''user'')
     \<and> streaming_text (truncate_display_to_turn n c) = ''''
     \<and> turns (truncate_display_to_turn n c) = word_of_nat n"
proof (cases "n = 0")
  case True
  then show ?thesis by (simp add: truncate_display_to_turn_def reset_timer_def user_messages_def)
next
  case False
  let ?k = "find_cut n 0 (shown c)"
  have "shown c = take ?k (shown c) @ drop ?k (shown c)" by simp
  moreover have "drop ?k (shown c) = [] \<or> msg_role (hd (drop ?k (shown c))) = ''user''"
    using find_cut_props[of 0 n "shown c"] by (cases "?k < length (shown c)") (auto simp: hd_drop_conv_nth)
  ultimately show ?thesis
    using False find_cut_props[of 0 n "shown c"]
    by (intro exI[of _ "drop ?k (shown c)"]) (simp add: truncate_display_to_turn_def)
qed

subsection \<open>Questions\<close>

text \<open>A cursor within the options of a question: moving and toggling never panic.\<close>

definition question_ok :: "pending_question \<Rightarrow> bool" where
  "question_ok p =
     (current_question p < length (asked p)
      \<and> map length (selected p) = map (length \<circ> options) (asked p)
      \<and> cursor p < length (options (asked p ! current_question p)))"

lemma question_ok_new:
  "qs \<noteq> [] \<Longrightarrow> options (hd qs) \<noteq> [] \<Longrightarrow> question_ok (pending_question_new i qs)"
  by (cases qs) (auto simp: question_ok_def pending_question_new_def comp_def)

lemma selected_fits:
  "question_ok p \<Longrightarrow> current_question p < length (selected p)
     \<and> length (selected p ! current_question p) = length (options (asked p ! current_question p))"
  unfolding question_ok_def by (metis comp_apply length_map nth_map)

lemma question_ok_up: "question_ok p \<Longrightarrow> question_ok (cursor_up p)"
  by (auto simp: question_ok_def cursor_up_def)

lemma question_ok_down: "question_ok p \<Longrightarrow> \<exists>q. cursor_down p = Some q \<and> question_ok q"
  by (auto simp: question_ok_def cursor_down_def Let_def)

lemma question_ok_toggle: "question_ok p \<Longrightarrow> \<exists>q. toggle p = Some q \<and> question_ok q"
  using selected_fits[of p]
  by (auto simp: question_ok_def toggle_def Let_def map_update intro: list_update_same_conv[THEN iffD2])

lemma question_ok_answers: "question_ok p \<Longrightarrow> \<exists>as. get_answers p = Some as"
  using selected_fits[of p] by (auto simp: question_ok_def get_answers_def)

text \<open>A question without options has nothing to toggle.\<close>

lemma toggle_without_options:
  "toggle (pending_question_new i [\<lparr>question_text = t, options = [], allow_multiple = b\<rparr>]) = None"
  by (simp add: toggle_def pending_question_new_def)

end
