(* ===== verification/Ui_Session.thy ===== *)
theory Ui_Session
  imports Conversation
begin

section \<open>The session display\<close>

text \<open>
  \<open>crates/loopal-session\<close>: the observable state of a session (\<open>state.rs\<close>), the inbox of messages
  typed while an agent is busy (\<open>inbox.rs\<close>), the log of messages between agents
  (\<open>message_log.rs\<close>), the handling of events (\<open>event_handler.rs\<close>, \<open>agent_handler.rs\<close>,
  \<open>agent_lifecycle.rs\<close>) and the operations of the controller on the state (\<open>controller.rs\<close>,
  \<open>controller_control.rs\<close>, \<open>agent_ops.rs\<close>, \<open>session_display.rs\<close>); what the controller sends to the
  agents afterwards is the result of an operation. The controller's lock makes each operation one
  step. The lemmas show that the viewed agent always exists, so that no operation panics, that
  messages leave the inbox in order and only for an idle agent, that nothing the root agent says is
  lost, and that finished agents keep a bounded display.
\<close>

subsection \<open>State\<close>

definition ROOT_AGENT :: string where "ROOT_AGENT = ''main''"

record log_entry =
  log_source :: string
  log_target :: string
  log_preview :: string
  log_time :: nat

record feed =
  entries :: "log_entry list"
  capacity :: nat

record agent_view =
  observable :: observable_state
  conversation :: agent_conversation
  message_log :: "log_entry list"
  seen_at :: "nat option"
  parent_name :: "string option"
  child_names :: "string list"
  stored_session :: "string option"

record sub_ref =
  ref_agent :: string
  ref_session :: string
  ref_parent :: "string option"
  ref_model :: "string option"

record session_state =
  agents :: "(string \<times> agent_view) list"
  active_view :: string
  shown_model :: string
  shown_mode :: string
  shown_thinking :: string
  root_session :: "string option"
  message_feed :: feed
  inbox :: "user_content list"
  pending_refs :: "sub_ref list"

definition agent_view_default :: agent_view where
  "agent_view_default =
     \<lparr>observable = observable_default, conversation = conversation_default, message_log = [],
      seen_at = None, parent_name = None, child_names = [], stored_session = None\<rparr>"

definition session_new :: "nat \<Rightarrow> string \<Rightarrow> string \<Rightarrow> session_state" where
  "session_new now m mo =
     \<lparr>agents = [(ROOT_AGENT, agent_view_default\<lparr>seen_at := Some now\<rparr>)], active_view = ROOT_AGENT,
      shown_model = m, shown_mode = mo, shown_thinking = ''auto'', root_session = None,
      message_feed = \<lparr>entries = [], capacity = 200\<rparr>, inbox = [], pending_refs = []\<rparr>"

abbreviation view_of :: "session_state \<Rightarrow> string \<Rightarrow> agent_view option" where
  "view_of s n \<equiv> map_of (agents s) n"

text \<open>\<open>agents.get_mut(name)\<close>, doing nothing where there is no such agent, and \<open>entry().or_default()\<close>.\<close>

definition modify_agent :: "string \<Rightarrow> (agent_view \<Rightarrow> agent_view) \<Rightarrow> session_state \<Rightarrow> session_state" where
  "modify_agent n f s =
     (case view_of s n of None \<Rightarrow> s | Some a \<Rightarrow> s\<lparr>agents := AList.update n (f a) (agents s)\<rparr>)"

definition entry_agent :: "string \<Rightarrow> session_state \<Rightarrow> session_state" where
  "entry_agent n s =
     (case view_of s n of
        None \<Rightarrow> s\<lparr>agents := AList.update n agent_view_default (agents s)\<rparr>
      | Some a \<Rightarrow> s)"

definition on_conversation :: "(agent_conversation \<Rightarrow> agent_conversation) \<Rightarrow> agent_view \<Rightarrow> agent_view" where
  "on_conversation f a = a\<lparr>conversation := f (conversation a)\<rparr>"

definition on_observable :: "(observable_state \<Rightarrow> observable_state) \<Rightarrow> agent_view \<Rightarrow> agent_view" where
  "on_observable f a = a\<lparr>observable := f (observable a)\<rparr>"

definition set_status :: "agent_status \<Rightarrow> agent_view \<Rightarrow> agent_view" where
  "set_status st = on_observable (\<lambda>b. b\<lparr>obs_status := st\<rparr>)"

definition status_of :: "agent_view \<Rightarrow> agent_status" where
  "status_of a = obs_status (observable a)"

text \<open>\<open>active_conversation_mut\<close> panics when the viewed agent is missing.\<close>

definition on_active ::
  "(agent_conversation \<Rightarrow> agent_conversation) \<Rightarrow> session_state \<Rightarrow> session_state option" where
  "on_active f s =
     (if view_of s (active_view s) = None then None
      else Some (modify_agent (active_view s) (on_conversation f) s))"

definition on_root ::
  "(agent_conversation \<Rightarrow> agent_conversation) \<Rightarrow> session_state \<Rightarrow> session_state option" where
  "on_root f s =
     (if view_of s ROOT_AGENT = None then None
      else Some (modify_agent ROOT_AGENT (on_conversation f) s))"

subsection \<open>The message log\<close>

definition record_entry :: "log_entry \<Rightarrow> feed \<Rightarrow> feed" where
  "record_entry e f =
     (let es = (if capacity f \<le> length (entries f) then drop 1 (entries f) else entries f)
      in f\<lparr>entries := es @ [e]\<rparr>)"

definition recent :: "nat \<Rightarrow> feed \<Rightarrow> log_entry list" where
  "recent n f = drop (length (entries f) - n) (entries f)"

definition record_message_routed ::
  "nat \<Rightarrow> string \<Rightarrow> string \<Rightarrow> string \<Rightarrow> session_state \<Rightarrow> session_state" where
  "record_message_routed now src tgt preview s =
     (let e = \<lparr>log_source = src, log_target = tgt, log_preview = preview, log_time = now\<rparr>;
          log = (\<lambda>a. a\<lparr>message_log := message_log a @ [e]\<rparr>)
      in modify_agent tgt log (modify_agent src log (s\<lparr>message_feed := record_entry e (message_feed s)\<rparr>)))"

subsection \<open>The inbox\<close>

definition user_display :: "user_content \<Rightarrow> session_message" where
  "user_display u =
     (let n = length (user_images u)
      in \<lparr>msg_role = ''user'',
          msg_content = user_text u @ (if 0 < n then '' [+'' @ nat_str n @ '' image(s)]'' else ''''),
          msg_calls = [], msg_images = n, msg_skill = user_skill u\<rparr>)"

definition try_forward_inbox :: "nat \<Rightarrow> session_state \<Rightarrow> user_content option \<times> session_state" where
  "try_forward_inbox now s =
     (case view_of s (active_view s) of
        None \<Rightarrow> (None, s)
      | Some a \<Rightarrow>
          if \<not> agent_idle (conversation a) then (None, s)
          else (case inbox s of
                  [] \<Rightarrow> (None, s)
                | u # rest \<Rightarrow>
                    (Some u,
                     modify_agent (active_view s)
                       (on_conversation (\<lambda>c.
                          push_message (user_display u) (begin_turn now (c\<lparr>agent_idle := False\<rparr>))))
                       (s\<lparr>inbox := rest\<rparr>))))"

subsection \<open>Lifecycle\<close>

definition MAX_DONE_MSGS :: nat where "MAX_DONE_MSGS = 20"

definition is_over :: "agent_status \<Rightarrow> bool" where
  "is_over st = (st = FinishedStatus \<or> st = ErrorStatus)"

definition keep_recent :: "agent_conversation \<Rightarrow> agent_conversation" where
  "keep_recent c = c\<lparr>shown := drop (length (shown c) - MAX_DONE_MSGS) (shown c)\<rparr>"

definition shrink_done :: "agent_view \<Rightarrow> agent_view" where
  "shrink_done a = (if is_over (status_of a) then on_conversation keep_recent a else a)"

definition truncate_if_done :: "string \<Rightarrow> session_state \<Rightarrow> session_state" where
  "truncate_if_done n s =
     (if n = ROOT_AGENT then s else modify_agent n shrink_done s)"

definition idle_view :: "nat \<Rightarrow> agent_status \<Rightarrow> agent_view \<Rightarrow> agent_view" where
  "idle_view now st a =
     (let c = end_turn now (flush_streaming (conversation a));
          b = observable a;
          c = (if st \<noteq> FinishedStatus then c\<lparr>turns := turns c + 1\<rparr> else c);
          b = (if st \<noteq> FinishedStatus then b\<lparr>obs_turn_count := obs_turn_count b + 1\<rparr> else b)
      in a\<lparr>conversation := c\<lparr>agent_idle := True, retry_banner := None\<rparr>,
           observable := b\<lparr>obs_status := st\<rparr>\<rparr>)"

definition handle_idle ::
  "nat \<Rightarrow> string \<Rightarrow> agent_status \<Rightarrow> session_state \<Rightarrow> user_content option \<times> session_state" where
  "handle_idle now n st s =
     (if view_of s n = None then (None, s)
      else let s = modify_agent n (idle_view now st) s;
               s = (if st = FinishedStatus \<and> active_view s = n then s\<lparr>active_view := ROOT_AGENT\<rparr> else s);
               s = truncate_if_done n s
           in if active_view s = n then try_forward_inbox now s else (None, s))"

definition register_spawned_agent ::
  "string \<Rightarrow> string option \<Rightarrow> string option \<Rightarrow> string option \<Rightarrow> session_state \<Rightarrow> session_state" where
  "register_spawned_agent n par mdl sid s =
     (let s = modify_agent n
                (\<lambda>a. let a = a\<lparr>parent_name := par, stored_session := sid\<rparr>
                      in case mdl of
                           Some m \<Rightarrow> on_observable (\<lambda>b. b\<lparr>obs_model := m\<rparr>) a
                         | None \<Rightarrow> a)
                (entry_agent n s)
      in case par of
           None \<Rightarrow> s
         | Some p \<Rightarrow>
             modify_agent p
               (\<lambda>a. if n \<in> set (child_names a) then a else a\<lparr>child_names := child_names a @ [n]\<rparr>) s)"

definition auto_return_on_error :: "string \<Rightarrow> session_state \<Rightarrow> session_state" where
  "auto_return_on_error n s =
     truncate_if_done n
       (if active_view s = n \<and> (case view_of s n of Some a \<Rightarrow> status_of a = ErrorStatus | None \<Rightarrow> False)
        then s\<lparr>active_view := ROOT_AGENT\<rparr> else s)"

definition extract_key_param :: "string \<Rightarrow> json \<Rightarrow> string" where
  "extract_key_param tool inp =
     (let show_key = (\<lambda>key.
            case get_str inp key of
              Some t \<Rightarrow>
                if 40 < length t then tool @ ''('' @ take_chars 37 t @ ''...)''
                else tool @ ''('' @ t @ '')''
            | None \<Rightarrow> tool)
      in if tool \<in> {''Read'', ''Write'', ''Edit'', ''MultiEdit''} then show_key ''file_path''
         else if tool = ''Bash'' then show_key ''command''
         else if tool \<in> {''Grep'', ''Glob''} then show_key ''pattern''
         else tool)"

subsection \<open>Events\<close>

definition handle_error :: "string \<Rightarrow> agent_conversation \<Rightarrow> agent_conversation" where
  "handle_error t c =
     push_message (plain_message ''error'' t) ((flush_streaming c)\<lparr>retry_banner := None\<rparr>)"

definition decision_notice :: "string \<Rightarrow> string \<Rightarrow> string \<Rightarrow> u64 \<Rightarrow> string" where
  "decision_notice tool decision reason ms =
     ''['' @ (if decision = ''allow'' then ''auto-allowed'' else ''auto-denied'') @ ''] '' @ tool @ '': ''
     @ reason @ '' '' @ (if 0 < ms then ''('' @ nat_str (unat ms) @ ''ms)'' else ''(cached)'')"

text \<open>What an event does to the view of its agent; the three that end a turn are handled apart.\<close>

fun on_event :: "(json \<Rightarrow> string) \<Rightarrow> nat \<Rightarrow> event_payload \<Rightarrow> agent_view \<Rightarrow> agent_view" where
  "on_event render now (Stream t) a =
     set_status Running (on_conversation
       (\<lambda>c. let c = begin_turn now c in c\<lparr>streaming_text := streaming_text c @ t\<rparr>) a)"
| "on_event render now (ThinkingStream t) a =
     set_status Running (on_conversation
       (\<lambda>c. let c = begin_turn now c
             in c\<lparr>thinking_active := True, streaming_thinking := streaming_thinking c @ t\<rparr>) a)"
| "on_event render now (ThinkingComplete n) a = on_conversation (handle_thinking_complete n) a"
| "on_event render now (ToolCall i tool inp) a =
     on_conversation (handle_tool_call render now i tool inp)
       (on_observable (\<lambda>b. b\<lparr>obs_tool_count := obs_tool_count b + 1,
                             obs_in_flight := obs_in_flight b + 1,
                             obs_last_tool := Some (extract_key_param tool inp),
                             obs_status := Running\<rparr>) a)"
| "on_event render now (ToolResult i tool t err dur completion meta) a =
     on_observable (\<lambda>b. b\<lparr>obs_in_flight := sat_sub (obs_in_flight b) 1, obs_status := Running\<rparr>)
       (on_conversation (handle_tool_result i tool t err dur completion meta) a)"
| "on_event render now (ToolBatchStart ids) a = on_conversation (handle_tool_batch_start ids) a"
| "on_event render now (ToolProgress i tool t ms) a = on_conversation (handle_tool_progress i t) a"
| "on_event render now (ToolPermissionRequest i tool inp) a =
     on_conversation (\<lambda>c. (flush_streaming c)\<lparr>pending_perm :=
       Some \<lparr>perm_id = i, perm_name = tool, perm_input = inp, perm_relay = None\<rparr>\<rparr>) a"
| "on_event render now (UserQuestionRequest i qs) a =
     on_conversation (\<lambda>c. (flush_streaming c)\<lparr>pending_ask := Some (pending_question_new i qs)\<rparr>) a"
| "on_event render now (Error t) a = set_status ErrorStatus (on_conversation (handle_error t) a)"
| "on_event render now (RetryError t attempt limit) a =
     set_status Running (on_conversation
       (\<lambda>c. c\<lparr>retry_banner := Some (t @ '' ('' @ show_u32 attempt @ ''/'' @ show_u32 limit @ '')'')\<rparr>) a)"
| "on_event render now RetryCleared a = on_conversation (\<lambda>c. c\<lparr>retry_banner := None\<rparr>) a"
| "on_event render now (MaxTurnsReached n) a =
     on_conversation (\<lambda>c. push_system_msg (''Max turns reached ('' @ show_u32 n @ '')'') (flush_streaming c)) a"
| "on_event render now (AutoContinuation k limit) a = on_conversation (handle_auto_continuation k limit) a"
| "on_event render now (TokenUsage inp outp window creation cached thinking) a =
     on_observable (\<lambda>b. b\<lparr>obs_input_tokens := inp, obs_output_tokens := outp\<rparr>)
       (on_conversation (handle_token_usage inp outp window creation cached) a)"
| "on_event render now (ModeChanged m) a = on_observable (\<lambda>b. b\<lparr>obs_mode := m\<rparr>) a"
| "on_event render now (Rewound n) a = on_conversation (truncate_display_to_turn n) a"
| "on_event render now (Compacted kept removed before after strategy) a =
     on_conversation (handle_compaction kept removed before after strategy) a"
| "on_event render now Started a = set_status Running a"
| "on_event render now (ServerToolUse i tool inp) a =
     set_status Running (on_conversation (handle_server_tool_use render i tool inp) a)"
| "on_event render now (ServerToolResult i v) a =
     set_status Running (on_conversation (handle_server_tool_result render i v) a)"
| "on_event render now (AutoModeDecision tool decision reason ms) a =
     on_conversation (push_system_msg (decision_notice tool decision reason ms)) a"
| "on_event render now _ a = a"

fun idle_status :: "event_payload \<Rightarrow> agent_status option" where
  "idle_status AwaitingInput = Some WaitingForInput"
| "idle_status Finished = Some FinishedStatus"
| "idle_status Interrupted = Some WaitingForInput"
| "idle_status _ = None"

definition seen :: "nat \<Rightarrow> agent_view \<Rightarrow> agent_view" where
  "seen now a = (if seen_at a = None then a\<lparr>seen_at := Some now\<rparr> else a)"

definition apply_agent_event ::
  "(json \<Rightarrow> string) \<Rightarrow> nat \<Rightarrow> string \<Rightarrow> event_payload \<Rightarrow> session_state \<Rightarrow>
     user_content option \<times> session_state" where
  "apply_agent_event render now n p s =
     (let s = modify_agent n (seen now) (entry_agent n s)
      in case idle_status p of
           Some st \<Rightarrow> handle_idle now n st s
         | None \<Rightarrow> (None, auto_return_on_error n (modify_agent n (on_event render now p) s)))"

definition event_name :: "session_event \<Rightarrow> string" where
  "event_name e = (case event_agent e of Some n \<Rightarrow> n | None \<Rightarrow> ROOT_AGENT)"

fun note_event :: "nat \<Rightarrow> string \<Rightarrow> event_payload \<Rightarrow> session_state \<Rightarrow> session_state" where
  "note_event now n (MessageRouted src tgt preview) s = record_message_routed now src tgt preview s"
| "note_event now n (SubAgentSpawned child i par mdl sid) s =
     (let s = register_spawned_agent child par mdl sid s
      in case sid of
           Some x \<Rightarrow> s\<lparr>pending_refs := pending_refs s
                          @ [\<lparr>ref_agent = child, ref_session = x, ref_parent = par, ref_model = mdl\<rparr>]\<rparr>
         | None \<Rightarrow> s)"
| "note_event now n (ModeChanged m) s =
     (if n = active_view s \<and> shown_mode s \<noteq> m then s\<lparr>shown_mode := m\<rparr> else s)"
| "note_event now n _ s = s"

definition apply_event ::
  "(json \<Rightarrow> string) \<Rightarrow> nat \<Rightarrow> session_event \<Rightarrow> session_state \<Rightarrow> user_content option \<times> session_state" where
  "apply_event render now e s =
     apply_agent_event render now (event_name e) (payload e) (note_event now (event_name e) (payload e) s)"

subsection \<open>The controller\<close>

text \<open>What an operation leaves for the caller to do: requests to the agents and values it returns.\<close>

datatype outcome =
    Nothing
  | Forward "user_content option"
  | Entered bool
  | Relay_permission "int option" bool
  | Relay_answers "int option" "string list"
  | Send_control string control_command
  | Send_interrupt string
  | Send_message string user_content
  | Popped "user_content option"
  | Drained "(string \<times> sub_ref list) option"

definition enter_agent_view :: "string \<Rightarrow> session_state \<Rightarrow> bool \<times> session_state" where
  "enter_agent_view n s =
     (case view_of s n of
        None \<Rightarrow> (False, s)
      | Some a \<Rightarrow>
          if \<not> is_over (status_of a) \<and> n \<noteq> active_view s then (True, s\<lparr>active_view := n\<rparr>)
          else (False, s))"

definition exit_agent_view :: "session_state \<Rightarrow> session_state" where
  "exit_agent_view s = (if active_view s \<noteq> ROOT_AGENT then s\<lparr>active_view := ROOT_AGENT\<rparr> else s)"

definition enqueue_message :: "nat \<Rightarrow> user_content \<Rightarrow> session_state \<Rightarrow> user_content option \<times> session_state" where
  "enqueue_message now u s = try_forward_inbox now (s\<lparr>inbox := inbox s @ [u]\<rparr>)"

definition active_conversation :: "session_state \<Rightarrow> agent_conversation option" where
  "active_conversation s = map_option conversation (view_of s (active_view s))"

definition answer_permission :: "bool \<Rightarrow> session_state \<Rightarrow> (outcome \<times> session_state) option" where
  "answer_permission allow s =
     (case active_conversation s of
        None \<Rightarrow> None
      | Some c \<Rightarrow>
          map_option (Pair (Relay_permission (Option.bind (pending_perm c) perm_relay) allow))
            (on_active (\<lambda>c. c\<lparr>pending_perm := None\<rparr>) s))"

definition answer_question :: "string list \<Rightarrow> session_state \<Rightarrow> (outcome \<times> session_state) option" where
  "answer_question answers s =
     (case active_conversation s of
        None \<Rightarrow> None
      | Some c \<Rightarrow>
          map_option (Pair (Relay_answers (Option.bind (pending_ask c) asked_relay) answers))
            (on_active (\<lambda>c. c\<lparr>pending_ask := None\<rparr>) s))"

definition mode_label :: "agent_mode \<Rightarrow> string" where
  "mode_label m = (case m of Plan \<Rightarrow> ''plan'' | Act \<Rightarrow> ''act'')"

definition switch_mode :: "agent_mode \<Rightarrow> session_state \<Rightarrow> outcome \<times> session_state" where
  "switch_mode m s = (Send_control (active_view s) (ModeSwitch m), s\<lparr>shown_mode := mode_label m\<rparr>)"

definition switch_model :: "string \<Rightarrow> session_state \<Rightarrow> (outcome \<times> session_state) option" where
  "switch_model m s =
     map_option (Pair (Send_control (active_view s) (ModelSwitch m)))
       (on_active (push_system_msg (''Switched model to: '' @ m)) (s\<lparr>shown_model := m\<rparr>))"

definition switch_thinking ::
  "(string \<Rightarrow> json option) \<Rightarrow> string \<Rightarrow> session_state \<Rightarrow> (outcome \<times> session_state) option" where
  "switch_thinking parse t s =
     (let l = thinking_label parse t
      in map_option (Pair (Send_control (active_view s) (ThinkingSwitch t)))
           (on_active (push_system_msg (''Switched thinking to: '' @ l)) (s\<lparr>shown_thinking := l\<rparr>)))"

definition clear_conversation :: "agent_conversation \<Rightarrow> agent_conversation" where
  "clear_conversation c =
     reset_timer (c\<lparr>shown := [], streaming_text := '''', turns := 0, conv_input := 0, conv_output := 0,
                    conv_cache_creation := 0, conv_cache_read := 0, retry_banner := None\<rparr>)"

definition clear_view :: "session_state \<Rightarrow> (outcome \<times> session_state) option" where
  "clear_view s =
     map_option (\<lambda>t. (Send_control (active_view s) Clear_history, t\<lparr>inbox := []\<rparr>))
       (on_active clear_conversation s)"

definition pop_inbox_to_edit :: "session_state \<Rightarrow> user_content option \<times> session_state" where
  "pop_inbox_to_edit s =
     (if inbox s = [] then (None, s) else (Some (last (inbox s)), s\<lparr>inbox := butlast (inbox s)\<rparr>))"

definition into_session_call :: "projected_call \<Rightarrow> session_tool_call" where
  "into_session_call tc =
     \<lparr>call_id = proj_id tc, call_name = proj_name tc,
      call_status = (if proj_error tc then CallError else if proj_result tc \<noteq> None then Success else Pending),
      call_summary = proj_summary tc, call_result = proj_result tc, call_input = proj_input tc,
      call_batch = None, call_started = None, call_duration = None, call_progress = None,
      call_metadata = proj_metadata tc\<rparr>"

definition into_session_message :: "projected_message \<Rightarrow> session_message" where
  "into_session_message m =
     \<lparr>msg_role = proj_role m, msg_content = proj_content m,
      msg_calls = map into_session_call (proj_calls m), msg_images = proj_images m, msg_skill = None\<rparr>"

definition push_welcome :: "string \<Rightarrow> string \<Rightarrow> session_state \<Rightarrow> session_state option" where
  "push_welcome m path s = on_root (push_message (plain_message ''welcome'' (m @ NL # path))) s"

definition load_display_history :: "projected_message list \<Rightarrow> session_state \<Rightarrow> session_state option" where
  "load_display_history ms s = on_root (\<lambda>c. c\<lparr>shown := map into_session_message ms\<rparr>) s"

definition drain_pending_refs :: "session_state \<Rightarrow> (string \<times> sub_ref list) option \<times> session_state" where
  "drain_pending_refs s =
     (if pending_refs s = [] then (None, s)
      else let refs = pending_refs s; s = s\<lparr>pending_refs := []\<rparr>
           in case root_session s of
                Some r \<Rightarrow> (Some (r, refs), s)
              | None \<Rightarrow> (None, s))"

text \<open>The operations of the controller.\<close>

datatype display_op =
    Handle_event nat session_event
  | Enqueue nat user_content
  | Enter_view string
  | Exit_view
  | Interrupt_viewed
  | Interrupt_agent string
  | Route_message user_content
  | Answer_permission bool
  | Auto_approve int
  | Answer_question "string list"
  | Auto_answer int "string list"
  | Switch_mode agent_mode
  | Switch_model string
  | Switch_thinking string
  | Clear_view
  | Compact_view
  | Rewind_view nat
  | Pop_inbox
  | Push_system string
  | Push_welcome string string
  | Load_history "projected_message list"
  | Set_root string
  | Drain_refs

definition display_effect ::
  "(json \<Rightarrow> string) \<Rightarrow> (string \<Rightarrow> json option) \<Rightarrow> display_op \<Rightarrow> session_state \<Rightarrow>
     (outcome \<times> session_state) option" where
  "display_effect render parse e s =
     (case e of
        Handle_event now ev \<Rightarrow> Some (apfst Forward (apply_event render now ev s))
      | Enqueue now u \<Rightarrow> Some (apfst Forward (enqueue_message now u s))
      | Enter_view n \<Rightarrow> Some (apfst Entered (enter_agent_view n s))
      | Exit_view \<Rightarrow> Some (Nothing, exit_agent_view s)
      | Interrupt_viewed \<Rightarrow> Some (Send_interrupt (active_view s), s)
      | Interrupt_agent n \<Rightarrow> Some (Send_interrupt n, s)
      | Route_message u \<Rightarrow> Some (Send_message (active_view s) u, s)
      | Answer_permission allow \<Rightarrow> answer_permission allow s
      | Auto_approve i \<Rightarrow> Some (Relay_permission (Some i) True, s)
      | Answer_question ans \<Rightarrow> answer_question ans s
      | Auto_answer i ans \<Rightarrow> Some (Relay_answers (Some i) ans, s)
      | Switch_mode m \<Rightarrow> Some (switch_mode m s)
      | Switch_model m \<Rightarrow> switch_model m s
      | Switch_thinking t \<Rightarrow> switch_thinking parse t s
      | Clear_view \<Rightarrow> clear_view s
      | Compact_view \<Rightarrow> Some (Send_control (active_view s) Compact_now, s)
      | Rewind_view n \<Rightarrow> Some (Send_control (active_view s) (Rewind n), s)
      | Pop_inbox \<Rightarrow> Some (apfst Popped (pop_inbox_to_edit s))
      | Push_system t \<Rightarrow> map_option (Pair Nothing) (on_active (push_system_msg t) s)
      | Push_welcome m path \<Rightarrow> map_option (Pair Nothing) (push_welcome m path s)
      | Load_history ms \<Rightarrow> map_option (Pair Nothing) (load_display_history ms s)
      | Set_root i \<Rightarrow> Some (Nothing, s\<lparr>root_session := Some i\<rparr>)
      | Drain_refs \<Rightarrow> Some (apfst Drained (drain_pending_refs s)))"

text \<open>A panic leaves the state as it is.\<close>

definition display_step ::
  "(json \<Rightarrow> string) \<Rightarrow> (string \<Rightarrow> json option) \<Rightarrow> display_op \<Rightarrow> session_state \<Rightarrow> session_state" where
  "display_step render parse e s =
     (case display_effect render parse e s of Some (x, t) \<Rightarrow> t | None \<Rightarrow> s)"

subsection \<open>The viewed agent exists, and finished agents stay small\<close>

lemma view_modify [simp]:
  "view_of (modify_agent n f s) m = (if m = n then map_option f (view_of s n) else view_of s m)"
  by (auto simp: modify_agent_def update_conv' split: option.split)

lemma view_entry [simp]:
  "view_of (entry_agent n s) m =
     (if m = n \<and> view_of s n = None then Some agent_view_default else view_of s m)"
  by (auto simp: entry_agent_def update_conv' split: option.split)

lemma modify_rest [simp]:
  "active_view (modify_agent n f s) = active_view s" "inbox (modify_agent n f s) = inbox s"
  "message_feed (modify_agent n f s) = message_feed s"
  by (simp_all add: modify_agent_def split: option.split)

lemma entry_rest [simp]:
  "active_view (entry_agent n s) = active_view s" "inbox (entry_agent n s) = inbox s"
  "message_feed (entry_agent n s) = message_feed s"
  by (simp_all add: entry_agent_def split: option.split)

definition view_fits :: "string \<Rightarrow> agent_view \<Rightarrow> bool" where
  "view_fits n a =
     (n = ROOT_AGENT \<or> \<not> is_over (status_of a) \<or> length (shown (conversation a)) \<le> MAX_DONE_MSGS)"

definition viewable :: "string \<Rightarrow> agent_view \<Rightarrow> bool" where
  "viewable n a = (n = ROOT_AGENT \<or> \<not> is_over (status_of a))"

definition session_ok :: "session_state \<Rightarrow> bool" where
  "session_ok s \<longleftrightarrow>
     view_of s ROOT_AGENT \<noteq> None
      \<and> (\<exists>a. view_of s (active_view s) = Some a \<and> viewable (active_view s) a)
      \<and> (\<forall>n a. view_of s n = Some a \<longrightarrow> view_fits n a)
      \<and> length (entries (message_feed s)) \<le> capacity (message_feed s)
      \<and> capacity (message_feed s) = 200"

text \<open>A change of one agent that keeps its status and does not make a finished one grow.\<close>

definition harmless :: "string \<Rightarrow> (agent_view \<Rightarrow> agent_view) \<Rightarrow> bool" where
  "harmless n f =
     (\<forall>a. (viewable n a \<longrightarrow> viewable n (f a)) \<and> (view_fits n a \<longrightarrow> view_fits n (f a)))"

lemma ok_modify: "session_ok s \<Longrightarrow> harmless n f \<Longrightarrow> session_ok (modify_agent n f s)"
  by (auto simp: session_ok_def harmless_def)

lemma fits_new: "view_fits n agent_view_default" "viewable n agent_view_default"
  by (simp_all add: view_fits_def viewable_def agent_view_default_def status_of_def
      observable_default_def is_over_def)

lemma ok_entry: "session_ok s \<Longrightarrow> session_ok (entry_agent n s)"
  by (auto simp: session_ok_def fits_new split: if_splits)

text \<open>Every agent but \<open>n\<close> is in order, and \<open>n\<close> exists.\<close>

definition ok_but :: "string \<Rightarrow> session_state \<Rightarrow> bool" where
  "ok_but n s \<longleftrightarrow>
     view_of s ROOT_AGENT \<noteq> None \<and> view_of s n \<noteq> None
      \<and> (active_view s \<noteq> n \<longrightarrow>
           (\<exists>a. view_of s (active_view s) = Some a \<and> viewable (active_view s) a))
      \<and> (\<forall>m a. m \<noteq> n \<longrightarrow> view_of s m = Some a \<longrightarrow> view_fits m a)
      \<and> length (entries (message_feed s)) \<le> capacity (message_feed s)
      \<and> capacity (message_feed s) = 200"

lemma ok_but_modify: "session_ok s \<Longrightarrow> view_of s n \<noteq> None \<Longrightarrow> ok_but n (modify_agent n f s)"
  by (auto simp: session_ok_def ok_but_def)

lemma shrink_props [simp]: "view_fits n (shrink_done a)" "viewable n (shrink_done a) = viewable n a"
  by (auto simp: view_fits_def viewable_def shrink_done_def on_conversation_def keep_recent_def
      status_of_def)

lemma ok_truncated:
  assumes "ok_but n s" "active_view s = n \<Longrightarrow> (\<exists>a. view_of s n = Some a \<and> viewable n a)"
  shows "session_ok (truncate_if_done n s)"
proof (cases "n = ROOT_AGENT")
  case True
  then show ?thesis using assms
    by (auto simp: truncate_if_done_def session_ok_def ok_but_def view_fits_def viewable_def)
next
  case False
  then show ?thesis using assms
    by (auto simp: truncate_if_done_def session_ok_def ok_but_def)
qed

lemma to_root:
  "ok_but n s \<Longrightarrow> ok_but n (s\<lparr>active_view := ROOT_AGENT\<rparr>)"
  by (auto simp: ok_but_def viewable_def)

lemma root_viewable: "ok_but n s \<Longrightarrow> \<exists>a. view_of s ROOT_AGENT = Some a \<and> viewable ROOT_AGENT a"
  by (auto simp: ok_but_def viewable_def)

lemma ok_after_event:
  assumes "ok_but n s"
    and "\<And>a. active_view s = n \<Longrightarrow> view_of s n = Some a \<Longrightarrow>
           status_of a = ErrorStatus \<or> viewable n a"
  shows "session_ok (auto_return_on_error n s)"
proof (cases "active_view s = n \<and> (case view_of s n of Some a \<Rightarrow> status_of a = ErrorStatus | None \<Rightarrow> False)")
  case True
  have "session_ok (truncate_if_done n (s\<lparr>active_view := ROOT_AGENT\<rparr>))"
    using root_viewable[OF assms(1)] by (intro ok_truncated to_root assms(1)) auto
  with True show ?thesis by (simp add: auto_return_on_error_def)
next
  case False
  have "session_ok (truncate_if_done n s)"
  proof (rule ok_truncated[OF assms(1)])
    assume act: "active_view s = n"
    moreover obtain a where a: "view_of s n = Some a" using assms(1) by (auto simp: ok_but_def)
    moreover have "status_of a \<noteq> ErrorStatus" using False act a by auto
    ultimately show "\<exists>a. view_of s n = Some a \<and> viewable n a" using assms(2) by blast
  qed
  with False show ?thesis by (simp only: auto_return_on_error_def if_False)
qed

lemma status_simps [simp]:
  "status_of (on_conversation f a) = status_of a" "status_of (set_status st a) = st"
  by (simp_all add: status_of_def on_conversation_def set_status_def on_observable_def)

lemma event_status:
  "status_of (on_event render now p a) \<in> {status_of a, Running, ErrorStatus}"
  by (cases p) (simp_all add: status_of_def on_conversation_def on_observable_def set_status_def)

lemma ok_forward: "session_ok s \<Longrightarrow> session_ok (snd (try_forward_inbox now s))"
proof -
  assume ok: "session_ok s"
  let ?f = "on_conversation (\<lambda>c. push_message (user_display u) (begin_turn now (c\<lparr>agent_idle := False\<rparr>)))"
  obtain a where a: "view_of s (active_view s) = Some a" "viewable (active_view s) a"
    using ok by (auto simp: session_ok_def)
  then have "view_fits (active_view s) (on_conversation g a)" "viewable (active_view s) (on_conversation g a)" for g
    by (auto simp: view_fits_def viewable_def)
  with ok a show ?thesis
    by (auto simp: try_forward_inbox_def session_ok_def split: list.split)
qed

lemma idle_view_status [simp]: "status_of (idle_view now st a) = st"
  by (simp add: idle_view_def status_of_def Let_def)

lemma ok_idle:
  assumes ok: "session_ok s" and st: "st \<noteq> ErrorStatus"
  shows "session_ok (snd (handle_idle now n st s))"
proof (cases "view_of s n")
  case (Some a)
  let ?s = "modify_agent n (idle_view now st) s"
  let ?t = "if st = FinishedStatus \<and> active_view ?s = n then ?s\<lparr>active_view := ROOT_AGENT\<rparr> else ?s"
  have but: "ok_but n ?s" using ok Some by (intro ok_but_modify) auto
  have "session_ok (truncate_if_done n ?t)"
  proof (rule ok_truncated)
    show "ok_but n ?t" using but to_root[OF but] by (cases "st = FinishedStatus \<and> active_view ?s = n") auto
    show "\<exists>a. view_of ?t n = Some a \<and> viewable n a" if "active_view ?t = n"
      using that Some st by (cases st) (auto simp: viewable_def is_over_def split: if_splits)
  qed
  with Some ok_forward show ?thesis by (simp add: handle_idle_def Let_def)
qed (simp add: handle_idle_def ok)

lemma ok_note: "session_ok s \<Longrightarrow> session_ok (note_event now n p s)"
proof (cases p)
  case (MessageRouted src tgt preview)
  assume ok: "session_ok s"
  have log: "harmless m (\<lambda>a. a\<lparr>message_log := message_log a @ es\<rparr>)" for m es
    by (auto simp: harmless_def viewable_def view_fits_def status_of_def)
  have "session_ok (s\<lparr>message_feed := record_entry e (message_feed s)\<rparr>)" for e
    using ok by (auto simp: session_ok_def record_entry_def Let_def)
  then show ?thesis
    using MessageRouted by (auto simp: record_message_routed_def Let_def intro!: ok_modify log)
next
  case (SubAgentSpawned child i par mdl sid)
  assume ok: "session_ok s"
  have 1: "harmless m (\<lambda>a. let a = a\<lparr>parent_name := q, stored_session := sid\<rparr>
       in case mdl of Some x \<Rightarrow> on_observable (\<lambda>b. b\<lparr>obs_model := x\<rparr>) a | None \<Rightarrow> a)" for m q
    by (auto simp: harmless_def viewable_def view_fits_def status_of_def on_observable_def Let_def
        split: option.split)
  have 2: "harmless m (\<lambda>a. if child \<in> set (child_names a) then a
       else a\<lparr>child_names := child_names a @ [child]\<rparr>)" for m
    by (auto simp: harmless_def viewable_def view_fits_def status_of_def)
  have "session_ok (register_spawned_agent child par mdl sid s)"
    using ok by (auto simp: register_spawned_agent_def Let_def[of "modify_agent _ _ _"]
        intro!: ok_modify ok_entry 1 2 split: option.split)
  then show ?thesis using SubAgentSpawned
    by (auto simp: session_ok_def Let_def split: option.split)
qed (auto simp: session_ok_def)

lemma ok_apply: "session_ok s \<Longrightarrow> session_ok (snd (apply_agent_event render now n p s))"
proof -
  assume ok: "session_ok s"
  have seen: "harmless n (seen now)"
    by (auto simp: harmless_def seen_def viewable_def view_fits_def status_of_def)
  let ?s = "modify_agent n (seen now) (entry_agent n s)"
  have ok': "session_ok ?s" by (intro ok_modify ok_entry ok seen)
  show ?thesis
  proof (cases "idle_status p")
    case None
    have there: "view_of ?s n \<noteq> None" by simp
    have "session_ok (auto_return_on_error n (modify_agent n (on_event render now p) ?s))"
    proof (rule ok_after_event)
      show "ok_but n (modify_agent n (on_event render now p) ?s)"
        using ok' there by (rule ok_but_modify)
      fix a assume act: "active_view (modify_agent n (on_event render now p) ?s) = n"
        and a: "view_of (modify_agent n (on_event render now p) ?s) n = Some a"
      from a obtain b where b: "view_of ?s n = Some b" "a = on_event render now p b" by auto
      then have "viewable n b" using ok' act by (auto simp only: session_ok_def modify_rest entry_rest)
      with b event_status[of render now p b] show "status_of a = ErrorStatus \<or> viewable n a"
        by (auto simp: viewable_def is_over_def)
    qed
    with None show ?thesis by (simp add: apply_agent_event_def Let_def)
  next
    case (Some st)
    then have "st \<noteq> ErrorStatus" by (cases p) auto
    with ok_idle[OF ok'] Some show ?thesis by (simp add: apply_agent_event_def Let_def)
  qed
qed

lemma viewable_fits: "viewable n a \<Longrightarrow> view_fits n (on_conversation f a) \<and> viewable n (on_conversation f a)"
  by (auto simp: viewable_def view_fits_def)

lemma ok_on_active:
  assumes "session_ok s" shows "\<exists>t. on_active f s = Some t \<and> session_ok t"
proof -
  obtain a where a: "view_of s (active_view s) = Some a" "viewable (active_view s) a"
    using assms by (auto simp: session_ok_def)
  with assms viewable_fits[OF a(2)] show ?thesis
    by (auto simp: on_active_def session_ok_def)
qed

lemma ok_on_root:
  assumes "session_ok s" shows "\<exists>t. on_root f s = Some t \<and> session_ok t"
  using assms by (auto simp: on_root_def session_ok_def viewable_def view_fits_def)

lemma ok_fields:
  "session_ok (s\<lparr>inbox := q\<rparr>) = session_ok s" "session_ok (s\<lparr>shown_model := m\<rparr>) = session_ok s"
  "session_ok (s\<lparr>shown_mode := m\<rparr>) = session_ok s" "session_ok (s\<lparr>shown_thinking := m\<rparr>) = session_ok s"
  "session_ok (s\<lparr>root_session := r\<rparr>) = session_ok s" "session_ok (s\<lparr>pending_refs := p\<rparr>) = session_ok s"
  by (simp_all add: session_ok_def)

lemma ok_option:
  "\<exists>t. m = Some t \<and> session_ok t \<Longrightarrow>
     \<exists>x t. map_option (Pair (o1::outcome)) m = Some (x, t) \<and> session_ok t"
  by auto

lemma active_conversation_there: "session_ok s \<Longrightarrow> \<exists>c. active_conversation s = Some c"
  by (auto simp: session_ok_def active_conversation_def)

lemma ok_op: "session_ok s \<Longrightarrow> \<exists>x t. display_effect render parse e s = Some (x, t) \<and> session_ok t"
proof (cases e)
  case (Handle_event now ev)
  assume "session_ok s"
  then have "session_ok (snd (apply_event render now ev s))"
    by (simp add: apply_event_def ok_apply ok_note)
  then show ?thesis using Handle_event
    by (cases "apply_event render now ev s") (auto simp: display_effect_def)
next
  case (Enqueue now u)
  assume "session_ok s"
  then show ?thesis using Enqueue ok_forward[of "s\<lparr>inbox := inbox s @ [u]\<rparr>" now]
    by (auto simp: display_effect_def enqueue_message_def ok_fields apfst_def map_prod_def split: prod.split)
next
  case (Enter_view n)
  assume "session_ok s"
  then show ?thesis using Enter_view
    by (auto simp: display_effect_def enter_agent_view_def session_ok_def viewable_def split: option.split)
next
  case Exit_view
  assume "session_ok s"
  then show ?thesis using Exit_view
    by (auto simp: display_effect_def exit_agent_view_def session_ok_def viewable_def)
next
  case (Answer_permission allow)
  assume ok: "session_ok s"
  show ?thesis using Answer_permission active_conversation_there[OF ok] ok_option[OF ok_on_active[OF ok]]
    by (auto simp: display_effect_def answer_permission_def)
next
  case (Answer_question ans)
  assume ok: "session_ok s"
  show ?thesis using Answer_question active_conversation_there[OF ok] ok_option[OF ok_on_active[OF ok]]
    by (auto simp: display_effect_def answer_question_def)
next
  case (Switch_model m)
  assume ok: "session_ok s"
  show ?thesis using Switch_model ok_option[OF ok_on_active[of "s\<lparr>shown_model := m\<rparr>"]] ok
    by (auto simp: display_effect_def switch_model_def ok_fields)
next
  case (Switch_thinking t)
  assume ok: "session_ok s"
  show ?thesis
    using Switch_thinking ok_option[OF ok_on_active[of "s\<lparr>shown_thinking := thinking_label parse t\<rparr>"]] ok
    by (auto simp: display_effect_def switch_thinking_def ok_fields Let_def)
next
  case Clear_view
  assume ok: "session_ok s"
  show ?thesis using Clear_view ok_on_active[OF ok, of clear_conversation]
    by (auto simp: display_effect_def clear_view_def ok_fields)
next
  case (Push_system t)
  assume ok: "session_ok s"
  show ?thesis using Push_system ok_option[OF ok_on_active[OF ok]] by (auto simp: display_effect_def)
next
  case (Push_welcome m path)
  assume ok: "session_ok s"
  show ?thesis using Push_welcome ok_option[OF ok_on_root[OF ok]]
    by (auto simp: display_effect_def push_welcome_def)
next
  case (Load_history ms)
  assume ok: "session_ok s"
  show ?thesis using Load_history ok_option[OF ok_on_root[OF ok]]
    by (auto simp: display_effect_def load_display_history_def)
qed (auto simp: display_effect_def switch_mode_def pop_inbox_to_edit_def drain_pending_refs_def ok_fields
      Let_def split: option.split)

lemma ok_new: "session_ok (session_new now m mo)"
  by (auto simp: session_ok_def session_new_def viewable_def view_fits_def split: if_splits)

interpretation display: op_system "display_step render parse" session_ok "session_new now m mo"
proof
  show "session_ok (session_new now m mo)" by (rule ok_new)
next
  fix s e assume "session_ok s"
  from ok_op[OF this, of render parse e] show "session_ok (display_step render parse e s)"
    by (auto simp: display_step_def)
qed

text \<open>
  C9. Whatever events arrive and whatever the user does, in any order: the viewed agent exists and
  is the root or one that is still at work, so no operation of the display panics; an agent other
  than the root that has finished or failed shows at most twenty messages, and the message feed
  holds at most two hundred entries.
\<close>

theorem display_always_consistent:
  "let s = run_ops (display_step render parse) es (session_new now m mo)
   in display_effect render parse e s \<noteq> None
      \<and> (\<exists>a. view_of s (active_view s) = Some a
           \<and> (active_view s \<noteq> ROOT_AGENT \<longrightarrow> \<not> is_over (status_of a)))
      \<and> (\<forall>n a. view_of s n = Some a \<and> n \<noteq> ROOT_AGENT \<and> is_over (status_of a) \<longrightarrow>
           length (shown (conversation a)) \<le> 20)
      \<and> length (entries (message_feed s)) \<le> 200"
proof -
  let ?s = "run_ops (display_step render parse) es (session_new now m mo)"
  have ok: "session_ok ?s" by (rule display.inv_reached)
  then have "display_effect render parse e ?s \<noteq> None" using ok_op[OF ok, of render parse e] by auto
  with ok show ?thesis
    by (auto simp: Let_def session_ok_def viewable_def view_fits_def MAX_DONE_MSGS_def)
qed

definition busy_session :: session_state where
  "busy_session = run_ops (display_step (\<lambda>_. ''{}'') (\<lambda>_. None))
     [Handle_event 1 (event_named ''a'' (Stream ''x'')), Enter_view ''a'',
      Handle_event 2 (event_named ''a'' (Error ''gone''))] (session_new 0 ''m'' ''act'')"

lemma busy_returned: "active_view busy_session = ROOT_AGENT"
  by code_simp

theorem display_always_consistent_witness:
  "case view_of busy_session ''a'' of
     Some a \<Rightarrow> is_over (status_of a) \<and> length (shown (conversation a)) \<le> 20 | None \<Rightarrow> False"
proof -
  have "case view_of busy_session ''a'' of Some a \<Rightarrow> is_over (status_of a) | None \<Rightarrow> False" "''a'' \<noteq> ROOT_AGENT"
    by code_simp+
  then show ?thesis
    using display_always_consistent[of "\<lambda>_. ''{}''" "\<lambda>_. None"
        "[Handle_event 1 (event_named ''a'' (Stream ''x'')), Enter_view ''a'',
          Handle_event 2 (event_named ''a'' (Error ''gone''))]" 0 "''m''" "''act''"]
    by (fastforce simp: Let_def busy_session_def split: option.splits)
qed

subsection \<open>The inbox\<close>

text \<open>What the operations returned, in order.\<close>

fun outcomes ::
  "(json \<Rightarrow> string) \<Rightarrow> (string \<Rightarrow> json option) \<Rightarrow> display_op list \<Rightarrow> session_state \<Rightarrow> outcome list"
where
  "outcomes render parse [] s = []"
| "outcomes render parse (e # es) s =
     (case display_effect render parse e s of
        Some (x, t) \<Rightarrow> x # outcomes render parse es t
      | None \<Rightarrow> outcomes render parse es s)"

fun forwarded :: "outcome \<Rightarrow> user_content list" where
  "forwarded (Forward (Some u)) = [u]"
| "forwarded _ = []"

fun typed :: "display_op \<Rightarrow> user_content list" where
  "typed (Enqueue now u) = [u]"
| "typed _ = []"

fun takes_back :: "display_op \<Rightarrow> bool" where
  "takes_back Pop_inbox = True"
| "takes_back Clear_view = True"
| "takes_back _ = False"

lemma inbox_forward:
  "try_forward_inbox now s = (x, t) \<Longrightarrow> forwarded (Forward x) @ inbox t = inbox s"
  by (auto simp: try_forward_inbox_def split: option.splits if_splits list.splits)

lemma inbox_truncate [simp]: "inbox (truncate_if_done n s) = inbox s"
  by (simp add: truncate_if_done_def)

lemma inbox_idle: "handle_idle now n st s = (x, t) \<Longrightarrow> forwarded (Forward x) @ inbox t = inbox s"
  using inbox_forward[of now "truncate_if_done n (modify_agent n (idle_view now st) s)" x t]
    inbox_forward[of now "truncate_if_done n ((modify_agent n (idle_view now st) s)\<lparr>active_view := ROOT_AGENT\<rparr>)" x t]
  by (auto simp: handle_idle_def Let_def split: if_splits)

lemma inbox_note [simp]: "inbox (note_event now n p s) = inbox s"
  by (cases p) (simp_all add: record_message_routed_def register_spawned_agent_def Let_def split: option.split)

lemma inbox_event: "apply_event render now e s = (x, t) \<Longrightarrow> forwarded (Forward x) @ inbox t = inbox s"
proof -
  assume ev: "apply_event render now e s = (x, t)"
  let ?s = "note_event now (event_name e) (payload e) s"
  let ?u = "modify_agent (event_name e) (seen now) (entry_agent (event_name e) ?s)"
  show ?thesis
  proof (cases "idle_status (payload e)")
    case None
    with ev show ?thesis
      by (auto simp: apply_event_def apply_agent_event_def auto_return_on_error_def Let_def)
  next
    case (Some st)
    with ev have "handle_idle now (event_name e) st ?u = (x, t)"
      by (simp add: apply_event_def apply_agent_event_def Let_def)
    from inbox_idle[OF this] show ?thesis by simp
  qed
qed

lemma inbox_on_active: "on_active f s = Some t \<Longrightarrow> inbox t = inbox s"
  by (auto simp: on_active_def split: if_splits)

lemma inbox_on_root: "on_root f s = Some t \<Longrightarrow> inbox t = inbox s"
  by (auto simp: on_root_def split: if_splits)

lemma inbox_op:
  assumes "display_effect render parse e s = Some (x, t)" "\<not> takes_back e"
  shows "forwarded x @ inbox t = inbox s @ typed e"
proof (cases e)
  case (Handle_event now ev)
  with assms(1) inbox_event show ?thesis
    by (cases "apply_event render now ev s") (auto simp: display_effect_def)
next
  case (Enqueue now u)
  with assms(1) inbox_forward[of now "s\<lparr>inbox := inbox s @ [u]\<rparr>"] show ?thesis
    by (cases "enqueue_message now u s") (auto simp: display_effect_def enqueue_message_def)
qed (use assms in \<open>auto simp: display_effect_def enter_agent_view_def exit_agent_view_def
      answer_permission_def answer_question_def switch_mode_def switch_model_def switch_thinking_def
      push_welcome_def load_display_history_def drain_pending_refs_def Let_def
      dest!: inbox_on_active inbox_on_root split: option.splits if_splits\<close>)

text \<open>
  C13. Nothing the user types is lost, sent twice or sent out of order: as long as no queued message
  is taken back, what was forwarded followed by what still waits is what waited at first followed
  by what was typed.
\<close>

theorem inbox_forwards_in_order:
  assumes "list_all (\<lambda>e. \<not> takes_back e) es" and "session_ok s"
  shows "concat (map forwarded (outcomes render parse es s))
           @ inbox (run_ops (display_step render parse) es s)
         = inbox s @ concat (map typed es)"
  using assms
proof (induction es arbitrary: s)
  case (Cons e es)
  obtain x t where op: "display_effect render parse e s = Some (x, t)" "session_ok t"
    using ok_op[OF Cons.prems(2)] by blast
  then have step: "display_step render parse e s = t" by (simp add: display_step_def)
  have "forwarded x @ inbox t = inbox s @ typed e" using inbox_op[OF op(1)] Cons.prems(1) by simp
  moreover have "concat (map forwarded (outcomes render parse es t))
      @ inbox (run_ops (display_step render parse) es t) = inbox t @ concat (map typed es)"
    using Cons.IH[OF _ op(2)] Cons.prems(1) by simp
  ultimately show ?case by (simp add: op step flip: append_assoc) (simp add: op step)
qed simp

definition typed_twice :: "display_op list" where
  "typed_twice =
     [Enqueue 1 (text_only ''one''), Enqueue 2 (text_only ''two''),
      Handle_event 3 (event_root AwaitingInput)]"

theorem inbox_forwards_in_order_witness:
  "concat (map forwarded (outcomes (\<lambda>_. ''{}'') (\<lambda>_. None) typed_twice (session_new 0 ''m'' ''act'')))
     @ inbox (run_ops (display_step (\<lambda>_. ''{}'') (\<lambda>_. None)) typed_twice (session_new 0 ''m'' ''act''))
   = [text_only ''one'', text_only ''two'']
   \<and> concat (map forwarded (outcomes (\<lambda>_. ''{}'') (\<lambda>_. None) typed_twice (session_new 0 ''m'' ''act'')))
       = [text_only ''one'']"
proof -
  have "concat (map forwarded (outcomes (\<lambda>_. ''{}'') (\<lambda>_. None) typed_twice (session_new 0 ''m'' ''act'')))
      = [text_only ''one'']" by code_simp
  moreover have "list_all (\<lambda>e. \<not> takes_back e) typed_twice" by code_simp
  moreover have "inbox (session_new 0 ''m'' ''act'') @ concat (map typed typed_twice)
      = [text_only ''one'', text_only ''two'']" by code_simp
  ultimately show ?thesis
    using inbox_forwards_in_order[of typed_twice "session_new 0 ''m'' ''act''" "\<lambda>_. ''{}''" "\<lambda>_. None"]
    by (simp add: ok_new)
qed

text \<open>A message is forwarded to an idle agent only, which is then at work and shows it.\<close>

lemma forwarded_to_idle:
  assumes "try_forward_inbox now s = (Some u, t)"
  shows "\<exists>a b. view_of s (active_view s) = Some a \<and> agent_idle (conversation a)
     \<and> active_view t = active_view s \<and> view_of t (active_view s) = Some b
     \<and> \<not> agent_idle (conversation b) \<and> shown (conversation b) = shown (conversation a) @ [user_display u]"
  using assms
  by (auto simp: try_forward_inbox_def on_conversation_def push_message_def begin_turn_def
      split: option.splits if_splits list.splits)

text \<open>
  A message typed for a busy agent waits for the viewed agent: after the view returns to an agent
  that is already idle it stays in the inbox until something else happens.
\<close>

lemma queued_message_waits_on_exit:
  "let s = run_ops (display_step (\<lambda>_. ''{}'') (\<lambda>_. None))
       [Handle_event 1 (event_root AwaitingInput), Handle_event 2 (event_named ''a'' (Stream ''x'')),
        Enter_view ''a'', Enqueue 3 (text_only ''go''), Exit_view] (session_new 0 ''m'' ''act'')
   in inbox s = [text_only ''go''] \<and> active_view s = ROOT_AGENT
      \<and> map_option agent_idle (active_conversation s) = Some True"
  by code_simp

text \<open>Draining the references to sub-agents before the root session is known drops them.\<close>

lemma refs_lost_without_root:
  "root_session s = None \<Longrightarrow> drain_pending_refs s = (None, s\<lparr>pending_refs := []\<rparr>)"
  by (simp add: drain_pending_refs_def Let_def)

subsection \<open>What the root agent says is shown\<close>

definition root_text :: "session_state \<Rightarrow> string" where
  "root_text s = (case view_of s ROOT_AGENT of Some a \<Rightarrow> assistant_text (conversation a) | None \<Rightarrow> '''')"

fun streamed :: "event_payload \<Rightarrow> string" where
  "streamed (Stream t) = t"
| "streamed _ = ''''"

fun erases_text :: "event_payload \<Rightarrow> bool" where
  "erases_text (Rewound n) = True"
| "erases_text (ToolResult i tool t err dur completion meta) = completion"
| "erases_text _ = False"

fun said :: "display_op \<Rightarrow> string" where
  "said (Handle_event now e) = (if event_name e = ROOT_AGENT then streamed (payload e) else '''')"
| "said _ = ''''"

fun erases :: "display_op \<Rightarrow> bool" where
  "erases (Handle_event now e) = (event_name e = ROOT_AGENT \<and> erases_text (payload e))"
| "erases Clear_view = True"
| "erases (Load_history ms) = True"
| "erases _ = False"

definition keeps_text :: "(agent_view \<Rightarrow> agent_view) \<Rightarrow> bool" where
  "keeps_text f = (\<forall>a. assistant_text (conversation (f a)) = assistant_text (conversation a))"

lemma text_fields [simp]:
  "assistant_text (c\<lparr>thinking_active := b\<rparr>) = assistant_text c"
  "assistant_text (c\<lparr>agent_idle := b\<rparr>) = assistant_text c"
  "assistant_text (c\<lparr>pending_perm := p\<rparr>) = assistant_text c"
  "assistant_text (c\<lparr>pending_ask := q\<rparr>) = assistant_text c"
  "assistant_text (c\<lparr>retry_banner := r\<rparr>) = assistant_text c"
  "assistant_text (c\<lparr>turns := n\<rparr>) = assistant_text c"
  "assistant_text (c\<lparr>streaming_thinking := t\<rparr>) = assistant_text c"
  "assistant_text (c\<lparr>streaming_text := streaming_text c @ t\<rparr>) = assistant_text c @ t"
  by (simp_all add: assistant_text_def)

lemma conversation_simps [simp]:
  "conversation (on_conversation f a) = f (conversation a)"
  "conversation (on_observable g a) = conversation a"
  "conversation (set_status st a) = conversation a"
  by (simp_all add: on_conversation_def on_observable_def set_status_def)

lemma text_event:
  "\<not> erases_text p \<Longrightarrow>
     assistant_text (conversation (on_event render now p a)) = assistant_text (conversation a) @ streamed p"
  by (cases p) (simp_all add: text_kept handle_error_def plain_message_def Let_def del: append_assoc)

lemma root_text_modify:
  "n \<noteq> ROOT_AGENT \<or> keeps_text f \<Longrightarrow> root_text (modify_agent n f s) = root_text s"
  by (auto simp: root_text_def keeps_text_def split: option.split)

lemma root_text_cong:
  "view_of t ROOT_AGENT = view_of s ROOT_AGENT \<Longrightarrow> root_text t = root_text s"
  by (simp add: root_text_def)

lemma root_text_truncate: "root_text (truncate_if_done n s) = root_text s"
  by (simp add: truncate_if_done_def root_text_modify)

lemma root_text_fields [simp]:
  "root_text (s\<lparr>active_view := v\<rparr>) = root_text s" "root_text (s\<lparr>inbox := q\<rparr>) = root_text s"
  "root_text (s\<lparr>message_feed := fd\<rparr>) = root_text s" "root_text (s\<lparr>pending_refs := p\<rparr>) = root_text s"
  "root_text (s\<lparr>shown_mode := m\<rparr>) = root_text s" "root_text (s\<lparr>shown_model := m\<rparr>) = root_text s"
  "root_text (s\<lparr>shown_thinking := m\<rparr>) = root_text s" "root_text (s\<lparr>root_session := r\<rparr>) = root_text s"
  by (rule root_text_cong, simp)+

lemma root_text_return: "root_text (auto_return_on_error n s) = root_text s"
  by (simp add: auto_return_on_error_def root_text_truncate)

lemma root_text_entry:
  "view_of s ROOT_AGENT \<noteq> None \<Longrightarrow> root_text (entry_agent n s) = root_text s"
  by (rule root_text_cong) auto

lemma root_text_forward: "root_text (snd (try_forward_inbox now s)) = root_text s"
  by (auto simp: try_forward_inbox_def keeps_text_def text_kept user_display_def Let_def
      intro!: root_text_modify[THEN trans] split: option.split list.split)

lemma root_text_idle: "root_text (snd (handle_idle now n st s)) = root_text s"
proof -
  have "keeps_text (idle_view now x)" for x
    by (simp add: keeps_text_def idle_view_def Let_def text_kept)
  then show ?thesis
    by (simp add: handle_idle_def Let_def root_text_forward root_text_truncate root_text_modify)
qed

lemma root_text_note:
  "view_of s ROOT_AGENT \<noteq> None \<Longrightarrow> root_text (note_event now n p s) = root_text s"
proof (cases p)
  case (SubAgentSpawned child i par mdl sid)
  assume root: "view_of s ROOT_AGENT \<noteq> None"
  have 1: "keeps_text (\<lambda>a. let a = a\<lparr>parent_name := q, stored_session := z\<rparr>
       in case mdl of Some x \<Rightarrow> on_observable (\<lambda>b. b\<lparr>obs_model := x\<rparr>) a | None \<Rightarrow> a)" for q z
    by (simp add: keeps_text_def Let_def split: option.split)
  have 2: "keeps_text (\<lambda>a. if child \<in> set (child_names a) then a
       else a\<lparr>child_names := child_names a @ [child]\<rparr>)"
    by (simp add: keeps_text_def)
  show ?thesis using root SubAgentSpawned
    by (simp add: register_spawned_agent_def Let_def[of "modify_agent _ _ _"] Let_def[of "case_option _ _ _"]
        root_text_modify[OF disjI2, OF 1] root_text_modify[OF disjI2, OF 2] root_text_entry split: option.split)
qed (simp_all add: record_message_routed_def Let_def keeps_text_def root_text_modify)

lemma root_text_event:
  assumes "view_of s ROOT_AGENT \<noteq> None" "\<not> (event_name e = ROOT_AGENT \<and> erases_text (payload e))"
  shows "root_text (snd (apply_event render now e s))
    = root_text s @ (if event_name e = ROOT_AGENT then streamed (payload e) else '''')"
proof -
  let ?n = "event_name e"
  let ?t = "note_event now ?n (payload e) s"
  let ?s = "modify_agent ?n (seen now) (entry_agent ?n ?t)"
  have root: "view_of ?t ROOT_AGENT \<noteq> None" using assms(1)
    by (cases "payload e") (auto simp: record_message_routed_def register_spawned_agent_def Let_def split: option.split)
  have "keeps_text (seen now)" by (simp add: keeps_text_def seen_def)
  then have s: "root_text ?s = root_text s"
    using root assms(1) by (simp add: root_text_modify root_text_entry root_text_note)
  show ?thesis
  proof (cases "idle_status (payload e)")
    case None
    have "root_text (modify_agent ?n (on_event render now (payload e)) ?s)
        = root_text ?s @ (if ?n = ROOT_AGENT then streamed (payload e) else '''')"
      using assms(2) root by (auto simp: root_text_def text_event split: option.split)
    moreover have "snd (apply_event render now e s) =
        auto_return_on_error ?n (modify_agent ?n (on_event render now (payload e)) ?s)"
      by (simp only: apply_event_def apply_agent_event_def Let_def None option.case snd_conv)
    ultimately show ?thesis by (simp only: root_text_return s)
  next
    case (Some st)
    then have "streamed (payload e) = ''''" by (cases "payload e") auto
    with Some s show ?thesis by (simp add: apply_event_def apply_agent_event_def root_text_idle Let_def)
  qed
qed

lemma root_text_active:
  "on_active f s = Some t \<Longrightarrow> (\<And>c. assistant_text (f c) = assistant_text c) \<Longrightarrow> root_text t = root_text s"
  by (auto simp: on_active_def keeps_text_def root_text_modify split: if_splits)

lemma root_text_root:
  "on_root f s = Some t \<Longrightarrow> (\<And>c. assistant_text (f c) = assistant_text c) \<Longrightarrow> root_text t = root_text s"
  by (auto simp: on_root_def keeps_text_def root_text_modify split: if_splits)

lemma root_text_op:
  assumes "display_effect render parse e s = Some (x, t)" "\<not> erases e" "view_of s ROOT_AGENT \<noteq> None"
  shows "root_text t = root_text s @ said e"
proof (cases e)
  case (Handle_event now ev)
  with assms root_text_event[of s ev render now] show ?thesis
    by (cases "apply_event render now ev s") (auto simp: display_effect_def)
next
  case (Enqueue now u)
  with assms root_text_forward[of now "s\<lparr>inbox := inbox s @ [u]\<rparr>"] show ?thesis
    by (cases "enqueue_message now u s") (auto simp: display_effect_def enqueue_message_def)
qed (use assms in \<open>auto simp: display_effect_def enter_agent_view_def exit_agent_view_def
      answer_permission_def answer_question_def switch_mode_def switch_model_def switch_thinking_def
      push_welcome_def drain_pending_refs_def pop_inbox_to_edit_def text_kept plain_message_def Let_def
      dest!: root_text_active root_text_root split: option.splits if_splits\<close>)

text \<open>
  C22. Every piece of text the root agent streams is shown, in order and once, whatever happens in
  between (tool calls, errors, notices, messages of the user, switching views): until a rewind,
  a clearing or a completion, the texts of the assistant's messages followed by the buffer are
  what they were, followed by the streamed pieces.
\<close>

theorem streamed_text_is_shown:
  assumes "list_all (\<lambda>e. \<not> erases e) es" and "session_ok s"
  shows "root_text (run_ops (display_step render parse) es s) = root_text s @ concat (map said es)"
  using assms
proof (induction es arbitrary: s)
  case (Cons e es)
  obtain x t where op: "display_effect render parse e s = Some (x, t)" "session_ok t"
    using ok_op[OF Cons.prems(2)] by blast
  then have "display_step render parse e s = t" by (simp add: display_step_def)
  moreover have "root_text t = root_text s @ said e"
    using root_text_op[OF op(1)] Cons.prems by (simp add: session_ok_def)
  ultimately show ?case using Cons.IH[OF _ op(2)] Cons.prems(1) by simp
qed simp

definition said_twice :: "display_op list" where
  "said_twice =
     [Handle_event 1 (event_root (Stream ''He'')), Handle_event 2 (event_root (ThinkingStream ''hm'')),
      Handle_event 3 (event_root (ToolCall ''a'' ''Read'' (JObj []))),
      Handle_event 4 (event_root (Stream ''llo''))]"

theorem streamed_text_is_shown_witness:
  "root_text (run_ops (display_step (\<lambda>_. ''{}'') (\<lambda>_. None)) said_twice (session_new 0 ''m'' ''act''))
   = ''Hello''"
proof -
  have "list_all (\<lambda>e. \<not> erases e) said_twice" "concat (map said said_twice) = ''Hello''"
    "root_text (session_new 0 ''m'' ''act'') = ''''" by code_simp+
  then show ?thesis
    using streamed_text_is_shown[of said_twice "session_new 0 ''m'' ''act''" "\<lambda>_. ''{}''" "\<lambda>_. None"]
    by (simp add: ok_new)
qed

end
