(* ===== verification/Projection.thy ===== *)
theory Projection
  imports Message Protocol
begin

section \<open>Projecting a stored conversation for display\<close>

text \<open>
  \<open>loopal-protocol/src/projection.rs\<close>: messages become display messages, the results of tools are
  written back into the calls they answer (found by an index from identifiers to positions), and
  the result of a completion becomes a message of the assistant. Cutting the printed input of a
  call at byte 57 panics inside a character: the projection is \<open>None\<close> then. The lemmas say exactly
  when that happens, and which call a result reaches.
\<close>

definition summarize_input :: "(json \<Rightarrow> string) \<Rightarrow> json \<Rightarrow> string option" where
  "summarize_input render v =
     (let t = render v
      in if length t \<le> 60 then Some t else map_option (\<lambda>u. u @ ''...'') (str_upto t 57))"

definition projected_result :: "string \<Rightarrow> string" where
  "projected_result t =
     (let limited = str_join [NL] (take 200 (rust_lines t))
      in if length limited \<le> 10000 then limited else cut_bytes 10000 limited)"

fun role_str :: "message_role \<Rightarrow> string" where
  "role_str User = ''user''"
| "role_str Assistant = ''assistant''"
| "role_str System = ''system''"

definition projected_server_content :: "(json \<Rightarrow> string) \<Rightarrow> json \<Rightarrow> string" where
  "projected_server_content render v = (case get_str v ''text'' of Some t \<Rightarrow> t | None \<Rightarrow> render v)"

text \<open>The messages so far and the index, and what the message at hand has collected.\<close>

record projecting =
  projected :: "projected_message list"
  tool_index :: "string \<Rightarrow> (nat \<times> nat) option"
  parts :: "string list"
  calls :: "projected_call list"
  images :: nat

definition new_call :: "string \<Rightarrow> string \<Rightarrow> string \<Rightarrow> json \<Rightarrow> projected_call" where
  "new_call i n summary inp =
     \<lparr>proj_id = i, proj_name = n, proj_summary = n @ ''('' @ summary @ '')'', proj_result = None,
      proj_error = False, proj_input = Some inp, proj_metadata = None\<rparr>"

definition patch_call :: "string \<Rightarrow> bool \<Rightarrow> bool \<Rightarrow> projected_call \<Rightarrow> projected_call" where
  "patch_call t err completion tc =
     tc\<lparr>proj_error := err,
        proj_result := (if completion then proj_result tc else Some (projected_result t))\<rparr>"

definition completion_message :: "string \<Rightarrow> projected_message" where
  "completion_message t = \<lparr>proj_role = ''assistant'', proj_content = t, proj_calls = [], proj_images = 0\<rparr>"

definition back_patch ::
  "projected_message list \<Rightarrow> (string \<Rightarrow> (nat \<times> nat) option) \<Rightarrow> string \<Rightarrow> string \<Rightarrow> bool \<Rightarrow> bool \<Rightarrow>
     projected_message list" where
  "back_patch out index i t err completion =
     (case index i of
        None \<Rightarrow> out
      | Some (d, k) \<Rightarrow>
          (if d < length out \<and> k < length (proj_calls (out ! d))
           then out[d := (out ! d)\<lparr>proj_calls :=
                  (proj_calls (out ! d))[k := patch_call t err completion (proj_calls (out ! d) ! k)]\<rparr>]
           else out)
          @ (if completion then [completion_message t] else []))"

fun project_block :: "(json \<Rightarrow> string) \<Rightarrow> content_block \<Rightarrow> projecting \<Rightarrow> projecting option" where
  "project_block render (Text t) s = Some (s\<lparr>parts := parts s @ [t]\<rparr>)"
| "project_block render (ToolUse i n inp) s =
     map_option (\<lambda>summary.
       s\<lparr>tool_index := (tool_index s)(i \<mapsto> (length (projected s), length (calls s))),
         calls := calls s @ [new_call i n summary inp]\<rparr>) (summarize_input render inp)"
| "project_block render (ToolResult i t err completion md) s =
     Some (s\<lparr>projected := back_patch (projected s) (tool_index s) i t err completion\<rparr>)"
| "project_block render (Image_block src) s =
     Some (s\<lparr>parts := parts s @ [''[image]''], images := images s + 1\<rparr>)"
| "project_block render (Thinking t sg) s = Some s"
| "project_block render (ServerToolUse i n inp) s =
     map_option (\<lambda>summary. s\<lparr>calls := calls s @ [new_call i n summary inp]\<rparr>)
       (summarize_input render inp)"
| "project_block render (ServerToolResult bt i v) s =
     Some (s\<lparr>calls := change_last (\<lambda>tc. proj_id tc = i)
                        (\<lambda>tc. tc\<lparr>proj_result := Some (projected_server_content render v)\<rparr>) (calls s)\<rparr>)"

fun project_blocks :: "(json \<Rightarrow> string) \<Rightarrow> content_block list \<Rightarrow> projecting \<Rightarrow> projecting option" where
  "project_blocks render [] s = Some s"
| "project_blocks render (b # bs) s =
     Option.bind (project_block render b s) (project_blocks render bs)"

definition project_message :: "(json \<Rightarrow> string) \<Rightarrow> message \<Rightarrow> projecting \<Rightarrow> projecting option" where
  "project_message render m s =
     map_option (\<lambda>s.
       let t = str_join [] (parts s)
       in if t = '''' \<and> calls s = [] then s
          else s\<lparr>projected := projected s @
                   [\<lparr>proj_role = role_str (role m), proj_content = t, proj_calls = calls s,
                     proj_images = images s\<rparr>]\<rparr>)
       (project_blocks render (content m) (s\<lparr>parts := [], calls := [], images := 0\<rparr>))"

fun project_from :: "(json \<Rightarrow> string) \<Rightarrow> message list \<Rightarrow> projecting \<Rightarrow> projecting option" where
  "project_from render [] s = Some s"
| "project_from render (m # ms) s = Option.bind (project_message render m s) (project_from render ms)"

definition project_messages :: "(json \<Rightarrow> string) \<Rightarrow> message list \<Rightarrow> projected_message list option" where
  "project_messages render ms =
     map_option projected
       (project_from render ms
          \<lparr>projected = [], tool_index = (\<lambda>_. None), parts = [], calls = [], images = 0\<rparr>)"

subsection \<open>When the projection panics\<close>

fun printed_input :: "content_block \<Rightarrow> json option" where
  "printed_input (ToolUse i n inp) = Some inp"
| "printed_input (ServerToolUse i n inp) = Some inp"
| "printed_input _ = None"

definition splits_character :: "(json \<Rightarrow> string) \<Rightarrow> content_block \<Rightarrow> bool" where
  "splits_character render b =
     (case printed_input b of
        Some v \<Rightarrow> 60 < length (render v) \<and> \<not> is_char_boundary (render v) 57
      | None \<Rightarrow> False)"

lemma summarize_None:
  "summarize_input render v = None \<longleftrightarrow> 60 < length (render v) \<and> \<not> is_char_boundary (render v) 57"
  by (auto simp: summarize_input_def str_upto_def Let_def)

lemma block_None: "project_block render b s = None \<longleftrightarrow> splits_character render b"
  by (cases b) (auto simp: splits_character_def summarize_None)

lemma blocks_None: "project_blocks render bs s = None \<longleftrightarrow> list_ex (splits_character render) bs"
proof (induction bs arbitrary: s)
  case (Cons b bs)
  with block_None[of render b s] show ?case by (cases "project_block render b s") auto
qed simp

lemma message_None: "project_message render m s = None \<longleftrightarrow> list_ex (splits_character render) (content m)"
  by (simp add: project_message_def blocks_None)

lemma from_None:
  "project_from render ms s = None \<longleftrightarrow> list_ex (\<lambda>m. list_ex (splits_character render) (content m)) ms"
proof (induction ms arbitrary: s)
  case (Cons m ms)
  with message_None[of render m s] show ?case by (cases "project_message render m s") auto
qed simp

text \<open>
  Restoring a conversation for display panics exactly when the printed input of some call is
  longer than sixty bytes and has no character boundary at byte 57; in every other case it returns.
\<close>

theorem projection_panics_exactly:
  "project_messages render ms = None \<longleftrightarrow>
     list_ex (\<lambda>m. list_ex (splits_character render) (content m)) ms"
  by (simp add: project_messages_def from_None)

subsection \<open>Which call a result reaches\<close>

lemma back_patch_unknown: "index i = None \<Longrightarrow> back_patch out index i t err completion = out"
  by (simp add: back_patch_def)

text \<open>A result changes the one call the index names, and nothing else of the messages so far.\<close>

lemma back_patch_known:
  assumes "index i = Some (d, k)" "d < length out" "k < length (proj_calls (out ! d))"
  shows "back_patch out index i t err False
    = out[d := (out ! d)\<lparr>proj_calls := (proj_calls (out ! d))[k :=
        (proj_calls (out ! d) ! k)\<lparr>proj_error := err, proj_result := Some (projected_result t)\<rparr>]\<rparr>]"
  using assms by (simp add: back_patch_def patch_call_def)

lemma projected_result_bounded: "length (projected_result t) \<le> 10000"
  using cut_bytes_props(2)[of 10000] by (simp add: projected_result_def Let_def)

lemma two_calls_projected:
  "map_option (map (\<lambda>m. (proj_role m, proj_content m, map proj_result (proj_calls m))))
     (project_messages (\<lambda>_. ''{}'')
        [\<lparr>id_opt = None, role = Assistant,
          content = [Text ''on it'', ToolUse ''a'' ''Read'' JNull, ToolUse ''b'' ''Bash'' JNull]\<rparr>,
         \<lparr>id_opt = None, role = User,
          content = [ToolResult ''b'' ''two'' False False None, ToolResult ''a'' ''one'' True False None]\<rparr>])
   = Some [(''assistant'', ''on it'', [Some ''one'', Some ''two''])]"
  by code_simp

end
