(* ===== verification/Json_Rpc.thy ===== *)
theory Json_Rpc
  imports Json
begin

section \<open>JSON-RPC between the processes\<close>

text \<open>
  \<open>crates/loopal-ipc\<close>: the messages and their encoding (\<open>jsonrpc.rs\<close>), the framing by lines of the
  stdio and TCP transports (\<open>stdio.rs\<close>, \<open>tcp.rs\<close>), and the connection with its table of pending
  requests (\<open>connection.rs\<close>). \<open>parse\<close> and \<open>render\<close> read and print JSON; a caller of a connection is
  a number, and what it is told is recorded. The lemmas show that what is sent arrives as it was
  sent, and that every request is answered at most once, by the response with its identifier.
\<close>

subsection \<open>Messages\<close>

record json_rpc_error =
  err_code :: int
  err_message :: string
  err_data :: "json option"

datatype incoming_message =
    Request int string json
  | Notification string json
  | Response int "json option" "json_rpc_error option"

definition PARSE_ERROR :: int where "PARSE_ERROR = -32700"
definition INVALID_REQUEST :: int where "INVALID_REQUEST = -32600"
definition METHOD_NOT_FOUND :: int where "METHOD_NOT_FOUND = -32601"
definition INTERNAL_ERROR :: int where "INTERNAL_ERROR = -32603"

record raw_message =
  raw_id :: "json option"
  raw_method :: "string option"
  raw_result :: "json option"
  raw_error :: "json_rpc_error option"
  raw_params :: json

text \<open>
  How \<open>serde\<close> reads a field: an \<open>Option\<close> is empty when the field is missing or null, other fields
  must be there; a repeated field is an error. \<open>None\<close> is a failure to read. A structure may also
  be written as the list of its fields.
\<close>

definition opt_field :: "(json \<Rightarrow> 'a option) \<Rightarrow> json option \<Rightarrow> 'a option option" where
  "opt_field rd v =
     (case v of None \<Rightarrow> Some None | Some JNull \<Rightarrow> Some None | Some w \<Rightarrow> map_option Some (rd w))"

definition once :: "string list \<Rightarrow> (string \<times> json) list \<Rightarrow> bool" where
  "once ks m = list_all (\<lambda>k. length (filter (\<lambda>p. fst p = k) m) \<le> 1) ks"

definition error_of :: "json option \<Rightarrow> json option \<Rightarrow> json option \<Rightarrow> json_rpc_error option" where
  "error_of c t d =
     (case (Option.bind c as_i64, Option.bind t as_str, opt_field Some d) of
        (Some c, Some t, Some d) \<Rightarrow> Some \<lparr>err_code = c, err_message = t, err_data = d\<rparr>
      | _ \<Rightarrow> None)"

fun read_error :: "json \<Rightarrow> json_rpc_error option" where
  "read_error (JObj m) =
     (if once [''code'', ''message'', ''data''] m
      then error_of (map_of m ''code'') (map_of m ''message'') (map_of m ''data'') else None)"
| "read_error (JArr [c, t, d]) = error_of (Some c) (Some t) (Some d)"
| "read_error _ = None"

definition raw_of ::
  "json option \<Rightarrow> json option \<Rightarrow> json option \<Rightarrow> json option \<Rightarrow> json option \<Rightarrow> raw_message option" where
  "raw_of i m r e p =
     (case (opt_field Some i, opt_field as_str m, opt_field Some r, opt_field read_error e) of
        (Some i, Some m, Some r, Some e) \<Rightarrow>
          Some \<lparr>raw_id = i, raw_method = m, raw_result = r, raw_error = e,
                raw_params = (case p of Some v \<Rightarrow> v | None \<Rightarrow> JNull)\<rparr>
      | _ \<Rightarrow> None)"

fun read_raw :: "json \<Rightarrow> raw_message option" where
  "read_raw (JObj m) =
     (if once [''id'', ''method'', ''result'', ''error'', ''params''] m
      then raw_of (map_of m ''id'') (map_of m ''method'') (map_of m ''result'') (map_of m ''error'')
             (map_of m ''params'')
      else None)"
| "read_raw (JArr [i, m, r, e]) = raw_of (Some i) (Some m) (Some r) (Some e) None"
| "read_raw (JArr [i, m, r, e, p]) = raw_of (Some i) (Some m) (Some r) (Some e) (Some p)"
| "read_raw _ = None"

fun number_id :: "json \<Rightarrow> int option" where
  "number_id (JInt n) = Some (case as_i64 (JInt n) of Some k \<Rightarrow> k | None \<Rightarrow> 0)"
| "number_id (JFloat t) = Some 0"
| "number_id _ = None"

definition classify_raw :: "raw_message \<Rightarrow> incoming_message option" where
  "classify_raw w =
     (case raw_method w of
        Some m \<Rightarrow>
          (case raw_id w of
             None \<Rightarrow> Some (Notification m (raw_params w))
           | Some v \<Rightarrow> map_option (\<lambda>i. Request i m (raw_params w)) (number_id v))
      | None \<Rightarrow>
          (case raw_id w of
             None \<Rightarrow> None
           | Some v \<Rightarrow> map_option (\<lambda>i. Response i (raw_result w) (raw_error w)) (number_id v)))"

definition parse_message :: "(string \<Rightarrow> json option) \<Rightarrow> string \<Rightarrow> incoming_message option" where
  "parse_message parse t = Option.bind (Option.bind (parse t) read_raw) classify_raw"

subsection \<open>Encoding\<close>

definition request_json :: "int \<Rightarrow> string \<Rightarrow> json \<Rightarrow> json" where
  "request_json i m p =
     JObj [(''jsonrpc'', JStr ''2.0''), (''id'', JInt i), (''method'', JStr m), (''params'', p)]"

definition notification_json :: "string \<Rightarrow> json \<Rightarrow> json" where
  "notification_json m p = JObj [(''jsonrpc'', JStr ''2.0''), (''method'', JStr m), (''params'', p)]"

definition response_json :: "int \<Rightarrow> json \<Rightarrow> json" where
  "response_json i r = JObj [(''jsonrpc'', JStr ''2.0''), (''id'', JInt i), (''result'', r)]"

definition error_json :: "int \<Rightarrow> int \<Rightarrow> string \<Rightarrow> json" where
  "error_json i c t =
     JObj [(''jsonrpc'', JStr ''2.0''), (''id'', JInt i),
           (''error'', JObj [(''code'', JInt c), (''message'', JStr t)])]"

text \<open>What one side sends, and what the other is to receive.\<close>

datatype sent_message =
    Send_request int string json
  | Send_notification string json
  | Respond int json
  | Respond_error int int string

fun encode :: "sent_message \<Rightarrow> json" where
  "encode (Send_request i m p) = request_json i m p"
| "encode (Send_notification m p) = notification_json m p"
| "encode (Respond i r) = response_json i r"
| "encode (Respond_error i c t) = error_json i c t"

fun arrives_as :: "sent_message \<Rightarrow> incoming_message" where
  "arrives_as (Send_request i m p) = Request i m p"
| "arrives_as (Send_notification m p) = Notification m p"
| "arrives_as (Respond i r) = Response i (if r = JNull then None else Some r) None"
| "arrives_as (Respond_error i c t) =
     Response i None (Some \<lparr>err_code = c, err_message = t, err_data = None\<rparr>)"

definition fits_i64 :: "int \<Rightarrow> bool" where
  "fits_i64 n = (- (2 ^ 63) \<le> n \<and> n < 2 ^ 63)"

fun sendable :: "sent_message \<Rightarrow> bool" where
  "sendable (Send_request i m p) = fits_i64 i"
| "sendable (Send_notification m p) = True"
| "sendable (Respond i r) = fits_i64 i"
| "sendable (Respond_error i c t) = (fits_i64 i \<and> fits_i64 c)"

lemma classify_encode:
  "sendable m \<Longrightarrow> Option.bind (read_raw (encode m)) classify_raw = Some (arrives_as m)"
  by (cases m)
    (auto simp: request_json_def notification_json_def response_json_def error_json_def once_def
      raw_of_def opt_field_def classify_raw_def error_of_def fits_i64_def split: json.split)

subsection \<open>Frames\<close>

text \<open>
  \<open>send\<close> writes the message and a newline; \<open>recv\<close> reads a line, trims it and skips blank ones. The
  whole stream, read to its end:
\<close>

definition write_frame :: "string \<Rightarrow> string" where
  "write_frame d = d @ [NL]"

definition read_line :: "string \<Rightarrow> (string \<times> string) option" where
  "read_line s =
     (if s = '''' then None
      else case dropWhile (\<lambda>c. c \<noteq> NL) s of
             [] \<Rightarrow> Some (s, '''')
           | _ # rest \<Rightarrow> Some (takeWhile (\<lambda>c. c \<noteq> NL) s @ [NL], rest))"

lemma read_line_shrinks: "read_line s = Some (l, r) \<Longrightarrow> length r < length s"
proof -
  assume rd: "read_line s = Some (l, r)"
  have "length (dropWhile (\<lambda>c. c \<noteq> NL) s) \<le> length s" by (rule length_dropWhile_le)
  with rd show ?thesis by (auto simp: read_line_def split: if_splits list.splits)
qed

function transport_recv :: "string \<Rightarrow> (string \<times> string) option" where
  "transport_recv s =
     (case read_line s of
        None \<Rightarrow> None
      | Some (l, r) \<Rightarrow> if trim l \<noteq> '''' then Some (trim l, r) else transport_recv r)"
  by pat_completeness auto
termination by (relation "measure length") (auto dest: read_line_shrinks)

declare transport_recv.simps [simp del]

lemma transport_recv_shrinks: "transport_recv s = Some (d, r) \<Longrightarrow> length r < length s"
proof (induction s arbitrary: d r rule: transport_recv.induct)
  case (1 s)
  obtain l t where l: "read_line s = Some (l, t)"
    using "1.prems" by (cases "read_line s") (auto simp: transport_recv.simps[of s])
  show ?case
  proof (cases "trim l = ''''")
    case True
    then have "transport_recv t = Some (d, r)" using "1.prems" l by (simp add: transport_recv.simps[of s])
    from "1.IH"[OF l refl _ this] True read_line_shrinks[OF l] show ?thesis by simp
  next
    case False
    then show ?thesis using "1.prems" l read_line_shrinks[OF l] by (simp add: transport_recv.simps[of s])
  qed
qed

function received :: "string \<Rightarrow> string list" where
  "received s = (case transport_recv s of None \<Rightarrow> [] | Some (d, r) \<Rightarrow> d # received r)"
  by pat_completeness auto
termination by (relation "measure length") (auto dest: transport_recv_shrinks)

declare received.simps [simp del]

text \<open>A compact JSON object: braces around, no newline.\<close>

definition object_text :: "string \<Rightarrow> bool" where
  "object_text d = (\<exists>t. d = CHR ''{'' # t @ ''}'' \<and> NL \<notin> set t)"

lemma trim_frame:
  assumes "object_text d" shows "trim (write_frame d) = d"
proof -
  obtain t where d: "d = CHR ''{'' # t @ ''}''" using assms by (auto simp: object_text_def)
  have "ws_prefix ws_seqs (CHR ''{'' # u) = 0" for u by (simp add: ws_prefix_def ws_seqs_def)
  then have start: "trim_start (CHR ''{'' # u) = CHR ''{'' # u" for u by (simp add: trim_start_def)
  have nl: "ws_prefix (map rev ws_seqs) (NL # CHR ''}'' # u) = 1" for u
    by (simp add: ws_prefix_def ws_seqs_def)
  have "ws_prefix (map rev ws_seqs) (CHR ''}'' # u) = 0" for u by (simp add: ws_prefix_def ws_seqs_def)
  with nl have "strip_ws (Suc (Suc n)) (map rev ws_seqs) (NL # CHR ''}'' # u) = CHR ''}'' # u" for n u
    by simp
  then show ?thesis using d by (simp add: trim_def write_frame_def start trim_end_def)
qed

lemma received_write_frame:
  assumes "object_text d" shows "received (write_frame d @ s) = d # received s"
proof -
  have no: "NL \<notin> set d" and d: "d \<noteq> ''''" using assms by (auto simp: object_text_def)
  then have "read_line (write_frame d @ s) = Some (write_frame d, s)"
    by (simp add: read_line_def write_frame_def span_NL)
  then have "transport_recv (write_frame d @ s) = Some (d, s)"
    using trim_frame[OF assms] d by (simp add: transport_recv.simps[of "write_frame d @ s"])
  then show ?thesis by (simp add: received.simps[of "write_frame d @ s"])
qed

lemma received_Nil [simp]: "received '''' = []"
  by (simp add: received.simps transport_recv.simps read_line_def)

lemma received_frames:
  "list_all object_text ds \<Longrightarrow> received (concat (map write_frame ds)) = ds"
  by (induction ds) (simp_all add: received_write_frame)

text \<open>
  C24. What is sent arrives: any sequence of requests, notifications, responses and errors, printed
  as compact JSON and written write_frame by write_frame, is received as the same sequence, with the same
  identifiers, methods, parameters and results, provided the parser reads back what was printed.
\<close>

theorem sent_messages_arrive:
  assumes "list_all sendable ms"
    and "\<And>m. m \<in> set ms \<Longrightarrow> object_text (render (encode m)) \<and> parse (render (encode m)) = Some (encode m)"
  shows "map (parse_message parse) (received (concat (map (write_frame \<circ> render \<circ> encode) ms)))
    = map (Some \<circ> arrives_as) ms"
proof -
  have "received (concat (map write_frame (map (render \<circ> encode) ms))) = map (render \<circ> encode) ms"
    using assms(2) by (intro received_frames) (auto simp: list_all_iff)
  then have "received (concat (map (write_frame \<circ> render \<circ> encode) ms)) = map (render \<circ> encode) ms"
    by (simp add: comp_def)
  moreover have "parse_message parse (render (encode m)) = Some (arrives_as m)" if "m \<in> set ms" for m
    using assms that classify_encode[of m] by (auto simp: parse_message_def list_all_iff)
  ultimately show ?thesis by simp
qed

definition ping :: sent_message where "ping = Send_request 7 ''ping'' JNull"

theorem sent_messages_arrive_witness:
  "map (parse_message (\<lambda>t. if t = ''{p}'' then Some (encode ping) else None))
     (received (concat (map (write_frame \<circ> (\<lambda>_. ''{p}'') \<circ> encode) [ping, ping])))
   = [Some (Request 7 ''ping'' JNull), Some (Request 7 ''ping'' JNull)]"
proof -
  have "object_text ''{p}''" unfolding object_text_def by (rule exI[of _ "''p''"]) simp
  then show ?thesis
    using sent_messages_arrive[of "[ping, ping]" "\<lambda>_. ''{p}''"
        "\<lambda>t. if t = ''{p}'' then Some (encode ping) else None"]
    by (simp add: ping_def fits_i64_def)
qed

subsection \<open>The connection\<close>

text \<open>
  A caller of \<open>send_request\<close> is a number; \<open>told\<close> lists what callers were told. The channel behind
  an identifier is dropped when the table forgets it without an answer, and the caller is told so.
  The counter of identifiers is an \<open>i64\<close> that wraps.
\<close>

datatype incoming = In_request int string json | In_notification string json

record connection =
  pending :: "(int \<times> nat) list"
  next_id :: u64
  reading :: bool
  wire :: "json list"
  arrivals :: "incoming list"
  told :: "(nat \<times> (string + json)) list"

definition connection_new :: connection where
  "connection_new =
     \<lparr>pending = [], next_id = 1, reading = False, wire = [], arrivals = [], told = []\<rparr>"

definition DROPPED :: string where "DROPPED = ''response channel dropped''"

definition tell :: "nat \<Rightarrow> string + json \<Rightarrow> connection \<Rightarrow> connection" where
  "tell w v c = c\<lparr>told := told c @ [(w, v)]\<rparr>"

definition start :: "connection \<Rightarrow> connection" where
  "start c = c\<lparr>reading := True\<rparr>"

text \<open>Inserting over an entry drops the channel that was there.\<close>

definition insert_pending :: "int \<Rightarrow> nat \<Rightarrow> connection \<Rightarrow> connection" where
  "insert_pending i w c =
     (case map_of (pending c) i of
        Some v \<Rightarrow> tell v (Inl DROPPED) (c\<lparr>pending := AList.update i w (pending c)\<rparr>)
      | None \<Rightarrow> c\<lparr>pending := AList.update i w (pending c)\<rparr>)"

text \<open>\<open>failure\<close> is what sending came to: an error's text, or nothing.\<close>

definition send_request ::
  "nat \<Rightarrow> string \<Rightarrow> json \<Rightarrow> string option \<Rightarrow> connection \<Rightarrow> connection" where
  "send_request w m p failure c =
     (let i = sint (next_id c);
          c = insert_pending i w (c\<lparr>next_id := next_id c + 1\<rparr>)
      in case failure of
           Some e \<Rightarrow> tell w (Inl (''transport send failed: '' @ e)) (c\<lparr>pending := AList.delete i (pending c)\<rparr>)
         | None \<Rightarrow> c\<lparr>wire := wire c @ [request_json i m p]\<rparr>)"

definition send_only :: "json \<Rightarrow> string option \<Rightarrow> connection \<Rightarrow> connection" where
  "send_only d failure c = (if failure = None then c\<lparr>wire := wire c @ [d]\<rparr> else c)"

definition send_notification :: "string \<Rightarrow> json \<Rightarrow> string option \<Rightarrow> connection \<Rightarrow> connection" where
  "send_notification m p = send_only (notification_json m p)"

definition respond :: "int \<Rightarrow> json \<Rightarrow> string option \<Rightarrow> connection \<Rightarrow> connection" where
  "respond i r = send_only (response_json i r)"

definition respond_error :: "int \<Rightarrow> int \<Rightarrow> string \<Rightarrow> string option \<Rightarrow> connection \<Rightarrow> connection" where
  "respond_error i k t = send_only (error_json i k t)"

text \<open>The value of a response: the error as an object, or the result.\<close>

definition error_object :: "json_rpc_error \<Rightarrow> json" where
  "error_object e =
     JObj ([(''code'', JInt (err_code e)), (''message'', JStr (err_message e))]
           @ (case err_data e of Some d \<Rightarrow> [(''data'', d)] | None \<Rightarrow> []))"

definition response_value :: "json option \<Rightarrow> json_rpc_error option \<Rightarrow> json" where
  "response_value r e =
     (case e of Some x \<Rightarrow> error_object x | None \<Rightarrow> (case r of Some v \<Rightarrow> v | None \<Rightarrow> JNull))"

text \<open>A write_frame reaches the reader loop; \<open>None\<close> is a malformed one.\<close>

fun receive :: "incoming_message option \<Rightarrow> connection \<Rightarrow> connection" where
  "receive (Some (Response i r e)) c =
     (case map_of (pending c) i of
        Some w \<Rightarrow> tell w (Inr (response_value r e)) (c\<lparr>pending := AList.delete i (pending c)\<rparr>)
      | None \<Rightarrow> c)"
| "receive (Some (Request i m p)) c = c\<lparr>arrivals := arrivals c @ [In_request i m p]\<rparr>"
| "receive (Some (Notification m p)) c = c\<lparr>arrivals := arrivals c @ [In_notification m p]\<rparr>"
| "receive None c = c"

text \<open>End of the stream, or an error of the transport: the loop ends and forgets all requests.\<close>

definition end_reading :: "connection \<Rightarrow> connection" where
  "end_reading c =
     c\<lparr>reading := False, pending := [], told := told c @ map (\<lambda>(i, w). (w, Inl DROPPED)) (pending c)\<rparr>"

text \<open>A caller gives up: its entry goes, unless the lock is held at that moment.\<close>

definition abandon :: "int \<Rightarrow> bool \<Rightarrow> connection \<Rightarrow> connection" where
  "abandon i locked c = (if locked then c else c\<lparr>pending := AList.delete i (pending c)\<rparr>)"

datatype connection_op =
    Start
  | Ask nat string json "string option"
  | Notify string json "string option"
  | Answer int json "string option"
  | Refuse int int string "string option"
  | Arrive "incoming_message option"
  | End_of_stream
  | Abandon int bool

fun connection_step :: "connection_op \<Rightarrow> connection \<Rightarrow> connection" where
  "connection_step Start c = start c"
| "connection_step (Ask w m p f) c = send_request w m p f c"
| "connection_step (Notify m p f) c = send_notification m p f c"
| "connection_step (Answer i r f) c = respond i r f c"
| "connection_step (Refuse i k t f) c = respond_error i k t f c"
| "connection_step (Arrive m) c = (if reading c then receive m c else c)"
| "connection_step End_of_stream c = (if reading c then end_reading c else c)"
| "connection_step (Abandon i locked) c = abandon i locked c"

lemmas connection_defs =
  send_request_def insert_pending_def send_only_def send_notification_def respond_def respond_error_def
  start_def end_reading_def abandon_def tell_def

text \<open>
  The callers of a run of operations, in order. Each caller is in the table or has been told, and
  never both nor twice.
\<close>

fun asks :: "connection_op \<Rightarrow> nat list" where
  "asks (Ask w m p f) = [w]"
| "asks _ = []"

definition callers :: "connection \<Rightarrow> nat multiset" where
  "callers c = mset (map snd (pending c)) + mset (map fst (told c))"

definition table_ok :: "connection \<Rightarrow> bool" where
  "table_ok c = distinct (map fst (pending c))"

lemma mset_delete:
  "distinct (map fst al) \<Longrightarrow> map_of al k = Some w \<Longrightarrow>
     mset (map snd al) = add_mset w (mset (map snd (AList.delete k al)))"
  by (induction al) (auto simp: alist_delete_absent dest: map_of_SomeD split: if_splits)

lemma mset_update:
  "distinct (map fst al) \<Longrightarrow>
     mset (map snd (AList.update k v al)) = add_mset v (mset (map snd (AList.delete k al)))"
  by (induction al) (auto simp: alist_delete_absent)

lemma table_step: "table_ok c \<Longrightarrow> table_ok (connection_step e c)"
  by (cases e; cases "(case e of Arrive (Some (Response i r x)) \<Rightarrow> True | _ \<Rightarrow> False)")
    (auto simp: table_ok_def connection_defs Let_def distinct_update distinct_delete
      split: option.splits incoming_message.splits)

lemma callers_tell: "callers (tell w v c) = add_mset w (callers c)"
  by (simp add: callers_def tell_def)

lemma insert_pending_entry: "map_of (pending (insert_pending i w c)) i = Some w"
proof -
  have "pending (insert_pending i w c) = AList.update i w (pending c)"
    by (simp add: insert_pending_def tell_def split: option.split)
  then show ?thesis by (simp only: update_conv' fun_upd_same)
qed

lemma table_insert: "table_ok c \<Longrightarrow> table_ok (insert_pending i w c)"
  by (simp add: insert_pending_def tell_def table_ok_def distinct_update split: option.split)

lemma callers_insert: "table_ok c \<Longrightarrow> callers (insert_pending i w c) = add_mset w (callers c)"
proof (cases "map_of (pending c) i")
  case None
  assume "table_ok c"
  moreover have "i \<notin> fst ` set (pending c)" using None by (simp add: map_of_eq_None_iff)
  ultimately show ?thesis using None
    by (simp add: insert_pending_def callers_def table_ok_def mset_update alist_delete_absent del: mset_map)
next
  case (Some v)
  assume "table_ok c"
  then show ?thesis using Some mset_delete[of "pending c" i v]
    by (simp add: insert_pending_def callers_def tell_def table_ok_def mset_update del: mset_map)
qed

text \<open>An answer moves a caller from the table to those who were told.\<close>

lemma callers_answered:
  "table_ok c \<Longrightarrow> map_of (pending c) i = Some w \<Longrightarrow>
     callers (tell w v (c\<lparr>pending := AList.delete i (pending c)\<rparr>)) = callers c"
  using mset_delete[of "pending c" i w] by (simp add: callers_def tell_def table_ok_def del: mset_map)

lemma callers_same:
  "pending d = pending c \<Longrightarrow> told d = told c \<Longrightarrow> callers d = callers c"
  by (simp add: callers_def)

lemma callers_ask:
  assumes "table_ok c"
  shows "callers (send_request w m p f c) = add_mset w (callers c)"
proof -
  let ?i = "sint (next_id c)"
  let ?c = "insert_pending ?i w (c\<lparr>next_id := next_id c + 1\<rparr>)"
  have "table_ok (c\<lparr>next_id := next_id c + 1\<rparr>)" using assms by (simp add: table_ok_def)
  note ins = callers_insert[OF this, of ?i w] table_insert[OF this, of ?i w] insert_pending_entry
  have "callers (c\<lparr>next_id := next_id c + 1\<rparr>) = callers c" by (rule callers_same) simp_all
  with ins have c: "callers ?c = add_mset w (callers c)" by simp
  show ?thesis
  proof (cases f)
    case None
    then show ?thesis using c by (simp add: send_request_def Let_def callers_def)
  next
    case (Some e)
    then show ?thesis using c callers_answered[of ?c ?i w] ins by (simp add: send_request_def Let_def)
  qed
qed

lemma callers_step:
  assumes "table_ok c" "\<And>i l. e \<noteq> Abandon i l"
  shows "callers (connection_step e c) = callers c + mset (asks e)"
proof (cases e)
  case (Ask w m p f)
  then show ?thesis using callers_ask[OF assms(1)] by simp
next
  case (Arrive m)
  show ?thesis
  proof (cases "\<exists>i r x. m = Some (Response i r x) \<and> map_of (pending c) i \<noteq> None")
    case True
    then obtain i r x w where "m = Some (Response i r x)" "map_of (pending c) i = Some w" by auto
    then show ?thesis using Arrive callers_answered[OF assms(1)] by simp
  next
    case False
    then have "callers (receive m c) = callers c"
      by (cases m; cases "the m") (auto simp: callers_def split: option.split)
    then show ?thesis using Arrive by simp
  qed
next
  case End_of_stream
  then show ?thesis by (simp add: callers_def end_reading_def case_prod_unfold image_mset.compositionality comp_def)
qed (use assms in \<open>simp_all add: connection_defs callers_def\<close>)

lemma callers_run:
  assumes "table_ok c" "list_all (\<lambda>e. \<forall>i l. e \<noteq> Abandon i l) es"
  shows "callers (run_ops connection_step es c) = callers c + mset (concat (map asks es))"
  using assms
proof (induction es arbitrary: c)
  case (Cons e es)
  then show ?case using callers_step[of c e] table_step[of c e] by simp
qed simp

interpretation link: op_system connection_step table_ok connection_new
proof
  show "table_ok connection_new" by (simp add: table_ok_def connection_new_def)
qed (rule table_step)

text \<open>
  C10. Every request is answered exactly once: whatever is sent, fails to be sent, arrives (answers
  to unknown or repeated identifiers, malformed frames) until the stream ends, every caller that
  asked and did not give up has then been told exactly one thing, and nobody waits.
\<close>

theorem every_request_answered_once:
  assumes "list_all (\<lambda>e. \<forall>i l. e \<noteq> Abandon i l) es"
  shows "let c = run_ops connection_step (Start # es) connection_new
         in reading c \<longrightarrow>
              (let d = connection_step End_of_stream c
               in pending d = [] \<and> mset (map fst (told d)) = mset (concat (map asks es)))"
proof -
  let ?c = "run_ops connection_step (Start # es) connection_new"
  have new: "table_ok (start connection_new)" "callers (start connection_new) = {#}"
    by (simp_all add: table_ok_def connection_new_def start_def callers_def)
  have "callers ?c = mset (concat (map asks es))"
    using callers_run[OF new(1) assms] new(2) by simp
  moreover have "table_ok ?c" by (rule link.inv_reached)
  ultimately have all: "callers (connection_step End_of_stream ?c) = mset (concat (map asks es))"
    using callers_step[of ?c End_of_stream] by simp
  show ?thesis unfolding Let_def
  proof
    assume "reading ?c"
    then have none: "pending (connection_step End_of_stream ?c) = []" by (simp add: end_reading_def)
    with all have "mset (map fst (told (connection_step End_of_stream ?c))) = mset (concat (map asks es))"
      by (simp only: callers_def list.map mset.simps add_0)
    with none show "pending (connection_step End_of_stream ?c) = []
        \<and> mset (map fst (told (connection_step End_of_stream ?c))) = mset (concat (map asks es))"
      by (rule conjI)
  qed
qed

definition talk :: "connection_op list" where
  "talk =
     [Ask 10 ''a'' JNull None, Ask 11 ''b'' JNull None, Arrive (Some (Response 2 (Some (JBool True)) None)),
      Arrive (Some (Response 2 None None)), Arrive None, Ask 12 ''c'' JNull (Some ''closed'')]"

theorem every_request_answered_once_witness:
  "mset (map fst (told (connection_step End_of_stream
     (run_ops connection_step (Start # talk) connection_new)))) = {#10, 11, 12#}"
proof -
  have "list_all (\<lambda>e. \<forall>i l. e \<noteq> Abandon i l) talk" by (simp add: talk_def)
  moreover have "reading (run_ops connection_step (Start # talk) connection_new)"
    "concat (map asks talk) = [10, 11, 12]"
    by code_simp+
  ultimately show ?thesis
    using every_request_answered_once[of talk] by (simp add: Let_def del: run_ops_Cons connection_step.simps)
qed

text \<open>The answer with a request's identifier reaches the caller of that request.\<close>

lemma answer_reaches_caller:
  assumes "reading c" "map_of (pending c) i = Some w"
  shows "told (connection_step (Arrive (Some (Response i r x))) c) = told c @ [(w, Inr (response_value r x))]"
  using assms by (simp add: tell_def)

lemma asked_is_pending:
  "map_of (pending (send_request w m p None c)) (sint (next_id c)) = Some w"
  using insert_pending_entry[of "sint (next_id c)" w "c\<lparr>next_id := next_id c + 1\<rparr>"]
  by (simp add: send_request_def Let_def)

text \<open>
  An error response is handed to the caller as a value like a result; only a dropped channel or a
  failure to send is an error for the caller.
\<close>

lemma error_response_is_value:
  "reading c \<Longrightarrow> map_of (pending c) i = Some w \<Longrightarrow>
     told (connection_step (Arrive (Some (Response i None
        (Some \<lparr>err_code = METHOD_NOT_FOUND, err_message = t, err_data = None\<rparr>)))) c)
     = told c @ [(w, Inr (JObj [(''code'', JInt METHOD_NOT_FOUND), (''message'', JStr t)]))]"
  by (simp add: tell_def response_value_def error_object_def)

text \<open>
  A request sent after the reader has ended, over a transport that still accepts data, waits for
  ever: no answer can arrive, and nothing drops its channel.
\<close>

lemma stopped_stays:
  "\<not> reading c \<Longrightarrow> e \<noteq> Start \<Longrightarrow> \<not> reading (connection_step e c)"
  by (cases e) (simp_all add: connection_defs Let_def split: option.split)

fun quiet_op :: "connection_op \<Rightarrow> bool" where
  "quiet_op (Arrive m) = True"
| "quiet_op End_of_stream = True"
| "quiet_op (Notify m p f) = True"
| "quiet_op (Answer i r f) = True"
| "quiet_op (Refuse i k t f) = True"
| "quiet_op _ = False"

lemma request_after_end_waits:
  "\<not> reading c \<Longrightarrow> list_all quiet_op es \<Longrightarrow>
     pending (run_ops connection_step es c) = pending c \<and> told (run_ops connection_step es c) = told c"
proof (induction es arbitrary: c)
  case (Cons e es)
  have "pending (connection_step e c) = pending c" "told (connection_step e c) = told c"
    using Cons.prems by (cases e; simp add: connection_defs)+
  moreover have "\<not> reading (connection_step e c)"
    using Cons.prems by (intro stopped_stays) auto
  ultimately show ?case using Cons.IH[of "connection_step e c"] Cons.prems(2) by simp
qed simp

end
