(* ===== verification/Agent_Hub.thy ===== *)
theory Agent_Hub
  imports Event Json_Rpc "HOL-Library.Multiset_Order"
begin

section \<open>The agent hub\<close>

text \<open>
  \<open>crates/loopal-agent-hub\<close>: the registry of agents with their parents and children
  (\<open>agent_registry/mod.rs\<close>, \<open>types.rs\<close>, \<open>topology.rs\<close>), the completion of an agent and those who wait
  for it (\<open>completion.rs\<close>, \<open>wait_handler.rs\<close>), the requests of the agents (\<open>dispatch\<close>, \<open>routing.rs\<close>),
  the loop that reads an agent's messages (\<open>agent_io.rs\<close>), spawning (\<open>spawn_manager.rs\<close>) and the
  relay of permission requests to the user interfaces (\<open>ui_relay.rs\<close>, \<open>ui_dispatcher.rs\<close>). The hub's
  lock makes each operation one step. A connection is a number; what a request over it is answered,
  new processes and fresh identifiers are arguments (\<open>outside\<close>); what is sent is recorded. The time
  an agent was spawned is nowhere read and left out. A map is an association list without repeated
  keys, whose order stands for the unknown order of a hash map.
\<close>

subsection \<open>The registry\<close>

datatype lifecycle = Being_spawned | At_work | Done_life | Broken string

record agent_info =
  info_name :: string
  info_parent :: "string option"
  info_children :: "string list"
  info_lifecycle :: lifecycle
  info_model :: "string option"

definition agent_info_new :: "string \<Rightarrow> string option \<Rightarrow> string option \<Rightarrow> agent_info" where
  "agent_info_new n par m =
     \<lparr>info_name = n, info_parent = par, info_children = [], info_lifecycle = Being_spawned,
      info_model = m\<rparr>"

datatype link = Local | Connected nat

fun link_connection :: "link \<Rightarrow> nat option" where
  "link_connection (Connected c) = Some c"
| "link_connection Local = None"

record managed_agent =
  link :: link
  info :: agent_info

text \<open>A watch channel: open and empty, with its value sent, or its sender dropped.\<close>

datatype watch = Watching | Told string | Dropped

record agent_registry =
  members :: "(string \<times> managed_agent) list"
  completions :: "(string \<times> nat) list"
  finished_outputs :: "(string \<times> string) list"
  watches :: "watch list"
  event_queue :: "session_event list"
  queue_room :: nat
  sent :: "(nat \<times> string \<times> json) list"
  signalled :: "string list"

definition agent_registry_new :: "nat \<Rightarrow> agent_registry" where
  "agent_registry_new room =
     \<lparr>members = [], completions = [], finished_outputs = [], watches = [], event_queue = [],
      queue_room = room, sent = [], signalled = []\<rparr>"

abbreviation member :: "agent_registry \<Rightarrow> string \<Rightarrow> managed_agent option" where
  "member r n \<equiv> map_of (members r) n"

text \<open>\<open>try_send\<close>: an event is dropped when the channel is full.\<close>

definition try_send :: "session_event \<Rightarrow> agent_registry \<Rightarrow> agent_registry" where
  "try_send e r =
     (if length (event_queue r) < queue_room r then r\<lparr>event_queue := event_queue r @ [e]\<rparr> else r)"

definition transmit :: "nat \<Rightarrow> string \<Rightarrow> json \<Rightarrow> agent_registry \<Rightarrow> agent_registry" where
  "transmit c m v r = r\<lparr>sent := sent r @ [(c, m, v)]\<rparr>"

definition modify_info :: "string \<Rightarrow> (agent_info \<Rightarrow> agent_info) \<Rightarrow> agent_registry \<Rightarrow> agent_registry" where
  "modify_info n f r =
     (case member r n of
        None \<Rightarrow> r
      | Some a \<Rightarrow> r\<lparr>members := AList.update n (a\<lparr>info := f (info a)\<rparr>) (members r)\<rparr>)"

definition set_local :: "string \<Rightarrow> agent_registry \<Rightarrow> agent_registry" where
  "set_local n r =
     r\<lparr>members := AList.update n \<lparr>link = Local, info = agent_info_new n None None\<rparr> (members r)\<rparr>"

abbreviation quoted :: "string \<Rightarrow> string" where
  "quoted t \<equiv> CHR 0x27 # t @ [CHR 0x27]"

definition register_connection_with_parent ::
  "string \<Rightarrow> nat \<Rightarrow> string option \<Rightarrow> string option \<Rightarrow> agent_registry \<Rightarrow> (string + unit) \<times> agent_registry" where
  "register_connection_with_parent n c par m r =
     (if member r n \<noteq> None then (Inl (''agent '' @ quoted n @ '' already registered''), r)
      else
        let r = (case par of
                   Some p \<Rightarrow> modify_info p (\<lambda>i. i\<lparr>info_children := info_children i @ [n]\<rparr>) r
                 | None \<Rightarrow> r)
        in (Inr (), r\<lparr>members :=
              AList.update n \<lparr>link = Connected c, info = agent_info_new n par m\<rparr> (members r)\<rparr>))"

definition register_connection :: "string \<Rightarrow> nat \<Rightarrow> agent_registry \<Rightarrow> (string + unit) \<times> agent_registry" where
  "register_connection n c = register_connection_with_parent n c None None"

text \<open>Dropping a sender ends the wait of its receiver.\<close>

definition forget_completion :: "string \<Rightarrow> watch \<Rightarrow> agent_registry \<Rightarrow> agent_registry" where
  "forget_completion n v r =
     (case map_of (completions r) n of
        None \<Rightarrow> r
      | Some w \<Rightarrow> r\<lparr>completions := AList.delete n (completions r), watches := (watches r)[w := v]\<rparr>)"

definition unregister_connection :: "string \<Rightarrow> agent_registry \<Rightarrow> agent_registry" where
  "unregister_connection n r =
     (let par = Option.bind (member r n) (\<lambda>a. info_parent (info a));
          r = (case par of
                 Some p \<Rightarrow> modify_info p (\<lambda>i. i\<lparr>info_children := filter (\<lambda>c. c \<noteq> n) (info_children i)\<rparr>) r
               | None \<Rightarrow> r)
      in forget_completion n Dropped (r\<lparr>members := AList.delete n (members r)\<rparr>))"

definition get_agent_connection :: "agent_registry \<Rightarrow> string \<Rightarrow> nat option" where
  "get_agent_connection r n = Option.bind (member r n) (\<lambda>a. link_connection (link a))"

definition all_agent_connections :: "agent_registry \<Rightarrow> (string \<times> nat) list" where
  "all_agent_connections r =
     List.map_filter (\<lambda>(n, a). map_option (Pair n) (link_connection (link a))) (members r)"

definition list_agents :: "agent_registry \<Rightarrow> (string \<times> string) list" where
  "list_agents r =
     map (\<lambda>(n, a). (n, case link a of Local \<Rightarrow> ''local'' | Connected c \<Rightarrow> ''connected'')) (members r)"

definition agent_info_of :: "agent_registry \<Rightarrow> string \<Rightarrow> agent_info option" where
  "agent_info_of r n = map_option info (member r n)"

definition set_lifecycle :: "string \<Rightarrow> lifecycle \<Rightarrow> agent_registry \<Rightarrow> agent_registry" where
  "set_lifecycle n l = modify_info n (\<lambda>i. i\<lparr>info_lifecycle := l\<rparr>)"

text \<open>
  All descendants, depth first: a stack of names, popped and extended at its end. A cycle of
  children would make it run for ever (\<open>None\<close>).
\<close>

definition children_of :: "(string \<times> managed_agent) list \<Rightarrow> string \<Rightarrow> string list" where
  "children_of ms n = (case map_of ms n of Some a \<Rightarrow> info_children (info a) | None \<Rightarrow> [])"

partial_function (option) descend ::
  "(string \<times> managed_agent) list \<Rightarrow> string list \<Rightarrow> string list \<Rightarrow> string list option"
where
  "descend ms stack result =
     (if stack = [] then Some result
      else descend ms (butlast stack @ children_of ms (last stack)) (result @ [last stack]))"

definition descendants :: "agent_registry \<Rightarrow> string \<Rightarrow> string list option" where
  "descendants r n =
     (case member r n of
        Some a \<Rightarrow> descend (members r) (info_children (info a)) []
      | None \<Rightarrow> Some [])"

text \<open>The \<open>Debug\<close> text of a lifecycle; \<open>dbg\<close> is that of a string, quotes included.\<close>

fun lifecycle_text :: "(string \<Rightarrow> string) \<Rightarrow> lifecycle \<Rightarrow> string" where
  "lifecycle_text dbg Being_spawned = ''Spawning''"
| "lifecycle_text dbg At_work = ''Running''"
| "lifecycle_text dbg Done_life = ''Finished''"
| "lifecycle_text dbg (Broken t) = ''Failed('' @ dbg t @ '')''"

fun opt_json :: "string option \<Rightarrow> json" where
  "opt_json (Some t) = JStr t"
| "opt_json None = JNull"

definition topology_snapshot :: "(string \<Rightarrow> string) \<Rightarrow> agent_registry \<Rightarrow> json" where
  "topology_snapshot dbg r =
     JObj [(''agents'', JArr (map (\<lambda>(n, a).
       JObj [(''name'', JStr n), (''parent'', opt_json (info_parent (info a))),
             (''children'', JArr (map JStr (info_children (info a)))),
             (''lifecycle'', JStr (lifecycle_text dbg (info_lifecycle (info a)))),
             (''model'', opt_json (info_model (info a)))]) (members r)))]"

subsection \<open>Completion\<close>

definition AGENT_INTERRUPT :: string where "AGENT_INTERRUPT = ''agent/interrupt''"

definition watch_completion :: "string \<Rightarrow> agent_registry \<Rightarrow> nat \<times> agent_registry" where
  "watch_completion n r =
     (let w = length (watches r);
          r = forget_completion n Dropped (r\<lparr>watches := watches r @ [Watching]\<rparr>)
      in (w, r\<lparr>completions := AList.update n w (completions r)\<rparr>))"

definition interrupt_agent :: "string \<Rightarrow> agent_registry \<Rightarrow> agent_registry" where
  "interrupt_agent n r =
     (case member r n of
        None \<Rightarrow> r
      | Some a \<Rightarrow>
          (case link a of
             Local \<Rightarrow> r\<lparr>signalled := signalled r @ [n]\<rparr>
           | Connected c \<Rightarrow> transmit c AGENT_INTERRUPT (JObj []) r))"

definition collect_orphaned_children :: "agent_registry \<Rightarrow> string \<Rightarrow> string list" where
  "collect_orphaned_children r n =
     filter (\<lambda>c. map_option info_lifecycle (agent_info_of r c) = Some At_work)
       (children_of (members r) n)"

definition interrupt_orphans :: "string list \<Rightarrow> agent_registry \<Rightarrow> agent_registry" where
  "interrupt_orphans names r =
     fold (\<lambda>n r. case get_agent_connection r n of
                   Some c \<Rightarrow> transmit c AGENT_INTERRUPT (JObj []) r
                 | None \<Rightarrow> r) names r"

definition emit_agent_finished :: "string \<Rightarrow> string option \<Rightarrow> agent_registry \<Rightarrow> agent_registry" where
  "emit_agent_finished n out r =
     (let r = set_lifecycle n Done_life r;
          t = (case out of Some t \<Rightarrow> t | None \<Rightarrow> ''(no output)'');
          r = r\<lparr>finished_outputs := AList.update n t (finished_outputs r)\<rparr>;
          r = try_send (event_named n Finished) r;
          r = forget_completion n (Told t) r
      in interrupt_orphans (collect_orphaned_children r n) r)"

text \<open>How the loop of an agent ends: its completion, then its removal.\<close>

definition agent_exit :: "string \<Rightarrow> string option \<Rightarrow> agent_registry \<Rightarrow> agent_registry" where
  "agent_exit n out r = unregister_connection n (emit_agent_finished n out r)"

subsection \<open>Waiting for an agent\<close>

definition output_json :: "string \<Rightarrow> json" where
  "output_json t = JObj [(''output'', JStr t)]"

datatype answer = Answer json | Waiting nat

definition handle_wait_agent :: "json \<Rightarrow> agent_registry \<Rightarrow> (string + answer) \<times> agent_registry" where
  "handle_wait_agent params r =
     (case as_str (jindex params ''name'') of
        None \<Rightarrow> (Inl (''missing '' @ quoted ''name'' @ '' field''), r)
      | Some n \<Rightarrow>
          (case map_of (finished_outputs r) n of
             Some out \<Rightarrow> (Inr (Answer (output_json out)), r)
           | None \<Rightarrow>
               if get_agent_connection r n = None
               then (Inr (Answer (output_json ''agent not found or already finished'')), r)
               else case watch_completion n r of
                      (w, r) \<Rightarrow>
                        (case watches r ! w of
                           Told out \<Rightarrow> (Inr (Answer (output_json out)), r)
                         | _ \<Rightarrow> (Inr (Waiting w), r))))"

text \<open>What a waiter is answered: nothing while its channel is open and the ten minutes are not over.\<close>

definition wait_answer :: "agent_registry \<Rightarrow> nat \<Rightarrow> bool \<Rightarrow> json option" where
  "wait_answer r w timed_out =
     (case watches r ! w of
        Told out \<Rightarrow> Some (output_json out)
      | Dropped \<Rightarrow> Some (output_json ''agent terminated'')
      | Watching \<Rightarrow>
          if timed_out
          then Some (JObj [(''output'', JStr ''(agent timed out)''), (''timed_out'', JBool True)])
          else None)"

subsection \<open>Requests of the agents\<close>

text \<open>
  What is outside: the answer to a request over a connection, the processes that are started (an
  error, or the connection and the session of the new agent), fresh identifiers, and the reading
  and writing of envelopes and events as JSON.
\<close>

record outside =
  ask :: "nat \<Rightarrow> string \<Rightarrow> json \<Rightarrow> string + json"
  launch :: "string \<Rightarrow> string \<Rightarrow> string option \<Rightarrow> string option \<Rightarrow> string option \<Rightarrow> string + (nat \<times> string)"
  fresh_id :: string
  read_envelope :: "json \<Rightarrow> string + envelope"
  envelope_json :: "envelope \<Rightarrow> json"
  read_event :: "json \<Rightarrow> session_event option"
  debug_text :: "string \<Rightarrow> string"

definition ok_json :: json where "ok_json = JObj [(''ok'', JBool True)]"

definition missing_field :: "string \<Rightarrow> string" where
  "missing_field k = ''missing '' @ quoted k @ '' field''"

definition route_to_agent :: "outside \<Rightarrow> nat \<Rightarrow> envelope \<Rightarrow> agent_registry \<Rightarrow> (string + unit) \<times> agent_registry" where
  "route_to_agent ob c e r =
     (let v = envelope_json ob e; r = transmit c ''agent/message'' v r
      in case ask ob c ''agent/message'' v of
           Inl x \<Rightarrow> (Inl (''delivery to '' @ quoted (env_target e) @ '' failed: '' @ x), r)
         | Inr _ \<Rightarrow>
             (Inr (), try_send (event_root (MessageRouted (source_label (env_source e)) (env_target e)
                                  (text_preview (env_content e)))) r))"

definition route_message :: "outside \<Rightarrow> envelope \<Rightarrow> agent_registry \<Rightarrow> (string + unit) \<times> agent_registry" where
  "route_message ob e r =
     (case get_agent_connection r (env_target e) of
        None \<Rightarrow> (Inl (''no agent: '' @ quoted (env_target e)), r)
      | Some c \<Rightarrow> route_to_agent ob c e r)"

definition handle_route :: "outside \<Rightarrow> json \<Rightarrow> agent_registry \<Rightarrow> (string + json) \<times> agent_registry" where
  "handle_route ob params r =
     (case read_envelope ob params of
        Inl e \<Rightarrow> (Inl (''invalid envelope: '' @ e), r)
      | Inr env \<Rightarrow>
          (case get_agent_connection r (env_target env) of
             None \<Rightarrow> (Inl (''no agent registered: '' @ quoted (env_target env)), r)
           | Some c \<Rightarrow>
               (case route_to_agent ob c env r of
                  (Inl e, r) \<Rightarrow> (Inl e, r)
                | (Inr _, r) \<Rightarrow> (Inr ok_json, r))))"

definition handle_list_agents :: "agent_registry \<Rightarrow> json" where
  "handle_list_agents r = JObj [(''agents'', JArr (map (JStr \<circ> fst) (members r)))]"

text \<open>\<open>params["target"]\<close> and the connection it names, or the error.\<close>

definition target_connection :: "json \<Rightarrow> agent_registry \<Rightarrow> string + (string \<times> nat)" where
  "target_connection params r =
     (case as_str (jindex params ''target'') of
        None \<Rightarrow> Inl (missing_field ''target'')
      | Some n \<Rightarrow>
          (case get_agent_connection r n of
             None \<Rightarrow> Inl (''no agent: '' @ quoted n)
           | Some c \<Rightarrow> Inr (n, c)))"

definition handle_hub_control :: "outside \<Rightarrow> json \<Rightarrow> agent_registry \<Rightarrow> (string + json) \<times> agent_registry" where
  "handle_hub_control ob params r =
     (case target_connection params r of
        Inl e \<Rightarrow> (Inl e, r)
      | Inr (n, c) \<Rightarrow>
          let v = jindex params ''command''; r = transmit c ''agent/control'' v r
          in case ask ob c ''agent/control'' v of
               Inl e \<Rightarrow> (Inl (''control to '' @ quoted n @ '' failed: '' @ e), r)
             | Inr _ \<Rightarrow> (Inr ok_json, r))"

definition handle_interrupt :: "json \<Rightarrow> agent_registry \<Rightarrow> (string + json) \<times> agent_registry" where
  "handle_interrupt params r =
     (case target_connection params r of
        Inl e \<Rightarrow> (Inl e, r)
      | Inr (n, c) \<Rightarrow> (Inr ok_json, transmit c AGENT_INTERRUPT (JObj []) r))"

definition handle_shutdown_agent :: "json \<Rightarrow> agent_registry \<Rightarrow> (string + json) \<times> agent_registry" where
  "handle_shutdown_agent params r =
     (case target_connection params r of
        Inl e \<Rightarrow> (Inl e, r)
      | Inr (n, c) \<Rightarrow> (Inr ok_json, transmit c ''agent/shutdown'' (JObj []) r))"

text \<open>A registration that fails still answers with the identifier.\<close>

definition register_agent_connection ::
  "outside \<Rightarrow> string \<Rightarrow> nat \<Rightarrow> string option \<Rightarrow> string option \<Rightarrow> string option \<Rightarrow> agent_registry \<Rightarrow>
     string \<times> agent_registry" where
  "register_agent_connection ob n c par m sid r =
     (case register_connection_with_parent n c par m r of
        (Inl e, r) \<Rightarrow> (fresh_id ob, r)
      | (Inr _, r) \<Rightarrow>
          (fresh_id ob,
           try_send (event_root (SubAgentSpawned n (fresh_id ob) par m sid)) (set_lifecycle n At_work r)))"

definition spawn_and_register ::
  "outside \<Rightarrow> string \<Rightarrow> string \<Rightarrow> string option \<Rightarrow> string option \<Rightarrow> string option \<Rightarrow> string option \<Rightarrow>
     agent_registry \<Rightarrow> (string + string) \<times> agent_registry" where
  "spawn_and_register ob n cwd m prompt par perm r =
     (case launch ob n cwd m prompt perm of
        Inl e \<Rightarrow> (Inl e, r)
      | Inr (c, sid) \<Rightarrow> apfst Inr (register_agent_connection ob n c par m (Some sid) r))"

definition handle_spawn_agent :: "outside \<Rightarrow> json \<Rightarrow> string \<Rightarrow> agent_registry \<Rightarrow> (string + json) \<times> agent_registry" where
  "handle_spawn_agent ob params from_agent r =
     (case as_str (jindex params ''name'') of
        None \<Rightarrow> (Inl (missing_field ''name''), r)
      | Some n \<Rightarrow>
          (case spawn_and_register ob n
                  (case as_str (jindex params ''cwd'') of Some d \<Rightarrow> d | None \<Rightarrow> ''.'')
                  (as_str (jindex params ''model'')) (as_str (jindex params ''prompt''))
                  (Some from_agent) (as_str (jindex params ''permission_mode'')) r of
             (Inl e, r) \<Rightarrow> (Inl (''spawn failed: '' @ e), r)
           | (Inr i, r) \<Rightarrow> (Inr (JObj [(''agent_id'', JStr i), (''name'', JStr n)]), r)))"

definition handle_agent_info :: "outside \<Rightarrow> json \<Rightarrow> agent_registry \<Rightarrow> string + json" where
  "handle_agent_info ob params r =
     (case as_str (jindex params ''name'') of
        None \<Rightarrow> Inl (''missing '' @ quoted ''name'')
      | Some n \<Rightarrow>
          let out = map_of (finished_outputs r) n
          in case agent_info_of r n of
               Some i \<Rightarrow>
                 Inr (JObj [(''name'', JStr (info_name i)), (''parent'', opt_json (info_parent i)),
                            (''children'', JArr (map JStr (info_children i))),
                            (''lifecycle'', JStr (lifecycle_text (debug_text ob) (info_lifecycle i))),
                            (''model'', opt_json (info_model i)), (''output'', opt_json out)])
             | None \<Rightarrow>
                 (case out of
                    Some t \<Rightarrow> Inr (JObj [(''name'', JStr n), (''lifecycle'', JStr ''Finished''),
                                         (''output'', JStr t)])
                  | None \<Rightarrow> Inl (''agent '' @ quoted n @ '' not found'')))"

definition dispatch_hub_request ::
  "outside \<Rightarrow> string \<Rightarrow> json \<Rightarrow> string \<Rightarrow> agent_registry \<Rightarrow> (string + answer) \<times> agent_registry" where
  "dispatch_hub_request ob m params from_agent r =
     (let done = (\<lambda>(x, r). (map_sum id Answer x, r))
      in if m = ''hub/route'' then done (handle_route ob params r)
         else if m = ''hub/list_agents'' then (Inr (Answer (handle_list_agents r)), r)
         else if m = ''hub/control'' then done (handle_hub_control ob params r)
         else if m = ''hub/interrupt'' then done (handle_interrupt params r)
         else if m = ''hub/shutdown_agent'' then done (handle_shutdown_agent params r)
         else if m = ''hub/spawn_agent'' then done (handle_spawn_agent ob params from_agent r)
         else if m = ''hub/wait_agent'' then handle_wait_agent params r
         else if m = ''hub/agent_info'' then (map_sum id Answer (handle_agent_info ob params r), r)
         else if m = ''hub/topology'' then (Inr (Answer (topology_snapshot (debug_text ob) r)), r)
         else (Inl (''unknown hub method: '' @ m), r))"

subsection \<open>The loop that reads an agent\<close>

text \<open>
  One message of an agent. A waiter is answered later, when its channel is; a permission or a
  question goes to the user interfaces. The loop ends when the agent says it has completed.
\<close>

record io_state =
  io_agent :: string
  last_stream :: string
  completion_output :: "string option"

definition io_start :: "string \<Rightarrow> io_state" where
  "io_start n = \<lparr>io_agent = n, last_stream = '''', completion_output = None\<rparr>"

datatype reply =
    Reply int json
  | Reply_error int int string
  | Reply_when int nat
  | Relay int string json

fun track_output :: "event_payload \<Rightarrow> io_state \<Rightarrow> io_state" where
  "track_output (ToolResult i tool t err dur True md) io = io\<lparr>completion_output := Some t\<rparr>"
| "track_output (Stream t) io = io\<lparr>last_stream := last_stream io @ t\<rparr>"
| "track_output _ io = io"

fun io_step :: "outside \<Rightarrow> incoming \<Rightarrow> io_state \<Rightarrow> agent_registry \<Rightarrow> bool \<times> reply list \<times> io_state \<times> agent_registry" where
  "io_step ob (In_notification m params) io r =
     (if m = ''agent/completed'' then (False, [], io, r)
      else if m = ''agent/event'' then
        (case read_event ob params of
           None \<Rightarrow> (True, [], io, r)
         | Some e \<Rightarrow>
             (True, [], track_output (payload e) io,
              try_send (if event_agent e = None then e\<lparr>event_agent := Some (io_agent io)\<rparr> else e) r))
      else (True, [], io, r))"
| "io_step ob (In_request i m params) io r =
     (if prefix ''hub/'' m then
        (case dispatch_hub_request ob m params (io_agent io) r of
           (Inl e, r) \<Rightarrow> (True, [Reply_error i INVALID_REQUEST e], io, r)
         | (Inr (Answer v), r) \<Rightarrow> (True, [Reply i v], io, r)
         | (Inr (Waiting w), r) \<Rightarrow> (True, [Reply_when i w], io, r))
      else if m = ''agent/permission'' \<or> m = ''agent/question'' then (True, [Relay i m params], io, r)
      else (True, [Reply_error i METHOD_NOT_FOUND (''unknown: '' @ m)], io, r))"

definition io_output :: "io_state \<Rightarrow> string option" where
  "io_output io =
     or_else (completion_output io) (if last_stream io = '''' then None else Some (last_stream io))"

fun io_loop :: "outside \<Rightarrow> incoming list \<Rightarrow> io_state \<Rightarrow> agent_registry \<Rightarrow> reply list \<times> string option \<times> agent_registry" where
  "io_loop ob [] io r = ([], io_output io, r)"
| "io_loop ob (m # ms) io r =
     (case io_step ob m io r of
        (False, reps, io, r) \<Rightarrow> (reps, io_output io, r)
      | (True, reps, io, r) \<Rightarrow> apfst (\<lambda>x. reps @ x) (io_loop ob ms io r))"

text \<open>
  A client that connects over TCP must register with the token first; it is told that all is well
  before its name is registered, and a name that is taken ends its service without a word.
\<close>

fun wait_for_register :: "string \<Rightarrow> incoming list \<Rightarrow> reply list \<times> (string + (string \<times> incoming list))" where
  "wait_for_register token [] = ([], Inl ''connection closed before hub/register'')"
| "wait_for_register token (In_notification m p # ms) = wait_for_register token ms"
| "wait_for_register token (In_request i m p # ms) =
     (if m = ''hub/register'' then
        if (case as_str (jindex p ''token'') of Some t \<Rightarrow> t | None \<Rightarrow> '''') \<noteq> token
        then ([Reply_error i INVALID_REQUEST ''invalid token''], Inl ''invalid token'')
        else case as_str (jindex p ''name'') of
               None \<Rightarrow> ([], Inl (''hub/register: missing '' @ quoted ''name''))
             | Some n \<Rightarrow> ([Reply i ok_json], Inr (n, ms))
      else apfst (\<lambda>x. Reply_error i INVALID_REQUEST ''expected hub/register first'' # x)
             (wait_for_register token ms))"

definition start_agent_io ::
  "outside \<Rightarrow> string \<Rightarrow> nat \<Rightarrow> incoming list \<Rightarrow> agent_registry \<Rightarrow> reply list \<times> agent_registry" where
  "start_agent_io ob n c ms r =
     (case register_connection n c r of
        (Inl e, r) \<Rightarrow> ([], r)
      | (Inr _, r) \<Rightarrow>
          (case io_loop ob ms (io_start n) r of (reps, out, r) \<Rightarrow> (reps, agent_exit n out r)))"

subsection \<open>The relay to the user interfaces\<close>

text \<open>
  What a user interface does with a relayed request: it answers or its connection fails, after some
  milliseconds, or it stays silent. Thirty seconds are allowed.
\<close>

datatype ui_behaviour = Answers nat json | Fails nat | Silent

definition UI_RELAY_TIMEOUT :: nat where "UI_RELAY_TIMEOUT = 30000"

definition deny_json :: json where "deny_json = JObj [(''allow'', JBool False)]"

definition relay_single :: "ui_behaviour \<Rightarrow> nat \<times> json" where
  "relay_single u =
     (case u of
        Answers t v \<Rightarrow> if t < UI_RELAY_TIMEOUT then (t, v) else (UI_RELAY_TIMEOUT, deny_json)
      | Fails t \<Rightarrow> (min t UI_RELAY_TIMEOUT, deny_json)
      | Silent \<Rightarrow> (UI_RELAY_TIMEOUT, deny_json))"

definition race_relay :: "ui_behaviour list \<Rightarrow> json" where
  "race_relay us =
     (case min_by fst (map relay_single us) of
        Some (t, v) \<Rightarrow> if t < UI_RELAY_TIMEOUT then v else deny_json
      | None \<Rightarrow> deny_json)"

definition relay_params :: "string \<Rightarrow> json \<Rightarrow> json" where
  "relay_params n v =
     (case v of JObj m \<Rightarrow> JObj (AList.update ''agent_name'' (JStr n) m) | _ \<Rightarrow> v)"

definition relay_to_ui_clients :: "(string \<Rightarrow> ui_behaviour) \<Rightarrow> string list \<Rightarrow> json" where
  "relay_to_ui_clients behaves clients =
     (case clients of
        [] \<Rightarrow> deny_json
      | [c] \<Rightarrow> snd (relay_single (behaves c))
      | _ \<Rightarrow> race_relay (map behaves clients))"

text \<open>The user interfaces that are registered: registering again replaces the connection.\<close>

definition register_client :: "string \<Rightarrow> nat \<Rightarrow> (string \<times> nat) list \<Rightarrow> (string \<times> nat) list" where
  "register_client n c cs = AList.update n c cs"

definition unregister_client :: "string \<Rightarrow> (string \<times> nat) list \<Rightarrow> (string \<times> nat) list" where
  "unregister_client n cs = AList.delete n cs"

definition is_ui_client :: "(string \<times> nat) list \<Rightarrow> string \<Rightarrow> bool" where
  "is_ui_client cs n = (map_of cs n \<noteq> None)"

text \<open>A message on the connection of a user interface.\<close>

fun ui_step :: "outside \<Rightarrow> string \<Rightarrow> incoming \<Rightarrow> agent_registry \<Rightarrow> reply list \<times> agent_registry" where
  "ui_step ob n (In_notification m p) r = ([], r)"
| "ui_step ob n (In_request i m p) r =
     (if prefix ''hub/'' m then
        (case dispatch_hub_request ob m p n r of
           (Inl e, r) \<Rightarrow> ([Reply_error i METHOD_NOT_FOUND e], r)
         | (Inr (Answer v), r) \<Rightarrow> ([Reply i v], r)
         | (Inr (Waiting w), r) \<Rightarrow> ([Reply_when i w], r))
      else ([Reply_error i METHOD_NOT_FOUND
               (''UI clients only support hub/* methods, got: '' @ m)], r))"

subsection \<open>The operations of the registry, and what they keep\<close>

datatype hub_op =
    Op_local string
  | Op_register string nat "string option" "string option"
  | Op_lifecycle string lifecycle
  | Op_finish string "string option"
  | Op_unregister string
  | Op_wait string
  | Op_interrupt string
  | Op_event session_event
  | Op_transmit nat string json
  | Op_broadcast

fun hub_step :: "hub_op \<Rightarrow> agent_registry \<Rightarrow> agent_registry" where
  "hub_step (Op_local n) r = set_local n r"
| "hub_step (Op_register n c par m) r = snd (register_connection_with_parent n c par m r)"
| "hub_step (Op_lifecycle n l) r = set_lifecycle n l r"
| "hub_step (Op_finish n out) r = emit_agent_finished n out r"
| "hub_step (Op_unregister n) r = unregister_connection n r"
| "hub_step (Op_wait n) r = snd (handle_wait_agent (JObj [(''name'', JStr n)]) r)"
| "hub_step (Op_interrupt n) r = interrupt_agent n r"
| "hub_step (Op_event e) r = try_send e r"
| "hub_step (Op_transmit c m v) r = transmit c m v r"
| "hub_step Op_broadcast r = r\<lparr>event_queue := drop 1 (event_queue r)\<rparr>"

text \<open>
  A wait that is still open belongs to the one watcher of an agent that is registered, and the
  children of an agent lie below it in some order.
\<close>

definition watch_ok :: "agent_registry \<Rightarrow> bool" where
  "watch_ok r =
     (distinct (map fst (completions r)) \<and> distinct (map snd (completions r))
      \<and> set (map snd (completions r)) = {w. w < length (watches r) \<and> watches r ! w = Watching}
      \<and> set (map fst (completions r)) \<subseteq> set (map fst (members r)))"

definition below :: "(string \<Rightarrow> nat) \<Rightarrow> (string \<times> managed_agent) list \<Rightarrow> bool" where
  "below rk ms = (\<forall>p c. c \<in> set (children_of ms p) \<longrightarrow> rk c < rk p)"

definition hub_ok :: "agent_registry \<Rightarrow> bool" where
  "hub_ok r = (distinct (map fst (members r)) \<and> watch_ok r \<and> (\<exists>rk. below rk (members r)))"

lemma member_modify [simp]:
  "member (modify_info n f r) m =
     (if m = n then map_option (\<lambda>a. a\<lparr>info := f (info a)\<rparr>) (member r n) else member r m)"
  by (auto simp: modify_info_def update_conv' split: option.split)

lemma modify_info_rest [simp]:
  "completions (modify_info n f r) = completions r" "watches (modify_info n f r) = watches r"
  "finished_outputs (modify_info n f r) = finished_outputs r" "sent (modify_info n f r) = sent r"
  "event_queue (modify_info n f r) = event_queue r" "queue_room (modify_info n f r) = queue_room r"
  "signalled (modify_info n f r) = signalled r"
  by (simp_all add: modify_info_def split: option.split)

lemma names_update [simp]: "fst ` set (AList.update k v al) = insert k (fst ` set al)"
  by (induction al) auto

lemma names_modify [simp]: "fst ` set (members (modify_info n f r)) = fst ` set (members r)"
  by (auto simp: modify_info_def insert_absorb dest!: map_of_SomeD split: option.split)
    (metis fst_conv image_eqI insert_absorb)+

lemma distinct_modify: "distinct (map fst (members r)) \<Longrightarrow> distinct (map fst (members (modify_info n f r)))"
  by (simp add: modify_info_def distinct_update split: option.split)

lemma watch_ok_cong:
  "watch_ok r \<Longrightarrow> completions s = completions r \<Longrightarrow> watches s = watches r \<Longrightarrow>
     fst ` set (members r) \<subseteq> fst ` set (members s) \<Longrightarrow> watch_ok s"
  unfolding watch_ok_def set_map by (elim conjE, intro conjI) (simp_all only: subset_trans)

lemma hub_ok_watch: "hub_ok r \<Longrightarrow> watch_ok r"
  by (simp add: hub_ok_def)

lemma hub_ok_cong:
  "hub_ok r \<Longrightarrow> completions s = completions r \<Longrightarrow> watches s = watches r \<Longrightarrow> members s = members r \<Longrightarrow>
     hub_ok s"
  by (simp add: hub_ok_def watch_ok_def)

lemma children_iff:
  "c \<in> set (children_of ms p) \<longleftrightarrow> (\<exists>a. map_of ms p = Some a \<and> c \<in> set (info_children (info a)))"
  by (cases "map_of ms p") (auto simp: children_of_def)

lemma hub_ok_modify:
  assumes "hub_ok r" "\<And>i. set (info_children (f i)) \<subseteq> set (info_children i)"
  shows "hub_ok (modify_info n f r)"
proof -
  obtain rk where rk: "below rk (members r)" using assms(1) by (auto simp: hub_ok_def)
  have sub: "c \<in> set (children_of (members r) p)" if c: "c \<in> set (children_of (members (modify_info n f r)) p)" for p c
  proof (cases "p = n")
    case True
    with c obtain a where "member r n = Some a" "c \<in> set (info_children (f (info a)))"
      by (auto simp: children_iff)
    with True assms(2)[of "info a"] show ?thesis by (auto simp: children_iff)
  next
    case False
    with c show ?thesis by (simp add: children_iff)
  qed
  have "below rk (members (modify_info n f r))"
    using rk sub unfolding below_def by blast
  moreover have "watch_ok (modify_info n f r)"
    using assms(1) by (rule watch_ok_cong[of r, OF hub_ok_watch]) simp_all
  moreover have "distinct (map fst (members (modify_info n f r)))"
    using assms(1) by (intro distinct_modify) (simp add: hub_ok_def)
  ultimately show ?thesis unfolding hub_ok_def by (intro conjI exI[of _ rk])
qed

text \<open>A new or replaced entry has no children: it goes below every other.\<close>

lemma below_new:
  assumes "below rk ms" "\<And>p. p \<noteq> n \<Longrightarrow> set (children_of ms' p) \<subseteq> insert n (set (children_of ms p))"
    "children_of ms' n = []"
  shows "below (\<lambda>x. if x = n then 0 else rk x + 1) ms'"
  unfolding below_def
proof (intro allI impI)
  fix p c assume c: "c \<in> set (children_of ms' p)"
  then have p: "p \<noteq> n" using assms(3) by auto
  with c assms(2)[OF p] have "c = n \<or> c \<in> set (children_of ms p)" by auto
  with p assms(1) show "(if c = n then 0 else rk c + 1) < (if p = n then 0 else rk p + 1)"
    by (auto simp: below_def)
qed

lemma children_update:
  "children_of (AList.update n a ms) p = (if p = n then info_children (info a) else children_of ms p)"
  by (simp add: children_of_def update_conv')

lemma hub_ok_entry:
  assumes "hub_ok r" "info_children (info a) = []"
    "\<And>p. p \<noteq> n \<Longrightarrow> set (children_of (members s) p) \<subseteq> insert n (set (children_of (members r) p))"
    "completions s = completions r" "watches s = watches r" "distinct (map fst (members s))"
    "fst ` set (members s) = fst ` set (members r)"
  shows "hub_ok (s\<lparr>members := AList.update n a (members s)\<rparr>)"
proof -
  obtain rk where rk: "below rk (members r)" using assms(1) by (auto simp: hub_ok_def)
  have "below (\<lambda>x. if x = n then 0 else rk x + 1) (AList.update n a (members s))"
    by (rule below_new[OF rk]) (simp_all add: children_update assms(2,3))
  moreover have "watch_ok (s\<lparr>members := AList.update n a (members s)\<rparr>)"
    by (rule watch_ok_cong[OF hub_ok_watch[OF assms(1)]]) (simp_all add: assms(4,5,7) subset_insertI)
  moreover have "distinct (map fst (AList.update n a (members s)))"
    using assms(6) by (rule distinct_update)
  ultimately show ?thesis unfolding hub_ok_def
    by (intro conjI exI[of _ "\<lambda>x. if x = n then 0 else rk x + 1"]) simp_all
qed

lemma hub_ok_local: "hub_ok r \<Longrightarrow> hub_ok (set_local n r)"
  unfolding set_local_def
  by (rule hub_ok_entry[where r = r and s = r]) (simp_all add: hub_ok_def agent_info_new_def subset_insertI)

definition with_child :: "string option \<Rightarrow> string \<Rightarrow> agent_registry \<Rightarrow> agent_registry" where
  "with_child par n r =
     (case par of
        Some p \<Rightarrow> modify_info p (\<lambda>i. i\<lparr>info_children := info_children i @ [n]\<rparr>) r
      | None \<Rightarrow> r)"

lemma with_child_props:
  "completions (with_child par n r) = completions r" "watches (with_child par n r) = watches r"
  "fst ` set (members (with_child par n r)) = fst ` set (members r)"
  "distinct (map fst (members r)) \<Longrightarrow> distinct (map fst (members (with_child par n r)))"
  by (simp_all add: with_child_def distinct_modify split: option.split)

lemma with_child_children:
  "set (children_of (members (with_child par n r)) p) \<subseteq> insert n (set (children_of (members r) p))"
proof
  fix x assume "x \<in> set (children_of (members (with_child par n r)) p)"
  then show "x \<in> insert n (set (children_of (members r) p))"
    by (cases par; cases "par = Some p") (auto simp: with_child_def children_iff)
qed

lemma hub_ok_register: "hub_ok r \<Longrightarrow> hub_ok (snd (register_connection_with_parent n c par m r))"
proof (cases "member r n")
  case None
  assume ok: "hub_ok r"
  have "hub_ok ((with_child par n r)\<lparr>members :=
      AList.update n \<lparr>link = Connected c, info = agent_info_new n par m\<rparr> (members (with_child par n r))\<rparr>)"
    by (rule hub_ok_entry[OF ok])
      (use ok with_child_children in \<open>simp_all add: with_child_props agent_info_new_def hub_ok_def\<close>)
  then show ?thesis using None
    by (simp add: register_connection_with_parent_def with_child_def Let_def)
qed (simp add: register_connection_with_parent_def)

lemma hub_ok_lifecycle: "hub_ok r \<Longrightarrow> hub_ok (set_lifecycle n l r)"
  unfolding set_lifecycle_def by (rule hub_ok_modify) simp_all

lemma open_watch:
  "watch_ok r \<Longrightarrow> map_of (completions r) n = Some w \<Longrightarrow> w < length (watches r) \<and> watches r ! w = Watching"
  by (auto simp: watch_ok_def dest!: map_of_SomeD) (metis (mono_tags, lifting) image_eqI mem_Collect_eq snd_conv)+

lemma snd_delete:
  "distinct (map fst al) \<Longrightarrow> distinct (map snd al) \<Longrightarrow> map_of al n = Some w \<Longrightarrow>
     snd ` set (AList.delete n al) = snd ` set al - {w}"
  by (induction al) (auto simp: alist_delete_absent image_iff dest: map_of_SomeD split: if_splits)

lemma fst_delete: "fst ` set (AList.delete n al) = fst ` set al - {n}"
  by (induction al) auto

lemma distinct_snd_delete: "distinct (map snd al) \<Longrightarrow> distinct (map snd (AList.delete n al))"
proof -
  have "AList.delete n al = filter (\<lambda>p. fst p \<noteq> n) al" by (induction al) auto
  then show "distinct (map snd al) \<Longrightarrow> distinct (map snd (AList.delete n al))"
    by (simp add: distinct_map_filter)
qed

text \<open>When the entry of an agent is forgotten with a value, exactly that watch is closed.\<close>

lemma watch_ok_forget:
  assumes "watch_ok r" "v \<noteq> Watching"
  shows "watch_ok (forget_completion n v r)"
proof (cases "map_of (completions r) n")
  case (Some w)
  note w = open_watch[OF assms(1) Some]
  have "snd ` set (AList.delete n (completions r)) = snd ` set (completions r) - {w}"
    using assms(1) Some by (intro snd_delete) (simp_all add: watch_ok_def)
  moreover have "{x. x < length (watches r) \<and> (watches r)[w := v] ! x = Watching}
      = {x. x < length (watches r) \<and> watches r ! x = Watching} - {w}"
    using w assms(2) by (auto simp: nth_list_update)
  ultimately show ?thesis
    using assms(1) Some unfolding watch_ok_def set_map
    by (simp add: forget_completion_def distinct_delete distinct_snd_delete fst_delete subset_iff)
qed (simp add: forget_completion_def assms(1))

lemma forget_rest [simp]:
  "members (forget_completion n v r) = members r"
  "finished_outputs (forget_completion n v r) = finished_outputs r"
  "sent (forget_completion n v r) = sent r" "event_queue (forget_completion n v r) = event_queue r"
  by (simp_all add: forget_completion_def split: option.split)

lemma forgotten [simp]: "map_of (completions (forget_completion n v r)) m =
    (if m = n then None else map_of (completions r) m)"
  by (auto simp: forget_completion_def delete_conv' split: option.split)

lemma hub_ok_parts:
  "hub_ok r \<Longrightarrow> watch_ok s \<Longrightarrow> members s = members r \<Longrightarrow> hub_ok s"
  unfolding hub_ok_def by simp

lemma hub_ok_forget: "hub_ok r \<Longrightarrow> v \<noteq> Watching \<Longrightarrow> hub_ok (forget_completion n v r)"
  by (rule hub_ok_parts, assumption, rule watch_ok_forget) (simp_all add: hub_ok_watch)

lemma hub_ok_send: "hub_ok r \<Longrightarrow> hub_ok (try_send e r)" "hub_ok r \<Longrightarrow> hub_ok (transmit c m v r)"
  by (rule hub_ok_cong[of r]; simp add: try_send_def transmit_def)+

lemma hub_ok_orphans: "hub_ok r \<Longrightarrow> hub_ok (interrupt_orphans names r)"
  unfolding interrupt_orphans_def
  by (induction names arbitrary: r) (auto simp: hub_ok_send split: option.split)

lemma hub_ok_interrupt: "hub_ok r \<Longrightarrow> hub_ok (interrupt_agent n r)"
  by (auto simp: interrupt_agent_def hub_ok_send intro: hub_ok_cong[of r] split: option.split link.split)

lemma hub_ok_finish: "hub_ok r \<Longrightarrow> hub_ok (emit_agent_finished n out r)"
proof -
  assume ok: "hub_ok r"
  have "hub_ok ((set_lifecycle n Done_life r)\<lparr>finished_outputs := f\<rparr>)" for f
    by (rule hub_ok_cong[OF hub_ok_lifecycle[OF ok]]) simp_all
  then show ?thesis
    by (auto simp: emit_agent_finished_def Let_def intro!: hub_ok_orphans hub_ok_forget hub_ok_send)
qed

lemma hub_ok_unregister: "hub_ok r \<Longrightarrow> hub_ok (unregister_connection n r)"
proof -
  assume ok: "hub_ok r"
  let ?s = "case Option.bind (member r n) (\<lambda>a. info_parent (info a)) of
      Some p \<Rightarrow> modify_info p (\<lambda>i. i\<lparr>info_children := filter (\<lambda>c. c \<noteq> n) (info_children i)\<rparr>) r
    | None \<Rightarrow> r"
  have s: "hub_ok ?s" using ok by (auto intro!: hub_ok_modify split: option.split)
  then obtain rk where rk: "below rk (members ?s)" by (auto simp: hub_ok_def)
  let ?t = "forget_completion n Dropped (?s\<lparr>members := AList.delete n (members ?s)\<rparr>)"
  have eq: "unregister_connection n r = ?t" by (simp only: unregister_connection_def Let_def)
  have "completions ?t = completions (forget_completion n Dropped ?s)" "watches ?t = watches (forget_completion n Dropped ?s)"
    by (simp_all add: forget_completion_def split: option.split)
  moreover have "watch_ok (forget_completion n Dropped ?s)"
    using hub_ok_watch[OF s] by (rule watch_ok_forget) simp
  moreover have "n \<notin> fst ` set (completions (forget_completion n Dropped ?s))"
    by (simp flip: map_of_eq_None_iff)
  ultimately have w: "watch_ok ?t"
    by (auto simp: watch_ok_def fst_delete)
  have "below rk (members ?t)"
    using rk by (auto simp: below_def children_iff delete_conv' split: if_splits)
  moreover have "distinct (map fst (members ?t))" using s by (simp add: hub_ok_def distinct_delete)
  ultimately show ?thesis unfolding eq hub_ok_def using w by (intro conjI exI[of _ rk])
qed

lemma update_absent: "k \<notin> fst ` set al \<Longrightarrow> AList.update k v al = al @ [(k, v)]"
  by (induction al) auto

lemma watch_ok_append:
  assumes "distinct (map fst cs)" "distinct (map snd cs)" "n \<notin> fst ` set cs"
    "snd ` set cs = {x. x < k \<and> watches s ! x = Watching}" "length (watches s) = Suc k"
    "watches s ! k = Watching" "fst ` set cs \<subseteq> fst ` set (members s)" "n \<in> fst ` set (members s)"
    "completions s = cs @ [(n, k)]"
  shows "watch_ok s"
  unfolding watch_ok_def
proof (intro conjI)
  have "insert k {x. x < k \<and> watches s ! x = Watching} = {x. x < Suc k \<and> watches s ! x = Watching}"
    using assms(6) by (auto simp: less_Suc_eq)
  then show "set (map snd (completions s)) = {w. w < length (watches s) \<and> watches s ! w = Watching}"
    by (simp only: assms(4,5,9) set_map set_append image_Un list.set image_insert image_empty snd_conv Un_insert_right Un_empty_right)
qed (use assms in auto)

lemma watch_completion_props:
  assumes "watch_ok r" "member r n \<noteq> None" "watch_completion n r = (w, s)"
  shows "watch_ok s \<and> members s = members r \<and> w = length (watches r) \<and> watches s ! w = Watching
     \<and> map_of (completions s) n = Some w \<and> finished_outputs s = finished_outputs r"
proof -
  let ?r = "r\<lparr>watches := watches r @ [Watching]\<rparr>"
  let ?f = "forget_completion n Dropped ?r"
  let ?w = "length (watches r)"
  have s: "w = ?w" "s = ?f\<lparr>completions := AList.update n ?w (completions ?f)\<rparr>"
    using assms(3) by (auto simp: watch_completion_def Let_def)
  have absent: "n \<notin> fst ` set (completions ?f)" by (simp flip: map_of_eq_None_iff)
  have ws: "length (watches ?f) = Suc ?w" "watches ?f ! ?w = Watching"
    using open_watch[OF assms(1), of n]
    by (auto simp: forget_completion_def nth_append nth_list_update split: option.split)
  have old: "snd ` set (completions ?f) = {x. x < ?w \<and> watches ?f ! x = Watching}"
    using watch_ok_forget[OF assms(1), of Dropped n] open_watch[OF assms(1), of n]
    by (auto simp: watch_ok_def forget_completion_def nth_append list_update_append split: option.splits)
  have new: "completions s = completions ?f @ [(n, ?w)]"
    using absent by (simp add: s(2) update_absent)
  have "distinct (map fst (completions ?f))" "distinct (map snd (completions ?f))"
    using assms(1) by (simp_all add: forget_completion_def watch_ok_def distinct_delete distinct_snd_delete
        split: option.split)
  moreover have "fst ` set (completions ?f) \<subseteq> fst ` set (members r)"
    using assms(1) by (auto simp: forget_completion_def watch_ok_def fst_delete split: option.split)
  moreover have "n \<in> fst ` set (members r)"
    using assms(2) by (simp add: map_of_eq_None_iff del: not_None_eq)
  ultimately have "watch_ok s"
    by (intro watch_ok_append[of "completions ?f" n ?w s]) (use absent old ws new in \<open>simp_all add: s(2)\<close>)
  moreover have "map_of (completions s) n = Some ?w"
    using absent by (simp add: new map_add_def map_of_eq_None_iff[THEN iffD2])
  ultimately show ?thesis using ws s by simp
qed

lemma hub_ok_wait: "hub_ok r \<Longrightarrow> hub_ok (snd (handle_wait_agent params r))"
proof -
  assume ok: "hub_ok r"
  have "hub_ok s" if there: "get_agent_connection r n \<noteq> None" and w: "watch_completion n r = (w, s)" for n w s
  proof -
    have "member r n \<noteq> None" using there by (cases "member r n") (simp_all add: get_agent_connection_def)
    from watch_completion_props[OF hub_ok_watch[OF ok] this w] show ?thesis
      using hub_ok_parts[OF ok] by blast
  qed
  with ok show ?thesis
    by (auto simp: handle_wait_agent_def split: option.split prod.split watch.split)
qed

lemma hub_ok_step: "hub_ok r \<Longrightarrow> hub_ok (hub_step e r)"
proof (cases e)
  case Op_broadcast
  assume "hub_ok r"
  then show ?thesis using Op_broadcast by (auto intro: hub_ok_cong[of r])
qed (auto intro: hub_ok_local hub_ok_register hub_ok_lifecycle hub_ok_finish hub_ok_unregister
      hub_ok_wait hub_ok_interrupt hub_ok_send)

lemma hub_ok_new: "hub_ok (agent_registry_new room)"
  by (simp add: hub_ok_def watch_ok_def agent_registry_new_def below_def children_of_def)

interpretation hub: op_system hub_step hub_ok "agent_registry_new room"
  by unfold_locales (rule hub_ok_new, rule hub_ok_step)

subsection \<open>Every message handled is a sequence of operations\<close>

definition hub_runs :: "agent_registry \<Rightarrow> agent_registry \<Rightarrow> bool" where
  "hub_runs r s = (\<exists>es. s = run_ops hub_step es r)"

lemma hub_runs_refl [intro, simp]: "hub_runs r r"
  unfolding hub_runs_def by (rule exI[of _ "[]"]) simp

lemma hub_runs_trans: "hub_runs r s \<Longrightarrow> hub_runs s t \<Longrightarrow> hub_runs r t"
  unfolding hub_runs_def by (metis run_ops_append)

lemma hub_runs_step: "hub_runs r s \<Longrightarrow> hub_runs r (hub_step e s)"
  by (rule hub_runs_trans, assumption) (unfold hub_runs_def, rule exI[of _ "[e]"], simp)

lemmas hub_runs_ops =
  hub_runs_step[where e = "Op_transmit c m v" for c m v, unfolded hub_step.simps]
  hub_runs_step[where e = "Op_event e" for e, unfolded hub_step.simps]
  hub_runs_step[where e = "Op_lifecycle n l" for n l, unfolded hub_step.simps]
  hub_runs_step[where e = "Op_finish n out" for n out, unfolded hub_step.simps]
  hub_runs_step[where e = "Op_unregister n" for n, unfolded hub_step.simps]

lemma runs_register: "register_connection_with_parent n c par m r = (x, s) \<Longrightarrow> hub_runs r s"
  using hub_runs_step[of r r "Op_register n c par m"] by simp

lemma runs_wait: "hub_runs r (snd (handle_wait_agent params r))"
proof (cases "as_str (jindex params ''name'')")
  case (Some n)
  then have "handle_wait_agent params r = handle_wait_agent (JObj [(''name'', JStr n)]) r"
    by (simp add: handle_wait_agent_def jindex_def)
  then show ?thesis using hub_runs_step[of r r "Op_wait n"] by simp
qed (simp add: handle_wait_agent_def)

lemma runs_to_agent: "hub_runs r (snd (route_to_agent ob c e r))"
  by (auto simp: route_to_agent_def Let_def intro!: hub_runs_ops split: sum.split)

lemma runs_route: "hub_runs r (snd (handle_route ob params r))"
proof -
  have "hub_runs r s" if "route_to_agent ob c e r = (x, s)" for c e x s
    using runs_to_agent[of r ob c e] that by simp
  then show ?thesis
    by (auto simp: handle_route_def split: sum.split option.split prod.split)
qed

lemma runs_targets:
  "hub_runs r (snd (handle_hub_control ob params r))" "hub_runs r (snd (handle_interrupt params r))"
  "hub_runs r (snd (handle_shutdown_agent params r))"
  by (auto simp: handle_hub_control_def handle_interrupt_def handle_shutdown_agent_def Let_def
      intro!: hub_runs_ops split: sum.split prod.split)

lemma runs_spawn: "hub_runs r (snd (handle_spawn_agent ob params n r))"
proof -
  have "hub_runs r (snd (register_agent_connection ob a c par m sid r))" for a c par m sid
    by (auto simp: register_agent_connection_def intro!: hub_runs_ops dest: runs_register
        split: prod.split sum.split)
  then have "hub_runs r s" if "spawn_and_register ob a cwd m prompt par perm r = (x, s)" for a cwd m prompt par perm x s
    using that by (auto simp: spawn_and_register_def apfst_def map_prod_def split: sum.splits prod.splits)
      (metis snd_conv)
  then show ?thesis
    by (auto simp: handle_spawn_agent_def split: option.split sum.split prod.split)
qed

lemma runs_dispatch: "hub_runs r (snd (dispatch_hub_request ob m params n r))"
  using runs_route[of r ob params] runs_targets(1)[of r ob params] runs_targets(2,3)[of r params] runs_spawn[of r ob params n]
    runs_wait[of r params]
  by (simp add: dispatch_hub_request_def Let_def case_prod_unfold)

lemma runs_io_step: "io_step ob msg io r = (go, reps, io', s) \<Longrightarrow> hub_runs r s"
proof (cases msg)
  case (In_request i m params)
  assume io: "io_step ob msg io r = (go, reps, io', s)"
  obtain x t where "dispatch_hub_request ob m params (io_agent io) r = (x, t)" by fastforce
  with runs_dispatch[of r ob m params "io_agent io"] io In_request show ?thesis
    by (auto split: if_splits sum.splits answer.splits)
qed (auto intro!: hub_runs_ops split: if_splits option.splits)

lemma runs_io_loop: "io_loop ob ms io r = (reps, out, s) \<Longrightarrow> hub_runs r s"
proof (induction ob ms io r arbitrary: reps out s rule: io_loop.induct)
  case (2 ob m ms io r)
  obtain go reps' io' t where st: "io_step ob m io r = (go, reps', io', t)"
    by (cases "io_step ob m io r") auto
  note run = runs_io_step[OF st]
  show ?case
  proof (cases go)
    case True
    obtain reps2 out2 u where "io_loop ob ms io' t = (reps2, out2, u)"
      by (cases "io_loop ob ms io' t") auto
    moreover from st True have "(True, reps', io', t) = io_step ob m io r" by simp
    ultimately have "hub_runs t u" using "2.IH"[OF _ refl refl refl] by blast
    moreover have "s = u"
      using "2.prems" st True \<open>io_loop ob ms io' t = (reps2, out2, u)\<close> by (simp add: apfst_def map_prod_def)
    ultimately show ?thesis using hub_runs_trans[OF run] by blast
  next
    case False
    with "2.prems" st run show ?thesis by simp
  qed
qed simp

lemma runs_exit: "hub_runs r (agent_exit n out r)"
  unfolding agent_exit_def by (intro hub_runs_ops hub_runs_refl)

text \<open>
  Whatever an agent or a client sends, in any order, from its registration to the end of its
  connection, changes the registry through the registry's operations only: the whole service of a
  connection is one sequence of them, so that what they keep holds at every moment.
\<close>

theorem service_refines_registry:
  "\<exists>es. snd (start_agent_io ob n c ms r) = run_ops hub_step es r"
proof -
  have "hub_runs r (snd (start_agent_io ob n c ms r))"
  proof (cases "register_connection n c r")
    case (Pair x s)
    then have s: "hub_runs r s" using runs_register unfolding register_connection_def by blast
    obtain reps out t where t: "io_loop ob ms (io_start n) s = (reps, out, t)"
      by (cases "io_loop ob ms (io_start n) s") auto
    have "hub_runs r (agent_exit n out t)"
      by (rule hub_runs_trans[OF hub_runs_trans[OF s runs_io_loop[OF t]] runs_exit])
    with Pair s t show ?thesis by (auto simp: start_agent_io_def split: sum.split)
  qed
  then show ?thesis by (simp add: hub_runs_def)
qed

text \<open>
  Nobody waits for an agent that is gone: after any operations, every wait that is still open is
  the one wait recorded for an agent that is registered, so the end of that agent closes it.
\<close>

theorem open_waits_have_agents:
  "let r = run_ops hub_step es (agent_registry_new room)
   in {w. w < length (watches r) \<and> watches r ! w = Watching} = snd ` set (completions r)
      \<and> fst ` set (completions r) \<subseteq> fst ` set (members r)
      \<and> distinct (map fst (completions r)) \<and> distinct (map snd (completions r))"
proof -
  have "hub_ok (run_ops hub_step es (agent_registry_new room))" by (rule hub.inv_reached)
  then have "watch_ok (run_ops hub_step es (agent_registry_new room))" by (rule hub_ok_watch)
  then show ?thesis by (simp add: watch_ok_def Let_def)
qed

subsection \<open>Descendants\<close>

definition child_edges :: "(string \<times> managed_agent) list \<Rightarrow> (string \<times> string) set" where
  "child_edges ms = {(p, c). c \<in> set (children_of ms p)}"

lemma edge_iff: "(p, c) \<in> child_edges ms \<longleftrightarrow> c \<in> set (children_of ms p)"
  by (simp add: child_edges_def)

lemma pop_decreases:
  assumes "below rk ms"
  shows "mset (map rk (xs @ children_of ms x)) < mset (map rk (xs @ [x]))"
proof -
  have "mset (map rk (children_of ms x)) < {#rk x#}"
    using assms by (intro ex_gt_imp_less_multiset exI[of _ "rk x"]) (auto simp: below_def)
  then show ?thesis by simp
qed

lemma reached_from:
  "(child_edges ms)\<^sup>* `` {x} = insert x ((child_edges ms)\<^sup>* `` set (children_of ms x))"
proof (rule equalityI; rule subsetI)
  fix y assume "y \<in> (child_edges ms)\<^sup>* `` {x}"
  then have "(x, y) \<in> (child_edges ms)\<^sup>*" by simp
  then show "y \<in> insert x ((child_edges ms)\<^sup>* `` set (children_of ms x))"
    by (cases rule: converse_rtranclE) (auto simp: edge_iff)
next
  fix y assume "y \<in> insert x ((child_edges ms)\<^sup>* `` set (children_of ms x))"
  then show "y \<in> (child_edges ms)\<^sup>* `` {x}"
    by (metis Image_singleton_iff ImageE insertE edge_iff rtrancl.rtrancl_refl converse_rtrancl_into_rtrancl)
qed

lemma reached_below: "(child_edges ms)\<^sup>+ `` {x} = (child_edges ms)\<^sup>* `` set (children_of ms x)"
proof (rule equalityI; rule subsetI)
  fix y assume "y \<in> (child_edges ms)\<^sup>+ `` {x}"
  then have "(x, y) \<in> (child_edges ms)\<^sup>+" by simp
  then obtain z where "(x, z) \<in> child_edges ms" "(z, y) \<in> (child_edges ms)\<^sup>*" by (blast dest: tranclD)
  then show "y \<in> (child_edges ms)\<^sup>* `` set (children_of ms x)" by (auto simp: edge_iff)
next
  fix y assume "y \<in> (child_edges ms)\<^sup>* `` set (children_of ms x)"
  then obtain z where "(x, z) \<in> child_edges ms" "(z, y) \<in> (child_edges ms)\<^sup>*" by (auto simp: edge_iff)
  then show "y \<in> (child_edges ms)\<^sup>+ `` {x}" by (simp add: rtrancl_into_trancl2)
qed

lemma descend_returns:
  assumes "below rk ms"
  shows "\<exists>ds. descend ms stack result = Some ds
     \<and> set ds = set result \<union> (child_edges ms)\<^sup>* `` set stack"
proof (induction "mset (map rk stack)" arbitrary: stack result rule: less_induct)
  case less
  show ?case
  proof (cases stack rule: rev_cases)
    case Nil
    then show ?thesis by (simp add: descend.simps)
  next
    case (snoc xs x)
    obtain ds where ds: "descend ms (xs @ children_of ms x) (result @ [x]) = Some ds"
      "set ds = set (result @ [x]) \<union> (child_edges ms)\<^sup>* `` set (xs @ children_of ms x)"
      using less.hyps[of "xs @ children_of ms x" "result @ [x]"] pop_decreases[OF assms, of xs x] snoc
      by blast
    have "descend ms stack result = Some ds"
      unfolding snoc by (subst descend.simps) (simp add: ds(1))
    moreover have "(child_edges ms)\<^sup>* `` set stack
        = (child_edges ms)\<^sup>* `` set xs \<union> (child_edges ms)\<^sup>* `` {x}"
      unfolding snoc by auto
    then have "set ds = set result \<union> (child_edges ms)\<^sup>* `` set stack"
      unfolding ds(2) reached_from by auto
    ultimately show ?thesis by blast
  qed
qed

lemma rank_falls: "(p, c) \<in> (child_edges ms)\<^sup>+ \<Longrightarrow> below rk ms \<Longrightarrow> rk c < rk p"
  by (induction rule: trancl_induct) (auto simp: edge_iff below_def intro: less_trans)

text \<open>
  The search for the descendants of an agent always ends, because no operation can make an
  agent its own descendant, and it returns exactly the agents reached through children.
\<close>

theorem descendants_exact:
  "let r = run_ops hub_step es (agent_registry_new room)
   in \<exists>ds. descendants r n = Some ds \<and> set ds = (child_edges (members r))\<^sup>+ `` {n} \<and> n \<notin> set ds"
proof -
  let ?r = "run_ops hub_step es (agent_registry_new room)"
  have "hub_ok ?r" by (rule hub.inv_reached)
  then obtain rk where rk: "below rk (members ?r)" by (auto simp: hub_ok_def)
  have off: "n \<notin> (child_edges (members ?r))\<^sup>+ `` {n}" using rank_falls[OF _ rk, of n n] by blast
  have "\<exists>ds. descendants ?r n = Some ds \<and> set ds = (child_edges (members ?r))\<^sup>+ `` {n}"
    using descend_returns[OF rk, of "children_of (members ?r) n" "[]"]
    by (cases "member ?r n") (simp_all add: descendants_def children_of_def Let_def reached_below)
  with off show ?thesis by (auto simp: Let_def)
qed

subsection \<open>A wait is answered by the end of the agent\<close>

text \<open>The operations that touch the wait for an agent.\<close>

fun touches_wait :: "string \<Rightarrow> hub_op \<Rightarrow> bool" where
  "touches_wait n (Op_wait m) = (m = n)"
| "touches_wait n (Op_finish m out) = (m = n)"
| "touches_wait n (Op_unregister m) = (m = n)"
| "touches_wait n _ = False"

lemma send_completions [simp]:
  "completions (try_send e r) = completions r" "completions (transmit c m v r) = completions r"
  "watches (try_send e r) = watches r" "watches (transmit c m v r) = watches r"
  by (simp_all add: try_send_def transmit_def)

lemma orphans_completions [simp]:
  "completions (interrupt_orphans names r) = completions r"
  "watches (interrupt_orphans names r) = watches r"
  "members (interrupt_orphans names r) = members r"
  unfolding interrupt_orphans_def
  by (induction names arbitrary: r) (simp_all add: transmit_def split: option.split)

lemma finish_completions:
  "map_of (completions (emit_agent_finished m out r)) n =
     (if n = m then None else map_of (completions r) n)"
  by (simp add: emit_agent_finished_def Let_def set_lifecycle_def)

lemma unregister_completions:
  "map_of (completions (unregister_connection m r)) n =
     (if n = m then None else map_of (completions r) n)"
  by (simp add: unregister_connection_def Let_def split: option.split)

lemma watch_completions:
  "watch_completion m r = (w, s) \<Longrightarrow> n \<noteq> m \<Longrightarrow> map_of (completions s) n = map_of (completions r) n"
  by (auto simp: watch_completion_def Let_def update_conv')

lemma wait_completions:
  "as_str (jindex params ''name'') = Some m \<Longrightarrow> n \<noteq> m \<Longrightarrow>
     map_of (completions (snd (handle_wait_agent params r))) n = map_of (completions r) n"
  by (auto simp: handle_wait_agent_def watch_completions split: option.split prod.split watch.split)

lemma wait_kept: "\<not> touches_wait n e \<Longrightarrow> map_of (completions (hub_step e r)) n = map_of (completions r) n"
  by (cases e) (auto simp: set_local_def register_connection_with_parent_def Let_def set_lifecycle_def
      finish_completions unregister_completions interrupt_agent_def jindex_def
      intro!: wait_completions split: option.split link.split)

lemma wait_kept_run:
  "\<forall>e\<in>set es. \<not> touches_wait n e \<Longrightarrow>
     map_of (completions (run_ops hub_step es r)) n = map_of (completions r) n"
  by (induction es arbitrary: r) (simp_all add: wait_kept)

lemma exit_tells:
  assumes "hub_ok r" "map_of (completions r) n = Some w"
  shows "watches (agent_exit n out r) ! w = Told (case out of Some t \<Rightarrow> t | None \<Rightarrow> ''(no output)'')"
proof -
  let ?t = "case out of Some t \<Rightarrow> t | None \<Rightarrow> ''(no output)''"
  have w: "w < length (watches r)" using open_watch[OF hub_ok_watch[OF assms(1)] assms(2)] by simp
  have fin: "watches (emit_agent_finished n out r) ! w = Told ?t"
    using w assms(2) by (simp add: emit_agent_finished_def Let_def set_lifecycle_def forget_completion_def)
  have un: "watches (unregister_connection n s) = watches s" if "map_of (completions s) n = None" for s
    using that by (auto simp: unregister_connection_def Let_def forget_completion_def split: option.split)
  show ?thesis
    unfolding agent_exit_def by (simp add: un finish_completions fin)
qed

lemma wait_opens:
  assumes "hub_ok r" "handle_wait_agent params r = (Inr (Waiting w), s)"
    "as_str (jindex params ''name'') = Some n"
  shows "hub_ok s \<and> map_of (completions s) n = Some w"
proof -
  have there: "get_agent_connection r n \<noteq> None"
    and w: "watch_completion n r = (w, s)"
    using assms(2,3) by (auto simp: handle_wait_agent_def split: option.splits if_splits prod.splits watch.splits)
  have "member r n \<noteq> None" using there by (cases "member r n") (simp_all add: get_agent_connection_def)
  from watch_completion_props[OF hub_ok_watch[OF assms(1)] this w] show ?thesis
    using hub_ok_parts[OF assms(1)] by blast
qed


definition hub_sample :: "hub_op list" where
  "hub_sample = [Op_register ''main'' 1 None None, Op_register ''child'' 2 (Some ''main'') None,
                  Op_lifecycle ''child'' At_work]"

definition name_param :: "string \<Rightarrow> json" where
  "name_param n = JObj [(''name'', JStr n)]"


subsection \<open>The end of an agent interrupts its children\<close>

lemma children_lifecycle [simp]:
  "children_of (members (set_lifecycle m l r)) n = children_of (members r) n"
  by (simp add: children_of_def set_lifecycle_def split: option.split)

lemma connection_modify [simp]:
  "get_agent_connection (modify_info m f r) n = get_agent_connection r n"
  by (simp add: get_agent_connection_def bind_map_option comp_def)

lemma connection_cong: "members s = members r \<Longrightarrow> get_agent_connection s n = get_agent_connection r n"
  by (simp add: get_agent_connection_def)

lemma interrupts_sent:
  "sent (interrupt_orphans names r) =
     sent r @ map (\<lambda>c. (c, AGENT_INTERRUPT, JObj [])) (List.map_filter (get_agent_connection r) names)"
proof -
  have "get_agent_connection (transmit c m v r) = get_agent_connection r" for c m v r
    by (rule ext) (rule connection_cong, simp add: transmit_def)
  then show ?thesis
    unfolding interrupt_orphans_def
    by (induction names arbitrary: r) (simp_all add: map_filter_simps transmit_def split: option.split)
qed


subsection \<open>The relay answers with the first answer\<close>

lemma relay_single_allows:
  "relay_single u = (t, v) \<Longrightarrow> v \<noteq> deny_json \<Longrightarrow> u = Answers t v \<and> t < UI_RELAY_TIMEOUT"
  by (auto simp: relay_single_def split: ui_behaviour.splits if_splits)

text \<open>
  A request of an agent that is not denied was answered by a user interface, with that very
  answer, within thirty seconds, and no other user interface had answered or failed before.
\<close>

theorem relay_answer_is_first:
  assumes "relay_to_ui_clients behaves clients = v" "v \<noteq> deny_json"
  shows "\<exists>c\<in>set clients. \<exists>t<UI_RELAY_TIMEOUT. behaves c = Answers t v
    \<and> (\<forall>d\<in>set clients. t \<le> fst (relay_single (behaves d)))"
proof -
  consider "clients = []" | c where "clients = [c]" | c d cs where "clients = c # d # cs"
    by (cases clients rule: remdups_adj.cases) auto
  then show ?thesis
  proof cases
    case 1
    with assms show ?thesis by (simp add: relay_to_ui_clients_def)
  next
    case 2
    obtain t u where "relay_single (behaves c) = (t, u)" by fastforce
    with 2 assms relay_single_allows[of "behaves c" t v] show ?thesis
      by (auto simp: relay_to_ui_clients_def)
  next
    case 3
    then have race: "race_relay (map behaves clients) = v" using assms(1) by (simp add: relay_to_ui_clients_def)
    then obtain t where m: "min_by fst (map relay_single (map behaves clients)) = Some (t, v)"
      using assms(2) by (auto simp: race_relay_def split: option.splits if_splits)
    from min_by_Some[OF this] obtain c where c: "c \<in> set clients" "relay_single (behaves c) = (t, v)"
      "\<forall>d\<in>set clients. t \<le> fst (relay_single (behaves d))" by auto
    with relay_single_allows[OF c(2) assms(2)] show ?thesis by blast
  qed
qed

theorem relay_answer_is_first_witness:
  "\<exists>c\<in>set [''tui'', ''acp'']. \<exists>t<UI_RELAY_TIMEOUT.
     ((\<lambda>c. if c = ''tui'' then Silent else Answers 40 ok_json) c = Answers t ok_json
     \<and> (\<forall>d\<in>set [''tui'', ''acp'']. t \<le> fst (relay_single (if d = ''tui'' then Silent else Answers 40 ok_json))))"
  by (rule relay_answer_is_first)
    (simp_all add: relay_to_ui_clients_def race_relay_def relay_single_def UI_RELAY_TIMEOUT_def
      ok_json_def deny_json_def)

text \<open>A user interface whose connection fails denies for all the others.\<close>

lemma failed_client_denies:
  "relay_to_ui_clients (\<lambda>c. if c = ''gone'' then Fails 0 else Answers 40 ok_json) [''tui'', ''gone''] = deny_json"
  by (simp add: relay_to_ui_clients_def race_relay_def relay_single_def UI_RELAY_TIMEOUT_def deny_json_def)

subsection \<open>Limits of the completion of an agent\<close>

text \<open>A second wait for an agent ends the first: it is told the agent terminated.\<close>

lemma second_waiter_displaces_first:
  assumes "hub_ok r" "as_str (jindex params ''name'') = Some n"
    "handle_wait_agent params r = (Inr (Waiting w), s)" "handle_wait_agent params s = (Inr (Waiting w'), t)"
  shows "wait_answer t w timed_out = Some (output_json ''agent terminated'')"
proof -
  note s = wait_opens[OF assms(1,3,2)]
  have "watch_completion n s = (w', t)"
    using assms(2,4) by (auto simp: handle_wait_agent_def split: option.splits if_splits prod.splits watch.splits)
  then have "watches t ! w = Dropped"
    using s open_watch[OF hub_ok_watch, of s n w]
    by (auto simp: watch_completion_def Let_def forget_completion_def nth_append)
  then show ?thesis by (simp add: wait_answer_def)
qed

text \<open>The outputs are never cleared: an agent of the same name is waited for in vain.\<close>

lemma old_output_answers:
  assumes "as_str (jindex params ''name'') = Some n"
  shows "fst (handle_wait_agent params (hub_step (Op_register n c par m) (agent_exit n (Some t) r)))
    = Inr (Answer (output_json t))"
proof -
  have orphans: "finished_outputs (interrupt_orphans names s) = finished_outputs s" for names s
    unfolding interrupt_orphans_def
    by (induction names arbitrary: s) (simp_all add: transmit_def split: option.split)
  have un: "finished_outputs (unregister_connection n s) = finished_outputs s" for s
    by (simp add: unregister_connection_def Let_def split: option.split)
  have reg: "finished_outputs (hub_step (Op_register n c par m) s) = finished_outputs s" for s
    by (simp add: register_connection_with_parent_def Let_def split: option.split)
  have sent: "finished_outputs (try_send e s) = finished_outputs s" for e s
    by (simp add: try_send_def)
  have "map_of (finished_outputs (emit_agent_finished n (Some t) r)) n = Some t"
    by (simp add: emit_agent_finished_def Let_def orphans sent update_conv')
  then have "map_of (finished_outputs (hub_step (Op_register n c par m) (agent_exit n (Some t) r))) n = Some t"
    by (simp only: reg agent_exit_def un)
  with assms show ?thesis by (simp add: handle_wait_agent_def)
qed

text \<open>An agent whose name is taken is reported as spawned but is nowhere registered.\<close>

lemma taken_name_reported_spawned:
  "member r n \<noteq> None \<Longrightarrow> register_agent_connection ob n c par m sid r = (fresh_id ob, r)"
  by (simp add: register_agent_connection_def register_connection_with_parent_def)

text \<open>A client is told its registration went well before its name turns out to be taken.\<close>

lemma taken_name_acknowledged:
  assumes "member r n \<noteq> None" "as_str (jindex p ''token'') = Some token" "as_str (jindex p ''name'') = Some n"
  shows "wait_for_register token (In_request i ''hub/register'' p # ms) = ([Reply i ok_json], Inr (n, ms))
    \<and> start_agent_io ob n c ms r = ([], r)"
  using assms by (simp add: start_agent_io_def register_connection_def register_connection_with_parent_def)

end
