(* ===== verification/Worktree.thy ===== *)
theory Worktree
  imports Rust_Path Prelude
begin

section \<open>Git worktrees\<close>

text \<open>
  The crate \<open>loopal-git\<close>: finding the repository (\<open>repo.rs\<close>), creating and removing the worktrees of
  isolated agents (\<open>worktree.rs\<close>), and the cleanup at startup (\<open>cleanup.rs\<close>). Git and the file
  system are arguments: a record of operations on a world. A git command takes its arguments and
  the directory it runs in and either cannot be started or ends with its success, output and
  errors. Paths are texts, and output is read as UTF-8.
\<close>

subsection \<open>Errors and the world\<close>

datatype io_kind = Missing_program | Other_io string

datatype git_error =
    NotARepo
  | WorktreeExists string
  | InvalidName string
  | CommandFailed string
  | GitNotFound
  | Git_io string

definition in_quotes :: "string \<Rightarrow> string" where
  "in_quotes t = [CHR 0x27] @ t @ [CHR 0x27]"

text \<open>The UTF-8 bytes of the dash in \<open>git not found\<close>.\<close>

definition long_dash :: string where
  "long_dash = [CHR 0xE2, CHR 0x80, CHR 0x94]"

fun git_error_text :: "git_error \<Rightarrow> string" where
  "git_error_text NotARepo = ''not a git repository''"
| "git_error_text (WorktreeExists n) = ''worktree '' @ in_quotes n @ '' already exists''"
| "git_error_text (InvalidName n) = ''invalid worktree name: '' @ in_quotes n"
| "git_error_text (CommandFailed m) = ''git command failed: '' @ m"
| "git_error_text GitNotFound = ''git not found '' @ long_dash @ '' is git installed?''"
| "git_error_text (Git_io e) = ''I/O error: '' @ e"

fun of_io :: "io_kind \<Rightarrow> git_error" where
  "of_io Missing_program = GitNotFound"
| "of_io (Other_io e) = Git_io e"

record 'w git_env =
  git :: "string list \<Rightarrow> string \<Rightarrow> 'w \<Rightarrow> (io_kind + bool \<times> string \<times> string) \<times> 'w"
  path_exists :: "'w \<Rightarrow> string \<Rightarrow> bool"
  is_directory :: "'w \<Rightarrow> string \<Rightarrow> bool"
  make_dirs :: "string \<Rightarrow> 'w \<Rightarrow> io_kind option \<times> 'w"
  read_text :: "'w \<Rightarrow> string \<Rightarrow> string option"
  append_text :: "string \<Rightarrow> string \<Rightarrow> 'w \<Rightarrow> 'w"
  real_path :: "'w \<Rightarrow> string \<Rightarrow> string option"
  dir_entries :: "'w \<Rightarrow> string \<Rightarrow> string list option"
  remove_tree :: "string \<Rightarrow> 'w \<Rightarrow> 'w"

subsection \<open>The repository\<close>

definition is_git_repo :: "'w git_env \<Rightarrow> string \<Rightarrow> 'w \<Rightarrow> bool \<times> 'w" where
  "is_git_repo E path w =
     (case git E [''rev-parse'', ''--is-inside-work-tree''] path w of
        (Inr (ok, out, err), w) \<Rightarrow> (ok, w)
      | (Inl e, w) \<Rightarrow> (False, w))"

definition repo_root :: "'w git_env \<Rightarrow> string \<Rightarrow> 'w \<Rightarrow> string option \<times> 'w" where
  "repo_root E cwd w =
     (case git E [''rev-parse'', ''--show-toplevel''] cwd w of
        (Inr (ok, out, err), w) \<Rightarrow> (if ok \<and> trim out \<noteq> [] then Some (trim out) else None, w)
      | (Inl e, w) \<Rightarrow> (None, w))"

definition current_branch :: "'w git_env \<Rightarrow> string \<Rightarrow> 'w \<Rightarrow> string option \<times> 'w" where
  "current_branch E cwd w =
     (case git E [''rev-parse'', ''--abbrev-ref'', ''HEAD''] cwd w of
        (Inr (ok, out, err), w) \<Rightarrow>
          (if ok \<and> trim out \<noteq> [] \<and> trim out \<noteq> ''HEAD'' then Some (trim out) else None, w)
      | (Inl e, w) \<Rightarrow> (None, w))"

subsection \<open>Creating and removing\<close>

record worktree_info =
  wt_path :: string
  wt_branch :: string
  wt_name :: string

definition validate_name :: "string \<Rightarrow> git_error option" where
  "validate_name n =
     (if n = [] \<or> 200 < length n \<or> CHR ''/'' \<in> set n \<or> CHR 0x5C \<in> set n \<or> contains n ''..''
         \<or> prefix ''.'' n \<or> prefix ''-'' n \<or> CHR 0x00 \<in> set n \<or> CHR '' '' \<in> set n
      then Some (InvalidName n) else None)"

definition worktrees_dir :: "string \<Rightarrow> string" where
  "worktrees_dir root = path_join (path_join root ''.loopal'') ''worktrees''"

definition worktree_dir :: "string \<Rightarrow> string \<Rightarrow> string" where
  "worktree_dir root n = path_join (worktrees_dir root) n"

definition branch_of :: "string \<Rightarrow> string" where
  "branch_of n = ''loopal-wt-'' @ n"

text \<open>The lines of the list: the paths, resolved where possible, and the branches.\<close>

definition listed_paths :: "(string \<Rightarrow> string option) \<Rightarrow> string \<Rightarrow> string list" where
  "listed_paths resolve out =
     List.map_filter (\<lambda>l. map_option (\<lambda>p. case resolve p of Some q \<Rightarrow> q | None \<Rightarrow> p) (strip_prefix ''worktree '' l))
       (rust_lines out)"

definition listed_branches :: "string \<Rightarrow> string list" where
  "listed_branches out =
     List.map_filter (\<lambda>l. if prefix ''worktree '' l then None else strip_prefix ''branch refs/heads/'' l)
       (rust_lines out)"

definition parse_worktree_list :: "'w git_env \<Rightarrow> string \<Rightarrow> 'w \<Rightarrow> (string list \<times> string list) \<times> 'w" where
  "parse_worktree_list E root w =
     (case git E [''worktree'', ''list'', ''--porcelain''] root w of
        (Inr (True, out, err), w) \<Rightarrow> ((listed_paths (real_path E w) out, listed_branches out), w)
      | (_, w) \<Rightarrow> (([], []), w))"

definition ignore_entry :: string where
  "ignore_entry = ''.loopal/worktrees/''"

text \<open>What is appended to a \<open>.gitignore\<close>, if anything.\<close>

definition ignore_addition :: "string \<Rightarrow> string option" where
  "ignore_addition content =
     (if \<exists>l\<in>set (rust_lines content). trim l = ignore_entry then None
      else Some ((if content = [] \<or> suffix [NL] content then [] else [NL]) @ ignore_entry @ [NL]))"

definition ensure_gitignore_entry :: "'w git_env \<Rightarrow> string \<Rightarrow> 'w \<Rightarrow> 'w" where
  "ensure_gitignore_entry E root w =
     (let p = path_join root ''.gitignore'';
          content = (case read_text E w p of Some c \<Rightarrow> c | None \<Rightarrow> [])
      in case ignore_addition content of Some t \<Rightarrow> append_text E p t w | None \<Rightarrow> w)"

definition create_worktree :: "'w git_env \<Rightarrow> string \<Rightarrow> string \<Rightarrow> 'w \<Rightarrow> (git_error + worktree_info) \<times> 'w" where
  "create_worktree E root n w =
     (case validate_name n of
        Some e \<Rightarrow> (Inl e, w)
      | None \<Rightarrow>
          let dir = worktree_dir root n; branch = branch_of n
          in if path_exists E w dir then (Inl (WorktreeExists n), w)
             else
               case parse_worktree_list E root w of
                 ((_, active), w) \<Rightarrow>
                   let w = (if branch \<in> set active then w else snd (git E [''branch'', ''-D'', branch] root w))
                   in (case (case parent dir of Some p \<Rightarrow> make_dirs E p w | None \<Rightarrow> (None, w)) of
                         (Some e, w) \<Rightarrow> (Inl (of_io e), w)
                       | (None, w) \<Rightarrow>
                           let w = ensure_gitignore_entry E root w
                           in (case git E [''worktree'', ''add'', ''-b'', branch, dir] root w of
                                 (Inl e, w) \<Rightarrow> (Inl (of_io e), w)
                               | (Inr (ok, out, err), w) \<Rightarrow>
                                   (if ok then Inr \<lparr>wt_path = dir, wt_branch = branch, wt_name = n\<rparr>
                                    else Inl (CommandFailed (trim err)), w))))"

definition remove_worktree :: "'w git_env \<Rightarrow> string \<Rightarrow> string \<Rightarrow> bool \<Rightarrow> 'w \<Rightarrow> (git_error + unit) \<times> 'w" where
  "remove_worktree E root n force w =
     (case validate_name n of
        Some e \<Rightarrow> (Inl e, w)
      | None \<Rightarrow>
          (case git E ([''worktree'', ''remove''] @ (if force then [''--force''] else []) @ [worktree_dir root n]) root w of
             (Inl e, w) \<Rightarrow> (Inl (of_io e), w)
           | (Inr (ok, out, err), w) \<Rightarrow>
               if ok then (Inr (), snd (git E [''branch'', ''-D'', branch_of n] root w))
               else (Inl (CommandFailed (trim err)), w)))"

definition worktree_has_changes :: "'w git_env \<Rightarrow> string \<Rightarrow> 'w \<Rightarrow> (git_error + bool) \<times> 'w" where
  "worktree_has_changes E path w =
     (case git E [''status'', ''--porcelain''] path w of
        (Inl e, w) \<Rightarrow> (Inl (of_io e), w)
      | (Inr (ok, out, err), w) \<Rightarrow>
          (if ok then Inr (trim out \<noteq> []) else Inl (CommandFailed (trim err)), w))"

definition cleanup_if_clean :: "'w git_env \<Rightarrow> string \<Rightarrow> worktree_info \<Rightarrow> 'w \<Rightarrow> bool \<times> 'w" where
  "cleanup_if_clean E root i w =
     (case worktree_has_changes E (wt_path i) w of
        (Inr False, w) \<Rightarrow> (True, snd (remove_worktree E root (wt_name i) False w))
      | (_, w) \<Rightarrow> (False, w))"

subsection \<open>Cleanup at startup\<close>

definition cleanup_entry :: "'w git_env \<Rightarrow> string \<Rightarrow> string list \<Rightarrow> string \<Rightarrow> 'w \<Rightarrow> 'w" where
  "cleanup_entry E root active path w =
     (if \<not> is_directory E w path then w
      else case file_name path of
             None \<Rightarrow> w
           | Some n \<Rightarrow>
               if (case real_path E w path of Some q \<Rightarrow> q | None \<Rightarrow> path) \<in> set active then w
               else
                 let w = (case remove_worktree E root n True w of
                            (Inl e, w) \<Rightarrow> remove_tree E path w
                          | (Inr _, w) \<Rightarrow> w)
                 in snd (git E [''branch'', ''-D'', branch_of n] root w))"

definition cleanup_stale_worktrees :: "'w git_env \<Rightarrow> string \<Rightarrow> 'w \<Rightarrow> 'w" where
  "cleanup_stale_worktrees E root w =
     (let w = snd (git E [''worktree'', ''prune''] root w)
      in case dir_entries E w (worktrees_dir root) of
           None \<Rightarrow> w
         | Some paths \<Rightarrow>
             (case parse_worktree_list E root w of
                ((active, _), w) \<Rightarrow> fold (cleanup_entry E root active) paths w))"

subsection \<open>What a name can reach\<close>

lemma valid_name_plain: "validate_name n = None \<Longrightarrow> plain_name n \<and> \<not> prefix ''-'' n"
  by (auto simp: validate_name_def plain_name_def counted_def SLASH_def split: if_splits)

lemma components_worktree:
  assumes "root \<noteq> []" "validate_name n = None"
  shows "components (worktree_dir root n)
    = components root @ [Normal ''.loopal'', Normal ''worktrees'', Normal n]"
proof -
  have dirs: "plain_name ''.loopal''" "plain_name ''worktrees''"
    by (simp_all add: plain_name_def counted_def SLASH_def)
  have ne: "path_join a b \<noteq> []" if "b \<noteq> []" for a b using that by (simp add: path_join_def)
  show ?thesis
    unfolding worktree_dir_def worktrees_dir_def
    using assms dirs valid_name_plain[OF assms(2)] by (simp add: components_join_plain ne)
qed

text \<open>
  A worktree that is created lies directly below the directory for worktrees of the repository,
  whatever the name, and its branch has the name with a fixed prefix, which no option of git
  begins with; an invalid name reaches neither git nor the file system.
\<close>

theorem worktree_stays_inside:
  assumes "root \<noteq> []" "create_worktree E root n w = (r, w')"
  shows "case r of
      Inr i \<Rightarrow> components (wt_path i) = components root @ [Normal ''.loopal'', Normal ''worktrees'', Normal n]
        \<and> wt_branch i = ''loopal-wt-'' @ n \<and> wt_name i = n
    | Inl e \<Rightarrow> validate_name n \<noteq> None \<longrightarrow> e = InvalidName n \<and> w' = w"
proof (cases "validate_name n")
  case None
  with assms components_worktree[OF assms(1) None] show ?thesis
    by (auto simp: create_worktree_def Let_def branch_of_def split: if_splits prod.splits sum.splits option.splits)
next
  case (Some e)
  then have "e = InvalidName n" by (simp add: validate_name_def split: if_splits)
  with Some assms(2) show ?thesis by (auto simp: create_worktree_def)
qed

text \<open>A world that records the commands, and answers a few of them.\<close>

definition recording :: "(string list \<Rightarrow> bool \<times> string) \<Rightarrow> string list list git_env" where
  "recording answer =
     \<lparr>git = (\<lambda>args dir w. (Inr (fst (answer args), snd (answer args), ''''), w @ [args])),
      path_exists = (\<lambda>w p. False), is_directory = (\<lambda>w p. True), make_dirs = (\<lambda>p w. (None, w)),
      read_text = (\<lambda>w p. None), append_text = (\<lambda>p t w. w @ [[''append'', p, t]]), real_path = (\<lambda>w p. None),
      dir_entries = (\<lambda>w p. Some [path_join p ''busy'']), remove_tree = (\<lambda>p w. w @ [[''rm'', p]])\<rparr>"

theorem worktree_stays_inside_witness:
  "\<exists>i w'. create_worktree (recording (\<lambda>args. (True, ''''))) ''/repo'' ''agent-a-1'' [] = (Inr i, w')
     \<and> components (wt_path i) = [RootDir, Normal ''repo'', Normal ''.loopal'', Normal ''worktrees'', Normal ''agent-a-1'']"
proof -
  let ?c = "create_worktree (recording (\<lambda>args. (True, ''''))) ''/repo'' ''agent-a-1'' []"
  obtain r w' where c: "?c = (r, w')" by (cases ?c)
  have "isl (fst ?c) = False" by code_simp
  then obtain i where r: "r = Inr i" using c by (cases r) simp_all
  have "components ''/repo'' = [RootDir, Normal ''repo'']" by code_simp
  then show ?thesis using worktree_stays_inside[OF _ c] c r by simp
qed

subsection \<open>The entry in the ignore file\<close>

lemma lines_of_ended: "c = [] \<or> suffix [NL] c \<Longrightarrow> rust_lines (c @ t) = rust_lines c @ rust_lines t"
proof (induction c rule: line_induct)
  case (Line l s)
  then have "s = [] \<or> suffix [NL] s" by (cases s rule: rev_cases) (auto simp: suffix_def append_eq_append_conv2)
  with Line show ?case by (simp add: rust_lines_NL_append)
qed (auto simp: suffix_def)

lemma entry_line: "rust_lines (ignore_entry @ [NL]) = [ignore_entry]" "trim ignore_entry = ignore_entry"
  by code_simp+

text \<open>
  The ignore file gets its entry as a line of its own behind what was there, not one byte of
  which is touched, and gets it once: after it has been added nothing is added again.
\<close>

theorem ignore_entry_added_once:
  "case ignore_addition c of
     None \<Rightarrow> \<exists>l. l \<in> set (rust_lines c) \<and> trim l = ignore_entry
   | Some t \<Rightarrow>
       rust_lines (c @ t) = rust_lines (if c = [] \<or> suffix [NL] c then c else c @ [NL]) @ [ignore_entry]
       \<and> ignore_addition (c @ t) = None"
proof (cases "\<exists>l\<in>set (rust_lines c). trim l = ignore_entry")
  case True
  then show ?thesis by (auto simp: ignore_addition_def)
next
  case False
  let ?c = "if c = [] \<or> suffix [NL] c then c else c @ [NL]"
  have add: "ignore_addition c
      = Some ((if c = [] \<or> suffix [NL] c then [] else [NL]) @ ignore_entry @ [NL])"
    using False by (simp add: ignore_addition_def)
  have "?c = [] \<or> suffix [NL] ?c" by (simp add: suffix_def)
  then have lines: "rust_lines (?c @ ignore_entry @ [NL]) = rust_lines ?c @ [ignore_entry]"
    by (simp only: lines_of_ended entry_line)
  have eq: "c @ (if c = [] \<or> suffix [NL] c then [] else [NL]) @ ignore_entry @ [NL]
      = ?c @ ignore_entry @ [NL]" by simp
  have "ignore_addition (?c @ ignore_entry @ [NL]) = None"
    by (simp only: ignore_addition_def lines) (simp add: entry_line)
  with lines show ?thesis by (simp only: add option.case eq)
qed

subsection \<open>What cleaning up destroys\<close>

text \<open>
  A worktree without uncommitted changes is removed and its branch deleted with it, whatever was
  committed there and nowhere else; a removal that fails is reported as done.
\<close>

lemma clean_worktree_loses_branch:
  assumes "git E [''status'', ''--porcelain''] (wt_path i) w = (Inr (True, out, err), w1)" "trim out = []"
    "validate_name (wt_name i) = None"
    "git E [''worktree'', ''remove'', worktree_dir root (wt_name i)] root w1 = (Inr (ok, o2, e2), w2)"
  shows "cleanup_if_clean E root i w
    = (True, if ok then snd (git E [''branch'', ''-D'', branch_of (wt_name i)] root w2) else w2)"
  using assms by (simp add: cleanup_if_clean_def worktree_has_changes_def remove_worktree_def)

text \<open>When the list of worktrees cannot be had, every directory counts as stale and is removed by force.\<close>

lemma failed_list_removes_active:
  "cleanup_stale_worktrees (recording (\<lambda>args. (args \<noteq> [''worktree'', ''list'', ''--porcelain''], ''''))) ''/repo'' []
   = [[''worktree'', ''prune''], [''worktree'', ''list'', ''--porcelain''],
      [''worktree'', ''remove'', ''--force'', ''/repo/.loopal/worktrees/busy''],
      [''branch'', ''-D'', ''loopal-wt-busy''], [''branch'', ''-D'', ''loopal-wt-busy'']]"
  by code_simp

end
