(* ===== verification/Agent_Config.thy ===== *)
theory Agent_Config
  imports Tool_Api Prelude
begin

section \<open>Configuration of sub-agents\<close>

text \<open>
  \<open>crates/loopal-agent/src/config.rs\<close>: the files \<open>.loopal/agents/*.md\<close>, each a block of fields
  between two lines of dashes and a prompt. A directory is the list of its readable files, or
  nothing when it cannot be read; a map of configurations is a partial function.
\<close>

record agent_config =
  cfg_name :: string
  cfg_description :: string
  cfg_prompt :: string
  cfg_mode :: permission_mode
  cfg_tools :: "string list option"
  cfg_max_turns :: u32
  cfg_model :: "string option"

definition agent_config_default :: agent_config where
  "agent_config_default =
     \<lparr>cfg_name = ''default'', cfg_description = ''General-purpose agent'', cfg_prompt = [],
      cfg_mode = Bypass, cfg_tools = None, cfg_max_turns = 30, cfg_model = None\<rparr>"

definition parse_perm_mode :: "string \<Rightarrow> permission_mode" where
  "parse_perm_mode t =
     (if t = ''bypass'' \<or> t = ''yolo'' then Bypass
      else if t = ''supervised'' \<or> t = ''default'' \<or> t = ''accept-edits'' then Supervised_mode
      else Bypass)"

definition parse_list :: "string \<Rightarrow> string list" where
  "parse_list t =
     filter (\<lambda>i. i \<noteq> []) (map trim (split_char (CHR '','') (trim_end_matches '']'' (trim_start_matches ''['' t))))"

text \<open>One line of the block.\<close>

definition config_line :: "string \<Rightarrow> agent_config \<Rightarrow> agent_config" where
  "config_line raw c =
     (let l = trim raw
      in case strip_prefix ''description:'' l of Some v \<Rightarrow> c\<lparr>cfg_description := trim v\<rparr>
         | None \<Rightarrow>
         (case strip_prefix ''permission_mode:'' l of Some v \<Rightarrow> c\<lparr>cfg_mode := parse_perm_mode (trim v)\<rparr>
          | None \<Rightarrow>
          (case strip_prefix ''allowed_tools:'' l of Some v \<Rightarrow> c\<lparr>cfg_tools := Some (parse_list (trim v))\<rparr>
           | None \<Rightarrow>
           (case strip_prefix ''max_turns:'' l of
              Some v \<Rightarrow> c\<lparr>cfg_max_turns := (case parse_uint (2 ^ 32) (trim v) of
                                            Some n \<Rightarrow> word_of_nat n | None \<Rightarrow> 30)\<rparr>
            | None \<Rightarrow>
            (case strip_prefix ''model:'' l of
               Some v \<Rightarrow> if trim v \<noteq> [] then c\<lparr>cfg_model := Some (trim v)\<rparr> else c
             | None \<Rightarrow> c)))))"

definition parse_agent_config :: "string \<Rightarrow> string \<Rightarrow> agent_config" where
  "parse_agent_config name content =
     (let plain = agent_config_default\<lparr>cfg_name := name, cfg_prompt := content\<rparr>;
          trimmed = trim_start content
      in if \<not> prefix ''---'' trimmed then plain
         else case split_at_pat [NL] trimmed of
                None \<Rightarrow> plain
              | Some (_, after_open) \<Rightarrow>
                  (case split_at_pat ([NL] @ ''---'') after_open of
                     None \<Rightarrow> plain
                   | Some (fm, rest) \<Rightarrow>
                       let body = (case strip_prefix [NL] rest of Some b \<Rightarrow> b | None \<Rightarrow> rest)
                       in fold config_line (rust_lines fm)
                            (agent_config_default\<lparr>cfg_name := name, cfg_prompt := body\<rparr>)))"

text \<open>The name of a configuration file without its extension, if it has the right one.\<close>

definition md_stem :: "string \<Rightarrow> string option" where
  "md_stem n = (case strip_suffix ''.md'' n of Some s \<Rightarrow> if s = [] then None else Some s | None \<Rightarrow> None)"

definition config_entry ::
  "string \<times> string option \<Rightarrow> (string \<Rightarrow> agent_config option) \<Rightarrow> (string \<Rightarrow> agent_config option)" where
  "config_entry e m =
     (case (md_stem (fst e), snd e) of
        (Some s, Some t) \<Rightarrow> m(s \<mapsto> parse_agent_config s t)
      | _ \<Rightarrow> m)"

definition load_configs_from_dir ::
  "(string \<times> string option) list option \<Rightarrow> (string \<Rightarrow> agent_config option) \<Rightarrow> (string \<Rightarrow> agent_config option)" where
  "load_configs_from_dir dir m =
     (case dir of None \<Rightarrow> m | Some entries \<Rightarrow> fold config_entry entries m)"

definition load_agent_configs ::
  "(string \<times> string option) list option \<Rightarrow> (string \<times> string option) list option \<Rightarrow> (string \<Rightarrow> agent_config option)" where
  "load_agent_configs global_dir project_dir =
     load_configs_from_dir project_dir (load_configs_from_dir global_dir (\<lambda>_. None))"

subsection \<open>What is read\<close>

lemma config_line_rest [simp]:
  "cfg_name (config_line l c) = cfg_name c" "cfg_prompt (config_line l c) = cfg_prompt c"
  by (simp_all add: config_line_def Let_def split: option.split)

lemma config_lines_rest [simp]:
  "cfg_name (fold config_line ls c) = cfg_name c" "cfg_prompt (fold config_line ls c) = cfg_prompt c"
  by (induction ls arbitrary: c) simp_all

text \<open>The block ends at the first line that begins with three dashes.\<close>

definition no_dash_line :: "string \<Rightarrow> bool" where
  "no_dash_line fm = (\<not> contains ([NL] @ fm) ([NL] @ ''---''))"

lemma split_at_first_pat:
  assumes "\<And>u v. a @ p @ b = u @ p @ v \<Longrightarrow> length a \<le> length u"
  shows "split_at_pat p (a @ p @ b) = Some (a, b)"
proof -
  obtain u v where uv: "split_at_pat p (a @ p @ b) = Some (u, v)"
    using split_at_pat_None[of p "a @ p @ b"] by (cases "split_at_pat p (a @ p @ b)") auto
  then have eq: "a @ p @ b = u @ p @ v" by (rule split_at_pat_Some)
  have "length u \<le> length a" by (rule split_at_pat_first[OF uv refl])
  then have "length u = length a" using assms[OF eq] by simp
  with eq uv show ?thesis by simp
qed
definition config_text_line :: "string \<Rightarrow> bool" where
  "config_text_line l = (l \<noteq> [] \<and> NL \<notin> set l \<and> last l \<noteq> CR \<and> \<not> prefix ''---'' l)"

lemma no_dashes_yet:
  assumes "config_text_line l"
  shows "\<not> prefix ''---'' (l @ NL # s)"
proof
  assume p: "prefix ''---'' (l @ NL # s)"
  have "CHR ''-'' \<noteq> NL" by simp
  then show False using p assms
    by (cases l; cases "tl l"; cases "tl (tl l)") (auto simp: config_text_line_def)
qed

lemma block_ends_first:
  assumes "list_all config_text_line ls" "ls \<noteq> []"
    "str_join [NL] ls @ (NL # ''---'') @ b = u @ (NL # ''---'') @ v"
  shows "length (str_join [NL] ls) \<le> length u"
  using assms
proof (induction ls arbitrary: u)
  case (Cons l ls)
  have l: "config_text_line l" using Cons.prems(1) by simp
  obtain s where s: "str_join [NL] (l # ls) @ (NL # ''---'') @ b = l @ NL # s"
    "ls \<noteq> [] \<Longrightarrow> s = str_join [NL] ls @ (NL # ''---'') @ b"
    by (cases "ls = []") (auto simp: str_join_Cons)
  have long: "length l \<le> length u"
  proof (rule ccontr)
    assume "\<not> length l \<le> length u"
    then have "l ! length u = NL" using Cons.prems(3) s(1)
      by (metis append_Cons leI nth_append nth_append_length)
    with \<open>\<not> length l \<le> length u\<close> l show False by (auto simp: config_text_line_def in_set_conv_nth)
  qed
  show ?case
  proof (cases "ls = []")
    case True
    with long show ?thesis by simp
  next
    case False
    then obtain l2 ls2 where ls: "ls = l2 # ls2" by (cases ls) auto
    obtain u' where u: "u = l @ u'" and rest: "NL # s = u' @ (NL # ''---'') @ v"
    proof -
      have eq: "l @ NL # s = u @ (NL # ''---'') @ v" using Cons.prems(3) s(1) by simp
      then have "prefix l (u @ (NL # ''---'') @ v)" by (metis prefixI)
      then have "prefix l u" by (rule prefix_length_prefix[OF _ _ long]) simp
      with eq that show thesis by (auto simp: prefix_def)
    qed
    show ?thesis
    proof (cases u')
      case Nil
      then have "s = ''---'' @ v" using rest by simp
      moreover obtain r where "s = l2 @ NL # r" using s(2)[OF False] ls by (cases ls2) (auto simp: str_join_Cons)
      ultimately have "prefix ''---'' (l2 @ NL # r)" by (metis prefixI)
      then show ?thesis using no_dashes_yet[of l2 r] Cons.prems(1) ls by simp
    next
      case (Cons c u2)
      then have "s = u2 @ (NL # ''---'') @ v" using rest by simp
      then have "length (str_join [NL] ls) \<le> length u2"
        using Cons.IH[of u2] Cons.prems(1) False s(2) by simp
      with u Cons False show ?thesis by (simp add: str_join_Cons)
    qed
  qed
qed simp

lemma rust_lines_block:
  "list_all config_text_line ls \<Longrightarrow> rust_lines (str_join [NL] ls) = ls"
proof (induction ls)
  case (Cons l ls)
  then show ?case
    by (cases "ls = []")
      (auto simp: str_join_Cons rust_lines_single rust_lines_NL_append config_text_line_def strip_cr_def)
qed simp

text \<open>
  A configuration file says what it is meant to say: with a block of fields the fields are read
  line by line and the prompt is all that follows, to the byte; what the block may not hold is a
  line that begins with dashes.
\<close>

theorem config_file_read:
  assumes "ls \<noteq> []" "list_all config_text_line ls"
  shows "parse_agent_config name (''---'' @ [NL] @ str_join [NL] ls @ [NL] @ ''---'' @ [NL] @ body)
    = fold config_line ls (agent_config_default\<lparr>cfg_name := name, cfg_prompt := body\<rparr>)"
proof -
  let ?block = "str_join [NL] ls"
  let ?after = "?block @ (NL # ''---'') @ (NL # body)"
  have trimmed: "trim_start (''---'' @ t) = ''---'' @ t" for t
    by (simp add: trim_start_def ws_prefix_def ws_seqs_def)
  have first: "split_at_pat [NL] (''---'' @ [NL] @ ?after) = Some (''---'', ?after)"
    by (simp add: split_at_pat.simps)
  have block: "split_at_pat (NL # ''---'') ?after = Some (?block, NL # body)"
    by (rule split_at_first_pat) (rule block_ends_first[OF assms(2,1)])
  have "parse_agent_config name (''---'' @ [NL] @ ?after)
      = fold config_line (rust_lines ?block) (agent_config_default\<lparr>cfg_name := name, cfg_prompt := body\<rparr>)"
    unfolding parse_agent_config_def Let_def trimmed
    using first block by (simp add: strip_prefix_def)
  then show ?thesis by (simp add: rust_lines_block[OF assms(2)])
qed

theorem config_file_read_witness:
  "cfg_prompt (parse_agent_config ''explorer''
     (''---'' @ [NL] @ str_join [NL] [''description: d'', ''model: m''] @ [NL] @ ''---'' @ [NL] @ ''Look.'')) = ''Look.''
   \<and> cfg_model (parse_agent_config ''explorer''
     (''---'' @ [NL] @ str_join [NL] [''description: d'', ''model: m''] @ [NL] @ ''---'' @ [NL] @ ''Look.'')) = Some ''m''"
proof -
  have ok: "list_all config_text_line [''description: d'', ''model: m'']" by code_simp
  have fields: "cfg_prompt (fold config_line [''description: d'', ''model: m'']
        (agent_config_default\<lparr>cfg_name := ''explorer'', cfg_prompt := ''Look.''\<rparr>)) = ''Look.''"
    "cfg_model (fold config_line [''description: d'', ''model: m'']
        (agent_config_default\<lparr>cfg_name := ''explorer'', cfg_prompt := ''Look.''\<rparr>)) = Some ''m''"
    by code_simp+
  show ?thesis using config_file_read[OF _ ok, of "''explorer''" "''Look.''"] fields by simp
qed

text \<open>An empty block is no block: the whole file becomes the prompt.\<close>

lemma empty_block_is_prompt:
  "let f = ''---'' @ [NL] @ ''---'' @ [NL] @ ''Look.'' in cfg_prompt (parse_agent_config ''a'' f) = f"
  by code_simp

text \<open>A mode that is not known is the most permissive one.\<close>

lemma unknown_mode_bypasses: "parse_perm_mode ''auto'' = Bypass \<and> parse_perm_mode ''Supervised'' = Bypass"
  by code_simp

text \<open>The files of the project win over the global ones of the same name.\<close>

lemma strip_suffix_Some: "strip_suffix p x = Some r \<Longrightarrow> x = r @ p"
  by (auto simp: strip_suffix_def suffix_def split: if_splits)

lemma md_stem_Some: "md_stem k = Some s \<Longrightarrow> k = s @ ''.md''"
  unfolding md_stem_def
  by (cases "strip_suffix ''.md'' k") (simp_all add: strip_suffix_Some split: if_split_asm)

lemma config_entry_at:
  assumes "md_stem n = Some s"
  shows "config_entry e m s = (if fst e = n \<and> snd e \<noteq> None then Some (parse_agent_config s (the (snd e))) else m s)"
proof (cases "md_stem (fst e)")
  case None
  with assms show ?thesis by (auto simp: config_entry_def)
next
  case (Some u)
  have "u = s \<longleftrightarrow> fst e = n" using md_stem_Some[OF Some] md_stem_Some[OF assms] Some assms by auto
  with Some show ?thesis by (cases "u = s"; cases "snd e") (auto simp: config_entry_def)
qed

lemma project_config_wins:
  assumes "(n, Some t) \<in> set ps" "distinct (map fst ps)" "md_stem n = Some s"
  shows "load_agent_configs g (Some ps) s = Some (parse_agent_config s t)"
proof -
  have absent: "n \<notin> fst ` set es \<Longrightarrow> fold config_entry es m s = m s" for es m
    by (induction es arbitrary: m) (auto simp: config_entry_at[OF assms(3)])
  obtain before after where ps: "ps = before @ (n, Some t) # after" using assms(1) by (meson split_list)
  have "n \<notin> fst ` set after" using assms(2) by (auto simp: ps)
  then show ?thesis
    by (simp add: load_agent_configs_def load_configs_from_dir_def ps absent config_entry_at[OF assms(3)])
qed

end
