(* ===== verification/Agent_Tools.thy ===== *)
theory Agent_Tools
  imports Agent_Hub Worktree Agent_Config Scheduler Failure
begin

section \<open>Tools that reach other agents and the scheduler\<close>

text \<open>
  \<open>crates/loopal-agent\<close>: the tools CronCreate, CronDelete and CronList (\<open>tools/cron.rs\<close>),
  AttemptCompletion (\<open>tools/completion.rs\<close>), Agent (\<open>tools/collaboration/agent.rs\<close>) and SendMessage
  (\<open>tools/collaboration/send_message.rs\<close>), with the requests to the hub (\<open>spawn.rs\<close>) and the context
  the agent's process gives them (\<open>shared.rs\<close>, \<open>loopal-agent-server/src/agent_setup.rs\<close>). The
  connection to the hub and git act on a world of any type; \<open>ask_hub\<close> is the connection whose
  other end is the loop of \<open>Agent_Hub\<close>. The printer of JSON and of times, identifiers, and the
  reading of the configuration files are arguments.
\<close>

type_synonym tool_outcome = "loopal_failure + tool_result"

abbreviation invalid :: "string \<Rightarrow> tool_outcome" where
  "invalid t \<equiv> Inl (Tool_failed (Tool_invalid_input t))"

subsection \<open>Scheduled jobs\<close>

fun cron_parse_text :: "cron_parse_error \<Rightarrow> string" where
  "cron_parse_text (InvalidFieldCount n) = ''expected 5 fields in cron expression, got '' @ nat_str n"
| "cron_parse_text (ParseFailed m) = ''invalid cron expression: '' @ m"
| "cron_parse_text NoOccurrence = ''expression has no occurrence within the task lifetime (3 days)''"

fun scheduler_text :: "scheduler_error \<Rightarrow> string" where
  "scheduler_text (InvalidCron e) = cron_parse_text e"
| "scheduler_text (TooManyTasks n) = ''maximum number of scheduled tasks ('' @ nat_str n @ '') reached''"

definition DQ :: char where "DQ = CHR 0x22"

text \<open>\<open>None\<close>: the random draws given do not yield a new identifier.\<close>

definition cron_create_tool ::
  "(string \<Rightarrow> string + string) \<Rightarrow> next_occurrence \<Rightarrow> int \<Rightarrow> string list \<Rightarrow> json \<Rightarrow> scheduled_task list \<Rightarrow>
     (tool_outcome \<times> scheduled_task list) option" where
  "cron_create_tool parse nxt now draws input tasks =
     (case as_str (jindex input ''cron'') of
        None \<Rightarrow> Some (invalid ''cron is required'', tasks)
      | Some expr \<Rightarrow>
          (case as_str (jindex input ''prompt'') of
             None \<Rightarrow> Some (invalid ''prompt is required'', tasks)
           | Some p \<Rightarrow>
               if 4096 < length p then Some (Inr (tool_error ''prompt exceeds 4096 character limit''), tasks)
               else if p = [] then Some (Inr (tool_error ''prompt cannot be empty''), tasks)
               else
                 let recurs = (case as_bool (jindex input ''recurring'') of Some b \<Rightarrow> b | None \<Rightarrow> True)
                 in map_option (\<lambda>(res, tasks).
                      (case res of
                         Inr i \<Rightarrow> Inr (tool_success (''Scheduled '' @ (if recurs then ''recurring'' else ''one-shot'')
                                    @ '' job '' @ i @ '' with cron '' @ [DQ] @ expr @ [DQ]))
                       | Inl e \<Rightarrow> Inr (tool_error (scheduler_text e)), tasks))
                      (add_task parse nxt now draws expr p recurs tasks)))"

definition cron_delete_tool :: "json \<Rightarrow> scheduled_task list \<Rightarrow> tool_outcome \<times> scheduled_task list" where
  "cron_delete_tool input tasks =
     (case as_str (jindex input ''id'') of
        None \<Rightarrow> (invalid ''id is required'', tasks)
      | Some i \<Rightarrow>
          (case remove_task i tasks of
             (True, tasks) \<Rightarrow> (Inr (tool_success (''Cancelled job '' @ i)), tasks)
           | (False, tasks) \<Rightarrow> (Inr (tool_error (''No job found with id '' @ i)), tasks)))"

definition job_json :: "(int \<Rightarrow> string) \<Rightarrow> cron_job_info \<Rightarrow> json" where
  "job_json time_text j =
     JObj [(''id'', JStr (job_id j)), (''cron_expr'', JStr (cron_expr j)), (''prompt'', JStr (job_prompt j)),
           (''recurring'', JBool (job_recurring j)), (''created_at'', JStr (time_text (job_created_at j))),
           (''next_fire'', opt_json (map_option time_text (next_fire j)))]"

definition cron_list_tool ::
  "(json \<Rightarrow> string) \<Rightarrow> (int \<Rightarrow> string) \<Rightarrow> next_occurrence \<Rightarrow> int \<Rightarrow> scheduled_task list \<Rightarrow> tool_outcome" where
  "cron_list_tool pretty time_text nxt now tasks =
     (let jobs = list_tasks nxt now tasks
      in Inr (tool_success (if jobs = [] then ''No scheduled jobs.''
                            else pretty (JArr (map (job_json time_text) jobs)))))"

subsection \<open>Completion\<close>

definition attempt_completion_tool :: "json \<Rightarrow> tool_outcome" where
  "attempt_completion_tool input =
     Inr (tool_completion (case get_str input ''result'' of Some t \<Rightarrow> t | None \<Rightarrow> ''Task completed.''))"

subsection \<open>The context of an agent\<close>

record 'w agent_shared =
  depth :: nat
  max_depth :: nat
  shared_cwd :: string
  own_name :: string
  settings_model :: string
  settings_mode :: permission_mode
  hub_ask :: "string \<Rightarrow> json \<Rightarrow> 'w \<Rightarrow> (string + json) \<times> 'w"
  git_ops :: "'w git_env"
  agent_files :: "(string \<times> string option) list option \<times> (string \<times> string option) list option"

text \<open>What every agent process builds for its tools.\<close>

definition process_shared ::
  "string \<Rightarrow> string \<Rightarrow> permission_mode \<Rightarrow> (string \<Rightarrow> json \<Rightarrow> 'w \<Rightarrow> (string + json) \<times> 'w) \<Rightarrow> 'w git_env \<Rightarrow>
     (string \<times> string option) list option \<times> (string \<times> string option) list option \<Rightarrow> 'w agent_shared" where
  "process_shared cwd m mode hub_conn E files =
     \<lparr>depth = 0, max_depth = 3, shared_cwd = cwd, own_name = ''main'', settings_model = m,
      settings_mode = mode, hub_ask = hub_conn, git_ops = E, agent_files = files\<rparr>"

subsection \<open>Requests to the hub\<close>

record spawn_params =
  sp_name :: string
  sp_prompt :: string
  sp_model :: "string option"
  sp_cwd :: "string option"
  sp_mode :: "string option"

definition spawn_agent :: "'w agent_shared \<Rightarrow> spawn_params \<Rightarrow> 'w \<Rightarrow> (string + string) \<times> 'w" where
  "spawn_agent sh p w =
     (case hub_ask sh ''hub/spawn_agent''
             (JObj [(''name'', JStr (sp_name p)),
                    (''cwd'', JStr (case sp_cwd p of Some d \<Rightarrow> d | None \<Rightarrow> shared_cwd sh)),
                    (''model'', opt_json (sp_model p)), (''prompt'', JStr (sp_prompt p)),
                    (''permission_mode'', opt_json (sp_mode p))]) w of
        (Inl e, w) \<Rightarrow> (Inl (''hub/spawn_agent failed: '' @ e), w)
      | (Inr v, w) \<Rightarrow>
          (Inr (case as_str (jindex v ''agent_id'') of Some i \<Rightarrow> i | None \<Rightarrow> ''unknown''), w))"

definition wait_agent :: "'w agent_shared \<Rightarrow> string \<Rightarrow> 'w \<Rightarrow> (string + string) \<times> 'w" where
  "wait_agent sh n w =
     (case hub_ask sh ''hub/wait_agent'' (JObj [(''name'', JStr n)]) w of
        (Inl e, w) \<Rightarrow> (Inl (''hub/wait_agent failed: '' @ e), w)
      | (Inr v, w) \<Rightarrow>
          (Inr (case as_str (jindex v ''output'') of Some t \<Rightarrow> t | None \<Rightarrow> ''(no output)''), w))"

subsection \<open>The tool Agent\<close>

definition need_str :: "json \<Rightarrow> string \<Rightarrow> loopal_failure + string" where
  "need_str input k =
     (case get_str input k of
        Some t \<Rightarrow> Inr t
      | None \<Rightarrow> Inl (Tool_failed (Tool_invalid_input (''missing '' @ in_quotes k))))"

definition create_agent_worktree ::
  "'w git_env \<Rightarrow> string \<Rightarrow> string \<Rightarrow> string \<Rightarrow> 'w \<Rightarrow> (loopal_failure + worktree_info \<times> string) \<times> 'w" where
  "create_agent_worktree E cwd n uid w =
     (case repo_root E cwd w of
        (None, w) \<Rightarrow> (Inl (Other ''Not a git repository''), w)
      | (Some root, w) \<Rightarrow>
          (case create_worktree E root (''agent-'' @ n @ ''-'' @ uid) w of
             (Inl e, w) \<Rightarrow> (Inl (Other (''worktree: '' @ git_error_text e)), w)
           | (Inr i, w) \<Rightarrow> (Inr (i, root), w)))"

fun agent_mode_name :: "permission_mode \<Rightarrow> string" where
  "agent_mode_name Bypass = ''bypass''"
| "agent_mode_name Supervised_mode = ''supervised''"
| "agent_mode_name Auto = ''auto''"

definition cleanup_after :: "'w agent_shared \<Rightarrow> (worktree_info \<times> string) option \<Rightarrow> 'w \<Rightarrow> 'w" where
  "cleanup_after sh wt w =
     (case wt of None \<Rightarrow> w | Some (i, root) \<Rightarrow> snd (cleanup_if_clean (git_ops sh) root i w))"

text \<open>What goes on in the background: the wait for the agent, then the cleanup of its worktree.\<close>

definition background_cleanup :: "'w agent_shared \<Rightarrow> string \<Rightarrow> worktree_info \<times> string \<Rightarrow> 'w \<Rightarrow> 'w" where
  "background_cleanup sh n wt w = cleanup_after sh (Some wt) (snd (wait_agent sh n w))"

text \<open>Of the configuration of a type of agent only the model is used.\<close>

definition chosen_model :: "'w agent_shared \<Rightarrow> json \<Rightarrow> string" where
  "chosen_model sh input =
     (let config = (case Option.bind (get_str input ''subagent_type'')
                          (load_agent_configs (fst (agent_files sh)) (snd (agent_files sh))) of
                     Some c \<Rightarrow> c | None \<Rightarrow> agent_config_default);
          config = (case get_str input ''model'' of Some m \<Rightarrow> config\<lparr>cfg_model := Some m\<rparr> | None \<Rightarrow> config)
      in case cfg_model config of Some m \<Rightarrow> m | None \<Rightarrow> settings_model sh)"

text \<open>
  The result, and the background task that is started. \<open>uid\<close> is the random part of a name that is
  not given, \<open>wt_uid\<close> that of a worktree.
\<close>

definition action_spawn ::
  "string \<Rightarrow> string \<Rightarrow> 'w agent_shared \<Rightarrow> json \<Rightarrow> 'w \<Rightarrow>
     (tool_outcome \<times> (string \<times> worktree_info \<times> string) option) \<times> 'w" where
  "action_spawn uid wt_uid sh input w =
     (case need_str input ''prompt'' of
        Inl e \<Rightarrow> ((Inl e, None), w)
      | Inr prompt \<Rightarrow>
          let n = (case get_str input ''name'' of Some n \<Rightarrow> n | None \<Rightarrow> ''agent-'' @ uid);
              background = (case get_bool input ''run_in_background'' of Some b \<Rightarrow> b | None \<Rightarrow> False)
          in if max_depth sh \<le> depth sh
             then ((Inr (tool_error (''Maximum nesting depth ('' @ nat_str (max_depth sh) @ '') reached'')), None), w)
             else
               case (if get_str input ''isolation'' = Some ''worktree''
                        then (case create_agent_worktree (git_ops sh) (shared_cwd sh) n wt_uid w of
                                (Inl e, w) \<Rightarrow> (Inl e, w) | (Inr wt, w) \<Rightarrow> (Inr (Some wt), w))
                        else (Inr None, w)) of
                    (Inl e, w) \<Rightarrow> ((Inl e, None), w)
                  | (Inr wt, w) \<Rightarrow>
                      (case spawn_agent sh
                              \<lparr>sp_name = n, sp_prompt = prompt,
                               sp_model = Some (chosen_model sh input),
                               sp_cwd = map_option (wt_path \<circ> fst) wt,
                               sp_mode = Some (agent_mode_name (settings_mode sh))\<rparr> w of
                         (Inl e, w) \<Rightarrow>
                           ((Inr (tool_error (''Failed to spawn agent: '' @ e)), None), cleanup_after sh wt w)
                       | (Inr i, w) \<Rightarrow>
                           if background
                           then ((Inr (tool_success (''Agent '' @ in_quotes n @ '' spawned in background.'' @ [NL]
                                    @ ''agentId: '' @ i)), map_option (Pair n) wt), w)
                           else (case wait_agent sh n w of
                                   (out, w) \<Rightarrow>
                                     ((Inr (case out of Inr t \<Rightarrow> tool_success t | Inl e \<Rightarrow> tool_error e), None),
                                      cleanup_after sh wt w))))"

definition action_result :: "'w agent_shared \<Rightarrow> json \<Rightarrow> 'w \<Rightarrow> tool_outcome \<times> 'w" where
  "action_result sh input w =
     (case need_str input ''name'' of
        Inl e \<Rightarrow> (Inl e, w)
      | Inr n \<Rightarrow>
          (case wait_agent sh n w of
             (Inr t, w) \<Rightarrow> (Inr (tool_success t), w)
           | (Inl e, w) \<Rightarrow> (Inr (tool_error e), w)))"

definition action_status :: "(json \<Rightarrow> string) \<Rightarrow> 'w agent_shared \<Rightarrow> json \<Rightarrow> 'w \<Rightarrow> tool_outcome \<times> 'w" where
  "action_status pretty sh input w =
     (case need_str input ''name'' of
        Inl e \<Rightarrow> (Inl e, w)
      | Inr n \<Rightarrow>
          (case hub_ask sh ''hub/agent_info'' (JObj [(''name'', JStr n)]) w of
             (Inr v, w) \<Rightarrow> (Inr (tool_success (pretty v)), w)
           | (Inl e, w) \<Rightarrow> (Inr (tool_error (''Agent '' @ in_quotes n @ '': '' @ e)), w)))"

definition agent_tool ::
  "(json \<Rightarrow> string) \<Rightarrow> string \<Rightarrow> string \<Rightarrow> 'w agent_shared \<Rightarrow> json \<Rightarrow> 'w \<Rightarrow>
     (tool_outcome \<times> (string \<times> worktree_info \<times> string) option) \<times> 'w" where
  "agent_tool pretty uid wt_uid sh input w =
     (let action = (case get_str input ''action'' of Some a \<Rightarrow> a | None \<Rightarrow> ''spawn'')
      in if action = ''spawn'' then action_spawn uid wt_uid sh input w
         else if action = ''result'' then apfst (\<lambda>x. (x, None)) (action_result sh input w)
         else if action = ''status'' then apfst (\<lambda>x. (x, None)) (action_status pretty sh input w)
         else ((Inr (tool_error (''Unknown action: '' @ in_quotes action)), None), w))"

subsection \<open>The tool SendMessage\<close>

definition send_message_tool :: "(envelope \<Rightarrow> json) \<Rightarrow> 'w agent_shared \<Rightarrow> json \<Rightarrow> 'w \<Rightarrow> tool_outcome \<times> 'w" where
  "send_message_tool env_json sh input w =
     (case as_str (jindex input ''to'') of
        None \<Rightarrow> (invalid (''missing '' @ in_quotes ''to''), w)
      | Some target \<Rightarrow>
          let t = (case as_str (jindex input ''message'') of Some t \<Rightarrow> t | None \<Rightarrow> '''');
              env = \<lparr>env_source = Agent (own_name sh), env_target = target, env_content = text_only t\<rparr>
          in case hub_ask sh ''hub/route'' (env_json env) w of
               (Inr _, w) \<Rightarrow> (Inr (tool_success (''Message sent to '' @ in_quotes target)), w)
             | (Inl e, w) \<Rightarrow> (Inr (tool_error (''Failed to send to '' @ in_quotes target @ '': '' @ e)), w))"

subsection \<open>The hub at the other end\<close>

text \<open>
  A request over the connection of the agent \<open>n\<close>, answered by the loop that reads it: an error
  response is a value like any other, as \<open>receive\<close> makes it. A wait is answered when it is over:
  \<open>later\<close> says in what state the hub then is.
\<close>

definition ask_hub ::
  "outside \<Rightarrow> (nat \<Rightarrow> agent_registry \<Rightarrow> agent_registry) \<Rightarrow> string \<Rightarrow> string \<Rightarrow> json \<Rightarrow> agent_registry \<Rightarrow>
     (string + json) \<times> agent_registry" where
  "ask_hub ob later n m params r =
     (case io_step ob (In_request 0 m params) (io_start n) r of
        (_, reps, _, r) \<Rightarrow>
          (case reps of
             [Reply i v] \<Rightarrow> (Inr (response_value (Some v) None), r)
           | [Reply_error i c t] \<Rightarrow>
               (Inr (response_value None (Some \<lparr>err_code = c, err_message = t, err_data = None\<rparr>)), r)
           | [Reply_when i k] \<Rightarrow>
               (case wait_answer (later k r) k True of
                  Some v \<Rightarrow> (Inr (response_value (Some v) None), later k r)
                | None \<Rightarrow> (Inl ''response channel dropped'', later k r))
           | _ \<Rightarrow> (Inl ''response channel dropped'', r)))"

subsection \<open>Asking the hub\<close>

lemma jindex_cons [simp]: "jindex (JObj ((k, v) # m)) q = (if q = k then v else jindex (JObj m) q)"
  by (simp add: jindex_def)

lemma ask_hub_error:
  assumes "dispatch_hub_request ob (''hub/'' @ m) params n r = (Inl t, s)"
  shows "ask_hub ob later n (''hub/'' @ m) params r
    = (Inr (JObj [(''code'', JInt INVALID_REQUEST), (''message'', JStr t)]), s)"
  using assms by (simp add: ask_hub_def io_start_def response_value_def error_object_def)

lemma ask_hub_answer:
  assumes "dispatch_hub_request ob (''hub/'' @ m) params n r = (Inr (Answer v), s)"
  shows "ask_hub ob later n (''hub/'' @ m) params r = (Inr v, s)"
  using assms by (simp add: ask_hub_def io_start_def response_value_def)

lemma ask_hub_wait:
  assumes "dispatch_hub_request ob (''hub/'' @ m) params n r = (Inr (Waiting k), s)"
    "wait_answer (later k s) k True = Some v"
  shows "ask_hub ob later n (''hub/'' @ m) params r = (Inr v, later k s)"
  using assms by (simp add: ask_hub_def io_start_def response_value_def)

lemma dispatch_wait: "dispatch_hub_request ob ''hub/wait_agent'' params n r = handle_wait_agent params r"
  by (simp add: dispatch_hub_request_def)

lemma dispatch_route:
  "dispatch_hub_request ob ''hub/route'' params n r = apfst (map_sum id Answer) (handle_route ob params r)"
  by (cases "handle_route ob params r") (simp add: dispatch_hub_request_def)

lemma dispatch_spawn:
  "dispatch_hub_request ob ''hub/spawn_agent'' params n r
     = apfst (map_sum id Answer) (handle_spawn_agent ob params n r)"
  by (cases "handle_spawn_agent ob params n r") (simp add: dispatch_hub_request_def)

text \<open>
  The result of an agent is what the agent said: asking for it over the hub while the agent
  runs gives the tool the output with which the agent ends, whatever else happens in the hub in
  between, unless someone else waits for it or it is removed.
\<close>

theorem result_is_agents_output:
  assumes "hub_ask sh = ask_hub ob (\<lambda>k r. agent_exit n (Some out) (run_ops hub_step es r)) me"
    and "r = run_ops hub_step es0 (agent_registry_new room)"
    and "get_agent_connection r n \<noteq> None" "map_of (finished_outputs r) n = None"
    and "\<forall>e\<in>set es. \<not> touches_wait n e"
  shows "fst (action_result sh (JObj [(''name'', JStr n)]) r) = Inr (tool_success out)"
proof -
  let ?p = "JObj [(''name'', JStr n)]"
  have name: "as_str (jindex ?p ''name'') = Some n" by simp
  obtain k s where w: "watch_completion n r = (k, s)" by (cases "watch_completion n r")
  have ok: "hub_ok r" unfolding assms(2) by (rule hub.inv_reached)
  have "member r n \<noteq> None" using assms(3) by (cases "member r n") (simp_all add: get_agent_connection_def)
  then have "watches s ! k = Watching" using watch_completion_props[OF hub_ok_watch[OF ok] _ w] by blast
  then have h: "handle_wait_agent ?p r = (Inr (Waiting k), s)"
    using assms(3,4) w by (simp add: handle_wait_agent_def)
  then have open_wait: "hub_ok s" "map_of (completions s) n = Some k"
    using wait_opens[OF ok _ name] by auto
  let ?e = "run_ops hub_step es s"
  have "hub_ok ?e" "map_of (completions ?e) n = Some k"
    using open_wait assms(5) by (auto simp: wait_kept_run intro: hub.inv_run)
  then have "wait_answer (agent_exit n (Some out) ?e) k True = Some (output_json out)"
    using exit_tells[of ?e n k "Some out"] by (simp add: wait_answer_def)
  then have "fst (hub_ask sh (''hub/'' @ ''wait_agent'') ?p r) = Inr (output_json out)"
    unfolding assms(1) using ask_hub_wait[of ob "''wait_agent''" ?p me r k s] h by (simp add: dispatch_wait)
  then obtain t where "hub_ask sh ''hub/wait_agent'' ?p r = (Inr (output_json out), t)"
    by (cases "hub_ask sh ''hub/wait_agent'' ?p r") auto
  then show ?thesis
    by (simp add: action_result_def need_str_def wait_agent_def output_json_def)
qed

definition plain_outside :: outside where
  "plain_outside =
     \<lparr>ask = (\<lambda>c m v. Inr JNull), launch = (\<lambda>n d m p q. Inr (7, ''session'')), fresh_id = ''id'',
      read_envelope = (\<lambda>v. Inl ''unreadable''), envelope_json = (\<lambda>e. JNull), read_event = (\<lambda>v. None),
      debug_text = (\<lambda>t. t)\<rparr>"

definition idle_git :: "'w git_env" where
  "idle_git =
     \<lparr>git = (\<lambda>args dir w. (Inl Missing_program, w)), path_exists = (\<lambda>w p. False), is_directory = (\<lambda>w p. False),
      make_dirs = (\<lambda>p w. (None, w)), read_text = (\<lambda>w p. None), append_text = (\<lambda>p t w. w),
      real_path = (\<lambda>w p. None), dir_entries = (\<lambda>w p. None), remove_tree = (\<lambda>p w. w)\<rparr>"

definition main_shared :: "(nat \<Rightarrow> agent_registry \<Rightarrow> agent_registry) \<Rightarrow> agent_registry agent_shared" where
  "main_shared later =
     process_shared ''/work'' ''m'' Supervised_mode (ask_hub plain_outside later ''main'') idle_git (None, None)"

definition main_and_child :: agent_registry where
  "main_and_child = run_ops hub_step hub_sample (agent_registry_new 9)"

theorem result_is_agents_output_witness:
  "fst (action_result (main_shared (\<lambda>k r. agent_exit ''child'' (Some ''done'') (run_ops hub_step [Op_interrupt ''main''] r)))
     (JObj [(''name'', JStr ''child'')]) main_and_child) = Inr (tool_success ''done'')"
proof (rule result_is_agents_output[OF _ main_and_child_def])
  show "hub_ask (main_shared (\<lambda>k r. agent_exit ''child'' (Some ''done'') (run_ops hub_step [Op_interrupt ''main''] r)))
      = ask_hub plain_outside (\<lambda>k r. agent_exit ''child'' (Some ''done'') (run_ops hub_step [Op_interrupt ''main''] r)) ''main''"
    by (simp add: main_shared_def process_shared_def)
  show "get_agent_connection main_and_child ''child'' \<noteq> None" by code_simp
  show "map_of (finished_outputs main_and_child) ''child'' = None" by code_simp
qed simp

subsection \<open>Spawning through the hub\<close>

lemma register_new_agent:
  assumes "member r n = None"
    "register_agent_connection ob n c (Some me) m sid r = (i, s)"
  shows "i = outside.fresh_id ob
    \<and> map_option (\<lambda>a. (link a, info_parent (info a), info_lifecycle (info a))) (member s n)
        = Some (Connected c, Some me, At_work)
    \<and> (me \<noteq> n \<longrightarrow> member r me \<noteq> None \<longrightarrow> n \<in> set (children_of (members s) me))"
  using assms
  by (auto simp: register_agent_connection_def register_connection_with_parent_def Let_def try_send_def
      set_lifecycle_def update_conv' agent_info_new_def children_of_def split: option.splits if_splits)

text \<open>
  An agent that is spawned in the background runs as a child of the agent that spawned it:
  its process is started with the permission mode of its parent, and once the tool has answered, the
  hub has it registered, connected and at work below its parent, under the identifier in the answer.
\<close>

theorem background_spawn_registers:
  assumes "hub_ask sh = ask_hub ob later me" "depth sh < max_depth sh"
    and "get_str input ''prompt'' = Some p" "get_str input ''name'' = Some n"
    and "get_bool input ''run_in_background'' = Some True" "get_str input ''isolation'' = None"
    and "launch ob n (shared_cwd sh) (Some (chosen_model sh input)) (Some p)
          (Some (agent_mode_name (settings_mode sh))) = Inr (c, sid)"
    and "member r n = None" "member r me \<noteq> None"
  shows "\<exists>s. action_spawn uid wt_uid sh input r
        = ((Inr (tool_success (''Agent '' @ in_quotes n @ '' spawned in background.'' @ [NL]
              @ ''agentId: '' @ outside.fresh_id ob)), None), s)
     \<and> map_option (\<lambda>a. (link a, info_parent (info a), info_lifecycle (info a))) (member s n)
        = Some (Connected c, Some me, At_work)
     \<and> n \<in> set (children_of (members s) me)"
proof -
  obtain i s where reg: "register_agent_connection ob n c (Some me) (Some (chosen_model sh input)) (Some sid) r = (i, s)"
    by fastforce
  have me: "me \<noteq> n" using assms(8,9) by auto
  let ?p = "JObj [(''name'', JStr n), (''cwd'', JStr (shared_cwd sh)),
      (''model'', JStr (chosen_model sh input)), (''prompt'', JStr p),
      (''permission_mode'', JStr (agent_mode_name (settings_mode sh)))]"
  have "handle_spawn_agent ob ?p me r = (Inr (JObj [(''agent_id'', JStr i), (''name'', JStr n)]), s)"
    using assms(7) reg by (simp add: handle_spawn_agent_def spawn_and_register_def)
  then have "hub_ask sh (''hub/'' @ ''spawn_agent'') ?p r
      = (Inr (JObj [(''agent_id'', JStr i), (''name'', JStr n)]), s)"
    unfolding assms(1) by (intro ask_hub_answer) (simp add: dispatch_spawn)
  then have "action_spawn uid wt_uid sh input r
      = ((Inr (tool_success (''Agent '' @ in_quotes n @ '' spawned in background.'' @ [NL]
            @ ''agentId: '' @ i)), None), s)"
    using assms(2-6) by (simp add: action_spawn_def need_str_def spawn_agent_def)
  with register_new_agent[OF assms(8) reg] me assms(9) show ?thesis by auto
qed

definition spawn_input :: json where
  "spawn_input = JObj [(''prompt'', JStr ''look''), (''name'', JStr ''helper''), (''run_in_background'', JBool True)]"

lemma main_and_child_names:
  "member main_and_child ''helper'' = None" "member main_and_child ''main'' \<noteq> None"
proof -
  have "map fst (members main_and_child) = [''main'', ''child'']" by code_simp
  then have "fst ` set (members main_and_child) = {''main'', ''child''}"
    by (metis list.set(1,2) set_map)
  then show "member main_and_child ''helper'' = None" "member main_and_child ''main'' \<noteq> None"
    by (auto simp add: map_of_eq_None_iff simp del: not_None_eq)
qed

theorem background_spawn_registers_witness:
  "\<exists>s. action_spawn ''u'' ''v'' (main_shared (\<lambda>k r. r)) spawn_input main_and_child
        = ((Inr (tool_success (''Agent '' @ in_quotes ''helper'' @ '' spawned in background.'' @ [NL]
              @ ''agentId: id'')), None), s)
     \<and> ''helper'' \<in> set (children_of (members s) ''main'')"
proof -
  have "\<exists>s. action_spawn ''u'' ''v'' (main_shared (\<lambda>k r. r)) spawn_input main_and_child
        = ((Inr (tool_success (''Agent '' @ in_quotes ''helper'' @ '' spawned in background.'' @ [NL]
              @ ''agentId: '' @ outside.fresh_id plain_outside)), None), s)
     \<and> map_option (\<lambda>a. (link a, info_parent (info a), info_lifecycle (info a))) (member s ''helper'')
        = Some (Connected 7, Some ''main'', At_work)
     \<and> ''helper'' \<in> set (children_of (members s) ''main'')"
    by (rule background_spawn_registers[where later = "\<lambda>k r. r" and p = "''look''" and sid = "''session''"])
      (simp_all add: main_shared_def process_shared_def spawn_input_def get_bool_def plain_outside_def
        main_and_child_names[simplified])
  then obtain s where s: "action_spawn ''u'' ''v'' (main_shared (\<lambda>k r. r)) spawn_input main_and_child
        = ((Inr (tool_success (''Agent '' @ in_quotes ''helper'' @ '' spawned in background.'' @ [NL]
              @ ''agentId: '' @ outside.fresh_id plain_outside)), None), s)"
      "''helper'' \<in> set (children_of (members s) ''main'')" by blast
  have "outside.fresh_id plain_outside = ''id''" by (simp add: plain_outside_def)
  then show ?thesis using s by (intro exI[of _ s]) simp
qed

subsection \<open>What is reported as done\<close>

text \<open>
  An error response of the hub is taken for a success: a message to an agent that does not exist
  is reported as sent, and a sub-agent whose process cannot be started as spawned.
\<close>

theorem refused_request_reported_done:
  assumes "hub_ask sh = ask_hub ob later me"
  shows "read_envelope ob (env_json \<lparr>env_source = Agent (own_name sh), env_target = target, env_content = text_only t\<rparr>)
          = Inr e \<Longrightarrow> get_agent_connection r (env_target e) = None \<Longrightarrow>
         send_message_tool env_json sh (JObj [(''to'', JStr target), (''message'', JStr t)]) r
          = (Inr (tool_success (''Message sent to '' @ in_quotes target)), r)"
    and "launch ob n (shared_cwd sh) (Some (chosen_model sh input)) (Some p)
          (Some (agent_mode_name (settings_mode sh))) = Inl x \<Longrightarrow>
         spawn_agent sh \<lparr>sp_name = n, sp_prompt = p, sp_model = Some (chosen_model sh input), sp_cwd = None,
             sp_mode = Some (agent_mode_name (settings_mode sh))\<rparr> r = (Inr ''unknown'', r)"
proof -
  let ?v = "env_json \<lparr>env_source = Agent (own_name sh), env_target = target, env_content = text_only t\<rparr>"
  assume "read_envelope ob ?v = Inr e" "get_agent_connection r (env_target e) = None"
  then have "handle_route ob ?v r = (Inl (''no agent registered: '' @ quoted (env_target e)), r)"
    by (simp add: handle_route_def)
  then have "\<exists>v. hub_ask sh (''hub/'' @ ''route'') ?v r = (Inr v, r)"
    unfolding assms using ask_hub_error[of ob "''route''" ?v me r] by (simp add: dispatch_route)
  then show "send_message_tool env_json sh (JObj [(''to'', JStr target), (''message'', JStr t)]) r
      = (Inr (tool_success (''Message sent to '' @ in_quotes target)), r)"
    by (auto simp: send_message_tool_def Let_def)
next
  let ?p = "JObj [(''name'', JStr n), (''cwd'', JStr (shared_cwd sh)),
      (''model'', JStr (chosen_model sh input)), (''prompt'', JStr p),
      (''permission_mode'', JStr (agent_mode_name (settings_mode sh)))]"
  assume "launch ob n (shared_cwd sh) (Some (chosen_model sh input)) (Some p)
      (Some (agent_mode_name (settings_mode sh))) = Inl x"
  then have "handle_spawn_agent ob ?p me r = (Inl (''spawn failed: '' @ x), r)"
    by (simp add: handle_spawn_agent_def spawn_and_register_def)
  then have "hub_ask sh (''hub/'' @ ''spawn_agent'') ?p r
      = (Inr (JObj [(''code'', JInt INVALID_REQUEST), (''message'', JStr (''spawn failed: '' @ x))]), r)"
    unfolding assms by (intro ask_hub_error) (simp add: dispatch_spawn)
  then show "spawn_agent sh \<lparr>sp_name = n, sp_prompt = p, sp_model = Some (chosen_model sh input), sp_cwd = None,
      sp_mode = Some (agent_mode_name (settings_mode sh))\<rparr> r = (Inr ''unknown'', r)"
    by (simp add: spawn_agent_def jindex_def)
qed

definition route_outside :: outside where
  "route_outside = plain_outside\<lparr>launch := (\<lambda>n d m p q. Inl ''no program''),
     read_envelope := (\<lambda>v. Inr \<lparr>env_source = Agent ''main'', env_target = ''nobody'', env_content = text_only ''hi''\<rparr>)\<rparr>"

definition lonely_shared :: "agent_registry agent_shared" where
  "lonely_shared =
     process_shared ''/work'' ''m'' Bypass (ask_hub route_outside (\<lambda>k r. r) ''main'') idle_git (None, None)"

theorem refused_request_reported_done_witness:
  "fst (send_message_tool (\<lambda>e. JNull) lonely_shared (JObj [(''to'', JStr ''nobody''), (''message'', JStr ''hi'')])
      (agent_registry_new 1)) = Inr (tool_success (''Message sent to '' @ in_quotes ''nobody''))
   \<and> fst (spawn_agent lonely_shared \<lparr>sp_name = ''x'', sp_prompt = ''p'',
        sp_model = Some (chosen_model lonely_shared (JObj [])), sp_cwd = None,
        sp_mode = Some (agent_mode_name (settings_mode lonely_shared))\<rparr> (agent_registry_new 1)) = Inr ''unknown''"
proof -
  have h: "hub_ask lonely_shared = ask_hub route_outside (\<lambda>k r. r) ''main''"
    by (simp add: lonely_shared_def process_shared_def)
  show ?thesis
    using refused_request_reported_done(1)[OF h, of "\<lambda>e. JNull" "''nobody''" "''hi''" _ "agent_registry_new 1"]
      refused_request_reported_done(2)[OF h, of "''x''" "JObj []" "''p''" "''no program''" "agent_registry_new 1"]
    by (simp add: route_outside_def agent_registry_new_def get_agent_connection_def)
qed

text \<open>Every agent process begins at depth zero: the limit of the nesting is never reached.\<close>

lemma depth_never_limits:
  "depth (process_shared cwd m mode h E files) < max_depth (process_shared cwd m mode h E files)"
  by (simp add: process_shared_def)

text \<open>The prompt, the mode and the tools of a type of agent have no effect.\<close>

lemma only_model_configured:
  assumes "chosen_model (sh\<lparr>agent_files := files\<rparr>) input = chosen_model sh input"
  shows "action_spawn uid wt_uid (sh\<lparr>agent_files := files\<rparr>) input w = action_spawn uid wt_uid sh input w"
proof -
  have "spawn_agent (sh\<lparr>agent_files := files\<rparr>) = spawn_agent sh" "wait_agent (sh\<lparr>agent_files := files\<rparr>) = wait_agent sh"
    "cleanup_after (sh\<lparr>agent_files := files\<rparr>) = cleanup_after sh"
    by (simp_all add: spawn_agent_def wait_agent_def cleanup_after_def fun_eq_iff cong: option.case_cong)
  moreover have "depth (sh\<lparr>agent_files := files\<rparr>) = depth sh" "max_depth (sh\<lparr>agent_files := files\<rparr>) = max_depth sh"
    "git_ops (sh\<lparr>agent_files := files\<rparr>) = git_ops sh" "shared_cwd (sh\<lparr>agent_files := files\<rparr>) = shared_cwd sh"
    "settings_mode (sh\<lparr>agent_files := files\<rparr>) = settings_mode sh" by simp_all
  ultimately show ?thesis by (simp only: action_spawn_def assms)
qed

text \<open>Messages of every agent name the root agent as their sender.\<close>

lemma sender_is_main: "own_name (process_shared cwd m mode h E files) = ''main''"
  by (simp add: process_shared_def)

subsection \<open>Jobs\<close>

lemma add_task_cases:
  assumes "add_task parse nxt now draws expr p recurs tasks = Some (res, tasks')"
  shows "(\<exists>e. res = Inl e \<and> tasks' = tasks) \<or>
    (\<exists>i t. res = Inr i \<and> tasks' = tasks @ [t] \<and> task_prompt t = p \<and> raw_expr (cron t) = expr
       \<and> length tasks < MAX_TASKS \<and> task_id t \<notin> task_id ` set tasks)"
proof (cases "parse_at parse nxt expr now")
  case (Inl e)
  with assms show ?thesis by (auto simp: add_task_def)
next
  case (Inr c)
  have raw: "raw_expr c = expr"
    using Inr by (auto simp: parse_at_def Let_def split: if_splits sum.splits)
  show ?thesis
  proof (cases "MAX_TASKS \<le> length tasks")
    case True
    with assms Inr show ?thesis by (auto simp: add_task_def)
  next
    case False
    with assms Inr obtain i where i: "Scheduler.fresh_id draws tasks = Some i" "res = Inr i"
      "tasks' = tasks @ [\<lparr>task_id = i, cron = c, task_prompt = p, recurring = recurs, created_at = now,
         last_fired = None\<rparr>]"
      by (auto simp: add_task_def)
    have "Scheduler.fresh_id ds ts = Some i \<Longrightarrow> i \<notin> task_id ` set ts" for ds ts
      by (induction ds ts rule: Scheduler.fresh_id.induct) (auto simp: list_ex_iff split: if_splits)
    with i raw False show ?thesis by auto
  qed
qed

text \<open>
  Creating a job by the tool adds exactly one at the end, with the expression and a prompt that
  is neither empty nor longer than 4096 bytes, or changes nothing and says why.
\<close>

theorem cron_tool_adds_one:
  assumes "cron_create_tool parse nxt now draws input tasks = Some (res, tasks')"
  shows "tasks' = tasks \<and> (isl res \<or> result_error (projr res))
    \<or> (\<exists>t. tasks' = tasks @ [t] \<and> as_str (jindex input ''prompt'') = Some (task_prompt t)
         \<and> as_str (jindex input ''cron'') = Some (raw_expr (cron t))
         \<and> 0 < length (task_prompt t) \<and> length (task_prompt t) \<le> 4096 \<and> length tasks < MAX_TASKS
         \<and> task_id t \<notin> task_id ` set tasks \<and> \<not> isl res \<and> \<not> result_error (projr res))"
proof (cases "as_str (jindex input ''cron'')")
  case None
  with assms show ?thesis by (auto simp: cron_create_tool_def)
next
  case (Some expr)
  note e = this
  show ?thesis
  proof (cases "as_str (jindex input ''prompt'')")
    case None
    with assms e show ?thesis by (auto simp: cron_create_tool_def)
  next
    case (Some p)
    consider "4096 < length p" | "p = []" | "0 < length p" "length p \<le> 4096" by fastforce
    then show ?thesis
    proof cases
      case 3
      then obtain r recurs where "add_task parse nxt now draws expr p recurs tasks = Some (r, tasks')"
        and res: "res = (case r of
            Inr i \<Rightarrow> Inr (tool_success (''Scheduled '' @ (if recurs then ''recurring'' else ''one-shot'')
                       @ '' job '' @ i @ '' with cron '' @ [DQ] @ expr @ [DQ]))
          | Inl e \<Rightarrow> Inr (tool_error (scheduler_text e)))"
        using assms e Some by (auto simp: cron_create_tool_def Let_def)
      from add_task_cases[OF this(1)] show ?thesis
        using 3 e Some res by (auto simp: tool_error_def tool_success_def)
    qed (use assms e Some in \<open>auto simp: cron_create_tool_def tool_error_def\<close>)
  qed
qed


definition job_input :: json where
  "job_input = JObj [(''cron'', JStr ''* * * * *''), (''prompt'', JStr ''go'')]"

definition job_created :: "tool_outcome \<times> scheduled_task list" where
  "job_created = the (cron_create_tool (\<lambda>s. Inr s) (\<lambda>s t. Some (t + 1)) 0 [''id''] job_input [])"

theorem cron_tool_adds_one_witness:
  "\<exists>t. snd job_created = [t] \<and> task_prompt t = ''go'' \<and> task_id t \<notin> task_id ` set ([] :: scheduled_task list)"
proof -
  have made: "cron_create_tool (\<lambda>s. Inr s) (\<lambda>s t. Some (t + 1)) 0 [''id''] job_input [] = Some (fst job_created, snd job_created)"
  proof -
    have "\<not> Option.is_none (cron_create_tool (\<lambda>s. Inr s) (\<lambda>s t. Some (t + 1)) 0 [''id''] job_input [])"
      by code_simp
    then show ?thesis by (cases "cron_create_tool (\<lambda>s. Inr s) (\<lambda>s t. Some (t + 1)) 0 [''id''] job_input []") (simp_all add: job_created_def)
  qed
  have "snd job_created \<noteq> []" by code_simp
  with cron_tool_adds_one[OF made] show ?thesis by (auto simp: job_input_def)
qed

end
