(* ===== verification/Task_Store.thy ===== *)
theory Task_Store
  imports Tool_Api Prelude
begin

section \<open>The task list of an agent\<close>

text \<open>
  \<open>crates/loopal-agent\<close>: tasks and their status (\<open>types.rs\<close>), the store with its file
  (\<open>task_store.rs\<close>), and the tools TaskCreate, TaskUpdate, TaskList and TaskGet (\<open>tools/task.rs\<close>).
  The mutex makes each operation one step. Printing and parsing JSON (\<open>render\<close>, \<open>parse\<close>) and the
  clock are arguments; how a task becomes JSON and back is what the derived instances do. Each
  write of the file may fail and may then leave anything behind.
\<close>

subsection \<open>Tasks\<close>

datatype task_status = Task_pending | Task_in_progress | Task_completed | Task_deleted

fun status_name :: "task_status \<Rightarrow> string" where
  "status_name Task_pending = ''pending''"
| "status_name Task_in_progress = ''in_progress''"
| "status_name Task_completed = ''completed''"
| "status_name Task_deleted = ''deleted''"

definition parse_status :: "string \<Rightarrow> task_status option" where
  "parse_status t =
     (if t = ''pending'' then Some Task_pending
      else if t = ''in_progress'' then Some Task_in_progress
      else if t = ''completed'' then Some Task_completed
      else if t = ''deleted'' then Some Task_deleted
      else None)"

record task =
  tk_id :: string
  tk_subject :: string
  tk_description :: string
  active_form :: "string option"
  tk_status :: task_status
  tk_owner :: "string option"
  blocked_by :: "string list"
  tk_blocks :: "string list"
  tk_metadata :: json
  tk_created :: string

fun opt_text :: "string option \<Rightarrow> json" where
  "opt_text (Some t) = JStr t"
| "opt_text None = JNull"

definition task_json :: "task \<Rightarrow> json" where
  "task_json t =
     JObj [(''id'', JStr (tk_id t)), (''subject'', JStr (tk_subject t)),
           (''description'', JStr (tk_description t)), (''active_form'', opt_text (active_form t)),
           (''status'', JStr (status_name (tk_status t))), (''owner'', opt_text (tk_owner t)),
           (''blocked_by'', JArr (map JStr (blocked_by t))), (''blocks'', JArr (map JStr (tk_blocks t))),
           (''metadata'', tk_metadata t), (''created_at'', JStr (tk_created t))]"

text \<open>A missing optional field is absent; any other field must be there and have its type.\<close>

fun read_opt_text :: "json option \<Rightarrow> string option option" where
  "read_opt_text None = Some None"
| "read_opt_text (Some JNull) = Some None"
| "read_opt_text (Some (JStr t)) = Some (Some t)"
| "read_opt_text _ = None"

definition read_texts :: "json \<Rightarrow> string list option" where
  "read_texts v = Option.bind (as_array v) (\<lambda>vs. those (map as_str vs))"

definition read_task :: "json \<Rightarrow> task option" where
  "read_task v =
     (if as_object v = None then None else
      Option.bind (get_str v ''id'') (\<lambda>i.
      Option.bind (get_str v ''subject'') (\<lambda>s.
      Option.bind (get_str v ''description'') (\<lambda>d.
      Option.bind (read_opt_text (jget v ''active_form'')) (\<lambda>af.
      Option.bind (Option.bind (get_str v ''status'') parse_status) (\<lambda>st.
      Option.bind (read_opt_text (jget v ''owner'')) (\<lambda>ow.
      Option.bind (Option.bind (jget v ''blocked_by'') read_texts) (\<lambda>bb.
      Option.bind (Option.bind (jget v ''blocks'') read_texts) (\<lambda>bs.
      Option.bind (get_str v ''created_at'') (\<lambda>cr.
        Some \<lparr>tk_id = i, tk_subject = s, tk_description = d, active_form = af, tk_status = st,
              tk_owner = ow, blocked_by = bb, tk_blocks = bs, tk_metadata = jindex v ''metadata'',
              tk_created = cr\<rparr>))))))))))"

definition read_tasks :: "json \<Rightarrow> task list option" where
  "read_tasks v = Option.bind (as_array v) (\<lambda>vs. those (map read_task vs))"

subsection \<open>Patches\<close>

text \<open>An owner that is given may be none: it is then removed.\<close>

record task_patch =
  new_status :: "task_status option"
  new_subject :: "string option"
  new_description :: "string option"
  new_active_form :: "string option"
  new_owner :: "string option option"
  add_blocked_by :: "string list"
  add_blocks :: "string list"
  new_metadata :: "json option"

definition no_patch :: task_patch where
  "no_patch = \<lparr>new_status = None, new_subject = None, new_description = None, new_active_form = None,
     new_owner = None, add_blocked_by = [], add_blocks = [], new_metadata = None\<rparr>"

definition add_missing :: "string list \<Rightarrow> string list \<Rightarrow> string list" where
  "add_missing new old = fold (\<lambda>i ids. if i \<in> set ids then ids else ids @ [i]) new old"

definition apply_patch_to :: "task_patch \<Rightarrow> task \<Rightarrow> task" where
  "apply_patch_to p t =
     (let t = (case new_status p of Some s \<Rightarrow> t\<lparr>tk_status := s\<rparr> | None \<Rightarrow> t);
          t = (case new_subject p of Some s \<Rightarrow> t\<lparr>tk_subject := s\<rparr> | None \<Rightarrow> t);
          t = (case new_description p of Some d \<Rightarrow> t\<lparr>tk_description := d\<rparr> | None \<Rightarrow> t);
          t = (case new_active_form p of Some af \<Rightarrow> t\<lparr>active_form := Some af\<rparr> | None \<Rightarrow> t);
          t = (case new_owner p of Some ow \<Rightarrow> t\<lparr>tk_owner := ow\<rparr> | None \<Rightarrow> t);
          t = t\<lparr>blocked_by := add_missing (add_blocked_by p) (blocked_by t)\<rparr>;
          t = t\<lparr>tk_blocks := add_missing (add_blocks p) (tk_blocks t)\<rparr>
      in case new_metadata p of Some m \<Rightarrow> t\<lparr>tk_metadata := m\<rparr> | None \<Rightarrow> t)"

subsection \<open>The store\<close>

datatype tasks_file = No_file | Unreadable | Holds string

text \<open>What the write of the file comes to; a write that fails leaves something behind.\<close>

datatype write_outcome = Written | Failed_leaving tasks_file

record task_store =
  kept_tasks :: "task list"
  next_number :: u64
  saved_file :: tasks_file

definition load_from_disk :: "(string \<Rightarrow> json option) \<Rightarrow> tasks_file \<Rightarrow> task list \<times> u64" where
  "load_from_disk parse f =
     (if f = No_file then ([], 1)
      else
        let content = (case f of Holds c \<Rightarrow> c | _ \<Rightarrow> '''');
            ts = (case Option.bind (parse content) read_tasks of Some ts \<Rightarrow> ts | None \<Rightarrow> []);
            max_id = fold max (List.map_filter (\<lambda>t. parse_uint (2 ^ 64) (tk_id t)) ts) 0
        in (ts, word_of_nat max_id + 1))"

definition task_store_new :: "(string \<Rightarrow> json option) \<Rightarrow> tasks_file \<Rightarrow> task_store" where
  "task_store_new parse f =
     (case load_from_disk parse f of
        (ts, n) \<Rightarrow> \<lparr>kept_tasks = ts, next_number = n, saved_file = f\<rparr>)"

definition persist_tasks :: "(json \<Rightarrow> string) \<Rightarrow> write_outcome \<Rightarrow> task_store \<Rightarrow> task_store" where
  "persist_tasks render w s =
     s\<lparr>saved_file := (case w of
         Written \<Rightarrow> Holds (render (JArr (map task_json (kept_tasks s))))
       | Failed_leaving f \<Rightarrow> f)\<rparr>"

definition create_task ::
  "(json \<Rightarrow> string) \<Rightarrow> write_outcome \<Rightarrow> string \<Rightarrow> string \<Rightarrow> string \<Rightarrow> task_store \<Rightarrow> task \<times> task_store" where
  "create_task render w now subject description s =
     (let t = \<lparr>tk_id = nat_str (unat (next_number s)), tk_subject = subject, tk_description = description,
                active_form = None, tk_status = Task_pending, tk_owner = None, blocked_by = [],
                tk_blocks = [], tk_metadata = JObj [], tk_created = now\<rparr>;
          s = s\<lparr>next_number := next_number s + 1, kept_tasks := kept_tasks s @ [t]\<rparr>
      in (t, persist_tasks render w s))"

definition get_task :: "string \<Rightarrow> task_store \<Rightarrow> task option" where
  "get_task i s = find (\<lambda>t. tk_id t = i) (kept_tasks s)"

definition list_visible :: "task_store \<Rightarrow> task list" where
  "list_visible s = filter (\<lambda>t. tk_status t \<noteq> Task_deleted) (kept_tasks s)"

fun change_first :: "('a \<Rightarrow> bool) \<Rightarrow> ('a \<Rightarrow> 'a) \<Rightarrow> 'a list \<Rightarrow> 'a list" where
  "change_first p f [] = []"
| "change_first p f (x # xs) = (if p x then f x # xs else x # change_first p f xs)"

definition update_task ::
  "(json \<Rightarrow> string) \<Rightarrow> write_outcome \<Rightarrow> string \<Rightarrow> task_patch \<Rightarrow> task_store \<Rightarrow> task option \<times> task_store" where
  "update_task render w i p s =
     (case get_task i s of
        None \<Rightarrow> (None, s)
      | Some t \<Rightarrow>
          (Some (apply_patch_to p t),
           persist_tasks render w
             (s\<lparr>kept_tasks := change_first (\<lambda>t. tk_id t = i) (apply_patch_to p) (kept_tasks s)\<rparr>)))"

subsection \<open>The tools\<close>

definition text_or_empty :: "json \<Rightarrow> string \<Rightarrow> string" where
  "text_or_empty input k = (case get_str input k of Some t \<Rightarrow> t | None \<Rightarrow> '''')"

definition string_array :: "json \<Rightarrow> string \<Rightarrow> string list" where
  "string_array input k =
     (case get_array input k of Some vs \<Rightarrow> List.map_filter as_str vs | None \<Rightarrow> [])"

text \<open>The second write is that of the update that adds the optional fields.\<close>

definition task_create_tool ::
  "(json \<Rightarrow> string) \<Rightarrow> write_outcome \<Rightarrow> write_outcome \<Rightarrow> string \<Rightarrow> json \<Rightarrow> task_store \<Rightarrow>
     tool_answer \<times> task_store" where
  "task_create_tool render w1 w2 now input s =
     (case create_task render w1 now (text_or_empty input ''subject'') (text_or_empty input ''description'') s of
        (t, s) \<Rightarrow>
          let p = no_patch\<lparr>new_active_form := get_str input ''activeForm'', new_metadata := jget input ''metadata''\<rparr>;
              (t, s) = (if new_active_form p \<noteq> None \<or> new_metadata p \<noteq> None
                        then case update_task render w2 (tk_id t) p s of
                               (Some updated, s) \<Rightarrow> (updated, s)
                             | (None, s) \<Rightarrow> (t, s)
                        else (t, s))
          in (Inr (tool_success (render (task_json t))), s))"

definition patch_of :: "json \<Rightarrow> task_patch" where
  "patch_of input =
     \<lparr>new_status = Option.bind (get_str input ''status'') parse_status,
      new_subject = get_str input ''subject'', new_description = get_str input ''description'',
      new_active_form = get_str input ''activeForm'', new_owner = map_option as_str (jget input ''owner''),
      add_blocked_by = string_array input ''addBlockedBy'', add_blocks = string_array input ''addBlocks'',
      new_metadata = jget input ''metadata''\<rparr>"

definition task_missing :: "string \<Rightarrow> tool_answer" where
  "task_missing i = Inr (tool_error (''Task '' @ [CHR 0x27] @ i @ [CHR 0x27] @ '' not found''))"

definition task_update_tool ::
  "(json \<Rightarrow> string) \<Rightarrow> write_outcome \<Rightarrow> json \<Rightarrow> task_store \<Rightarrow> tool_answer \<times> task_store" where
  "task_update_tool render w input s =
     (let i = text_or_empty input ''taskId''
      in case update_task render w i (patch_of input) s of
           (Some t, s) \<Rightarrow> (Inr (tool_success (render (task_json t))), s)
         | (None, s) \<Rightarrow> (task_missing i, s))"

definition task_list_tool :: "(json \<Rightarrow> string) \<Rightarrow> task_store \<Rightarrow> tool_answer" where
  "task_list_tool render s = Inr (tool_success (render (JArr (map task_json (list_visible s)))))"

definition task_get_tool :: "(json \<Rightarrow> string) \<Rightarrow> json \<Rightarrow> task_store \<Rightarrow> tool_answer" where
  "task_get_tool render input s =
     (let i = text_or_empty input ''taskId''
      in case get_task i s of
           Some t \<Rightarrow> Inr (tool_success (render (task_json t)))
         | None \<Rightarrow> task_missing i)"

subsection \<open>What the operations keep\<close>

datatype task_op =
    Create_op write_outcome string string string
  | Update_op write_outcome string task_patch

fun task_step :: "(json \<Rightarrow> string) \<Rightarrow> task_op \<Rightarrow> task_store \<Rightarrow> task_store" where
  "task_step render (Create_op w now subject description) s = snd (create_task render w now subject description s)"
| "task_step render (Update_op w i p) s = snd (update_task render w i p s)"

text \<open>
  The identifiers are the numbers from one on, in order; a task is never removed. No task names
  another twice.
\<close>

definition numbered_from_one :: "task list \<Rightarrow> bool" where
  "numbered_from_one ts = (map tk_id ts = map (\<lambda>k. nat_str (Suc k mod 2 ^ 64)) [0..<length ts])"

definition deps_once :: "task \<Rightarrow> bool" where
  "deps_once t = (distinct (blocked_by t) \<and> distinct (tk_blocks t))"

definition tasks_ok :: "task_store \<Rightarrow> bool" where
  "tasks_ok s =
     (unat (next_number s) = Suc (length (kept_tasks s)) mod 2 ^ 64 \<and> numbered_from_one (kept_tasks s)
      \<and> list_all deps_once (kept_tasks s))"

lemma add_missing_set: "set (add_missing new old) = set old \<union> set new"
  unfolding add_missing_def by (induction new arbitrary: old) auto

lemma add_missing_distinct: "distinct old \<Longrightarrow> distinct (add_missing new old)"
  unfolding add_missing_def by (induction new arbitrary: old) auto

lemma add_missing_prefix: "\<exists>more. add_missing new old = old @ more"
  unfolding add_missing_def
proof (induction new arbitrary: old)
  case (Cons x xs)
  from Cons[of "if x \<in> set old then old else old @ [x]"] show ?case by (auto split: if_splits)
qed simp

lemma patch_keeps_id [simp]: "tk_id (apply_patch_to p t) = tk_id t"
  by (simp add: apply_patch_to_def Let_def split: option.split)

lemma patch_deps:
  "blocked_by (apply_patch_to p t) = add_missing (add_blocked_by p) (blocked_by t)"
  "tk_blocks (apply_patch_to p t) = add_missing (add_blocks p) (tk_blocks t)"
  by (simp_all add: apply_patch_to_def Let_def split: option.split)

lemma deps_once_patch: "deps_once t \<Longrightarrow> deps_once (apply_patch_to p t)"
  by (simp add: deps_once_def patch_deps add_missing_distinct)

lemma change_first_same: "(\<And>x. g (f x) = g x) \<Longrightarrow> map g (change_first p f xs) = map g xs"
  by (induction xs) auto

lemma length_change_first [simp]: "length (change_first p f xs) = length xs"
  by (induction xs) auto

lemma list_all_change_first: "list_all q xs \<Longrightarrow> (\<And>x. q x \<Longrightarrow> q (f x)) \<Longrightarrow> list_all q (change_first p f xs)"
  by (induction xs) auto

lemma find_change_first:
  "find p xs = Some x \<Longrightarrow> \<exists>k < length xs. xs ! k = x \<and> p x \<and> (\<forall>j < k. \<not> p (xs ! j))
     \<and> change_first p f xs = xs[k := f x]"
proof (induction xs)
  case (Cons y ys)
  show ?case
  proof (cases "p y")
    case True
    with Cons.prems show ?thesis by (intro exI[of _ 0]) simp
  next
    case False
    with Cons obtain k where "k < length ys" "ys ! k = x" "p x" "\<forall>j < k. \<not> p (ys ! j)"
      "change_first p f ys = ys[k := f x]" by auto
    with False show ?thesis by (intro exI[of _ "Suc k"]) (simp add: All_less_Suc2)
  qed
qed simp

lemma create_parts:
  "snd (create_task render w now subject description s)
     = s\<lparr>kept_tasks := kept_tasks s @ [fst (create_task render w now subject description s)],
         next_number := next_number s + 1,
         saved_file := saved_file (snd (create_task render w now subject description s))\<rparr>"
  by (simp add: create_task_def persist_tasks_def Let_def)

lemma persist_rest [simp]:
  "kept_tasks (persist_tasks render w s) = kept_tasks s"
  "next_number (persist_tasks render w s) = next_number s"
  by (simp_all add: persist_tasks_def)

lemma tasks_ok_step: "tasks_ok s \<Longrightarrow> tasks_ok (task_step render e s)"
proof (cases e)
  case (Create_op w now subject description)
  assume ok: "tasks_ok s"
  have "unat (next_number s + 1) = Suc (Suc (length (kept_tasks s))) mod 2 ^ 64"
    using ok by (simp add: tasks_ok_def unat_word_ariths mod_Suc_eq)
  with ok Create_op show ?thesis
    by (simp add: tasks_ok_def create_task_def Let_def numbered_from_one_def deps_once_def)
next
  case (Update_op w i p)
  assume "tasks_ok s"
  with Update_op show ?thesis
    by (auto simp: tasks_ok_def update_task_def numbered_from_one_def change_first_same
        intro!: list_all_change_first deps_once_patch split: option.split)
qed

lemma tasks_ok_new: "tasks_ok (task_store_new parse No_file)"
  by (simp add: tasks_ok_def task_store_new_def load_from_disk_def numbered_from_one_def)

interpretation task_list: op_system "task_step render" tasks_ok "task_store_new parse No_file" for render parse
  by unfold_locales (rule tasks_ok_new, rule tasks_ok_step)

text \<open>
  Whatever is created and updated, and whichever writes fail, the tasks of a new list carry the
  numbers from one on as identifiers, in the order they were created: none is ever used twice or
  lost, and no task depends on another twice.
\<close>

theorem tasks_numbered:
  "let s = run_ops (task_step render) es (task_store_new parse No_file)
   in map tk_id (kept_tasks s) = map (\<lambda>k. nat_str (Suc k mod 2 ^ 64)) [0..<length (kept_tasks s)]
      \<and> length (kept_tasks s) = length (filter (\<lambda>e. \<exists>w now sub desc. e = Create_op w now sub desc) es)
      \<and> list_all deps_once (kept_tasks s)"
proof -
  have created: "length (kept_tasks (run_ops (task_step render) es s)) = length (kept_tasks s)
      + length (filter (\<lambda>e. \<exists>w now sub desc. e = Create_op w now sub desc) es)" for s
  proof (induction es arbitrary: s)
    case (Cons e es)
    show ?case
      by (cases e) (auto simp: Cons create_task_def update_task_def Let_def split: option.split)
  qed simp
  have "tasks_ok (run_ops (task_step render) es (task_store_new parse No_file))"
    by (rule task_list.inv_reached)
  then show ?thesis
    using created[of "task_store_new parse No_file"]
    by (simp add: tasks_ok_def numbered_from_one_def Let_def task_store_new_def load_from_disk_def)
qed

text \<open>
  An update changes one task, the first with the identifier, exactly as the patch says, adds to
  its dependencies those that are missing behind the others, and saves; when there is none, nothing
  changes and nothing is written.
\<close>

theorem update_changes_one:
  "case update_task render w i p s of
     (None, s') \<Rightarrow> s' = s \<and> i \<notin> tk_id ` set (kept_tasks s)
   | (Some t, s') \<Rightarrow>
       \<exists>k < length (kept_tasks s).
         tk_id (kept_tasks s ! k) = i \<and> (\<forall>j < k. tk_id (kept_tasks s ! j) \<noteq> i)
         \<and> t = apply_patch_to p (kept_tasks s ! k) \<and> kept_tasks s' = (kept_tasks s)[k := t]
         \<and> next_number s' = next_number s
         \<and> set (blocked_by t) = set (blocked_by (kept_tasks s ! k)) \<union> set (add_blocked_by p)
         \<and> (w = Written \<longrightarrow> saved_file s' = Holds (render (JArr (map task_json (kept_tasks s')))))"
proof (cases "get_task i s")
  case None
  then have "update_task render w i p s = (None, s)" by (simp add: update_task_def)
  moreover have "i \<notin> tk_id ` set (kept_tasks s)" using None by (auto simp: get_task_def find_None_iff)
  ultimately show ?thesis by simp
next
  case (Some t)
  from find_change_first[OF this[unfolded get_task_def], of "apply_patch_to p"]
  obtain k where k: "k < length (kept_tasks s)" "kept_tasks s ! k = t" "tk_id t = i"
    "\<forall>j < k. tk_id (kept_tasks s ! j) \<noteq> i"
    "change_first (\<lambda>t. tk_id t = i) (apply_patch_to p) (kept_tasks s) = (kept_tasks s)[k := apply_patch_to p t]"
    by blast
  have "update_task render w i p s =
      (Some (apply_patch_to p t), persist_tasks render w (s\<lparr>kept_tasks := (kept_tasks s)[k := apply_patch_to p t]\<rparr>))"
    by (simp add: update_task_def Some k(5))
  with k(1-4) show ?thesis
    by (auto simp: patch_deps add_missing_set persist_tasks_def intro!: exI[of _ k])
qed

subsection \<open>Loading what was saved\<close>

lemma those_map_Some: "those (map (\<lambda>x. Some (f x)) xs) = Some (map f xs)"
  by (induction xs) auto

lemma read_texts_back: "read_texts (JArr (map JStr ts)) = Some ts"
  using those_map_Some[of "\<lambda>t. t" ts] by (simp add: read_texts_def comp_def)

lemma parse_status_name: "parse_status (status_name st) = Some st"
  by (cases st) (simp_all add: parse_status_def)

lemma read_opt_text_back: "read_opt_text (Some (opt_text x)) = Some x"
  by (cases x) simp_all

lemma read_task_json: "read_task (task_json t) = Some t"
  by (simp add: read_task_def task_json_def jindex_def get_str_def read_texts_back parse_status_name
      read_opt_text_back)

lemma read_tasks_back: "read_tasks (JArr (map task_json ts)) = Some ts"
  using those_map_Some[of "\<lambda>t. t" ts] by (simp add: read_tasks_def comp_def read_task_json)

lemma map_filter_snoc: "List.map_filter f (xs @ [x]) = List.map_filter f xs @ (case f x of Some y \<Rightarrow> [y] | None \<Rightarrow> [])"
  by (induction xs) (simp_all add: map_filter_simps split: option.split)

lemma highest_number:
  "n < 2 ^ 64 - 1 \<Longrightarrow> length ts = n \<Longrightarrow> numbered_from_one ts \<Longrightarrow>
     fold max (List.map_filter (\<lambda>t. parse_uint (2 ^ 64) (tk_id t)) ts) 0 = n"
proof (induction n arbitrary: ts)
  case 0
  then show ?case by (simp add: map_filter_simps)
next
  case (Suc n)
  then obtain us u where ts: "ts = us @ [u]" by (cases ts rule: rev_cases) auto
  have num: "numbered_from_one us" "tk_id u = nat_str (Suc n mod 2 ^ 64)"
    using Suc.prems(2,3) by (simp_all add: ts numbered_from_one_def)
  moreover have "parse_uint (2 ^ 64) (nat_str (Suc n mod 2 ^ 64)) = Some (Suc n)"
    using Suc.prems(1) parse_nat_str[of "Suc n" "2 ^ 64"] by simp
  moreover have "fold max (List.map_filter (\<lambda>t. parse_uint (2 ^ 64) (tk_id t)) us) 0 = n"
    using Suc.IH[of us] Suc.prems(1,2) num(1) by (simp add: ts)
  ultimately show ?case by (simp add: ts map_filter_snoc)
qed

text \<open>An operation that writes the file, and whose write succeeds.\<close>

fun saves :: "task_op \<Rightarrow> task_store \<Rightarrow> bool" where
  "saves (Create_op w now sub desc) s = (w = Written)"
| "saves (Update_op w i p) s = (w = Written \<and> get_task i s \<noteq> None)"

lemma saved_state:
  "saves e s \<Longrightarrow> saved_file (task_step render e s) = Holds (render (JArr (map task_json (kept_tasks (task_step render e s)))))"
  by (cases e) (auto simp: create_task_def update_task_def persist_tasks_def Let_def split: option.split)

text \<open>
  C35. A restart goes unnoticed: when the last operation saved the list, whatever failed before, a
  store opened on the file has the same tasks and goes on with the same number, provided the parser
  reads back what was printed and the numbers have not run out.
\<close>

theorem restart_goes_on:
  assumes "s = task_step render e (run_ops (task_step render) es (task_store_new parse No_file))"
    and "saves e (run_ops (task_step render) es (task_store_new parse No_file))"
    and "parse (render (JArr (map task_json (kept_tasks s)))) = Some (JArr (map task_json (kept_tasks s)))"
    and "length (kept_tasks s) < 2 ^ 64 - 1"
  shows "task_store_new parse (saved_file s) = s"
proof -
  have "tasks_ok s" unfolding assms(1) by (intro tasks_ok_step task_list.inv_reached)
  then have ok: "unat (next_number s) = Suc (length (kept_tasks s))" "numbered_from_one (kept_tasks s)"
    using assms(4) by (simp_all add: tasks_ok_def)
  have on_disk: "saved_file s = Holds (render (JArr (map task_json (kept_tasks s))))"
    unfolding assms(1) by (rule saved_state[OF assms(2)])
  have "word_of_nat (Suc (length (kept_tasks s))) = next_number s"
    unfolding ok(1)[symmetric] by simp
  then have "word_of_nat (length (kept_tasks s)) + 1 = next_number s" by (simp add: add.commute)
  with on_disk assms(3) ok(2) highest_number[OF assms(4) refl ok(2)] show ?thesis
    by (simp add: task_store_new_def load_from_disk_def read_tasks_back)
qed

definition two_tasks :: "task_op list" where
  "two_tasks = [Create_op (Failed_leaving Unreadable) ''t0'' ''one'' ''first'',
                Create_op Written ''t1'' ''two'' ''second'']"

definition two_saved :: task_store where
  "two_saved = run_ops (task_step (\<lambda>_. ''[]'')) two_tasks (task_store_new (\<lambda>_. None) No_file)"

definition two_text :: "json \<Rightarrow> string" where
  "two_text v = ''saved''"

definition two_read :: "string \<Rightarrow> json option" where
  "two_read t = Some (JArr (map task_json (kept_tasks two_saved)))"

definition two_updated :: task_store where
  "two_updated = task_step two_text (Update_op Written ''2'' no_patch)
     (run_ops (task_step two_text) two_tasks (task_store_new two_read No_file))"

lemma two_updated_tasks: "kept_tasks two_updated = kept_tasks two_saved" "length (kept_tasks two_saved) = 2"
  by code_simp+

theorem restart_goes_on_witness:
  "task_store_new two_read (saved_file two_updated) = two_updated"
proof (rule restart_goes_on[OF two_updated_def])
  show "saves (Update_op Written ''2'' no_patch)
          (run_ops (task_step two_text) two_tasks (task_store_new two_read No_file))"
    by code_simp
qed (simp_all add: two_updated_tasks two_read_def)

subsection \<open>Limits of the store\<close>

text \<open>
  A file that cannot be read or parsed counts as empty: the next task that is created replaces all
  that was in it, and the numbers begin again.
\<close>

lemma damaged_file_replaced:
  assumes "parse c = None"
  shows "saved_file (task_step render (Create_op Written now sub desc) (task_store_new parse (Holds c)))
    = Holds (render (JArr [task_json (fst (create_task render Written now sub desc
                                            (task_store_new parse No_file)))]))"
  using assms
  by (simp add: task_store_new_def load_from_disk_def create_task_def persist_tasks_def Let_def map_filter_simps)

text \<open>The status is no lifecycle: a deleted task becomes pending again.\<close>

lemma deleted_task_returns:
  "let s = run_ops (task_step (\<lambda>_. '''')) [Create_op Written '''' ''a'' '''',
        Update_op Written ''1'' (no_patch\<lparr>new_status := Some Task_deleted\<rparr>),
        Update_op Written ''1'' (no_patch\<lparr>new_status := Some Task_pending\<rparr>)] (task_store_new (\<lambda>_. None) No_file)
   in map tk_status (list_visible s) = [Task_pending]"
  by code_simp

text \<open>A status that is none of the four is ignored, and the update reported as done.\<close>

lemma unknown_status_ignored:
  "parse_status t = None \<Longrightarrow> patch_of (JObj [(''status'', JStr t)]) = no_patch"
  by (simp add: patch_of_def no_patch_def get_str_def get_array_def string_array_def)

end
