(* ===== verification/Provider_Stream.thy ===== *)
theory Provider_Stream
  imports Provider_Api Json
begin

section \<open>Streams of the providers\<close>

text \<open>
  \<open>crates/loopal-provider\<close>, what the four clients share: the events of a response (\<open>sse.rs\<close>), the
  polling of a stream that turns each event into chunks (the same \<open>poll_next\<close> in
  \<open>anthropic/stream.rs\<close>, \<open>openai/stream.rs\<close>, \<open>google/stream.rs\<close> and \<open>openai_compat/stream.rs\<close>), the
  parameters of a request (\<open>loopal-provider-api/src/lib.rs\<close>) and the errors of a response that is no
  success. Decoding the bytes of a response into events, and reading and printing JSON, are
  arguments. The interface \<open>event_parser\<close> is what each client gives the polling.
\<close>

subsection \<open>Numbers in JSON\<close>

fun as_u64 :: "json \<Rightarrow> nat option" where
  "as_u64 (JInt n) = (if 0 \<le> n \<and> n < 2 ^ 64 then Some (nat n) else None)"
| "as_u64 _ = None"

definition u32_or_0 :: "json \<Rightarrow> u32" where
  "u32_or_0 v = (case as_u64 v of Some n \<Rightarrow> word_of_nat n | None \<Rightarrow> 0)"

definition json_str_or :: "string \<Rightarrow> json \<Rightarrow> string" where
  "json_str_or d v = (case as_str v of Some t \<Rightarrow> t | None \<Rightarrow> d)"

subsection \<open>Requests\<close>

record offered_tool =
  def_name :: string
  def_description :: string
  def_schema :: json

record chat_params =
  chat_model :: string
  chat_messages :: "message list"
  system_prompt :: string
  chat_tools :: "offered_tool list"
  max_tokens :: u32
  temperature :: "json option"
  chat_thinking :: "thinking_config option"

definition WEB_SEARCH :: string where "WEB_SEARCH = ''WebSearch''"

text \<open>\<open>body[k] = v\<close> on an object.\<close>

fun json_set :: "string \<Rightarrow> json \<Rightarrow> json \<Rightarrow> json" where
  "json_set k v (JObj m) = JObj (AList.update k v m)"
| "json_set k v w = w"

definition set_if :: "bool \<Rightarrow> string \<Rightarrow> json \<Rightarrow> json \<Rightarrow> json" where
  "set_if b k v w = (if b then json_set k v w else w)"

lemma jget_json_set: "jget (json_set k v (JObj m)) q = (if q = k then Some v else map_of m q)"
  by (simp add: update_conv')

subsection \<open>Responses that fail\<close>

text \<open>
  The status, the header \<open>retry-after\<close> and the body. \<open>millis\<close> reads a number of seconds and gives
  whole milliseconds.
\<close>

record http_failure =
  http_status :: u16
  retry_after :: "string option"
  http_body :: "string option"

definition rate_limited_error :: "(string \<Rightarrow> u64 option) \<Rightarrow> http_failure \<Rightarrow> provider_error" where
  "rate_limited_error millis f =
     RateLimited (case Option.bind (retry_after f) millis of Some ms \<Rightarrow> ms | None \<Rightarrow> 30000)"

definition plain_error_response :: "string \<Rightarrow> (string \<Rightarrow> u64 option) \<Rightarrow> http_failure \<Rightarrow> loopal_failure" where
  "plain_error_response no_body millis f =
     Provider (if http_status f = 429 then rate_limited_error millis f
               else Api (http_status f) (case http_body f of Some t \<Rightarrow> t | None \<Rightarrow> no_body))"

subsection \<open>Events of a response\<close>

text \<open>
  What arrives: nothing yet, an event's data, or an error of the decoding. The end mark of OpenAI is
  dropped.
\<close>

datatype arrival = Not_yet | Event_data string | Event_error string

definition sse_item :: "arrival \<Rightarrow> (loopal_failure + string) option" where
  "sse_item a =
     (case a of
        Not_yet \<Rightarrow> None
      | Event_data d \<Rightarrow> if d = ''[DONE]'' then None else Some (Inr d)
      | Event_error e \<Rightarrow> Some (Inl (Provider (SseParse e))))"

subsection \<open>Polling\<close>

type_synonym chunks = "(loopal_failure + llm_chunk) list"

record 's polled =
  incoming_events :: "arrival list"
  parser_state :: 's
  buffered :: chunks

datatype poll = Poll_item "loopal_failure + llm_chunk" | Poll_end | Poll_pending

text \<open>
  An event without chunks wakes the task and is pending; an arrival that is nothing to the stream
  below leaves it pending too.
\<close>

definition poll_next :: "(string \<Rightarrow> 's \<Rightarrow> chunks \<times> 's) \<Rightarrow> 's polled \<Rightarrow> poll \<times> 's polled" where
  "poll_next parse p =
     (case buffered p of
        item # rest \<Rightarrow> (Poll_item item, p\<lparr>buffered := rest\<rparr>)
      | [] \<Rightarrow>
          (case incoming_events p of
             [] \<Rightarrow> (Poll_end, p)
           | a # later \<Rightarrow>
               (case sse_item a of
                  None \<Rightarrow> (Poll_pending, p\<lparr>incoming_events := later\<rparr>)
                | Some (Inl e) \<Rightarrow> (Poll_item (Inl e), p\<lparr>incoming_events := later\<rparr>)
                | Some (Inr d) \<Rightarrow>
                    (case parse d (parser_state p) of
                       ([], s) \<Rightarrow> (Poll_pending, p\<lparr>incoming_events := later, parser_state := s\<rparr>)
                     | (c # cs, s) \<Rightarrow>
                         (Poll_item c, p\<lparr>incoming_events := later, parser_state := s, buffered := cs\<rparr>)))))"

text \<open>The task that reads the stream: it polls again whenever it is woken.\<close>

function drain :: "(string \<Rightarrow> 's \<Rightarrow> chunks \<times> 's) \<Rightarrow> 's polled \<Rightarrow> chunks" where
  "drain parse p =
     (case poll_next parse p of
        (Poll_end, q) \<Rightarrow> []
      | (Poll_pending, q) \<Rightarrow> drain parse q
      | (Poll_item c, q) \<Rightarrow> c # drain parse q)"
  by pat_completeness auto
termination
  by (relation "inv_image (less_than <*lex*> less_than) (\<lambda>(f, p). (length (incoming_events p), length (buffered p)))")
    (auto simp: poll_next_def split: list.splits option.splits sum.splits prod.splits)

declare drain.simps [simp del]

text \<open>The specification: the chunks of the events one after the other.\<close>

fun all_chunks :: "(string \<Rightarrow> 's \<Rightarrow> chunks \<times> 's) \<Rightarrow> (loopal_failure + string) list \<Rightarrow> 's \<Rightarrow> chunks" where
  "all_chunks parse [] s = []"
| "all_chunks parse (Inl e # xs) s = Inl e # all_chunks parse xs s"
| "all_chunks parse (Inr d # xs) s = (case parse d s of (cs, s) \<Rightarrow> cs @ all_chunks parse xs s)"

lemma drain_of_all_chunks:
  "drain parse p = buffered p @ all_chunks parse (List.map_filter sse_item (incoming_events p)) (parser_state p)"
proof (induction parse p rule: drain.induct)
  case (1 parse p)
  show ?case
    by (subst drain.simps)
      (auto simp: poll_next_def map_filter_simps 1 split: list.splits option.splits sum.splits prod.splits)
qed

text \<open>
  Polling loses and reorders nothing and always comes to an end: the reader of a stream gets
  what is buffered and then the chunks of every event in turn, however the events arrive, whether
  an event yields no chunk or many, and errors of the decoding in their place.
\<close>

theorem drain_all_chunks:
  "drain parse p = buffered p @ all_chunks parse (List.map_filter sse_item (incoming_events p)) (parser_state p)"
  by (rule drain_of_all_chunks)

subsection \<open>What the clients have in common\<close>

fun run_events :: "(json \<Rightarrow> 's \<Rightarrow> chunks \<times> 's) \<Rightarrow> json list \<Rightarrow> 's \<Rightarrow> chunks \<times> 's" where
  "run_events handle [] s = ([], s)"
| "run_events handle (v # vs) s =
     (case handle v s of (cs, s) \<Rightarrow> apfst (\<lambda>ds. cs @ ds) (run_events handle vs s))"

lemma run_events_append:
  "run_events handle (vs @ ws) s =
     (case run_events handle vs s of (cs, s) \<Rightarrow> apfst (\<lambda>ds. cs @ ds) (run_events handle ws s))"
  by (induction vs arbitrary: s) (auto simp: apfst_def map_prod_def split: prod.splits)

text \<open>A parser without state handles each event on its own.\<close>

lemma run_events_stateless:
  fixes handle :: "json \<Rightarrow> unit \<Rightarrow> chunks \<times> unit"
  shows "run_events handle vs () = (concat (map (\<lambda>v. fst (handle v ())) vs), ())"
  by (induction vs) (simp_all add: apfst_def map_prod_def split: prod.split)

text \<open>
  The contract of a client: data that is JSON is handled by its shape, data that is not gives one
  error and leaves the state as it is.
\<close>

definition unreadable_event :: "string \<Rightarrow> string \<Rightarrow> loopal_failure + llm_chunk" where
  "unreadable_event e d = Inl (Provider (SseParse (''invalid JSON: '' @ e @ '': '' @ d)))"

locale event_parser =
  fixes parse :: "string \<Rightarrow> 's \<Rightarrow> chunks \<times> 's"
    and read :: "string \<Rightarrow> string + json"
    and handle :: "json \<Rightarrow> 's \<Rightarrow> chunks \<times> 's"
  assumes readable: "read d = Inr v \<Longrightarrow> parse d s = handle v s"
    and unreadable: "read d = Inl e \<Longrightarrow> parse d s = ([unreadable_event e d], s)"
begin

lemma all_chunks_run:
  "map read ds = map Inr vs \<Longrightarrow>
     all_chunks parse (map Inr ds @ rest) s =
       fst (run_events handle vs s) @ all_chunks parse rest (snd (run_events handle vs s))"
proof (induction ds arbitrary: vs s)
  case (Cons d ds)
  then obtain v ws where vs: "vs = v # ws" "read d = Inr v" "map read ds = map Inr ws"
    by (cases vs) auto
  show ?case
    using Cons.IH[OF vs(3)] vs by (simp add: readable apfst_def map_prod_def split: prod.split)
qed simp

lemma arrivals_run:
  assumes "map read ds = map Inr vs" "''[DONE]'' \<notin> set ds"
  shows "drain parse \<lparr>incoming_events = map Event_data ds, parser_state = s, buffered = []\<rparr>
    = fst (run_events handle vs s)"
proof -
  have "List.map_filter sse_item (map Event_data ds) = map Inr ds"
    using assms(2) by (induction ds) (auto simp: map_filter_simps sse_item_def)
  then show ?thesis
    using all_chunks_run[OF assms(1), of "[]" s]
    by (simp add: drain_of_all_chunks)
qed

lemma garbage_in_place:
  "map read ds = map Inr vs \<Longrightarrow> read g = Inl e \<Longrightarrow>
     all_chunks parse (map Inr ds @ Inr g # rest) s =
       fst (run_events handle vs s) @ unreadable_event e g # all_chunks parse rest (snd (run_events handle vs s))"
  by (simp add: all_chunks_run unreadable)

end

end
