(* ===== verification/Anthropic.thy ===== *)
theory Anthropic
  imports Provider_Stream
begin

section \<open>The client of the Anthropic service\<close>

text \<open>
  \<open>crates/loopal-provider/src/anthropic\<close>: the messages and tools of a request (\<open>request.rs\<close>,
  \<open>server_tool.rs\<close>, \<open>thinking.rs\<close>), its body, headers and errors (\<open>mod.rs\<close>), and the parser of the
  event stream with its accumulators (\<open>accumulator.rs\<close>, \<open>stream_parser.rs\<close>). Sending the request is
  left out.
\<close>

subsection \<open>The messages of a request\<close>

fun wire_block :: "content_block \<Rightarrow> json" where
  "wire_block (Text t) = JObj [(''type'', JStr ''text''), (''text'', JStr t)]"
| "wire_block (ToolUse i n v) =
     JObj [(''type'', JStr ''tool_use''), (''id'', JStr i), (''name'', JStr n), (''input'', v)]"
| "wire_block (ToolResult i t err compl meta) =
     JObj [(''type'', JStr ''tool_result''), (''tool_use_id'', JStr i), (''content'', JStr t),
           (''is_error'', JBool err)]"
| "wire_block (Image_block src) =
     JObj [(''type'', JStr ''image''),
           (''source'', JObj [(''type'', JStr (source_type src)), (''media_type'', JStr (media_type src)),
                              (''data'', JStr (data src))])]"
| "wire_block (Thinking t sg) =
     JObj [(''type'', JStr ''thinking''), (''thinking'', JStr t),
           (''signature'', JStr (case sg of Some g \<Rightarrow> g | None \<Rightarrow> ''''))]"
| "wire_block (ServerToolUse i n v) =
     JObj [(''type'', JStr ''server_tool_use''), (''id'', JStr i), (''name'', JStr n), (''input'', v)]"
| "wire_block (ServerToolResult ty i v) =
     JObj [(''type'', JStr ty), (''tool_use_id'', JStr i), (''content'', v)]"

definition wire_role :: "message_role \<Rightarrow> string" where
  "wire_role r = (if r = User then ''user'' else ''assistant'')"

definition ephemeral :: json where
  "ephemeral = JObj [(''type'', JStr ''ephemeral'')]"

definition mark_last :: "json list \<Rightarrow> json list" where
  "mark_last bs =
     (if bs = [] then [] else butlast bs @ [json_set ''cache_control'' ephemeral (last bs)])"

text \<open>The content of a message is an array; the last message of the user is marked.\<close>

fun mark_content :: "json \<Rightarrow> json" where
  "mark_content (JArr bs) = JArr (mark_last bs)"
| "mark_content v = v"

definition mark_message :: "json \<Rightarrow> json" where
  "mark_message m = json_set ''content'' (mark_content (jindex m ''content'')) m"

definition wire_message :: "message \<Rightarrow> json" where
  "wire_message m =
     JObj [(''role'', JStr (wire_role (role m))), (''content'', JArr (map wire_block (content m)))]"

definition build_messages :: "message list \<Rightarrow> json list" where
  "build_messages ms =
     change_last (\<lambda>m. jindex m ''role'' = JStr ''user'') mark_message
       (map wire_message (filter (\<lambda>m. role m \<noteq> System) ms))"

subsection \<open>Tools, thinking and the body\<close>

definition is_claude_4x :: "string \<Rightarrow> bool" where
  "is_claude_4x m =
     (prefix ''claude-'' m \<and> list_ex (\<lambda>seg. seg = ''4'' \<or> prefix ''4.'' seg) (split_char (CHR ''-'') m))"

definition web_search_definition :: "string \<Rightarrow> json" where
  "web_search_definition m =
     JObj [(''type'', JStr (if is_claude_4x m then ''web_search_20260209'' else ''web_search_20250305'')),
           (''name'', JStr ''web_search''), (''max_uses'', JInt 5)]"

text \<open>The last tool that the client runs itself is marked.\<close>

definition client_tool :: "offered_tool \<Rightarrow> json" where
  "client_tool t =
     JObj [(''name'', JStr (def_name t)), (''description'', JStr (def_description t)),
           (''input_schema'', def_schema t)]"

definition build_tools :: "string \<Rightarrow> offered_tool list \<Rightarrow> json list" where
  "build_tools model tools =
     map snd (change_last fst (\<lambda>(c, v). (c, json_set ''cache_control'' ephemeral v))
       (map (\<lambda>t. if def_name t = WEB_SEARCH then (False, web_search_definition model)
                 else (True, client_tool t)) tools))"

definition thinking_json :: "thinking_config \<Rightarrow> u32 \<Rightarrow> json" where
  "thinking_json c limit =
     (case c of
        Thinking_effort l \<Rightarrow> JObj [(''type'', JStr ''adaptive'')]
      | Thinking_tokens n \<Rightarrow>
          JObj [(''type'', JStr ''enabled''), (''budget_tokens'', JInt (uint (min n (sat_sub limit 1))))]
      | _ \<Rightarrow> JObj [(''type'', JStr ''disabled'')])"

fun effort_name :: "effort_level \<Rightarrow> string" where
  "effort_name Effort_low = ''low''"
| "effort_name Effort_medium = ''medium''"
| "effort_name Effort_high = ''high''"
| "effort_name Effort_max = ''max''"

definition output_config :: "thinking_config \<Rightarrow> json option" where
  "output_config c =
     (case c of Thinking_effort l \<Rightarrow> Some (JObj [(''effort'', JStr (effort_name l))]) | _ \<Rightarrow> None)"

definition anthropic_body :: "chat_params \<Rightarrow> json" where
  "anthropic_body p =
     (let tools = build_tools (chat_model p) (chat_tools p);
          body = JObj [(''model'', JStr (chat_model p)), (''max_tokens'', JInt (uint (max_tokens p))),
                       (''stream'', JBool True),
                       (''messages'', JArr (build_messages (normalize_messages (chat_messages p))))];
          body = set_if (system_prompt p \<noteq> []) ''system''
                   (JArr [JObj [(''type'', JStr ''text''), (''text'', JStr (system_prompt p)),
                                (''cache_control'', ephemeral)]]) body;
          body = set_if (tools \<noteq> []) ''tools'' (JArr tools) body;
          body = (case temperature p of Some t \<Rightarrow> json_set ''temperature'' t body | None \<Rightarrow> body)
      in case chat_thinking p of
           None \<Rightarrow> body
         | Some c \<Rightarrow>
             let body = json_set ''thinking'' (thinking_json c (max_tokens p)) body
             in case output_config c of Some v \<Rightarrow> json_set ''output_config'' v body | None \<Rightarrow> body)"

subsection \<open>The client\<close>

record anthropic_client =
  api_key :: string
  base_url :: string
  bearer :: "string option"
  api_version :: string
  agent_header :: "string option"
  extra_headers :: "(string \<times> string) list"

definition anthropic_new :: "string \<Rightarrow> anthropic_client" where
  "anthropic_new key =
     \<lparr>api_key = key, base_url = ''https://api.anthropic.com'', bearer = None,
      api_version = ''2023-06-01'', agent_header = None, extra_headers = []\<rparr>"

definition with_base_url :: "string \<Rightarrow> anthropic_client \<Rightarrow> anthropic_client" where
  "with_base_url u c = c\<lparr>base_url := u\<rparr>"

definition with_bearer :: "string \<Rightarrow> anthropic_client \<Rightarrow> anthropic_client" where
  "with_bearer t c = (if t \<noteq> [] then c\<lparr>bearer := Some t\<rparr> else c)"

definition with_version :: "string \<Rightarrow> anthropic_client \<Rightarrow> anthropic_client" where
  "with_version v c = (if v \<noteq> [] then c\<lparr>api_version := v\<rparr> else c)"

definition with_user_agent :: "string \<Rightarrow> anthropic_client \<Rightarrow> anthropic_client" where
  "with_user_agent a c = (if a \<noteq> [] then c\<lparr>agent_header := Some a\<rparr> else c)"

definition with_extra_header :: "string \<Rightarrow> string \<Rightarrow> anthropic_client \<Rightarrow> anthropic_client" where
  "with_extra_header n v c =
     (if n \<noteq> [] \<and> v \<noteq> [] then c\<lparr>extra_headers := extra_headers c @ [(n, v)]\<rparr> else c)"

definition messages_endpoint :: "anthropic_client \<Rightarrow> string" where
  "messages_endpoint c =
     (let t = trim_end_matches ''/'' (base_url c)
      in if suffix ''/v1/messages'' t then t
         else if suffix ''/v1'' t then t @ ''/messages''
         else t @ ''/v1/messages'')"

definition request_headers :: "anthropic_client \<Rightarrow> (string \<times> string) list" where
  "request_headers c =
     [(''x-api-key'', api_key c), (''anthropic-version'', api_version c), (''content-type'', ''application/json'')]
     @ (case bearer c of Some t \<Rightarrow> [(''authorization'', ''Bearer '' @ t)] | None \<Rightarrow> [])
     @ (case agent_header c of Some a \<Rightarrow> [(''user-agent'', a)] | None \<Rightarrow> [])
     @ extra_headers c"

definition anthropic_error :: "(string \<Rightarrow> u64 option) \<Rightarrow> http_failure \<Rightarrow> loopal_failure" where
  "anthropic_error millis f =
     (if http_status f = 429 then Provider (rate_limited_error millis f)
      else
        let t = (case http_body f of Some t \<Rightarrow> t | None \<Rightarrow> ''failed to read body'')
        in Provider (if http_status f = 400
                        \<and> (contains t ''prompt is too long'' \<or> contains t ''maximum context length''
                           \<or> contains t ''invalid_request_error'')
                     then ContextOverflow t else Api (http_status f) t))"

subsection \<open>The events of an answer\<close>

record tool_accumulator =
  tool_id :: "string option"
  tool_name :: "string option"
  tool_fragments :: string
  acc_stop :: "stop_reason option"

record thinking_accumulator =
  thinking_on :: bool
  signature_fragments :: string

record server_accumulator =
  current_use :: "(string \<times> string \<times> json) option"
  in_result :: bool
  result_id :: "string option"
  result_value :: "json option"
  result_type :: "string option"
  server_fragments :: string

record anthropic_state =
  tool_acc :: tool_accumulator
  think_acc :: thinking_accumulator
  server_acc :: server_accumulator

definition anthropic_start :: anthropic_state where
  "anthropic_start =
     \<lparr>tool_acc = \<lparr>tool_id = None, tool_name = None, tool_fragments = [], acc_stop = None\<rparr>,
      think_acc = \<lparr>thinking_on = False, signature_fragments = []\<rparr>,
      server_acc = \<lparr>current_use = None, in_result = False, result_id = None, result_value = None,
                    result_type = None, server_fragments = []\<rparr>\<rparr>"

definition on_tool :: "(tool_accumulator \<Rightarrow> tool_accumulator) \<Rightarrow> anthropic_state \<Rightarrow> anthropic_state" where
  "on_tool f s = s\<lparr>tool_acc := f (tool_acc s)\<rparr>"

definition on_think :: "(thinking_accumulator \<Rightarrow> thinking_accumulator) \<Rightarrow> anthropic_state \<Rightarrow> anthropic_state" where
  "on_think f s = s\<lparr>think_acc := f (think_acc s)\<rparr>"

definition on_server :: "(server_accumulator \<Rightarrow> server_accumulator) \<Rightarrow> anthropic_state \<Rightarrow> anthropic_state" where
  "on_server f s = s\<lparr>server_acc := f (server_acc s)\<rparr>"

definition tool_use_active :: "server_accumulator \<Rightarrow> bool" where
  "tool_use_active a = (current_use a \<noteq> None \<and> \<not> in_result a)"

definition usage_chunks :: "json \<Rightarrow> chunks" where
  "usage_chunks u =
     (case (as_u64 (jindex u ''input_tokens''), as_u64 (jindex u ''output_tokens'')) of
        (Some i, Some out) \<Rightarrow>
          [Inr (Chunk_usage (word_of_nat i) (word_of_nat out) (u32_or_0 (jindex u ''cache_creation_input_tokens''))
             (u32_or_0 (jindex u ''cache_read_input_tokens'')) 0)]
      | _ \<Rightarrow> [])"

definition block_start :: "json \<Rightarrow> anthropic_state \<Rightarrow> anthropic_state" where
  "block_start v s =
     (let b = jindex v ''content_block''; ty = json_str_or '''' (jindex b ''type'')
      in if ty = ''tool_use'' then
           on_tool (\<lambda>a. a\<lparr>tool_id := as_str (jindex b ''id''), tool_name := as_str (jindex b ''name''),
                          tool_fragments := []\<rparr>) s
         else if ty = ''thinking'' then
           on_think (\<lambda>a. a\<lparr>thinking_on := True, signature_fragments := []\<rparr>) s
         else if ty = ''server_tool_use'' then
           on_server (\<lambda>a. a\<lparr>current_use := Some (json_str_or '''' (jindex b ''id''), json_str_or '''' (jindex b ''name''),
                                                  case jget b ''input'' of Some w \<Rightarrow> w | None \<Rightarrow> JObj []),
                            in_result := False, server_fragments := []\<rparr>) s
         else if suffix ''_tool_result'' ty \<and> ty \<noteq> ''tool_result'' then
           on_server (\<lambda>a. a\<lparr>result_type := Some ty, result_id := as_str (jindex b ''tool_use_id''),
                            result_value := Some (jindex b ''content''), in_result := True\<rparr>) s
         else s)"

definition block_delta :: "json \<Rightarrow> anthropic_state \<Rightarrow> chunks \<times> anthropic_state" where
  "block_delta v s =
     (let d = jindex v ''delta''; ty = json_str_or '''' (jindex d ''type'')
      in if ty = ''text_delta'' then
           ((case as_str (jindex d ''text'') of Some t \<Rightarrow> [Inr (Chunk_text t)] | None \<Rightarrow> []), s)
         else if ty = ''input_json_delta'' then
           (case as_str (jindex d ''partial_json'') of
              None \<Rightarrow> ([], s)
            | Some t \<Rightarrow>
                ([], if tool_use_active (server_acc s)
                     then on_server (\<lambda>a. a\<lparr>server_fragments := server_fragments a @ t\<rparr>) s
                     else on_tool (\<lambda>a. a\<lparr>tool_fragments := tool_fragments a @ t\<rparr>) s))
         else if ty = ''thinking_delta'' then
           ((case as_str (jindex d ''thinking'') of Some t \<Rightarrow> [Inr (Chunk_thinking t)] | None \<Rightarrow> []), s)
         else if ty = ''signature_delta'' then
           (case as_str (jindex d ''signature'') of
              None \<Rightarrow> ([], s)
            | Some t \<Rightarrow> ([], on_think (\<lambda>a. a\<lparr>signature_fragments := signature_fragments a @ t\<rparr>) s))
         else ([], s))"

definition block_stop :: "(string \<Rightarrow> string + json) \<Rightarrow> anthropic_state \<Rightarrow> chunks \<times> anthropic_state" where
  "block_stop read s =
     (let th = think_acc s; sv = server_acc s; tl = tool_acc s
      in if thinking_on th then
           (if signature_fragments th \<noteq> [] then [Inr (Chunk_signature (signature_fragments th))] else [],
            on_think (\<lambda>a. a\<lparr>thinking_on := False, signature_fragments := []\<rparr>) s)
         else if in_result sv then
           (case result_id sv of
              Some i \<Rightarrow>
                ([Inr (Chunk_server_result (case result_type sv of Some ty \<Rightarrow> ty | None \<Rightarrow> ''unknown_tool_result'') i
                    (case result_value sv of Some v \<Rightarrow> v | None \<Rightarrow> JNull))],
                 on_server (\<lambda>a. a\<lparr>result_id := None, result_value := None, result_type := None, in_result := False\<rparr>) s)
            | None \<Rightarrow> ([], on_server (\<lambda>a. a\<lparr>in_result := False\<rparr>) s))
         else
           (case current_use sv of
              Some (i, n, inp) \<Rightarrow>
                ([Inr (Chunk_server_use i n
                    (if server_fragments sv = [] then inp
                     else case read (server_fragments sv) of Inr v \<Rightarrow> v | Inl e \<Rightarrow> inp))],
                 on_server (\<lambda>a. a\<lparr>current_use := None, server_fragments := []\<rparr>) s)
            | None \<Rightarrow>
                let s' = on_tool (\<lambda>a. a\<lparr>tool_id := None, tool_name := None\<rparr>) s
                in (case (tool_id tl, tool_name tl) of
                      (Some i, Some n) \<Rightarrow>
                        ([Inr (Chunk_tool_use i n
                            (if tool_fragments tl = [] then JObj []
                             else case read (tool_fragments tl) of Inr v \<Rightarrow> v | Inl e \<Rightarrow> JObj []))],
                         on_tool (\<lambda>a. a\<lparr>tool_fragments := []\<rparr>) s')
                    | _ \<Rightarrow> ([], s'))))"

definition stop_of :: "string \<Rightarrow> stop_reason" where
  "stop_of t = (if t = ''max_tokens'' then MaxTokens else if t = ''pause_turn'' then PauseTurn else EndTurn)"

definition message_delta :: "json \<Rightarrow> anthropic_state \<Rightarrow> chunks \<times> anthropic_state" where
  "message_delta v s =
     (usage_chunks (jindex v ''usage''),
      case as_str (jindex (jindex v ''delta'') ''stop_reason'') of
        Some t \<Rightarrow> on_tool (\<lambda>a. a\<lparr>acc_stop := Some (stop_of t)\<rparr>) s
      | None \<Rightarrow> s)"

definition anthropic_handle :: "(string \<Rightarrow> string + json) \<Rightarrow> json \<Rightarrow> anthropic_state \<Rightarrow> chunks \<times> anthropic_state" where
  "anthropic_handle read v s =
     (let ty = json_str_or '''' (jindex v ''type'')
      in if ty = ''content_block_start'' then ([], block_start v s)
         else if ty = ''content_block_delta'' then block_delta v s
         else if ty = ''content_block_stop'' then block_stop read s
         else if ty = ''message_delta'' then message_delta v s
         else if ty = ''message_start'' then (usage_chunks (jindex (jindex v ''message'') ''usage''), s)
         else if ty = ''message_stop'' then
           ([Inr (Chunk_done (case acc_stop (tool_acc s) of Some r \<Rightarrow> r | None \<Rightarrow> EndTurn))],
            on_tool (\<lambda>a. a\<lparr>acc_stop := None\<rparr>) s)
         else ([], s))"

definition anthropic_parse :: "(string \<Rightarrow> string + json) \<Rightarrow> string \<Rightarrow> anthropic_state \<Rightarrow> chunks \<times> anthropic_state" where
  "anthropic_parse read d s =
     (case read d of
        Inl e \<Rightarrow> ([unreadable_event e d], s)
      | Inr v \<Rightarrow> anthropic_handle read v s)"

interpretation anthropic: event_parser "anthropic_parse read" "read" "anthropic_handle read" for read
  by unfold_locales (simp_all add: anthropic_parse_def)

subsection \<open>Streams of answers\<close>

text \<open>
  The service's side: the blocks of an answer, and the events it sends for them. The input of a
  tool and its value are given; \<open>spelt\<close> says that the fragments spell it.
\<close>

datatype answer_block =
    Answer_text "string list"
  | Answer_thinking "string list" "string list"
  | Answer_tool string string "string list" json
  | Answer_server_use string string json "string list" json
  | Answer_server_result string string json

definition start_event :: "(string \<times> json) list \<Rightarrow> json" where
  "start_event b = JObj [(''type'', JStr ''content_block_start''), (''content_block'', JObj b)]"

definition delta_event :: "string \<Rightarrow> string \<Rightarrow> string \<Rightarrow> json" where
  "delta_event ty k t =
     JObj [(''type'', JStr ''content_block_delta''),
           (''delta'', JObj [(''type'', JStr ty), (k, JStr t)])]"

definition stop_event :: json where
  "stop_event = JObj [(''type'', JStr ''content_block_stop'')]"

fun block_events :: "answer_block \<Rightarrow> json list" where
  "block_events (Answer_text ts) =
     start_event [(''type'', JStr ''text''), (''text'', JStr '''')]
     # map (delta_event ''text_delta'' ''text'') ts @ [stop_event]"
| "block_events (Answer_thinking ts gs) =
     start_event [(''type'', JStr ''thinking''), (''thinking'', JStr '''')]
     # map (delta_event ''thinking_delta'' ''thinking'') ts
     @ map (delta_event ''signature_delta'' ''signature'') gs @ [stop_event]"
| "block_events (Answer_tool i n fs v) =
     start_event [(''type'', JStr ''tool_use''), (''id'', JStr i), (''name'', JStr n), (''input'', JObj [])]
     # map (delta_event ''input_json_delta'' ''partial_json'') fs @ [stop_event]"
| "block_events (Answer_server_use i n inp fs v) =
     start_event [(''type'', JStr ''server_tool_use''), (''id'', JStr i), (''name'', JStr n), (''input'', inp)]
     # map (delta_event ''input_json_delta'' ''partial_json'') fs @ [stop_event]"
| "block_events (Answer_server_result ty i v) =
     [start_event [(''type'', JStr ty), (''tool_use_id'', JStr i), (''content'', v)], stop_event]"

definition spells :: "(string \<Rightarrow> string + json) \<Rightarrow> json \<Rightarrow> string list \<Rightarrow> json \<Rightarrow> bool" where
  "spells read d fs v = (if concat fs = [] then v = d else read (concat fs) = Inr v)"

fun spelt :: "(string \<Rightarrow> string + json) \<Rightarrow> answer_block \<Rightarrow> bool" where
  "spelt read (Answer_tool i n fs v) = spells read (JObj []) fs v"
| "spelt read (Answer_server_use i n inp fs v) = spells read inp fs v"
| "spelt read (Answer_server_result ty i v) = (suffix ''_tool_result'' ty \<and> ty \<noteq> ''tool_result'')"
| "spelt read _ = True"

fun block_chunks :: "answer_block \<Rightarrow> llm_chunk list" where
  "block_chunks (Answer_text ts) = map Chunk_text ts"
| "block_chunks (Answer_thinking ts gs) =
     map Chunk_thinking ts @ (if concat gs = [] then [] else [Chunk_signature (concat gs)])"
| "block_chunks (Answer_tool i n fs v) = [Chunk_tool_use i n v]"
| "block_chunks (Answer_server_use i n inp fs v) = [Chunk_server_use i n v]"
| "block_chunks (Answer_server_result ty i v) = [Chunk_server_result ty i v]"

definition stop_message :: "json \<Rightarrow> string \<Rightarrow> json list" where
  "stop_message usage reason =
     [JObj [(''type'', JStr ''message_delta''), (''delta'', JObj [(''stop_reason'', JStr reason)]),
            (''usage'', usage)],
      JObj [(''type'', JStr ''message_stop'')]]"

definition answer_events :: "answer_block list \<Rightarrow> json \<Rightarrow> string \<Rightarrow> json list" where
  "answer_events bs usage reason = concat (map block_events bs) @ stop_message usage reason"

lemmas event_defs = start_event_def delta_event_def stop_event_def anthropic_handle_def jindex_def json_str_or_def

text \<open>Between blocks the accumulators are empty.\<close>

lemma deltas_text:
  "run_events (anthropic_handle read) (map (delta_event ''text_delta'' ''text'') ts) s
     = (map (\<lambda>t. Inr (Chunk_text t)) ts, s)"
  by (induction ts) (simp_all add: event_defs block_delta_def)

lemma deltas_thinking:
  "run_events (anthropic_handle read) (map (delta_event ''thinking_delta'' ''thinking'') ts) s
     = (map (\<lambda>t. Inr (Chunk_thinking t)) ts, s)"
  by (induction ts) (simp_all add: event_defs block_delta_def)

lemma deltas_signature:
  "run_events (anthropic_handle read) (map (delta_event ''signature_delta'' ''signature'') gs) s
     = ([], on_think (\<lambda>a. a\<lparr>signature_fragments := signature_fragments a @ concat gs\<rparr>) s)"
  by (induction gs arbitrary: s) (simp_all add: event_defs block_delta_def on_think_def)

lemma deltas_json:
  "run_events (anthropic_handle read) (map (delta_event ''input_json_delta'' ''partial_json'') fs) s
     = ([], if tool_use_active (server_acc s)
            then on_server (\<lambda>a. a\<lparr>server_fragments := server_fragments a @ concat fs\<rparr>) s
            else on_tool (\<lambda>a. a\<lparr>tool_fragments := tool_fragments a @ concat fs\<rparr>) s)"
proof (induction fs arbitrary: s)
  case (Cons f fs)
  then show ?case
    by (simp add: event_defs block_delta_def on_tool_def on_server_def tool_use_active_def)
qed (simp add: on_tool_def on_server_def)

lemmas deltas = deltas_text deltas_thinking deltas_signature deltas_json

lemma run_start:
  "run_events (anthropic_handle read) (start_event b # vs) s
     = run_events (anthropic_handle read) vs (block_start (start_event b) s)"
  by (simp add: start_event_def anthropic_handle_def jindex_def json_str_or_def apfst_def map_prod_def)

lemma run_stop: "run_events (anthropic_handle read) [stop_event] s = block_stop read s"
  by (simp add: stop_event_def anthropic_handle_def jindex_def json_str_or_def apfst_def map_prod_def split: prod.split)

lemma start_states:
  "block_start (start_event [(''type'', JStr ''text''), (''text'', v)]) s = s"
  "block_start (start_event [(''type'', JStr ''thinking''), (''thinking'', v)]) s =
     on_think (\<lambda>a. a\<lparr>thinking_on := True, signature_fragments := []\<rparr>) s"
  "block_start (start_event [(''type'', JStr ''tool_use''), (''id'', JStr i), (''name'', JStr n), (''input'', v)]) s =
     on_tool (\<lambda>a. a\<lparr>tool_id := Some i, tool_name := Some n, tool_fragments := []\<rparr>) s"
  "block_start (start_event [(''type'', JStr ''server_tool_use''), (''id'', JStr i), (''name'', JStr n), (''input'', v)]) s =
     on_server (\<lambda>a. a\<lparr>current_use := Some (i, n, v), in_result := False, server_fragments := []\<rparr>) s"
  by (simp_all add: block_start_def start_event_def jindex_def json_str_or_def suffix_to_prefix Let_def)

lemma start_result:
  assumes "suffix ''_tool_result'' ty" "ty \<noteq> ''tool_result''"
  shows "block_start (start_event [(''type'', JStr ty), (''tool_use_id'', JStr i), (''content'', v)]) s =
     on_server (\<lambda>a. a\<lparr>result_type := Some ty, result_id := Some i, result_value := Some v, in_result := True\<rparr>) s"
proof -
  have "ty \<noteq> ''tool_use'' \<and> ty \<noteq> ''thinking'' \<and> ty \<noteq> ''server_tool_use''"
    using assms(1) by (auto simp: suffix_to_prefix)
  with assms show ?thesis by (simp add: block_start_def start_event_def jindex_def json_str_or_def)
qed

lemma block_run:
  assumes "spelt read b"
  shows "run_events (anthropic_handle read) (block_events b) anthropic_start
    = (map Inr (block_chunks b), anthropic_start)"
proof -
  note run = run_start run_events_append deltas run_stop start_states
  note state = block_stop_def anthropic_start_def on_tool_def on_think_def on_server_def tool_use_active_def
  show ?thesis
  proof (cases b)
    case (Answer_text ts)
    then show ?thesis by (simp add: run del: run_events.simps(2)) (simp add: state)
  next
    case (Answer_thinking ts gs)
    then show ?thesis by (simp add: run del: run_events.simps(2)) (simp add: state)
  next
    case (Answer_tool i n fs v)
    with assms show ?thesis
      by (simp add: run del: run_events.simps(2)) (simp add: state spells_def split: if_splits)
  next
    case (Answer_server_use i n inp fs v)
    with assms show ?thesis
      by (simp add: run del: run_events.simps(2)) (simp add: state spells_def split: if_splits)
  next
    case (Answer_server_result ty i v)
    with assms show ?thesis
      by (simp add: run start_result del: run_events.simps(2)) (simp add: state)
  qed
qed

lemma blocks_run:
  "\<forall>b\<in>set bs. spelt read b \<Longrightarrow>
     run_events (anthropic_handle read) (concat (map block_events bs)) anthropic_start
       = (map Inr (concat (map block_chunks bs)), anthropic_start)"
  by (induction bs) (simp_all add: run_events_append block_run)

lemma stop_run:
  "run_events (anthropic_handle read) (stop_message usage reason) anthropic_start
     = (usage_chunks usage @ [Inr (Chunk_done (stop_of reason))], anthropic_start)"
  by (simp add: stop_message_def anthropic_handle_def message_delta_def anthropic_start_def on_tool_def
      jindex_def json_str_or_def)

lemma answer_run:
  assumes "\<forall>b\<in>set bs. spelt read b"
  shows "run_events (anthropic_handle read) (answer_events bs usage reason) anthropic_start
    = (map Inr (concat (map block_chunks bs)) @ usage_chunks usage @ [Inr (Chunk_done (stop_of reason))],
       anthropic_start)"
  using assms by (simp add: answer_events_def run_events_append blocks_run stop_run)

text \<open>
  The answer of the service comes through. However the service cuts the text, the thoughts, the
  signatures and the inputs of its tools into events, the client yields the blocks of the answer in
  their order, each tool's input read from all its fragments together and each signature in one
  piece, then the usage and the reason to stop, and keeps nothing of an answer for the next one.
\<close>

theorem answer_comes_through:
  assumes "\<forall>b\<in>set bs. spelt read b"
    and "map read ds = map Inr (answer_events bs usage reason)" and "''[DONE]'' \<notin> set ds"
  shows "drain (anthropic_parse read)
      \<lparr>incoming_events = map Event_data ds, parser_state = anthropic_start, buffered = []\<rparr>
    = map Inr (concat (map block_chunks bs)) @ usage_chunks usage @ [Inr (Chunk_done (stop_of reason))]"
  using anthropic.arrivals_run[OF assms(2,3)] answer_run[OF assms(1)] by simp

text \<open>A reader for the examples: the text of an event is its position in a list of values.\<close>

definition listed :: "json list \<Rightarrow> string \<Rightarrow> string + json" where
  "listed vs d = (if length d < length vs then Inr (vs ! length d) else Inl ''expected value'')"

theorem answer_comes_through_witness:
  "drain (anthropic_parse (listed (JObj [(''path'', JStr ''a'')] #
        answer_events [Answer_text [''Hi'', ''!''], Answer_tool ''t1'' ''Read'' [[]] (JObj [])] JNull ''end_turn'')))
      \<lparr>incoming_events = map (\<lambda>k. Event_data (replicate (Suc k) (CHR ''x''))) [0..<9],
       parser_state = anthropic_start, buffered = []\<rparr>
    = [Inr (Chunk_text ''Hi''), Inr (Chunk_text ''!''), Inr (Chunk_tool_use ''t1'' ''Read'' (JObj [])),
       Inr (Chunk_done EndTurn)]"
proof -
  let ?bs = "[Answer_text [''Hi'', ''!''], Answer_tool ''t1'' ''Read'' [[]] (JObj [])]"
  let ?read = "listed (JObj [(''path'', JStr ''a'')] # answer_events ?bs JNull ''end_turn'')"
  let ?ds = "map (\<lambda>k. replicate (Suc k) (CHR ''x'')) [0..<9]"
  have "length (answer_events ?bs JNull ''end_turn'') = 9"
    by (simp add: answer_events_def stop_message_def)
  then have "map ?read ?ds = map Inr (answer_events ?bs JNull ''end_turn'')"
    by (auto simp: listed_def intro!: nth_equalityI)
  moreover have "\<forall>b\<in>set ?bs. spelt ?read b" by (simp add: spells_def)
  moreover have "''[DONE]'' \<notin> set ?ds"
  proof
    assume "''[DONE]'' \<in> set ?ds"
    then obtain k where "''[DONE]'' = replicate (Suc k) (CHR ''x'')" by auto
    then show False by simp
  qed
  ultimately show ?thesis
    using answer_comes_through[of ?bs ?read ?ds JNull "''end_turn''"]
    by (simp add: comp_def usage_chunks_def jindex_def stop_of_def)
qed

subsection \<open>What the service reads\<close>

text \<open>
  The service's reading of a request: the block a JSON object stands for, whatever further keys it
  has. What it is not told is the metadata of a tool result and that a thought has no signature.
\<close>

definition str_at :: "json \<Rightarrow> string \<Rightarrow> string" where
  "str_at v k = json_str_or '''' (jindex v k)"

definition read_block :: "json \<Rightarrow> content_block" where
  "read_block v =
     (let ty = str_at v ''type''
      in if ty = ''text'' then Text (str_at v ''text'')
         else if ty = ''tool_use'' then ToolUse (str_at v ''id'') (str_at v ''name'') (jindex v ''input'')
         else if ty = ''tool_result'' then
           ToolResult (str_at v ''tool_use_id'') (str_at v ''content'')
             (jindex v ''is_error'' = JBool True) False None
         else if ty = ''image'' then
           (let src = jindex v ''source''
            in Image_block \<lparr>source_type = str_at src ''type'', media_type = str_at src ''media_type'',
                 data = str_at src ''data''\<rparr>)
         else if ty = ''thinking'' then Thinking (str_at v ''thinking'') (Some (str_at v ''signature''))
         else if ty = ''server_tool_use'' then
           ServerToolUse (str_at v ''id'') (str_at v ''name'') (jindex v ''input'')
         else ServerToolResult ty (str_at v ''tool_use_id'') (jindex v ''content''))"

fun sent_block :: "content_block \<Rightarrow> content_block" where
  "sent_block (ToolResult i t err compl meta) = ToolResult i t err False None"
| "sent_block (Thinking t sg) = Thinking t (Some (case sg of Some g \<Rightarrow> g | None \<Rightarrow> ''''))"
| "sent_block b = b"

fun server_typed :: "content_block \<Rightarrow> bool" where
  "server_typed (ServerToolResult ty i v) = (suffix ''_tool_result'' ty \<and> ty \<noteq> ''tool_result'')"
| "server_typed _ = True"

definition array_at :: "json \<Rightarrow> string \<Rightarrow> json list" where
  "array_at v k = (case as_array (jindex v k) of Some vs \<Rightarrow> vs | None \<Rightarrow> [])"

definition read_message :: "json \<Rightarrow> string \<times> content_block list" where
  "read_message v = (str_at v ''role'', map read_block (array_at v ''content''))"

fun is_object :: "json \<Rightarrow> bool" where
  "is_object (JObj m) = True"
| "is_object _ = False"

lemma is_object_json_set [simp]: "is_object (json_set k v w) = is_object w"
  by (cases w) simp_all

lemma jindex_json_set [simp]:
  "jindex (json_set k v w) q = (if q = k \<and> is_object w then v else jindex w q)"
  by (cases w) (simp_all add: jindex_def update_conv')

lemma read_wire_block: "server_typed b \<Longrightarrow> read_block (wire_block b) = sent_block b"
proof (cases b)
  case (ServerToolResult ty i v)
  assume "server_typed b"
  then have "ty \<notin> {''text'', ''tool_use'', ''tool_result'', ''image'', ''thinking'', ''server_tool_use''}"
    using ServerToolResult by (auto simp: suffix_to_prefix)
  with ServerToolResult show ?thesis by (simp add: read_block_def str_at_def json_str_or_def jindex_def Let_def)
qed (simp_all add: read_block_def str_at_def json_str_or_def jindex_def Let_def)

lemma read_block_marked: "read_block (json_set ''cache_control'' ephemeral v) = read_block v"
  by (simp add: read_block_def str_at_def Let_def)

lemma map_mark_last: "map read_block (mark_last bs) = map read_block bs"
  by (cases bs rule: rev_cases) (simp_all add: mark_last_def read_block_marked)

lemma read_mark_message: "is_object m \<Longrightarrow> read_message (mark_message m) = read_message m"
  by (cases "jindex m ''content''")
    (simp_all add: read_message_def mark_message_def str_at_def array_at_def map_mark_last)

lemma read_wire_message:
  "\<forall>b\<in>set (content m). server_typed b \<Longrightarrow>
     read_message (wire_message m) = (wire_role (role m), map sent_block (content m))"
  by (simp add: read_message_def wire_message_def str_at_def json_str_or_def array_at_def jindex_def read_wire_block)

lemma map_change_last_in:
  "(\<And>x. x \<in> set xs \<Longrightarrow> g (f x) = g x) \<Longrightarrow> map g (change_last p f xs) = map g xs"
  by (auto simp: change_last_def intro!: nth_equalityI split: option.split)
    (metis nth_list_update_eq nth_list_update_neq nth_mem)

lemma read_messages:
  assumes "\<forall>m\<in>set ms. \<forall>b\<in>set (content m). server_typed b"
  shows "map read_message (build_messages ms)
    = map (\<lambda>m. (wire_role (role m), map sent_block (content m))) (filter (\<lambda>m. role m \<noteq> System) ms)"
proof -
  have "map read_message (build_messages ms)
      = map read_message (map wire_message (filter (\<lambda>m. role m \<noteq> System) ms))"
    unfolding build_messages_def
    by (rule map_change_last_in) (auto simp: wire_message_def intro!: read_mark_message)
  then show ?thesis using assms by (auto intro!: read_wire_message)
qed

subsection \<open>Cache marks\<close>

definition marked :: "json \<Rightarrow> bool" where
  "marked v = (jget v ''cache_control'' \<noteq> None)"

definition marks :: "json list \<Rightarrow> nat" where
  "marks vs = length (filter marked vs)"

definition message_marks :: "json list \<Rightarrow> nat" where
  "message_marks ms = marks (concat (map (\<lambda>m. array_at m ''content'') ms))"

definition body_marks :: "json \<Rightarrow> nat" where
  "body_marks v =
     marks (array_at v ''system'') + marks (array_at v ''tools'') + message_marks (array_at v ''messages'')"

lemma marks_Nil [simp]: "marks [] = 0"
  by (simp add: marks_def)

lemma marks_unmarked: "\<forall>v\<in>set vs. \<not> marked v \<Longrightarrow> marks vs = 0"
  by (simp add: marks_def)

lemma marks_concat: "marks (concat vss) = sum_list (map marks vss)"
  by (induction vss) (simp_all add: marks_def)

lemma marks_mark_last: "\<forall>v\<in>set vs. \<not> marked v \<Longrightarrow> marks (mark_last vs) \<le> 1"
  by (cases vs rule: rev_cases) (simp_all add: mark_last_def marks_def)

lemma sum_change_last:
  fixes w :: "'a \<Rightarrow> nat"
  assumes "\<And>x. x \<in> set xs \<Longrightarrow> w x = 0" "\<And>x. x \<in> set xs \<Longrightarrow> w (f x) \<le> 1"
  shows "sum_list (map w (change_last p f xs)) \<le> 1"
proof -
  have none: "sum_list (map w xs) = 0" using assms(1) by simp
  show ?thesis
  proof (cases "list_ex p xs")
    case True
    then obtain i where "i < length xs" "change_last p f xs = xs[i := f (xs ! i)]"
      by (rule change_last_spec)
    with assms show ?thesis by (simp add: map_update sum_list_update none)
  qed (simp add: none change_last_none)
qed

lemma wire_block_unmarked: "\<not> marked (wire_block b)"
  by (cases b) (simp_all add: marked_def)

lemma message_marks_build: "message_marks (build_messages ms) \<le> 1"
proof -
  have "sum_list (map (\<lambda>m. marks (array_at m ''content'')) (build_messages ms)) \<le> 1"
    unfolding build_messages_def
    by (rule sum_change_last)
      (auto simp: wire_message_def mark_message_def array_at_def jindex_def wire_block_unmarked
        intro!: marks_unmarked marks_mark_last[unfolded One_nat_def])
  then show ?thesis by (simp add: message_marks_def marks_concat comp_def)
qed

lemma marks_build_tools: "marks (build_tools model ts) \<le> 1"
proof -
  have "marks vs = sum_list (map (\<lambda>v. if marked v then 1 else 0) vs)" for vs
    by (induction vs) (simp_all add: marks_def)
  then have "marks (build_tools model ts) = sum_list (map (\<lambda>x. if marked (snd x) then 1 else 0)
      (change_last fst (\<lambda>(c, v). (c, json_set ''cache_control'' ephemeral v))
       (map (\<lambda>t. if def_name t = WEB_SEARCH then (False, web_search_definition model)
                 else (True, client_tool t)) ts)))"
    by (simp add: build_tools_def comp_def)
  also have "\<dots> \<le> 1"
    by (rule sum_change_last)
      (auto simp: marked_def web_search_definition_def client_tool_def split: if_splits)
  finally show ?thesis .
qed

lemma array_at_json_set:
  "is_object w \<Longrightarrow> array_at (json_set k v w) q =
     (if q = k then (case as_array v of Some vs \<Rightarrow> vs | None \<Rightarrow> []) else array_at w q)"
  by (simp add: array_at_def)

lemma is_object_set_if [simp]: "is_object (set_if b k v w) = is_object w"
  by (simp add: set_if_def)

lemma array_at_set_if:
  "is_object w \<Longrightarrow> array_at (set_if b k v w) q =
     (if b \<and> q = k then (case as_array v of Some vs \<Rightarrow> vs | None \<Rightarrow> []) else array_at w q)"
  by (simp add: set_if_def array_at_json_set)

lemma body_arrays:
  "array_at (anthropic_body p) ''messages'' = build_messages (normalize_messages (chat_messages p))"
  "array_at (anthropic_body p) ''tools'' = build_tools (chat_model p) (chat_tools p)"
  "array_at (anthropic_body p) ''system'' =
     (if system_prompt p = [] then []
      else [JObj [(''type'', JStr ''text''), (''text'', JStr (system_prompt p)), (''cache_control'', ephemeral)]])"
  by (simp_all add: anthropic_body_def Let_def array_at_set_if array_at_json_set split: option.split)
    (simp_all add: array_at_def jindex_def)

text \<open>
  C32. The service is sent the conversation. Of any messages, the request holds, in their order and
  with their roles, the blocks of the normalized conversation but the system's messages, each as the
  service reads it, and of all its parts at most three carry a mark of the cache: the
  system prompt, one tool and one block of a message.
\<close>

theorem request_is_conversation:
  assumes "\<forall>m\<in>set (normalize_messages (chat_messages p)). \<forall>b\<in>set (content m). server_typed b"
  shows "map read_message (array_at (anthropic_body p) ''messages'')
      = map (\<lambda>m. (wire_role (role m), map sent_block (content m)))
          (filter (\<lambda>m. role m \<noteq> System) (normalize_messages (chat_messages p)))
    \<and> body_marks (anthropic_body p) \<le> 3"
proof -
  have "marks (array_at (anthropic_body p) ''system'') \<le> 1"
    by (simp add: body_arrays marks_def)
  moreover have "marks (array_at (anthropic_body p) ''tools'') \<le> 1"
    by (simp add: body_arrays marks_build_tools[unfolded One_nat_def])
  moreover have "message_marks (array_at (anthropic_body p) ''messages'') \<le> 1"
    by (simp add: body_arrays message_marks_build[unfolded One_nat_def])
  ultimately have "body_marks (anthropic_body p) \<le> 3" by (simp add: body_marks_def)
  with read_messages[OF assms] show ?thesis by (simp only: body_arrays)
qed

definition small_params :: chat_params where
  "small_params =
     \<lparr>chat_model = ''claude-sonnet-4-6'',
      chat_messages =
        [\<lparr>id_opt = None, role = User, content = [Text ''Look'']\<rparr>,
         \<lparr>id_opt = None, role = Assistant, content = [ToolUse ''t1'' ''Read'' (JObj [])]\<rparr>,
         \<lparr>id_opt = None, role = User, content = [ToolResult ''t1'' ''done'' False False None]\<rparr>],
      system_prompt = ''You help.'', chat_tools = [], max_tokens = 100, temperature = None,
      chat_thinking = None\<rparr>"

theorem request_is_conversation_witness:
  "map read_message (array_at (anthropic_body small_params) ''messages'')
     = [(''user'', [Text ''Look'']), (''assistant'', [ToolUse ''t1'' ''Read'' (JObj [])]),
        (''user'', [ToolResult ''t1'' ''done'' False False None])]
   \<and> body_marks (anthropic_body small_params) = 2"
proof -
  have n: "normalize_messages (chat_messages small_params) = chat_messages small_params" by code_simp
  have "\<forall>m\<in>set (normalize_messages (chat_messages small_params)). \<forall>b\<in>set (content m). server_typed b"
    unfolding n by (simp add: small_params_def)
  from request_is_conversation[OF this] have
    "map read_message (array_at (anthropic_body small_params) ''messages'')
      = map (\<lambda>m. (wire_role (role m), map sent_block (content m)))
          (filter (\<lambda>m. role m \<noteq> System) (normalize_messages (chat_messages small_params)))" by blast
  moreover have "body_marks (anthropic_body small_params) = 2" by code_simp
  ultimately show ?thesis unfolding n by (simp add: small_params_def wire_role_def)
qed

subsection \<open>Malformed inputs and rejected requests\<close>

text \<open>
  A tool input that is not JSON reaches the tool as an empty object, without an error. Every request
  the service rejects as invalid is taken as one that is too long.
\<close>

lemma malformed_input_empty:
  "read (concat fs) = Inl e \<Longrightarrow> concat fs \<noteq> [] \<Longrightarrow>
     fst (run_events (anthropic_handle read) (block_events (Answer_tool i n fs v)) anthropic_start)
       = [Inr (Chunk_tool_use i n (JObj []))]"
  by (simp add: run_start run_events_append deltas run_stop start_states del: run_events.simps(2) concat_eq_Nil_conv)
    (simp add: block_stop_def anthropic_start_def on_tool_def on_server_def tool_use_active_def
      del: concat_eq_Nil_conv)

lemma invalid_request_overflows:
  "http_status f = 400 \<Longrightarrow> http_body f = Some t \<Longrightarrow> contains t ''invalid_request_error'' \<Longrightarrow>
     anthropic_error millis f = Provider (ContextOverflow t)"
  by (simp add: anthropic_error_def)

end
