(* ===== verification/Openai.thy ===== *)
theory Openai
  imports Provider_Stream
begin

section \<open>The client of the OpenAI service\<close>

text \<open>
  \<open>crates/loopal-provider/src/openai\<close>: the items and tools of a request (\<open>input_builder.rs\<close>,
  \<open>server_tool.rs\<close>, \<open>thinking.rs\<close>), its body and errors (\<open>mod.rs\<close>), and the parser of the events
  (\<open>stream.rs\<close>), which keeps no state. \<open>render\<close> prints a JSON value, \<open>read\<close> reads one.
\<close>

subsection \<open>The items of a request\<close>

definition openai_user_part :: "content_block \<Rightarrow> json option" where
  "openai_user_part b =
     (case b of
        Text t \<Rightarrow> Some (JObj [(''type'', JStr ''input_text''), (''text'', JStr t)])
      | Image_block src \<Rightarrow>
          Some (JObj [(''type'', JStr ''input_image''),
                      (''image_url'', JStr (''data:'' @ media_type src @ '';base64,'' @ data src))])
      | _ \<Rightarrow> None)"

definition openai_user_content :: "content_block list \<Rightarrow> json list" where
  "openai_user_content bs = List.map_filter openai_user_part bs"

definition said_item :: "string \<Rightarrow> json list \<Rightarrow> json" where
  "said_item who parts =
     JObj [(''type'', JStr ''message''), (''role'', JStr who), (''content'', JArr parts)]"

definition output_item :: "content_block \<Rightarrow> json option" where
  "output_item b =
     (case b of
        ToolResult i t err compl meta \<Rightarrow>
          Some (JObj [(''type'', JStr ''function_call_output''), (''call_id'', JStr i),
                      (''output'', JStr (if err then ''[error] '' @ t else t))])
      | _ \<Rightarrow> None)"

definition flush_assistant_text :: "json list \<Rightarrow> json list" where
  "flush_assistant_text parts = (if parts = [] then [] else [said_item ''assistant'' parts])"

text \<open>The pending text parts and the blocks that are left.\<close>

fun openai_assistant_items :: "(json \<Rightarrow> string) \<Rightarrow> json list \<Rightarrow> content_block list \<Rightarrow> json list" where
  "openai_assistant_items render parts [] = flush_assistant_text parts"
| "openai_assistant_items render parts (Text t # bs) =
     openai_assistant_items render (parts @ [JObj [(''type'', JStr ''output_text''), (''text'', JStr t)]]) bs"
| "openai_assistant_items render parts (ToolUse i n v # bs) =
     flush_assistant_text parts
     @ JObj [(''type'', JStr ''function_call''), (''call_id'', JStr i), (''name'', JStr n),
             (''arguments'', JStr (render v))]
     # openai_assistant_items render [] bs"
| "openai_assistant_items render parts (ServerToolUse i n v # bs) =
     flush_assistant_text parts
     @ JObj [(''type'', JStr ''web_search_call''), (''id'', JStr i), (''status'', JStr ''completed''),
             (''action'', JObj [(''type'', JStr ''search''),
                (''query'', JStr (case get_str v ''query'' of Some q \<Rightarrow> q | None \<Rightarrow> ''''))])]
     # openai_assistant_items render [] bs"
| "openai_assistant_items render parts (_ # bs) = openai_assistant_items render parts bs"

definition message_items :: "(json \<Rightarrow> string) \<Rightarrow> message \<Rightarrow> json list" where
  "message_items render m =
     (case role m of
        System \<Rightarrow> []
      | User \<Rightarrow>
          (let parts = openai_user_content (content m)
           in (if parts = [] then [] else [said_item ''user'' parts])
              @ List.map_filter output_item (content m))
      | Assistant \<Rightarrow> openai_assistant_items render [] (content m))"

definition openai_input :: "(json \<Rightarrow> string) \<Rightarrow> message list \<Rightarrow> json list" where
  "openai_input render ms = concat (map (message_items render) ms)"

subsection \<open>Tools, thinking and the body\<close>

definition openai_search_tool :: json where
  "openai_search_tool = JObj [(''type'', JStr ''web_search''), (''search_context_size'', JStr ''medium'')]"

definition openai_tools :: "offered_tool list \<Rightarrow> json list" where
  "openai_tools ts =
     map (\<lambda>t. if def_name t = WEB_SEARCH then openai_search_tool
              else JObj [(''type'', JStr ''function''), (''name'', JStr (def_name t)),
                         (''description'', JStr (def_description t)), (''parameters'', def_schema t)]) ts"

definition openai_reasoning :: "thinking_config \<Rightarrow> json" where
  "openai_reasoning c =
     JObj [(''effort'', JStr (case c of
                Thinking_effort l \<Rightarrow>
                  (case l of Effort_low \<Rightarrow> ''low'' | Effort_medium \<Rightarrow> ''medium'' | _ \<Rightarrow> ''high'')
              | _ \<Rightarrow> ''medium'')),
           (''summary'', JStr ''auto'')]"

definition openai_body :: "(json \<Rightarrow> string) \<Rightarrow> chat_params \<Rightarrow> json" where
  "openai_body render p =
     (let tools = openai_tools (chat_tools p);
          body = JObj [(''model'', JStr (chat_model p)), (''stream'', JBool True),
                       (''input'', JArr (openai_input render (chat_messages p))),
                       (''max_output_tokens'', JInt (uint (max_tokens p)))];
          body = set_if (system_prompt p \<noteq> []) ''instructions'' (JStr (system_prompt p)) body;
          body = set_if (tools \<noteq> []) ''tools'' (JArr tools) body;
          body = set_if (tools \<noteq> []) ''tool_choice'' (JStr ''auto'') body
      in case chat_thinking p of
           Some c \<Rightarrow> json_set ''reasoning'' (openai_reasoning c) body
         | None \<Rightarrow> (case temperature p of Some t \<Rightarrow> json_set ''temperature'' t body | None \<Rightarrow> body))"

record openai_client =
  openai_key :: string
  openai_url :: string

definition openai_new :: "string \<Rightarrow> openai_client" where
  "openai_new k = \<lparr>openai_key = k, openai_url = ''https://api.openai.com''\<rparr>"

definition openai_with_base_url :: "string \<Rightarrow> openai_client \<Rightarrow> openai_client" where
  "openai_with_base_url u c = c\<lparr>openai_url := u\<rparr>"

definition openai_endpoint :: "openai_client \<Rightarrow> string" where
  "openai_endpoint c = openai_url c @ ''/v1/responses''"

definition openai_headers :: "openai_client \<Rightarrow> (string \<times> string) list" where
  "openai_headers c = [(''Authorization'', ''Bearer '' @ openai_key c), (''Content-Type'', ''application/json'')]"

definition openai_error :: "(string \<Rightarrow> u64 option) \<Rightarrow> http_failure \<Rightarrow> loopal_failure" where
  "openai_error millis f = plain_error_response ''failed to read body'' millis f"

subsection \<open>The events of an answer\<close>

definition output_item_done :: "(string \<Rightarrow> string + json) \<Rightarrow> json \<Rightarrow> chunks" where
  "output_item_done read item =
     (let ty = json_str_or '''' (jindex item ''type'')
      in if ty = ''function_call'' then
           (let i = json_str_or '''' (jindex item ''call_id''); n = json_str_or '''' (jindex item ''name'');
                v = (case read (json_str_or ''{}'' (jindex item ''arguments'')) of Inr v \<Rightarrow> v | Inl e \<Rightarrow> JObj [])
            in if i \<noteq> [] \<and> n \<noteq> [] then [Inr (Chunk_tool_use i n v)] else [])
         else if ty = ''web_search_call'' then
           (let i = json_str_or '''' (jindex item ''id'');
                q = json_str_or '''' (jindex (jindex item ''action'') ''query'')
            in [Inr (Chunk_server_use i ''web_search'' (JObj [(''query'', JStr q)])),
                Inr (Chunk_server_result ''web_search_tool_result'' i (JObj [(''status'', JStr ''completed'')]))])
         else [])"

definition response_completed :: "json \<Rightarrow> chunks" where
  "response_completed resp =
     (case jget resp ''usage'' of
        None \<Rightarrow> []
      | Some u \<Rightarrow>
          [Inr (Chunk_usage (u32_or_0 (jindex u ''input_tokens'')) (u32_or_0 (jindex u ''output_tokens'')) 0
             (u32_or_0 (jindex (jindex u ''input_tokens_details'') ''cached_tokens''))
             (u32_or_0 (jindex (jindex u ''output_tokens_details'') ''reasoning_tokens'')))])
     @ [Inr (Chunk_done EndTurn)]"

definition response_failed :: "(json \<Rightarrow> string) \<Rightarrow> json \<Rightarrow> loopal_failure" where
  "response_failed render resp =
     Provider
       (case as_object (jindex resp ''error'') of
          None \<Rightarrow> Api 400 (''response.failed: '' @ render resp)
        | Some err \<Rightarrow>
            (let code = (case get_str (JObj err) ''code'' of Some t \<Rightarrow> t | None \<Rightarrow> ''unknown'');
                 msg = (case get_str (JObj err) ''message'' of Some t \<Rightarrow> t | None \<Rightarrow> ''unknown error'')
             in if code = ''rate_limit_exceeded'' then RateLimited 30000
                else if code = ''context_length_exceeded'' then ContextOverflow (code @ '': '' @ msg)
                else Api 400 (code @ '': '' @ msg)))"

definition openai_handle :: "(string \<Rightarrow> string + json) \<Rightarrow> (json \<Rightarrow> string) \<Rightarrow> json \<Rightarrow> unit \<Rightarrow> chunks \<times> unit" where
  "openai_handle read render v s =
     (let ty = json_str_or '''' (jindex v ''type'')
      in (if ty = ''response.output_text.delta'' then
            (case as_str (jindex v ''delta'') of
               Some t \<Rightarrow> if t \<noteq> [] then [Inr (Chunk_text t)] else []
             | None \<Rightarrow> [])
          else if ty = ''response.reasoning_summary_text.delta'' then
            (case as_str (jindex v ''delta'') of Some t \<Rightarrow> [Inr (Chunk_thinking t)] | None \<Rightarrow> [])
          else if ty = ''response.output_item.done'' then output_item_done read (jindex v ''item'')
          else if ty = ''response.completed'' then response_completed (jindex v ''response'')
          else if ty = ''response.failed'' then [Inl (response_failed render (jindex v ''response''))]
          else if ty = ''response.incomplete'' then [Inr (Chunk_done MaxTokens)]
          else [],
          s))"

definition openai_parse :: "(string \<Rightarrow> string + json) \<Rightarrow> (json \<Rightarrow> string) \<Rightarrow> string \<Rightarrow> unit \<Rightarrow> chunks \<times> unit" where
  "openai_parse read render d s =
     (case read d of
        Inl e \<Rightarrow> ([unreadable_event e d], s)
      | Inr v \<Rightarrow> openai_handle read render v s)"

interpretation openai: event_parser "openai_parse read render" "read" "openai_handle read render" for read render
  by unfold_locales (simp_all add: openai_parse_def)

subsection \<open>What the service is sent\<close>

text \<open>The calls, outputs and texts among the items of a request, and those of a conversation.\<close>

definition item_call :: "json \<Rightarrow> (string \<times> string \<times> string) list" where
  "item_call v =
     (if jindex v ''type'' = JStr ''function_call''
      then [(json_str_or '''' (jindex v ''call_id''), json_str_or '''' (jindex v ''name''), json_str_or '''' (jindex v ''arguments''))]
      else [])"

definition item_output :: "json \<Rightarrow> (string \<times> string) list" where
  "item_output v =
     (if jindex v ''type'' = JStr ''function_call_output''
      then [(json_str_or '''' (jindex v ''call_id''), json_str_or '''' (jindex v ''output''))] else [])"

definition item_texts :: "string \<Rightarrow> json \<Rightarrow> string list" where
  "item_texts who v =
     (if jindex v ''role'' = JStr who
      then List.map_filter (\<lambda>c. as_str (jindex c ''text'')) (case as_array (jindex v ''content'') of Some cs \<Rightarrow> cs | None \<Rightarrow> [])
      else [])"

fun made_call :: "(json \<Rightarrow> string) \<Rightarrow> content_block \<Rightarrow> (string \<times> string \<times> string) list" where
  "made_call render (ToolUse i n v) = [(i, n, render v)]"
| "made_call render _ = []"

fun made_output :: "content_block \<Rightarrow> (string \<times> string) list" where
  "made_output (ToolResult i t err compl meta) = [(i, if err then ''[error] '' @ t else t)]"
| "made_output _ = []"

fun said_text :: "content_block \<Rightarrow> string list" where
  "said_text (Text t) = [t]"
| "said_text _ = []"

definition from_role :: "message_role \<Rightarrow> (content_block \<Rightarrow> 'a list) \<Rightarrow> message list \<Rightarrow> 'a list" where
  "from_role who f ms = concat (map (\<lambda>m. if role m = who then concat (map f (content m)) else []) ms)"

lemmas item_defs = item_call_def item_output_def item_texts_def jindex_def json_str_or_def get_str_def

abbreviation part_texts :: "json list \<Rightarrow> string list" where
  "part_texts \<equiv> List.map_filter (\<lambda>c. as_str (jindex c ''text''))"

lemma said_facts:
  "item_call (said_item w ps) = []" "item_output (said_item w ps) = []"
  "item_texts w' (said_item w ps) = (if w = w' then part_texts ps else [])"
  by (simp_all add: said_item_def item_defs)

lemma flush_facts:
  "concat (map item_call (flush_assistant_text ps)) = []"
  "concat (map item_output (flush_assistant_text ps)) = []"
  "concat (map (item_texts w) (flush_assistant_text ps)) = (if w = ''assistant'' then part_texts ps else [])"
  by (simp_all add: flush_assistant_text_def said_facts map_filter_simps)

lemma call_items:
  "item_call (JObj [(''type'', JStr ''function_call''), (''call_id'', JStr i), (''name'', JStr n), (''arguments'', JStr v)])
     = [(i, n, v)]"
  "item_output (JObj [(''type'', JStr ''function_call''), (''call_id'', JStr i), (''name'', JStr n), (''arguments'', JStr v)]) = []"
  "item_texts w (JObj [(''type'', JStr ''function_call''), (''call_id'', JStr i), (''name'', JStr n), (''arguments'', JStr v)]) = []"
  "item_call (JObj [(''type'', JStr ''web_search_call''), (''id'', JStr i), (''status'', JStr st), (''action'', q)]) = []"
  "item_output (JObj [(''type'', JStr ''web_search_call''), (''id'', JStr i), (''status'', JStr st), (''action'', q)]) = []"
  "item_texts w (JObj [(''type'', JStr ''web_search_call''), (''id'', JStr i), (''status'', JStr st), (''action'', q)]) = []"
  by (simp_all add: item_defs)

lemma part_texts_snoc: "part_texts (ps @ [JObj [(''type'', ty), (''text'', JStr t)]]) = part_texts ps @ [t]"
  by (simp add: map_filter_def jindex_def)

lemma assistant_parts:
  "concat (map item_call (openai_assistant_items render parts bs)) = concat (map (made_call render) bs)"
  "concat (map item_output (openai_assistant_items render parts bs)) = []"
  "concat (map (item_texts ''user'') (openai_assistant_items render parts bs)) = []"
  "concat (map (item_texts ''assistant'') (openai_assistant_items render parts bs))
     = part_texts parts @ concat (map said_text bs)"
proof (induction render parts bs rule: openai_assistant_items.induct)
qed (simp_all add: flush_facts call_items part_texts_snoc map_filter_simps del: concat_eq_Nil_conv)

lemma output_item_cases:
  obtains (None) "output_item b = None" "made_output b = []"
  | (Some) v where "output_item b = Some v" "item_call v = []" "item_output v = made_output b"
      "\<And>w. item_texts w v = []"
  by (cases b) (simp_all add: output_item_def item_defs)

lemma output_items:
  "concat (map item_call (List.map_filter output_item bs)) = []"
  "concat (map item_output (List.map_filter output_item bs)) = concat (map made_output bs)"
  "concat (map (item_texts w) (List.map_filter output_item bs)) = []"
proof (induction bs)
  case (Cons b bs)
  show "concat (map item_call (List.map_filter output_item (b # bs))) = []"
    using Cons.IH(1) by (cases b rule: output_item_cases) (simp_all add: map_filter_simps)
  show "concat (map item_output (List.map_filter output_item (b # bs))) = concat (map made_output (b # bs))"
    using Cons.IH(2) by (cases b rule: output_item_cases) (simp_all add: map_filter_simps)
  show "concat (map (item_texts w) (List.map_filter output_item (b # bs))) = []"
    using Cons.IH(3) by (cases b rule: output_item_cases) (simp_all add: map_filter_simps)
qed (simp_all add: map_filter_simps)

lemma user_content_texts: "part_texts (openai_user_content bs) = concat (map said_text bs)"
proof (induction bs)
  case (Cons b bs)
  then show ?case
    by (cases b) (simp_all add: openai_user_content_def openai_user_part_def map_filter_simps jindex_def)
qed (simp add: openai_user_content_def map_filter_simps)

lemma user_parts:
  "concat (map item_call (message_items render m)) = (if role m = Assistant then concat (map (made_call render) (content m)) else [])"
  "concat (map item_output (message_items render m)) = (if role m = User then concat (map made_output (content m)) else [])"
  "concat (map (item_texts ''user'') (message_items render m)) = (if role m = User then concat (map said_text (content m)) else [])"
  "concat (map (item_texts ''assistant'') (message_items render m))
     = (if role m = Assistant then concat (map said_text (content m)) else [])"
proof -
  have none: "openai_user_content bs = [] \<Longrightarrow> concat (map said_text bs) = []" for bs
    using user_content_texts[of bs] by (simp only: map_filter_simps)
  note items = message_items_def Let_def output_items said_facts user_content_texts none assistant_parts
  show "concat (map item_call (message_items render m)) = (if role m = Assistant then concat (map (made_call render) (content m)) else [])"
    by (cases "role m") (simp_all add: items)
  show "concat (map item_output (message_items render m)) = (if role m = User then concat (map made_output (content m)) else [])"
    by (cases "role m") (simp_all add: items)
  show "concat (map (item_texts ''user'') (message_items render m)) = (if role m = User then concat (map said_text (content m)) else [])"
    by (cases "role m") (simp_all add: items del: concat_eq_Nil_conv)
  show "concat (map (item_texts ''assistant'') (message_items render m))
     = (if role m = Assistant then concat (map said_text (content m)) else [])"
    by (cases "role m") (simp_all add: items map_filter_simps)
qed

text \<open>
  The items of a request hold every call of the assistant and every result of the user, each
  under its identifier and in the order of the conversation, failed results named as such, and all
  text of both.
\<close>

theorem openai_input_complete:
  "concat (map item_call (openai_input render ms)) = from_role Assistant (made_call render) ms
   \<and> concat (map item_output (openai_input render ms)) = from_role User made_output ms
   \<and> concat (map (item_texts ''user'') (openai_input render ms)) = from_role User said_text ms
   \<and> concat (map (item_texts ''assistant'') (openai_input render ms)) = from_role Assistant said_text ms"
  by (induction ms) (simp_all add: openai_input_def from_role_def user_parts)

subsection \<open>Streams of answers\<close>

datatype openai_block =
    Output_text "string list"
  | Output_reasoning "string list"
  | Output_call string string json
  | Output_search string string

definition text_event :: "string \<Rightarrow> string \<Rightarrow> json" where
  "text_event ty t = JObj [(''type'', JStr ty), (''delta'', JStr t)]"

definition done_event :: "json \<Rightarrow> json" where
  "done_event item = JObj [(''type'', JStr ''response.output_item.done''), (''item'', item)]"

text \<open>A call is sent as the very item the client sends back for it.\<close>

fun openai_events :: "(json \<Rightarrow> string) \<Rightarrow> openai_block \<Rightarrow> json list" where
  "openai_events render (Output_text ts) = map (text_event ''response.output_text.delta'') ts"
| "openai_events render (Output_reasoning ts) = map (text_event ''response.reasoning_summary_text.delta'') ts"
| "openai_events render (Output_call i n v) = map done_event (openai_assistant_items render [] [ToolUse i n v])"
| "openai_events render (Output_search i q) =
     map done_event (openai_assistant_items render [] [ServerToolUse i ''web_search'' (JObj [(''query'', JStr q)])])"

fun openai_chunks :: "openai_block \<Rightarrow> llm_chunk list" where
  "openai_chunks (Output_text ts) = map Chunk_text (filter (\<lambda>t. t \<noteq> []) ts)"
| "openai_chunks (Output_reasoning ts) = map Chunk_thinking ts"
| "openai_chunks (Output_call i n v) = [Chunk_tool_use i n v]"
| "openai_chunks (Output_search i q) =
     [Chunk_server_use i ''web_search'' (JObj [(''query'', JStr q)]),
      Chunk_server_result ''web_search_tool_result'' i (JObj [(''status'', JStr ''completed'')])]"

fun named_call :: "(string \<Rightarrow> string + json) \<Rightarrow> (json \<Rightarrow> string) \<Rightarrow> openai_block \<Rightarrow> bool" where
  "named_call read render (Output_call i n v) = (i \<noteq> [] \<and> n \<noteq> [] \<and> read (render v) = Inr v)"
| "named_call read render _ = True"

definition completed_event :: "json \<Rightarrow> json" where
  "completed_event resp = JObj [(''type'', JStr ''response.completed''), (''response'', resp)]"

lemma openai_deltas:
  "concat (map (\<lambda>v. fst (openai_handle read render v ())) (map (text_event ''response.output_text.delta'') ts))
     = map (\<lambda>t. Inr (Chunk_text t)) (filter (\<lambda>t. t \<noteq> []) ts)"
  "concat (map (\<lambda>v. fst (openai_handle read render v ())) (map (text_event ''response.reasoning_summary_text.delta'') ts))
     = map (\<lambda>t. Inr (Chunk_thinking t)) ts"
  by (induction ts) (simp_all add: openai_handle_def text_event_def jindex_def json_str_or_def)

lemma openai_done:
  "fst (openai_handle read render (done_event item) ()) = output_item_done read item"
  by (simp add: openai_handle_def done_event_def jindex_def json_str_or_def)

lemma openai_completed:
  "fst (openai_handle read render (completed_event resp) ()) = response_completed resp"
  by (simp add: openai_handle_def completed_event_def jindex_def json_str_or_def)

lemma openai_block_run:
  "named_call read render b \<Longrightarrow>
     concat (map (\<lambda>v. fst (openai_handle read render v ())) (openai_events render b)) = map Inr (openai_chunks b)"
  by (cases b)
    (simp_all add: openai_deltas[unfolded map_map comp_def] openai_done flush_assistant_text_def output_item_done_def
      jindex_def json_str_or_def get_str_def comp_def)

lemma openai_blocks_run:
  "\<forall>b\<in>set bs. named_call read render b \<Longrightarrow>
     concat (map (\<lambda>v. fst (openai_handle read render v ())) (concat (map (openai_events render) bs)))
       = map Inr (concat (map openai_chunks bs))"
  by (induction bs) (simp_all add: openai_block_run)

text \<open>
  The answer of the service comes through, and a call of a tool survives the way to the client
  and back: however text and summaries are cut, the client yields them and the calls in the order
  of the service, then the usage and the end; and a call that arrives as the item the client itself
  sends for it is the same call.
\<close>

theorem openai_answer_comes_through:
  assumes "\<forall>b\<in>set bs. named_call read render b"
    and "map read ds = map Inr (concat (map (openai_events render) bs) @ [completed_event resp])"
    and "''[DONE]'' \<notin> set ds"
  shows "drain (openai_parse read render) \<lparr>incoming_events = map Event_data ds, parser_state = (), buffered = []\<rparr>
    = map Inr (concat (map openai_chunks bs)) @ response_completed resp"
  using openai.arrivals_run[OF assms(2,3)] openai_blocks_run[OF assms(1)]
  by (simp add: run_events_stateless openai_completed)

theorem openai_answer_comes_through_witness:
  "drain (openai_parse (\<lambda>d. if d = ''a'' then Inr (text_event ''response.output_text.delta'' ''Hi'')
        else Inr (completed_event JNull)) (\<lambda>_. ''''))
      \<lparr>incoming_events = [Event_data ''a'', Event_data ''b''], parser_state = (), buffered = []\<rparr>
    = [Inr (Chunk_text ''Hi''), Inr (Chunk_done EndTurn)]"
  using openai_answer_comes_through[of "[Output_text [''Hi'']]"
      "\<lambda>d. if d = ''a'' then Inr (text_event ''response.output_text.delta'' ''Hi'') else Inr (completed_event JNull)"
      "\<lambda>_. ''''" "[''a'', ''b'']" JNull]
  by (simp add: response_completed_def)

subsection \<open>A response that is cut short\<close>

text \<open>The usage of an incomplete response is not reported, and its reason is not looked at.\<close>

lemma incomplete_forgets_usage:
  "fst (openai_handle read render (JObj [(''type'', JStr ''response.incomplete''), (''response'', resp)]) ())
     = [Inr (Chunk_done MaxTokens)]"
  by (simp add: openai_handle_def jindex_def json_str_or_def)

end
