(* ===== verification/Google.thy ===== *)
theory Google
  imports Provider_Stream
begin

section \<open>The client of the Google service\<close>

text \<open>
  \<open>crates/loopal-provider/src/google\<close>: the contents and tools of a request (\<open>request.rs\<close>,
  \<open>server_tool.rs\<close>, \<open>thinking.rs\<close>), its body and errors (\<open>mod.rs\<close>), and the parser of the events
  (\<open>stream.rs\<close>). The service gives its calls no identifiers; \<open>fresh n\<close> is the text of the n-th
  identifier the client draws, and the state of the parser is the counter.
\<close>

subsection \<open>The contents of a request\<close>

definition first_titles :: "json list \<Rightarrow> string list" where
  "first_titles vs = take 3 (List.map_filter (\<lambda>v. get_str v ''title'') vs)"

definition summarize_search_result :: "(json \<Rightarrow> string) \<Rightarrow> json \<Rightarrow> string" where
  "summarize_search_result render v =
     (let titles = (case as_array v of Some vs \<Rightarrow> first_titles vs | None \<Rightarrow> [])
      in if titles \<noteq> [] then str_join '', '' titles
         else let s = render v
              in if length s \<le> 100 then s else take (floor_boundary s 97) s @ ''...'')"

fun google_part :: "(json \<Rightarrow> string) \<Rightarrow> content_block \<Rightarrow> json" where
  "google_part render (Text t) = JObj [(''text'', JStr t)]"
| "google_part render (ToolUse i n v) =
     JObj [(''functionCall'', JObj [(''name'', JStr n), (''args'', v)])]"
| "google_part render (ToolResult i t err compl meta) =
     JObj [(''functionResponse'', JObj [(''name'', JStr ''''), (''response'', JObj [(''result'', JStr t)])])]"
| "google_part render (Image_block src) =
     JObj [(''inlineData'', JObj [(''mimeType'', JStr (media_type src)), (''data'', JStr (data src))])]"
| "google_part render (Thinking t sg) = JObj [(''text'', JStr t), (''thought'', JBool True)]"
| "google_part render (ServerToolUse i n v) =
     JObj [(''text'', JStr (''[server tool: '' @ n @ ''(''
        @ (case get_str v ''query'' of Some q \<Rightarrow> q | None \<Rightarrow> '''') @ '')]''))]"
| "google_part render (ServerToolResult ty i v) =
     JObj [(''text'', JStr (''[server tool result: '' @ summarize_search_result render v @ '']''))]"

definition google_content :: "(json \<Rightarrow> string) \<Rightarrow> message \<Rightarrow> json" where
  "google_content render m =
     JObj [(''role'', JStr (if role m = User then ''user'' else ''model'')),
           (''parts'', JArr (map (google_part render) (content m)))]"

definition google_contents :: "(json \<Rightarrow> string) \<Rightarrow> message list \<Rightarrow> json list" where
  "google_contents render ms = map (google_content render) (filter (\<lambda>m. role m \<noteq> System) ms)"

subsection \<open>Tools, thinking and the body\<close>

definition google_search_tool :: json where
  "google_search_tool = JObj [(''googleSearch'', JObj [])]"

definition google_tools :: "offered_tool list \<Rightarrow> json list" where
  "google_tools ts =
     (let decls = map (\<lambda>t. JObj [(''name'', JStr (def_name t)), (''description'', JStr (def_description t)),
                                 (''parameters'', def_schema t)]) (filter (\<lambda>t. def_name t \<noteq> WEB_SEARCH) ts)
      in (if decls = [] then [] else [JObj [(''functionDeclarations'', JArr decls)]])
         @ (if list_ex (\<lambda>t. def_name t = WEB_SEARCH) ts then [google_search_tool] else []))"

definition google_thinking :: "thinking_config \<Rightarrow> json" where
  "google_thinking c =
     (case c of
        Thinking_effort l \<Rightarrow>
          JObj [(''thinkingBudget'', JInt (case l of Effort_low \<Rightarrow> 1024 | Effort_medium \<Rightarrow> 8192
                                                   | Effort_high \<Rightarrow> 16384 | Effort_max \<Rightarrow> 32768)),
                (''includeThoughts'', JBool True)]
      | Thinking_tokens n \<Rightarrow> JObj [(''thinkingBudget'', JInt (uint n)), (''includeThoughts'', JBool True)]
      | _ \<Rightarrow> JObj [(''includeThoughts'', JBool True)])"

text \<open>\<open>body[k][k'] = v\<close>.\<close>

definition json_set_in :: "string \<Rightarrow> string \<Rightarrow> json \<Rightarrow> json \<Rightarrow> json" where
  "json_set_in k k' v w = json_set k (json_set k' v (jindex w k)) w"

definition google_body :: "(json \<Rightarrow> string) \<Rightarrow> chat_params \<Rightarrow> json" where
  "google_body render p =
     (let tools = google_tools (chat_tools p);
          body = JObj [(''contents'', JArr (google_contents render (normalize_messages (chat_messages p)))),
                       (''generationConfig'', JObj [(''maxOutputTokens'', JInt (uint (max_tokens p)))])];
          body = set_if (system_prompt p \<noteq> []) ''systemInstruction''
                   (JObj [(''parts'', JArr [JObj [(''text'', JStr (system_prompt p))]])]) body;
          body = set_if (tools \<noteq> []) ''tools'' (JArr tools) body;
          body = (case temperature p of
                    Some t \<Rightarrow> json_set_in ''generationConfig'' ''temperature'' t body | None \<Rightarrow> body)
      in case chat_thinking p of
           Some c \<Rightarrow> json_set_in ''generationConfig'' ''thinkingConfig'' (google_thinking c) body
         | None \<Rightarrow> body)"

record google_client =
  google_key :: string
  google_url :: string

definition google_new :: "string \<Rightarrow> google_client" where
  "google_new k = \<lparr>google_key = k, google_url = ''https://generativelanguage.googleapis.com/v1beta''\<rparr>"

definition google_with_base_url :: "string \<Rightarrow> google_client \<Rightarrow> google_client" where
  "google_with_base_url u c = c\<lparr>google_url := u\<rparr>"

definition google_endpoint :: "google_client \<Rightarrow> string \<Rightarrow> string" where
  "google_endpoint c model =
     google_url c @ ''/models/'' @ model @ '':streamGenerateContent?alt=sse&key='' @ google_key c"

definition google_error :: "(string \<Rightarrow> u64 option) \<Rightarrow> http_failure \<Rightarrow> loopal_failure" where
  "google_error millis f = plain_error_response ''failed to read body'' millis f"

subsection \<open>The events of an answer\<close>

definition google_usage :: "json \<Rightarrow> chunks" where
  "google_usage v =
     (case jget v ''usageMetadata'' of
        None \<Rightarrow> []
      | Some u \<Rightarrow>
          (let i = u32_or_0 (jindex u ''promptTokenCount''); out = u32_or_0 (jindex u ''candidatesTokenCount'')
           in if 0 < i \<or> 0 < out then [Inr (Chunk_usage i out 0 0 (u32_or_0 (jindex u ''thoughtsTokenCount'')))]
              else []))"

definition part_text :: "json \<Rightarrow> chunks" where
  "part_text v =
     (case as_str (jindex v ''text'') of
        Some t \<Rightarrow>
          if t = [] then []
          else if Option.bind (jget v ''thought'') as_bool = Some True then [Inr (Chunk_thinking t)]
          else [Inr (Chunk_text t)]
      | None \<Rightarrow> [])"

definition part_call :: "(nat \<Rightarrow> string) \<Rightarrow> json \<Rightarrow> nat \<Rightarrow> chunks \<times> nat" where
  "part_call fresh v n =
     (case jget v ''functionCall'' of
        None \<Rightarrow> ([], n)
      | Some c \<Rightarrow>
          ([Inr (Chunk_tool_use (''call_'' @ fresh n) (json_str_or '''' (jindex c ''name''))
              (case jget c ''args'' of Some w \<Rightarrow> w | None \<Rightarrow> JObj []))], n + 1))"

definition handle_part :: "(nat \<Rightarrow> string) \<Rightarrow> json \<Rightarrow> nat \<Rightarrow> chunks \<times> nat" where
  "handle_part fresh v n = apfst (\<lambda>cs. part_text v @ cs) (part_call fresh v n)"

definition finish_chunks :: "string option \<Rightarrow> chunks" where
  "finish_chunks r =
     (if r = Some ''MAX_TOKENS'' then [Inr (Chunk_done MaxTokens)]
      else if r = Some ''STOP'' then [Inr (Chunk_done EndTurn)] else [])"

definition grounding_source :: "json \<Rightarrow> json option" where
  "grounding_source v =
     map_option (\<lambda>web. JObj [(''url'', JStr (case get_str web ''uri'' of Some t \<Rightarrow> t | None \<Rightarrow> '''')),
                            (''title'', JStr (case get_str web ''title'' of Some t \<Rightarrow> t | None \<Rightarrow> ''''))])
       (jget v ''web'')"

definition grounding_chunks :: "(nat \<Rightarrow> string) \<Rightarrow> json option \<Rightarrow> nat \<Rightarrow> chunks \<times> nat" where
  "grounding_chunks fresh meta n =
     (case Option.bind meta (\<lambda>v. as_array (jindex v ''groundingChunks'')) of
        None \<Rightarrow> ([], n)
      | Some gs \<Rightarrow>
          if gs = [] then ([], n)
          else let i = ''gs_'' @ fresh n
               in ([Inr (Chunk_server_use i ''google_search'' (JObj [])),
                    Inr (Chunk_server_result ''web_search_tool_result'' i (JArr (List.map_filter grounding_source gs)))],
                   n + 1))"

definition array_of :: "json \<Rightarrow> json list" where
  "array_of v = (case as_array v of Some vs \<Rightarrow> vs | None \<Rightarrow> [])"

definition handle_candidate :: "(nat \<Rightarrow> string) \<Rightarrow> json \<Rightarrow> nat \<Rightarrow> chunks \<times> nat" where
  "handle_candidate fresh v n =
     (case run_events (handle_part fresh) (array_of (jindex (jindex v ''content'') ''parts'')) n of
        (cs, n) \<Rightarrow>
          apfst (\<lambda>ds. cs @ finish_chunks (as_str (jindex v ''finishReason'')) @ ds)
            (grounding_chunks fresh (jget v ''groundingMetadata'') n))"

definition google_handle :: "(nat \<Rightarrow> string) \<Rightarrow> json \<Rightarrow> nat \<Rightarrow> chunks \<times> nat" where
  "google_handle fresh v n =
     apfst (\<lambda>cs. google_usage v @ cs) (run_events (handle_candidate fresh) (array_of (jindex v ''candidates'')) n)"

definition google_parse :: "(string \<Rightarrow> string + json) \<Rightarrow> (nat \<Rightarrow> string) \<Rightarrow> string \<Rightarrow> nat \<Rightarrow> chunks \<times> nat" where
  "google_parse read fresh d n =
     (case read d of
        Inl e \<Rightarrow> ([unreadable_event e d], n)
      | Inr v \<Rightarrow> google_handle fresh v n)"

interpretation google: event_parser "google_parse read fresh" "read" "google_handle fresh" for read fresh
  by unfold_locales (simp_all add: google_parse_def)

subsection \<open>The calls of an answer\<close>

fun chunk_tool_call :: "loopal_failure + llm_chunk \<Rightarrow> (string \<times> string \<times> json) list" where
  "chunk_tool_call (Inr (Chunk_tool_use i n v)) = [(i, n, v)]"
| "chunk_tool_call _ = []"

definition calls_among :: "chunks \<Rightarrow> (string \<times> string \<times> json) list" where
  "calls_among cs = concat (map chunk_tool_call cs)"

text \<open>The specification: the function calls an event holds.\<close>

definition spoken_call :: "json \<Rightarrow> (string \<times> json) list" where
  "spoken_call part =
     (case jget part ''functionCall'' of
        None \<Rightarrow> []
      | Some c \<Rightarrow> [(json_str_or '''' (jindex c ''name''), case jget c ''args'' of Some w \<Rightarrow> w | None \<Rightarrow> JObj [])])"

definition candidate_calls :: "json \<Rightarrow> (string \<times> json) list" where
  "candidate_calls v = concat (map spoken_call (array_of (jindex (jindex v ''content'') ''parts'')))"

definition event_calls :: "json \<Rightarrow> (string \<times> json) list" where
  "event_calls v = concat (map candidate_calls (array_of (jindex v ''candidates'')))"

text \<open>
  The chunks \<open>cs\<close>, drawn while the counter goes from \<open>n\<close> to \<open>m\<close>, hold the calls \<open>ks\<close>, each with an
  identifier of its own.
\<close>

definition draws :: "(nat \<Rightarrow> string) \<Rightarrow> nat \<Rightarrow> chunks \<Rightarrow> (string \<times> json) list \<Rightarrow> nat \<Rightarrow> bool" where
  "draws fresh n cs ks m \<longleftrightarrow> n \<le> m \<and> map snd (calls_among cs) = ks
     \<and> (\<exists>ns. sorted_wrt (<) ns \<and> set ns \<subseteq> {n..<m} \<and> map fst (calls_among cs) = map (\<lambda>k. ''call_'' @ fresh k) ns)"

lemma calls_among_append [simp]: "calls_among (cs @ ds) = calls_among cs @ calls_among ds"
  by (simp add: calls_among_def)

lemma draws_none: "calls_among cs = [] \<Longrightarrow> n \<le> m \<Longrightarrow> draws fresh n cs [] m"
  by (auto simp: draws_def intro: exI[of _ "[]"])

lemma draws_append:
  assumes "draws fresh n cs ks m" "draws fresh m ds js l"
  shows "draws fresh n (cs @ ds) (ks @ js) l"
proof -
  from assms obtain ns ms where
    "sorted_wrt (<) ns" "set ns \<subseteq> {n..<m}" "map fst (calls_among cs) = map (\<lambda>k. ''call_'' @ fresh k) ns"
    "sorted_wrt (<) ms" "set ms \<subseteq> {m..<l}" "map fst (calls_among ds) = map (\<lambda>k. ''call_'' @ fresh k) ms"
    unfolding draws_def by blast
  with assms have "sorted_wrt (<) (ns @ ms) \<and> set (ns @ ms) \<subseteq> {n..<l}
      \<and> map fst (calls_among (cs @ ds)) = map (\<lambda>k. ''call_'' @ fresh k) (ns @ ms)"
    by (fastforce simp: draws_def sorted_wrt_append)
  then have "\<exists>js. sorted_wrt (<) js \<and> set js \<subseteq> {n..<l}
      \<and> map fst (calls_among (cs @ ds)) = map (\<lambda>k. ''call_'' @ fresh k) js" by blast
  moreover have "n \<le> l" "map snd (calls_among (cs @ ds)) = ks @ js"
    using assms by (simp_all add: draws_def)
  ultimately show ?thesis unfolding draws_def by blast
qed

lemma draws_one:
  "draws fresh n [Inr (Chunk_tool_use (''call_'' @ fresh n) nm v)] [(nm, v)] (n + 1)"
  by (auto simp: draws_def calls_among_def intro!: exI[of _ "[n]"])

lemma draws_run:
  assumes "\<And>v n. draws fresh n (fst (handle v n)) (calls v) (snd (handle v n))"
  shows "draws fresh n (fst (run_events handle vs n)) (concat (map calls vs)) (snd (run_events handle vs n))"
proof (induction vs arbitrary: n)
  case (Cons v vs)
  show ?case
    using draws_append[OF assms[of n v] Cons.IH[of "snd (handle v n)"]]
    by (simp add: case_prod_beta)
qed (simp add: draws_none calls_among_def)

lemma draws_part: "draws fresh n (fst (handle_part fresh v n)) (spoken_call v) (snd (handle_part fresh v n))"
proof -
  have none: "draws fresh n (part_text v) [] n"
    by (rule draws_none; cases "as_str (jindex v ''text'')") (simp_all add: part_text_def calls_among_def)
  have "draws fresh n (fst (part_call fresh v n)) (spoken_call v) (snd (part_call fresh v n))"
  proof (cases "jget v ''functionCall''")
    case None
    then show ?thesis by (simp add: part_call_def spoken_call_def draws_none calls_among_def)
  next
    case (Some c)
    then show ?thesis
      using draws_one[of fresh n "json_str_or '''' (jindex c ''name'')"
          "case jget c ''args'' of Some w \<Rightarrow> w | None \<Rightarrow> JObj []"]
      by (simp add: part_call_def spoken_call_def)
  qed
  from draws_append[OF none this] show ?thesis by (simp add: handle_part_def)
qed

lemma draws_grounding: "draws fresh n (fst (grounding_chunks fresh meta n)) [] (snd (grounding_chunks fresh meta n))"
  by (rule draws_none) (simp_all add: grounding_chunks_def calls_among_def Let_def split: option.split)

lemma draws_candidate:
  "draws fresh n (fst (handle_candidate fresh v n)) (candidate_calls v) (snd (handle_candidate fresh v n))"
proof -
  let ?run = "run_events (handle_part fresh) (array_of (jindex (jindex v ''content'') ''parts'')) n"
  let ?fin = "finish_chunks (as_str (jindex v ''finishReason''))"
  have parts: "draws fresh n (fst ?run) (candidate_calls v) (snd ?run)"
    unfolding candidate_calls_def by (rule draws_run) (rule draws_part)
  have finish: "draws fresh (snd ?run) ?fin [] (snd ?run)"
    by (rule draws_none) (simp_all add: finish_chunks_def calls_among_def)
  from draws_append[OF parts draws_append[OF finish draws_grounding[of fresh "snd ?run" "jget v ''groundingMetadata''"]]]
  show ?thesis by (simp add: handle_candidate_def case_prod_beta)
qed

lemma draws_event: "draws fresh n (fst (google_handle fresh v n)) (event_calls v) (snd (google_handle fresh v n))"
proof -
  have usage: "draws fresh n (google_usage v) [] n"
    by (rule draws_none; cases "jget v ''usageMetadata''") (simp_all add: google_usage_def calls_among_def Let_def)
  have "draws fresh n (fst (run_events (handle_candidate fresh) (array_of (jindex v ''candidates'')) n)) (event_calls v)
     (snd (run_events (handle_candidate fresh) (array_of (jindex v ''candidates'')) n))"
    unfolding event_calls_def by (rule draws_run) (rule draws_candidate)
  from draws_append[OF usage this] show ?thesis by (simp add: google_handle_def)
qed

text \<open>
  Calls without identifiers are told apart. Of any events, the client yields the function calls
  of all candidates in their order, with their names and arguments, and no two calls of a stream
  have the same identifier, as long as the client never draws one twice.
\<close>

theorem google_calls_told_apart:
  assumes "inj fresh" and "map read ds = map Inr vs" and "''[DONE]'' \<notin> set ds"
  shows "map snd (calls_among (drain (google_parse read fresh)
        \<lparr>incoming_events = map Event_data ds, parser_state = n, buffered = []\<rparr>)) = concat (map event_calls vs)
    \<and> distinct (map fst (calls_among (drain (google_parse read fresh)
        \<lparr>incoming_events = map Event_data ds, parser_state = n, buffered = []\<rparr>)))"
proof -
  have "draws fresh n (fst (run_events (google_handle fresh) vs n)) (concat (map event_calls vs))
     (snd (run_events (google_handle fresh) vs n))"
    by (rule draws_run) (rule draws_event)
  moreover have "distinct (map (\<lambda>k. ''call_'' @ fresh k) ns)" if "sorted_wrt (<) ns" for ns
    using that assms(1) by (auto simp: distinct_map inj_on_def inj_def strict_sorted_iff)
  ultimately show ?thesis
    unfolding google.arrivals_run[OF assms(2,3)] draws_def by fastforce
qed

definition call_event :: "string \<Rightarrow> json" where
  "call_event n =
     JObj [(''candidates'', JArr [JObj [(''content'', JObj [(''parts'',
        JArr [JObj [(''functionCall'', JObj [(''name'', JStr n)])]])])]])]"

theorem google_calls_told_apart_witness:
  "map snd (calls_among (drain (google_parse (\<lambda>d. Inr (call_event d)) (\<lambda>n. replicate n (CHR ''x'')))
        \<lparr>incoming_events = [Event_data ''Ls'', Event_data ''Ls''], parser_state = 0, buffered = []\<rparr>))
     = [(''Ls'', JObj []), (''Ls'', JObj [])]
   \<and> distinct (map fst (calls_among (drain (google_parse (\<lambda>d. Inr (call_event d)) (\<lambda>n. replicate n (CHR ''x'')))
        \<lparr>incoming_events = [Event_data ''Ls'', Event_data ''Ls''], parser_state = 0, buffered = []\<rparr>)))"
proof -
  have "inj (\<lambda>n. replicate n (CHR ''x''))" by (metis injI length_replicate)
  from google_calls_told_apart[OF this, of "\<lambda>d. Inr (call_event d)" "[''Ls'', ''Ls'']"
      "[call_event ''Ls'', call_event ''Ls'']" 0]
  show ?thesis
    by (simp add: call_event_def event_calls_def candidate_calls_def spoken_call_def array_of_def jindex_def json_str_or_def)
qed

subsection \<open>What the service is not told\<close>

text \<open>A result is sent without the name or identifier of its call, and without saying that it failed.\<close>

lemma results_anonymous:
  "google_part render (ToolResult i t err compl meta) = google_part render (ToolResult j t err' compl' meta')"
  by simp

end
