(* ===== verification/Compat.thy ===== *)
theory Compat
  imports Provider_Stream
begin

section \<open>The client of compatible services\<close>

text \<open>
  \<open>crates/loopal-provider/src/openai_compat\<close>, for services with the Chat Completions interface: the
  messages and tools of a request (\<open>message_builder.rs\<close>), its body and errors (\<open>mod.rs\<close>), and the
  parser of the events with its accumulator of calls (\<open>stream.rs\<close>).
\<close>

subsection \<open>The messages of a request\<close>

definition compat_plain :: "string \<Rightarrow> string \<Rightarrow> json" where
  "compat_plain who t = JObj [(''role'', JStr who), (''content'', JStr t)]"

definition compat_user_block :: "content_block \<Rightarrow> json option" where
  "compat_user_block b =
     (case b of
        Text t \<Rightarrow> Some (compat_plain ''user'' t)
      | ToolResult i t err compl meta \<Rightarrow>
          Some (JObj [(''role'', JStr ''tool''), (''tool_call_id'', JStr i), (''content'', JStr t)])
      | _ \<Rightarrow> None)"

definition compat_call :: "(json \<Rightarrow> string) \<Rightarrow> content_block \<Rightarrow> json option" where
  "compat_call render b =
     (case b of
        ToolUse i n v \<Rightarrow>
          Some (JObj [(''id'', JStr i), (''type'', JStr ''function''),
                      (''function'', JObj [(''name'', JStr n), (''arguments'', JStr (render v))])])
      | _ \<Rightarrow> None)"

definition compat_assistant :: "(json \<Rightarrow> string) \<Rightarrow> content_block list \<Rightarrow> json" where
  "compat_assistant render bs =
     (let t = concat (map (\<lambda>b. case b of Text t \<Rightarrow> t | _ \<Rightarrow> []) bs);
          calls = List.map_filter (compat_call render) bs
      in set_if (calls \<noteq> []) ''tool_calls'' (JArr calls)
           (set_if (t \<noteq> []) ''content'' (JStr t) (JObj [(''role'', JStr ''assistant'')])))"

definition compat_message :: "(json \<Rightarrow> string) \<Rightarrow> message \<Rightarrow> json list" where
  "compat_message render m =
     (case role m of
        System \<Rightarrow> [compat_plain ''system'' (text_content m)]
      | User \<Rightarrow> List.map_filter compat_user_block (content m)
      | Assistant \<Rightarrow> [compat_assistant render (content m)])"

definition compat_messages :: "(json \<Rightarrow> string) \<Rightarrow> string \<Rightarrow> message list \<Rightarrow> json list" where
  "compat_messages render prompt ms =
     (if prompt \<noteq> [] then [compat_plain ''system'' prompt] else [])
     @ concat (map (compat_message render) ms)"

definition compat_tools :: "offered_tool list \<Rightarrow> json list" where
  "compat_tools ts =
     map (\<lambda>t. JObj [(''type'', JStr ''function''),
                    (''function'', JObj [(''name'', JStr (def_name t)), (''description'', JStr (def_description t)),
                                        (''parameters'', def_schema t)])]) ts"

definition compat_body :: "(json \<Rightarrow> string) \<Rightarrow> chat_params \<Rightarrow> json" where
  "compat_body render p =
     (let tools = compat_tools (chat_tools p);
          body = JObj [(''model'', JStr (chat_model p)), (''stream'', JBool True),
                       (''messages'', JArr (compat_messages render (system_prompt p) (chat_messages p))),
                       (''max_completion_tokens'', JInt (uint (max_tokens p)))];
          body = set_if (tools \<noteq> []) ''tools'' (JArr tools) body;
          body = (case temperature p of Some t \<Rightarrow> json_set ''temperature'' t body | None \<Rightarrow> body)
      in json_set ''stream_options'' (JObj [(''include_usage'', JBool True)]) body)"

record compat_client =
  compat_key :: string
  compat_url :: string
  compat_name :: string

definition compat_new :: "string \<Rightarrow> string \<Rightarrow> string \<Rightarrow> compat_client" where
  "compat_new k u n = \<lparr>compat_key = k, compat_url = u, compat_name = n\<rparr>"

definition compat_endpoint :: "compat_client \<Rightarrow> string" where
  "compat_endpoint c = compat_url c @ ''/v1/chat/completions''"

definition compat_headers :: "compat_client \<Rightarrow> (string \<times> string) list" where
  "compat_headers c = [(''Authorization'', ''Bearer '' @ compat_key c), (''Content-Type'', ''application/json'')]"

definition compat_error :: "(string \<Rightarrow> u64 option) \<Rightarrow> http_failure \<Rightarrow> loopal_failure" where
  "compat_error millis f = plain_error_response '''' millis f"

subsection \<open>The events of an answer\<close>

text \<open>A pending call: its identifier, its name and the text of its arguments so far.\<close>

type_synonym partial_call = "string \<times> string \<times> string"

definition pad_calls :: "nat \<Rightarrow> partial_call list \<Rightarrow> partial_call list" where
  "pad_calls k calls = calls @ replicate (Suc k - length calls) ([], [], [])"

definition fill_call :: "json \<Rightarrow> partial_call \<Rightarrow> partial_call" where
  "fill_call tc c =
     (case c of (i, n, a) \<Rightarrow>
        (case as_str (jindex tc ''id'') of Some t \<Rightarrow> t | None \<Rightarrow> i,
         case as_str (jindex (jindex tc ''function'') ''name'') of Some t \<Rightarrow> t | None \<Rightarrow> n,
         case as_str (jindex (jindex tc ''function'') ''arguments'') of Some t \<Rightarrow> a @ t | None \<Rightarrow> a))"

definition add_call_delta :: "json \<Rightarrow> partial_call list \<Rightarrow> partial_call list" where
  "add_call_delta tc calls =
     (let k = (case as_u64 (jindex tc ''index'') of Some k \<Rightarrow> k | None \<Rightarrow> 0)
      in if 128 < k then calls
         else let padded = pad_calls k calls in padded[k := fill_call tc (padded ! k)])"

definition drain_calls :: "(string \<Rightarrow> string + json) \<Rightarrow> partial_call list \<Rightarrow> chunks" where
  "drain_calls read calls =
     List.map_filter (\<lambda>(i, n, a).
       if i \<noteq> [] \<and> n \<noteq> []
       then Some (Inr (Chunk_tool_use i n (case read a of Inr v \<Rightarrow> v | Inl e \<Rightarrow> JObj []))) else None) calls"

definition handle_choice :: "(string \<Rightarrow> string + json) \<Rightarrow> json \<Rightarrow> partial_call list \<Rightarrow> chunks \<times> partial_call list" where
  "handle_choice read v calls =
     (let d = jindex v ''delta'';
          finish = as_str (jindex v ''finish_reason'');
          said = (case as_str (jindex d ''content'') of
                    Some t \<Rightarrow> if t \<noteq> [] then [Inr (Chunk_text t)] else [] | None \<Rightarrow> []);
          calls = (case as_array (jindex d ''tool_calls'') of
                     Some tcs \<Rightarrow> fold add_call_delta tcs calls | None \<Rightarrow> calls)
      in if finish = Some ''tool_calls'' then (said @ drain_calls read calls, [])
         else if finish = Some ''stop'' then (said @ drain_calls read calls @ [Inr (Chunk_done EndTurn)], [])
         else if finish = Some ''length'' then (said @ drain_calls read calls @ [Inr (Chunk_done MaxTokens)], [])
         else (said, calls))"

definition compat_usage :: "json \<Rightarrow> chunks" where
  "compat_usage v =
     (case jget v ''usage'' of
        None \<Rightarrow> []
      | Some u \<Rightarrow>
          if u = JNull then []
          else (case (as_u64 (jindex u ''prompt_tokens''), as_u64 (jindex u ''completion_tokens'')) of
                  (Some i, Some out) \<Rightarrow>
                    [Inr (Chunk_usage (word_of_nat i) (word_of_nat out) 0 0
                       (u32_or_0 (jindex (jindex u ''completion_tokens_details'') ''reasoning_tokens'')))]
                | _ \<Rightarrow> []))"

definition compat_handle :: "(string \<Rightarrow> string + json) \<Rightarrow> json \<Rightarrow> partial_call list \<Rightarrow> chunks \<times> partial_call list" where
  "compat_handle read v calls =
     apfst (\<lambda>cs. compat_usage v @ cs)
       (case as_array (jindex v ''choices'') of
          None \<Rightarrow> ([], calls)
        | Some choices \<Rightarrow> run_events (handle_choice read) choices calls)"

definition compat_parse :: "(string \<Rightarrow> string + json) \<Rightarrow> string \<Rightarrow> partial_call list \<Rightarrow> chunks \<times> partial_call list" where
  "compat_parse read d calls =
     (case read d of
        Inl e \<Rightarrow> ([unreadable_event e d], calls)
      | Inr v \<Rightarrow> compat_handle read v calls)"

interpretation compat: event_parser "compat_parse read" "read" "compat_handle read" for read
  by unfold_locales (simp_all add: compat_parse_def)

subsection \<open>The calls of an answer\<close>

text \<open>
  The specification: what the deltas say of the call at an index, whatever else they say between,
  and how many calls there are. Deltas beyond index 128 do not count.
\<close>

definition call_index :: "json \<Rightarrow> nat" where
  "call_index tc = (case as_u64 (jindex tc ''index'') of Some k \<Rightarrow> k | None \<Rightarrow> 0)"

definition counted_deltas :: "json list \<Rightarrow> json list" where
  "counted_deltas tcs = filter (\<lambda>tc. call_index tc \<le> 128) tcs"

definition call_at :: "json list \<Rightarrow> nat \<Rightarrow> partial_call" where
  "call_at tcs k = fold fill_call (filter (\<lambda>tc. call_index tc = k) (counted_deltas tcs)) ([], [], [])"

definition calls_needed :: "json list \<Rightarrow> nat" where
  "calls_needed tcs = Max (insert 0 ((\<lambda>tc. Suc (call_index tc)) ` set (counted_deltas tcs)))"

lemma add_call_delta_alt:
  "add_call_delta tc calls =
     (if 128 < call_index tc then calls
      else (pad_calls (call_index tc) calls)[call_index tc := fill_call tc (pad_calls (call_index tc) calls ! call_index tc)])"
  by (simp add: add_call_delta_def call_index_def Let_def)

lemma calls_needed_bound: "calls_needed tcs \<le> 129"
  by (auto simp: calls_needed_def counted_deltas_def)

lemma call_at_beyond:
  assumes "calls_needed tcs \<le> k" shows "call_at tcs k = ([], [], [])"
proof -
  have "filter (\<lambda>tc. call_index tc = k) (counted_deltas tcs) = []"
    using assms by (fastforce simp: calls_needed_def filter_empty_conv)
  then show ?thesis by (simp add: call_at_def)
qed

lemma pad_calls_spec:
  assumes "\<And>j. n \<le> j \<Longrightarrow> f j = ([], [], [])"
  shows "pad_calls k (map f [0..<n]) = map f [0..<max n (Suc k)]"
proof (rule nth_equalityI)
  fix j assume "j < length (pad_calls k (map f [0..<n]))"
  then show "pad_calls k (map f [0..<n]) ! j = map f [0..<max n (Suc k)] ! j"
    using assms by (auto simp: pad_calls_def nth_append)
qed (simp add: pad_calls_def)

lemma fold_calls:
  "fold add_call_delta tcs [] = map (call_at tcs) [0..<calls_needed tcs]"
proof (induction tcs rule: rev_induct)
  case (snoc tc tcs)
  show ?case
  proof (cases "call_index tc \<le> 128")
    case False
    then have "calls_needed (tcs @ [tc]) = calls_needed tcs" "call_at (tcs @ [tc]) = call_at tcs"
      by (auto simp: calls_needed_def call_at_def counted_deltas_def)
    with False snoc show ?thesis by (simp add: add_call_delta_alt)
  next
    case True
    let ?k = "call_index tc" and ?n = "calls_needed tcs"
    have "set (counted_deltas (tcs @ [tc])) = insert tc (set (counted_deltas tcs))"
      using True by (simp add: counted_deltas_def)
    then have need: "calls_needed (tcs @ [tc]) = max ?n (Suc ?k)"
      unfolding calls_needed_def
      by (simp only: image_insert insert_commute[of 0] Max_insert finite_insert finite_imageI finite_set
          insert_not_empty max.commute not_False_eq_True)
    have at: "call_at (tcs @ [tc]) j = (if j = ?k then fill_call tc (call_at tcs j) else call_at tcs j)" for j
      using True by (simp add: call_at_def counted_deltas_def)
    have pad: "pad_calls ?k (map (call_at tcs) [0..<?n]) = map (call_at tcs) [0..<max ?n (Suc ?k)]"
      by (rule pad_calls_spec) (rule call_at_beyond)
    have "fold add_call_delta (tcs @ [tc]) [] = add_call_delta tc (fold add_call_delta tcs [])" by simp
    also have "\<dots> = (map (call_at tcs) [0..<max ?n (Suc ?k)])[?k := fill_call tc (call_at tcs ?k)]"
      unfolding snoc add_call_delta_alt pad using True by (simp del: upt_Suc)
    also have "\<dots> = map (call_at (tcs @ [tc])) [0..<max ?n (Suc ?k)]"
      by (rule nth_equalityI) (auto simp: nth_list_update at simp del: upt_Suc)
    finally show ?thesis by (simp only: need)
  qed
qed (simp add: calls_needed_def counted_deltas_def)

definition calls_event :: "json list \<Rightarrow> json" where
  "calls_event tcs =
     JObj [(''choices'', JArr [JObj [(''delta'', JObj [(''tool_calls'', JArr tcs)])]])]"

definition finish_event :: "string \<Rightarrow> json" where
  "finish_event r =
     JObj [(''choices'', JArr [JObj [(''delta'', JObj []), (''finish_reason'', JStr r)]])]"

lemma calls_event_run: "compat_handle read (calls_event tcs) calls = ([], fold add_call_delta tcs calls)"
  by (simp add: compat_handle_def calls_event_def compat_usage_def handle_choice_def jindex_def)

lemma calls_events_run:
  "run_events (compat_handle read) (map calls_event tcss) calls = ([], fold add_call_delta (concat tcss) calls)"
  by (induction tcss arbitrary: calls) (simp_all add: calls_event_run)

lemma finish_event_run:
  "compat_handle read (finish_event r) calls =
     (if r = ''tool_calls'' then (drain_calls read calls, [])
      else if r = ''stop'' then (drain_calls read calls @ [Inr (Chunk_done EndTurn)], [])
      else if r = ''length'' then (drain_calls read calls @ [Inr (Chunk_done MaxTokens)], [])
      else ([], calls))"
  by (simp add: compat_handle_def finish_event_def compat_usage_def handle_choice_def jindex_def)


text \<open>An answer that ends with calls has no final chunk, and an answer of images only has no content.\<close>

lemma calls_without_end:
  "fst (run_events (compat_handle read) [calls_event tcs, finish_event ''tool_calls''] [])
     = drain_calls read (map (call_at tcs) [0..<calls_needed tcs])"
  by (simp add: calls_event_run finish_event_run fold_calls)

lemma failures_unmarked:
  "compat_user_block (ToolResult i t True compl meta) = compat_user_block (ToolResult i t False compl meta)"
  by (simp add: compat_user_block_def)

lemma images_dropped:
  "compat_message render \<lparr>id_opt = None, role = User, content = [Image_block src]\<rparr> = []"
  by (simp add: compat_message_def compat_user_block_def map_filter_simps)

end
