(* ===== verification/Answers.thy ===== *)
theory Answers
  imports Llm_Call Anthropic Openai Google Compat
begin

section \<open>Answers from the service to the conversation and back\<close>

text \<open>
  The clients of \<open>crates/loopal-provider\<close> together with \<open>agent_loop/llm.rs\<close> and \<open>llm_record.rs\<close> of
  the runtime: what the events of an answer come to in the conversation, and what of it the service
  is sent with the next request.
\<close>

subsection \<open>Reading all chunks\<close>

text \<open>When the frontend takes every event, reading is a fold over the chunks.\<close>

fun apply_chunk :: "llm_chunk \<Rightarrow> llm_result \<Rightarrow> llm_result" where
  "apply_chunk (Chunk_text t) res = res\<lparr>assistant_text := assistant_text res @ t\<rparr>"
| "apply_chunk (Chunk_thinking t) res = res\<lparr>thinking_text := thinking_text res @ t\<rparr>"
| "apply_chunk (Chunk_signature sg) res = res\<lparr>thinking_signature := Some sg\<rparr>"
| "apply_chunk (Chunk_tool_use i n v) res = res\<lparr>tool_uses := tool_uses res @ [(i, n, v)]\<rparr>"
| "apply_chunk (Chunk_server_use i n v) res = res\<lparr>server_blocks := server_blocks res @ [ServerToolUse i n v]\<rparr>"
| "apply_chunk (Chunk_server_result ty i v) res = res\<lparr>server_blocks := server_blocks res @ [ServerToolResult ty i v]\<rparr>"
| "apply_chunk (Chunk_usage i out c d t) res = res\<lparr>thinking_tokens := thinking_tokens res + t\<rparr>"
| "apply_chunk (Chunk_done s) res = res\<lparr>stop_reason := s\<rparr>"

lemma handle_chunk_applies:
  assumes "\<And>n. delivers h n"
  obtains r' where "handle_chunk h c res r = (Inr (\<not> (\<exists>s. c = Chunk_done s), apply_chunk c res), r')"
  by (cases c) (simp_all add: emit_def assms Let_def)

fun last_chunk :: "llm_chunk \<Rightarrow> bool" where
  "last_chunk (Chunk_done s) = True"
| "last_chunk _ = False"

lemma read_loop_applies:
  assumes "\<And>n. delivers h n" and "\<forall>c\<in>set cs. \<not> last_chunk c"
  shows "fst (read_loop h (map Item (map Inr cs @ Inr (Chunk_done s) # rest)) res r)
    = Inr (apply_chunk (Chunk_done s) (fold apply_chunk cs res))"
  using assms(2)
proof (induction cs arbitrary: res r)
  case Nil
  then show ?case by (simp add: handle_stream_chunk_def)
next
  case (Cons c cs)
  obtain r' where "handle_chunk h c res r = (Inr (\<not> (\<exists>s. c = Chunk_done s), apply_chunk c res), r')"
    by (rule handle_chunk_applies[OF assms(1)])
  with Cons show ?case by (cases c) (simp_all add: handle_stream_chunk_def)
qed

fun last_signature :: "llm_chunk list \<Rightarrow> string option \<Rightarrow> string option" where
  "last_signature [] sg = sg"
| "last_signature (Chunk_signature t # cs) sg = last_signature cs (Some t)"
| "last_signature (_ # cs) sg = last_signature cs sg"

lemma fold_apply:
  "assistant_text (fold apply_chunk cs res) = assistant_text res @ concat (map chunk_text cs)"
  "thinking_text (fold apply_chunk cs res) = thinking_text res @ concat (map chunk_thought cs)"
  "tool_uses (fold apply_chunk cs res) = tool_uses res @ concat (map chunk_call cs)"
  "server_blocks (fold apply_chunk cs res) = server_blocks res @ concat (map chunk_server cs)"
  "thinking_signature (fold apply_chunk cs res) = last_signature cs (thinking_signature res)"
  "stream_error (fold apply_chunk cs res) = stream_error res"
proof (induction cs arbitrary: res)
  case (Cons c cs)
  {
    case 1 then show ?case by (cases c) (simp_all add: Cons.IH)
  next
    case 2 then show ?case by (cases c) (simp_all add: Cons.IH)
  next
    case 3 then show ?case by (cases c) (simp_all add: Cons.IH)
  next
    case 4 then show ?case by (cases c) (simp_all add: Cons.IH)
  next
    case 5 then show ?case by (cases c) (simp_all add: Cons.IH)
  next
    case 6 then show ?case by (cases c) (simp_all add: Cons.IH)
  }
qed simp_all

subsection \<open>An answer and the next request\<close>

fun block_content :: "answer_block \<Rightarrow> content_block" where
  "block_content (Answer_text ts) = Text (concat ts)"
| "block_content (Answer_thinking ts gs) = Thinking (concat ts) (Some (concat gs))"
| "block_content (Answer_tool i n fs v) = ToolUse i n v"
| "block_content (Answer_server_use i n inp fs v) = ServerToolUse i n v"
| "block_content (Answer_server_result ty i v) = ServerToolResult ty i v"

fun is_server_block :: "answer_block \<Rightarrow> bool" where
  "is_server_block (Answer_server_use i n inp fs v) = True"
| "is_server_block (Answer_server_result ty i v) = True"
| "is_server_block _ = False"

fun is_call_block :: "answer_block \<Rightarrow> bool" where
  "is_call_block (Answer_tool i n fs v) = True"
| "is_call_block _ = False"

text \<open>Thoughts first, then the server's tools, then text, then calls.\<close>

definition ordered_answer ::
  "(string list \<times> string list) option \<Rightarrow> answer_block list \<Rightarrow> string list option \<Rightarrow> answer_block list
     \<Rightarrow> answer_block list" where
  "ordered_answer th sv tx cl =
     (case th of Some (ts, gs) \<Rightarrow> [Answer_thinking ts gs] | None \<Rightarrow> []) @ sv
     @ (case tx of Some ts \<Rightarrow> [Answer_text ts] | None \<Rightarrow> []) @ cl"

definition nothing_empty :: "(string list \<times> string list) option \<Rightarrow> string list option \<Rightarrow> bool" where
  "nothing_empty th tx =
     ((case th of Some (ts, gs) \<Rightarrow> concat ts \<noteq> [] \<and> concat gs \<noteq> [] | None \<Rightarrow> True)
      \<and> (case tx of Some ts \<Rightarrow> concat ts \<noteq> [] | None \<Rightarrow> True))"

definition recorded_message :: "llm_result \<Rightarrow> message" where
  "recorded_message res =
     \<lparr>id_opt = None, role = Assistant,
      content = assistant_blocks (assistant_text res) (tool_uses res) (thinking_text res)
        (thinking_signature res) (server_blocks res)\<rparr>"

abbreviation chunks_of :: "answer_block list \<Rightarrow> llm_chunk list" where
  "chunks_of bs \<equiv> concat (map block_chunks bs)"

lemma map_chunk_text: "concat (map chunk_text (map Chunk_text ts)) = concat ts"
  by (induction ts) simp_all

lemma map_chunk_thought: "concat (map chunk_thought (map Chunk_thinking ts)) = concat ts"
  by (induction ts) simp_all

lemma silent_texts:
  "concat (map chunk_thought (map Chunk_text ts)) = []" "concat (map chunk_call (map Chunk_text ts)) = []"
  "concat (map chunk_server (map Chunk_text ts)) = []" "last_signature (map Chunk_text ts @ cs) sg = last_signature cs sg"
  by (induction ts) simp_all

lemma silent_thoughts:
  "concat (map chunk_text (map Chunk_thinking ts)) = []" "concat (map chunk_call (map Chunk_thinking ts)) = []"
  "concat (map chunk_server (map Chunk_thinking ts)) = []"
  "last_signature (map Chunk_thinking ts @ cs) sg = last_signature cs sg"
  by (induction ts) simp_all

lemma server_chunks:
  assumes "\<forall>b\<in>set sv. is_server_block b"
  shows "concat (map chunk_text (chunks_of sv)) = []" "concat (map chunk_thought (chunks_of sv)) = []"
    "concat (map chunk_call (chunks_of sv)) = []" "concat (map chunk_server (chunks_of sv)) = map block_content sv"
    "last_signature (chunks_of sv @ cs) sg = last_signature cs sg"
  using assms
proof (induction sv)
  case (Cons b sv)
  {
    case 1 with Cons.IH show ?case by (cases b) simp_all
  next
    case 2 with Cons.IH show ?case by (cases b) simp_all
  next
    case 3 with Cons.IH show ?case by (cases b) simp_all
  next
    case 4 with Cons.IH show ?case by (cases b) simp_all
  next
    case 5 with Cons.IH show ?case by (cases b) simp_all
  }
qed simp_all

fun call_of :: "answer_block \<Rightarrow> tool_call" where
  "call_of (Answer_tool i n fs v) = (i, n, v)"
| "call_of _ = ([], [], JNull)"

lemma call_chunks:
  assumes "\<forall>b\<in>set cl. is_call_block b"
  shows "concat (map chunk_text (chunks_of cl)) = []" "concat (map chunk_thought (chunks_of cl)) = []"
    "concat (map chunk_call (chunks_of cl)) = map call_of cl" "concat (map chunk_server (chunks_of cl)) = []"
    "last_signature (chunks_of cl @ cs) sg = last_signature cs sg"
    "map (\<lambda>(i, n, inp). ToolUse i n inp) (map call_of cl) = map block_content cl"
  using assms
proof (induction cl)
  case (Cons b cl)
  {
    case 1 with Cons.IH show ?case by (cases b) simp_all
  next
    case 2 with Cons.IH show ?case by (cases b) simp_all
  next
    case 3 with Cons.IH show ?case by (cases b) simp_all
  next
    case 4 with Cons.IH show ?case by (cases b) simp_all
  next
    case 5 with Cons.IH show ?case by (cases b) simp_all
  next
    case 6 with Cons.IH show ?case by (cases b) simp_all
  }
qed simp_all

lemma usage_silent:
  obtains us where "usage_chunks usage = map Inr us" "\<forall>c\<in>set us. \<not> last_chunk c"
    "concat (map chunk_text us) = []" "concat (map chunk_thought us) = []" "concat (map chunk_call us) = []"
    "concat (map chunk_server us) = []" "\<And>sg. last_signature us sg = sg"
proof (cases "usage_chunks usage = []")
  case True
  then show thesis by (intro that[of "[]"]) simp_all
next
  case False
  then obtain a b c d where "usage_chunks usage = [Inr (Chunk_usage a b c d 0)]"
    by (auto simp: usage_chunks_def split: option.splits)
  then show thesis by (intro that[of "[Chunk_usage a b c d 0]"]) simp_all
qed

lemma chunks_not_last: "\<forall>c\<in>set (chunks_of bs). \<not> last_chunk c"
proof (induction bs)
  case (Cons b bs)
  then show ?case by (cases b) auto
qed simp

lemma last_signature_append: "last_signature (cs @ ds) sg = last_signature ds (last_signature cs sg)"
  by (induction cs sg rule: last_signature.induct) simp_all

text \<open>What reading the chunks of an ordered answer collects.\<close>

lemma ordered_recorded:
  assumes "\<forall>b\<in>set sv. is_server_block b" "\<forall>b\<in>set cl. is_call_block b" "nothing_empty th tx"
    and "concat (map chunk_text us) = []" "concat (map chunk_thought us) = []" "concat (map chunk_call us) = []"
    and "concat (map chunk_server us) = []" "\<And>sg. last_signature us sg = sg"
  shows "content (recorded_message (apply_chunk (Chunk_done s)
      (fold apply_chunk (chunks_of (ordered_answer th sv tx cl) @ us) llm_result_default)))
    = map block_content (ordered_answer th sv tx cl)"
proof -
  note silent = map_chunk_text map_chunk_thought silent_texts(1-3) silent_thoughts(1-3)
  note parts = fold_apply llm_result_default_def silent[unfolded map_map] last_signature_append assms(4-8)
    silent_texts(4)[of _ "[]", simplified] silent_thoughts(4)[of _ "[]", simplified]
    server_chunks(1-4)[OF assms(1)] server_chunks(5)[OF assms(1), of "[]", simplified]
    call_chunks(1-4)[OF assms(2)] call_chunks(5)[OF assms(2), of "[]", simplified]
    call_chunks(6)[OF assms(2), unfolded map_map]
  show ?thesis
    using assms(3)
    by (cases th; cases tx)
      (auto simp: recorded_message_def assistant_blocks_def ordered_answer_def nothing_empty_def parts
        simp del: concat_eq_Nil_conv split: prod.splits)
qed

lemma answer_read:
  assumes "\<forall>b\<in>set bs. spelt read b" and "map read ds = map Inr (answer_events bs usage why)"
    and "''[DONE]'' \<notin> set ds" and "\<And>n. delivers h n"
  obtains us where "usage_chunks usage = map Inr us" "\<And>sg. last_signature us sg = sg"
    "concat (map chunk_text us) = []" "concat (map chunk_thought us) = []" "concat (map chunk_call us) = []"
    "concat (map chunk_server us) = []"
    "fst (read_loop h (map Item (drain (anthropic_parse read)
        \<lparr>incoming_events = map Event_data ds, parser_state = anthropic_start, buffered = []\<rparr>)) llm_result_default r)
      = Inr (apply_chunk (Chunk_done (stop_of why)) (fold apply_chunk (chunks_of bs @ us) llm_result_default))"
proof -
  obtain us where us: "usage_chunks usage = map Inr us" "\<forall>c\<in>set us. \<not> last_chunk c"
    "concat (map chunk_text us) = []" "concat (map chunk_thought us) = []" "concat (map chunk_call us) = []"
    "concat (map chunk_server us) = []" "\<And>sg. last_signature us sg = sg"
    by (rule usage_silent[of usage]) blast
  have "drain (anthropic_parse read)
        \<lparr>incoming_events = map Event_data ds, parser_state = anthropic_start, buffered = []\<rparr>
      = map Inr (chunks_of bs @ us) @ [Inr (Chunk_done (stop_of why))]"
    using anthropic.arrivals_run[OF assms(2,3)] answer_run[OF assms(1)] us(1) by simp
  moreover have "\<forall>c\<in>set (chunks_of bs @ us). \<not> last_chunk c"
    using chunks_not_last[of bs] us(2) by auto
  ultimately have "fst (read_loop h (map Item (drain (anthropic_parse read)
        \<lparr>incoming_events = map Event_data ds, parser_state = anthropic_start, buffered = []\<rparr>)) llm_result_default r)
      = Inr (apply_chunk (Chunk_done (stop_of why)) (fold apply_chunk (chunks_of bs @ us) llm_result_default))"
    using read_loop_applies[OF assms(4), of "chunks_of bs @ us" "stop_of why" "[]" llm_result_default r] by simp
  with us that show thesis by blast
qed



subsection \<open>What does not go back\<close>

text \<open>
  Two thoughts are joined and given the signature of the second; text before a server's tool goes
  back after it.
\<close>

lemma two_thoughts_one_signature:
  "content (recorded_message (fold apply_chunk
      (chunks_of [Answer_thinking [t] [g], Answer_thinking [t'] [g']]) llm_result_default))
    = (if t @ t' \<noteq> [] \<and> g @ g' \<noteq> [] then [Thinking (t @ t') (Some (if g' = [] then g else g'))] else [])"
  by (simp add: recorded_message_def assistant_blocks_def llm_result_default_def)

lemma text_moves_behind_search:
  "t \<noteq> [] \<Longrightarrow> content (recorded_message (fold apply_chunk
      (chunks_of [Answer_text [t], Answer_server_use i n v [] v]) llm_result_default))
    = [ServerToolUse i n v, Text t]"
  by (simp add: recorded_message_def assistant_blocks_def llm_result_default_def)

text \<open>A stream that breaks off without its final chunk is taken as a complete answer.\<close>

lemma cut_stream_accepted:
  "fst (read_loop h [] res r) = Inr res"
  by simp

text \<open>The sources of a search by Google come after the final chunk, where nobody reads.\<close>

lemma chunks_read_stops: "chunks_read (map Item (map Inr cs @ Inr (Chunk_done s) # rest)) = chunks_read (map Item (map Inr cs @ [Inr (Chunk_done s)]))"
proof (induction cs)
  case (Cons c cs)
  then show ?case by (cases c) simp_all
qed simp

lemma google_sources_unread:
  assumes "run_events (handle_part fresh) (array_of (jindex (jindex v ''content'') ''parts'')) n = (map Inr cs, k)"
    and "jindex v ''finishReason'' = JStr ''STOP''"
  shows "chunks_read (map Item (fst (handle_candidate fresh v n)))
    = chunks_read (map Item (map Inr cs @ [Inr (Chunk_done EndTurn)]))"
  using assms chunks_read_stops[of cs EndTurn "fst (grounding_chunks fresh (jget v ''groundingMetadata'') k)"]
  by (simp add: handle_candidate_def finish_chunks_def)

end
