(* ===== verification/Settings.thy ===== *)
theory Settings
  imports Agent_Config Tool_Run Sandbox_Path Provider_Api "HOL-Library.List_Lexorder" "HOL-Library.Char_ord"
begin

section \<open>Settings in layers\<close>

text \<open>
  \<open>crates/loopal-config\<close>: the settings (\<open>settings.rs\<close>), the layers they come from (\<open>layer.rs\<close>,
  \<open>loader.rs\<close>, \<open>plugin.rs\<close>, \<open>skills\<close>, \<open>locations.rs\<close>), their merging (\<open>resolver.rs\<close>,
  \<open>resolved.rs\<close>) and the order of the layers (\<open>pipeline.rs\<close>). The files, the environment and the
  reading of JSON are arguments; so is the derived reading of the settings as a whole, while that of
  an MCP server is written out.
\<close>

subsection \<open>The settings\<close>

datatype mcp_server =
    Stdio string "string list" "(string \<times> string) list" bool u64
  | Streamable_http string "(string \<times> string) list" bool u64

fun server_enabled :: "mcp_server \<Rightarrow> bool" where
  "server_enabled (Stdio cmd args vars on ms) = on"
| "server_enabled (Streamable_http url headers on ms) = on"

fun server_timeout :: "mcp_server \<Rightarrow> u64" where
  "server_timeout (Stdio cmd args vars on ms) = ms"
| "server_timeout (Streamable_http url headers on ms) = ms"

record provider_settings =
  api_key_text :: "string option"
  api_key_var :: "string option"
  api_base_url :: "string option"

record compat_settings =
  cs_name :: string
  cs_base_url :: string
  cs_key :: "string option"
  cs_key_var :: "string option"
  cs_prefix :: "string option"

record providers_settings =
  for_anthropic :: "provider_settings option"
  for_openai :: "provider_settings option"
  for_google :: "provider_settings option"
  for_compat :: "compat_settings list"

record settings =
  set_model :: string
  set_routing :: "task_type \<Rightarrow> string option"
  set_models :: "string \<Rightarrow> model_override option"
  set_max_turns :: u32
  set_permission :: permission_mode
  set_context_cap :: u32
  set_providers :: providers_settings
  set_hooks :: "hook_config list"
  set_servers :: "(string \<times> mcp_server) list"
  set_sandbox :: sandbox_config
  set_thinking :: thinking_config
  memory_enabled :: bool

definition sandbox_default :: sandbox_config where
  "sandbox_default =
     \<lparr>config_policy = WorkspaceWrite, filesystem = \<lparr>allow_write = [], deny_write = [], deny_read = []\<rparr>,
      config_network = \<lparr>allowed_domains = [], denied_domains = []\<rparr>\<rparr>"

definition settings_default :: settings where
  "settings_default =
     \<lparr>set_model = ''claude-sonnet-4-20250514'', set_routing = (\<lambda>_. None), set_models = (\<lambda>_. None),
      set_max_turns = 50, set_permission = Bypass, set_context_cap = 0,
      set_providers = \<lparr>for_anthropic = None, for_openai = None, for_google = None, for_compat = []\<rparr>,
      set_hooks = [], set_servers = [], set_sandbox = sandbox_default, set_thinking = Thinking_auto,
      memory_enabled = True\<rparr>"

subsection \<open>Reading a server\<close>

text \<open>A field that may be missing, with its default; a field that is there must have its type.\<close>

definition field_or :: "'a \<Rightarrow> (json \<Rightarrow> 'a option) \<Rightarrow> json \<Rightarrow> string \<Rightarrow> 'a option" where
  "field_or d rd v k = (case jget v k of None \<Rightarrow> Some d | Some w \<Rightarrow> rd w)"

definition read_strings :: "json \<Rightarrow> string list option" where
  "read_strings v = Option.bind (as_array v) (\<lambda>vs. those (map as_str vs))"

definition read_string_map :: "json \<Rightarrow> (string \<times> string) list option" where
  "read_string_map v =
     Option.bind (as_object v) (\<lambda>m. those (map (\<lambda>(k, w). map_option (Pair k) (as_str w)) m))"

fun read_u64 :: "json \<Rightarrow> u64 option" where
  "read_u64 (JInt n) = (if 0 \<le> n \<and> n < 2 ^ 64 then Some (word_of_int n) else None)"
| "read_u64 _ = None"

definition read_server :: "json \<Rightarrow> mcp_server option" where
  "read_server v =
     (if get_str v ''type'' = Some ''stdio'' then
        Option.bind (get_str v ''command'') (\<lambda>cmd.
        Option.bind (field_or [] read_strings v ''args'') (\<lambda>args.
        Option.bind (field_or [] read_string_map v ''env'') (\<lambda>vars.
        Option.bind (field_or True as_bool v ''enabled'') (\<lambda>on.
        Option.bind (field_or 30000 read_u64 v ''timeout_ms'') (\<lambda>ms.
          Some (Stdio cmd args vars on ms))))))
      else if get_str v ''type'' = Some ''streamable-http'' then
        Option.bind (get_str v ''url'') (\<lambda>url.
        Option.bind (field_or [] read_string_map v ''headers'') (\<lambda>headers.
        Option.bind (field_or True as_bool v ''enabled'') (\<lambda>on.
        Option.bind (field_or 30000 read_u64 v ''timeout_ms'') (\<lambda>ms.
          Some (Streamable_http url headers on ms)))))
      else None)"

subsection \<open>Merging JSON\<close>

text \<open>Objects are merged key by key; anything else is replaced.\<close>

fun deep_merge :: "json \<Rightarrow> json \<Rightarrow> json"
and merge_entries :: "(string \<times> json) list \<Rightarrow> (string \<times> json) list \<Rightarrow> (string \<times> json) list" where
  "deep_merge (JObj b) (JObj ov) = JObj (merge_entries b ov)"
| "deep_merge b ov = ov"
| "merge_entries b [] = b"
| "merge_entries b ((k, v) # ov) =
     merge_entries (AList.update k (deep_merge (case map_of b k of Some w \<Rightarrow> w | None \<Rightarrow> JNull) v) b) ov"

subsection \<open>Layers\<close>

datatype layer_source =
  From_global | From_plugin string | From_project | From_local | From_env | From_cli

fun source_name :: "layer_source \<Rightarrow> string" where
  "source_name (From_plugin n) = ''plugin:'' @ n"
| "source_name From_global = ''global''"
| "source_name From_project = ''project''"
| "source_name From_local = ''local''"
| "source_name From_env = ''env''"
| "source_name From_cli = ''cli''"

record skill =
  skill_name :: string
  skill_description :: string
  has_arg :: bool
  skill_body :: string

record config_layer =
  layer_source :: layer_source
  layer_settings :: json
  layer_servers :: "(string \<times> mcp_server) list"
  layer_skills :: "skill list"
  layer_hooks :: "hook_config list"
  layer_instructions :: "string option"
  layer_memory :: "string option"

definition layer_default :: config_layer where
  "layer_default =
     \<lparr>layer_source = From_global, layer_settings = JNull, layer_servers = [], layer_skills = [],
      layer_hooks = [], layer_instructions = None, layer_memory = None\<rparr>"

subsection \<open>Skills\<close>

definition ellipsis :: string where
  "ellipsis = [CHR 0xE2, CHR 0x80, CHR 0xA6]"

definition truncate_chars :: "nat \<Rightarrow> string \<Rightarrow> string" where
  "truncate_chars n t = (if char_count t \<le> n then t else take_chars (n - 1) t @ ellipsis)"

definition described :: "string option \<Rightarrow> string \<Rightarrow> string option" where
  "described d l = (case strip_prefix ''description:'' (trim l) of Some v \<Rightarrow> Some (trim v) | None \<Rightarrow> d)"

definition parse_frontmatter :: "string \<Rightarrow> string option \<times> string" where
  "parse_frontmatter raw =
     (let trimmed = trim_start raw
      in if \<not> prefix ''---'' trimmed then (None, raw)
         else case split_at_pat [NL] trimmed of
                None \<Rightarrow> (None, raw)
              | Some (_, after_open) \<Rightarrow>
                  (case strip_prefix ''---'' after_open of
                     Some rest \<Rightarrow> (None, case strip_prefix [NL] rest of Some b \<Rightarrow> b | None \<Rightarrow> rest)
                   | None \<Rightarrow>
                       (case split_at_pat ([NL] @ ''---'') after_open of
                          None \<Rightarrow> (None, raw)
                        | Some (fm, rest) \<Rightarrow>
                            (foldl described None (rust_lines fm),
                             case strip_prefix [NL] rest of Some b \<Rightarrow> b | None \<Rightarrow> rest))))"

definition parse_skill :: "string \<Rightarrow> string \<Rightarrow> skill" where
  "parse_skill n raw =
     (case parse_frontmatter raw of
        (d, body) \<Rightarrow>
          \<lparr>skill_name = n,
           skill_description =
             (case d of
                Some t \<Rightarrow> t
              | None \<Rightarrow> truncate_chars 60 (trim (case find (\<lambda>l. trim l \<noteq> []) (rust_lines body) of
                                                 Some l \<Rightarrow> l | None \<Rightarrow> ''''))),
           has_arg = contains body ''$ARGUMENTS'', skill_body = body\<rparr>)"

text \<open>The files of a directory with their texts, \<open>None\<close> where a file cannot be read.\<close>

definition skill_entry :: "string \<times> string option \<Rightarrow> (string \<times> skill) list \<Rightarrow> (string \<times> skill) list" where
  "skill_entry e m =
     (case (md_stem (fst e), snd e) of
        (Some stem, Some t) \<Rightarrow> (let n = ''/'' @ stem in AList.update n (parse_skill n t) m)
      | _ \<Rightarrow> m)"

definition scan_skills_dir :: "(string \<times> string option) list option \<Rightarrow> skill list" where
  "scan_skills_dir dir =
     (case dir of
        None \<Rightarrow> []
      | Some entries \<Rightarrow> sort_key skill_name (map snd (fold skill_entry entries [])))"

definition format_skills_summary :: "skill list \<Rightarrow> string" where
  "format_skills_summary skills =
     (if skills = [] then []
      else ''# Available Skills'' @ [NL] @ ''User can invoke these via /name:'' @ [NL]
           @ concat (map (\<lambda>s. ''- '' @ skill_name s @ '': '' @ skill_description s @ [NL]) skills))"

subsection \<open>Places\<close>

definition under_home :: "string option \<Rightarrow> string list \<Rightarrow> loopal_failure + string" where
  "under_home home parts =
     (case home of
        Some h \<Rightarrow> Inr (foldl path_join h parts)
      | None \<Rightarrow> Inl (Config_failed (Config_parse ''could not determine home directory'')))"

definition global_config_dir :: "string option \<Rightarrow> loopal_failure + string" where
  "global_config_dir home = under_home home [''.loopal'']"

definition global_settings_path :: "string option \<Rightarrow> loopal_failure + string" where
  "global_settings_path home = under_home home [''.loopal'', ''settings.json'']"

definition project_config_dir :: "string \<Rightarrow> string" where
  "project_config_dir cwd = path_join cwd ''.loopal''"

definition project_settings_path :: "string \<Rightarrow> string" where
  "project_settings_path cwd = path_join (project_config_dir cwd) ''settings.json''"

definition project_local_settings_path :: "string \<Rightarrow> string" where
  "project_local_settings_path cwd = path_join (project_config_dir cwd) ''settings.local.json''"

definition global_instructions_path :: "string option \<Rightarrow> loopal_failure + string" where
  "global_instructions_path home = under_home home [''.loopal'', ''LOOPAL.md'']"

definition global_local_instructions_path :: "string option \<Rightarrow> loopal_failure + string" where
  "global_local_instructions_path home = under_home home [''.loopal'', ''LOOPAL.local.md'']"

definition project_instructions_path :: "string \<Rightarrow> string" where
  "project_instructions_path cwd = path_join cwd ''LOOPAL.md''"

definition project_local_instructions_path :: "string \<Rightarrow> string" where
  "project_local_instructions_path cwd = path_join (project_config_dir cwd) ''LOOPAL.local.md''"

definition global_skills_dir :: "string option \<Rightarrow> loopal_failure + string" where
  "global_skills_dir home = under_home home [''.loopal'', ''skills'']"

definition project_skills_dir :: "string \<Rightarrow> string" where
  "project_skills_dir cwd = path_join (project_config_dir cwd) ''skills''"

definition global_plugins_dir :: "string option \<Rightarrow> loopal_failure + string" where
  "global_plugins_dir home = under_home home [''.loopal'', ''plugins'']"

definition volatile_dir :: "string \<Rightarrow> string" where
  "volatile_dir tmp = path_join tmp ''loopal''"

definition tmp_files_dir :: "string \<Rightarrow> string" where
  "tmp_files_dir tmp = path_join (volatile_dir tmp) ''tmp''"

definition logs_dir :: "string option \<Rightarrow> string \<Rightarrow> string" where
  "logs_dir home tmp =
     (case global_config_dir home of
        Inr d \<Rightarrow> path_join d ''logs'' | Inl e \<Rightarrow> path_join (volatile_dir tmp) ''logs'')"

definition sessions_dir :: "string option \<Rightarrow> loopal_failure + string" where
  "sessions_dir home = under_home home [''.loopal'', ''sessions'']"

definition session_dir :: "string option \<Rightarrow> string \<Rightarrow> loopal_failure + string" where
  "session_dir home i = under_home home [''.loopal'', ''sessions'', i]"

definition session_tasks_dir :: "string option \<Rightarrow> string \<Rightarrow> loopal_failure + string" where
  "session_tasks_dir home i = under_home home [''.loopal'', ''sessions'', i, ''tasks'']"

definition global_agents_dir :: "string option \<Rightarrow> loopal_failure + string" where
  "global_agents_dir home = under_home home [''.loopal'', ''agents'']"

definition project_agents_dir :: "string \<Rightarrow> string" where
  "project_agents_dir cwd = path_join (project_config_dir cwd) ''agents''"

definition global_prompts_dir :: "string option \<Rightarrow> loopal_failure + string" where
  "global_prompts_dir home = under_home home [''.loopal'', ''prompts'']"

definition project_prompts_dir :: "string \<Rightarrow> string" where
  "project_prompts_dir cwd = path_join (project_config_dir cwd) ''prompts''"

subsection \<open>Loading a layer\<close>

text \<open>
  What the loader meets. A path that is no directory has no listing; a listing may fail as a whole.
  \<open>default_json\<close> is how the default settings are written, \<open>read_settings\<close> and \<open>read_hooks\<close> are the
  derived readers.
\<close>

datatype read_outcome = Contents string | Not_there | Read_failed string

record config_env =
  home :: "string option"
  env_var :: "string \<Rightarrow> string option"
  read_file_at :: "string \<Rightarrow> read_outcome"
  skill_files :: "string \<Rightarrow> (string \<times> string option) list option"
  sub_dirs :: "string \<Rightarrow> (string + string list) option"
  json_of :: "string \<Rightarrow> string + json"
  default_json :: json
  read_settings :: "json \<Rightarrow> string + settings"
  read_hooks :: "json \<Rightarrow> hook_config list option"

definition load_json_file :: "config_env \<Rightarrow> string \<Rightarrow> loopal_failure + json" where
  "load_json_file E p =
     (case read_file_at E p of
        Contents t \<Rightarrow>
          (case json_of E t of
             Inr v \<Rightarrow> Inr v
           | Inl e \<Rightarrow> Inl (Config_failed (Config_parse (p @ '': '' @ e))))
      | Not_there \<Rightarrow> Inr JNull
      | Read_failed e \<Rightarrow> Inl (Io e))"

definition read_optional_text :: "config_env \<Rightarrow> string \<Rightarrow> string option" where
  "read_optional_text E p = (case read_file_at E p of Contents t \<Rightarrow> Some t | _ \<Rightarrow> None)"

definition server_entry :: "string \<times> json \<Rightarrow> (string \<times> mcp_server) list \<Rightarrow> (string \<times> mcp_server) list" where
  "server_entry e m = (case read_server (snd e) of Some c \<Rightarrow> AList.update (fst e) c m | None \<Rightarrow> m)"

fun drop_keys :: "string list \<Rightarrow> json \<Rightarrow> json" where
  "drop_keys ks (JObj m) = JObj (fold AList.delete ks m)"
| "drop_keys ks v = v"

definition extract_typed_fields ::
  "config_env \<Rightarrow> json \<Rightarrow> (string \<times> mcp_server) list \<times> hook_config list \<times> json" where
  "extract_typed_fields E v =
     (case Option.bind (jget v ''mcp_servers'') as_object of Some m \<Rightarrow> fold server_entry m [] | None \<Rightarrow> [],
      case Option.bind (jget v ''hooks'') (read_hooks E) of Some hs \<Rightarrow> hs | None \<Rightarrow> [],
      drop_keys [''mcp_servers'', ''hooks''] v)"

definition with_settings :: "config_env \<Rightarrow> json \<Rightarrow> config_layer \<Rightarrow> config_layer" where
  "with_settings E v l =
     (if v = JNull then l
      else case extract_typed_fields E v of
             (servers, hs, v) \<Rightarrow> l\<lparr>layer_servers := servers, layer_hooks := hs, layer_settings := v\<rparr>)"

definition load_layer_from_dir ::
  "config_env \<Rightarrow> string \<Rightarrow> layer_source \<Rightarrow> string option \<Rightarrow> loopal_failure + config_layer" where
  "load_layer_from_dir E dir src instr =
     (case load_json_file E (path_join dir ''settings.json'') of
        Inl e \<Rightarrow> Inl e
      | Inr v \<Rightarrow>
          Inr ((with_settings E v (layer_default\<lparr>layer_source := src\<rparr>))
            \<lparr>layer_skills := scan_skills_dir (skill_files E (path_join dir ''skills'')),
             layer_instructions :=
               read_optional_text E (case instr of Some p \<Rightarrow> p | None \<Rightarrow> path_join dir ''LOOPAL.md''),
             layer_memory := read_optional_text E (path_join (path_join dir ''memory'') ''MEMORY.md'')\<rparr>))"

text \<open>\<open>value[k] = w\<close>: null becomes an object, and anything but an object panics.\<close>

fun index_set :: "string \<Rightarrow> json \<Rightarrow> json \<Rightarrow> json option" where
  "index_set k w (JObj m) = Some (JObj (AList.update k w m))"
| "index_set k w JNull = Some (JObj [(k, w)])"
| "index_set k w v = None"

definition when_set :: "'a option \<Rightarrow> ('a \<Rightarrow> json \<Rightarrow> json option) \<Rightarrow> json \<Rightarrow> json option" where
  "when_set x f v = (case x of Some a \<Rightarrow> f a v | None \<Rightarrow> Some v)"

definition apply_env_overrides :: "config_env \<Rightarrow> json \<Rightarrow> json option" where
  "apply_env_overrides E v =
     Option.bind (when_set (env_var E ''LOOPAL_MODEL'') (\<lambda>t. index_set ''model'' (JStr t))
                    (if as_object v = None then JObj [] else v)) (\<lambda>v.
     Option.bind (when_set (Option.bind (env_var E ''LOOPAL_MAX_TURNS'') (parse_uint (2 ^ 32)))
                    (\<lambda>n. index_set ''max_turns'' (JInt (int n))) v) (\<lambda>v.
     Option.bind (when_set (env_var E ''LOOPAL_PERMISSION_MODE'') (\<lambda>t. index_set ''permission_mode'' (JStr t)) v) (\<lambda>v.
       when_set (env_var E ''LOOPAL_SANDBOX'')
         (\<lambda>t v. Option.bind (index_set ''policy'' (JStr t) (jindex v ''sandbox''))
                  (\<lambda>s. index_set ''sandbox'' s v)) v)))"

subsection \<open>Resolving\<close>

text \<open>What \<open>resolve\<close> gathers on its way through the layers.\<close>

record merged =
  m_settings :: json
  m_servers :: "(string \<times> mcp_server \<times> layer_source) list"
  m_skills :: "(string \<times> skill \<times> layer_source) list"
  m_hooks :: "(hook_config \<times> layer_source) list"
  m_instructions :: "string list"
  m_memory :: "string list"
  m_sources :: "layer_source list"

definition merged_init :: "json \<Rightarrow> merged" where
  "merged_init v =
     \<lparr>m_settings = v, m_servers = [], m_skills = [], m_hooks = [], m_instructions = [], m_memory = [],
      m_sources = []\<rparr>"

definition merge_server ::
  "layer_source \<Rightarrow> string \<times> mcp_server \<Rightarrow> (string \<times> mcp_server \<times> layer_source) list
   \<Rightarrow> (string \<times> mcp_server \<times> layer_source) list" where
  "merge_server src e m =
     (if server_enabled (snd e) then AList.update (fst e) (snd e, src) m else AList.delete (fst e) m)"

definition merge_skill ::
  "layer_source \<Rightarrow> skill \<Rightarrow> (string \<times> skill \<times> layer_source) list \<Rightarrow> (string \<times> skill \<times> layer_source) list" where
  "merge_skill src s m = AList.update (skill_name s) (s, src) m"

definition add_part :: "string option \<Rightarrow> string list \<Rightarrow> string list" where
  "add_part t parts =
     (case t of Some x \<Rightarrow> if trim x = [] then parts else parts @ [trim x] | None \<Rightarrow> parts)"

definition merge_layer :: "config_layer \<Rightarrow> merged \<Rightarrow> merged" where
  "merge_layer l m =
     \<lparr>m_settings = (if layer_settings l = JNull then m_settings m
                    else deep_merge (m_settings m) (layer_settings l)),
      m_servers = fold (merge_server (layer_source l)) (layer_servers l) (m_servers m),
      m_skills = fold (merge_skill (layer_source l)) (layer_skills l) (m_skills m),
      m_hooks = m_hooks m @ map (\<lambda>h. (h, layer_source l)) (layer_hooks l),
      m_instructions = add_part (layer_instructions l) (m_instructions m),
      m_memory = add_part (layer_memory l) (m_memory m),
      m_sources = m_sources m @ [layer_source l]\<rparr>"

record resolved_config =
  rc_settings :: settings
  rc_servers :: "(string \<times> mcp_server \<times> layer_source) list"
  rc_skills :: "(string \<times> skill \<times> layer_source) list"
  rc_hooks :: "(hook_config \<times> layer_source) list"
  rc_instructions :: string
  rc_memory :: string
  rc_layers :: "layer_source list"

definition resolve_layers :: "config_env \<Rightarrow> config_layer list \<Rightarrow> loopal_failure + resolved_config" where
  "resolve_layers E layers =
     (let m = fold merge_layer layers (merged_init (default_json E))
      in case read_settings E (m_settings m) of
           Inl e \<Rightarrow> Inl (Config_failed (Config_parse e))
         | Inr s \<Rightarrow>
             Inr \<lparr>rc_settings = s\<lparr>set_servers := map (\<lambda>(n, c, src). (n, c)) (m_servers m),
                                set_hooks := map fst (m_hooks m)\<rparr>,
                  rc_servers = m_servers m, rc_skills = m_skills m, rc_hooks = m_hooks m,
                  rc_instructions = str_join [NL, NL] (m_instructions m),
                  rc_memory = str_join [NL, NL] (m_memory m), rc_layers = m_sources m\<rparr>)"

subsection \<open>The layers of a session\<close>

text \<open>A list of fallible steps, up to the first that fails.\<close>

fun all_of :: "('e + 'a) list \<Rightarrow> 'e + 'a list" where
  "all_of [] = Inr []"
| "all_of (Inl e # xs) = Inl e"
| "all_of (Inr x # xs) = (case all_of xs of Inl e \<Rightarrow> Inl e | Inr ys \<Rightarrow> Inr (x # ys))"

text \<open>\<open>sub_dirs\<close> has no listing of a path that is no directory.\<close>

definition load_plugin_layers :: "config_env \<Rightarrow> loopal_failure + config_layer list" where
  "load_plugin_layers E =
     (case global_plugins_dir (home E) of
        Inl e \<Rightarrow> Inr []
      | Inr dir \<Rightarrow>
          (case sub_dirs E dir of
             None \<Rightarrow> Inr []
           | Some (Inl e) \<Rightarrow> Inl (Io e)
           | Some (Inr names) \<Rightarrow>
               all_of (map (\<lambda>n. load_layer_from_dir E (path_join dir n) (From_plugin n) None) (sort names))))"

definition local_instructions :: "config_env \<Rightarrow> string \<Rightarrow> string list" where
  "local_instructions E cwd =
     (case global_local_instructions_path (home E) of
        Inr p \<Rightarrow> (case read_optional_text E p of Some t \<Rightarrow> [t] | None \<Rightarrow> [])
      | Inl e \<Rightarrow> [])
     @ (case read_optional_text E (project_local_instructions_path cwd) of Some t \<Rightarrow> [t] | None \<Rightarrow> [])"

definition load_local_layer :: "config_env \<Rightarrow> string \<Rightarrow> loopal_failure + config_layer" where
  "load_local_layer E cwd =
     (case load_json_file E (project_local_settings_path cwd) of
        Inl e \<Rightarrow> Inl e
      | Inr v \<Rightarrow>
          Inr ((with_settings E v (layer_default\<lparr>layer_source := From_local\<rparr>))
            \<lparr>layer_instructions :=
               (if local_instructions E cwd = [] then None
                else Some (str_join [NL, NL] (local_instructions E cwd)))\<rparr>))"

definition load_env_layer :: "config_env \<Rightarrow> config_layer option" where
  "load_env_layer E =
     map_option (\<lambda>v. layer_default\<lparr>layer_source := From_env, layer_settings := v\<rparr>)
       (apply_env_overrides E (JObj []))"

definition load_global_layer :: "config_env \<Rightarrow> loopal_failure + config_layer list" where
  "load_global_layer E =
     (case global_config_dir (home E) of
        Inl e \<Rightarrow> Inr []
      | Inr dir \<Rightarrow>
          (case load_layer_from_dir E dir From_global (Some (path_join dir ''LOOPAL.md'')) of
             Inl e \<Rightarrow> Inl e | Inr l \<Rightarrow> Inr [l]))"

definition load_project_layer :: "config_env \<Rightarrow> string \<Rightarrow> loopal_failure + config_layer" where
  "load_project_layer E cwd =
     load_layer_from_dir E (project_config_dir cwd) From_project (Some (project_instructions_path cwd))"

text \<open>\<open>None\<close> would be a panic.\<close>

definition load_config :: "config_env \<Rightarrow> string \<Rightarrow> (loopal_failure + resolved_config) option" where
  "load_config E cwd =
     (case load_plugin_layers E of
        Inl e \<Rightarrow> Some (Inl e)
      | Inr plugins \<Rightarrow>
          (case load_global_layer E of
             Inl e \<Rightarrow> Some (Inl e)
           | Inr globals \<Rightarrow>
               (case load_project_layer E cwd of
                  Inl e \<Rightarrow> Some (Inl e)
                | Inr proj \<Rightarrow>
                    (case load_local_layer E cwd of
                       Inl e \<Rightarrow> Some (Inl e)
                     | Inr loc \<Rightarrow>
                         map_option (\<lambda>ev. resolve_layers E (plugins @ globals @ [proj, loc, ev]))
                           (load_env_layer E)))))"

subsection \<open>Overrides of the command line\<close>

record start_params =
  start_model :: "string option"
  start_permission :: "string option"
  no_sandbox :: bool

definition apply_start_overrides :: "start_params \<Rightarrow> settings \<Rightarrow> settings" where
  "apply_start_overrides p s =
     (let s = (case start_model p of Some t \<Rightarrow> s\<lparr>set_model := t\<rparr> | None \<Rightarrow> s);
          s = (case start_permission p of
                 Some t \<Rightarrow>
                   s\<lparr>set_permission :=
                     (if t \<in> {''bypass'', ''yolo''} then Bypass else if t = ''auto'' then Auto
                      else Supervised_mode)\<rparr>
               | None \<Rightarrow> s)
      in if no_sandbox p then s\<lparr>set_sandbox := (set_sandbox s)\<lparr>config_policy := Disabled\<rparr>\<rparr> else s)"

subsection \<open>What a JSON value says at a path\<close>

text \<open>
  A value is silent about a path where an object on the way lacks the key; it blocks the path where
  something on the way is no object.
\<close>

datatype spoken = Silent | Blocked | Spoken json | Subtree

fun said_at :: "json \<Rightarrow> string list \<Rightarrow> spoken" where
  "said_at (JObj m) [] = Subtree"
| "said_at v [] = Spoken v"
| "said_at (JObj m) (k # ks) = (case map_of m k of None \<Rightarrow> Silent | Some w \<Rightarrow> said_at w ks)"
| "said_at v (k # ks) = Blocked"

definition value_at :: "json \<Rightarrow> string list \<Rightarrow> json option" where
  "value_at v ks = (case said_at v ks of Spoken w \<Rightarrow> Some w | _ \<Rightarrow> None)"

fun keyed :: "json \<Rightarrow> bool" where
  "keyed (JObj m) = (distinct (map fst m) \<and> list_all (\<lambda>e. keyed (snd e)) m)"
| "keyed v = True"

lemma said_at_empty: "said_at v [] \<noteq> Silent" "said_at v [] \<noteq> Blocked"
  by (cases v; simp)+

lemma deep_merge_replaces:
  "as_object ov = None \<Longrightarrow> deep_merge b ov = ov"
  "as_object b = None \<Longrightarrow> deep_merge b ov = ov"
  by (cases b; cases ov; simp)+

lemma as_object_None: "as_object v = None \<longleftrightarrow> (\<forall>m. v \<noteq> JObj m)"
  by (cases v) auto

lemma map_of_merge:
  "distinct (map fst ov)
   \<Longrightarrow> map_of (merge_entries b ov) k =
      (case map_of ov k of
         None \<Rightarrow> map_of b k
       | Some v \<Rightarrow> Some (deep_merge (case map_of b k of Some w \<Rightarrow> w | None \<Rightarrow> JNull) v))"
proof (induction ov arbitrary: b)
  case (Cons e ov)
  obtain k' v' where e: "e = (k', v')" by (cases e)
  have "map_of ov k' = None" using Cons.prems by (auto simp: e map_of_eq_None_iff)
  then show ?case using Cons by (auto simp: e update_conv' split: option.splits)
qed simp

lemma merge_with_null: "deep_merge JNull v = v"
  by (rule deep_merge_replaces) simp

lemma keyed_entry: "keyed (JObj m) \<Longrightarrow> map_of m k = Some v \<Longrightarrow> keyed v"
  by (auto simp: list_all_iff dest!: map_of_SomeD)

lemma value_at_deep_merge:
  "keyed ov \<Longrightarrow> value_at (deep_merge b ov) ks = (if said_at ov ks = Silent then value_at b ks else value_at ov ks)"
proof (induction ks arbitrary: b ov)
  case Nil
  then show ?case
    by (cases "as_object ov"; cases "as_object b")
       (auto simp: value_at_def said_at_empty deep_merge_replaces elim!: as_object.elims)
next
  case (Cons k ks)
  show ?case
  proof (cases ov)
    case ov: (JObj mo)
    show ?thesis
    proof (cases b)
      case b: (JObj mb)
      show ?thesis
      proof (cases "map_of mo k")
        case None
        then show ?thesis using Cons.prems by (simp add: ov b value_at_def map_of_merge)
      next
        case (Some v)
        have "keyed v" using keyed_entry Cons.prems ov Some by blast
        then show ?thesis
          using Cons.IH[of v "case map_of mb k of Some w \<Rightarrow> w | None \<Rightarrow> JNull"] Cons.prems Some
          by (cases ks) (auto simp: ov b value_at_def map_of_merge said_at_empty split: option.splits)
      qed
    qed (auto simp: ov value_at_def)
  qed (auto simp: value_at_def deep_merge_replaces)
qed

subsection \<open>What the layers add up to\<close>

definition speaks :: "string list \<Rightarrow> config_layer \<Rightarrow> bool" where
  "speaks ks l = (layer_settings l \<noteq> JNull \<and> said_at (layer_settings l) ks \<noteq> Silent)"

definition layer_ok :: "config_layer \<Rightarrow> bool" where
  "layer_ok l = (keyed (layer_settings l) \<and> distinct (map fst (layer_servers l)))"

lemma find_rev_snoc: "find P (rev (xs @ [x])) = (if P x then Some x else find P (rev xs))"
  by simp

lemma merge_layer_simps [simp]:
  "m_servers (merge_layer l m) = fold (merge_server (layer_source l)) (layer_servers l) (m_servers m)"
  "m_hooks (merge_layer l m) = m_hooks m @ map (\<lambda>h. (h, layer_source l)) (layer_hooks l)"
  "m_instructions (merge_layer l m) = add_part (layer_instructions l) (m_instructions m)"
  "m_sources (merge_layer l m) = m_sources m @ [layer_source l]"
  "m_skills (merge_layer l m) = fold (merge_skill (layer_source l)) (layer_skills l) (m_skills m)"
  by (simp_all add: merge_layer_def)

lemma merged_value:
  assumes "\<forall>l\<in>set ls. layer_ok l"
  shows "value_at (m_settings (fold merge_layer ls m)) ks
         = (case find (speaks ks) (rev ls) of
              Some l \<Rightarrow> value_at (layer_settings l) ks | None \<Rightarrow> value_at (m_settings m) ks)"
  using assms
proof (induction ls rule: rev_induct)
  case (snoc l ls)
  then have "keyed (layer_settings l)" by (simp add: layer_ok_def)
  then show ?case
    using snoc by (auto simp: merge_layer_def speaks_def value_at_deep_merge)
qed simp

lemma map_of_merge_server:
  "map_of (merge_server src e m) n
   = (if n = fst e then if server_enabled (snd e) then Some (snd e, src) else None else map_of m n)"
  by (auto simp: merge_server_def update_conv' delete_conv')

lemma merged_servers_of_layer:
  "distinct (map fst ss) \<Longrightarrow>
   map_of (fold (merge_server src) ss m) n
   = (case map_of ss n of
        None \<Rightarrow> map_of m n | Some c \<Rightarrow> if server_enabled c then Some (c, src) else None)"
proof (induction ss arbitrary: m)
  case (Cons e ss)
  have "map_of ss (fst e) = None" using Cons.prems by (simp add: map_of_eq_None_iff)
  then show ?case using Cons by (auto simp: map_of_merge_server split: option.splits)
qed simp

lemma merged_server:
  assumes "\<forall>l\<in>set ls. layer_ok l"
  shows "map_of (m_servers (fold merge_layer ls m)) n
         = (case find (\<lambda>l. map_of (layer_servers l) n \<noteq> None) (rev ls) of
              None \<Rightarrow> map_of (m_servers m) n
            | Some l \<Rightarrow> (case map_of (layer_servers l) n of
                          Some c \<Rightarrow> if server_enabled c then Some (c, layer_source l) else None
                        | None \<Rightarrow> None))"
  using assms
proof (induction ls rule: rev_induct)
  case (snoc l ls)
  then have "distinct (map fst (layer_servers l))" by (simp add: layer_ok_def)
  then show ?case using snoc by (cases "map_of (layer_servers l) n") (simp_all add: merged_servers_of_layer)
qed simp

lemma merged_hooks:
  "m_hooks (fold merge_layer ls m)
   = m_hooks m @ concat (map (\<lambda>l. map (\<lambda>h. (h, layer_source l)) (layer_hooks l)) ls)"
  by (induction ls arbitrary: m) simp_all

definition part_of :: "string option \<Rightarrow> string list" where
  "part_of t = (case t of Some x \<Rightarrow> if trim x = [] then [] else [trim x] | None \<Rightarrow> [])"

lemma merged_instructions:
  "m_instructions (fold merge_layer ls m) = m_instructions m @ concat (map (\<lambda>l. part_of (layer_instructions l)) ls)"
  by (induction ls arbitrary: m) (simp_all add: add_part_def part_of_def split: option.splits)

lemma merged_sources: "m_sources (fold merge_layer ls m) = m_sources m @ map layer_source ls"
  by (induction ls arbitrary: m) simp_all

lemma resolved_parts:
  assumes "\<forall>l\<in>set ls. layer_ok l" "resolve_layers E ls = Inr rc"
  shows "(\<exists>v s. read_settings E v = Inr s
            \<and> (\<forall>ks. value_at v ks = (case find (speaks ks) (rev ls) of
                                       Some l \<Rightarrow> value_at (layer_settings l) ks
                                     | None \<Rightarrow> value_at (default_json E) ks))
            \<and> rc_settings rc = s\<lparr>set_servers := map (\<lambda>(n, c, src). (n, c)) (rc_servers rc),
                                 set_hooks := map fst (rc_hooks rc)\<rparr>)
         \<and> (\<forall>n. map_of (rc_servers rc) n
                 = (case find (\<lambda>l. map_of (layer_servers l) n \<noteq> None) (rev ls) of
                      None \<Rightarrow> None
                    | Some l \<Rightarrow> (case map_of (layer_servers l) n of
                                  Some c \<Rightarrow> if server_enabled c then Some (c, layer_source l) else None
                                | None \<Rightarrow> None)))
         \<and> rc_hooks rc = concat (map (\<lambda>l. map (\<lambda>h. (h, layer_source l)) (layer_hooks l)) ls)
         \<and> rc_instructions rc = str_join [NL, NL] (concat (map (\<lambda>l. part_of (layer_instructions l)) ls))
         \<and> rc_layers rc = map layer_source ls"
proof -
  let ?m = "fold merge_layer ls (merged_init (default_json E))"
  obtain s where s: "read_settings E (m_settings ?m) = Inr s"
    and rc: "rc = \<lparr>rc_settings = s\<lparr>set_servers := map (\<lambda>(n, c, src). (n, c)) (m_servers ?m),
                                  set_hooks := map fst (m_hooks ?m)\<rparr>,
                   rc_servers = m_servers ?m, rc_skills = m_skills ?m, rc_hooks = m_hooks ?m,
                   rc_instructions = str_join [NL, NL] (m_instructions ?m),
                   rc_memory = str_join [NL, NL] (m_memory ?m), rc_layers = m_sources ?m\<rparr>"
    using assms(2) by (auto simp: resolve_layers_def Let_def split: sum.splits)
  have "\<forall>ks. value_at (m_settings ?m) ks = (case find (speaks ks) (rev ls) of
          Some l \<Rightarrow> value_at (layer_settings l) ks | None \<Rightarrow> value_at (default_json E) ks)"
    by (simp add: merged_value[OF assms(1)] merged_init_def cong: option.case_cong)
  then have "\<exists>v s. read_settings E v = Inr s
            \<and> (\<forall>ks. value_at v ks = (case find (speaks ks) (rev ls) of
                                       Some l \<Rightarrow> value_at (layer_settings l) ks
                                     | None \<Rightarrow> value_at (default_json E) ks))
            \<and> rc_settings rc = s\<lparr>set_servers := map (\<lambda>(n, c, src). (n, c)) (rc_servers rc),
                                 set_hooks := map fst (rc_hooks rc)\<rparr>"
    using s rc by (intro exI[of _ "m_settings ?m"] exI[of _ s]) simp
  moreover have "m_servers (merged_init (default_json E)) = []" "m_hooks (merged_init (default_json E)) = []"
    "m_instructions (merged_init (default_json E)) = []" "m_sources (merged_init (default_json E)) = []"
    by (simp_all add: merged_init_def)
  ultimately show ?thesis
    by (simp add: rc merged_server[OF assms(1)] merged_hooks merged_instructions merged_sources
         cong: option.case_cong)
qed

text \<open>
  C37. The configuration that \<open>resolve\<close> returns is the highest layer's say. What it reads as the settings
  has at every path the value of the last layer that says anything there, or the default's where none
  does; a server is there, with the configuration and the source of the last layer that names it,
  unless that layer disables it; hooks, instructions and sources are those of all the layers, in
  their order.
\<close>

theorem last_layer_decides:
  assumes "\<forall>l\<in>set ls. layer_ok l" "resolve_layers E ls = Inr rc"
  shows "(\<exists>v s. read_settings E v = Inr s
            \<and> (\<forall>ks. value_at v ks = (case find (speaks ks) (rev ls) of
                                       Some l \<Rightarrow> value_at (layer_settings l) ks
                                     | None \<Rightarrow> value_at (default_json E) ks))
            \<and> rc_settings rc = s\<lparr>set_servers := map (\<lambda>(n, c, src). (n, c)) (rc_servers rc),
                                 set_hooks := map fst (rc_hooks rc)\<rparr>)
         \<and> (\<forall>n. map_of (rc_servers rc) n
                 = (case find (\<lambda>l. map_of (layer_servers l) n \<noteq> None) (rev ls) of
                      None \<Rightarrow> None
                    | Some l \<Rightarrow> (case map_of (layer_servers l) n of
                                  Some c \<Rightarrow> if server_enabled c then Some (c, layer_source l) else None
                                | None \<Rightarrow> None)))
         \<and> rc_hooks rc = concat (map (\<lambda>l. map (\<lambda>h. (h, layer_source l)) (layer_hooks l)) ls)
         \<and> rc_instructions rc = str_join [NL, NL] (concat (map (\<lambda>l. part_of (layer_instructions l)) ls))
         \<and> rc_layers rc = map layer_source ls"
  using assms by (rule resolved_parts)

definition two_layers :: "config_layer list" where
  "two_layers =
     [layer_default\<lparr>layer_settings := JObj [(''model'', JStr ''small''), (''max_turns'', JInt 9)],
        layer_servers := [(''git'', Stdio ''git-mcp'' [] [] True 30000)], layer_instructions := Some '' Be brief. ''\<rparr>,
      layer_default\<lparr>layer_source := From_local, layer_settings := JObj [(''model'', JStr ''large'')],
        layer_servers := [(''git'', Stdio ''git-mcp'' [] [] False 30000)], layer_instructions := Some ''Test.''\<rparr>]"

definition plain_env :: config_env where
  "plain_env =
     \<lparr>home = None, env_var = (\<lambda>k. if k = ''LOOPAL_MODEL'' then Some ''mine'' else None),
      read_file_at = (\<lambda>p. Not_there), skill_files = (\<lambda>p. None), sub_dirs = (\<lambda>p. None),
      json_of = (\<lambda>t. Inl ''no JSON''), default_json = JObj [],
      read_settings = (\<lambda>v. case value_at v [''model''] of
                             Some (JStr t) \<Rightarrow> Inr (settings_default\<lparr>set_model := t\<rparr>)
                           | _ \<Rightarrow> Inr settings_default),
      read_hooks = (\<lambda>v. None)\<rparr>"

theorem last_layer_decides_witness:
  "\<exists>rc. resolve_layers plain_env two_layers = Inr rc \<and> set_model (rc_settings rc) = ''large''
     \<and> map_of (rc_servers rc) ''git'' = None \<and> rc_layers rc = [From_global, From_local]"
proof -
  have ok: "\<forall>l\<in>set two_layers. layer_ok l" by (simp add: two_layers_def layer_ok_def layer_default_def)
  have "\<exists>s. read_settings plain_env v = Inr s" for v
    by (simp add: plain_env_def split: option.split json.split)
  then obtain rc where rc: "resolve_layers plain_env two_layers = Inr rc"
    unfolding resolve_layers_def Let_def by (metis sum.simps(6))
  note found = last_layer_decides[OF ok rc]
  obtain v s where v: "read_settings plain_env v = Inr s"
    "value_at v [''model''] = (case find (speaks [''model'']) (rev two_layers) of
        Some l \<Rightarrow> value_at (layer_settings l) [''model''] | None \<Rightarrow> value_at (default_json plain_env) [''model''])"
    "set_model (rc_settings rc) = set_model s"
    using found by auto
  have "value_at v [''model''] = Some (JStr ''large'')"
    using v(2) by (simp add: two_layers_def speaks_def layer_default_def value_at_def)
  then have "set_model (rc_settings rc) = ''large''" using v(1,3) by (auto simp: plain_env_def)
  moreover have "map_of (rc_servers rc) ''git'' = None" "rc_layers rc = [From_global, From_local]"
    using found by (simp_all add: two_layers_def layer_default_def)
  ultimately show ?thesis using rc by blast
qed

subsection \<open>The layers that are loaded\<close>

lemma keyed_delete: "keyed (JObj m) \<Longrightarrow> keyed (JObj (AList.delete k m))"
  by (simp add: distinct_delete list_all_iff) (simp add: AList.delete_eq)

lemma keyed_drop_keys: "keyed v \<Longrightarrow> keyed (drop_keys ks v)"
proof (cases v)
  case (JObj m)
  have "keyed (JObj m) \<Longrightarrow> keyed (JObj (fold AList.delete ks m))"
    by (induction ks arbitrary: m) (simp_all add: keyed_delete del: keyed.simps)
  then show "keyed v \<Longrightarrow> keyed (drop_keys ks v)" by (simp add: JObj del: keyed.simps)
qed auto

lemma distinct_server_entries: "distinct (map fst m) \<Longrightarrow> distinct (map fst (fold server_entry es m))"
  by (induction es arbitrary: m) (simp_all add: server_entry_def distinct_update split: option.split)

lemma with_settings_ok:
  "keyed v \<Longrightarrow> layer_ok l \<Longrightarrow> layer_ok (with_settings E v l)"
  by (auto simp: with_settings_def layer_ok_def extract_typed_fields_def keyed_drop_keys
      distinct_server_entries split: option.split)

lemma with_settings_source [simp]: "layer_source (with_settings E v l) = layer_source l"
  by (simp add: with_settings_def split: prod.split)

lemma layer_ok_default [simp]:
  "layer_ok layer_default" "layer_ok (l\<lparr>layer_source := src\<rparr>) = layer_ok l"
  "layer_ok (l\<lparr>layer_instructions := i\<rparr>) = layer_ok l" "layer_ok (l\<lparr>layer_memory := y\<rparr>) = layer_ok l"
  "layer_ok (l\<lparr>layer_skills := k\<rparr>) = layer_ok l"
  by (simp_all add: layer_ok_def layer_default_def)

lemma load_json_file_keyed:
  "\<forall>t v. json_of E t = Inr v \<longrightarrow> keyed v \<Longrightarrow> load_json_file E p = Inr v \<Longrightarrow> keyed v"
  by (auto simp: load_json_file_def split: read_outcome.splits sum.splits)

lemma loaded_dir:
  assumes "\<forall>t v. json_of E t = Inr v \<longrightarrow> keyed v" "load_layer_from_dir E dir src i = Inr l"
  shows "layer_ok l \<and> layer_source l = src"
  using assms(2) load_json_file_keyed[OF assms(1)]
  by (auto simp: load_layer_from_dir_def with_settings_ok split: sum.splits)

lemma loaded_local:
  assumes "\<forall>t v. json_of E t = Inr v \<longrightarrow> keyed v" "load_local_layer E cwd = Inr l"
  shows "layer_ok l \<and> layer_source l = From_local"
  using assms(2) load_json_file_keyed[OF assms(1)]
  by (auto simp: load_local_layer_def with_settings_ok split: sum.splits)

lemma all_of_map_Inr: "all_of (map Inr ys) = Inr ys"
  by (induction ys) simp_all

lemma all_of_Inr: "all_of xs = Inr ys \<longleftrightarrow> xs = map Inr ys"
  by (induction xs arbitrary: ys rule: all_of.induct) (auto simp: all_of_map_Inr split: sum.splits)

lemma loaded_plugins:
  assumes "\<forall>t v. json_of E t = Inr v \<longrightarrow> keyed v" "load_plugin_layers E = Inr ls"
  shows "(\<forall>l\<in>set ls. layer_ok l) \<and> (\<exists>ns. sorted ns \<and> map layer_source ls = map From_plugin ns)"
proof -
  have made: "layer_ok l \<and> layer_source l = From_plugin n"
    if "load_layer_from_dir E (path_join d n) (From_plugin n) None = Inr l" for d n l
    using loaded_dir[OF assms(1) that] .
  have "(\<forall>l\<in>set ls. layer_ok l) \<and> map layer_source ls = map From_plugin ns"
    if "map (\<lambda>n. load_layer_from_dir E (path_join d n) (From_plugin n) None) ns = map Inr ls" for d ns
    using that by (induction ns arbitrary: ls) (auto simp: Cons_eq_map_conv dest!: made)
  then have sorted_names: "(\<forall>l\<in>set ls. layer_ok l) \<and> (\<exists>ns. sorted ns \<and> map layer_source ls = map From_plugin ns)"
    if "map (\<lambda>n. load_layer_from_dir E (path_join d n) (From_plugin n) None) (sort names) = map Inr ls"
    for d names
    using that sorted_sort by blast
  show ?thesis
    using assms(2) sorted_names
    by (auto simp: load_plugin_layers_def all_of_Inr split: sum.splits option.splits intro: exI[of _ "[]"])
qed

lemma env_layer_settings:
  "apply_env_overrides E (JObj []) =
     Some (JObj (let m0 = (case env_var E ''LOOPAL_MODEL'' of Some t \<Rightarrow> [(''model'', JStr t)] | None \<Rightarrow> []);
                     m1 = (case Option.bind (env_var E ''LOOPAL_MAX_TURNS'') (parse_uint (2 ^ 32)) of
                             Some n \<Rightarrow> AList.update ''max_turns'' (JInt (int n)) m0 | None \<Rightarrow> m0);
                     m2 = (case env_var E ''LOOPAL_PERMISSION_MODE'' of
                             Some t \<Rightarrow> AList.update ''permission_mode'' (JStr t) m1 | None \<Rightarrow> m1)
                 in case env_var E ''LOOPAL_SANDBOX'' of
                      Some t \<Rightarrow> AList.update ''sandbox'' (JObj [(''policy'', JStr t)]) m2 | None \<Rightarrow> m2))"
  by (auto simp: apply_env_overrides_def when_set_def jindex_def update_conv' Let_def split: option.split)

text \<open>
  Loading the configuration never panics. Where it succeeds the layers were, from the lowest, the
  plugins by name, the global one (with a home directory), the project, the local overrides and the
  environment; and the environment has the last word: the model that \<open>LOOPAL_MODEL\<close> names is the
  value the settings are read from, whatever any file says.
\<close>

theorem environment_has_last_word:
  assumes keys: "\<forall>t v. json_of E t = Inr v \<longrightarrow> keyed v"
    and model: "env_var E ''LOOPAL_MODEL'' = Some t"
  shows "(\<exists>r. load_config E cwd = Some r)
         \<and> (\<forall>rc. load_config E cwd = Some (Inr rc) \<longrightarrow>
              (\<exists>v s. read_settings E v = Inr s \<and> set_model (rc_settings rc) = set_model s
                    \<and> value_at v [''model''] = Some (JStr t))
              \<and> (\<exists>ns. sorted ns
                     \<and> rc_layers rc = map From_plugin ns @ (if home E = None then [] else [From_global])
                                     @ [From_project, From_local, From_env]))"
proof -
  obtain m where env: "apply_env_overrides E (JObj []) = Some (JObj m)"
    and m: "map_of m ''model'' = Some (JStr t)" and km: "keyed (JObj m)"
    by (simp add: env_layer_settings model Let_def update_conv' split: option.split)
  define ev where "ev = layer_default\<lparr>layer_source := From_env, layer_settings := JObj m\<rparr>"
  have ev: "load_env_layer E = Some ev" by (simp add: load_env_layer_def env ev_def)
  have ok: "layer_ok ev" using km by (simp add: ev_def layer_ok_def layer_default_def)
  have said: "speaks [''model''] ev" "value_at (layer_settings ev) [''model''] = Some (JStr t)"
    by (simp_all add: speaks_def ev_def m value_at_def)
  have "(\<exists>v s. read_settings E v = Inr s \<and> set_model (rc_settings rc) = set_model s
              \<and> value_at v [''model''] = Some (JStr t))
        \<and> (\<exists>ns. sorted ns \<and> rc_layers rc = map From_plugin ns @ (if home E = None then [] else [From_global])
                                     @ [From_project, From_local, From_env])"
    if loaded: "load_config E cwd = Some (Inr rc)" for rc
  proof -
    obtain ps gs pr lo where parts: "load_plugin_layers E = Inr ps" "load_global_layer E = Inr gs"
      "load_project_layer E cwd = Inr pr" "load_local_layer E cwd = Inr lo"
      and rc: "resolve_layers E (ps @ gs @ [pr, lo, ev]) = Inr rc"
      using loaded by (auto simp: load_config_def ev split: sum.splits)
    have gs: "(\<forall>l\<in>set gs. layer_ok l) \<and> map layer_source gs = (if home E = None then [] else [From_global])"
      using parts(2) loaded_dir[OF keys]
      by (auto simp: load_global_layer_def global_config_dir_def under_home_def split: sum.splits option.splits)
    have ends: "layer_ok pr \<and> layer_source pr = From_project" "layer_ok lo \<and> layer_source lo = From_local"
      using parts(3,4) loaded_dir[OF keys] loaded_local[OF keys] by (simp_all add: load_project_layer_def)
    have all: "\<forall>l\<in>set (ps @ gs @ [pr, lo, ev]). layer_ok l"
      using loaded_plugins[OF keys parts(1)] gs ends ok by auto
    note m = resolved_parts[OF all rc]
    have "find (speaks [''model'']) (rev (ps @ gs @ [pr, lo, ev])) = Some ev" using said by simp
    moreover have "layer_source ev = From_env" by (simp add: ev_def)
    ultimately show ?thesis
      using m said(2) loaded_plugins[OF keys parts(1)] gs ends by force
  qed
  moreover have "\<exists>r. load_config E cwd = Some r"
    by (simp add: load_config_def ev split: sum.split)
  ultimately show ?thesis by blast
qed

theorem environment_has_last_word_witness:
  "\<exists>rc. load_config plain_env ''w'' = Some (Inr rc) \<and> set_model (rc_settings rc) = ''mine''
     \<and> last (rc_layers rc) = From_env"
proof -
  have keys: "\<forall>t v. json_of plain_env t = Inr v \<longrightarrow> keyed v" by (simp add: plain_env_def)
  have model: "env_var plain_env ''LOOPAL_MODEL'' = Some ''mine''" by (simp add: plain_env_def)
  have "\<exists>s. read_settings plain_env v = Inr s" for v
    by (simp add: plain_env_def split: option.split json.split)
  then have res: "\<exists>rc. resolve_layers plain_env ls = Inr rc" for ls
    unfolding resolve_layers_def Let_def by (metis sum.simps(6))
  obtain rc where rc: "load_config plain_env ''w'' = Some (Inr rc)"
    using res
    by (auto simp: load_config_def load_plugin_layers_def load_global_layer_def load_project_layer_def
        load_layer_from_dir_def load_local_layer_def load_json_file_def load_env_layer_def env_layer_settings
        global_plugins_dir_def global_config_dir_def under_home_def plain_env_def)
  obtain v s ns where v: "read_settings plain_env v = Inr s" "set_model (rc_settings rc) = set_model s"
    "value_at v [''model''] = Some (JStr ''mine'')"
    and ns: "rc_layers rc = map From_plugin ns @ [From_project, From_local, From_env]"
    using environment_has_last_word[OF keys model, of "''w''"] rc by (auto simp: plain_env_def)
  have "set_model (rc_settings rc) = ''mine''" using v by (auto simp: plain_env_def)
  moreover have "last (rc_layers rc) = From_env" by (simp add: ns)
  ultimately show ?thesis using rc by blast
qed

text \<open>A file of settings that is JSON but no object: what the layers below said is gone.\<close>

lemma non_object_layer_forgets:
  "as_object v = None \<Longrightarrow> deep_merge (deep_merge b v) (JObj m) = JObj m"
  by (simp add: deep_merge_replaces)

end
