(* ===== verification/Mcp.thy ===== *)
theory Mcp
  imports Settings Provider_Stream Rust_Search
begin

section \<open>Servers of the model context protocol\<close>

text \<open>
  The crate \<open>loopal-mcp\<close>: the client (\<open>client.rs\<close>), a connection and its life cycle
  (\<open>connection.rs\<close>, \<open>reconnect.rs\<close>, \<open>types.rs\<close>, \<open>transport.rs\<close>, \<open>oauth\<close>), the manager of all
  connections (\<open>manager.rs\<close>, \<open>manager_query.rs\<close>), the tools that it offers (\<open>tool_adapter.rs\<close>), and
  \<open>Kernel::start_mcp\<close>. The protocol library, the processes and the network are functions on a world
  of any type; the servers are connected one after another here, in the order in which the code
  collects them.
\<close>

subsection \<open>Statuses and what servers offer\<close>

datatype connection_status = Disconnected | Connecting | Connected | Conn_failed string

definition is_connected :: "connection_status \<Rightarrow> bool" where
  "is_connected s = (s = Connected)"

fun is_failed :: "connection_status \<Rightarrow> bool" where
  "is_failed (Conn_failed t) = True"
| "is_failed _ = False"

fun connection_status_text :: "connection_status \<Rightarrow> string" where
  "connection_status_text Disconnected = ''disconnected''"
| "connection_status_text Connecting = ''connecting''"
| "connection_status_text Connected = ''connected''"
| "connection_status_text (Conn_failed t) = ''failed: '' @ t"

record mcp_resource =
  res_uri :: string
  res_name :: string
  res_description :: "string option"
  res_mime :: "string option"

record mcp_prompt =
  prompt_name :: string
  prompt_description :: "string option"

subsection \<open>The client\<close>

text \<open>The messages of the protocol, as the library has them.\<close>

datatype resource_contents = Text_resource string string | Blob_resource string string

datatype raw_content =
    Raw_text string
  | Raw_image string string
  | Raw_audio string
  | Raw_resource resource_contents
  | Raw_link string

record call_reply =
  reply_content :: "raw_content list"
  reply_error :: "bool option"

record wire_tool =
  wt_name :: string
  wt_description :: "string option"
  wt_schema :: "(string \<times> json) list"

datatype mcp_request =
    List_tools
  | Call_tool string "(string \<times> json) list"
  | List_resources
  | Read_resource string
  | List_prompts

datatype mcp_reply =
    Tools_listed "wire_tool list"
  | Tool_called call_reply
  | Resources_listed "mcp_resource list"
  | Resource_read "resource_contents list"
  | Prompts_listed "mcp_prompt list"
  | Other_reply

datatype service_error = Service_timeout nat | Service_closed | Service_other string

datatype sent = Not_sent string | Answered mcp_reply | Service_failed service_error

record capability_summary =
  cap_tools :: bool
  cap_resources :: bool
  cap_prompts :: bool

record server_info =
  info_capabilities :: capability_summary
  info_instructions :: "string option"

text \<open>
  What the library and the network do: sending a request, the information of the handshake, whether
  the transport is closed, and opening a transport. The last field is the authorized connection of
  \<open>oauth/flow.rs\<close>.
\<close>

record ('c, 'w) mcp_net =
  transmit :: "'c \<Rightarrow> mcp_request \<Rightarrow> 'w \<Rightarrow> sent \<times> 'w"
  peer_info :: "'c \<Rightarrow> server_info option"
  is_closed :: "'c \<Rightarrow> 'w \<Rightarrow> bool"
  open_stdio :: "string \<Rightarrow> string list \<Rightarrow> (string \<times> string) list \<Rightarrow> u64 \<Rightarrow> bool \<Rightarrow> 'w
                 \<Rightarrow> (mcp_failure + 'c) \<times> 'w"
  bad_header :: "string \<times> string \<Rightarrow> string option"
  bad_http_client :: "string option"
  open_http :: "string \<Rightarrow> (string \<times> string) list \<Rightarrow> u64 \<Rightarrow> bool \<Rightarrow> 'w \<Rightarrow> (mcp_failure + 'c) \<times> 'w"
  with_oauth :: "string \<Rightarrow> u64 \<Rightarrow> bool \<Rightarrow> 'w \<Rightarrow> (mcp_failure + 'c) \<times> 'w"

definition client_send :: "('c, 'w) mcp_net \<Rightarrow> 'c \<Rightarrow> mcp_request \<Rightarrow> 'w \<Rightarrow> (mcp_failure + mcp_reply) \<times> 'w" where
  "client_send N c q w =
     (case transmit N c q w of
        (Not_sent t, w) \<Rightarrow> (Inl (Mcp_closed t), w)
      | (Answered r, w) \<Rightarrow> (Inr r, w)
      | (Service_failed (Service_timeout ms), w) \<Rightarrow> (Inl (Mcp_timeout (nat_str ms @ ''ms'')), w)
      | (Service_failed Service_closed, w) \<Rightarrow> (Inl (Mcp_closed ''transport closed''), w)
      | (Service_failed (Service_other t), w) \<Rightarrow> (Inl (Mcp_protocol t), w))"

text \<open>A reply of the wrong kind is an error of the protocol.\<close>

definition expect ::
  "string \<Rightarrow> (mcp_reply \<Rightarrow> 'a option) \<Rightarrow> (mcp_failure + mcp_reply) \<times> 'w \<Rightarrow> (mcp_failure + 'a) \<times> 'w" where
  "expect what f r =
     (case fst r of
        Inl e \<Rightarrow> Inl e
      | Inr reply \<Rightarrow>
          (case f reply of Some x \<Rightarrow> Inr x | None \<Rightarrow> Inl (Mcp_protocol (''unexpected response to '' @ what))),
      snd r)"

definition list_tools :: "('c, 'w) mcp_net \<Rightarrow> 'c \<Rightarrow> 'w \<Rightarrow> (mcp_failure + wire_tool list) \<times> 'w" where
  "list_tools N c w =
     expect ''tools/list'' (\<lambda>r. case r of Tools_listed ts \<Rightarrow> Some ts | _ \<Rightarrow> None) (client_send N c List_tools w)"

definition client_call_tool ::
  "('c, 'w) mcp_net \<Rightarrow> 'c \<Rightarrow> string \<Rightarrow> (string \<times> json) list \<Rightarrow> 'w \<Rightarrow> (mcp_failure + call_reply) \<times> 'w" where
  "client_call_tool N c name args w =
     expect ''tools/call'' (\<lambda>r. case r of Tool_called x \<Rightarrow> Some x | _ \<Rightarrow> None)
       (client_send N c (Call_tool name args) w)"

definition list_resources :: "('c, 'w) mcp_net \<Rightarrow> 'c \<Rightarrow> 'w \<Rightarrow> (mcp_failure + mcp_resource list) \<times> 'w" where
  "list_resources N c w =
     expect ''resources/list'' (\<lambda>r. case r of Resources_listed x \<Rightarrow> Some x | _ \<Rightarrow> None)
       (client_send N c List_resources w)"

definition client_read_resource ::
  "('c, 'w) mcp_net \<Rightarrow> 'c \<Rightarrow> string \<Rightarrow> 'w \<Rightarrow> (mcp_failure + resource_contents list) \<times> 'w" where
  "client_read_resource N c uri w =
     expect ''resources/read'' (\<lambda>r. case r of Resource_read x \<Rightarrow> Some x | _ \<Rightarrow> None)
       (client_send N c (Read_resource uri) w)"

definition list_prompts :: "('c, 'w) mcp_net \<Rightarrow> 'c \<Rightarrow> 'w \<Rightarrow> (mcp_failure + mcp_prompt list) \<times> 'w" where
  "list_prompts N c w =
     expect ''prompts/list'' (\<lambda>r. case r of Prompts_listed x \<Rightarrow> Some x | _ \<Rightarrow> None)
       (client_send N c List_prompts w)"

subsection \<open>Transports\<close>

text \<open>
  Lower case here is that of ASCII: no other letter has a lower case among those looked for.
\<close>

definition ascii_lower :: "char \<Rightarrow> char" where
  "ascii_lower c =
     (if 65 \<le> (of_char c :: nat) \<and> (of_char c :: nat) \<le> 90 then char_of ((of_char c :: nat) + 32) else c)"

definition is_auth_error :: "mcp_failure \<Rightarrow> bool" where
  "is_auth_error e =
     (let msg = map ascii_lower (mcp_failure_text e)
      in contains msg ''auth'' \<or> contains msg ''401'' \<or> contains msg ''unauthorized'')"

definition build_http_client :: "('c, 'w) mcp_net \<Rightarrow> (string \<times> string) list \<Rightarrow> mcp_failure option" where
  "build_http_client N headers =
     (case find (\<lambda>h. bad_header N h \<noteq> None) headers of
        Some h \<Rightarrow> map_option Mcp_connection (bad_header N h)
      | None \<Rightarrow> map_option (\<lambda>t. Mcp_connection (''HTTP client: '' @ t)) (bad_http_client N))"

definition connect_http ::
  "('c, 'w) mcp_net \<Rightarrow> string \<Rightarrow> (string \<times> string) list \<Rightarrow> u64 \<Rightarrow> bool \<Rightarrow> 'w \<Rightarrow> (mcp_failure + 'c) \<times> 'w" where
  "connect_http N url headers ms sampling w =
     (case build_http_client N headers of
        Some e \<Rightarrow> (Inl e, w)
      | None \<Rightarrow>
          (case open_http N url headers ms sampling w of
             (Inr c, w) \<Rightarrow> (Inr c, w)
           | (Inl e, w) \<Rightarrow> if is_auth_error e then with_oauth N url ms sampling w else (Inl e, w)))"

subsection \<open>A connection\<close>

record 'c mcp_connection =
  conn_name :: string
  conn_status :: connection_status
  conn_config :: mcp_server
  conn_tools :: "offered_tool list"
  conn_resources :: "mcp_resource list"
  conn_prompts :: "mcp_prompt list"
  conn_instructions :: "string option"
  conn_errors :: "string list"
  conn_client :: "'c option"
  conn_sampling :: bool

definition mcp_connection_new :: "string \<Rightarrow> mcp_server \<Rightarrow> bool \<Rightarrow> 'c mcp_connection" where
  "mcp_connection_new n cfg sampling =
     \<lparr>conn_name = n, conn_status = Disconnected, conn_config = cfg, conn_tools = [], conn_resources = [],
      conn_prompts = [], conn_instructions = None, conn_errors = [], conn_client = None,
      conn_sampling = sampling\<rparr>"

definition create_client :: "('c, 'w) mcp_net \<Rightarrow> 'c mcp_connection \<Rightarrow> 'w \<Rightarrow> (mcp_failure + 'c) \<times> 'w" where
  "create_client N k w =
     (case conn_config k of
        Stdio cmd args vars on ms \<Rightarrow> open_stdio N cmd args vars ms (conn_sampling k) w
      | Streamable_http url headers on ms \<Rightarrow> connect_http N url headers ms (conn_sampling k) w)"

definition extract_capabilities :: "('c, 'w) mcp_net \<Rightarrow> 'c \<Rightarrow> capability_summary" where
  "extract_capabilities N c =
     (case peer_info N c of
        None \<Rightarrow> \<lparr>cap_tools = False, cap_resources = False, cap_prompts = False\<rparr>
      | Some i \<Rightarrow> info_capabilities i)"

definition to_offered :: "wire_tool \<Rightarrow> offered_tool" where
  "to_offered t =
     \<lparr>def_name = wt_name t, def_description = (case wt_description t of Some d \<Rightarrow> d | None \<Rightarrow> ''''),
      def_schema = JObj (wt_schema t)\<rparr>"

text \<open>One kind of capability: a list that arrives is stored, a failure is noted.\<close>

definition discover ::
  "bool \<Rightarrow> string \<Rightarrow> ('w \<Rightarrow> (mcp_failure + 'a) \<times> 'w) \<Rightarrow> ('a \<Rightarrow> 'c mcp_connection \<Rightarrow> 'c mcp_connection)
   \<Rightarrow> 'c mcp_connection \<times> 'w \<Rightarrow> 'c mcp_connection \<times> 'w" where
  "discover has what ask put s =
     (if \<not> has then s
      else case ask (snd s) of
             (Inr x, w) \<Rightarrow> (put x (fst s), w)
           | (Inl e, w) \<Rightarrow>
               ((fst s)\<lparr>conn_errors := conn_errors (fst s) @ [what @ '': '' @ mcp_failure_text e]\<rparr>, w))"

definition discover_capabilities ::
  "('c, 'w) mcp_net \<Rightarrow> 'c mcp_connection \<Rightarrow> 'w \<Rightarrow> 'c mcp_connection \<times> 'w" where
  "discover_capabilities N k w =
     (case conn_client k of
        None \<Rightarrow> (k, w)
      | Some c \<Rightarrow>
          (let caps = extract_capabilities N c
           in discover (cap_prompts caps) ''prompts/list'' (list_prompts N c)
                (\<lambda>ps k. k\<lparr>conn_prompts := ps\<rparr>)
                (discover (cap_resources caps) ''resources/list'' (list_resources N c)
                   (\<lambda>rs k. k\<lparr>conn_resources := rs\<rparr>)
                   (discover (cap_tools caps) ''tools/list'' (list_tools N c)
                      (\<lambda>ts k. k\<lparr>conn_tools := map to_offered ts\<rparr>) (k, w)))))"

definition cleared :: "'c mcp_connection \<Rightarrow> 'c mcp_connection" where
  "cleared k = k\<lparr>conn_tools := [], conn_resources := [], conn_prompts := [], conn_instructions := None\<rparr>"

text \<open>A connection that fails keeps whatever client it had.\<close>

definition connect :: "('c, 'w) mcp_net \<Rightarrow> 'c mcp_connection \<Rightarrow> 'w \<Rightarrow> 'c mcp_connection \<times> 'w" where
  "connect N k w =
     (let k = cleared (k\<lparr>conn_status := Connecting, conn_errors := []\<rparr>)
      in case create_client N k w of
           (Inr c, w) \<Rightarrow>
             (let k = (case peer_info N c of
                         Some i \<Rightarrow> k\<lparr>conn_instructions := info_instructions i\<rparr> | None \<Rightarrow> k)
              in case discover_capabilities N (k\<lparr>conn_client := Some c\<rparr>) w of
                   (k, w) \<Rightarrow> (k\<lparr>conn_status := Connected\<rparr>, w))
         | (Inl e, w) \<Rightarrow>
             (let msg = ''connection failed: '' @ mcp_failure_text e
              in (k\<lparr>conn_errors := [msg], conn_status := Conn_failed msg\<rparr>, w)))"

definition disconnect :: "'c mcp_connection \<Rightarrow> 'c mcp_connection" where
  "disconnect k = cleared (k\<lparr>conn_client := None, conn_status := Disconnected\<rparr>)"

subsection \<open>Connecting again\<close>

text \<open>The delays in milliseconds; the factor of the policy is a whole number here.\<close>

record reconnect_policy =
  max_attempts :: nat
  base_delay :: nat
  backoff_factor :: nat

definition reconnect_policy_default :: reconnect_policy where
  "reconnect_policy_default = \<lparr>max_attempts = 6, base_delay = 2000, backoff_factor = 2\<rparr>"

definition delay_for_attempt :: "reconnect_policy \<Rightarrow> nat \<Rightarrow> nat" where
  "delay_for_attempt p n = base_delay p * backoff_factor p ^ n"

fun is_reconnectable :: "mcp_server \<Rightarrow> bool" where
  "is_reconnectable (Streamable_http url headers on ms) = True"
| "is_reconnectable (Stdio cmd args vars on ms) = False"

text \<open>The attempts that are left, with the sleeps so far.\<close>

fun reconnect_attempts ::
  "('c, 'w) mcp_net \<Rightarrow> nat list \<Rightarrow> 'c mcp_connection \<Rightarrow> 'w \<Rightarrow> bool \<times> nat list \<times> 'c mcp_connection \<times> 'w" where
  "reconnect_attempts N [] k w = (False, [], k, w)"
| "reconnect_attempts N (d # ds) k w =
     (case connect N k w of
        (k, w) \<Rightarrow>
          if is_connected (conn_status k) then (True, [d], k, w)
          else (case reconnect_attempts N ds k w of (ok, slept, k, w) \<Rightarrow> (ok, d # slept, k, w)))"

definition reconnect_loop ::
  "('c, 'w) mcp_net \<Rightarrow> reconnect_policy \<Rightarrow> 'c mcp_connection \<Rightarrow> 'w
   \<Rightarrow> (mcp_failure + unit) \<times> nat list \<times> 'c mcp_connection \<times> 'w" where
  "reconnect_loop N p k w =
     (if \<not> is_reconnectable (conn_config k)
      then (Inl (Mcp_connection ''stdio connections do not support reconnection''), [], k, w)
      else case reconnect_attempts N (map (delay_for_attempt p) [0..<max_attempts p]) k w of
             (True, slept, k, w) \<Rightarrow> (Inr (), slept, k, w)
           | (False, slept, k, w) \<Rightarrow>
               (let msg = ''reconnection exhausted after '' @ nat_str (max_attempts p) @ '' attempts''
                in (Inl (Mcp_connection msg), slept, k\<lparr>conn_status := Conn_failed msg\<rparr>, w)))"

subsection \<open>The manager\<close>

record 'c mcp_manager =
  connections :: "(string \<times> 'c mcp_connection) list"
  tool_map :: "string \<Rightarrow> string option"
  sampling :: bool

definition manager_new :: "'c mcp_manager" where
  "manager_new = \<lparr>connections = [], tool_map = (\<lambda>_. None), sampling = False\<rparr>"

definition set_sampling :: "'c mcp_manager \<Rightarrow> 'c mcp_manager" where
  "set_sampling m = m\<lparr>sampling := True\<rparr>"

definition map_tools :: "string \<Rightarrow> offered_tool list \<Rightarrow> (string \<Rightarrow> string option) \<Rightarrow> string \<Rightarrow> string option" where
  "map_tools server ts f = fold (\<lambda>t f. f(def_name t \<mapsto> server)) ts f"

definition manage :: "'c mcp_connection \<Rightarrow> 'c mcp_manager \<Rightarrow> 'c mcp_manager" where
  "manage k m =
     (if is_connected (conn_status k)
      then m\<lparr>tool_map := map_tools (conn_name k) (conn_tools k) (tool_map m),
            connections := AList.update (conn_name k) k (connections m)\<rparr>
      else m)"

fun connect_each ::
  "('c, 'w) mcp_net \<Rightarrow> bool \<Rightarrow> (string \<times> mcp_server) list \<Rightarrow> 'w \<Rightarrow> 'c mcp_connection list \<times> 'w" where
  "connect_each N sm [] w = ([], w)"
| "connect_each N sm ((n, cfg) # cfgs) w =
     (if \<not> server_enabled cfg then connect_each N sm cfgs w
      else case connect N (mcp_connection_new n cfg sm) w of
             (k, w) \<Rightarrow> (case connect_each N sm cfgs w of (ks, w) \<Rightarrow> (k # ks, w)))"

definition start_all ::
  "('c, 'w) mcp_net \<Rightarrow> (string \<times> mcp_server) list \<Rightarrow> 'c mcp_manager \<Rightarrow> 'w
   \<Rightarrow> (mcp_failure + unit) \<times> 'c mcp_manager \<times> 'w" where
  "start_all N cfgs m w =
     (case connect_each N (sampling m) cfgs w of
        (ks, w) \<Rightarrow>
          (if ks \<noteq> [] \<and> list_all (\<lambda>k. \<not> is_connected (conn_status k)) ks
           then Inl (Mcp_not_found ''all MCP servers failed to start'') else Inr (),
           fold manage ks m, w))"

definition get_tools_with_server :: "'c mcp_manager \<Rightarrow> (string \<times> offered_tool) list" where
  "get_tools_with_server m = concat (map (\<lambda>(n, k). map (Pair n) (conn_tools k)) (connections m))"

definition get_server_instructions :: "'c mcp_manager \<Rightarrow> (string \<times> string) list" where
  "get_server_instructions m =
     List.map_filter (\<lambda>(n, k). map_option (Pair n) (conn_instructions k)) (connections m)"

definition get_resources :: "'c mcp_manager \<Rightarrow> (string \<times> mcp_resource) list" where
  "get_resources m = concat (map (\<lambda>(n, k). map (Pair n) (conn_resources k)) (connections m))"

definition get_prompts :: "'c mcp_manager \<Rightarrow> (string \<times> mcp_prompt) list" where
  "get_prompts m = concat (map (\<lambda>(n, k). map (Pair n) (conn_prompts k)) (connections m))"

definition client_of :: "'c mcp_manager \<Rightarrow> string \<Rightarrow> mcp_failure + 'c" where
  "client_of m server =
     (case map_of (connections m) server of
        None \<Rightarrow> Inl (Mcp_not_found server)
      | Some k \<Rightarrow>
          (case conn_client k of
             None \<Rightarrow> Inl (Mcp_closed ([CHR 0x27] @ server @ [CHR 0x27] @ '' not connected''))
           | Some c \<Rightarrow> Inr c))"

definition call_server_tool ::
  "('c, 'w) mcp_net \<Rightarrow> 'c mcp_manager \<Rightarrow> string \<Rightarrow> string \<Rightarrow> json \<Rightarrow> 'w \<Rightarrow> (mcp_failure + call_reply) \<times> 'w" where
  "call_server_tool N m server name args w =
     (case client_of m server of
        Inl e \<Rightarrow> (Inl e, w)
      | Inr c \<Rightarrow> client_call_tool N c name (case as_object args of Some a \<Rightarrow> a | None \<Rightarrow> []) w)"

definition call_tool_by_name ::
  "('c, 'w) mcp_net \<Rightarrow> 'c mcp_manager \<Rightarrow> string \<Rightarrow> json \<Rightarrow> 'w \<Rightarrow> (mcp_failure + call_reply) \<times> 'w" where
  "call_tool_by_name N m name args w =
     (case tool_map m name of
        None \<Rightarrow>
          (Inl (Mcp_not_found (''no server for tool '' @ [CHR 0x27] @ name @ [CHR 0x27])), w)
      | Some server \<Rightarrow> call_server_tool N m server name args w)"

definition remove_tool_mapping :: "string \<Rightarrow> 'c mcp_manager \<Rightarrow> 'c mcp_manager" where
  "remove_tool_mapping name m = m\<lparr>tool_map := (tool_map m)(name := None)\<rparr>"

definition content_text :: "resource_contents \<Rightarrow> string option" where
  "content_text c = (case c of Text_resource uri t \<Rightarrow> Some t | Blob_resource uri b \<Rightarrow> None)"

definition read_server_resource ::
  "('c, 'w) mcp_net \<Rightarrow> 'c mcp_manager \<Rightarrow> string \<Rightarrow> string \<Rightarrow> 'w \<Rightarrow> (mcp_failure + string) \<times> 'w" where
  "read_server_resource N m server uri w =
     (case client_of m server of
        Inl e \<Rightarrow> (Inl e, w)
      | Inr c \<Rightarrow>
          (case client_read_resource N c uri w of
             (Inl e, w) \<Rightarrow> (Inl e, w)
           | (Inr cs, w) \<Rightarrow> (Inr (str_join [NL] (List.map_filter content_text cs)), w)))"

text \<open>The routes to one server are dropped, and made again from what it offers when it is connected.\<close>

definition drop_routes :: "string \<Rightarrow> (string \<Rightarrow> string option) \<Rightarrow> string \<Rightarrow> string option" where
  "drop_routes server f = (\<lambda>t. if f t = Some server then None else f t)"

definition rebuild_tool_map_for :: "string \<Rightarrow> 'c mcp_manager \<Rightarrow> 'c mcp_manager" where
  "rebuild_tool_map_for server m =
     (case map_of (connections m) server of
        None \<Rightarrow> m
      | Some k \<Rightarrow>
          if is_connected (conn_status k)
          then m\<lparr>tool_map := map_tools server (conn_tools k) (tool_map m)\<rparr> else m)"

definition put_connection :: "string \<Rightarrow> 'c mcp_connection \<Rightarrow> 'c mcp_manager \<Rightarrow> 'c mcp_manager" where
  "put_connection n k m = m\<lparr>connections := AList.update n k (connections m)\<rparr>"

definition restart_connection ::
  "('c, 'w) mcp_net \<Rightarrow> string \<Rightarrow> 'c mcp_manager \<Rightarrow> 'w \<Rightarrow> (mcp_failure + unit) \<times> 'c mcp_manager \<times> 'w" where
  "restart_connection N n m w =
     (case map_of (connections m) n of
        None \<Rightarrow> (Inl (Mcp_not_found n), m, w)
      | Some k \<Rightarrow>
          if is_connected (conn_status k)
             \<and> (case conn_client k of Some c \<Rightarrow> \<not> is_closed N c w | None \<Rightarrow> False)
          then (Inr (), m, w)
          else (case connect N (disconnect k) w of
                  (k, w) \<Rightarrow>
                    (Inr (),
                     rebuild_tool_map_for n
                       (put_connection n k (m\<lparr>tool_map := drop_routes n (tool_map m)\<rparr>)), w)))"

definition reconnect_server ::
  "('c, 'w) mcp_net \<Rightarrow> string \<Rightarrow> 'c mcp_manager \<Rightarrow> 'w
   \<Rightarrow> (mcp_failure + unit) \<times> nat list \<times> 'c mcp_manager \<times> 'w" where
  "reconnect_server N n m w =
     (case map_of (connections m) n of
        None \<Rightarrow> (Inl (Mcp_not_found n), [], m, w)
      | Some k \<Rightarrow>
          (case reconnect_loop N reconnect_policy_default k w of
             (r, slept, k, w) \<Rightarrow>
               (let m = put_connection n k (m\<lparr>tool_map := drop_routes n (tool_map m)\<rparr>)
                in (r, slept, case r of Inr _ \<Rightarrow> rebuild_tool_map_for n m | Inl _ \<Rightarrow> m, w))))"

subsection \<open>Tools of a server\<close>

definition to_text :: "raw_content \<Rightarrow> string option" where
  "to_text c =
     Some (case c of
             Raw_text t \<Rightarrow> t
           | Raw_image mime d \<Rightarrow> ''![image](data:'' @ mime @ '';base64,'' @ d @ '')''
           | Raw_audio mime \<Rightarrow> ''[audio: '' @ mime @ '']''
           | Raw_resource (Text_resource uri t) \<Rightarrow> ''[resource '' @ uri @ '']'' @ [NL] @ t
           | Raw_resource (Blob_resource uri b) \<Rightarrow> ''[binary resource: '' @ uri @ '']''
           | Raw_link uri \<Rightarrow> ''[resource: '' @ uri @ '']'')"

definition convert_tool_result :: "call_reply \<Rightarrow> tool_result" where
  "convert_tool_result r =
     \<lparr>result_text = str_join [NL] (List.map_filter to_text (reply_content r)),
      result_error = (reply_error r = Some True), result_completion = False, result_metadata = None\<rparr>"

definition server_reconnectable :: "'c mcp_manager \<Rightarrow> string \<Rightarrow> bool" where
  "server_reconnectable m server =
     (case map_of (connections m) server of Some k \<Rightarrow> is_reconnectable (conn_config k) | None \<Rightarrow> False)"

text \<open>What is said of a failed restart is dropped: the second call tells.\<close>

definition mcp_execute ::
  "('c, 'w) mcp_net \<Rightarrow> string \<Rightarrow> string \<Rightarrow> json \<Rightarrow> 'c mcp_manager \<times> 'w
   \<Rightarrow> (string + tool_result) \<times> 'c mcp_manager \<times> 'w" where
  "mcp_execute N server name inp s =
     (case s of (m, w) \<Rightarrow>
        (case call_server_tool N m server name inp w of
           (Inr r, w) \<Rightarrow> (Inr (convert_tool_result r), m, w)
         | (Inl e, w) \<Rightarrow>
             (if (case e of Mcp_closed t \<Rightarrow> server_reconnectable m server | _ \<Rightarrow> False)
              then (case restart_connection N server m w of
                      (_, m, w) \<Rightarrow>
                        (case call_server_tool N m server name inp w of
                           (Inr r, w) \<Rightarrow> (Inr (convert_tool_result r), m, w)
                         | (Inl e, w) \<Rightarrow> (Inl (failure_text (Mcp_failed e)), m, w)))
              else (Inl (failure_text (Mcp_failed e)), m, w))))"

definition mcp_tool ::
  "('c, 'w) mcp_net \<Rightarrow> string \<times> offered_tool \<Rightarrow> ('c mcp_manager \<times> 'w) tool" where
  "mcp_tool N e =
     \<lparr>tool_permission = Supervised_level, tool_precheck = (\<lambda>_. None),
      tool_execute = mcp_execute N (fst e) (def_name (snd e))\<rparr>"

subsection \<open>The kernel\<close>

record ('c, 'w) mcp_kernel =
  k_registry :: "('c mcp_manager \<times> 'w) tool_registry"
  k_manager :: "'c mcp_manager"
  k_servers :: "(string \<times> mcp_server) list"
  k_instructions :: "(string \<times> string) list"
  k_resources :: "(string \<times> mcp_resource) list"
  k_prompts :: "(string \<times> mcp_prompt) list"

definition start_mcp ::
  "('c, 'w) mcp_net \<Rightarrow> ('c, 'w) mcp_kernel \<Rightarrow> 'w \<Rightarrow> (mcp_failure + unit) \<times> ('c, 'w) mcp_kernel \<times> 'w" where
  "start_mcp N K w =
     (if k_servers K = [] then (Inr (), K, w)
      else case start_all N (k_servers K) (k_manager K) w of
             (Inl e, m, w) \<Rightarrow> (Inl e, K\<lparr>k_manager := m\<rparr>, w)
           | (Inr _, m, w) \<Rightarrow>
               (case register_mcp (map (\<lambda>e. (def_name (snd e), mcp_tool N e)) (get_tools_with_server m))
                       (k_registry K) of
                  (skipped, reg) \<Rightarrow>
                    (Inr (),
                     K\<lparr>k_registry := reg, k_manager := fold remove_tool_mapping skipped m,
                       k_instructions := get_server_instructions m, k_resources := get_resources m,
                       k_prompts := get_prompts m\<rparr>, w)))"

subsection \<open>Requests of a server to the model\<close>

text \<open>A message of the request: whether it is the user's, and the text of its first part.\<close>

definition sampling_pairs :: "(bool \<times> string option) list \<Rightarrow> (string \<times> string) list" where
  "sampling_pairs ms =
     map (\<lambda>(user, t). (if user then ''user'' else ''assistant'', case t of Some x \<Rightarrow> x | None \<Rightarrow> '''')) ms"

definition chat_params_new :: "string \<Rightarrow> message list \<Rightarrow> string \<Rightarrow> chat_params" where
  "chat_params_new model ms sys =
     \<lparr>chat_model = model, chat_messages = ms, system_prompt = sys, chat_tools = [], max_tokens = 16384,
      temperature = None, chat_thinking = None\<rparr>"

fun gather_text :: "string \<Rightarrow> chunks \<Rightarrow> string + string" where
  "gather_text acc [] = Inr acc"
| "gather_text acc (Inl e # cs) = Inl (failure_text e)"
| "gather_text acc (Inr (Chunk_text t) # cs) = gather_text (acc @ t) cs"
| "gather_text acc (Inr c # cs) = gather_text acc cs"

definition adapter_create_message ::
  "(chat_params \<Rightarrow> loopal_failure + chunks) \<Rightarrow> string \<Rightarrow> string option \<Rightarrow> (string \<times> string) list
   \<Rightarrow> u32 option \<Rightarrow> string + string \<times> string" where
  "adapter_create_message stream_chat model sys ms cap =
     (let llm = map (\<lambda>(r, t). if r = ''user'' then message_user t else message_assistant t) ms;
          p = chat_params_new model llm
                (case sys of Some t \<Rightarrow> t | None \<Rightarrow> ''You are a helpful assistant.'');
          p = (case cap of Some n \<Rightarrow> p\<lparr>max_tokens := n\<rparr> | None \<Rightarrow> p)
      in case stream_chat p of
           Inl e \<Rightarrow> Inl (failure_text e)
         | Inr cs \<Rightarrow> (case gather_text [] cs of Inl e \<Rightarrow> Inl e | Inr t \<Rightarrow> Inr (model, t)))"

datatype sampling_answer =
    Sampled string string
  | Method_not_found string
  | Internal_error string

definition handler_create_message ::
  "(string option \<Rightarrow> (string \<times> string) list \<Rightarrow> u32 option \<Rightarrow> string + string \<times> string) option
   \<Rightarrow> string option \<Rightarrow> (bool \<times> string option) list \<Rightarrow> u32 \<Rightarrow> sampling_answer" where
  "handler_create_message callback sys ms cap =
     (case callback of
        None \<Rightarrow> Method_not_found ''sampling not enabled''
      | Some f \<Rightarrow>
          (case f sys (sampling_pairs ms) (Some cap) of
             Inr (model, t) \<Rightarrow> Sampled model t
           | Inl e \<Rightarrow> Internal_error e))"

subsection \<open>The callback of an authorization\<close>

text \<open>A byte pushed as a character: from 128 on it takes two bytes.\<close>

definition push_byte :: "char \<Rightarrow> string" where
  "push_byte c =
     (let b = (of_char c :: nat)
      in if b < 128 then [c] else [char_of (192 + b div 64), char_of (128 + b mod 64)])"

definition hex_val :: "char \<Rightarrow> nat option" where
  "hex_val c =
     (let b = (of_char c :: nat)
      in if 48 \<le> b \<and> b \<le> 57 then Some (b - 48)
         else if 97 \<le> b \<and> b \<le> 102 then Some (b - 87)
         else if 65 \<le> b \<and> b \<le> 70 then Some (b - 55) else None)"

fun percent_decode :: "string \<Rightarrow> string" where
  "percent_decode [] = []"
| "percent_decode (c # cs) =
     (if c = CHR ''%''
      then (case (Option.bind (if cs = [] then None else Some (hd cs)) hex_val,
                  Option.bind (if tl cs = [] then None else Some (hd (tl cs))) hex_val) of
              (Some h, Some l) \<Rightarrow> push_byte (char_of (h * 16 + l))
            | _ \<Rightarrow> ''%'') @ percent_decode (drop 2 cs)
      else if c = CHR ''+'' then '' '' @ percent_decode cs
      else push_byte c @ percent_decode cs)"

definition query_pair :: "string \<Rightarrow> (string \<times> string) option" where
  "query_pair p = map_option (\<lambda>(k, v). (k, percent_decode v)) (split_at_pat ''='' p)"

definition nth_item :: "nat \<Rightarrow> 'a list \<Rightarrow> 'a option" where
  "nth_item n xs = (if n < length xs then Some (xs ! n) else None)"

definition parse_callback_params :: "string \<Rightarrow> (string \<times> string) option" where
  "parse_callback_params request =
     Option.bind (nth_item 0 (rust_lines request)) (\<lambda>line.
     Option.bind (nth_item 1 (split_whitespace line)) (\<lambda>path.
     Option.bind (nth_item 1 (split_char (CHR 0x3F) path)) (\<lambda>query.
       (let ps = map_of (rev (List.map_filter query_pair (split_char (CHR 0x26) query)))
        in Option.bind (ps ''code'') (\<lambda>code. map_option (Pair code) (ps ''state''))))))"

definition callback_response :: "string \<Rightarrow> string \<times> (string \<times> string) option" where
  "callback_response request =
     (case parse_callback_params request of
        Some ps \<Rightarrow>
          (let body = ''<html><body><h2>Authorization successful!</h2>''
                      @ ''<p>You can close this tab.</p></body></html>''
           in (''HTTP/1.1 200 OK'' @ [CR, NL] @ ''Content-Type: text/html'' @ [CR, NL]
               @ ''Content-Length: '' @ nat_str (length body) @ [CR, NL] @ ''Connection: close''
               @ [CR, NL, CR, NL] @ body, Some ps))
      | None \<Rightarrow>
          (let body = ''Missing code or state''
           in (''HTTP/1.1 400 Bad Request'' @ [CR, NL] @ ''Content-Length: '' @ nat_str (length body)
               @ [CR, NL] @ ''Connection: close'' @ [CR, NL, CR, NL] @ body, None)))"

subsection \<open>What connecting keeps\<close>

lemma discover_keeps:
  assumes "discover has what ask put s = (k, w)" "\<And>x k. conn_name (put x k) = conn_name k"
    "\<And>x k. conn_config (put x k) = conn_config k" "\<And>x k. conn_client (put x k) = conn_client k"
  shows "conn_name k = conn_name (fst s)" "conn_config k = conn_config (fst s)"
    "conn_client k = conn_client (fst s)"
  using assms by (auto simp: discover_def split: if_splits prod.splits sum.splits)

lemma discover_capabilities_keeps:
  assumes "discover_capabilities N k w = (k', w')"
  shows "conn_name k' = conn_name k" "conn_config k' = conn_config k" "conn_client k' = conn_client k"
proof -
  have "conn_name k' = conn_name k \<and> conn_config k' = conn_config k \<and> conn_client k' = conn_client k"
  proof (cases "conn_client k")
    case None
    then show ?thesis using assms by (simp add: discover_capabilities_def)
  next
    case (Some c)
    let ?caps = "extract_capabilities N c"
    obtain k1 w1 where 1: "discover (cap_tools ?caps) ''tools/list'' (list_tools N c)
        (\<lambda>ts k. k\<lparr>conn_tools := map to_offered ts\<rparr>) (k, w) = (k1, w1)" by fastforce
    obtain k2 w2 where 2: "discover (cap_resources ?caps) ''resources/list'' (list_resources N c)
        (\<lambda>rs k. k\<lparr>conn_resources := rs\<rparr>) (k1, w1) = (k2, w2)" by fastforce
    have 3: "discover (cap_prompts ?caps) ''prompts/list'' (list_prompts N c)
        (\<lambda>ps k. k\<lparr>conn_prompts := ps\<rparr>) (k2, w2) = (k', w')"
      using assms by (simp add: discover_capabilities_def Some Let_def 1 2)
    show ?thesis
      using discover_keeps[OF 1] discover_keeps[OF 2] discover_keeps[OF 3] by simp
  qed
  then show "conn_name k' = conn_name k" "conn_config k' = conn_config k" "conn_client k' = conn_client k"
    by simp_all
qed

lemma cleared_keeps [simp]:
  "conn_name (cleared k) = conn_name k" "conn_config (cleared k) = conn_config k"
  "conn_client (cleared k) = conn_client k" "conn_sampling (cleared k) = conn_sampling k"
  by (simp_all add: cleared_def)

text \<open>A connection is made or has failed, and one that is made has a client.\<close>

lemma connect_cases:
  assumes "connect N k w = (k', w')"
  shows "conn_name k' = conn_name k" "conn_config k' = conn_config k"
    "is_connected (conn_status k') \<Longrightarrow> conn_client k' \<noteq> None"
    "is_connected (conn_status k') \<or> is_failed (conn_status k')"
  using assms
  by (auto simp: connect_def Let_def is_connected_def split: prod.splits sum.splits option.splits
      dest: discover_capabilities_keeps)

subsection \<open>Routes\<close>

text \<open>
  A route leads to a connection of that name that is made and offers the tool; every connection that
  is made has a client.
\<close>

definition live :: "'c mcp_manager \<Rightarrow> string \<Rightarrow> string \<Rightarrow> bool" where
  "live m t s =
     (case map_of (connections m) s of
        Some k \<Rightarrow> is_connected (conn_status k) \<and> t \<in> def_name ` set (conn_tools k)
      | None \<Rightarrow> False)"

definition manager_ok :: "'c mcp_manager \<Rightarrow> bool" where
  "manager_ok m =
     ((\<forall>t s. tool_map m t = Some s \<longrightarrow> live m t s)
      \<and> (\<forall>n k. map_of (connections m) n = Some k \<longrightarrow>
           conn_name k = n \<and> (is_connected (conn_status k) \<longrightarrow> conn_client k \<noteq> None)))"

lemma map_tools_eq:
  "map_tools s ts f t = (if t \<in> def_name ` set ts then Some s else f t)"
  unfolding map_tools_def by (induction ts arbitrary: f) auto

lemma manage_ok:
  assumes "manager_ok m" "map_of (connections m) (conn_name k) = None"
    "is_connected (conn_status k) \<Longrightarrow> conn_client k \<noteq> None"
  shows "manager_ok (manage k m)"
  using assms
  by (fastforce simp: manager_ok_def manage_def live_def map_tools_eq update_conv' split: option.splits if_splits)

lemma manage_connections:
  "map_of (connections (manage k m)) n
   = (if n = conn_name k \<and> is_connected (conn_status k) then Some k else map_of (connections m) n)"
  by (simp add: manage_def update_conv')

lemma connect_each_names:
  "connect_each N sm cfgs w = (ks, w') \<Longrightarrow> map conn_name ks = map fst (filter (server_enabled \<circ> snd) cfgs)"
  "connect_each N sm cfgs w = (ks, w') \<Longrightarrow>
     \<forall>k\<in>set ks. is_connected (conn_status k) \<longrightarrow> conn_client k \<noteq> None"
proof (induction N sm cfgs w arbitrary: ks w' rule: connect_each.induct)
  case (2 N sm n cfg cfgs w)
  { case 1
    then show ?case using 2
      by (auto split: if_splits prod.splits simp: connect_cases(1) mcp_connection_new_def)
  next
    case 2
    then show ?case using "2.IH"
      by (auto split: if_splits prod.splits dest: connect_cases(3))
  }
qed simp_all

lemma fold_manage_ok:
  assumes "manager_ok m" "distinct (map conn_name ks)"
    "\<forall>k\<in>set ks. map_of (connections m) (conn_name k) = None"
    "\<forall>k\<in>set ks. is_connected (conn_status k) \<longrightarrow> conn_client k \<noteq> None"
  shows "manager_ok (fold manage ks m)"
  using assms
proof (induction ks arbitrary: m)
  case (Cons k ks)
  then have "manager_ok (manage k m)" by (intro manage_ok) auto
  moreover have "\<forall>k'\<in>set ks. map_of (connections (manage k m)) (conn_name k') = None"
    using Cons.prems by (auto simp: manage_connections) (metis image_eqI)
  ultimately show ?case using Cons by simp
qed simp

lemma restarted_ok:
  assumes "manager_ok m" "conn_name k = n" "is_connected (conn_status k) \<longrightarrow> conn_client k \<noteq> None"
  shows "manager_ok (rebuild_tool_map_for n (put_connection n k (m\<lparr>tool_map := drop_routes n (tool_map m)\<rparr>)))"
    "manager_ok (put_connection n k (m\<lparr>tool_map := drop_routes n (tool_map m)\<rparr>))"
  using assms
  by (fastforce simp: manager_ok_def rebuild_tool_map_for_def put_connection_def live_def map_tools_eq
      drop_routes_def update_conv' split: option.splits if_splits)+

text \<open>What a session does with its manager, once the servers are started.\<close>

inductive managed :: "('c, 'w) mcp_net \<Rightarrow> (string \<times> mcp_server) list \<Rightarrow> 'c mcp_manager \<Rightarrow> bool"
  for N cfgs where
  started: "start_all N cfgs (manager_new\<lparr>sampling := sm\<rparr>) w = (r, m, w') \<Longrightarrow> managed N cfgs m"
| restarted: "managed N cfgs m \<Longrightarrow> restart_connection N n m w = (r, m', w') \<Longrightarrow> managed N cfgs m'"
| reconnected: "managed N cfgs m \<Longrightarrow> reconnect_server N n m w = (r, slept, m', w') \<Longrightarrow> managed N cfgs m'"
| unmapped: "managed N cfgs m \<Longrightarrow> managed N cfgs (remove_tool_mapping t m)"

lemma start_all_ok:
  assumes "start_all N cfgs (manager_new\<lparr>sampling := sm\<rparr>) w = (r, m, w')" "distinct (map fst cfgs)"
  shows "manager_ok m"
proof -
  obtain ks w1 where ks: "connect_each N sm cfgs w = (ks, w1)" by fastforce
  have m: "m = fold manage ks (manager_new\<lparr>sampling := sm\<rparr>)"
    using assms(1) by (simp add: start_all_def ks)
  have "distinct (map conn_name ks)"
    using assms(2) connect_each_names(1)[OF ks] by (simp add: distinct_map_filter)
  moreover have "manager_ok (manager_new\<lparr>sampling := sm\<rparr>)" by (simp add: manager_ok_def manager_new_def)
  ultimately show ?thesis
    unfolding m using connect_each_names(2)[OF ks] by (intro fold_manage_ok) (auto simp: manager_new_def)
qed

lemma reconnect_attempts_keeps:
  "reconnect_attempts N ds k w = (ok, slept, k', w') \<Longrightarrow>
   (conn_client k \<noteq> None \<or> \<not> is_connected (conn_status k)) \<Longrightarrow>
   conn_name k' = conn_name k \<and> (is_connected (conn_status k') \<longrightarrow> conn_client k' \<noteq> None)
   \<and> (ok \<longrightarrow> is_connected (conn_status k')) \<and> slept = take (length slept) ds
   \<and> (\<not> ok \<longrightarrow> slept = ds)"
proof (induction N ds k w arbitrary: ok slept k' w' rule: reconnect_attempts.induct)
  case (2 N d ds k w)
  obtain k1 w1 where c: "connect N k w = (k1, w1)" by fastforce
  show ?case
  proof (cases "is_connected (conn_status k1)")
    case True
    then show ?thesis using "2.prems" connect_cases[OF c] by (auto simp: c)
  next
    case False
    obtain ok1 sl k2 w2 where r: "reconnect_attempts N ds k1 w1 = (ok1, sl, k2, w2)" by (metis prod_cases4)
    show ?thesis using "2.IH"[OF c[symmetric] False r] "2.prems" connect_cases[OF c] False by (auto simp: c r)
  qed
qed auto

lemma managed_ok:
  assumes "managed N cfgs m" "distinct (map fst cfgs)"
  shows "manager_ok m"
  using assms(1)
proof induction
  case (started sm w r m w')
  show ?case by (rule start_all_ok[OF started assms(2)])
next
  case (restarted m n w r m' w')
  show ?case
  proof (cases "map_of (connections m) n")
    case (Some k)
    obtain k1 w1 where c: "connect N (disconnect k) w = (k1, w1)" by fastforce
    have "conn_name k1 = n"
      using restarted.IH Some connect_cases(1)[OF c] by (simp add: manager_ok_def disconnect_def)
    then show ?thesis
      using restarted.hyps restarted.IH connect_cases(3)[OF c] Some
      by (auto simp: restart_connection_def c restarted_ok split: if_splits)
  qed (use restarted in \<open>simp add: restart_connection_def\<close>)
next
  case (reconnected m n w r slept m' w')
  show ?case
  proof (cases "map_of (connections m) n")
    case (Some k)
    obtain r1 sl k1 w1 where l: "reconnect_loop N reconnect_policy_default k w = (r1, sl, k1, w1)"
      by (metis prod_cases4)
    have k: "conn_name k = n" "is_connected (conn_status k) \<longrightarrow> conn_client k \<noteq> None"
      using reconnected.IH Some by (simp_all add: manager_ok_def)
    have "conn_name k1 = n \<and> (is_connected (conn_status k1) \<longrightarrow> conn_client k1 \<noteq> None)"
      using l k
      by (auto simp: reconnect_loop_def Let_def is_connected_def split: if_splits prod.splits bool.splits
          dest!: reconnect_attempts_keeps)
    then show ?thesis
      using reconnected.hyps reconnected.IH Some
      by (auto simp: reconnect_server_def l Let_def restarted_ok split: sum.splits)
  qed (use reconnected in \<open>simp add: reconnect_server_def\<close>)
next
  case (unmapped m t)
  then show ?case by (auto simp: manager_ok_def remove_tool_mapping_def live_def split: option.splits if_splits)
qed

subsection \<open>Properties of the servers\<close>

text \<open>
  However servers are restarted, reconnected and unmapped after the start, a tool's route leads to a
  connection of that name that is made, offers the tool and has a client: a routed call reaches a
  server.
\<close>

theorem routes_are_live:
  assumes "managed N cfgs m" "distinct (map fst cfgs)" "tool_map m t = Some s"
  shows "\<exists>k c. map_of (connections m) s = Some k \<and> conn_name k = s \<and> conn_status k = Connected
           \<and> t \<in> def_name ` set (conn_tools k) \<and> client_of m s = Inr c
           \<and> call_tool_by_name N m t args w
               = client_call_tool N c t (case as_object args of Some a \<Rightarrow> a | None \<Rightarrow> []) w"
  using managed_ok[OF assms(1,2)] assms(3)
  by (fastforce simp: manager_ok_def live_def is_connected_def client_of_def call_tool_by_name_def
      call_server_tool_def split: option.splits)

text \<open>A network of one server, for the examples.\<close>

definition hammer :: wire_tool where
  "hammer = \<lparr>wt_name = ''hit'', wt_description = None, wt_schema = []\<rparr>"

definition small_net :: "(nat, unit) mcp_net" where
  "small_net =
     \<lparr>transmit = (\<lambda>c q w. (case q of
                     List_tools \<Rightarrow> Answered (Tools_listed [hammer])
                   | Call_tool n args \<Rightarrow>
                       Answered (Tool_called \<lparr>reply_content = [Raw_text ''done''], reply_error = None\<rparr>)
                   | _ \<Rightarrow> Answered Other_reply, w)),
      peer_info = (\<lambda>c. Some \<lparr>info_capabilities = \<lparr>cap_tools = True, cap_resources = False, cap_prompts = False\<rparr>,
                            info_instructions = None\<rparr>),
      is_closed = (\<lambda>c w. False),
      open_stdio = (\<lambda>cmd args vars ms sm w. (Inr 1, w)), bad_header = (\<lambda>h. None), bad_http_client = None,
      open_http = (\<lambda>url headers ms sm w. (Inr 2, w)), with_oauth = (\<lambda>url ms sm w. (Inr 3, w))\<rparr>"

definition two_servers :: "(string \<times> mcp_server) list" where
  "two_servers = [(''a'', Stdio ''a'' [] [] True 10), (''b'', Streamable_http ''u'' [] True 10)]"

lemma find_never: "find (\<lambda>h. False) xs = None"
  by (induction xs) simp_all

lemma small_http: "connect_http small_net url headers ms sm () = (Inr 2, ())"
  by (simp add: connect_http_def build_http_client_def small_net_def find_never)

lemma small_connect:
  "connect small_net (mcp_connection_new n cfg sm) ()
   = (\<lparr>conn_name = n, conn_status = Connected, conn_config = cfg, conn_tools = [to_offered hammer],
       conn_resources = [], conn_prompts = [], conn_instructions = None, conn_errors = [],
       conn_client = Some (case cfg of Stdio _ _ _ _ _ \<Rightarrow> 1 | Streamable_http _ _ _ _ \<Rightarrow> 2),
       conn_sampling = sm\<rparr>, ())"
proof -
  have "create_client small_net (cleared (mcp_connection_new n cfg sm\<lparr>conn_status := Connecting, conn_errors := []\<rparr>)) ()
        = (Inr (case cfg of Stdio _ _ _ _ _ \<Rightarrow> 1 | Streamable_http _ _ _ _ \<Rightarrow> 2), ())"
    by (cases cfg) (simp_all add: create_client_def mcp_connection_new_def cleared_def small_http,
        simp add: small_net_def)
  then show ?thesis
    by (simp add: connect_def Let_def discover_capabilities_def extract_capabilities_def
        discover_def list_tools_def expect_def client_send_def)
      (simp add: small_net_def mcp_connection_new_def cleared_def)
qed

definition two_started :: "nat mcp_manager" where
  "two_started = fst (snd (start_all small_net two_servers manager_new ()))"

lemma two_started:
  "start_all small_net two_servers manager_new () = (Inr (), two_started, ())"
  "map fst (connections two_started) = [''a'', ''b'']" "tool_map two_started ''hit'' = Some ''b''"
  "get_tools_with_server two_started = [(''a'', to_offered hammer), (''b'', to_offered hammer)]"
  by (simp_all add: two_started_def start_all_def two_servers_def manager_new_def small_connect is_connected_def
      manage_def map_tools_def to_offered_def hammer_def get_tools_with_server_def)

lemma managed_two_started: "managed small_net two_servers two_started"
proof -
  have "(manager_new :: nat mcp_manager)\<lparr>sampling := False\<rparr> = manager_new" by (simp add: manager_new_def)
  then show ?thesis using managed.started[of small_net two_servers False "()"] two_started(1) by simp
qed

theorem routes_are_live_witness:
  "\<exists>k. map_of (connections two_started) ''b'' = Some k \<and> conn_status k = Connected
      \<and> ''hit'' \<in> def_name ` set (conn_tools k)"
proof -
  have "distinct (map fst two_servers)" by (simp add: two_servers_def)
  from routes_are_live[OF managed_two_started this two_started(3), of JNull "()"] show ?thesis by blast
qed

text \<open>What the kernel makes of the servers.\<close>

lemma map_tools_lookup:
  "map_tools s ts f t = (case map_of (rev (map (\<lambda>d. (def_name d, s)) ts)) t of Some x \<Rightarrow> Some x | None \<Rightarrow> f t)"
  unfolding map_tools_def by (induction ts arbitrary: f) (auto simp: map_add_def split: option.splits)

lemma update_new: "map_of al k = None \<Longrightarrow> AList.update k v al = al @ [(k, v)]"
  by (induction al) (auto split: if_splits)

lemma fold_manage_tools:
  assumes "distinct (map conn_name ks)" "\<forall>k\<in>set ks. map_of (connections m) (conn_name k) = None"
  shows "get_tools_with_server (fold manage ks m)
         = get_tools_with_server m
           @ concat (map (\<lambda>k. map (Pair (conn_name k)) (conn_tools k)) (filter (\<lambda>k. is_connected (conn_status k)) ks))"
    "tool_map (fold manage ks m) t
     = (case map_of (rev (concat (map (\<lambda>k. map (\<lambda>d. (def_name d, conn_name k)) (conn_tools k))
                                 (filter (\<lambda>k. is_connected (conn_status k)) ks)))) t of
          Some x \<Rightarrow> Some x | None \<Rightarrow> tool_map m t)"
  using assms
proof (induction ks arbitrary: m)
  case (Cons k ks)
  { case 1
    then have "\<forall>k'\<in>set ks. map_of (connections (manage k m)) (conn_name k') = None"
      by (auto simp: manage_connections) (metis image_eqI)
    moreover have "AList.update (conn_name k) k (connections m) = connections m @ [(conn_name k, k)]"
      using 1 by (simp add: update_new)
    ultimately show ?case using Cons.IH(1)[of "manage k m"] 1
      by (auto simp: manage_def get_tools_with_server_def)
  next
    case 2
    then have "\<forall>k'\<in>set ks. map_of (connections (manage k m)) (conn_name k') = None"
      by (auto simp: manage_connections) (metis image_eqI)
    then show ?case using Cons.IH(2)[of "manage k m"] 2
      by (auto simp: manage_def map_tools_lookup map_add_def split: option.splits)
  }
qed simp_all

lemma seen_before_set:
  "n \<in> set (seen_before S ns) \<longleftrightarrow> n \<in> set ns \<and> (n \<in> S \<or> length (filter (\<lambda>x. x = n) ns) \<ge> 2)"
proof (induction ns arbitrary: S)
  case (Cons x ns)
  have "n \<in> set ns \<longleftrightarrow> length (filter (\<lambda>x. x = n) ns) \<ge> 1" by (induction ns) auto
  then show ?case using Cons[of S] Cons[of "insert x S"] by auto
qed simp

lemma fold_unmap: "tool_map (fold remove_tool_mapping ns m) t = (if t \<in> set ns then None else tool_map m t)"
  by (induction ns arbitrary: m) (simp_all add: remove_tool_mapping_def)

lemma fold_unmap_connections [simp]:
  "connections (fold remove_tool_mapping ns m) = connections m"
  by (induction ns arbitrary: m) (simp_all add: remove_tool_mapping_def)

lemma tools_unmapped [simp]:
  "get_tools_with_server (fold remove_tool_mapping ns m) = get_tools_with_server m"
  by (simp add: get_tools_with_server_def)

lemma started_tools:
  assumes "start_all N cfgs manager_new w = (r, m, w')" "distinct (map fst cfgs)"
  shows "tool_map m t = map_of (rev (map (\<lambda>e. (def_name (snd e), fst e)) (get_tools_with_server m))) t"
proof -
  obtain ks w1 where ks: "connect_each N False cfgs w = (ks, w1)" by fastforce
  have m: "m = fold manage ks manager_new" using assms(1) by (simp add: start_all_def manager_new_def ks)
  have "distinct (map conn_name ks)"
    using assms(2) connect_each_names(1)[OF ks] by (simp add: distinct_map_filter)
  then have names: "distinct (map conn_name ks)"
    "\<forall>k\<in>set ks. map_of (connections (manager_new :: 'a mcp_manager)) (conn_name k) = None"
    by (simp_all add: manager_new_def)
  have es: "get_tools_with_server m
      = concat (map (\<lambda>k. map (Pair (conn_name k)) (conn_tools k)) (filter (\<lambda>k. is_connected (conn_status k)) ks))"
    unfolding m fold_manage_tools(1)[OF names] by (simp add: manager_new_def get_tools_with_server_def)
  show ?thesis
    unfolding es unfolding m fold_manage_tools(2)[OF names]
    by (simp add: manager_new_def map_concat comp_def split: option.split)
qed

lemma last_entry:
  "map_of (rev (map (\<lambda>e. (def_name (snd e), fst e)) es)) n = Some s
   \<longleftrightarrow> (\<exists>as d. filter (\<lambda>e. def_name (snd e) = n) es = as @ [(s, d)])"
  by (induction es rule: rev_induct) auto

lemma find_mcp_tool:
  "map_of (map (\<lambda>e. (def_name (snd e), mcp_tool N e)) es) n
   = map_option (mcp_tool N) (find (\<lambda>e. def_name (snd e) = n) es)"
  by (induction es) auto

lemma start_mcp_registry:
  assumes "start_mcp N K w = (Inr (), K', w')"
  shows "get_tool n (k_registry K')
         = (case get_tool n (k_registry K) of
              Some t \<Rightarrow> Some t
            | None \<Rightarrow> map_option (mcp_tool N)
                        (find (\<lambda>e. def_name (snd e) = n)
                           (if k_servers K = [] then [] else get_tools_with_server (k_manager K'))))"
proof (cases "k_servers K = []")
  case True
  then show ?thesis using assms by (simp add: start_mcp_def split: option.split)
next
  case False
  let ?reg = "\<lambda>m. register_mcp (map (\<lambda>e. (def_name (snd e), mcp_tool N e)) (get_tools_with_server m)) (k_registry K)"
  obtain m where "start_all N (k_servers K) (k_manager K) w = (Inr (), m, w')"
    "k_registry K' = snd (?reg m)" "k_manager K' = fold remove_tool_mapping (fst (?reg m)) m"
    using assms False by (auto simp: start_mcp_def split: prod.splits sum.splits)
  then show ?thesis
    using False by (cases "get_tool n (k_registry K)") (simp_all add: register_mcp_spec find_mcp_tool)
qed

text \<open>
  C40. After the servers have started, every tool that was registered keeps its place, any other name is
  the tool of the first server that offers it; and a name is routed to a server just when that
  server alone offers it and no tool had the name. So a name that two servers share is a tool of the
  first one and has no route at all.
\<close>

theorem kernel_routes:
  assumes "start_mcp N K w = (Inr (), K', w')" "k_manager K = manager_new" "k_servers K \<noteq> []"
    "distinct (map fst (k_servers K))"
  shows "get_tool n (k_registry K')
         = (case get_tool n (k_registry K) of
              Some t \<Rightarrow> Some t
            | None \<Rightarrow> map_option (mcp_tool N)
                        (find (\<lambda>e. def_name (snd e) = n) (get_tools_with_server (k_manager K'))))
       \<and> (tool_map (k_manager K') n = Some s
          \<longleftrightarrow> get_tool n (k_registry K) = None
              \<and> (\<exists>d. filter (\<lambda>e. def_name (snd e) = n) (get_tools_with_server (k_manager K')) = [(s, d)]))"
proof -
  let ?reg = "\<lambda>m. register_mcp (map (\<lambda>e. (def_name (snd e), mcp_tool N e)) (get_tools_with_server m)) (k_registry K)"
  obtain m where st: "start_all N (k_servers K) manager_new w = (Inr (), m, w')"
    and K': "k_registry K' = snd (?reg m)" "k_manager K' = fold remove_tool_mapping (fst (?reg m)) m"
    using assms(1,2,3) by (auto simp: start_mcp_def split: prod.splits sum.splits)
  let ?es = "get_tools_with_server m"
  have skipped: "n \<in> set (fst (?reg m)) \<longleftrightarrow> n \<in> (def_name \<circ> snd) ` set ?es
      \<and> (get_tool n (k_registry K) \<noteq> None \<or> length (filter (\<lambda>e. def_name (snd e) = n) ?es) \<ge> 2)"
    by (simp add: register_mcp_spec seen_before_set get_tool_def dom_def comp_def filter_map)
  have route: "tool_map m n = Some s \<longleftrightarrow> (\<exists>es d. filter (\<lambda>e. def_name (snd e) = n) ?es = es @ [(s, d)])"
    unfolding started_tools[OF st assms(4)] by (rule last_entry)
  have offered: "n \<in> (def_name \<circ> snd) ` set ?es" if "filter (\<lambda>e. def_name (snd e) = n) ?es = as @ [(s, d)]" for as d
  proof -
    have "(s, d) \<in> set (filter (\<lambda>e. def_name (snd e) = n) ?es)" using that by simp
    then show ?thesis by (auto intro!: image_eqI[of _ _ "(s, d)"])
  qed
  have "tool_map (k_manager K') n = Some s
      \<longleftrightarrow> get_tool n (k_registry K) = None \<and> (\<exists>d. filter (\<lambda>e. def_name (snd e) = n) ?es = [(s, d)])"
  proof (cases "\<exists>as d. filter (\<lambda>e. def_name (snd e) = n) ?es = as @ [(s, d)]")
    case True
    then obtain as d where e: "filter (\<lambda>e. def_name (snd e) = n) ?es = as @ [(s, d)]" by blast
    show ?thesis
      by (cases as) (use e route skipped offered[OF e] in \<open>auto simp: K' fold_unmap\<close>)
  next
    case False
    then show ?thesis using route by (auto simp: K' fold_unmap)
  qed
  then show ?thesis using start_mcp_registry[OF assms(1), of n] assms(3) by (simp add: K'(2))
qed

definition two_server_kernel :: "(nat, unit) mcp_kernel" where
  "two_server_kernel =
     \<lparr>k_registry = registry_new, k_manager = manager_new, k_servers = two_servers, k_instructions = [],
      k_resources = [], k_prompts = []\<rparr>"

theorem kernel_routes_witness:
  "\<exists>K'. start_mcp small_net two_server_kernel () = (Inr (), K', ())
      \<and> map_option tool_permission (get_tool ''hit'' (k_registry K')) = Some Supervised_level
      \<and> tool_map (k_manager K') ''hit'' \<noteq> Some ''a'' \<and> tool_map (k_manager K') ''hit'' \<noteq> Some ''b''"
proof -
  have k: "k_manager two_server_kernel = manager_new" "k_servers two_server_kernel = two_servers"
    "k_registry two_server_kernel = registry_new" by (simp_all add: two_server_kernel_def)
  have ne: "two_servers \<noteq> []" by (simp add: two_servers_def)
  have st: "\<exists>K'. start_mcp small_net two_server_kernel () = (Inr (), K', ())
      \<and> get_tools_with_server (k_manager K') = get_tools_with_server two_started"
    unfolding start_mcp_def k(1,2) two_started(1) by (simp only: ne if_False prod.case sum.case) (simp add: case_prod_beta)
  then obtain K' where st: "start_mcp small_net two_server_kernel () = (Inr (), K', ())"
    and es: "get_tools_with_server (k_manager K') = get_tools_with_server two_started" by blast
  have more: "k_servers two_server_kernel \<noteq> []" "distinct (map fst (k_servers two_server_kernel))"
    by (simp_all add: k two_servers_def)
  have hit: "def_name (to_offered hammer) = ''hit''" by (simp add: to_offered_def hammer_def)
  let ?es = "[(''a'', to_offered hammer), (''b'', to_offered hammer)]"
  have es: "get_tools_with_server (k_manager K') = ?es" by (simp only: es two_started(4))
  have first: "find (\<lambda>e. def_name (snd e) = ''hit'') ?es = Some (''a'', to_offered hammer)"
    and both: "filter (\<lambda>e. def_name (snd e) = ''hit'') ?es = ?es" by (simp_all add: hit)
  have none: "get_tool ''hit'' (k_registry two_server_kernel) = None" by (simp add: k(3) registry_new_def get_tool_def)
  have "get_tool ''hit'' (k_registry K') = Some (mcp_tool small_net (''a'', to_offered hammer))"
    using kernel_routes[OF st k(1) more, of "''hit''" "''a''", THEN conjunct1]
    by (simp only: es none first option.case option.map)
  then have "map_option tool_permission (get_tool ''hit'' (k_registry K')) = Some Supervised_level"
    by (simp add: mcp_tool_def)
  moreover have "tool_map (k_manager K') ''hit'' \<noteq> Some s" for s
    using kernel_routes[OF st k(1) more, of "''hit''" s, THEN conjunct2]
    by (simp only: es both) simp
  ultimately show ?thesis by (intro exI[of _ K'] conjI) (rule st)
qed

subsection \<open>Calls of a tool\<close>

text \<open>A network that keeps a log of the requests and what came of them.\<close>

type_synonym 'w logged = "(mcp_request \<times> sent) list \<times> 'w"

definition logging :: "('c, 'w) mcp_net \<Rightarrow> ('c, 'w logged) mcp_net" where
  "logging N =
     \<lparr>transmit = (\<lambda>c q (l, w). case transmit N c q w of (r, w) \<Rightarrow> (r, l @ [(q, r)], w)),
      peer_info = peer_info N, is_closed = (\<lambda>c (l, w). is_closed N c w),
      open_stdio = (\<lambda>cmd args vars ms sm (l, w). case open_stdio N cmd args vars ms sm w of (r, w) \<Rightarrow> (r, l, w)),
      bad_header = bad_header N, bad_http_client = bad_http_client N,
      open_http = (\<lambda>url hs ms sm (l, w). case open_http N url hs ms sm w of (r, w) \<Rightarrow> (r, l, w)),
      with_oauth = (\<lambda>url ms sm (l, w). case with_oauth N url ms sm w of (r, w) \<Rightarrow> (r, l, w))\<rparr>"

fun is_call :: "mcp_request \<times> sent \<Rightarrow> bool" where
  "is_call (Call_tool n args, r) = True"
| "is_call _ = False"

abbreviation calls :: "'w logged \<Rightarrow> (mcp_request \<times> sent) list" where
  "calls s \<equiv> filter is_call (fst s)"

lemma send_calls:
  "client_send (logging N) c q s = (r, s') \<Longrightarrow> \<not> is_call (q, Not_sent []) \<Longrightarrow> calls s' = calls s"
  by (cases s; cases q)
     (auto simp: client_send_def logging_def split: prod.splits sent.splits service_error.splits)

lemma send_calls_snd: "\<not> is_call (q, Not_sent []) \<Longrightarrow> calls (snd (client_send (logging N) c q s)) = calls s"
  by (rule send_calls[OF prod.collapse[symmetric]])

lemma list_calls:
  "list_tools (logging N) c s = (r1, s1) \<Longrightarrow> calls s1 = calls s"
  "list_resources (logging N) c s = (r2, s2) \<Longrightarrow> calls s2 = calls s"
  "list_prompts (logging N) c s = (r3, s3) \<Longrightarrow> calls s3 = calls s"
  by (auto simp: list_tools_def list_resources_def list_prompts_def expect_def send_calls_snd)

lemma discover_calls:
  assumes "discover has what ask put s = (k, w)" "\<And>w r w'. ask w = (r, w') \<Longrightarrow> calls w' = calls w"
  shows "calls w = calls (snd s)"
  using assms by (auto simp: discover_def split: if_splits prod.splits sum.splits)

lemma discover_capabilities_calls:
  assumes "discover_capabilities (logging N) k w = (k', w')"
  shows "calls w' = calls w"
proof (cases "conn_client k")
  case (Some c)
  let ?caps = "extract_capabilities (logging N) c"
  obtain k1 w1 where 1: "discover (cap_tools ?caps) ''tools/list'' (list_tools (logging N) c)
      (\<lambda>ts k. k\<lparr>conn_tools := map to_offered ts\<rparr>) (k, w) = (k1, w1)" by (metis surj_pair)
  obtain k2 w2 where 2: "discover (cap_resources ?caps) ''resources/list'' (list_resources (logging N) c)
      (\<lambda>rs k. k\<lparr>conn_resources := rs\<rparr>) (k1, w1) = (k2, w2)" by (metis surj_pair)
  have 3: "discover (cap_prompts ?caps) ''prompts/list'' (list_prompts (logging N) c)
      (\<lambda>ps k. k\<lparr>conn_prompts := ps\<rparr>) (k2, w2) = (k', w')"
    using assms by (simp add: discover_capabilities_def Some Let_def 1 2)
  have "calls w1 = calls (snd (k, w))" by (rule discover_calls[OF 1]) (rule list_calls(1))
  moreover have "calls w2 = calls (snd (k1, w1))" by (rule discover_calls[OF 2]) (rule list_calls(2))
  moreover have "calls w' = calls (snd (k2, w2))" by (rule discover_calls[OF 3]) (rule list_calls(3))
  ultimately show ?thesis by simp
qed (use assms in \<open>simp add: discover_capabilities_def\<close>)

lemma create_client_calls:
  "create_client (logging N) k s = (r, s') \<Longrightarrow> fst s' = fst s"
  by (cases s)
     (auto simp: create_client_def connect_http_def logging_def build_http_client_def
      split: mcp_server.splits option.splits prod.splits sum.splits if_splits)

lemma connect_calls:
  assumes "connect (logging N) k s = (k', s')"
  shows "calls s' = calls s"
  using assms
  by (auto simp: connect_def Let_def split: prod.splits sum.splits
      dest!: discover_capabilities_calls create_client_calls)

lemma restart_calls:
  "restart_connection (logging N) n m s = (r, m', s') \<Longrightarrow> calls s' = calls s"
  by (auto simp: restart_connection_def split: option.splits prod.splits if_splits dest: connect_calls)

text \<open>A single call: nothing is sent, or one request with the answer that is handed back.\<close>

lemma server_call:
  assumes "call_server_tool (logging N) m server name inp s = (r, s')"
  shows "(calls s' = calls s \<and> (\<exists>e. r = Inl e)) \<or>
         (\<exists>args a. calls s' = calls s @ [(Call_tool name args, a)]
            \<and> (\<forall>x. r = Inr x \<longrightarrow> a = Answered (Tool_called x))
            \<and> (\<forall>t. r = Inl (Mcp_closed t) \<longrightarrow> a = Not_sent t \<or> a = Service_failed Service_closed))"
  using assms
  by (cases s; cases r)
     (auto simp: call_server_tool_def client_call_tool_def expect_def client_send_def logging_def
      split: sum.splits prod.splits sent.splits service_error.splits mcp_reply.splits option.splits)

text \<open>
  C39. A tool of a server is called at most twice in one execution, and a second time only where the
  transport of the first call was closed and the server is one of those reached by HTTP: a call that
  was answered, or that timed out, is never repeated. A result is always that of the last call.
\<close>

theorem tool_called_at_most_twice:
  assumes "mcp_execute (logging N) server name inp (m, [], w) = (r, m', l, w')"
  shows "length (filter is_call l) \<le> 2
         \<and> (\<forall>q1 a1 q2 a2. filter is_call l = [(q1, a1), (q2, a2)] \<longrightarrow>
              ((\<exists>t. a1 = Not_sent t) \<or> a1 = Service_failed Service_closed) \<and> server_reconnectable m server)
         \<and> (\<forall>x. r = Inr x \<longrightarrow>
              (\<exists>q reply. last (filter is_call l) = (q, Answered (Tool_called reply)) \<and> filter is_call l \<noteq> []
                 \<and> x = convert_tool_result reply))"
proof -
  obtain r1 s1 where c1: "call_server_tool (logging N) m server name inp ([], w) = (r1, s1)" by (metis surj_pair)
  show ?thesis
  proof (cases "\<exists>t. r1 = Inl (Mcp_closed t) \<and> server_reconnectable m server")
    case False
    then have "snd (snd (r, m', l, w')) = s1 \<and> r = (case r1 of Inr x \<Rightarrow> Inr (convert_tool_result x)
        | Inl e \<Rightarrow> Inl (failure_text (Mcp_failed e)))"
      using assms by (auto simp: mcp_execute_def c1 split: sum.splits mcp_failure.splits if_splits)
    then show ?thesis using server_call[OF c1] by (auto split: sum.splits)
  next
    case True
    then obtain t where r1: "r1 = Inl (Mcp_closed t)" "server_reconnectable m server" by blast
    obtain r2 m2 s2 where rs: "restart_connection (logging N) server m s1 = (r2, m2, s2)" by (metis prod_cases3)
    obtain r3 s3 where c3: "call_server_tool (logging N) m2 server name inp s2 = (r3, s3)" by (metis surj_pair)
    have "(l, w') = s3 \<and> r = (case r3 of Inr x \<Rightarrow> Inr (convert_tool_result x)
        | Inl e \<Rightarrow> Inl (failure_text (Mcp_failed e)))"
      using assms by (auto simp: mcp_execute_def c1 r1 rs c3 split: sum.splits)
    then show ?thesis
      using server_call[OF c1] server_call[OF c3] restart_calls[OF rs] r1
      by (auto split: sum.splits)
  qed
qed

theorem tool_called_at_most_twice_witness:
  "\<exists>r m l w. mcp_execute (logging small_net) ''a'' ''hit'' JNull (two_started, [], ()) = (r, m, l, w)
     \<and> length (filter is_call l) \<le> 2"
proof -
  obtain r m l w where x: "mcp_execute (logging small_net) ''a'' ''hit'' JNull (two_started, [], ()) = (r, m, l, w)"
    by (metis surj_pair)
  show ?thesis
    by (intro exI conjI, rule x, rule tool_called_at_most_twice[OF x, THEN conjunct1])
qed

lemma attempts_end:
  "reconnect_attempts N ds k w = (ok, slept, k', w') \<Longrightarrow>
   slept = take (length slept) ds \<and> (ok \<longrightarrow> is_connected (conn_status k') \<and> slept \<noteq> []) \<and> (\<not> ok \<longrightarrow> slept = ds)
   \<and> length slept \<le> length ds"
  by (induction N ds k w arbitrary: ok slept k' w' rule: reconnect_attempts.induct)
     (auto split: prod.splits if_splits)

text \<open>
  Reconnecting ends: at most six attempts are made, after two, four and up to 64 seconds, and it stops
  at the first that succeeds. It reports success exactly when the connection is made; a server of
  standard input and output is never tried, and one that failed every time is marked as failed.
\<close>

theorem reconnect_is_bounded:
  assumes "reconnect_loop N reconnect_policy_default k w = (r, slept, k', w')"
  shows "(\<exists>n \<le> 6. slept = take n [2000, 4000, 8000, 16000, 32000, 64000])
         \<and> (\<not> is_reconnectable (conn_config k) \<longrightarrow> slept = [] \<and> k' = k \<and> w' = w \<and> (\<exists>e. r = Inl e))
         \<and> (is_reconnectable (conn_config k) \<longrightarrow>
              (case r of Inr _ \<Rightarrow> is_connected (conn_status k') \<and> slept \<noteq> []
               | Inl _ \<Rightarrow> length slept = 6 \<and> is_failed (conn_status k')))"
proof (cases "is_reconnectable (conn_config k)")
  case False
  then show ?thesis using assms by (auto simp: reconnect_loop_def intro: exI[of _ 0])
next
  case True
  let ?ds = "[2000, 4000, 8000, 16000, 32000, 64000] :: nat list"
  have ds: "map (delay_for_attempt reconnect_policy_default) [0..<max_attempts reconnect_policy_default] = ?ds"
    by (simp add: reconnect_policy_default_def delay_for_attempt_def upt_rec numeral_2_eq_2)
  obtain ok sl k1 w1 where a: "reconnect_attempts N ?ds k w = (ok, sl, k1, w1)" by (metis surj_pair)
  have sl: "sl = slept" "w1 = w'"
    using assms True by (auto simp: reconnect_loop_def ds a Let_def simp del: reconnect_attempts.simps split: bool.splits)
  have e: "slept = take (length slept) ?ds" "length slept \<le> 6" "ok \<Longrightarrow> is_connected (conn_status k1) \<and> slept \<noteq> []"
    "\<not> ok \<Longrightarrow> slept = ?ds"
    using attempts_end[OF a] by (simp_all add: sl(1))
  have "case r of Inr _ \<Rightarrow> ok \<and> k' = k1 | Inl _ \<Rightarrow> \<not> ok \<and> is_failed (conn_status k')"
    using assms True by (auto simp: reconnect_loop_def ds a Let_def simp del: reconnect_attempts.simps split: bool.splits)
  then have "case r of Inr _ \<Rightarrow> is_connected (conn_status k') \<and> slept \<noteq> [] | Inl _ \<Rightarrow> length slept = 6 \<and> is_failed (conn_status k')"
    using e(3,4) by (cases r) auto
  then show ?thesis using True e(1,2) by blast
qed

text \<open>Every byte written as a percent sign and two digits.\<close>

definition hex_digit :: "nat \<Rightarrow> char" where
  "hex_digit n = (if n < 10 then char_of (48 + n) else char_of (55 + n))"

definition percent_encode :: "string \<Rightarrow> string" where
  "percent_encode s =
     concat (map (\<lambda>c. [CHR ''%'', hex_digit (of_char c div 16), hex_digit (of_char c mod 16)]) s)"

lemma hex_val_digit: "n < 16 \<Longrightarrow> hex_val (hex_digit n) = Some n"
  by (auto simp: hex_val_def hex_digit_def Let_def)

text \<open>
  What was percent-encoded is decoded to itself as long as it is ASCII; every byte from 128 on
  becomes two, so that an encoded text in UTF-8 does not come back.
\<close>

theorem decode_encoded:
  "percent_decode (percent_encode s) = concat (map push_byte s)
   \<and> (list_all (\<lambda>c. (of_char c :: nat) < 128) s \<longleftrightarrow> percent_decode (percent_encode s) = s)"
proof -
  have dec: "percent_decode (percent_encode s) = concat (map push_byte s)"
  proof (induction s)
    case (Cons c s)
    have "(of_char c :: nat) < 256" by (rule nat_of_char_less_256)
    then have "hex_val (hex_digit (of_char c div 16)) = Some (of_char c div 16)"
      "hex_val (hex_digit (of_char c mod 16)) = Some (of_char c mod 16)"
      by (simp_all add: hex_val_digit less_mult_imp_div_less)
    then show ?case using Cons by (simp add: percent_encode_def)
  qed (simp add: percent_encode_def)
  have len: "length (push_byte c) = (if (of_char c :: nat) < 128 then 1 else 2)" for c
    by (simp add: push_byte_def Let_def)
  have ge: "length (concat (map push_byte s)) \<ge> length s" for s
    by (induction s) (simp_all add: len)
  have "length (concat (map push_byte s)) = length s \<longrightarrow> (\<forall>c\<in>set s. (of_char c :: nat) < 128)"
  proof (induction s)
    case (Cons c s)
    then show ?case using ge[of s] by (simp add: len)
  qed simp
  moreover have "(\<forall>c\<in>set s. (of_char c :: nat) < 128) \<Longrightarrow> concat (map push_byte s) = s"
    by (induction s) (simp_all add: push_byte_def)
  ultimately show ?thesis using dec by (auto simp: list_all_iff)
qed

text \<open>A refused connection to port 4010 counts as a demand for authorization.\<close>

lemma port_looks_like_auth:
  "is_auth_error (Mcp_connection ''http://localhost:4010: connection refused'')"
  by code_simp

end
