(* ===== verification/Kernel_Setup.thy ===== *)
theory Kernel_Setup
  imports Mcp Anthropic Openai Google Compat Models Edit_Tools
begin

section \<open>Setting up the kernel\<close>

text \<open>
  \<open>crates/loopal-kernel\<close>: which provider clients the settings and the environment give
  (\<open>provider_registry.rs\<close>), the kernel and its queries and the backend that it makes
  (\<open>kernel.rs\<close>), and how the server process builds one (\<open>loopal-agent-server/src/params.rs\<close>). The
  environment is a function from names to values.
\<close>

subsection \<open>Keys\<close>

definition filled :: "string option \<Rightarrow> string option" where
  "filled v = (case v of Some t \<Rightarrow> if t = [] then None else Some t | None \<Rightarrow> None)"

definition resolve_api_key ::
  "(string \<Rightarrow> string option) \<Rightarrow> string option \<Rightarrow> string option \<Rightarrow> string option" where
  "resolve_api_key env key var =
     (case filled key of
        Some k \<Rightarrow> Some k
      | None \<Rightarrow> (case var of Some v \<Rightarrow> filled (env v) | None \<Rightarrow> None))"

fun first_env :: "(string \<Rightarrow> string option) \<Rightarrow> string list \<Rightarrow> string option" where
  "first_env env [] = None"
| "first_env env (n # ns) = (case filled (env n) of Some v \<Rightarrow> Some v | None \<Rightarrow> first_env env ns)"

definition provider_key ::
  "(string \<Rightarrow> string option) \<Rightarrow> provider_settings option \<Rightarrow> string list \<Rightarrow> string option" where
  "provider_key env c names =
     or_else (Option.bind c (\<lambda>c. resolve_api_key env (api_key_text c) (api_key_var c))) (first_env env names)"

subsection \<open>Headers\<close>

fun split_any :: "char set \<Rightarrow> string \<Rightarrow> string list" where
  "split_any D [] = [[]]"
| "split_any D (c # cs) =
     (if c \<in> D then [] # split_any D cs
      else case split_any D cs of [] \<Rightarrow> [[c]] | w # ws \<Rightarrow> (c # w) # ws)"

definition header_of_entry :: "string \<Rightarrow> (string \<times> string) option" where
  "header_of_entry entry =
     (let trimmed = trim entry
      in if trimmed = [] then None
         else Option.bind (or_else (split_at_pat ''='' trimmed) (split_at_pat '':'' trimmed))
                (\<lambda>(n, v). if trim n = [] \<or> trim v = [] then None else Some (trim n, trim v)))"

definition parse_extra_headers :: "string \<Rightarrow> (string \<times> string) list" where
  "parse_extra_headers raw = List.map_filter header_of_entry (split_any {NL, CHR 0x3B} raw)"

subsection \<open>Providers\<close>

datatype provider_client =
    For_anthropic anthropic_client
  | For_openai openai_client
  | For_google google_client
  | For_compat compat_client

definition maybe :: "'b option \<Rightarrow> ('b \<Rightarrow> 'a \<Rightarrow> 'a) \<Rightarrow> 'a \<Rightarrow> 'a" where
  "maybe x f a = (case x of Some b \<Rightarrow> f b a | None \<Rightarrow> a)"

definition anthropic_url :: "(string \<Rightarrow> string option) \<Rightarrow> provider_settings option \<Rightarrow> string option" where
  "anthropic_url env c =
     or_else (Option.bind c api_base_url)
       (first_env env [''ANTHROPIC_BASE_URL'', ''OPUS_API_URL'', ''OPUS_BASE_URL''])"

text \<open>The key itself becomes the bearer's token for any other address, and when \<open>OPUS_API_URL\<close> is set.\<close>

definition compatibility_bearer ::
  "(string \<Rightarrow> string option) \<Rightarrow> string \<Rightarrow> string option \<Rightarrow> string option" where
  "compatibility_bearer env key url =
     or_else (first_env env [''OPUS_AUTH_TOKEN'', ''ANTHROPIC_AUTH_TOKEN''])
       (if (case url of Some u \<Rightarrow> \<not> contains u ''api.anthropic.com'' | None \<Rightarrow> False)
           \<or> env ''OPUS_API_URL'' \<noteq> None
        then Some key else None)"

definition anthropic_setup ::
  "(string \<Rightarrow> string option) \<Rightarrow> provider_settings option \<Rightarrow> anthropic_client option" where
  "anthropic_setup env c =
     map_option (\<lambda>key.
       (let url = anthropic_url env c;
            p = maybe url with_base_url (anthropic_new key);
            p = maybe (compatibility_bearer env key url) with_bearer p;
            p = maybe (first_env env [''ANTHROPIC_API_VERSION'', ''OPUS_API_VERSION'']) with_version p;
            p = maybe (first_env env [''ANTHROPIC_USER_AGENT'', ''OPUS_API_USER_AGENT'']) with_user_agent p
        in maybe (first_env env [''ANTHROPIC_EXTRA_HEADERS'', ''OPUS_EXTRA_HEADERS''])
             (\<lambda>raw p. fold (\<lambda>(n, v). with_extra_header n v) (parse_extra_headers raw) p) p))
       (provider_key env c [''ANTHROPIC_API_KEY'', ''OPUS_API_KEY'', ''ANTHROPIC_AUTH_TOKEN''])"

definition openai_setup ::
  "(string \<Rightarrow> string option) \<Rightarrow> provider_settings option \<Rightarrow> openai_client option" where
  "openai_setup env c =
     map_option (\<lambda>key. maybe (Option.bind c api_base_url) openai_with_base_url (openai_new key))
       (provider_key env c [''OPENAI_API_KEY''])"

definition google_setup ::
  "(string \<Rightarrow> string option) \<Rightarrow> provider_settings option \<Rightarrow> google_client option" where
  "google_setup env c =
     map_option (\<lambda>key. maybe (Option.bind c api_base_url) google_with_base_url (google_new key))
       (provider_key env c [''GOOGLE_API_KEY''])"

definition register_compat ::
  "(string \<Rightarrow> string option) \<Rightarrow> compat_settings \<Rightarrow> provider_client provider_registry
   \<Rightarrow> provider_client provider_registry" where
  "register_compat env c reg =
     (case resolve_api_key env (cs_key c) (cs_key_var c) of
        None \<Rightarrow> reg
      | Some key \<Rightarrow>
          (let p = For_compat (compat_new key (cs_base_url c) (cs_name c))
           in case cs_prefix c of
                Some pre \<Rightarrow> register_with_prefix (cs_name c) p pre reg
              | None \<Rightarrow> register_provider (cs_name c) p reg))"

definition register_providers ::
  "(string \<Rightarrow> string option) \<Rightarrow> settings \<Rightarrow> user_models \<times> provider_client provider_registry
   \<Rightarrow> user_models \<times> provider_client provider_registry" where
  "register_providers env s st =
     (case st of (models, reg) \<Rightarrow>
        (let ps = set_providers s;
             reg = maybe (anthropic_setup env (for_anthropic ps))
                     (\<lambda>p. register_provider ''anthropic'' (For_anthropic p)) reg;
             reg = maybe (openai_setup env (for_openai ps))
                     (\<lambda>p. register_provider ''openai'' (For_openai p)) reg;
             reg = maybe (google_setup env (for_google ps))
                     (\<lambda>p. register_provider ''google'' (For_google p)) reg
         in (init_user_models (set_models s) models, fold (register_compat env) (for_compat ps) reg)))"

subsection \<open>The kernel\<close>

record ('c, 'w) kernel =
  kernel_servers :: "('c, 'w) mcp_kernel"
  kernel_providers :: "provider_client provider_registry"
  kernel_hooks :: "hook_config list"
  kernel_settings :: settings

text \<open>\<open>built_in\<close> are the tools that \<open>loopal_tools::builtin::register_all\<close> registers, in its order.\<close>

type_synonym ('c, 'w) named_tools = "(string \<times> ('c mcp_manager \<times> 'w) tool) list"

definition register_all :: "(string \<times> 'w tool) list \<Rightarrow> 'w tool_registry \<Rightarrow> 'w tool_registry" where
  "register_all ts reg = fold (\<lambda>(n, t). register_tool n t) ts reg"

definition kernel_new ::
  "(string \<Rightarrow> string option) \<Rightarrow> ('c, 'w) named_tools \<Rightarrow> settings \<Rightarrow> user_models
   \<Rightarrow> user_models \<times> ('c, 'w) kernel" where
  "kernel_new env built_in s models =
     (case register_providers env s (models, provider_registry_new) of
        (models, reg) \<Rightarrow>
          (models,
           \<lparr>kernel_servers =
              \<lparr>k_registry = register_all built_in registry_new, k_manager = manager_new, k_servers = set_servers s,
               k_instructions = [], k_resources = [], k_prompts = []\<rparr>,
            kernel_providers = reg, kernel_hooks = set_hooks s, kernel_settings = s\<rparr>))"

definition kernel_resolve_provider :: "user_models \<Rightarrow> ('c, 'w) kernel \<Rightarrow> string \<Rightarrow> loopal_failure + provider_client" where
  "kernel_resolve_provider models K model = resolve_model models (kernel_providers K) model"

definition get_hooks :: "('c, 'w) kernel \<Rightarrow> hook_event \<Rightarrow> string option \<Rightarrow> hook_config list" where
  "get_hooks K e name = match_hooks e name (kernel_hooks K)"

definition local_backend_new ::
  "os \<Rightarrow> (string \<Rightarrow> string option) \<Rightarrow> glob_lib \<Rightarrow> string \<Rightarrow> resolved_policy option \<Rightarrow> resource_limits
   \<Rightarrow> local_backend" where
  "local_backend_new env canon globs cwd pol limits =
     \<lparr>backend_env = env, backend_canon = canon, backend_globs = globs,
      backend_cwd = (case canon cwd of Some c \<Rightarrow> c | None \<Rightarrow> cwd), backend_policy = pol,
      backend_limits = limits\<rparr>"

definition create_backend ::
  "os \<Rightarrow> (string \<Rightarrow> string option) \<Rightarrow> glob_lib \<Rightarrow> string option \<Rightarrow> string \<Rightarrow> sandbox_config \<Rightarrow> string
   \<Rightarrow> local_backend" where
  "create_backend env canon globs tmpdir temp sandbox cwd =
     local_backend_new env canon globs cwd
       (if config_policy sandbox \<noteq> Disabled then Some (resolve_policy canon tmpdir temp sandbox cwd) else None)
       default_limits"

text \<open>
  The process of an agent: in production the servers may ask the default model, when it has a
  provider, and are started; a failure of the start is the process's. The agent's own tools
  \<open>agent_tools\<close> are registered last.
\<close>

definition build_kernel_from_config ::
  "('c, 'w) mcp_net \<Rightarrow> (string \<Rightarrow> string option) \<Rightarrow> ('c, 'w) named_tools \<Rightarrow> ('c, 'w) named_tools
   \<Rightarrow> settings \<Rightarrow> bool \<Rightarrow> user_models \<Rightarrow> 'w \<Rightarrow> (mcp_failure + ('c, 'w) kernel) \<times> user_models \<times> 'w" where
  "build_kernel_from_config N env built_in agent_tools s production models w =
     (case kernel_new env built_in s models of
        (models, K) \<Rightarrow>
          if \<not> production
          then (Inr (K\<lparr>kernel_servers := (kernel_servers K)
                        \<lparr>k_registry := register_all agent_tools (k_registry (kernel_servers K))\<rparr>\<rparr>),
                models, w)
          else
            (let S = kernel_servers K;
                 S = (case kernel_resolve_provider models K (set_model s) of
                        Inr p \<Rightarrow> S\<lparr>k_manager := set_sampling (k_manager S)\<rparr> | Inl e \<Rightarrow> S)
             in case start_mcp N S w of
                  (Inl e, S, w) \<Rightarrow> (Inl e, models, w)
                | (Inr _, S, w) \<Rightarrow>
                    (Inr (K\<lparr>kernel_servers := S\<lparr>k_registry := register_all agent_tools (k_registry S)\<rparr>\<rparr>), models, w)))"

subsection \<open>Keys and headers\<close>

lemma or_else_cases: "or_else x y = (case x of Some a \<Rightarrow> Some a | None \<Rightarrow> y)"
  by (cases x) simp_all

lemma filled_Some: "filled v = Some k \<longleftrightarrow> v = Some k \<and> k \<noteq> []"
  by (auto simp: filled_def split: option.splits)

text \<open>The specification: the first value in order that is there and not empty.\<close>

definition key_candidates ::
  "(string \<Rightarrow> string option) \<Rightarrow> provider_settings option \<Rightarrow> string list \<Rightarrow> string option list" where
  "key_candidates env c names =
     (case c of
        Some c \<Rightarrow> [api_key_text c, Option.bind (api_key_var c) env]
      | None \<Rightarrow> []) @ map env names"

fun first_filled :: "string option list \<Rightarrow> string option" where
  "first_filled [] = None"
| "first_filled (v # vs) = (case filled v of Some k \<Rightarrow> Some k | None \<Rightarrow> first_filled vs)"

lemma first_env_filled: "first_env env ns = first_filled (map env ns)"
  by (induction ns) (simp_all split: option.split)

lemma provider_key_candidates: "provider_key env c names = first_filled (key_candidates env c names)"
  by (auto simp: provider_key_def key_candidates_def resolve_api_key_def or_else_cases first_env_filled filled_def
      split: option.splits)

lemma with_extra_headers_keep:
  "api_key (fold (\<lambda>(n, v). with_extra_header n v) hs p) = api_key p"
  "base_url (fold (\<lambda>(n, v). with_extra_header n v) hs p) = base_url p"
  "bearer (fold (\<lambda>(n, v). with_extra_header n v) hs p) = bearer p"
  by (induction hs arbitrary: p) (auto simp: with_extra_header_def)

lemma maybe_keep: "(\<And>b a. f (g b a) = f a) \<Longrightarrow> f (maybe x g a) = f a"
  by (simp add: maybe_def split: option.split)

lemma with_rest_keep:
  "api_key (with_version v p) = api_key p" "base_url (with_version v p) = base_url p"
  "bearer (with_version v p) = bearer p"
  "api_key (with_user_agent v p) = api_key p" "base_url (with_user_agent v p) = base_url p"
  "bearer (with_user_agent v p) = bearer p"
  by (simp_all add: with_version_def with_user_agent_def)

lemma first_filled_nonempty: "first_filled vs = Some k \<Longrightarrow> k \<noteq> []"
  by (induction vs) (auto simp: filled_Some split: option.splits)

text \<open>
  The credentials of Anthropic: there is a client just when one of the settings' key, the variable
  they name and the three fallbacks is there and not empty, and the first such value is its key. The
  key is given away as a bearer's token only where neither token is set and the address is one that
  does not contain \<open>api.anthropic.com\<close>, or the variable \<open>OPUS_API_URL\<close> is set, be it empty.
\<close>

theorem anthropic_credentials:
  "(case anthropic_setup env c of
      None \<Rightarrow> first_filled (key_candidates env c
                [''ANTHROPIC_API_KEY'', ''OPUS_API_KEY'', ''ANTHROPIC_AUTH_TOKEN'']) = None
    | Some p \<Rightarrow>
        first_filled (key_candidates env c
          [''ANTHROPIC_API_KEY'', ''OPUS_API_KEY'', ''ANTHROPIC_AUTH_TOKEN'']) = Some (api_key p)
        \<and> base_url p = (case anthropic_url env c of Some u \<Rightarrow> u | None \<Rightarrow> ''https://api.anthropic.com'')
        \<and> bearer p =
            (case first_filled [env ''OPUS_AUTH_TOKEN'', env ''ANTHROPIC_AUTH_TOKEN''] of
               Some t \<Rightarrow> Some t
             | None \<Rightarrow>
                 if contains (base_url p) ''api.anthropic.com'' \<and> env ''OPUS_API_URL'' = None then None
                 else Some (api_key p)))"
proof (cases "anthropic_setup env c")
  case None
  then show ?thesis by (simp add: anthropic_setup_def provider_key_candidates)
next
  case (Some p)
  let ?names = "[''ANTHROPIC_API_KEY'', ''OPUS_API_KEY'', ''ANTHROPIC_AUTH_TOKEN'']"
  obtain key where key: "provider_key env c ?names = Some key"
    using Some by (auto simp: anthropic_setup_def)
  have ne: "key \<noteq> []" using key first_filled_nonempty by (simp add: provider_key_candidates)
  define q where "q = maybe (anthropic_url env c) with_base_url (anthropic_new key)"
  define b where "b = compatibility_bearer env key (anthropic_url env c)"
  have q: "api_key q = key" "bearer q = None"
    "base_url q = (case anthropic_url env c of Some u \<Rightarrow> u | None \<Rightarrow> ''https://api.anthropic.com'')"
    by (simp_all add: q_def maybe_def with_base_url_def anthropic_new_def split: option.split)
  obtain x y z where "p = maybe z (\<lambda>raw p. fold (\<lambda>(n, v). with_extra_header n v) (parse_extra_headers raw) p)
      (maybe y with_user_agent (maybe x with_version (maybe b with_bearer q)))"
    using Some unfolding anthropic_setup_def key Let_def q_def b_def option.map option.inject by metis
  then have p: "api_key p = api_key (maybe b with_bearer q)" "base_url p = base_url (maybe b with_bearer q)"
    "bearer p = bearer (maybe b with_bearer q)"
    by (simp_all add: maybe_keep[of api_key] maybe_keep[of base_url] maybe_keep[of bearer] with_rest_keep
        with_extra_headers_keep)
  have "api_key p = key" "base_url p = base_url q"
    using q p by (simp_all add: maybe_def with_bearer_def split: option.split)
  moreover have b: "b = (case first_filled [env ''OPUS_AUTH_TOKEN'', env ''ANTHROPIC_AUTH_TOKEN''] of
      Some t \<Rightarrow> Some t
    | None \<Rightarrow> (if (case anthropic_url env c of Some u \<Rightarrow> \<not> contains u ''api.anthropic.com'' | None \<Rightarrow> False)
                 \<or> env ''OPUS_API_URL'' \<noteq> None then Some key else None))"
    by (simp only: b_def compatibility_bearer_def or_else_cases first_env_filled list.map)
  moreover have "b \<noteq> Some []"
    unfolding b using ne first_filled_nonempty[of "[env ''OPUS_AUTH_TOKEN'', env ''ANTHROPIC_AUTH_TOKEN'']"]
    by (simp del: first_filled.simps split: option.split)
  then have "bearer p = b" using q(2) p(3) by (cases b) (simp_all add: maybe_def with_bearer_def)
  moreover have "contains ''https://api.anthropic.com'' ''api.anthropic.com''" by code_simp
  moreover have "first_filled (key_candidates env c ?names) = Some key"
    using key by (simp only: provider_key_candidates)
  ultimately show ?thesis
    unfolding Some option.case q(3) by (cases "anthropic_url env c") (auto split: option.split)
qed

lemma split_any_piece:
  "set w \<inter> D = {} \<Longrightarrow> d \<in> D \<Longrightarrow> split_any D (w @ d # rest) = w # split_any D rest"
  "set w \<inter> D = {} \<Longrightarrow> split_any D w = [w]"
  by (induction w) auto

lemma split_any_joined:
  "ws \<noteq> [] \<Longrightarrow> \<forall>w\<in>set ws. set w \<inter> D = {} \<Longrightarrow> d \<in> D \<Longrightarrow> split_any D (str_join [d] ws) = ws"
  by (induction ws rule: induct_list012) (simp_all add: split_any_piece)

lemma split_at_char:
  "c \<notin> set n \<Longrightarrow> split_at_pat [c] (n @ c # v) = Some (n, v)"
  by (induction n) (auto simp: split_at_pat.simps)

text \<open>A header that can be written: \<open>name=value\<close> without surrounding blanks or separators.\<close>

definition header_entry :: "string \<times> string \<Rightarrow> string" where
  "header_entry h = fst h @ ''='' @ snd h"

definition plain_header :: "string \<times> string \<Rightarrow> bool" where
  "plain_header h =
     (fst h \<noteq> [] \<and> snd h \<noteq> [] \<and> CHR ''='' \<notin> set (fst h) \<and> set (header_entry h) \<inter> {NL, CHR 0x3B} = {}
      \<and> trim (fst h) = fst h \<and> trim (snd h) = snd h \<and> trim (header_entry h) = header_entry h)"

lemma header_of_plain: "plain_header h \<Longrightarrow> header_of_entry (header_entry h) = Some h"
  using split_at_char[of "CHR ''=''" "fst h" "snd h"]
  by (cases h) (simp add: plain_header_def header_of_entry_def header_entry_def or_else_cases Let_def)

text \<open>
  Extra headers written one after another, with semicolons or on lines of their own, are read back as
  they are.
\<close>

theorem headers_come_back:
  assumes "\<forall>h\<in>set hs. plain_header h" "hs \<noteq> []" "sep \<in> {NL, CHR 0x3B}"
  shows "parse_extra_headers (str_join [sep] (map header_entry hs)) = hs"
proof -
  have "split_any {NL, CHR 0x3B} (str_join [sep] (map header_entry hs)) = map header_entry hs"
    using assms by (intro split_any_joined) (auto simp: plain_header_def)
  moreover have "List.map_filter header_of_entry (map header_entry hs) = hs"
    using assms(1) by (induction hs) (auto simp: header_of_plain)
  ultimately show ?thesis by (simp add: parse_extra_headers_def)
qed

theorem headers_come_back_witness:
  "parse_extra_headers ''X-Team: a=core;X-Env=test'' = [(''X-Team: a'', ''core''), (''X-Env'', ''test'')]"
proof -
  have "\<forall>h\<in>set [(''X-Team: a'', ''core''), (''X-Env'', ''test'')]. plain_header h" by code_simp
  from headers_come_back[OF this, of "CHR 0x3B"] show ?thesis by (simp add: header_entry_def)
qed

subsection \<open>Which tool a name is\<close>

lemma register_all_get:
  "get_tool n (register_all ts reg)
   = (case map_of (rev ts) n of Some t \<Rightarrow> Some t | None \<Rightarrow> get_tool n reg)"
  unfolding register_all_def
  by (induction ts arbitrary: reg) (auto simp: get_tool_def register_tool_def map_add_def split: option.splits)

text \<open>
  C38. In a kernel built for production a name is the agent's own tool, else the built-in one, else the
  tool of the first server that offers it: no server takes the place of a tool of the program.
\<close>

theorem tool_precedence:
  assumes "build_kernel_from_config N env built_in agent_tools s True models w = (Inr K, models', w')"
  shows "get_tool n (k_registry (kernel_servers K))
         = (case map_of (rev agent_tools) n of
              Some t \<Rightarrow> Some t
            | None \<Rightarrow>
                (case map_of (rev built_in) n of
                   Some t \<Rightarrow> Some t
                 | None \<Rightarrow> map_option (mcp_tool N)
                             (find (\<lambda>e. def_name (snd e) = n)
                                (if set_servers s = [] then []
                                 else get_tools_with_server (k_manager (kernel_servers K))))))"
proof -
  let ?reg = "register_all built_in registry_new"
  obtain S0 S where S0: "k_registry S0 = ?reg" "k_servers S0 = set_servers s"
    "get_tools_with_server (k_manager S0) = []"
    and st: "start_mcp N S0 w = (Inr (), S, w')"
    and K: "k_registry (kernel_servers K) = register_all agent_tools (k_registry S)"
      "k_manager (kernel_servers K) = k_manager S"
  proof -
    obtain models1 reg where r: "register_providers env s (models, provider_registry_new) = (models1, reg)"
      by (metis surj_pair)
    define S0 where "S0 = kernel_servers (snd (kernel_new env built_in s models))"
    define S1 where "S1 = (case kernel_resolve_provider models1 (snd (kernel_new env built_in s models)) (set_model s) of
        Inr p \<Rightarrow> S0\<lparr>k_manager := set_sampling (k_manager S0)\<rparr> | Inl e \<Rightarrow> S0)"
    have S0: "k_registry S0 = ?reg" "k_servers S0 = set_servers s" "k_manager S0 = manager_new"
      by (simp_all add: S0_def kernel_new_def r)
    have "k_registry S1 = ?reg" "k_servers S1 = set_servers s" "get_tools_with_server (k_manager S1) = []"
      by (simp_all add: S1_def S0 manager_new_def set_sampling_def get_tools_with_server_def split: sum.split)
    moreover obtain S where "start_mcp N S1 w = (Inr (), S, w')"
      "k_registry (kernel_servers K) = register_all agent_tools (k_registry S)"
      "k_manager (kernel_servers K) = k_manager S"
      using assms
      by (auto simp: build_kernel_from_config_def kernel_new_def r Let_def S0_def S1_def
          split: prod.splits sum.splits)
    ultimately show ?thesis using that by blast
  qed
  have "get_tool n (k_registry S)
      = (case get_tool n ?reg of
           Some t \<Rightarrow> Some t
         | None \<Rightarrow> map_option (mcp_tool N) (find (\<lambda>e. def_name (snd e) = n)
                     (if set_servers s = [] then [] else get_tools_with_server (k_manager S))))"
    using start_mcp_registry[OF st, of n] S0 by simp
  then show ?thesis
    by (simp add: K register_all_get) (simp add: K registry_new_def get_tool_def split: option.split)
qed

definition own_tool :: "(nat mcp_manager \<times> unit) tool" where
  "own_tool = \<lparr>tool_permission = Read_only, tool_precheck = (\<lambda>_. None),
               tool_execute = (\<lambda>inp s. (Inl ''no'', s))\<rparr>"

definition served_settings :: settings where
  "served_settings = settings_default\<lparr>set_servers := two_servers\<rparr>"

lemma start_any_manager:
  "K = \<lparr>k_registry = reg, k_manager = m, k_servers = two_servers, k_instructions = [], k_resources = [], k_prompts = []\<rparr>
   \<Longrightarrow> m = manager_new \<or> m = set_sampling manager_new \<Longrightarrow> \<exists>K'. start_mcp small_net K () = (Inr (), K', ())"
proof -
  assume K: "K = \<lparr>k_registry = reg, k_manager = m, k_servers = two_servers, k_instructions = [], k_resources = [], k_prompts = []\<rparr>"
  have ne: "two_servers \<noteq> []" by (simp add: two_servers_def)
  have "\<exists>m'. start_all small_net two_servers m () = (Inr (), m', ())"
    by (simp add: start_all_def two_servers_def small_connect is_connected_def)
  then show ?thesis
    by (auto simp: start_mcp_def K ne split: prod.split)
qed

theorem tool_precedence_witness:
  "\<exists>K ms. build_kernel_from_config small_net (\<lambda>_. None) [] [(''hit'', own_tool)] served_settings True None ()
           = (Inr K, ms, ())
     \<and> get_tool ''hit'' (k_registry (kernel_servers K)) = Some own_tool"
proof -
  have srv: "set_servers served_settings = two_servers" by (simp add: served_settings_def)
  let ?S = "\<lambda>m. \<lparr>k_registry = register_all [] registry_new, k_manager = m, k_servers = two_servers, k_instructions = [],
      k_resources = [], k_prompts = []\<rparr> :: (nat, unit) mcp_kernel"
  obtain models reg where r: "register_providers (\<lambda>_. None) served_settings (None, provider_registry_new) = (models, reg)"
    by (metis surj_pair)
  obtain K1 where K1: "start_mcp small_net (?S manager_new) () = (Inr (), K1, ())"
    using start_any_manager[OF refl] by blast
  obtain K2 where K2: "start_mcp small_net (?S (set_sampling manager_new)) () = (Inr (), K2, ())"
    using start_any_manager[OF refl] by blast
  have "\<exists>K ms. build_kernel_from_config small_net (\<lambda>_. None) [] [(''hit'', own_tool)] served_settings True None ()
      = (Inr K, ms, ())"
    by (simp add: build_kernel_from_config_def kernel_new_def r srv Let_def K1 K2 split: sum.split)
  then obtain K ms where K: "build_kernel_from_config small_net (\<lambda>_. None) [] [(''hit'', own_tool)] served_settings True None ()
      = (Inr K, ms, ())" by blast
  have "get_tool ''hit'' (k_registry (kernel_servers K)) = Some own_tool"
    using tool_precedence[OF K, of "''hit''"] by simp
  with K show ?thesis by (intro exI[of _ K] exI[of _ ms] conjI)
qed

end
