(* ===== verification/Agent_Server.thy ===== *)
theory Agent_Server
  imports Agent_Hub Kernel_Setup
begin

section \<open>The server of an agent\<close>

text \<open>
  \<open>crates/loopal-agent-server\<close>: the clients of a session (\<open>session_hub.rs\<close>), the frontend that talks to
  them (\<open>hub_frontend.rs\<close>), the loop that starts sessions and forwards messages to them (\<open>server.rs\<close>,
  \<open>session_start.rs\<close>, \<open>session_forward.rs\<close>, \<open>interrupt_filter.rs\<close>), and what a session is set up with
  (\<open>agent_setup.rs\<close>). Connections are of any type; whether one takes a message is an argument.
\<close>

subsection \<open>The clients of a session\<close>

record 'c shared_client =
  client_id :: string
  client_conn :: 'c
  is_primary :: bool

datatype client_input = From_message envelope | From_control control_command | From_interrupt

text \<open>First client becomes primary.\<close>

definition add_client :: "string \<Rightarrow> 'c \<Rightarrow> 'c shared_client list \<Rightarrow> 'c shared_client list" where
  "add_client i k cs = cs @ [\<lparr>client_id = i, client_conn = k, is_primary = (cs = [])\<rparr>]"

fun promote_first :: "'c shared_client list \<Rightarrow> 'c shared_client list" where
  "promote_first [] = []"
| "promote_first (c # cs) = c\<lparr>is_primary := True\<rparr> # cs"

definition remove_client :: "string \<Rightarrow> 'c shared_client list \<Rightarrow> 'c shared_client list" where
  "remove_client i cs =
     (let was_primary = (case find (\<lambda>c. client_id c = i) cs of Some c \<Rightarrow> is_primary c | None \<Rightarrow> False);
          rest = filter (\<lambda>c. client_id c \<noteq> i) cs
      in if was_primary then promote_first rest else rest)"

definition primary_connection :: "'c shared_client list \<Rightarrow> 'c option" where
  "primary_connection cs = map_option client_conn (find is_primary cs)"

definition all_connections :: "'c shared_client list \<Rightarrow> 'c list" where
  "all_connections cs = map client_conn cs"

definition drop_client_at :: "nat \<Rightarrow> 'c shared_client list \<Rightarrow> 'c shared_client list" where
  "drop_client_at i cs = (if i < length cs then take i cs @ drop (Suc i) cs else cs)"

definition remove_dead_connections :: "nat list \<Rightarrow> 'c shared_client list \<Rightarrow> 'c shared_client list" where
  "remove_dead_connections dead cs =
     (let cs = fold drop_client_at (rev dead) cs
      in if list_ex is_primary cs then cs else promote_first cs)"

text \<open>The two halves of sending an event: who is dead is found on a copy of the list.\<close>

definition dead_clients :: "('c \<Rightarrow> bool) \<Rightarrow> 'c shared_client list \<Rightarrow> nat list" where
  "dead_clients takes cs = filter (\<lambda>i. \<not> takes (all_connections cs ! i)) [0..<length cs]"

definition emit_to_clients :: "('c \<Rightarrow> bool) \<Rightarrow> 'c shared_client list \<Rightarrow> 'c shared_client list" where
  "emit_to_clients takes cs =
     (let dead = dead_clients takes cs
      in if dead \<noteq> [] then remove_dead_connections dead cs else cs)"

subsection \<open>The frontend\<close>

text \<open>\<open>asked\<close> is what a request to a client comes to: an error's text or the answer.\<close>

definition allowed_by :: "string + json \<Rightarrow> permission_decision" where
  "allowed_by a =
     (case a of
        Inr v \<Rightarrow> if (case Option.bind (jget v ''allow'') as_bool of Some b \<Rightarrow> b | None \<Rightarrow> False)
                 then Decide_allow else Decide_deny
      | Inl e \<Rightarrow> Decide_deny)"

definition permission_params :: "string \<Rightarrow> string \<Rightarrow> json \<Rightarrow> json" where
  "permission_params i n inp =
     JObj [(''tool_call_id'', JStr i), (''tool_name'', JStr n), (''tool_input'', inp)]"

definition hub_request_permission ::
  "('c \<Rightarrow> string \<Rightarrow> json \<Rightarrow> string + json) \<Rightarrow> 'c shared_client list \<Rightarrow> string \<Rightarrow> string \<Rightarrow> json
   \<Rightarrow> permission_decision" where
  "hub_request_permission asked cs i n inp =
     (case primary_connection cs of
        None \<Rightarrow> Decide_deny
      | Some k \<Rightarrow> allowed_by (asked k ''agent/permission'' (permission_params i n inp)))"

definition answers_of :: "string \<Rightarrow> (json \<Rightarrow> string list option) \<Rightarrow> string + json \<Rightarrow> string list" where
  "answers_of unread read a =
     (case a of
        Inr v \<Rightarrow> (case read v of Some xs \<Rightarrow> xs | None \<Rightarrow> [unread])
      | Inl e \<Rightarrow> [''(IPC error)''])"

definition hub_ask_user ::
  "('c \<Rightarrow> string \<Rightarrow> json \<Rightarrow> string + json) \<Rightarrow> (json \<Rightarrow> string list option) \<Rightarrow> (question list \<Rightarrow> json)
   \<Rightarrow> 'c shared_client list \<Rightarrow> question list \<Rightarrow> string list" where
  "hub_ask_user asked read questions_json cs qs =
     (case primary_connection cs of
        None \<Rightarrow> [''(no primary client)'']
      | Some k \<Rightarrow>
          answers_of ''(parse error)'' read
            (asked k ''agent/question'' (JObj [(''questions'', questions_json qs)])))"

text \<open>What wakes the agent that waits for input; an interrupt, or the end of the inputs, gives \<open>None\<close>.\<close>

datatype wake = Woken_by client_input | Woken_interrupt | Inputs_closed

fun hub_recv_input :: "wake list \<Rightarrow> client_input option \<times> wake list" where
  "hub_recv_input [] = (None, [])"
| "hub_recv_input (Woken_by From_interrupt # ws) = hub_recv_input ws"
| "hub_recv_input (Woken_by x # ws) = (Some x, ws)"
| "hub_recv_input (Woken_interrupt # ws) = (None, ws)"
| "hub_recv_input (Inputs_closed # ws) = (None, ws)"

text \<open>
  The frontend of one connection. The filter takes the interrupts out before it; a request that
  cannot be read is answered with an error and the wait goes on.
\<close>

definition is_interrupt :: "incoming \<Rightarrow> bool" where
  "is_interrupt m = (case m of In_notification n p \<Rightarrow> n = ''agent/interrupt'' | In_request i n p \<Rightarrow> False)"

fun interrupt_filter :: "incoming list \<Rightarrow> nat \<times> incoming list" where
  "interrupt_filter [] = (0, [])"
| "interrupt_filter (m # ms) =
     (case interrupt_filter ms of (n, rest) \<Rightarrow> if is_interrupt m then (Suc n, rest) else (n, m # rest))"

record wire_readers =
  wire_envelope :: "json \<Rightarrow> string + envelope"
  wire_control :: "json \<Rightarrow> string + control_command"

definition read_input :: "wire_readers \<Rightarrow> int \<Rightarrow> string \<Rightarrow> json \<Rightarrow> reply \<times> client_input option" where
  "read_input R i m p =
     (if m = ''agent/message'' then
        (case wire_envelope R p of
           Inr e \<Rightarrow> (Reply i ok_json, Some (From_message e))
         | Inl t \<Rightarrow> (Reply_error i INVALID_REQUEST t, None))
      else if m = ''agent/control'' then
        (case wire_control R p of
           Inr c \<Rightarrow> (Reply i ok_json, Some (From_control c))
         | Inl t \<Rightarrow> (Reply_error i INVALID_REQUEST t, None))
      else (Reply_error i METHOD_NOT_FOUND (''unknown: '' @ m), None))"

fun ipc_recv_input :: "wire_readers \<Rightarrow> incoming list \<Rightarrow> reply list \<times> client_input option \<times> incoming list" where
  "ipc_recv_input R [] = ([], None, [])"
| "ipc_recv_input R (In_notification m p # ms) = ipc_recv_input R ms"
| "ipc_recv_input R (In_request i m p # ms) =
     (case read_input R i m p of
        (r, Some x) \<Rightarrow> ([r], Some x, ms)
      | (r, None) \<Rightarrow> apfst (Cons r) (ipc_recv_input R ms))"

subsection \<open>Setting a session up\<close>

record start_request = start_params +
  start_cwd :: "string option"
  start_mode :: "string option"
  start_prompt :: "string option"
  start_resume :: "string option"

definition read_start :: "json \<Rightarrow> start_request" where
  "read_start p =
     \<lparr>start_model = as_str (jindex p ''model''), start_permission = as_str (jindex p ''permission_mode''),
      no_sandbox = (case as_bool (jindex p ''no_sandbox'') of Some b \<Rightarrow> b | None \<Rightarrow> False),
      start_cwd = as_str (jindex p ''cwd''), start_mode = as_str (jindex p ''mode''),
      start_prompt = as_str (jindex p ''prompt''), start_resume = as_str (jindex p ''resume'')\<rparr>"

definition mode_of_start :: "string option \<Rightarrow> agent_mode \<times> string" where
  "mode_of_start m = (if m = Some ''plan'' then (Plan, ''plan'') else (Act, ''act''))"

definition SCHEDULER_PROMPT :: string where
  "SCHEDULER_PROMPT =
     [NL, NL] @ ''# Scheduled Messages'' @ [NL]
     @ ''Messages prefixed with `[scheduled]` are injected by the cron scheduler, ''
     @ ''not typed by the user. Treat them as automated prompts and execute the ''
     @ ''requested action without asking for confirmation. ''
     @ ''Use CronCreate/CronDelete/CronList tools to manage scheduled jobs.''"

definition server_notes ::
  "(string \<times> string) list \<Rightarrow> (string \<times> mcp_resource) list \<Rightarrow> (string \<times> mcp_prompt) list \<Rightarrow> string" where
  "server_notes instrs rs ps =
     (if instrs = [] then []
      else [NL, NL] @ ''# MCP Server Instructions'' @ [NL]
           @ concat (map (\<lambda>(n, t). [NL] @ ''## '' @ n @ [NL] @ t @ [NL]) instrs))
     @ SCHEDULER_PROMPT
     @ (if rs = [] then []
        else [NL, NL] @ ''# Available MCP Resources'' @ [NL]
             @ concat (map (\<lambda>(s, r). [NL] @ ''- `'' @ res_uri r @ ''` ('' @ s @ ''): ''
                                    @ (case res_description r of Some d \<Rightarrow> d | None \<Rightarrow> [])) rs))
     @ (if ps = [] then []
        else [NL, NL] @ ''# Available MCP Prompts'' @ [NL]
             @ concat (map (\<lambda>(s, p). [NL] @ ''- `'' @ prompt_name p @ ''` ('' @ s @ ''): ''
                                    @ (case prompt_description p of Some d \<Rightarrow> d | None \<Rightarrow> [])) ps))"

text \<open>
  What the session is given of all this: \<open>built\<close> is the prompt that \<open>build_system_prompt\<close> assembles,
  \<open>resumed\<close> the messages of a session that is resumed.
\<close>

record session_setup =
  setup_router :: model_router
  setup_mode :: agent_mode
  setup_permission :: permission_mode
  setup_prompt :: string
  setup_messages :: "message list"
  setup_budget :: context_budget
  setup_max_turns :: u32
  setup_thinking :: thinking_config
  setup_cap :: u32
  setup_memory :: bool
  setup_classifier :: "(string \<times> string) option"

definition build_initial_budget ::
  "(string \<Rightarrow> nat) \<Rightarrow> user_models \<Rightarrow> string \<Rightarrow> u32 \<Rightarrow> string \<Rightarrow> u32 \<Rightarrow> context_budget" where
  "build_initial_budget bpe own m cap prompt tools =
     build_budget bpe (config_from_model own m Thinking_auto cap) prompt tools"

definition build_session ::
  "(string \<Rightarrow> nat) \<Rightarrow> (json \<Rightarrow> string) \<Rightarrow> user_models \<Rightarrow> tool_definition list \<Rightarrow> string \<Rightarrow> resolved_config \<Rightarrow> start_request \<Rightarrow> ('c, 'w) mcp_kernel \<Rightarrow> string \<Rightarrow> message list
   \<Rightarrow> session_setup" where
  "build_session bpe render own defs cwd config st K built resumed =
     (let s = rc_settings config;
          router = router_from_parts (set_model s) (set_routing s);
          prompt = built @ server_notes (k_instructions K) (k_resources K) (k_prompts K)
      in \<lparr>setup_router = router,
          setup_mode = fst (mode_of_start (start_mode st)),
          setup_permission = set_permission s,
          setup_prompt = prompt,
          setup_messages =
            resumed @ (case start_prompt st of Some t \<Rightarrow> [message_user t] | None \<Rightarrow> []),
          setup_budget =
            build_initial_budget bpe own (resolve_task router Default_task) (set_context_cap s) prompt
              (estimate_tool_tokens bpe render defs),
          setup_max_turns = set_max_turns s, setup_thinking = set_thinking s,
          setup_cap = set_context_cap s,
          setup_memory = (start_prompt st = None \<and> memory_enabled s),
          setup_classifier =
            (if set_permission s = Auto then Some (rc_instructions config, cwd) else None)\<rparr>)"

subsection \<open>The loop of the server\<close>

text \<open>
  What the server does, in order. An interrupt of a session sets its flag; only some also wake the
  agent that waits for input.
\<close>

datatype served =
    Opened string
  | Closed_session string
  | Told string client_input
  | Interrupted string bool
  | Answered_with reply
  | Completed_note

text \<open>One message while a session is active, other than a new start.\<close>

definition route_request :: "wire_readers \<Rightarrow> string \<Rightarrow> int \<Rightarrow> string \<Rightarrow> json \<Rightarrow> served list" where
  "route_request R sid i m p =
     (if m = ''agent/shutdown'' then [Interrupted sid False, Answered_with (Reply i ok_json)]
      else case read_input R i m p of
             (r, Some x) \<Rightarrow> [Told sid x, Answered_with r]
           | (r, None) \<Rightarrow> [Answered_with r])"

definition forward_one :: "wire_readers \<Rightarrow> string \<Rightarrow> incoming \<Rightarrow> served list" where
  "forward_one R sid m =
     (case m of
        In_request i n p \<Rightarrow> route_request R sid i n p
      | In_notification n p \<Rightarrow> if n = ''agent/interrupt'' then [Interrupted sid True] else [])"

text \<open>
  \<open>starting\<close> is what setting a session up comes to, an error or the session's identifier; \<open>lasts\<close>
  says after how many of its messages the agent of the \<open>n\<close>-th session ends by itself. A new start
  interrupts the agent and waits for it.
\<close>

record server_outside =
  readers :: wire_readers
  starting :: "nat \<Rightarrow> json \<Rightarrow> string + string"
  lasts :: "nat \<Rightarrow> nat option"

datatype phase = Idle | Active nat string bool nat

definition session_list :: "string list \<Rightarrow> json" where
  "session_list ids = JArr (map (\<lambda>i. JObj [(''session_id'', JStr i)]) ids)"

definition opened :: "int \<Rightarrow> string \<Rightarrow> served list" where
  "opened i sid = [Opened sid, Answered_with (Reply i (JObj [(''session_id'', JStr sid)]))]"

text \<open>The registry of sessions, by their identifiers.\<close>

definition register_session :: "string \<Rightarrow> string list \<Rightarrow> string list" where
  "register_session sid hub = hub @ [sid]"

definition remove_session :: "string \<Rightarrow> string list \<Rightarrow> string list" where
  "remove_session sid hub = filter (\<lambda>x. x \<noteq> sid) hub"

function serve ::
  "server_outside \<Rightarrow> nat \<Rightarrow> string list \<Rightarrow> phase \<Rightarrow> incoming list \<Rightarrow> served list \<times> (string + unit)" where
  "serve B k hub Idle [] = ([Completed_note], Inr ())"
| "serve B k hub Idle (In_notification m p # ms) = serve B k hub Idle ms"
| "serve B k hub Idle (In_request i m p # ms) =
     (if m = ''agent/start'' then
        (case starting B k p of
           Inl e \<Rightarrow> ([], Inl e)
         | Inr sid \<Rightarrow>
             apfst (\<lambda>t. opened i sid @ t)
               (serve B (Suc k) (register_session sid hub)
                 (Active k sid (start_prompt (read_start p) \<noteq> None) 0) ms))
      else if m = ''agent/shutdown'' then ([Answered_with (Reply i ok_json), Completed_note], Inr ())
      else if m = ''agent/list'' then
        apfst (Cons (Answered_with (Reply i (session_list hub)))) (serve B k hub Idle ms)
      else
        apfst (Cons (Answered_with (Reply_error i METHOD_NOT_FOUND ''expected agent/start'')))
          (serve B k hub Idle ms))"
| "serve B k hub (Active n sid prompted done) [] =
     apfst (Cons (Closed_session sid))
       (if prompted then ([Completed_note], Inr ()) else serve B k (remove_session sid hub) Idle [])"
| "serve B k hub (Active n sid prompted done) (m # ms) =
     (if lasts B n = Some done then
        apfst (Cons (Closed_session sid))
          (if prompted then ([Completed_note], Inr ())
           else serve B k (remove_session sid hub) Idle (m # ms))
      else case m of
             In_request i nm p \<Rightarrow>
               (if nm = ''agent/start'' then
                  (case starting B k p of
                     Inl e \<Rightarrow> ([Interrupted sid True, Closed_session sid], Inl e)
                   | Inr sid' \<Rightarrow>
                       apfst (\<lambda>t. [Interrupted sid True, Closed_session sid] @ opened i sid' @ t)
                         (serve B (Suc k) (register_session sid' (remove_session sid hub))
                           (Active k sid' (start_prompt (read_start p) \<noteq> None) 0) ms))
                else apfst (\<lambda>t. forward_one (readers B) sid m @ t)
                       (serve B k hub (Active n sid prompted (Suc done)) ms))
           | In_notification nm p \<Rightarrow>
               apfst (\<lambda>t. forward_one (readers B) sid m @ t)
                 (serve B k hub (Active n sid prompted (Suc done)) ms))"
  by pat_completeness auto
termination
  by (relation "measure (\<lambda>(B, k, hub, ph, ms). 2 * length ms + (case ph of Idle \<Rightarrow> 0 | Active _ _ _ _ \<Rightarrow> 1))") auto

text \<open>Before anything else, \<open>initialize\<close>; \<open>version\<close> is the crate's.\<close>

definition initialize_result :: "string \<Rightarrow> json" where
  "initialize_result version =
     JObj [(''protocol_version'', JInt 1),
           (''agent_info'', JObj [(''name'', JStr ''loopal''), (''version'', JStr version)])]"

fun wait_for_initialize ::
  "string \<Rightarrow> string option \<Rightarrow> incoming list \<Rightarrow> reply list \<times> (string + incoming list)" where
  "wait_for_initialize version token [] = ([], Inl ''connection closed before initialize'')"
| "wait_for_initialize version token (In_notification m p # ms) = wait_for_initialize version token ms"
| "wait_for_initialize version token (In_request i m p # ms) =
     (if m = ''initialize'' then
        (if token \<noteq> None \<and> Option.bind (jget p ''token'') as_str \<noteq> token
         then ([Reply_error i INVALID_REQUEST ''invalid token''], Inl ''invalid token'')
         else ([Reply i (initialize_result version)], Inr ms))
      else apfst (Cons (Reply_error i INVALID_REQUEST ''expected initialize first''))
             (wait_for_initialize version token ms))"

definition run_connection ::
  "string \<Rightarrow> server_outside \<Rightarrow> incoming list \<Rightarrow> served list \<times> (string + unit)" where
  "run_connection version B ms =
     (case wait_for_initialize version None ms of
        (rs, Inl e) \<Rightarrow> (map Answered_with rs, Inl e)
      | (rs, Inr ms) \<Rightarrow> apfst (\<lambda>t. map Answered_with rs @ t) (serve B 0 [] Idle ms))"

subsection \<open>One primary client\<close>

text \<open>The primary client is the first, and no other is.\<close>

fun one_primary :: "'c shared_client list \<Rightarrow> bool" where
  "one_primary [] = True"
| "one_primary (c # cs) = (is_primary c \<and> list_all (\<lambda>d. \<not> is_primary d) cs)"

datatype 'c client_op = Join string 'c | Leave string | Drop_dead "nat list"

fun client_step :: "'c client_op \<Rightarrow> 'c shared_client list \<Rightarrow> 'c shared_client list" where
  "client_step (Join i k) cs = add_client i k cs"
| "client_step (Leave i) cs = remove_client i cs"
| "client_step (Drop_dead dead) cs = remove_dead_connections dead cs"

text \<open>No client but the first can be primary: what every removal keeps.\<close>

definition only_head :: "'c shared_client list \<Rightarrow> bool" where
  "only_head cs = list_all (\<lambda>d. \<not> is_primary d) (tl cs)"

lemma one_primary_iff: "one_primary cs \<longleftrightarrow> only_head cs \<and> (cs \<noteq> [] \<longrightarrow> is_primary (hd cs))"
  by (cases cs) (auto simp: only_head_def)

lemma promote_one: "only_head cs \<Longrightarrow> one_primary (promote_first cs)"
  by (cases cs) (auto simp: only_head_def)

lemma only_head_sub: "only_head cs \<Longrightarrow> set (tl ds) \<subseteq> set (tl cs) \<Longrightarrow> only_head ds"
  by (auto simp: only_head_def list_all_iff)

lemma in_tl: "x \<in> set (tl xs) \<Longrightarrow> x \<in> set xs"
  by (cases xs) auto

lemma drop_client_at_tl: "set (tl (drop_client_at i cs)) \<subseteq> set (tl cs)"
  by (cases cs; cases i) (auto simp: drop_client_at_def dest: in_set_takeD in_set_dropD in_tl)

lemma remove_all_only_head: "only_head cs \<Longrightarrow> only_head (fold drop_client_at ks cs)"
  by (induction ks arbitrary: cs) (auto intro: only_head_sub[OF _ drop_client_at_tl])

lemma list_ex_primary: "only_head cs \<Longrightarrow> list_ex is_primary cs \<longleftrightarrow> cs \<noteq> [] \<and> is_primary (hd cs)"
  by (cases cs) (auto simp: only_head_def list_all_iff list_ex_iff)

lemma client_step_ok: "one_primary cs \<Longrightarrow> one_primary (client_step op cs)"
proof (cases op)
  case (Join i k)
  then show "one_primary cs \<Longrightarrow> ?thesis" by (cases cs) (auto simp: add_client_def)
next
  case (Leave i)
  assume one: "one_primary cs"
  show ?thesis
  proof (cases cs)
    case c: (Cons c rest)
    have none: "only_head (filter (\<lambda>c. client_id c \<noteq> i) rest)" "list_all (\<lambda>d. \<not> is_primary d) rest"
      using one by (auto simp: c only_head_def list_all_iff dest!: in_tl)
    show ?thesis
      using one none
      by (auto simp: Leave c remove_client_def Let_def list_all_iff promote_one find_None_iff find_Some_iff
          split: option.splits)
  qed (simp add: Leave remove_client_def)
next
  case (Drop_dead dead)
  assume one: "one_primary cs"
  then have "only_head (fold drop_client_at (rev dead) cs)"
    by (intro remove_all_only_head) (simp add: one_primary_iff)
  then show ?thesis
    using promote_one list_ex_primary one_primary_iff
    by (auto simp: Drop_dead remove_dead_connections_def Let_def)
qed

interpretation clients: op_system client_step one_primary "[]"
  by unfold_locales (auto intro: client_step_ok)

subsection \<open>Properties of the server\<close>

text \<open>
  However clients join, leave and are dropped, permissions and questions go to the client that is
  there longest: it is the primary one and no other is.
\<close>

theorem longest_client_is_asked:
  "primary_connection (run_ops client_step ops []) = map_option client_conn (find (\<lambda>_. True) (run_ops client_step ops []))
   \<and> length (filter is_primary (run_ops client_step ops [])) = (if run_ops client_step ops [] = [] then 0 else 1)"
proof -
  have "one_primary (run_ops client_step ops [])" by (rule clients.inv_reached)
  then show ?thesis
    by (cases "run_ops client_step ops []") (auto simp: primary_connection_def list_all_iff filter_empty_conv)
qed

text \<open>
  The dead are found on a copy of the list of clients: when the first leaves between the two halves,
  the place it had is taken by a client that is alive, and that one is dropped.
\<close>

lemma live_client_dropped:
  "remove_dead_connections (dead_clients (\<lambda>k. k \<noteq> 1) (run_ops client_step [Join ''a'' (1::nat), Join ''b'' 2] []))
     (run_ops client_step [Join ''a'' 1, Join ''b'' 2, Leave ''a''] []) = []"
  by (simp add: dead_clients_def all_connections_def add_client_def remove_client_def remove_dead_connections_def
      drop_client_at_def upt_rec)

fun reply_id :: "reply \<Rightarrow> int" where
  "reply_id (Reply i v) = i"
| "reply_id (Reply_error i c t) = i"
| "reply_id (Reply_when i w) = i"
| "reply_id (Relay i m p) = i"

fun answered_requests :: "served list \<Rightarrow> int list" where
  "answered_requests [] = []"
| "answered_requests (Answered_with r # t) = reply_id r # answered_requests t"
| "answered_requests (_ # t) = answered_requests t"

fun requests :: "incoming list \<Rightarrow> (int \<times> string) list" where
  "requests [] = []"
| "requests (In_request i m p # ms) = (i, m) # requests ms"
| "requests (In_notification m p # ms) = requests ms"

text \<open>One session at a time, and what is told or interrupted is the one that is open.\<close>

fun one_session :: "string option \<Rightarrow> served list \<Rightarrow> bool" where
  "one_session cur [] = True"
| "one_session cur (Opened s # t) = (cur = None \<and> one_session (Some s) t)"
| "one_session cur (Closed_session s # t) = (cur = Some s \<and> one_session None t)"
| "one_session cur (Told s x # t) = (cur = Some s \<and> one_session cur t)"
| "one_session cur (Interrupted s b # t) = (cur = Some s \<and> one_session cur t)"
| "one_session cur (_ # t) = one_session cur t"

definition session_of :: "phase \<Rightarrow> string option" where
  "session_of ph = (case ph of Idle \<Rightarrow> None | Active n sid prompted done \<Rightarrow> Some sid)"

lemma answered_append [simp]: "answered_requests (s @ t) = answered_requests s @ answered_requests t"
  by (induction s rule: answered_requests.induct) auto

lemma read_input_id: "reply_id (fst (read_input R i m p)) = i"
  by (auto simp: read_input_def split: sum.split)

lemma answered_forward:
  "answered_requests (forward_one R sid (In_request i m p)) = [i]" "answered_requests (forward_one R sid (In_notification m p)) = []"
  using read_input_id[of R i m p]
  by (auto simp: forward_one_def route_request_def split: prod.split option.split)

lemma one_session_forward: "one_session (Some sid) (forward_one R sid m @ t) = one_session (Some sid) t"
  by (auto simp: forward_one_def route_request_def split: incoming.split prod.split option.split)

text \<open>
  The requests answered are those that arrived, in order and each once, up to where the server ends;
  where it ends with an error the next one is a start.
\<close>

definition handled :: "incoming list \<Rightarrow> served list \<Rightarrow> string + unit \<Rightarrow> bool" where
  "handled ms t r =
     (\<exists>ds rest. requests ms = ds @ rest \<and> map fst ds = answered_requests t
        \<and> (case r of
             Inl e \<Rightarrow> (\<exists>i rest'. rest = (i, ''agent/start'') # rest')
           | Inr _ \<Rightarrow> t \<noteq> [] \<and> last t = Completed_note))"

lemma handled_request: "handled ms t r \<Longrightarrow> answered_requests pre = [i] \<Longrightarrow> handled (In_request i m p # ms) (pre @ t) r"
  unfolding handled_def
proof -
  assume pre: "answered_requests pre = [i]"
  assume "\<exists>ds rest. requests ms = ds @ rest \<and> map fst ds = answered_requests t
      \<and> (case r of Inl e \<Rightarrow> \<exists>i rest'. rest = (i, ''agent/start'') # rest' | Inr _ \<Rightarrow> t \<noteq> [] \<and> last t = Completed_note)"
  then obtain ds rest where "requests ms = ds @ rest" "map fst ds = answered_requests t"
    "case r of Inl e \<Rightarrow> \<exists>i rest'. rest = (i, ''agent/start'') # rest' | Inr _ \<Rightarrow> t \<noteq> [] \<and> last t = Completed_note"
    by blast
  then show "\<exists>ds rest. requests (In_request i m p # ms) = ds @ rest \<and> map fst ds = answered_requests (pre @ t)
      \<and> (case r of Inl e \<Rightarrow> \<exists>i rest'. rest = (i, ''agent/start'') # rest'
         | Inr _ \<Rightarrow> pre @ t \<noteq> [] \<and> last (pre @ t) = Completed_note)"
    using pre by (intro exI[of _ "(i, m) # ds"] exI[of _ rest]) (auto split: sum.split)
qed

lemma handled_silent: "handled ms t r \<Longrightarrow> answered_requests pre = [] \<Longrightarrow> handled ms (pre @ t) r"
  by (cases r) (fastforce simp: handled_def)+

lemma handled_notification: "handled (In_notification m p # ms) t r = handled ms t r"
  by (simp add: handled_def)

lemma handled_end:
  "handled ms [Closed_session s, Completed_note] (Inr ())" "handled ms [Completed_note] (Inr ())"
  "answered_requests pre = [] \<Longrightarrow> handled (In_request i ''agent/start'' p # ms) pre (Inl e)"
  by (auto simp: handled_def)

lemma apfst_eq: "apfst f x = (f (fst x), snd x)"
  by (cases x) simp

lemma serve_handled: "handled ms (fst (serve B k hub ph ms)) (snd (serve B k hub ph ms))"
proof (induction B k hub ph ms rule: serve.induct)
  case (3 B k hub i m p ms)
  consider (go) sid where "m = ''agent/start''" "starting B k p = Inr sid"
    | (bad) e where "m = ''agent/start''" "starting B k p = Inl e"
    | (down) "m = ''agent/shutdown''" | (lst) "m = ''agent/list''"
    | (other) "m \<noteq> ''agent/start''" "m \<noteq> ''agent/shutdown''" "m \<noteq> ''agent/list''"
    by (cases "starting B k p") blast+
  then show ?case
  proof cases
    case go
    then show ?thesis
      using handled_request[OF 3(1), of sid "opened i sid"] by (simp add: apfst_eq opened_def)
  next
    case down
    then show ?thesis
      using handled_request[OF handled_end(2)[of ms], of "[Answered_with (Reply i ok_json)]" i] by simp
  next
    case lst
    then show ?thesis
      using handled_request[OF 3(2), of "[Answered_with (Reply i (session_list hub))]" i] by (simp add: apfst_eq)
  next
    case other
    then show ?thesis
      using handled_request[OF 3(3), of "[Answered_with (Reply_error i METHOD_NOT_FOUND ''expected agent/start'')]" i]
      by (simp add: apfst_eq)
  qed (simp add: handled_end)
next
  case (4 B k hub n sid prompted don)
  then show ?case
    using handled_silent[OF 4, of "[Closed_session sid]"] by (simp add: apfst_eq handled_end)
next
  case (5 B k hub n sid prompted don m ms)
  show ?case
  proof (cases "lasts B n = Some don")
    case True
    then show ?thesis
      using handled_silent[OF 5(1), of "[Closed_session sid]"] by (simp add: apfst_eq handled_end)
  next
    case False
    show ?thesis
    proof (cases m)
      case m: (In_request i nm p)
      show ?thesis
      proof (cases "nm = ''agent/start''")
        case True
        show ?thesis
        proof (cases "starting B k p")
          case (Inl e)
          then show ?thesis using False True m by (simp add: handled_end)
        next
          case (Inr sid')
          then show ?thesis
            using handled_request[OF 5(2)[OF False m True Inr],
                of "[Interrupted sid True, Closed_session sid] @ opened i sid'" i]
            using False True m by (simp add: apfst_eq opened_def)
        qed
      next
        case other: False
        then show ?thesis
          using handled_request[OF 5(3)[OF False m other], of "forward_one (readers B) sid m" i] False m
          by (simp add: apfst_eq answered_forward)
      qed
    next
      case m: (In_notification nm p)
      then show ?thesis
        using handled_silent[OF 5(4)[OF False m], of "forward_one (readers B) sid m"] False
        by (simp add: apfst_eq answered_forward handled_notification)
    qed
  qed
qed (simp_all add: handled_end handled_notification)

lemma serve_one_session: "one_session (session_of ph) (fst (serve B k hub ph ms))"
  by (induction B k hub ph ms rule: serve.induct)
     (auto simp: session_of_def opened_def apfst_eq one_session_forward split: sum.split incoming.split)

text \<open>
  C34. The server answers every request once and in the order of arrival until it ends, which it does
  with the note of completion, or with an error at a start that it leaves unanswered; and at any time
  at most one session is open, the one whose agent gets the messages and interrupts.
\<close>

theorem server_answers_in_order:
  "one_session None (fst (serve B k [] Idle ms))
   \<and> (\<exists>ds rest. requests ms = ds @ rest \<and> map fst ds = answered_requests (fst (serve B k [] Idle ms))
        \<and> (case snd (serve B k [] Idle ms) of
             Inl e \<Rightarrow> (\<exists>i rest'. rest = (i, ''agent/start'') # rest')
           | Inr _ \<Rightarrow> last (fst (serve B k [] Idle ms)) = Completed_note))"
proof -
  obtain ds rest where "requests ms = ds @ rest" "map fst ds = answered_requests (fst (serve B k [] Idle ms))"
    "case snd (serve B k [] Idle ms) of
       Inl e \<Rightarrow> \<exists>i rest'. rest = (i, ''agent/start'') # rest'
     | Inr _ \<Rightarrow> last (fst (serve B k [] Idle ms)) = Completed_note"
    using serve_handled[of ms B k "[]" Idle] unfolding handled_def
    by (cases "snd (serve B k [] Idle ms)") fastforce+
  moreover have "one_session None (fst (serve B k [] Idle ms))"
    using serve_one_session[of Idle B k "[]" ms] by (simp add: session_of_def)
  ultimately show ?thesis by blast
qed

text \<open>A shutdown while a session is open neither ends the server nor wakes an agent that waits.\<close>

lemma shutdown_keeps_serving:
  "serve \<lparr>readers = R, starting = (\<lambda>n p. Inr ''s''), lasts = (\<lambda>n. None)\<rparr> 0 [] Idle
     [In_request 1 ''agent/start'' (JObj []), In_request 2 ''agent/shutdown'' JNull,
      In_request 3 ''agent/shutdown'' JNull]
   = (opened 1 ''s'' @ [Interrupted ''s'' False, Answered_with (Reply 2 ok_json),
        Interrupted ''s'' False, Answered_with (Reply 3 ok_json), Closed_session ''s'', Completed_note], Inr ())"
  by (simp add: opened_def forward_one_def route_request_def read_start_def jindex_def register_session_def
      remove_session_def)

text \<open>Sessions are listed only while none is open: a list that is answered is empty.\<close>

definition lists_nothing :: "served \<Rightarrow> bool" where
  "lists_nothing x = (case x of Answered_with (Reply i (JArr vs)) \<Rightarrow> vs = [] | _ \<Rightarrow> True)"

definition registered :: "phase \<Rightarrow> string list" where
  "registered ph = (case ph of Idle \<Rightarrow> [] | Active n sid prompted don \<Rightarrow> [sid])"

lemma forward_lists_nothing: "list_all lists_nothing (forward_one R sid m)"
  by (auto simp: forward_one_def route_request_def read_input_def lists_nothing_def ok_json_def
      split: incoming.split prod.split option.split sum.split)

lemma lists_nothing_json:
  "lists_nothing (Answered_with (Reply i ok_json))" "lists_nothing (Answered_with (Reply_error i c t))"
  "lists_nothing (Answered_with (Reply i (JObj m)))" "lists_nothing (Answered_with (Reply i (JArr [])))"
  "lists_nothing (Opened s)" "lists_nothing (Closed_session s)" "lists_nothing (Interrupted s b)"
  "lists_nothing Completed_note"
  by (simp_all add: lists_nothing_def ok_json_def)

lemma list_is_empty: "hub = registered ph \<Longrightarrow> list_all lists_nothing (fst (serve B k hub ph ms))"
  by (induction B k hub ph ms rule: serve.induct)
     (auto simp: registered_def lists_nothing_json opened_def apfst_eq register_session_def remove_session_def
       session_list_def forward_lists_nothing list_all_append
       split: sum.split incoming.split)

end
