(* ===== verification/Acp.thy ===== *)
theory Acp
  imports Json_Rpc Event Rust_Str "HOL-Library.Sublist"
begin

section \<open>The adapter for editors\<close>

text \<open>
  \<open>crates/loopal-acp\<close> and \<open>crates/loopal-agent-hub/src/hub_ui_client.rs\<close>: an editor (IDE) that speaks
  the Agent Client Protocol on standard input and output is a user interface of the hub. The values of
  the protocol's schema library are the constructors that the code calls; how the library reads and
  prints them, the hub's answers and the drawn session identifiers are arguments.
\<close>

subsection \<open>Values of the schema\<close>

datatype tool_kind = Kind_read | Kind_edit | Kind_execute | Kind_fetch | Kind_move | Kind_switch_mode | Kind_other

datatype update_status = Status_pending | Status_in_progress | Status_completed | Status_failed

datatype session_update =
    Message_chunk string
  | Thought_chunk string
  | Current_mode string
  | Tool_announced (announced_id: string) (announced_title: string) (announced_kind: tool_kind)
      (announced_status: update_status)
  | Tool_updated string update_status json

datatype prompt_stop = End_turn | Max_turn_requests

datatype acp_result =
    Initialized bool string string
  | New_session string
  | Prompt_ended prompt_stop
  | Plain json

text \<open>\<open>make_init_response\<close>: no loading of sessions, the name and the version of the crate.\<close>

definition make_init_response :: "string \<Rightarrow> acp_result" where
  "make_init_response version = Initialized False ''loopal'' version"

definition map_tool_kind :: "string \<Rightarrow> tool_kind" where
  "map_tool_kind n =
     (if n \<in> {''Read'', ''Glob'', ''Grep'', ''Ls''} then Kind_read
      else if n \<in> {''Write'', ''Edit'', ''MultiEdit'', ''ApplyPatch'', ''Diff''} then Kind_edit
      else if n \<in> {''Bash'', ''Background''} then Kind_execute
      else if n \<in> {''WebFetch'', ''WebSearch''} then Kind_fetch
      else if n = ''FileOps'' then Kind_move
      else if n = ''PlanMode'' then Kind_switch_mode
      else Kind_other)"

subsection \<open>Translation of events\<close>

datatype acp_notification = Session_update string session_update | Extension string json

definition translate_stream :: "string \<Rightarrow> session_update" where
  "translate_stream t = Message_chunk t"

definition translate_thinking :: "string \<Rightarrow> session_update" where
  "translate_thinking t = Thought_chunk t"

definition translate_error :: "string \<Rightarrow> session_update" where
  "translate_error m = Message_chunk (''[error] '' @ m)"

definition translate_mode_changed :: "string \<Rightarrow> session_update" where
  "translate_mode_changed m = Current_mode m"

definition translate_tool_call :: "string \<Rightarrow> string \<Rightarrow> session_update" where
  "translate_tool_call i n = Tool_announced i n (map_tool_kind n) Status_pending"

definition translate_tool_result :: "string \<Rightarrow> string \<Rightarrow> bool \<Rightarrow> session_update" where
  "translate_tool_result i r failed = Tool_updated i (if failed then Status_failed else Status_completed) (JStr r)"

definition translate_tool_progress :: "string \<Rightarrow> string \<Rightarrow> session_update" where
  "translate_tool_progress i tail = Tool_updated i Status_in_progress (JStr tail)"

definition ext_notification :: "string \<Rightarrow> string \<Rightarrow> json \<Rightarrow> acp_notification" where
  "ext_notification sid ty data = Extension (''_loopal/'' @ ty) (JObj [(''sessionId'', JStr sid), (''data'', data)])"

definition retry_error :: "string \<Rightarrow> string \<Rightarrow> u32 \<Rightarrow> u32 \<Rightarrow> acp_notification" where
  "retry_error sid m attempt most =
     ext_notification sid ''retryError''
       (JObj [(''message'', JStr m), (''attempt'', JInt (uint attempt)), (''maxAttempts'', JInt (uint most))])"

definition token_usage :: "string \<Rightarrow> json \<Rightarrow> acp_notification" where
  "token_usage sid usage = ext_notification sid ''tokenUsage'' usage"

text \<open>The usage as the derived printer of the event writes it.\<close>

definition usage_json :: "u32 \<Rightarrow> u32 \<Rightarrow> u32 \<Rightarrow> u32 \<Rightarrow> u32 \<Rightarrow> u32 \<Rightarrow> json" where
  "usage_json i out window created read think =
     JObj [(''TokenUsage'',
       JObj [(''input_tokens'', JInt (uint i)), (''output_tokens'', JInt (uint out)),
             (''context_window'', JInt (uint window)), (''cache_creation_input_tokens'', JInt (uint created)),
             (''cache_read_input_tokens'', JInt (uint read)), (''thinking_tokens'', JInt (uint think))])]"

fun translate_event :: "event_payload \<Rightarrow> string \<Rightarrow> acp_notification option" where
  "translate_event (Stream t) sid = Some (Session_update sid (translate_stream t))"
| "translate_event (ThinkingStream t) sid = Some (Session_update sid (translate_thinking t))"
| "translate_event (Error m) sid = Some (Session_update sid (translate_error m))"
| "translate_event (ModeChanged m) sid = Some (Session_update sid (translate_mode_changed m))"
| "translate_event (ToolCall i n inp) sid = Some (Session_update sid (translate_tool_call i n))"
| "translate_event (ToolResult i n r failed d c meta) sid =
     Some (Session_update sid (translate_tool_result i r failed))"
| "translate_event (ToolProgress i n tail ms) sid = Some (Session_update sid (translate_tool_progress i tail))"
| "translate_event (RetryError m attempt most) sid = Some (retry_error sid m attempt most)"
| "translate_event (TokenUsage i out window created read think) sid =
     Some (token_usage sid (usage_json i out window created read think))"
| "translate_event _ sid = None"

subsection \<open>The client of the hub\<close>

datatype hub_request =
    Hub_route envelope
  | Hub_control string control_command
  | Hub_interrupt string
  | Hub_list_agents
  | Hub_shutdown string

text \<open>A request as it is sent; \<open>print_envelope\<close> and \<open>print_command\<close> are the derived printers.\<close>

fun hub_wire :: "(envelope \<Rightarrow> json) \<Rightarrow> (control_command \<Rightarrow> json) \<Rightarrow> hub_request \<Rightarrow> string \<times> json" where
  "hub_wire pe pc (Hub_route e) = (''hub/route'', pe e)"
| "hub_wire pe pc (Hub_control t c) = (''hub/control'', JObj [(''target'', JStr t), (''command'', pc c)])"
| "hub_wire pe pc (Hub_interrupt t) = (''hub/interrupt'', JObj [(''target'', JStr t)])"
| "hub_wire pe pc Hub_list_agents = (''hub/list_agents'', JObj [])"
| "hub_wire pe pc (Hub_shutdown t) = (''hub/shutdown_agent'', JObj [(''target'', JStr t)])"

definition send_message_to :: "string \<Rightarrow> user_content \<Rightarrow> hub_request" where
  "send_message_to t c = Hub_route \<lparr>env_source = Human, env_target = t, env_content = c\<rparr>"

definition send_to_root :: "user_content \<Rightarrow> hub_request" where
  "send_to_root c = send_message_to ''main'' c"

definition send_control :: "control_command \<Rightarrow> hub_request" where
  "send_control c = Hub_control ''main'' c"

definition interrupt :: hub_request where
  "interrupt = Hub_interrupt ''main''"

definition shutdown_agent :: hub_request where
  "shutdown_agent = Hub_shutdown ''main''"

definition permission_answer :: "bool \<Rightarrow> json" where
  "permission_answer allow = JObj [(''allow'', JBool allow)]"

definition question_answer :: "string list \<Rightarrow> json" where
  "question_answer as = JObj [(''answers'', JArr (map JStr as))]"

subsection \<open>The state of the adapter\<close>

text \<open>
  What the adapter has sent, to the editor and to the hub. A request to the editor is a permission, with
  the tool and the options of \<open>permission.rs\<close>, or a question.
\<close>

datatype ide_question =
    Permission_asked string string string tool_kind json "(string \<times> string) list"
  | Question_asked json

datatype acp_action =
    Ide_result int acp_result
  | Ide_error int int string
  | Ide_notify acp_notification
  | Ide_request int ide_question
  | Hub_call hub_request
  | Hub_answer int json

text \<open>
  What the one task of the adapter is doing: reading the editor, draining the events of the start,
  running the events of the prompt with this identifier and session, or waiting for the editor's
  answer to the request of this number, for a relay of the hub with that identifier.
\<close>

datatype doing =
    Reading
  | Draining
  | Prompting int string
  | Asking bool int int int string
  | Stopped

datatype hub_arrival = Emitted session_event | Lagged

record adapter =
  session :: "string option"
  next_slot :: int
  slots :: "int list"
  taken :: "(int \<times> json) list"
  doing :: doing
  drawn :: nat
  hub_calls :: nat
  from_ide :: "incoming_message list"
  ide_gone :: bool
  hub_events :: "hub_arrival list"
  events_gone :: bool
  relays :: "incoming list"
  relays_gone :: bool
  sent :: "acp_action list"

definition adapter_new :: adapter where
  "adapter_new =
     \<lparr>session = None, next_slot = 1, slots = [], taken = [], doing = Reading, drawn = 0, hub_calls = 0,
      from_ide = [], ide_gone = False, hub_events = [], events_gone = False, relays = [],
      relays_gone = False, sent = []\<rparr>"

text \<open>Content blocks of a prompt that are no text are skipped.\<close>

datatype prompt_block = Prompt_text string | Prompt_other

datatype permission_outcome = Selected string | Outcome_cancelled | Outcome_other

record acp_outside =
  crate_version :: string
  session_ids :: "nat \<Rightarrow> string"
  hub_says :: "nat \<Rightarrow> hub_request \<Rightarrow> string + json"
  read_prompt :: "json \<Rightarrow> string + (string \<times> prompt_block list)"
  read_outcome :: "json \<Rightarrow> permission_outcome option"

definition act :: "acp_action \<Rightarrow> adapter \<Rightarrow> adapter" where
  "act x a = a\<lparr>sent := sent a @ [x]\<rparr>"

definition call_hub :: "acp_outside \<Rightarrow> hub_request \<Rightarrow> adapter \<Rightarrow> (string + json) \<times> adapter" where
  "call_hub B r a = (hub_says B (hub_calls a) r, act (Hub_call r) (a\<lparr>hub_calls := Suc (hub_calls a)\<rparr>))"

subsection \<open>Requests of the editor\<close>

definition handle_new_session :: "acp_outside \<Rightarrow> int \<Rightarrow> adapter \<Rightarrow> adapter" where
  "handle_new_session B i a =
     (let sid = session_ids B (drawn a)
      in (act (Ide_result i (New_session sid)) (a\<lparr>session := Some sid, drawn := Suc (drawn a)\<rparr>))
           \<lparr>doing := Draining\<rparr>)"

definition handle_list_sessions :: "acp_outside \<Rightarrow> int \<Rightarrow> adapter \<Rightarrow> adapter" where
  "handle_list_sessions B i a =
     (case call_hub B Hub_list_agents a of
        (Inr v, a) \<Rightarrow> act (Ide_result i (Plain (JObj [(''sessions'', v)]))) a
      | (Inl e, a) \<Rightarrow> act (Ide_error i INTERNAL_ERROR e) a)"

definition prompt_text :: "prompt_block list \<Rightarrow> string" where
  "prompt_text bs =
     str_join [NL] (List.map_filter (\<lambda>b. case b of Prompt_text t \<Rightarrow> Some t | Prompt_other \<Rightarrow> None) bs)"

definition handle_prompt :: "acp_outside \<Rightarrow> int \<Rightarrow> json \<Rightarrow> adapter \<Rightarrow> adapter" where
  "handle_prompt B i p a =
     (case read_prompt B p of
        Inl e \<Rightarrow> act (Ide_error i INVALID_REQUEST e) a
      | Inr (wanted, bs) \<Rightarrow>
          (case session a of
             None \<Rightarrow> act (Ide_error i INVALID_REQUEST ''no session'') a
           | Some sid \<Rightarrow>
               if sid \<noteq> wanted then act (Ide_error i INVALID_REQUEST ''session mismatch'') a
               else case call_hub B (send_to_root (text_only (prompt_text bs))) a of
                      (Inl e, a) \<Rightarrow> act (Ide_error i INTERNAL_ERROR e) a
                    | (Inr v, a) \<Rightarrow> a\<lparr>doing := Prompting i sid\<rparr>))"

definition handle_cancel_request :: "acp_outside \<Rightarrow> int \<Rightarrow> adapter \<Rightarrow> adapter" where
  "handle_cancel_request B i a =
     (if session a = None then act (Ide_error i INVALID_REQUEST ''no active session'') a
      else act (Ide_result i (Plain JNull)) (snd (call_hub B interrupt a)))"

definition handle_cancel_notification :: "acp_outside \<Rightarrow> adapter \<Rightarrow> adapter" where
  "handle_cancel_notification B a = (if session a = None then a else snd (call_hub B interrupt a))"

definition handle_close :: "acp_outside \<Rightarrow> int \<Rightarrow> json \<Rightarrow> adapter \<Rightarrow> adapter" where
  "handle_close B i p a =
     (let wanted = (case as_str (jindex p ''sessionId'') of Some t \<Rightarrow> t | None \<Rightarrow> [])
      in if (case session a of Some sid \<Rightarrow> wanted \<noteq> [] \<and> wanted \<noteq> sid | None \<Rightarrow> False)
         then act (Ide_error i INVALID_REQUEST ''session mismatch'') a
         else act (Ide_result i (Plain (JObj []))) ((snd (call_hub B shutdown_agent a))\<lparr>session := None\<rparr>))"

definition mode_of_id :: "string \<Rightarrow> agent_mode option" where
  "mode_of_id m = (if m = ''plan'' then Some Plan else if m = ''act'' then Some Act else None)"

definition handle_set_mode :: "acp_outside \<Rightarrow> int \<Rightarrow> json \<Rightarrow> adapter \<Rightarrow> adapter" where
  "handle_set_mode B i p a =
     (let m = (case as_str (jindex p ''modeId'') of Some t \<Rightarrow> t | None \<Rightarrow> [])
      in case mode_of_id m of
           None \<Rightarrow> act (Ide_error i INVALID_REQUEST (''unknown modeId: '' @ m)) a
         | Some mode \<Rightarrow>
             (case call_hub B (send_control (ModeSwitch mode)) a of
                (Inr v, a) \<Rightarrow> act (Ide_result i (Plain (JObj []))) a
              | (Inl e, a) \<Rightarrow> act (Ide_error i INTERNAL_ERROR e) a))"

definition config_command :: "string \<Rightarrow> string \<Rightarrow> control_command option" where
  "config_command c v =
     (if c = ''model'' then Some (ModelSwitch v) else if c = ''thinking'' then Some (ThinkingSwitch v) else None)"

definition handle_set_config_option :: "acp_outside \<Rightarrow> int \<Rightarrow> json \<Rightarrow> adapter \<Rightarrow> adapter" where
  "handle_set_config_option B i p a =
     (let c = (case as_str (jindex p ''configId'') of Some t \<Rightarrow> t | None \<Rightarrow> []);
          v = (case as_str (jindex p ''value'') of Some t \<Rightarrow> t | None \<Rightarrow> [])
      in case config_command c v of
           None \<Rightarrow> act (Ide_error i INVALID_REQUEST (''unknown configId: '' @ c)) a
         | Some cmd \<Rightarrow>
             (case call_hub B (send_control cmd) a of
                (Inr w, a) \<Rightarrow> act (Ide_result i (Plain (JObj [(''configOptions'', JArr [])]))) a
              | (Inl e, a) \<Rightarrow> act (Ide_error i INTERNAL_ERROR e) a))"

definition acp_dispatch :: "acp_outside \<Rightarrow> int \<Rightarrow> string \<Rightarrow> json \<Rightarrow> adapter \<Rightarrow> adapter" where
  "acp_dispatch B i m p a =
     (if m = ''initialize'' then act (Ide_result i (make_init_response (crate_version B))) a
      else if m = ''authenticate'' then act (Ide_result i (Plain (JObj []))) a
      else if m = ''session/new'' then handle_new_session B i a
      else if m = ''session/list'' then handle_list_sessions B i a
      else if m = ''session/prompt'' then handle_prompt B i p a
      else if m = ''session/cancel'' then handle_cancel_request B i a
      else if m = ''session/close'' then handle_close B i p a
      else if m = ''session/set_mode'' then handle_set_mode B i p a
      else if m = ''session/set_config_option'' then handle_set_config_option B i p a
      else if m = ''session/load''
      then act (Ide_error i INTERNAL_ERROR ''session/load not supported (use session/new)'') a
      else act (Ide_error i METHOD_NOT_FOUND (''unknown: '' @ m)) a)"

text \<open>Here the result of a response goes before its error. Without an entry a response is dropped.\<close>

definition acp_response_value :: "json option \<Rightarrow> json_rpc_error option \<Rightarrow> json" where
  "acp_response_value r e =
     (case r of Some v \<Rightarrow> v | None \<Rightarrow> (case e of Some x \<Rightarrow> error_object x | None \<Rightarrow> JNull))"

definition route_response :: "int \<Rightarrow> json \<Rightarrow> adapter \<Rightarrow> adapter" where
  "route_response i v a =
     (if i \<in> set (slots a) then a\<lparr>slots := removeAll i (slots a), taken := taken a @ [(i, v)]\<rparr> else a)"

fun read_one :: "acp_outside \<Rightarrow> incoming_message \<Rightarrow> adapter \<Rightarrow> adapter" where
  "read_one B (Request i m p) a = acp_dispatch B i m p a"
| "read_one B (Response i r e) a = route_response i (acp_response_value r e) a"
| "read_one B (Notification m p) a = (if m = ''session/cancel'' then handle_cancel_notification B a else a)"

subsection \<open>Events and relayed requests\<close>

text \<open>What ends a prompt; the other events are shown, whichever agent they are of.\<close>

fun ends_prompt :: "event_payload \<Rightarrow> prompt_stop option" where
  "ends_prompt AwaitingInput = Some End_turn"
| "ends_prompt (MaxTurnsReached n) = Some Max_turn_requests"
| "ends_prompt Finished = Some End_turn"
| "ends_prompt _ = None"

definition handle_event :: "session_event \<Rightarrow> string \<Rightarrow> adapter \<Rightarrow> prompt_stop option \<times> adapter" where
  "handle_event e sid a =
     (case ends_prompt (payload e) of
        Some r \<Rightarrow> (Some r, a)
      | None \<Rightarrow>
          (None, case translate_event (payload e) sid of Some n \<Rightarrow> act (Ide_notify n) a | None \<Rightarrow> a))"

definition end_prompt :: "int \<Rightarrow> prompt_stop \<Rightarrow> adapter \<Rightarrow> adapter" where
  "end_prompt i r a = (act (Ide_result i (Prompt_ended r)) a)\<lparr>doing := Reading\<rparr>"

text \<open>A request to the editor takes the next number and waits for the response that has it.\<close>

definition ask_ide :: "bool \<Rightarrow> ide_question \<Rightarrow> int \<Rightarrow> int \<Rightarrow> string \<Rightarrow> adapter \<Rightarrow> adapter" where
  "ask_ide is_permission q rid i sid a =
     (let n = next_slot a
      in (act (Ide_request n q) (a\<lparr>next_slot := n + 1, slots := slots a @ [n]\<rparr>))
           \<lparr>doing := Asking is_permission n rid i sid\<rparr>)"

definition permission_options :: "(string \<times> string) list" where
  "permission_options =
     [(''allow_once'', ''Allow once''), (''allow_always'', ''Always allow''),
      (''reject_once'', ''Reject once''), (''reject_always'', ''Always reject'')]"

definition handle_permission_request :: "int \<Rightarrow> json \<Rightarrow> int \<Rightarrow> string \<Rightarrow> adapter \<Rightarrow> adapter" where
  "handle_permission_request rid p i sid =
     (let text_at = (\<lambda>k. case as_str (jindex p k) of Some t \<Rightarrow> t | None \<Rightarrow> []);
          tool = text_at ''tool_name''
      in ask_ide True
           (Permission_asked sid (text_at ''tool_call_id'') tool (map_tool_kind tool) (jindex p ''tool_input'')
              permission_options) rid i sid)"

definition handle_question_request :: "int \<Rightarrow> json \<Rightarrow> int \<Rightarrow> string \<Rightarrow> adapter \<Rightarrow> adapter" where
  "handle_question_request rid p i sid =
     ask_ide False (Question_asked (JObj [(''questions'', jindex p ''questions'')])) rid i sid"

definition parse_permission_outcome :: "acp_outside \<Rightarrow> json \<Rightarrow> bool" where
  "parse_permission_outcome B v =
     (case read_outcome B v of
        Some (Selected oid) \<Rightarrow> prefix ''allow'' oid
      | Some Outcome_cancelled \<Rightarrow> False
      | Some Outcome_other \<Rightarrow> False
      | None \<Rightarrow> Option.bind (jget v ''outcome'') as_str = Some ''allow'')"

definition acp_answers :: "json \<Rightarrow> string list" where
  "acp_answers v =
     (case as_array (jindex v ''answers'') of Some vs \<Rightarrow> List.map_filter as_str vs | None \<Rightarrow> [''(no answer)''])"

text \<open>The response has come: the relay is answered, and the prompt goes on.\<close>

definition resume :: "acp_outside \<Rightarrow> bool \<Rightarrow> int \<Rightarrow> int \<Rightarrow> string \<Rightarrow> json \<Rightarrow> adapter \<Rightarrow> adapter" where
  "resume B is_permission rid i sid v a =
     (act (Hub_answer rid
             (if is_permission then permission_answer (parse_permission_outcome B v) else question_answer (acp_answers v))) a)
       \<lparr>doing := Prompting i sid\<rparr>"

definition take_event :: "int \<Rightarrow> string \<Rightarrow> adapter \<Rightarrow> adapter" where
  "take_event i sid a =
     (case hub_events a of
        Emitted e # es \<Rightarrow>
          (case handle_event e sid (a\<lparr>hub_events := es\<rparr>) of
             (Some r, a) \<Rightarrow> end_prompt i r a
           | (None, a) \<Rightarrow> a)
      | Lagged # es \<Rightarrow> a\<lparr>hub_events := es\<rparr>
      | [] \<Rightarrow> end_prompt i End_turn a)"

definition take_relay :: "int \<Rightarrow> string \<Rightarrow> adapter \<Rightarrow> adapter" where
  "take_relay i sid a =
     (case relays a of
        In_request rid m p # rs \<Rightarrow>
          if m = ''agent/permission'' then handle_permission_request rid p i sid (a\<lparr>relays := rs\<rparr>)
          else if m = ''agent/question'' then handle_question_request rid p i sid (a\<lparr>relays := rs\<rparr>)
          else a\<lparr>relays := rs\<rparr>
      | In_notification m p # rs \<Rightarrow> a\<lparr>relays := rs\<rparr>
      | [] \<Rightarrow> end_prompt i End_turn a)"

text \<open>
  One step of the task, if it can take one; \<open>relay_first\<close> is the choice of \<open>select!\<close> where an event
  and a relayed request are both there.
\<close>

definition drain_one :: "adapter \<Rightarrow> adapter" where
  "drain_one a =
     (case hub_events a of
        Emitted e # es \<Rightarrow>
          if payload e = AwaitingInput \<or> payload e = Finished then a\<lparr>hub_events := es, doing := Reading\<rparr>
          else a\<lparr>hub_events := es\<rparr>
      | Lagged # es \<Rightarrow> a\<lparr>hub_events := es, doing := Reading\<rparr>
      | [] \<Rightarrow> if events_gone a then a\<lparr>doing := Reading\<rparr> else a)"

definition work :: "acp_outside \<Rightarrow> bool \<Rightarrow> adapter \<Rightarrow> adapter" where
  "work B relay_first a =
     (case doing a of
        Reading \<Rightarrow>
          (case from_ide a of
             m # ms \<Rightarrow> read_one B m (a\<lparr>from_ide := ms\<rparr>)
           | [] \<Rightarrow> if ide_gone a then a\<lparr>doing := Stopped\<rparr> else a)
      | Draining \<Rightarrow> drain_one a
      | Prompting i sid \<Rightarrow>
          (let event = (hub_events a \<noteq> [] \<or> events_gone a); relay = (relays a \<noteq> [] \<or> relays_gone a)
           in if relay \<and> (relay_first \<or> \<not> event) then take_relay i sid a
              else if event then take_event i sid a else a)
      | Asking is_permission n rid i sid \<Rightarrow>
          (case map_of (taken a) n of Some v \<Rightarrow> resume B is_permission rid i sid v a | None \<Rightarrow> a)
      | Stopped \<Rightarrow> a)"

text \<open>What can happen: the editor and the hub send, or end, and the task works.\<close>

datatype acp_op =
    Ide_sends incoming_message
  | Ide_ends
  | Hub_emits hub_arrival
  | Hub_events_end
  | Hub_relays incoming
  | Hub_relays_end
  | Work bool

fun acp_step :: "acp_outside \<Rightarrow> acp_op \<Rightarrow> adapter \<Rightarrow> adapter" where
  "acp_step B (Ide_sends m) a = (if ide_gone a then a else a\<lparr>from_ide := from_ide a @ [m]\<rparr>)"
| "acp_step B Ide_ends a = a\<lparr>ide_gone := True\<rparr>"
| "acp_step B (Hub_emits e) a = (if events_gone a then a else a\<lparr>hub_events := hub_events a @ [e]\<rparr>)"
| "acp_step B Hub_events_end a = a\<lparr>events_gone := True\<rparr>"
| "acp_step B (Hub_relays r) a = (if relays_gone a then a else a\<lparr>relays := relays a @ [r]\<rparr>)"
| "acp_step B Hub_relays_end a = a\<lparr>relays_gone := True\<rparr>"
| "acp_step B (Work relay_first) a = work B relay_first a"

subsection \<open>Properties of the adapter\<close>

text \<open>The requests of the editor among the messages, and those that were answered.\<close>

fun asked_ids :: "incoming_message list \<Rightarrow> int list" where
  "asked_ids [] = []"
| "asked_ids (Request i m p # ms) = i # asked_ids ms"
| "asked_ids (_ # ms) = asked_ids ms"

fun answer_ids :: "acp_action list \<Rightarrow> int list" where
  "answer_ids [] = []"
| "answer_ids (Ide_result i r # xs) = i # answer_ids xs"
| "answer_ids (Ide_error i c t # xs) = i # answer_ids xs"
| "answer_ids (_ # xs) = answer_ids xs"

fun open_prompt :: "doing \<Rightarrow> int list" where
  "open_prompt (Prompting i sid) = [i]"
| "open_prompt (Asking b n rid i sid) = [i]"
| "open_prompt _ = []"

fun sent_until_end :: "bool \<Rightarrow> acp_op list \<Rightarrow> int list" where
  "sent_until_end gone [] = []"
| "sent_until_end gone (Ide_sends (Request i m p) # es) = (if gone then [] else [i]) @ sent_until_end gone es"
| "sent_until_end gone (Ide_ends # es) = sent_until_end True es"
| "sent_until_end gone (_ # es) = sent_until_end gone es"

definition ledger :: "adapter \<Rightarrow> int list" where
  "ledger a = answer_ids (sent a) @ open_prompt (doing a) @ asked_ids (from_ide a)"

lemma answer_ids_append [simp]: "answer_ids (xs @ ys) = answer_ids xs @ answer_ids ys"
  by (induction xs rule: answer_ids.induct) auto

lemma asked_ids_append [simp]: "asked_ids (xs @ ys) = asked_ids xs @ asked_ids ys"
  by (induction xs rule: asked_ids.induct) auto

lemma sent_act [simp]: "sent (act x a) = sent a @ [x]" and kept_act [simp]:
  "doing (act x a) = doing a" "from_ide (act x a) = from_ide a" "hub_events (act x a) = hub_events a"
  "slots (act x a) = slots a" "taken (act x a) = taken a" "session (act x a) = session a"
  "ide_gone (act x a) = ide_gone a" "events_gone (act x a) = events_gone a" "relays (act x a) = relays a"
  "relays_gone (act x a) = relays_gone a"
  by (simp_all add: act_def)

text \<open>The answer of one request is written once; a prompt's is still to come.\<close>

fun updates :: "acp_action list \<Rightarrow> session_update list" where
  "updates [] = []"
| "updates (Ide_notify (Session_update s u) # xs) = u # updates xs"
| "updates (_ # xs) = updates xs"

fun relays_answered :: "acp_action list \<Rightarrow> nat" where
  "relays_answered [] = 0"
| "relays_answered (Hub_answer i v # xs) = Suc (relays_answered xs)"
| "relays_answered (_ # xs) = relays_answered xs"

lemma updates_append [simp]: "updates (xs @ ys) = updates xs @ updates ys"
  by (induction xs rule: updates.induct) auto

lemma relays_answered_append [simp]: "relays_answered (xs @ ys) = relays_answered xs + relays_answered ys"
  by (induction xs rule: relays_answered.induct) auto

definition keeps_queues :: "adapter \<Rightarrow> adapter \<Rightarrow> bool" where
  "keeps_queues a b \<longleftrightarrow>
     from_ide b = from_ide a \<and> ide_gone b = ide_gone a \<and> hub_events b = hub_events a
     \<and> events_gone b = events_gone a \<and> slots b = slots a \<and> taken b = taken a
     \<and> updates (sent b) = updates (sent a) \<and> relays_answered (sent b) = relays_answered (sent a)
     \<and> (doing b = doing a \<or> doing b = Draining \<or> (\<exists>i sid. doing b = Prompting i sid))"

definition answers_one :: "int \<Rightarrow> adapter \<Rightarrow> adapter \<Rightarrow> bool" where
  "answers_one i a b \<longleftrightarrow>
     keeps_queues a b \<and> answer_ids (sent b) @ open_prompt (doing b) = answer_ids (sent a) @ [i]"

lemma act_answers:
  "doing a = Reading \<Longrightarrow> answers_one i a (act (Ide_result i r) a)"
  "doing a = Reading \<Longrightarrow> answers_one i a (act (Ide_error i c t) a)"
  by (simp_all add: answers_one_def keeps_queues_def)

lemma handler_answers:
  assumes "doing a = Reading"
  shows "answers_one i a (handle_new_session B i a)" "answers_one i a (handle_list_sessions B i a)"
    "answers_one i a (handle_prompt B i p a)" "answers_one i a (handle_cancel_request B i a)"
    "answers_one i a (handle_close B i p a)" "answers_one i a (handle_set_mode B i p a)"
    "answers_one i a (handle_set_config_option B i p a)"
proof -
  show "answers_one i a (handle_new_session B i a)"
    using assms by (simp add: handle_new_session_def Let_def answers_one_def keeps_queues_def)
  show "answers_one i a (handle_cancel_request B i a)" "answers_one i a (handle_close B i p a)"
    using assms by (simp_all add: handle_cancel_request_def handle_close_def Let_def answers_one_def keeps_queues_def call_hub_def)
  show "answers_one i a (handle_prompt B i p a)"
    using assms
    by (auto simp: handle_prompt_def answers_one_def keeps_queues_def call_hub_def split: sum.split option.split)
  show "answers_one i a (handle_list_sessions B i a)"
    unfolding handle_list_sessions_def
    using assms by (auto simp: call_hub_def answers_one_def keeps_queues_def split: sum.split)
  show "answers_one i a (handle_set_mode B i p a)"
    using assms
    by (auto simp: handle_set_mode_def Let_def call_hub_def answers_one_def keeps_queues_def split: sum.split option.split)
  show "answers_one i a (handle_set_config_option B i p a)"
    using assms
    by (auto simp: handle_set_config_option_def Let_def call_hub_def answers_one_def keeps_queues_def split: sum.split option.split)
qed

lemma dispatch_answers: "doing a = Reading \<Longrightarrow> answers_one i a (acp_dispatch B i m p a)"
  unfolding acp_dispatch_def by (simp add: handler_answers act_answers)

lemma dispatch_ledger:
  "doing a = Reading \<Longrightarrow> ledger (acp_dispatch B i m p a) = answer_ids (sent a) @ i # asked_ids (from_ide a)"
  using dispatch_answers[of a i B m p] by (simp add: ledger_def answers_one_def keeps_queues_def)

lemma read_ledger:
  "doing a = Reading \<Longrightarrow> ledger (read_one B m a) = answer_ids (sent a) @ asked_ids [m] @ asked_ids (from_ide a)"
proof (cases m)
  case (Response i r e)
  then show "doing a = Reading \<Longrightarrow> ?thesis" by (simp add: route_response_def ledger_def)
next
  case (Notification n p)
  then show "doing a = Reading \<Longrightarrow> ?thesis" by (simp add: ledger_def handle_cancel_notification_def call_hub_def)
qed (simp add: dispatch_ledger)

lemma event_ledger:
  "doing a = Prompting i sid \<Longrightarrow> ledger (take_event i sid a) = ledger a"
  "doing a = Prompting i sid \<Longrightarrow> ledger (take_relay i sid a) = ledger a"
  by (auto simp: take_event_def take_relay_def handle_event_def end_prompt_def ledger_def ask_ide_def Let_def
      handle_permission_request_def handle_question_request_def split: list.split hub_arrival.split incoming.split option.split)

lemma drain_ledger: "doing a = Draining \<Longrightarrow> ledger (drain_one a) = ledger a"
  by (auto simp: drain_one_def ledger_def split: list.split hub_arrival.split)

lemma work_ledger: "ledger (work B c a) = ledger a"
proof (cases "doing a")
  case Reading
  show ?thesis
  proof (cases "from_ide a")
    case (Cons m ms)
    then show ?thesis
      using Reading read_ledger[of "a\<lparr>from_ide := ms\<rparr>" B m] by (cases m) (simp_all add: work_def ledger_def)
  qed (simp add: work_def Reading ledger_def)
next
  case (Prompting i sid)
  then show ?thesis by (auto simp: work_def Let_def event_ledger)
next
  case (Asking b n rid i sid)
  then show ?thesis by (auto simp: work_def resume_def ledger_def split: option.split)
qed (simp_all add: work_def drain_ledger)

lemma read_keeps:
  "doing a = Reading \<Longrightarrow> taken a = [] \<Longrightarrow> slots a = [] \<Longrightarrow> keeps_queues a (read_one B m a)"
proof (cases m)
  case (Request i n p)
  then show "doing a = Reading \<Longrightarrow> ?thesis" using dispatch_answers[of a i B n p] by (simp add: answers_one_def)
qed (simp_all add: route_response_def keeps_queues_def handle_cancel_notification_def call_hub_def)

lemma read_gone: "doing a = Reading \<Longrightarrow> ide_gone (read_one B m a) = ide_gone a"
proof (cases m)
  case (Request i n p)
  then show "doing a = Reading \<Longrightarrow> ?thesis"
    using dispatch_answers[of a i B n p] by (simp add: answers_one_def keeps_queues_def)
qed (simp_all add: route_response_def handle_cancel_notification_def call_hub_def)

lemma take_gone:
  "ide_gone (take_event i sid a) = ide_gone a" "ide_gone (take_relay i sid a) = ide_gone a"
  by (auto simp: take_event_def take_relay_def handle_event_def end_prompt_def ask_ide_def Let_def
      handle_permission_request_def handle_question_request_def split: list.split hub_arrival.split incoming.split option.split)

lemma work_gone: "ide_gone (work B c a) = ide_gone a"
proof (cases "doing a")
  case Reading
  then show ?thesis
    using read_gone[of "a\<lparr>from_ide := tl (from_ide a)\<rparr>" B "hd (from_ide a)"]
    by (cases "from_ide a") (simp_all add: work_def)
next
  case Draining
  then show ?thesis by (auto simp: work_def drain_one_def split: list.split hub_arrival.split)
next
  case (Prompting i sid)
  then show ?thesis by (simp add: work_def Let_def take_gone)
next
  case (Asking b n rid i sid)
  then show ?thesis by (simp add: work_def resume_def split: option.split)
qed (simp add: work_def)

lemma step_ledger:
  "ledger (acp_step B e a) @ sent_until_end (ide_gone (acp_step B e a)) es
     = ledger a @ sent_until_end (ide_gone a) (e # es)"
proof (cases e)
  case (Ide_sends m)
  then show ?thesis by (cases m) (simp_all add: ledger_def)
qed (simp_all add: work_ledger work_gone, simp_all add: ledger_def)

lemma run_ledger: "ledger (run_ops (acp_step B) es a) = ledger a @ sent_until_end (ide_gone a) es"
  by (induction es arbitrary: a) (simp_all add: step_ledger)

text \<open>
  C19. Every request of the editor gets one response, in the order in which they were sent: the responses
  written so far, then the prompt that is being worked on, then what was not read yet, are exactly the
  requests sent.
\<close>

theorem editor_answered_in_order:
  "let a = run_ops (acp_step B) es adapter_new
   in answer_ids (sent a) @ open_prompt (doing a) @ asked_ids (from_ide a) = sent_until_end False es"
  using run_ledger[of B es adapter_new] by (simp add: ledger_def adapter_new_def Let_def)

text \<open>No response is routed while a request to the editor is open: the task that would read it waits.\<close>

fun is_asking :: "doing \<Rightarrow> bool" where
  "is_asking (Asking b n rid i sid) = True"
| "is_asking _ = False"

definition unanswered :: "adapter \<Rightarrow> bool" where
  "unanswered a \<longleftrightarrow>
     taken a = [] \<and> relays_answered (sent a) = 0 \<and> (slots a = [] \<or> is_asking (doing a))"

lemma take_unanswered:
  "unanswered a \<Longrightarrow> doing a = Prompting i sid \<Longrightarrow> unanswered (take_event i sid a)"
  "unanswered a \<Longrightarrow> doing a = Prompting i sid \<Longrightarrow> unanswered (take_relay i sid a)"
  by (auto simp: unanswered_def take_event_def take_relay_def handle_event_def end_prompt_def ask_ide_def Let_def
      handle_permission_request_def handle_question_request_def split: list.split hub_arrival.split incoming.split option.split)

lemma work_unanswered:
  assumes un: "unanswered a"
  shows "unanswered (work B c a)"
proof (cases "doing a")
  case Reading
  then have q: "taken a = []" "slots a = []" using un by (auto simp: unanswered_def)
  show ?thesis
  proof (cases "from_ide a")
    case Nil
    then show ?thesis using un Reading by (simp add: work_def unanswered_def)
  next
    case (Cons m ms)
    then show ?thesis
      using read_keeps[of "a\<lparr>from_ide := ms\<rparr>" B m] q Reading un
      by (simp add: work_def unanswered_def keeps_queues_def)
  qed
next
  case Draining
  then show ?thesis
    using un by (auto simp: work_def drain_one_def unanswered_def split: list.split hub_arrival.split)
next
  case (Prompting i sid)
  then show ?thesis using un take_unanswered by (auto simp: work_def Let_def)
next
  case (Asking b n rid i sid)
  then show ?thesis using un by (simp add: work_def unanswered_def)
qed (use un in \<open>simp add: work_def\<close>)

lemma step_unanswered: "unanswered a \<Longrightarrow> unanswered (acp_step B e a)"
  by (cases e) (auto simp: work_unanswered, auto simp: unanswered_def)

interpretation acp: op_system "acp_step B" unanswered adapter_new for B
  by unfold_locales (auto simp: step_unanswered, simp add: unanswered_def adapter_new_def)

lemma asking_stuck:
  "unanswered a \<Longrightarrow> is_asking (doing a) \<Longrightarrow>
     sent (run_ops (acp_step B) es a) = sent a \<and> doing (run_ops (acp_step B) es a) = doing a"
proof (induction es arbitrary: a)
  case (Cons e es)
  have "sent (acp_step B e a) = sent a \<and> doing (acp_step B e a) = doing a"
    using Cons.prems by (cases e; cases "doing a") (auto simp: work_def unanswered_def)
  then show ?case using Cons.IH[OF step_unanswered[OF Cons.prems(1)]] Cons.prems(2) by simp
qed simp

text \<open>
  C36. The adapter never answers a permission or question that the hub relays to it, and from the first one
  on it does nothing any more, whatever the editor sends: it waits for a response that only it could read.
\<close>

theorem relays_never_answered:
  "let a = run_ops (acp_step B) es adapter_new
   in relays_answered (sent a) = 0
      \<and> (if is_asking (doing a)
         then sent (run_ops (acp_step B) (es @ later) adapter_new) = sent a
              \<and> doing (run_ops (acp_step B) (es @ later) adapter_new) = doing a
         else slots a = [])"
  using acp.inv_reached[of B es] asking_stuck[of "run_ops (acp_step B) es adapter_new" B later]
  by (auto simp: Let_def unanswered_def run_ops_append)

text \<open>What the editor is shown comes from the events, in their order and each at most once.\<close>

definition updates_of :: "hub_arrival list \<Rightarrow> session_update list" where
  "updates_of es =
     concat (map (\<lambda>x. case x of
         Emitted e \<Rightarrow> (case translate_event (payload e) [] of Some (Session_update s u) \<Rightarrow> [u] | _ \<Rightarrow> [])
       | Lagged \<Rightarrow> []) es)"

fun emitted_until_end :: "bool \<Rightarrow> acp_op list \<Rightarrow> hub_arrival list" where
  "emitted_until_end gone [] = []"
| "emitted_until_end gone (Hub_emits x # es) = (if gone then [] else [x]) @ emitted_until_end gone es"
| "emitted_until_end gone (Hub_events_end # es) = emitted_until_end True es"
| "emitted_until_end gone (_ # es) = emitted_until_end gone es"

lemma updates_of_append [simp]: "updates_of (xs @ ys) = updates_of xs @ updates_of ys"
  by (simp add: updates_of_def)

lemma updates_of_Cons: "updates_of (x # xs) = updates_of [x] @ updates_of xs"
  by (simp add: updates_of_def)

lemma updates_of_Lagged: "updates_of [Lagged] = []" "updates_of [] = []"
  by (simp_all add: updates_of_def)

lemma translate_update:
  "updates (case translate_event p sid of Some n \<Rightarrow> [Ide_notify n] | None \<Rightarrow> []) = updates_of [Emitted (event_root p)]"
  by (cases p) (auto simp: updates_of_def event_root_def retry_error_def token_usage_def ext_notification_def)

lemma updates_of_event: "updates_of [Emitted e] = updates_of [Emitted (event_root (payload e))]"
  by (simp add: updates_of_def event_root_def)

definition shown_so_far :: "adapter \<Rightarrow> session_update list" where
  "shown_so_far a = updates (sent a) @ updates_of (hub_events a)"

lemma handle_event_shown:
  "handle_event e sid a = (r, b) \<Longrightarrow>
     hub_events b = hub_events a \<and> events_gone b = events_gone a
     \<and> subseq (updates (sent b)) (updates (sent a) @ updates_of [Emitted e])"
  using translate_update[of "payload e" sid] updates_of_event[of e]
  by (auto simp: handle_event_def split: option.splits)

lemma take_event_shown:
  "subseq (shown_so_far (take_event i sid a)) (shown_so_far a) \<and> events_gone (take_event i sid a) = events_gone a"
proof (cases "hub_events a")
  case Nil
  then show ?thesis by (simp add: take_event_def end_prompt_def shown_so_far_def)
next
  case es: (Cons x es)
  show ?thesis
  proof (cases x)
    case x: (Emitted e)
    obtain r b where b: "handle_event e sid (a\<lparr>hub_events := es\<rparr>) = (r, b)" by (cases "handle_event e sid (a\<lparr>hub_events := es\<rparr>)")
    then have "hub_events b = es \<and> events_gone b = events_gone a
        \<and> subseq (updates (sent b)) (updates (sent a) @ updates_of [Emitted e])"
      using handle_event_shown[OF b] by simp
    moreover from this have "subseq (updates (sent b) @ updates_of es) ((updates (sent a) @ updates_of [Emitted e]) @ updates_of es)"
      by (intro list_emb_append_mono) auto
    ultimately show ?thesis
      using b es x updates_of_Cons[of "Emitted e" es]
      by (cases r) (simp_all add: take_event_def shown_so_far_def end_prompt_def)
  next
    case Lagged
    then show ?thesis using es updates_of_Cons[of Lagged es] by (simp add: take_event_def shown_so_far_def updates_of_Lagged)
  qed
qed

lemma drop_shown: "subseq (updates (sent a) @ updates_of es) (updates (sent a) @ updates_of (x # es))"
  using list_emb_append_mono[OF subseq_order.order_refl[of "updates (sent a)"] list_emb_append2[OF subseq_order.order_refl]]
  by (subst updates_of_Cons) simp

lemma take_relay_shown:
  "shown_so_far (take_relay i sid a) = shown_so_far a \<and> events_gone (take_relay i sid a) = events_gone a"
  by (auto simp: take_relay_def shown_so_far_def ask_ide_def Let_def end_prompt_def handle_permission_request_def
      handle_question_request_def split: list.split incoming.split)

lemma read_shown: "doing a = Reading \<Longrightarrow> shown_so_far (read_one B m a) = shown_so_far a \<and> events_gone (read_one B m a) = events_gone a"
proof (cases m)
  case (Request i n p)
  then show "doing a = Reading \<Longrightarrow> ?thesis"
    using dispatch_answers[of a i B n p] by (simp add: answers_one_def keeps_queues_def shown_so_far_def)
qed (simp_all add: route_response_def handle_cancel_notification_def call_hub_def shown_so_far_def)

lemma work_shown: "subseq (shown_so_far (work B c a)) (shown_so_far a) \<and> events_gone (work B c a) = events_gone a"
proof (cases "doing a")
  case Reading
  then show ?thesis
    using read_shown[of "a\<lparr>from_ide := tl (from_ide a)\<rparr>" B "hd (from_ide a)"]
    by (cases "from_ide a") (simp_all add: work_def shown_so_far_def)
next
  case Draining
  then show ?thesis
    by (auto simp: work_def drain_one_def shown_so_far_def drop_shown split: list.split hub_arrival.split)
next
  case (Prompting i sid)
  then show ?thesis using take_event_shown take_relay_shown by (simp add: work_def Let_def)
next
  case (Asking b n rid i sid)
  then show ?thesis by (simp add: work_def resume_def shown_so_far_def split: option.split)
qed (simp add: work_def)

lemma step_shown:
  "subseq (shown_so_far (acp_step B e a) @ updates_of (emitted_until_end (events_gone (acp_step B e a)) es))
     (shown_so_far a @ updates_of (emitted_until_end (events_gone a) (e # es)))"
proof (cases e)
  case (Hub_emits x)
  then show ?thesis using updates_of_Cons[of x "emitted_until_end False es"] by (simp add: shown_so_far_def updates_of_Lagged)
next
  case (Work c)
  then show ?thesis using work_shown[of B c a] by (simp add: list_emb_append_mono)
qed (simp_all add: shown_so_far_def)

lemma run_shown:
  "subseq (shown_so_far (run_ops (acp_step B) es a)) (shown_so_far a @ updates_of (emitted_until_end (events_gone a) es))"
proof (induction es arbitrary: a)
  case (Cons e es)
  show ?case
    using subseq_order.order_trans[OF Cons.IH[of "acp_step B e a"] step_shown[of B e a es]] by simp
qed (simp add: updates_of_def)

text \<open>
  What the editor is shown of a session is a part of what the hub emitted, translated, in order:
  nothing is shown twice, out of order or without an event.
\<close>

theorem editor_shown_in_order:
  "subseq (updates (sent (run_ops (acp_step B) es adapter_new))) (updates_of (emitted_until_end False es))"
proof -
  let ?a = "run_ops (acp_step B) es adapter_new"
  have "subseq (updates (sent ?a)) (shown_so_far ?a)"
    using list_emb_append_mono[OF subseq_order.order_refl[of "updates (sent ?a)"] list_emb_Nil] by (simp add: shown_so_far_def)
  moreover have "subseq (shown_so_far ?a) (updates_of (emitted_until_end False es))"
    using run_shown[of B es adapter_new] by (simp add: shown_so_far_def adapter_new_def updates_of_def)
  ultimately show ?thesis by (rule subseq_order.order_trans)
qed

text \<open>
  A prompt that only meets events shows every one of them that has a counterpart, in order, and is
  answered by the first that stops it.
\<close>

lemma prompt_shows:
  assumes "doing a = Prompting i sid" "relays a = []" "\<not> relays_gone a"
    and "hub_events a = map Emitted es @ [Emitted e]" "list_all (\<lambda>e. ends_prompt (payload e) = None) es"
    and "ends_prompt (payload e) = Some r"
  shows "sent (run_ops (acp_step B) (replicate (Suc (length es)) (Work c)) a)
       = sent a @ map Ide_notify (List.map_filter (\<lambda>e. translate_event (payload e) sid) es)
           @ [Ide_result i (Prompt_ended r)]"
  using assms
proof (induction es arbitrary: a)
  case Nil
  then show ?case by (simp add: work_def take_event_def handle_event_def end_prompt_def map_filter_simps)
next
  case (Cons d ds)
  let ?b = "work B c a"
  have b: "?b = (case translate_event (payload d) sid of
        Some n \<Rightarrow> act (Ide_notify n) (a\<lparr>hub_events := map Emitted ds @ [Emitted e]\<rparr>)
      | None \<Rightarrow> a\<lparr>hub_events := map Emitted ds @ [Emitted e]\<rparr>)"
    using Cons.prems by (simp add: work_def take_event_def handle_event_def)
  have "sent (run_ops (acp_step B) (replicate (Suc (length ds)) (Work c)) ?b)
      = sent ?b @ map Ide_notify (List.map_filter (\<lambda>e. translate_event (payload e) sid) ds) @ [Ide_result i (Prompt_ended r)]"
    using Cons.prems by (intro Cons.IH) (simp_all add: b split: option.split)
  then show ?case by (simp add: b map_filter_simps split: option.split)
qed

text \<open>A started session: the editor has its session and the events of the start are drained.\<close>

definition editor :: acp_outside where
  "editor = \<lparr>crate_version = ''0.1'', session_ids = (\<lambda>n. ''s''), hub_says = (\<lambda>n r. Inr JNull),
     read_prompt = (\<lambda>p. Inr (''s'', [Prompt_text ''go''])),
     read_outcome = (\<lambda>v. map_option Selected (Option.bind (jget v ''optionId'') as_str))\<rparr>"

definition greeting :: "acp_op list" where
  "greeting =
     [Ide_sends (Request 1 ''session/new'' JNull), Work False, Hub_emits (Emitted (event_root AwaitingInput)),
      Work False, Ide_sends (Request 2 ''session/prompt'' JNull), Work False]"

lemmas acp_run = acp_step.simps work_def handle_new_session_def handle_prompt_def acp_dispatch_def call_hub_def
  drain_one_def take_event_def take_relay_def handle_event_def end_prompt_def greeting_def editor_def adapter_new_def
  act_def event_root_def event_named_def handle_permission_request_def ask_ide_def jindex_def
  prompt_text_def map_filter_simps send_to_root_def send_message_to_def text_only_def Let_def

text \<open>The end of a sub-agent ends the prompt of the root.\<close>

lemma subagent_ends_prompt:
  "run_ops (acp_step editor) (greeting @ [Hub_emits (Emitted (event_named ''helper'' Finished)), Work False]) adapter_new
   = (run_ops (acp_step editor) (greeting @ [Hub_emits (Emitted (event_root Finished)), Work False]) adapter_new)"
  by (simp add: acp_run)

text \<open>
  A cancellation is not read while a prompt runs, so nothing is ever interrupted by one: the hub is
  asked to interrupt only between prompts.
\<close>

lemma prompt_reads_nothing:
  "doing a = Prompting i sid \<Longrightarrow> from_ide (work B c a) = from_ide a"
  by (auto simp: work_def Let_def take_event_def take_relay_def handle_event_def end_prompt_def ask_ide_def
      handle_permission_request_def handle_question_request_def split: list.split hub_arrival.split incoming.split option.split)

text \<open>A second session waits for events of a start that has long been: the adapter hangs.\<close>

lemma second_session_hangs:
  "let a = run_ops (acp_step editor)
       (greeting @ [Hub_emits (Emitted (event_root AwaitingInput)), Work False,
         Ide_sends (Request 3 ''session/new'' JNull), Work False]) adapter_new
   in answer_ids (sent a) = [1, 2, 3] \<and> doing a = Draining
      \<and> work editor c (acp_step editor (Ide_sends m) a) = acp_step editor (Ide_sends m) a"
  by (simp add: acp_run)

text \<open>The kinds are of names that no tool has.\<close>

lemma kinds_of_real_tools:
  "map_tool_kind ''Fetch'' = Kind_other \<and> map_tool_kind ''MoveFile'' = Kind_other
   \<and> map_tool_kind ''Delete'' = Kind_other \<and> map_tool_kind ''EnterPlanMode'' = Kind_other"
  by (simp add: map_tool_kind_def)

end
