(* ===== verification/Spec2Isabelle.thy ===== *)
theory Spec2Isabelle
  imports Line_Diff Patch_Apply Sandbox_Command Scheduler Agent_Loop Ui_Session Projection Agent_Hub Agent_Tools
    Task_Store Answers Agent_Server Acp
begin

section \<open>Loopal\<close>

text \<open>
  A verification library for the core of Loopal, a multi-agent coding assistant written in Rust:
  \<open>crates/\<close> holds one package per subsystem. An agent keeps a conversation (\<open>loopal-message\<close>,
  \<open>loopal-context\<close>), sends it to a language model, runs the tools the model asks for
  (\<open>crates/tools\<close>, over the backend of \<open>loopal-backend\<close>) after the permission mode, the sandbox
  (\<open>loopal-sandbox\<close>) and, in auto mode, a classifier (\<open>loopal-auto-mode\<close>) have agreed, and takes the
  results back into the conversation. Timed prompts come from \<open>loopal-scheduler\<close>.

  \<^bold>\<open>Reading a theory beside its source.\<close> Each theory models the files it names and keeps the order and
  the names of their definitions; Rust structures are records, enumerations datatypes, \<open>Result\<close> is
  a sum with the error on the left, \<open>Option\<close> is \<open>option\<close>. An operation with \<open>&mut self\<close> is a function
  that returns the updated record. Where the source can panic the model returns \<open>None\<close> (or a value
  of its own that says so), and unsigned arithmetic is written with the saturation, wrap-around or
  width of the source. A string is the list of its UTF-8 bytes (\<open>Rust_Str\<close>), so
  that cuts at byte positions, and the panics of cuts inside a character, are visible.

  \<^bold>\<open>Theories.\<close>
  \<^item> \<open>Prelude\<close>: saturating arithmetic, lemmas on lists, and the
    interfaces for systems that run a list of operations: \<open>op_system\<close> (each operation keeps the
    invariant), \<open>guarded_system\<close> (each allowed one does), \<open>latched_system\<close> (a latch that
    stays set until reset). Every state machine below interprets one of them.
  \<^item> \<open>Rust_Str\<close>, \<open>Rust_Search\<close>, \<open>Rust_Path\<close>: the parts of \<open>str\<close> and \<open>std::path\<close> the sources
    use. \<open>Json\<close>: \<open>serde_json::Value\<close> with its accessors.
  \<^item> \<open>Message\<close>: \<open>message.rs\<close> and \<open>normalize.rs\<close>. \<open>Budget\<close>: \<open>token_counter.rs\<close>, \<open>budget.rs\<close>.
    \<open>Ingestion\<close>: \<open>ingestion.rs\<close>. \<open>Compaction\<close>: \<open>compaction.rs\<close>. \<open>Degradation\<close>:
    \<open>degradation.rs\<close>. \<open>Store\<close>: \<open>store.rs\<close>, on top of all of these.
  \<^item> \<open>Tool_Output\<close>: \<open>truncate.rs\<close> and \<open>output_tail.rs\<close> of \<open>loopal-tool-api\<close>. \<open>Tool_Api\<close>: results
    and permissions.
  \<^item> \<open>Sandbox_Path\<close>, \<open>Sandbox_Command\<close>: the policy, path, command, environment and network checks of
    \<open>loopal-sandbox\<close>, and the backend's \<open>resolve\<close>.
  \<^item> \<open>Backend_Fs\<close>: \<open>loopal-backend/src/fs.rs\<close> on a disk whose system calls may fail. \<open>Edit_Tools\<close>: the
    tools edit, multi-edit and write over the interface \<open>file_backend\<close>, interpreted on the local
    backend. \<open>Line_Diff\<close>, \<open>Patch_Parse\<close>, \<open>Patch_Apply\<close>: \<open>edit-core\<close> and the tool apply-patch.
  \<^item> \<open>Auto_Mode\<close>: circuit breaker, decision cache and classifier. \<open>Scheduler\<close>: cron tasks.
  \<^item> \<open>Failure\<close>: \<open>loopal-error\<close>. \<open>Provider_Api\<close>, \<open>Models\<close>: \<open>loopal-provider-api\<close>, and of
    \<open>loopal-provider\<close> the catalog of models, the overrides and the registry of providers.
  \<^item> \<open>Session_Log\<close>: \<open>loopal-storage\<close> and the session manager. \<open>Observers\<close>: the loop detector and the
    diff tracker. \<open>Tool_Run\<close>: the registry of tools, hooks, and the execution of one tool.
  \<^item> \<open>Runner\<close>: the state of the agent loop, its events and its error monad (\<open>and_then\<close>).
    \<open>Tool_Batch\<close>: the execution of the calls of one answer. \<open>Llm_Call\<close>: calling the model.
    \<open>Smart_Compact\<close>: summaries. \<open>Frame\<close>: what these actions leave alone. \<open>Turn\<close>: the rounds of a
    turn. \<open>Agent_Loop\<close>: input, control commands, rewinding, and the outer loop.
  \<^item> \<open>Protocol\<close>, \<open>Event\<close>: \<open>loopal-protocol\<close> (envelopes, content, control commands, events, the observable
    state); \<open>Projection\<close>: \<open>projection.rs\<close>. \<open>Conversation\<close>, \<open>Ui_Session\<close>: \<open>loopal-session\<close>, what a user
    interface shows of each agent, the inbox, and the operations of the controller.
  \<^item> \<open>Json_Rpc\<close>: the messages, frames and connections of \<open>loopal-ipc\<close>. \<open>Agent_Hub\<close>:
    \<open>loopal-agent-hub\<close>, the registry of agents, their completion and the relay of permissions.
  \<^item> \<open>Task_Store\<close>, \<open>Agent_Config\<close>, \<open>Agent_Tools\<close>: \<open>loopal-agent\<close>, the tasks and their file, the files of
    sub-agents, and the tools that talk to the hub and the scheduler; \<open>Worktree\<close>: \<open>loopal-git\<close>.
  \<^item> \<open>Provider_Stream\<close>, \<open>Anthropic\<close>, \<open>Openai\<close>, \<open>Google\<close>, \<open>Compat\<close>: the clients of
    \<open>loopal-provider\<close>, requests and event parsers; the interface \<open>event_parser\<close> is what they share.
    \<open>Answers\<close>: the clients together with the runtime.
  \<^item> \<open>Settings\<close>: \<open>loopal-config\<close>, the layers of the configuration and how they are merged. \<open>Mcp\<close>:
    \<open>loopal-mcp\<close>, connections to tool servers, their routes, restarts and calls. \<open>Kernel_Setup\<close>:
    \<open>loopal-kernel\<close>, providers and tools from the settings, the environment and the servers.
  \<^item> \<open>Agent_Server\<close>: \<open>loopal-agent-server\<close>, the process of an agent: the loop that starts sessions and
    forwards messages to them, and the clients of a session. \<open>Acp\<close>: \<open>loopal-acp\<close>, the adapter that makes
    an editor a user interface of the hub; its one task is a machine over three queues.

  \<^bold>\<open>What the lemmas show.\<close> The properties are the theorems whose text begins with \<open>C\<close> and a
  number. In groups:
  \<^item> conversations: normalization and the repair of tool pairs are closed and lose nothing; the store keeps
    its invariant over any operations, a whole session only uses these operations, and the model is
    only ever given closed conversations; what degradation may change, and when the budget is met;
  \<^item> tools: every call of a batch is answered once, nothing runs unchecked, hooks and tools act in order,
    edits and writes are atomic, diffs and patches spell what they should;
  \<^item> permissions: the classifier fails closed, the breaker trips when it should, allowed writes stay
    inside the writable directories;
  \<^item> progress: retries are bounded, a turn ends, a session that ends says so, one tick of the scheduler
    is a filter, a diff is minimal;
  \<^item> persistence: what was appended is loaded, and the log follows the conversation, except where theorems
    show that it does not (after summaries, and for scheduled messages);
  \<^item> display: it stays consistent over any events and input, streamed text and results are shown where
    they belong, typed messages leave the inbox in order;
  \<^item> between processes: messages arrive as sent, every request is answered once, who waits for an agent is
    told its output, the end of an agent reaches its children, a relayed permission is the first answer.
  \<^item> services: requests hold the conversation, answers come through however they are cut, and an answer goes
    back as it came, except where theorems show that it does not;
  \<^item> agent tools: tasks survive a restart, waiting gives the output of the agent, worktrees stay inside.
  \<^item> configuration: the last layer that speaks decides, the environment last of all; tools of the program keep
    their names against those of servers, and a call is repeated at most once.
  \<^item> servers: an agent's server and the adapter for editors answer every request once and in order; the adapter
    never answers what the hub relays to it.

  \<^bold>\<open>Arguments of the model.\<close> What is not in the repository is an argument of the definitions that
  use it, with documented behaviour as a named hypothesis where one is needed: the tokenizer, the
  printer and parser of JSON, Unicode case conversion, \<open>canonicalize\<close> and the file system, glob
  patterns, the cron package, random draws, clocks, and the language model itself.

  \<^bold>\<open>Bounds and fuel.\<close> Loops of the source are structural recursion or \<open>fun\<close> with a measure, so every
  operation is total. \<open>enforce_budget\<close> drops at most ten groups, as in
  the source; \<open>fresh_id\<close> uses up its list of random draws (\<open>scheduler_invariant\<close> says which lists
  suffice); \<open>retry_loop\<close> has the measure of the retries left. A turn and a session may go on for
  ever in the source: \<open>turn_loop\<close> and \<open>run_loop\<close> use up a list of what each round meets and answer
  \<open>None\<close> when it ends too early; \<open>turn_ends\<close> says how long a list is enough.

  \<^bold>\<open>Not modelled.\<close> Terminal and editor front ends, the sending of HTTP requests, MCP clients, the
  wrapper that starts the sandbox program of the platform, and log output. Concurrency is modelled where a
  mutex makes each operation one step: then any interleaving is a list of operations.

  \<^bold>\<open>Plan.\<close> \<close>

end
